(* ===== verification/Prelude.thy ===== *)
theory Prelude
  imports Main
begin

section \<open>Prelude: results, machine integers, transition systems\<close>

text \<open>
  What every component shares: Rust's \<open>Result\<close> as a sum type with elimination rules, the
  checked and saturating integer operations the server uses, and one locale for
  "an invariant kept by every step holds in every reachable state", which each stateful
  component interprets with its own step relation.
\<close>

subsection \<open>Results\<close>

text \<open>
  \<open>Result<T, &'static str>\<close> is \<open>string + 't\<close>. The abbreviations keep the source's
  constructor names.
\<close>

type_synonym 'a res = "string + 'a"

abbreviation Ok :: "'a \<Rightarrow> 'e + 'a" where "Ok x \<equiv> Inr x"
abbreviation Err :: "'e \<Rightarrow> 'e + 'a" where "Err e \<equiv> Inl e"

definition rbind :: "'e + 'a \<Rightarrow> ('a \<Rightarrow> 'e + 'b) \<Rightarrow> 'e + 'b" where
  "rbind m f = (case m of Err e \<Rightarrow> Err e | Ok x \<Rightarrow> f x)"

definition ok_or :: "'a option \<Rightarrow> 'e \<Rightarrow> 'e + 'a" where
  "ok_or m e = (case m of None \<Rightarrow> Err e | Some x \<Rightarrow> Ok x)"

definition check :: "bool \<Rightarrow> 'e \<Rightarrow> 'e + unit" where
  "check b e = (if b then Ok () else Err e)"

definition map_err :: "('e \<Rightarrow> 'f) \<Rightarrow> 'e + 'a \<Rightarrow> 'f + 'a" where
  "map_err f m = (case m of Err e \<Rightarrow> Err (f e) | Ok x \<Rightarrow> Ok x)"

fun is_ok :: "'e + 'a \<Rightarrow> bool" where
  "is_ok (Inr _) = True"
| "is_ok (Inl _) = False"

named_theorems result_iff

lemma rbind_simps [simp]: "rbind (Ok x) f = f x" "rbind (Err e) f = Err e"
  by (simp_all add: rbind_def)

lemma rbind_Ok_iff [result_iff]: "rbind m f = Ok y \<longleftrightarrow> (\<exists>x. m = Ok x \<and> f x = Ok y)"
  by (cases m) (auto simp: rbind_def)

lemma rbind_Err_iff [result_iff]:
  "rbind m f = Err e \<longleftrightarrow> m = Err e \<or> (\<exists>x. m = Ok x \<and> f x = Err e)"
  by (cases m) (auto simp: rbind_def)

lemma ok_or_Ok_iff [result_iff]: "ok_or m e = Ok x \<longleftrightarrow> m = Some x"
  by (cases m) (auto simp: ok_or_def)

lemma ok_or_simps [simp]: "ok_or (Some x) e = Ok x" "ok_or None e = Err e"
  by (simp_all add: ok_or_def)

lemma check_Ok_iff [result_iff]: "check b e = Ok u \<longleftrightarrow> b"
  by (simp add: check_def)

lemma check_simps [simp]: "check True e = Ok ()" "check False e = Err e"
  by (simp_all add: check_def)

lemma map_err_Ok_iff [result_iff]: "map_err f m = Ok x \<longleftrightarrow> m = Ok x"
  by (cases m) (auto simp: map_err_def)

lemma map_err_simps [simp]: "map_err f (Ok x) = Ok x" "map_err f (Err e) = Err (f e)"
  by (simp_all add: map_err_def)

lemma is_ok_iff: "is_ok m \<longleftrightarrow> (\<exists>x. m = Ok x)"
  by (cases m) auto

subsection \<open>Machine integers\<close>

text \<open>
  Unsigned values are naturals and signed values are integers; the width is written out
  in the operations the source names: \<open>checked_add\<close> returns \<open>None\<close> past the maximum,
  \<open>saturating_add\<close> stops at it. Only the access sequence of the response cache wraps
  around, and writes its modulus out.
\<close>

definition u16_max :: nat where "u16_max = 65535"
definition u32_max :: nat where "u32_max = 4294967295"
definition u64_max :: nat where "u64_max = 18446744073709551615"
definition u128_max :: nat where "u128_max = 340282366920938463463374607431768211455"
definition i64_max :: int where "i64_max = 9223372036854775807"
definition i64_min :: int where "i64_min = - 9223372036854775808"
definition i128_max :: int where "i128_max = 170141183460469231731687303715884105727"
definition i128_min :: int where "i128_min = - 170141183460469231731687303715884105728"

lemmas int_limits = u16_max_def u32_max_def u64_max_def u128_max_def
  i64_max_def i64_min_def i128_max_def i128_min_def

definition in_i64 :: "int \<Rightarrow> bool" where "in_i64 x \<longleftrightarrow> i64_min \<le> x \<and> x \<le> i64_max"
definition in_i128 :: "int \<Rightarrow> bool" where "in_i128 x \<longleftrightarrow> i128_min \<le> x \<and> x \<le> i128_max"

definition checked_unsigned :: "nat \<Rightarrow> nat \<Rightarrow> nat option" where
  "checked_unsigned bound x = (if x \<le> bound then Some x else None)"

definition checked_add_u64 :: "nat \<Rightarrow> nat \<Rightarrow> nat option" where
  "checked_add_u64 a b = checked_unsigned u64_max (a + b)"

definition saturating_add_u64 :: "nat \<Rightarrow> nat \<Rightarrow> nat" where
  "saturating_add_u64 a b = min u64_max (a + b)"

definition saturating_add_u128 :: "nat \<Rightarrow> nat \<Rightarrow> nat" where
  "saturating_add_u128 a b = min u128_max (a + b)"

definition saturating_add_u32 :: "nat \<Rightarrow> nat \<Rightarrow> nat" where
  "saturating_add_u32 a b = min u32_max (a + b)"

definition checked_i64 :: "int \<Rightarrow> int option" where
  "checked_i64 x = (if in_i64 x then Some x else None)"

definition checked_i128 :: "int \<Rightarrow> int option" where
  "checked_i128 x = (if in_i128 x then Some x else None)"

definition saturate_i64 :: "int \<Rightarrow> int" where
  "saturate_i64 x = max i64_min (min i64_max x)"

lemma checked_add_u64_Some [simp]:
  "checked_add_u64 a b = Some c \<longleftrightarrow> a + b \<le> u64_max \<and> c = a + b"
  by (auto simp: checked_add_u64_def checked_unsigned_def)

lemma checked_add_u64_None [simp]: "checked_add_u64 a b = None \<longleftrightarrow> u64_max < a + b"
  by (auto simp: checked_add_u64_def checked_unsigned_def)

lemma saturating_add_u64_le [simp]: "saturating_add_u64 a b \<le> u64_max"
  by (simp add: saturating_add_u64_def)

lemma saturating_add_u64_exact: "a + b \<le> u64_max \<Longrightarrow> saturating_add_u64 a b = a + b"
  by (simp add: saturating_add_u64_def)

lemma saturating_add_u64_ge: "a \<le> u64_max \<Longrightarrow> a \<le> saturating_add_u64 a b"
  by (simp add: saturating_add_u64_def)

lemma saturating_add_u64_mono:
  "a \<le> a' \<Longrightarrow> b \<le> b' \<Longrightarrow> saturating_add_u64 a b \<le> saturating_add_u64 a' b'"
  by (simp add: saturating_add_u64_def)

lemma checked_i64_Some [simp]: "checked_i64 x = Some y \<longleftrightarrow> in_i64 x \<and> y = x"
  by (auto simp: checked_i64_def)

lemma checked_i128_Some [simp]: "checked_i128 x = Some y \<longleftrightarrow> in_i128 x \<and> y = x"
  by (auto simp: checked_i128_def)

lemma saturate_i64_exact: "in_i64 x \<Longrightarrow> saturate_i64 x = x"
  by (simp add: saturate_i64_def in_i64_def)

lemma saturate_i64_in [simp]: "in_i64 (saturate_i64 x)"
  by (simp add: saturate_i64_def in_i64_def int_limits)

text \<open>Rust's \<open>%\<close> on a signed value truncates towards zero.\<close>

definition trunc_rem :: "int \<Rightarrow> int \<Rightarrow> int" where
  "trunc_rem a b = sgn a * (\<bar>a\<bar> mod \<bar>b\<bar>)"

lemma trunc_rem_nonneg: "0 \<le> a \<Longrightarrow> 0 < b \<Longrightarrow> trunc_rem a b = a mod b"
  by (cases "a = 0") (simp_all add: trunc_rem_def)

subsection \<open>Transition systems with an invariant\<close>

text \<open>
  A component with state gives a start predicate, a step relation and an invariant; the
  locale gives it the reachable states and the invariant on all of them.
\<close>

locale transition_system =
  fixes start :: "'s \<Rightarrow> bool"
    and step :: "'s \<Rightarrow> 's \<Rightarrow> bool"
    and inv :: "'s \<Rightarrow> bool"
  assumes start_inv: "start s \<Longrightarrow> inv s"
    and step_inv: "inv s \<Longrightarrow> step s t \<Longrightarrow> inv t"
begin

lemma run_inv: "step\<^sup>*\<^sup>* s t \<Longrightarrow> inv s \<Longrightarrow> inv t"
  by (induction rule: rtranclp_induct) (auto intro: step_inv)

lemma reachable_inv: "start s \<Longrightarrow> step\<^sup>*\<^sup>* s t \<Longrightarrow> inv t"
  using run_inv start_inv by blast

text \<open>A measure that no step decreases is monotone along every run.\<close>

lemma run_mono:
  assumes "\<And>s t. inv s \<Longrightarrow> step s t \<Longrightarrow> (f s :: 'b :: preorder) \<le> f t"
    and "step\<^sup>*\<^sup>* s t" and "inv s"
  shows "f s \<le> f t"
  using assms(2,3)
proof (induction rule: rtranclp_induct)
  case base
  show ?case by simp
next
  case (step t u)
  from run_inv [OF step.hyps(1) step.prems] have "inv t" .
  with step.hyps(2) have "f t \<le> f u" by (rule assms(1)[rotated])
  with step.IH [OF step.prems] show ?case by (rule order_trans)
qed

end

subsection \<open>Lists\<close>

lemma find_Some_iff2: "find p xs = Some x \<Longrightarrow> p x \<and> x \<in> set xs"
  by (induction xs) (auto split: if_splits)

lemma find_None_set: "find p xs = None \<longleftrightarrow> (\<forall>x \<in> set xs. \<not> p x)"
  by (induction xs) auto

lemma sorted_wrt_filter: "sorted_wrt r xs \<Longrightarrow> sorted_wrt r (filter p xs)"
  by (induction xs) auto

lemma mem_map_filter: "y \<in> set (List.map_filter f xs) \<longleftrightarrow> (\<exists>x \<in> set xs. f x = Some y)"
  by (induction xs) (auto simp: map_filter_simps split: option.splits)

lemma sorted_wrt_last: "sorted_wrt r xs \<Longrightarrow> x \<in> set xs \<Longrightarrow> x = last xs \<or> r x (last xs)"
  by (induction xs) (auto split: if_splits)

lemma last_in_list: "xs \<noteq> [] \<Longrightarrow> last xs \<in> set xs"
  by (rule last_in_set)

definition last_opt :: "'a list \<Rightarrow> 'a option" where
  "last_opt xs = (if xs = [] then None else Some (last xs))"

lemma last_opt_simps [simp]: "last_opt [] = None" "last_opt (xs @ [x]) = Some x"
  by (simp_all add: last_opt_def)

lemma last_opt_Some: "last_opt xs = Some x \<longleftrightarrow> xs \<noteq> [] \<and> last xs = x"
  by (auto simp: last_opt_def)

end
