(* ===== verification/Ordered_Map.thy ===== *)
theory Ordered_Map
  imports Prelude "HOL-Library.Char_ord" "HOL-Library.List_Lexorder"
begin

section \<open>Ordered maps\<close>

text \<open>
  The server keeps its ledgers in \<open>BTreeMap\<close>s. Where the order of iteration is visible
  (the first source with a reference, the order in which records are summed) a finite
  partial function is not enough, so a \<open>BTreeMap\<close> is the list of its entries in
  ascending key order. Keys are byte strings, compared byte by byte as Rust compares
  \<open>String\<close>s.
\<close>

type_synonym ('k, 'v) btree = "('k \<times> 'v) list"

named_theorems btree_simps

definition bt_get :: "('k, 'v) btree \<Rightarrow> 'k \<Rightarrow> 'v option" where
  "bt_get m k = map_of m k"

fun bt_insert :: "'k :: linorder \<Rightarrow> 'v \<Rightarrow> ('k, 'v) btree \<Rightarrow> ('k, 'v) btree" where
  "bt_insert k v [] = [(k, v)]"
| "bt_insert k v (e # m) =
     (if fst e < k then e # bt_insert k v m
      else if fst e = k then (k, v) # m
      else (k, v) # e # m)"

definition bt_remove :: "'k \<Rightarrow> ('k, 'v) btree \<Rightarrow> ('k, 'v) btree" where
  "bt_remove k m = filter (\<lambda>e. fst e \<noteq> k) m"

definition bt_wf :: "('k :: linorder, 'v) btree \<Rightarrow> bool" where
  "bt_wf m \<longleftrightarrow> sorted_wrt (<) (map fst m)"

definition bt_values :: "('k, 'v) btree \<Rightarrow> 'v list" where
  "bt_values m = map snd m"

definition bt_keys :: "('k, 'v) btree \<Rightarrow> 'k list" where
  "bt_keys m = map fst m"

definition bt_contains :: "('k, 'v) btree \<Rightarrow> 'k \<Rightarrow> bool" where
  "bt_contains m k \<longleftrightarrow> bt_get m k \<noteq> None"

text \<open>\<open>values_mut().find(p)\<close>: the key and value of the first entry that satisfies \<open>p\<close>.\<close>

definition bt_find :: "('v \<Rightarrow> bool) \<Rightarrow> ('k, 'v) btree \<Rightarrow> ('k \<times> 'v) option" where
  "bt_find p m = find (\<lambda>e. p (snd e)) m"

subsection \<open>The interface\<close>

text \<open>
  What the components rely on: \<open>get\<close> after \<open>insert\<close> and \<open>remove\<close>, and that the
  well-formedness of the representation is kept. Bulk loading is proved once, here.
\<close>

locale ordered_map =
  fixes empty :: "'m"
    and insert :: "'k :: linorder \<Rightarrow> 'v \<Rightarrow> 'm \<Rightarrow> 'm"
    and remove :: "'k \<Rightarrow> 'm \<Rightarrow> 'm"
    and get :: "'m \<Rightarrow> 'k \<Rightarrow> 'v option"
    and wf :: "'m \<Rightarrow> bool"
  assumes get_empty: "get empty k = None"
    and get_insert: "get (insert k v m) k' = (if k' = k then Some v else get m k')"
    and get_remove: "get (remove k m) k' = (if k' = k then None else get m k')"
    and wf_empty: "wf empty"
    and wf_insert: "wf m \<Longrightarrow> wf (insert k v m)"
    and wf_remove: "wf m \<Longrightarrow> wf (remove k m)"
begin

lemma get_insert_same: "get (insert k v m) k = Some v"
  by (simp add: get_insert)

lemma get_insert_other: "k' \<noteq> k \<Longrightarrow> get (insert k v m) k' = get m k'"
  by (simp add: get_insert)

lemma wf_fold_insert: "wf m \<Longrightarrow> wf (fold (\<lambda>(k, v). insert k v) es m)"
  by (induction es arbitrary: m) (auto intro: wf_insert)

lemma get_fold_insert:
  "get (fold (\<lambda>(k, v). insert k v) es m) k =
     (case map_of (rev es) k of None \<Rightarrow> get m k | Some v \<Rightarrow> Some v)"
  by (induction es arbitrary: m) (auto simp: get_insert map_add_def split: option.splits)

lemma insert_remove_get: "get (remove k (insert k v m)) k' = get (remove k m) k'"
  by (simp add: get_insert get_remove)

end

subsection \<open>The list representation\<close>

lemma bt_get_Nil [simp]: "bt_get [] k = None"
  by (simp add: bt_get_def)

lemma bt_get_Cons: "bt_get (e # m) k = (if k = fst e then Some (snd e) else bt_get m k)"
  by (cases e) (simp add: bt_get_def)

lemma bt_get_insert [simp]:
  "bt_get (bt_insert k v m) k' = (if k' = k then Some v else bt_get m k')"
  by (induction m) (auto simp: bt_get_Cons)

lemma bt_get_remove [simp]:
  "bt_get (bt_remove k m) k' = (if k' = k then None else bt_get m k')"
  by (induction m) (auto simp: bt_get_Cons bt_remove_def)

lemma set_bt_insert: "fst ` set (bt_insert k v m) = insert k (fst ` set m)"
  by (induction m) (auto simp: image_iff)

lemma bt_wf_Nil [simp]: "bt_wf []"
  by (simp add: bt_wf_def)

lemma bt_wf_Cons: "bt_wf (e # m) \<longleftrightarrow> (\<forall>k \<in> fst ` set m. fst e < k) \<and> bt_wf m"
  by (auto simp: bt_wf_def)

lemma bt_wf_insert [simp]: "bt_wf m \<Longrightarrow> bt_wf (bt_insert k v m)"
proof (induction m)
  case Nil
  show ?case by (simp add: bt_wf_Cons)
next
  case (Cons e m)
  from Cons have wf: "bt_wf m" and below: "\<forall>k' \<in> fst ` set m. fst e < k'"
    by (auto simp: bt_wf_Cons)
  with Cons.IH have IH: "bt_wf (bt_insert k v m)" by simp
  show ?case
  proof (cases "fst e < k")
    case True
    with IH below show ?thesis by (auto simp: bt_wf_Cons set_bt_insert)
  next
    case False
    then have "k \<le> fst e" by simp
    with below have "\<forall>k' \<in> fst ` set m. k < k'" by (auto intro: le_less_trans)
    with False wf below show ?thesis by (auto simp: bt_wf_Cons)
  qed
qed

lemma bt_wf_filter [simp]: "bt_wf m \<Longrightarrow> bt_wf (filter p m)"
  by (induction m) (auto simp: bt_wf_Cons)

lemma bt_wf_remove [simp]: "bt_wf m \<Longrightarrow> bt_wf (bt_remove k m)"
  by (simp add: bt_remove_def)

interpretation btree: ordered_map "[]" bt_insert bt_remove bt_get bt_wf
  by unfold_locales simp_all

lemma bt_get_Some_mem: "bt_get m k = Some v \<Longrightarrow> (k, v) \<in> set m"
  by (simp add: bt_get_def map_of_SomeD)

lemma bt_wf_distinct: "bt_wf m \<Longrightarrow> distinct (map fst m)"
  by (induction m) (auto simp: bt_wf_Cons)

lemma bt_get_iff_mem: "bt_wf m \<Longrightarrow> bt_get m k = Some v \<longleftrightarrow> (k, v) \<in> set m"
  by (simp add: bt_get_def bt_wf_distinct)

lemma bt_get_None_iff: "bt_get m k = None \<longleftrightarrow> k \<notin> fst ` set m"
  by (simp add: bt_get_def map_of_eq_None_iff)

lemma bt_get_all_None: "(\<And>k. bt_get m k = None) \<Longrightarrow> m = []"
proof (cases m)
  case (Cons e m')
  assume "\<And>k. bt_get m k = None"
  from this [of "fst e"] Cons show ?thesis by (simp add: bt_get_Cons)
qed

lemma bt_contains_iff: "bt_contains m k \<longleftrightarrow> k \<in> fst ` set m"
  by (auto simp: bt_contains_def bt_get_None_iff)

lemma bt_contains_insert [simp]: "bt_contains (bt_insert k v m) k' \<longleftrightarrow> k' = k \<or> bt_contains m k'"
  by (auto simp: bt_contains_def)

lemma bt_find_Some: "bt_find p m = Some (k, v) \<Longrightarrow> (k, v) \<in> set m \<and> p v"
  by (auto simp: bt_find_def dest: find_Some_iff2)

lemma bt_find_None: "bt_find p m = None \<longleftrightarrow> (\<forall>v \<in> set (bt_values m). \<not> p v)"
  by (auto simp: bt_find_def find_None_set bt_values_def)

lemma bt_find_get: "bt_wf m \<Longrightarrow> bt_find p m = Some (k, v) \<Longrightarrow> bt_get m k = Some v"
  by (simp add: bt_get_iff_mem bt_find_Some)

lemma length_bt_insert_new: "\<not> bt_contains m k \<Longrightarrow> length (bt_insert k v m) = Suc (length m)"
  by (induction m) (auto simp: bt_contains_def bt_get_Cons split: if_splits)

lemma length_bt_insert_old: "bt_wf m \<Longrightarrow> bt_contains m k \<Longrightarrow> length (bt_insert k v m) = length m"
proof (induction m)
  case Nil
  then show ?case by (simp add: bt_contains_def)
next
  case (Cons e m)
  show ?case
  proof (cases "fst e < k")
    case True
    with Cons.prems have "bt_contains m k" "bt_wf m"
      by (auto simp: bt_contains_def bt_get_Cons bt_wf_Cons split: if_splits)
    with Cons.IH True show ?thesis by simp
  next
    case False
    from Cons.prems have "k \<in> fst ` set (e # m)" and "\<forall>k' \<in> fst ` set m. fst e < k'"
      by (auto simp: bt_contains_iff bt_wf_Cons)
    with False have "fst e = k" by auto
    with False show ?thesis by simp
  qed
qed

text \<open>Inserting at a key changes that entry and no other.\<close>

lemma mem_bt_insert:
  "bt_wf m \<Longrightarrow> (k', v') \<in> set (bt_insert k v m) \<longleftrightarrow>
     (if k' = k then v' = v else (k', v') \<in> set m)"
  using bt_get_iff_mem [of m k' v'] bt_get_iff_mem [of "bt_insert k v m" k' v']
  by auto

lemma bt_values_simps [simp]: "bt_values [] = []" "bt_values (e # m) = snd e # bt_values m"
  by (simp_all add: bt_values_def)

lemma mem_bt_values: "x \<in> set (bt_values m) \<longleftrightarrow> (\<exists>k. (k, x) \<in> set m)"
  by (force simp: bt_values_def)

lemma bt_values_insert_iff:
  "bt_wf m \<Longrightarrow> x \<in> set (bt_values (bt_insert k v m)) \<longleftrightarrow>
     x = v \<or> (\<exists>k'. k' \<noteq> k \<and> (k', x) \<in> set m)"
  by (auto simp: mem_bt_values mem_bt_insert)

lemma bt_values_insert_subset: "set (bt_values (bt_insert k v m)) \<subseteq> insert v (set (bt_values m))"
  by (induction m) (auto simp: bt_values_def)

text \<open>Overwriting a value with one that agrees with it on \<open>f\<close> keeps the order and \<open>f\<close>.\<close>

lemma map_bt_insert_same:
  "bt_wf m \<Longrightarrow> bt_get m k = Some v \<Longrightarrow> f v' = f v \<Longrightarrow>
   map (f \<circ> snd) (bt_insert k v' m) = map (f \<circ> snd) m"
proof (induction m)
  case (Cons e m)
  show ?case
  proof (cases "fst e = k")
    case True
    with Cons.prems show ?thesis by (simp add: bt_get_Cons)
  next
    case False
    with Cons.prems have get: "bt_get m k = Some v" by (simp add: bt_get_Cons)
    then have "k \<in> fst ` set m" by (force dest: bt_get_Some_mem)
    with Cons.prems have "fst e < k" by (auto simp: bt_wf_Cons)
    with Cons get show ?thesis by (simp add: bt_wf_Cons)
  qed
qed simp

lemma bt_insert_same: "bt_wf m \<Longrightarrow> bt_get m k = Some v \<Longrightarrow> bt_insert k v m = m"
proof (induction m)
  case (Cons e m)
  show ?case
  proof (cases "fst e = k")
    case True
    with Cons.prems show ?thesis by (cases e) (simp add: bt_get_Cons)
  next
    case False
    with Cons.prems have get: "bt_get m k = Some v" by (simp add: bt_get_Cons)
    then have "k \<in> fst ` set m" by (force dest: bt_get_Some_mem)
    with Cons.prems have "fst e < k" by (auto simp: bt_wf_Cons)
    with Cons get show ?thesis by (simp add: bt_wf_Cons)
  qed
qed simp

lemma bt_insert_twice [simp]: "bt_insert k v (bt_insert k v' m) = bt_insert k v m"
  by (induction m) auto

text \<open>A new key adds its entry.\<close>

lemma set_bt_insert_new: "\<not> bt_contains m k \<Longrightarrow> set (bt_insert k v m) = insert (k, v) (set m)"
  by (induction m) (auto simp: bt_contains_def bt_get_Cons split: if_splits)

lemma distinct_map_bt_insert_new:
  "\<not> bt_contains m k \<Longrightarrow> distinct (map f m) \<Longrightarrow> f (k, v) \<notin> f ` set m \<Longrightarrow>
   distinct (map f (bt_insert k v m))"
proof (induction m)
  case (Cons e m)
  then have "\<not> bt_contains m k" by (auto simp: bt_contains_def bt_get_Cons split: if_splits)
  with Cons show ?case by (auto simp: set_bt_insert_new bt_contains_def bt_get_Cons)
qed simp

text \<open>A well-formed map is determined by its lookups.\<close>

lemma bt_map_keys:
  assumes "bt_wf m"
  shows "m = map (\<lambda>k. (k, the (bt_get m k))) (map fst m)"
proof -
  have "bt_get m (fst x) = Some (snd x)" if "x \<in> set m" for x
    using that by (simp add: bt_get_iff_mem [OF assms])
  then have "map (\<lambda>x. (fst x, the (bt_get m (fst x)))) m = m" by (intro map_idI) simp
  then show ?thesis by (simp add: comp_def)
qed

lemma bt_ext:
  assumes "bt_wf m" and "bt_wf m'" and "\<And>k. bt_get m k = bt_get m' k"
  shows "m = m'"
proof -
  have "bt_contains m k = bt_contains m' k" for k using assms(3) by (simp add: bt_contains_def)
  then have "fst ` set m = fst ` set m'" by (simp add: bt_contains_iff set_eq_iff)
  with assms(1,2) have "map fst m = map fst m'"
    by (intro strict_sorted_equal) (auto simp: bt_wf_def)
  then show ?thesis using bt_map_keys [OF assms(1)] bt_map_keys [OF assms(2)] assms(3) by simp
qed

text \<open>\<open>entry(k).or_default()\<close> followed by an update in place.\<close>

definition bt_update_default ::
  "'k :: linorder \<Rightarrow> 'v \<Rightarrow> ('v \<Rightarrow> 'v) \<Rightarrow> ('k, 'v) btree \<Rightarrow> ('k, 'v) btree" where
  "bt_update_default k d f m =
     bt_insert k (f (case bt_get m k of None \<Rightarrow> d | Some v \<Rightarrow> v)) m"

lemma bt_get_update_default [simp]:
  "bt_get (bt_update_default k d f m) k' =
     (if k' = k then Some (f (case bt_get m k of None \<Rightarrow> d | Some v \<Rightarrow> v)) else bt_get m k')"
  by (simp add: bt_update_default_def)

lemma bt_wf_update_default [simp]: "bt_wf m \<Longrightarrow> bt_wf (bt_update_default k d f m)"
  by (simp add: bt_update_default_def)

text \<open>A sum over the values, and how one insertion changes it.\<close>

definition bt_sum :: "('v \<Rightarrow> 'a :: comm_monoid_add) \<Rightarrow> ('k, 'v) btree \<Rightarrow> 'a" where
  "bt_sum h m = sum_list (map (h \<circ> snd) m)"

lemma bt_sum_Nil [simp]: "bt_sum h [] = 0"
  by (simp add: bt_sum_def)

lemma bt_sum_Cons [simp]: "bt_sum h (e # m) = h (snd e) + bt_sum h m"
  by (simp add: bt_sum_def)

lemma bt_sum_insert:
  "bt_wf m \<Longrightarrow> bt_sum h (bt_insert k v m) + (case bt_get m k of None \<Rightarrow> 0 | Some v0 \<Rightarrow> h v0) =
     bt_sum h m + h v"
proof (induction m)
  case (Cons e m)
  show ?case
  proof (cases "fst e < k")
    case True
    then have "k \<noteq> fst e" by simp
    with True Cons show ?thesis by (simp add: bt_wf_Cons bt_get_Cons add.assoc)
  next
    case False
    show ?thesis
    proof (cases "fst e = k")
      case True
      then show ?thesis by (simp add: bt_get_Cons ac_simps)
    next
      case other: False
      with False have "k < fst e" by simp
      moreover from Cons.prems have "\<forall>k' \<in> fst ` set m. fst e < k'" by (simp add: bt_wf_Cons)
      ultimately have "k \<notin> fst ` set m" by auto
      then have "bt_get m k = None" by (simp add: bt_get_None_iff)
      with False other show ?thesis by (simp add: bt_get_Cons ac_simps)
    qed
  qed
qed simp

lemma bt_sum_update_default:
  fixes h :: "'v \<Rightarrow> 'a :: cancel_comm_monoid_add"
  assumes "bt_wf m" and "h d = 0"
    and "h (f (case bt_get m k of None \<Rightarrow> d | Some v \<Rightarrow> v)) = h (case bt_get m k of None \<Rightarrow> d | Some v \<Rightarrow> v) + x"
  shows "bt_sum h (bt_update_default k d f m) = bt_sum h m + x"
proof (cases "bt_get m k")
  case None
  with bt_sum_insert [OF assms(1), of h k "f d"] assms(2,3) show ?thesis
    by (simp add: bt_update_default_def)
next
  case (Some v)
  with bt_sum_insert [OF assms(1), of h k "f v"] assms(3)
  have "bt_sum h (bt_insert k (f v) m) + h v = (bt_sum h m + x) + h v" by (simp add: ac_simps)
  with Some show ?thesis by (simp add: bt_update_default_def)
qed

text \<open>Inserting a value that a filter sees like the one it replaces is not visible.\<close>

lemma map_filter_bt_insert:
  "bt_wf m \<Longrightarrow> f v = (case bt_get m k of None \<Rightarrow> None | Some v0 \<Rightarrow> f v0) \<Longrightarrow>
   List.map_filter f (bt_values (bt_insert k v m)) = List.map_filter f (bt_values m)"
proof (induction m)
  case (Cons e m)
  show ?case
  proof (cases "fst e < k")
    case True
    then have "k \<noteq> fst e" by simp
    with True Cons show ?thesis
      by (simp add: bt_values_def map_filter_simps bt_wf_Cons bt_get_Cons split: option.split)
  next
    case False
    show ?thesis
    proof (cases "fst e = k")
      case True
      with Cons.prems show ?thesis by (simp add: bt_values_def map_filter_simps bt_get_Cons)
    next
      case other: False
      with False have "k < fst e" by simp
      moreover from Cons.prems have "\<forall>k' \<in> fst ` set m. fst e < k'" by (simp add: bt_wf_Cons)
      ultimately have "k \<notin> fst ` set m" by auto
      then have "bt_get m k = None" by (simp add: bt_get_None_iff)
      with False other Cons.prems show ?thesis
        by (simp add: bt_values_def map_filter_simps bt_get_Cons)
    qed
  qed
qed (simp add: bt_values_def map_filter_simps)

lemma bt_sum_cong: "(\<And>k v. (k, v) \<in> set m \<Longrightarrow> h v = h' v) \<Longrightarrow> bt_sum h m = bt_sum h' m"
  by (auto simp: bt_sum_def intro!: arg_cong [of _ _ sum_list])

text \<open>\<open>values_mut()\<close> over a whole map.\<close>

definition bt_map_values :: "('v \<Rightarrow> 'w) \<Rightarrow> ('k, 'v) btree \<Rightarrow> ('k, 'w) btree" where
  "bt_map_values f m = map (\<lambda>(k, v). (k, f v)) m"

lemma bt_get_map_values [simp]: "bt_get (bt_map_values f m) k = map_option f (bt_get m k)"
  by (induction m) (auto simp: bt_map_values_def bt_get_Cons)

lemma bt_keys_map_values [simp]: "map fst (bt_map_values f m) = map fst m"
  by (simp add: bt_map_values_def case_prod_beta comp_def)

lemma bt_wf_map_values [simp]: "bt_wf (bt_map_values f m) = bt_wf m"
  by (simp add: bt_wf_def)

text \<open>A map that has every entry of another, at least as heavy, weighs at least as much.\<close>

lemma bt_sum_keys:
  assumes "bt_wf m"
  shows "bt_sum h m = (\<Sum>k \<in> fst ` set m. h (the (bt_get m k)))"
proof -
  have "map (h \<circ> snd) m = map (\<lambda>k. h (the (bt_get m k))) (map fst m)"
    using assms by (auto simp: bt_get_iff_mem [THEN iffD2])
  then have "bt_sum h m = sum_list (map (\<lambda>k. h (the (bt_get m k))) (map fst m))" by (simp only: bt_sum_def)
  also have "\<dots> = (\<Sum>k \<in> set (map fst m). h (the (bt_get m k)))"
    by (rule sum_list_distinct_conv_sum_set [OF bt_wf_distinct [OF assms]])
  finally show ?thesis by simp
qed

lemma bt_sum_mono:
  fixes h :: "'v \<Rightarrow> nat"
  assumes "bt_wf m" and "bt_wf m'" and "\<And>k v. bt_get m k = Some v \<Longrightarrow> \<exists>w. bt_get m' k = Some w \<and> h v \<le> h w"
  shows "bt_sum h m \<le> bt_sum h m'"
proof -
  have in_m: "\<exists>v. bt_get m k = Some v" if "k \<in> fst ` set m" for k
    using that bt_get_None_iff [of m k] by (cases "bt_get m k") auto
  have "(\<Sum>k \<in> fst ` set m. h (the (bt_get m k))) \<le> (\<Sum>k \<in> fst ` set m. h (the (bt_get m' k)))"
    using in_m assms(3) by (intro sum_mono) fastforce
  also have "\<dots> \<le> (\<Sum>k \<in> fst ` set m'. h (the (bt_get m' k)))"
  proof (rule sum_mono2)
    show "fst ` set m \<subseteq> fst ` set m'"
    proof
      fix k assume "k \<in> fst ` set m"
      with in_m assms(3) obtain w where "bt_get m' k = Some w" by blast
      then show "k \<in> fst ` set m'" using bt_get_None_iff [of m' k] by auto
    qed
  qed simp_all
  finally show ?thesis by (simp add: bt_sum_keys assms(1,2))
qed

lemma bt_sum_filter: "sum_list (map h (filter p (bt_values m))) = bt_sum (\<lambda>v. if p v then h v else 0) m"
  by (induction m) auto

end
