(* ===== verification/Rust_Str.thy ===== *)
theory Rust_Str
  imports Ordered_Map
begin

section \<open>Rust strings\<close>

text \<open>
  A Rust \<open>String\<close> is a sequence of UTF-8 bytes and \<open>len()\<close> counts bytes, so it is a
  \<open>string\<close> (a list of 8-bit characters) here. The operations below are those of the
  standard library that the modelled code calls; where Rust works on Unicode scalar values
  (\<open>trim\<close>, \<open>char::is_control\<close>) the UTF-8 encodings of those characters are spelled out.
\<close>

definition byte :: "char \<Rightarrow> nat" where
  "byte c = of_char c"

definition is_ascii_digit :: "char \<Rightarrow> bool" where
  "is_ascii_digit c \<longleftrightarrow> 48 \<le> byte c \<and> byte c \<le> 57"

definition is_ascii_upper :: "char \<Rightarrow> bool" where
  "is_ascii_upper c \<longleftrightarrow> 65 \<le> byte c \<and> byte c \<le> 90"

definition is_ascii_lower :: "char \<Rightarrow> bool" where
  "is_ascii_lower c \<longleftrightarrow> 97 \<le> byte c \<and> byte c \<le> 122"

definition is_ascii_alphanumeric :: "char \<Rightarrow> bool" where
  "is_ascii_alphanumeric c \<longleftrightarrow> is_ascii_digit c \<or> is_ascii_upper c \<or> is_ascii_lower c"

definition is_ascii_control :: "char \<Rightarrow> bool" where
  "is_ascii_control c \<longleftrightarrow> byte c < 32 \<or> byte c = 127"

subsection \<open>ASCII case\<close>

definition ascii_lower :: "char \<Rightarrow> char" where
  "ascii_lower c = (if is_ascii_upper c then char_of (byte c + 32) else c)"

definition to_ascii_lowercase :: "string \<Rightarrow> string" where
  "to_ascii_lowercase s = map ascii_lower s"

definition eq_ignore_ascii_case :: "string \<Rightarrow> string \<Rightarrow> bool" where
  "eq_ignore_ascii_case a b \<longleftrightarrow> to_ascii_lowercase a = to_ascii_lowercase b"

lemma byte_char_of: "n < 256 \<Longrightarrow> byte (char_of n) = n"
  by (simp add: byte_def)

lemma ascii_lower_idem [simp]: "ascii_lower (ascii_lower c) = ascii_lower c"
  by (auto simp: ascii_lower_def is_ascii_upper_def byte_char_of)

lemma to_ascii_lowercase_idem [simp]:
  "to_ascii_lowercase (to_ascii_lowercase s) = to_ascii_lowercase s"
  by (simp add: to_ascii_lowercase_def)

lemma to_ascii_lowercase_Nil [simp]: "to_ascii_lowercase s = [] \<longleftrightarrow> s = []"
  by (simp add: to_ascii_lowercase_def)

lemma length_to_ascii_lowercase [simp]: "length (to_ascii_lowercase s) = length s"
  by (simp add: to_ascii_lowercase_def)

lemma eq_ignore_ascii_case_refl [simp]: "eq_ignore_ascii_case s s"
  by (simp add: eq_ignore_ascii_case_def)

subsection \<open>Trimming\<close>

text \<open>The Unicode \<open>White_Space\<close> characters, by the length of their UTF-8 encoding.\<close>

definition ws1 :: "char \<Rightarrow> bool" where
  "ws1 a \<longleftrightarrow> (9 \<le> byte a \<and> byte a \<le> 13) \<or> byte a = 32"

definition ws2 :: "char \<Rightarrow> char \<Rightarrow> bool" where
  "ws2 a b \<longleftrightarrow> byte a = 194 \<and> (byte b = 133 \<or> byte b = 160)"

definition ws3 :: "char \<Rightarrow> char \<Rightarrow> char \<Rightarrow> bool" where
  "ws3 a b c \<longleftrightarrow>
     (byte a = 225 \<and> byte b = 154 \<and> byte c = 128) \<or>
     (byte a = 226 \<and> byte b = 128 \<and>
        ((128 \<le> byte c \<and> byte c \<le> 138) \<or> byte c = 168 \<or> byte c = 169 \<or> byte c = 175)) \<or>
     (byte a = 226 \<and> byte b = 129 \<and> byte c = 159) \<or>
     (byte a = 227 \<and> byte b = 128 \<and> byte c = 128)"

fun trim_start :: "string \<Rightarrow> string" where
  "trim_start [] = []"
| "trim_start [a] = (if ws1 a then [] else [a])"
| "trim_start [a, b] = (if ws1 a then trim_start [b] else if ws2 a b then [] else [a, b])"
| "trim_start (a # b # c # s) =
     (if ws1 a then trim_start (b # c # s)
      else if ws2 a b then trim_start (c # s)
      else if ws3 a b c then trim_start s
      else a # b # c # s)"

text \<open>\<open>trim_end_rev\<close> trims the end of a string given in reverse.\<close>

fun trim_end_rev :: "string \<Rightarrow> string" where
  "trim_end_rev [] = []"
| "trim_end_rev [a] = (if ws1 a then [] else [a])"
| "trim_end_rev [b, a] = (if ws1 b then trim_end_rev [a] else if ws2 a b then [] else [b, a])"
| "trim_end_rev (c # b # a # s) =
     (if ws1 c then trim_end_rev (b # a # s)
      else if ws2 b c then trim_end_rev (a # s)
      else if ws3 a b c then trim_end_rev s
      else c # b # a # s)"

definition trim :: "string \<Rightarrow> string" where
  "trim s = rev (trim_end_rev (rev (trim_start s)))"

lemma trim_start_idem: "trim_start (trim_start s) = trim_start s"
  by (induction s rule: trim_start.induct) auto

lemma trim_end_rev_idem: "trim_end_rev (trim_end_rev s) = trim_end_rev s"
  by (induction s rule: trim_end_rev.induct) auto

lemma trim_end_rev_suffix: "\<exists>p. s = p @ trim_end_rev s"
proof (induction s rule: trim_end_rev.induct)
  case (3 b a)
  then show ?case by (cases "ws1 a") (auto simp: Cons_eq_append_conv)
next
  case (4 c b a s)
  show ?case
  proof (cases "ws1 c \<or> ws2 b c \<or> ws3 a b c")
    case False
    then show ?thesis by simp
  next
    case True
    then consider "ws1 c" | "\<not> ws1 c" "ws2 b c" | "\<not> ws1 c" "\<not> ws2 b c" "ws3 a b c" by blast
    then show ?thesis
    proof cases
      case 1
      with 4(1) obtain p where "b # a # s = p @ trim_end_rev (b # a # s)" by blast
      then have "c # b # a # s = (c # p) @ trim_end_rev (b # a # s)" by simp
      with 1 show ?thesis by (metis trim_end_rev.simps(4))
    next
      case 2
      with 4(2) obtain p where "a # s = p @ trim_end_rev (a # s)" by blast
      then have "c # b # a # s = (c # b # p) @ trim_end_rev (a # s)" by simp
      with 2 show ?thesis by (metis trim_end_rev.simps(4))
    next
      case 3
      with 4(3) obtain p where "s = p @ trim_end_rev s" by blast
      then have "c # b # a # s = (c # b # a # p) @ trim_end_rev s" by simp
      with 3 show ?thesis by (metis trim_end_rev.simps(4))
    qed
  qed
qed auto

text \<open>A prefix of a string with no leading white space has none either.\<close>

fun leads_ws :: "string \<Rightarrow> bool" where
  "leads_ws [] = False"
| "leads_ws [a] = ws1 a"
| "leads_ws [a, b] = (ws1 a \<or> ws2 a b)"
| "leads_ws (a # b # c # s) = (ws1 a \<or> ws2 a b \<or> ws3 a b c)"

lemma length_trim_start: "length (trim_start s) \<le> length s"
  by (induction s rule: trim_start.induct) auto

lemma trim_start_fix_iff: "trim_start s = s \<longleftrightarrow> \<not> leads_ws s"
proof (cases s rule: leads_ws.cases)
  case (4 a b c t)
  have "length (trim_start (b # c # t)) < length s" "length (trim_start (c # t)) < length s"
    "length (trim_start t) < length s"
    using length_trim_start [of "b # c # t"] length_trim_start [of "c # t"]
      length_trim_start [of t] 4 by simp_all
  with 4 show ?thesis by (auto dest: arg_cong [where f = length])
qed auto

lemma leads_ws_append: "leads_ws p \<Longrightarrow> leads_ws (p @ q)"
  by (cases p rule: leads_ws.cases; cases q rule: leads_ws.cases) auto

lemma trim_start_prefix: "trim_start (p @ q) = p @ q \<Longrightarrow> trim_start p = p"
  using leads_ws_append by (auto simp: trim_start_fix_iff)

lemma trim_idem [simp]: "trim (trim s) = trim s"
proof -
  obtain p where "rev (trim_start s) = p @ trim_end_rev (rev (trim_start s))"
    using trim_end_rev_suffix by blast
  then have "trim_start s = trim s @ rev p"
    unfolding trim_def by (metis rev_append rev_rev_ident)
  then have "trim_start (trim s) = trim s"
    using trim_start_idem [of s] trim_start_prefix by metis
  then show ?thesis
    by (simp add: trim_def trim_end_rev_idem)
qed

subsection \<open>Prefixes, suffixes and separators\<close>

definition starts_with :: "string \<Rightarrow> string \<Rightarrow> bool" where
  "starts_with p s \<longleftrightarrow> take (length p) s = p"

definition ends_with :: "string \<Rightarrow> string \<Rightarrow> bool" where
  "ends_with p s \<longleftrightarrow> starts_with (rev p) (rev s)"

definition strip_prefix :: "string \<Rightarrow> string \<Rightarrow> string option" where
  "strip_prefix p s = (if starts_with p s then Some (drop (length p) s) else None)"

definition strip_suffix :: "string \<Rightarrow> string \<Rightarrow> string option" where
  "strip_suffix p s = map_option rev (strip_prefix (rev p) (rev s))"

text \<open>\<open>split_once\<close> and \<open>rsplit_once\<close> at one separator byte.\<close>

fun split_once :: "char \<Rightarrow> string \<Rightarrow> (string \<times> string) option" where
  "split_once c [] = None"
| "split_once c (x # xs) =
     (if x = c then Some ([], xs)
      else map_option (\<lambda>(a, b). (x # a, b)) (split_once c xs))"

definition rsplit_once :: "char \<Rightarrow> string \<Rightarrow> (string \<times> string) option" where
  "rsplit_once c s = map_option (\<lambda>(a, b). (rev b, rev a)) (split_once c (rev s))"

lemma starts_with_iff: "starts_with p s \<longleftrightarrow> (\<exists>t. s = p @ t)"
  unfolding starts_with_def by (metis append_eq_conv_conj append_take_drop_id)

lemma strip_prefix_Some: "strip_prefix p s = Some t \<longleftrightarrow> s = p @ t"
  by (auto simp: strip_prefix_def starts_with_iff)

lemma strip_suffix_Some: "strip_suffix p s = Some t \<longleftrightarrow> s = t @ p"
proof -
  have "strip_suffix p s = Some t \<longleftrightarrow> rev s = rev p @ rev t"
    by (auto simp: strip_suffix_def strip_prefix_Some)
  also have "\<dots> \<longleftrightarrow> s = t @ p"
    by (metis rev_append rev_rev_ident)
  finally show ?thesis .
qed

lemma split_once_Some: "split_once c s = Some (a, b) \<Longrightarrow> s = a @ c # b \<and> c \<notin> set a"
  by (induction s arbitrary: a) (auto split: if_splits)

lemma rsplit_once_Some: "rsplit_once c s = Some (a, b) \<Longrightarrow> s = a @ c # b \<and> c \<notin> set b"
proof -
  assume "rsplit_once c s = Some (a, b)"
  then have "split_once c (rev s) = Some (rev b, rev a)"
    by (auto simp: rsplit_once_def)
  from split_once_Some [OF this] have "rev s = rev (a @ c # b)" and "c \<notin> set b" by auto
  then show ?thesis by (metis rev_rev_ident)
qed

subsection \<open>Control characters\<close>

text \<open>\<open>chars().any(char::is_control)\<close>: U+0000 to U+001F, U+007F to U+009F.\<close>

fun has_control :: "string \<Rightarrow> bool" where
  "has_control [] = False"
| "has_control [a] = is_ascii_control a"
| "has_control (a # b # s) =
     (is_ascii_control a \<or> (byte a = 194 \<and> 128 \<le> byte b \<and> byte b \<le> 159) \<or>
      has_control (b # s))"

subsection \<open>Decimal numbers\<close>

definition digit_char :: "nat \<Rightarrow> char" where
  "digit_char d = char_of (48 + d)"

definition digit_val :: "char \<Rightarrow> nat" where
  "digit_val c = byte c - 48"

fun show_nat :: "nat \<Rightarrow> string" where
  "show_nat n = (if n < 10 then [digit_char n] else show_nat (n div 10) @ [digit_char (n mod 10)])"

lemma digit_chars:
  "digit_char 0 = CHR ''0''"
  "digit_char (Suc 0) = CHR ''1''"
  "digit_char 2 = CHR ''2''"
  "digit_char 3 = CHR ''3''"
  "digit_char 4 = CHR ''4''"
  "digit_char 5 = CHR ''5''"
  "digit_char 6 = CHR ''6''"
  "digit_char 7 = CHR ''7''"
  "digit_char 8 = CHR ''8''"
  "digit_char 9 = CHR ''9''"
  by code_simp+

declare show_nat.simps [simp del]

definition show_int :: "int \<Rightarrow> string" where
  "show_int i = (if i < 0 then CHR ''-'' # show_nat (nat (- i)) else show_nat (nat i))"

definition read_digits :: "string \<Rightarrow> nat" where
  "read_digits s = foldl (\<lambda>n c. 10 * n + digit_val c) 0 s"

lemma digit_val_char [simp]: "d < 10 \<Longrightarrow> digit_val (digit_char d) = d"
  by (simp add: digit_val_def digit_char_def byte_char_of)

lemma is_ascii_digit_char [simp]: "d < 10 \<Longrightarrow> is_ascii_digit (digit_char d)"
  by (simp add: is_ascii_digit_def digit_char_def byte_char_of)

lemma digit_char_0: "digit_char 0 = CHR ''0''"
  unfolding digit_char_def by code_simp

lemma digit_char_eq_iff: "a < 10 \<Longrightarrow> b < 10 \<Longrightarrow> digit_char a = digit_char b \<longleftrightarrow> a = b"
  by (metis digit_val_char)

lemma digit_char_of_val: "is_ascii_digit c \<Longrightarrow> digit_char (digit_val c) = c"
  by (auto simp: is_ascii_digit_def digit_char_def digit_val_def byte_def)

lemma digit_val_less: "is_ascii_digit c \<Longrightarrow> digit_val c < 10"
  by (auto simp: is_ascii_digit_def digit_val_def)

lemma read_digits_snoc: "read_digits (s @ [c]) = 10 * read_digits s + digit_val c"
  by (simp add: read_digits_def)

lemma read_show_nat [simp]: "read_digits (show_nat n) = n"
proof (induction n rule: show_nat.induct)
  case (1 n)
  show ?case
  proof (cases "n < 10")
    case True
    then show ?thesis by (subst show_nat.simps) (simp add: read_digits_def)
  next
    case False
    with 1 show ?thesis by (subst show_nat.simps) (simp add: read_digits_snoc)
  qed
qed

lemma show_nat_digits: "\<forall>c \<in> set (show_nat n). is_ascii_digit c"
proof (induction n rule: show_nat.induct)
  case (1 n)
  then show ?case by (cases "n < 10") (auto simp: show_nat.simps [of n])
qed

lemma show_nat_nonempty [simp]: "show_nat n \<noteq> []"
  by (subst show_nat.simps) simp

lemma show_nat_inj [simp]: "show_nat m = show_nat n \<longleftrightarrow> m = n"
  by (metis read_show_nat)

lemma length_show_nat: "n < 10 ^ k \<Longrightarrow> 0 < k \<Longrightarrow> length (show_nat n) \<le> k"
proof (induction k arbitrary: n)
  case (Suc k)
  show ?case
  proof (cases "n < 10")
    case True
    then show ?thesis by (simp add: show_nat.simps [of n])
  next
    case False
    with Suc.prems have "n div 10 < 10 ^ k" and "0 < k" by (cases k; simp)+
    with Suc.IH [of "n div 10"] False show ?thesis by (simp add: show_nat.simps [of n])
  qed
qed simp

lemma show_nat_no_minus: "show_nat n \<noteq> CHR ''-'' # s"
proof
  assume "show_nat n = CHR ''-'' # s"
  then have "is_ascii_digit (CHR ''-'')" using show_nat_digits [of n] by simp
  then show False by (simp add: is_ascii_digit_def byte_def)
qed

lemma show_int_inj [simp]: "show_int i = show_int j \<longleftrightarrow> i = j"
  using show_nat_no_minus by (auto simp: show_int_def) metis+

text \<open>The most significant digit is not zero, except for zero itself.\<close>

lemma length_show_int: "in_i64 i \<Longrightarrow> length (show_int i) \<le> 20"
proof -
  assume "in_i64 i"
  then have "nat \<bar>i\<bar> < 10 ^ 19" by (auto simp: in_i64_def int_limits)
  then have "length (show_nat (nat \<bar>i\<bar>)) \<le> 19" by (rule length_show_nat) simp
  then show ?thesis by (auto simp: show_int_def abs_if split: if_splits)
qed

lemma hd_show_nat: "0 < n \<Longrightarrow> hd (show_nat n) \<noteq> CHR ''0''"
proof (induction n rule: show_nat.induct)
  case (1 n)
  show ?case
  proof (cases "n < 10")
    case True
    with "1.prems" digit_char_eq_iff [of n 0] show ?thesis
      by (simp add: show_nat.simps [of n] digit_char_0)
  next
    case False
    with "1.IH" have "hd (show_nat (n div 10)) \<noteq> CHR ''0''" by simp
    with False show ?thesis by (simp add: show_nat.simps [of n])
  qed
qed

lemma show_read_digits:
  "s \<noteq> [] \<Longrightarrow> \<forall>c \<in> set s. is_ascii_digit c \<Longrightarrow> length s = 1 \<or> hd s \<noteq> CHR ''0'' \<Longrightarrow>
   show_nat (read_digits s) = s"
proof (induction s rule: rev_induct)
  case Nil
  then show ?case by simp
next
  case (snoc c s)
  from snoc.prems have c: "is_ascii_digit c" by simp
  show ?case
  proof (cases "s = []")
    case True
    with c show ?thesis
      by (simp add: read_digits_def show_nat.simps [of "digit_val c"] digit_val_less
          digit_char_of_val)
  next
    case False
    with snoc.prems have hd: "hd s \<noteq> CHR ''0''" by auto
    with False snoc.prems have IH: "show_nat (read_digits s) = s" by (intro snoc.IH) auto
    have pos: "0 < read_digits s"
    proof (rule ccontr)
      assume "\<not> 0 < read_digits s"
      with IH have "show_nat 0 = s" by simp
      then have "s = [digit_char 0]" by (simp add: show_nat.simps [of 0])
      with hd show False by (simp add: digit_char_0)
    qed
    have "show_nat (10 * read_digits s + digit_val c) = s @ [c]"
      using pos c IH
      by (simp add: show_nat.simps [of "10 * read_digits s + digit_val c"] digit_val_less
          digit_char_of_val)
    then show ?thesis by (simp add: read_digits_snoc)
  qed
qed

end
