(* ===== verification/Quota_Cycle.thy ===== *)
theory Quota_Cycle
  imports Rust_Str "HOL-Library.Stream"
begin

section \<open>Account quota cycles\<close>

text \<open>
  Model of \<open>src/src/domain/sharing/quota_cycle.rs\<close>: the ledger that decides, for every
  upstream account ("source"), which quota period is current. Observations of the upstream
  window, public announcements, redeemed reset credits and the passing of time all advance
  it; a fence (the credential generations) rejects reports about an account that has
  changed since. Every \<open>&mut self\<close> method returns the new ledger beside its \<open>Result\<close>,
  in the error cases too, since the source may have written some fields before it fails.

  \<open>opaque_id()\<close> draws 128 random bits from the \<open>rand\<close> crate. The random source is a
  stream of identifiers, taken from the front and handed back.
\<close>

type_synonym rng = "string stream"

subsection \<open>Data\<close>

record QuotaSourceFence =
  qf_account_incarnation :: nat
  qf_identity_generation :: nat
  qf_credential_generation :: nat
  qf_quota_credential_generation :: nat

datatype QuotaTimeBasis =
  UpstreamWindow | DerivedFromWindow | KnownNaturalBoundary | PublicAnnouncement
| RedeemConfirmation

record QuotaWindowObservation =
  ob_bucket_id :: string
  ob_starts_at_ms :: "int option"
  ob_ends_at_ms :: int
  ob_duration_ms :: "int option"
  ob_observed_at_ms :: int
  ob_basis :: QuotaTimeBasis

record AccountQuotaCycle =
  cy_stream_incarnation :: string
  cy_source_ref :: string
  cy_source_epoch :: nat
  cy_bucket_id :: string
  cy_cycle_id :: string
  cy_cycle_sequence :: nat
  cy_cycle_revision :: nat
  cy_starts_at_ms :: int
  cy_ends_at_ms :: "int option"
  cy_basis :: QuotaTimeBasis
  cy_observed_at_ms :: int
  cy_event_id :: string

record AccountQuotaBaseline =
  ba_source_ref :: string
  ba_cycle_id :: string
  ba_target_tokens :: nat
  ba_usage_watermark :: nat
  ba_applied_at_ms :: int
  ba_applied_by :: "string option"

record QuotaCycleSource =
  qs_source_ref :: string
  qs_source_epoch :: nat
  qs_provider_type :: string
  qs_bucket_id :: string
  qs_fence :: QuotaSourceFence
  qs_cycle :: "AccountQuotaCycle option"
  qs_next_boundary_ms :: "int option"
  qs_last_observed_at_ms :: int

datatype QuotaEventStatus = Committed | Historical | NeedsReconcile

record QuotaResetEvent =
  ev_event_id :: string
  ev_source_ref :: string
  ev_bucket_id :: string
  ev_effective_at_ms :: int
  ev_discovered_at_ms :: int
  ev_basis :: QuotaTimeBasis
  ev_status :: QuotaEventStatus
  ev_cycle_id :: string

record QuotaResetCorrection =
  co_event_key :: string
  co_previous_effective_at_ms :: int
  co_effective_at_ms :: int
  co_discovered_at_ms :: int
  co_applied :: bool

datatype ResetCreditStatus = IntentDurable | Dispatched | Unknown | Confirmed | Rejected

record ResetCreditOperation =
  rc_operation_id :: string
  rc_request_id :: string
  rc_source_ref :: string
  rc_fence :: QuotaSourceFence
  rc_status :: ResetCreditStatus
  rc_created_at_ms :: int
  rc_confirmed_at_ms :: "int option"
  rc_result :: "string option"
  rc_credit_fingerprint :: string

record PublicResetCursor =
  pc_etag :: "string option"
  pc_next_cursor :: "string option"
  pc_from_at_ms :: "int option"
  pc_checked_at_ms :: "int option"
  pc_retry_at_ms :: "int option"
  pc_cache_query :: "string option"
  pc_cache_evidence :: "string option"
  pc_high_watermark_ms :: "int option"
  pc_failures :: nat
  pc_last_error :: "string option"

record QuotaCycleLedger =
  ql_schema_version :: nat
  ql_stream_incarnation :: string
  ql_sources :: "(string, QuotaCycleSource) btree"
  ql_events :: "(string, QuotaResetEvent) btree"
  ql_operations :: "(string, ResetCreditOperation) btree"
  ql_public_cursor :: PublicResetCursor
  ql_public_events :: "(string, int) btree"
  ql_public_status_cursor :: PublicResetCursor
  ql_public_status_latest :: "string option"
  ql_corrections :: "QuotaResetCorrection list"
  ql_redeem_recovery_required :: bool
  ql_revision :: nat

definition QUOTA_CYCLE_SCHEMA :: nat where
  "QUOTA_CYCLE_SCHEMA = 1"

definition default_cursor :: PublicResetCursor where
  "default_cursor = \<lparr>pc_etag = None, pc_next_cursor = None, pc_from_at_ms = None,
     pc_checked_at_ms = None, pc_retry_at_ms = None, pc_cache_query = None,
     pc_cache_evidence = None, pc_high_watermark_ms = None, pc_failures = 0,
     pc_last_error = None\<rparr>"

definition default_ledger :: "rng \<Rightarrow> QuotaCycleLedger \<times> rng" where
  "default_ledger r = (\<lparr>ql_schema_version = QUOTA_CYCLE_SCHEMA,
     ql_stream_incarnation = shd r, ql_sources = [], ql_events = [], ql_operations = [],
     ql_public_cursor = default_cursor, ql_public_events = [],
     ql_public_status_cursor = default_cursor, ql_public_status_latest = None,
     ql_corrections = [], ql_redeem_recovery_required = False, ql_revision = 0\<rparr>, stl r)"

subsection \<open>Observations and cycles\<close>

text \<open>400 days in milliseconds bound how far in the future a window may end.\<close>

definition validate_end :: "QuotaWindowObservation \<Rightarrow> unit res" where
  "validate_end ob =
     (if ob_bucket_id ob = [] \<or> ob_observed_at_ms ob < 0 \<or>
         ob_ends_at_ms ob \<le> ob_observed_at_ms ob \<or>
         (case checked_i64 (ob_ends_at_ms ob - ob_observed_at_ms ob) of
            None \<Rightarrow> True | Some delay \<Rightarrow> delay > 400 * 24 * 60 * 60 * 1000)
      then Err ''quota_boundary_invalid'' else Ok ())"

definition candidate_start :: "QuotaWindowObservation \<Rightarrow> int option" where
  "candidate_start ob =
     (case ob_starts_at_ms ob of
        Some start \<Rightarrow> Some start
      | None \<Rightarrow>
          (case ob_duration_ms ob of
             None \<Rightarrow> None
           | Some duration \<Rightarrow>
               if duration > 0 then checked_i64 (ob_ends_at_ms ob - duration) else None))"

definition start_of :: "QuotaWindowObservation \<Rightarrow> int res" where
  "start_of ob =
     rbind (validate_end ob) (\<lambda>_.
     rbind (ok_or (candidate_start ob) ''quota_boundary_unavailable'') (\<lambda>start.
       if ob_bucket_id ob = [] \<or> start < 0 \<or> start > ob_observed_at_ms ob \<or>
          ob_ends_at_ms ob \<le> start \<or> ob_ends_at_ms ob \<le> ob_observed_at_ms ob
       then Err ''quota_boundary_invalid'' else Ok start))"

definition cycle_contains :: "AccountQuotaCycle \<Rightarrow> int \<Rightarrow> bool" where
  "cycle_contains c t \<longleftrightarrow>
     cy_starts_at_ms c \<le> t \<and> (case cy_ends_at_ms c of None \<Rightarrow> True | Some e \<Rightarrow> t < e)"

definition same_cycle :: "AccountQuotaCycle \<Rightarrow> AccountQuotaCycle \<Rightarrow> bool" where
  "same_cycle a b \<longleftrightarrow>
     cy_stream_incarnation a = cy_stream_incarnation b \<and> cy_source_ref a = cy_source_ref b \<and>
     cy_source_epoch a = cy_source_epoch b \<and> cy_bucket_id a = cy_bucket_id b \<and>
     cy_cycle_id a = cy_cycle_id b"

definition event_key :: "string \<Rightarrow> string \<Rightarrow> string" where
  "event_key source_ref event_id = source_ref @ '':'' @ event_id"

definition find_source ::
  "QuotaCycleLedger \<Rightarrow> string \<Rightarrow> (string \<times> QuotaCycleSource) option" where
  "find_source L ref = bt_find (\<lambda>s. qs_source_ref s = ref) (ql_sources L)"

definition source :: "QuotaCycleLedger \<Rightarrow> string \<Rightarrow> QuotaCycleSource option" where
  "source L ref = map_option snd (find_source L ref)"

definition bump_revision :: "QuotaCycleLedger \<Rightarrow> QuotaCycleLedger" where
  "bump_revision L = L\<lparr>ql_revision := saturating_add_u64 (ql_revision L) 1\<rparr>"

definition put_source :: "string \<Rightarrow> QuotaCycleSource \<Rightarrow> QuotaCycleLedger \<Rightarrow> QuotaCycleLedger" where
  "put_source identity s L = L\<lparr>ql_sources := bt_insert identity s (ql_sources L)\<rparr>"

definition put_event :: "string \<Rightarrow> QuotaResetEvent \<Rightarrow> QuotaCycleLedger \<Rightarrow> QuotaCycleLedger" where
  "put_event key e L = L\<lparr>ql_events := bt_insert key e (ql_events L)\<rparr>"

subsection \<open>Applying a reset\<close>

text \<open>A reset event of a source that has no cycle yet opens the first one.\<close>

definition open_first_cycle ::
  "QuotaCycleLedger \<Rightarrow> rng \<Rightarrow> string \<Rightarrow> QuotaCycleSource \<Rightarrow> string \<Rightarrow> string \<Rightarrow> int \<Rightarrow> int \<Rightarrow>
   QuotaTimeBasis \<Rightarrow> QuotaCycleLedger \<times> rng \<times> bool res" where
  "open_first_cycle L r identity src source_ref event_id effective discovered basis =
     (let cycle_id = shd r;
          cycle = \<lparr>cy_stream_incarnation = ql_stream_incarnation L, cy_source_ref = source_ref,
            cy_source_epoch = qs_source_epoch src, cy_bucket_id = qs_bucket_id src,
            cy_cycle_id = cycle_id, cy_cycle_sequence = 1, cy_cycle_revision = 1,
            cy_starts_at_ms = effective,
            cy_ends_at_ms = (case qs_next_boundary_ms src of
                None \<Rightarrow> None | Some e \<Rightarrow> if e > effective then Some e else None),
            cy_basis = basis, cy_observed_at_ms = discovered, cy_event_id = event_id\<rparr>;
          event = \<lparr>ev_event_id = event_id, ev_source_ref = source_ref,
            ev_bucket_id = qs_bucket_id src, ev_effective_at_ms = effective,
            ev_discovered_at_ms = discovered, ev_basis = basis, ev_status = Committed,
            ev_cycle_id = cycle_id\<rparr>
      in (bump_revision (put_event (event_key source_ref event_id) event
            (put_source identity (src\<lparr>qs_cycle := Some cycle\<rparr>) L)), stl r, Ok True))"

text \<open>
  The latest committed boundary before the current cycle, among the events of other
  cycles of the same source: a correction may not move the start to or before it.
\<close>

definition max_opt :: "int list \<Rightarrow> int option" where
  "max_opt xs = (if xs = [] then None else Some (Max (set xs)))"

definition earlier_boundary :: "QuotaCycleLedger \<Rightarrow> string \<Rightarrow> AccountQuotaCycle \<Rightarrow> int option" where
  "earlier_boundary L source_ref c =
     max_opt (map ev_effective_at_ms (filter (\<lambda>e.
        ev_source_ref e = source_ref \<and> ev_status e = Committed \<and>
        ev_cycle_id e \<noteq> cy_cycle_id c \<and> ev_effective_at_ms e < cy_starts_at_ms c)
      (bt_values (ql_events L))))"

definition same_correction :: "QuotaResetCorrection \<Rightarrow> QuotaResetCorrection \<Rightarrow> bool" where
  "same_correction a b \<longleftrightarrow>
     co_event_key a = co_event_key b \<and>
     co_previous_effective_at_ms a = co_previous_effective_at_ms b \<and>
     co_effective_at_ms a = co_effective_at_ms b \<and> co_applied a = co_applied b"

text \<open>
  A correction is applied when it is about the event that opened the current cycle and the
  corrected start is before the cycle's end and after every earlier boundary.
\<close>

definition correction_applies ::
  "QuotaCycleLedger \<Rightarrow> string \<Rightarrow> AccountQuotaCycle \<Rightarrow> QuotaResetEvent \<Rightarrow> string \<Rightarrow> int \<Rightarrow> bool" where
  "correction_applies L source_ref c previous event_id effective \<longleftrightarrow>
     \<not> (ev_cycle_id previous \<noteq> cy_cycle_id c \<or> cy_event_id c \<noteq> event_id \<or>
        effective \<ge> (case cy_ends_at_ms c of None \<Rightarrow> i64_max | Some e \<Rightarrow> e) \<or>
        (case earlier_boundary L source_ref c of None \<Rightarrow> False | Some b \<Rightarrow> effective \<le> b))"

text \<open>The event is known already: the same time again is a replay, another a correction.\<close>

definition correct_reset ::
  "QuotaCycleLedger \<Rightarrow> rng \<Rightarrow> string \<Rightarrow> QuotaCycleSource \<Rightarrow> AccountQuotaCycle \<Rightarrow> string \<Rightarrow>
   QuotaResetEvent \<Rightarrow> string \<Rightarrow> int \<Rightarrow> int \<Rightarrow> QuotaTimeBasis \<Rightarrow>
   QuotaCycleLedger \<times> rng \<times> bool res" where
  "correct_reset L r identity src c source_ref previous event_id effective discovered basis =
     (if ev_effective_at_ms previous = effective then (L, r, Ok False)
      else
        let key = event_key source_ref event_id;
            applied = correction_applies L source_ref c previous event_id effective;
            correction = \<lparr>co_event_key = key,
              co_previous_effective_at_ms = ev_effective_at_ms previous,
              co_effective_at_ms = effective, co_discovered_at_ms = discovered,
              co_applied = applied\<rparr>
        in if (\<exists>prior \<in> set (ql_corrections L). same_correction prior correction)
           then (L, r, Ok False)
           else
             let L1 = L\<lparr>ql_corrections := ql_corrections L @ [correction]\<rparr>
             in if \<not> applied
                then (bump_revision (put_event key (previous\<lparr>ev_status := NeedsReconcile\<rparr>) L1),
                      r, Ok False)
                else
                  let c' = c\<lparr>cy_starts_at_ms := effective, cy_basis := basis,
                        cy_observed_at_ms := max (cy_observed_at_ms c) discovered,
                        cy_cycle_revision := saturating_add_u64 (cy_cycle_revision c) 1\<rparr>;
                      e' = previous\<lparr>ev_effective_at_ms := effective,
                        ev_discovered_at_ms := discovered\<rparr>
                  in (bump_revision (put_event key e'
                        (put_source identity (src\<lparr>qs_cycle := Some c'\<rparr>) L1)), r, Ok True))"

text \<open>
  A new event: before the current start it is history, at the start it joins the current
  cycle, after it a new cycle begins.
\<close>

definition advance_cycle ::
  "AccountQuotaCycle \<Rightarrow> string \<Rightarrow> nat \<Rightarrow> string \<Rightarrow> int \<Rightarrow> int \<Rightarrow> QuotaTimeBasis \<Rightarrow>
   AccountQuotaCycle" where
  "advance_cycle c cycle_id sequence event_id effective discovered basis =
     c\<lparr>cy_cycle_id := cycle_id, cy_cycle_sequence := sequence, cy_cycle_revision := 1,
       cy_starts_at_ms := effective,
       cy_ends_at_ms := (case cy_ends_at_ms c of
           None \<Rightarrow> None | Some e \<Rightarrow> if e > effective then Some e else None),
       cy_basis := basis, cy_observed_at_ms := discovered, cy_event_id := event_id\<rparr>"

definition new_reset ::
  "QuotaCycleLedger \<Rightarrow> rng \<Rightarrow> string \<Rightarrow> QuotaCycleSource \<Rightarrow> AccountQuotaCycle \<Rightarrow> string \<Rightarrow>
   string \<Rightarrow> int \<Rightarrow> int \<Rightarrow> QuotaTimeBasis \<Rightarrow> QuotaCycleLedger \<times> rng \<times> bool res" where
  "new_reset L r identity src c source_ref event_id effective discovered basis =
     (let historical = effective < cy_starts_at_ms c;
          advanced = effective > cy_starts_at_ms c;
          event = (\<lambda>cycle_id. \<lparr>ev_event_id = event_id, ev_source_ref = source_ref,
            ev_bucket_id = qs_bucket_id src, ev_effective_at_ms = effective,
            ev_discovered_at_ms = discovered, ev_basis = basis,
            ev_status = (if historical then Historical else Committed),
            ev_cycle_id = (if historical then [] else cycle_id)\<rparr>);
          key = event_key source_ref event_id
      in if advanced
         then (case checked_add_u64 (cy_cycle_sequence c) 1 of
             None \<Rightarrow> (put_source identity (src\<lparr>qs_cycle := Some (c\<lparr>cy_cycle_id := shd r\<rparr>)\<rparr>) L,
                      stl r, Err ''quota_sequence_overflow'')
           | Some sequence \<Rightarrow>
               let c' = advance_cycle c (shd r) sequence event_id effective discovered basis
               in (bump_revision (put_event key (event (cy_cycle_id c'))
                     (put_source identity (src\<lparr>qs_cycle := Some c'\<rparr>) L)), stl r, Ok True))
         else (bump_revision (put_event key (event (cy_cycle_id c)) L), r, Ok False))"

definition apply_reset ::
  "QuotaCycleLedger \<Rightarrow> rng \<Rightarrow> string \<Rightarrow> QuotaSourceFence \<Rightarrow> string \<Rightarrow> int \<Rightarrow> int \<Rightarrow>
   QuotaTimeBasis \<Rightarrow> QuotaCycleLedger \<times> rng \<times> bool res" where
  "apply_reset L r source_ref fence event_id effective discovered basis =
     (if event_id = [] \<or> length event_id > 256 \<or> effective < 0 \<or> effective > discovered
      then (L, r, Err ''quota_event_invalid'')
      else case find_source L source_ref of
        None \<Rightarrow> (L, r, Err ''quota_source_missing'')
      | Some (identity, src) \<Rightarrow>
          if qs_fence src \<noteq> fence then (L, r, Err ''quota_source_fence_changed'')
          else case qs_cycle src of
            None \<Rightarrow> open_first_cycle L r identity src source_ref event_id effective discovered basis
          | Some c \<Rightarrow>
              (case bt_get (ql_events L) (event_key source_ref event_id) of
                 Some previous \<Rightarrow>
                   correct_reset L r identity src c source_ref previous event_id effective
                     discovered basis
               | None \<Rightarrow>
                   new_reset L r identity src c source_ref event_id effective discovered basis))"

subsection \<open>Observing the upstream window\<close>

text \<open>
  One activation of \<open>observe\<close>: it either returns, or has applied a reset and calls itself
  again on the new ledger.
\<close>

datatype observe_step =
  Done QuotaCycleLedger rng "bool res"
| Again QuotaCycleLedger rng

definition inferred_start :: "QuotaWindowObservation \<Rightarrow> int option res" where
  "inferred_start ob =
     (case start_of ob of
        Ok start \<Rightarrow> Ok (Some start)
      | Err e \<Rightarrow> if e = ''quota_boundary_unavailable'' then Ok None else Err e)"

definition initial_cycle ::
  "QuotaCycleLedger \<Rightarrow> rng \<Rightarrow> string \<Rightarrow> QuotaCycleSource \<Rightarrow> string \<Rightarrow> int \<Rightarrow>
   QuotaWindowObservation \<Rightarrow> observe_step" where
  "initial_cycle L r identity src source_ref start ob =
     (let cycle = \<lparr>cy_stream_incarnation = ql_stream_incarnation L,
            cy_source_ref = qs_source_ref src, cy_source_epoch = qs_source_epoch src,
            cy_bucket_id = qs_bucket_id src, cy_cycle_id = shd r, cy_cycle_sequence = 1,
            cy_cycle_revision = 1, cy_starts_at_ms = start,
            cy_ends_at_ms = Some (ob_ends_at_ms ob), cy_basis = ob_basis ob,
            cy_observed_at_ms = ob_observed_at_ms ob,
            cy_event_id = ''initial:'' @ show_int (ob_ends_at_ms ob)\<rparr>;
          event = \<lparr>ev_event_id = cy_event_id cycle, ev_source_ref = source_ref,
            ev_bucket_id = qs_bucket_id src, ev_effective_at_ms = cy_starts_at_ms cycle,
            ev_discovered_at_ms = ob_observed_at_ms ob, ev_basis = ob_basis ob,
            ev_status = Committed, ev_cycle_id = cy_cycle_id cycle\<rparr>
      in Done (bump_revision (put_event (event_key source_ref (cy_event_id cycle)) event
                 (put_source identity (src\<lparr>qs_cycle := Some cycle\<rparr>) L))) (stl r) (Ok True))"

definition again_after_reset ::
  "QuotaCycleLedger \<times> rng \<times> bool res \<Rightarrow> observe_step" where
  "again_after_reset x =
     (case x of (L, r, Err e) \<Rightarrow> Done L r (Err e) | (L, r, Ok _) \<Rightarrow> Again L r)"

definition natural_event_id :: "int \<Rightarrow> string" where
  "natural_event_id boundary = ''natural:'' @ show_int boundary"

definition upstream_event_id :: "int \<Rightarrow> string" where
  "upstream_event_id start = ''upstream:'' @ show_int start"

definition elapsed_boundary :: "AccountQuotaCycle \<Rightarrow> int \<Rightarrow> int option" where
  "elapsed_boundary c now =
     (case cy_ends_at_ms c of None \<Rightarrow> None | Some e \<Rightarrow> if e \<le> now then Some e else None)"

text \<open>
  An explicit upstream start may corroborate a known cycle, but an end-duration inference
  never overwrites a confirmed early reset: only the end and the observation time change.
\<close>

definition extend_current ::
  "QuotaCycleLedger \<Rightarrow> rng \<Rightarrow> string \<Rightarrow> QuotaCycleSource \<Rightarrow> AccountQuotaCycle \<Rightarrow>
   QuotaWindowObservation \<Rightarrow> bool \<Rightarrow> observe_step" where
  "extend_current L r identity src c ob freshness_changed =
     (let changed = (cy_ends_at_ms c \<noteq> Some (ob_ends_at_ms ob));
          c1 = (if changed
                then c\<lparr>cy_ends_at_ms := Some (ob_ends_at_ms ob),
                       cy_cycle_revision := saturating_add_u64 (cy_cycle_revision c) 1\<rparr>
                else c);
          L1 = (if changed then bump_revision L else L);
          c2 = c1\<lparr>cy_observed_at_ms := ob_observed_at_ms ob\<rparr>
      in Done (put_source identity (src\<lparr>qs_cycle := Some c2\<rparr>) L1) r
           (Ok (changed \<or> freshness_changed)))"

definition observe_current ::
  "QuotaCycleLedger \<Rightarrow> rng \<Rightarrow> string \<Rightarrow> QuotaCycleSource \<Rightarrow> AccountQuotaCycle \<Rightarrow> string \<Rightarrow>
   QuotaSourceFence \<Rightarrow> QuotaWindowObservation \<Rightarrow> bool \<Rightarrow> observe_step" where
  "observe_current L r identity src c source_ref fence ob freshness_changed =
     (if ob_observed_at_ms ob < cy_observed_at_ms c then Done L r (Ok False)
      else case elapsed_boundary c (ob_observed_at_ms ob) of
        Some boundary \<Rightarrow>
          again_after_reset (apply_reset L r source_ref fence (natural_event_id boundary)
            boundary (ob_observed_at_ms ob) KnownNaturalBoundary)
      | None \<Rightarrow>
          (case ob_starts_at_ms ob of
             Some start \<Rightarrow>
               if start > cy_starts_at_ms c
               then again_after_reset (apply_reset L r source_ref fence (upstream_event_id start)
                      start (ob_observed_at_ms ob) (ob_basis ob))
               else extend_current L r identity src c ob freshness_changed
           | None \<Rightarrow> extend_current L r identity src c ob freshness_changed))"

text \<open>Recording the boundary and the freshness of the report comes before the cycle.\<close>

definition note_observation ::
  "string \<Rightarrow> QuotaCycleSource \<Rightarrow> QuotaWindowObservation \<Rightarrow> QuotaCycleLedger \<Rightarrow> QuotaCycleLedger" where
  "note_observation identity src ob L =
     (let boundary_changed = (qs_next_boundary_ms src \<noteq> Some (ob_ends_at_ms ob));
          freshness_changed = (qs_last_observed_at_ms src \<noteq> ob_observed_at_ms ob);
          L1 = put_source identity (src\<lparr>qs_next_boundary_ms := Some (ob_ends_at_ms ob),
                 qs_last_observed_at_ms := ob_observed_at_ms ob\<rparr>) L
      in if boundary_changed \<or> freshness_changed then bump_revision L1 else L1)"

definition observe_once ::
  "QuotaCycleLedger \<Rightarrow> rng \<Rightarrow> string \<Rightarrow> QuotaSourceFence \<Rightarrow> QuotaWindowObservation \<Rightarrow>
   observe_step" where
  "observe_once L r source_ref fence ob =
     (case validate_end ob of
        Err e \<Rightarrow> Done L r (Err e)
      | Ok _ \<Rightarrow>
     (case inferred_start ob of
        Err e \<Rightarrow> Done L r (Err e)
      | Ok inferred \<Rightarrow>
     (case find_source L source_ref of
        None \<Rightarrow> Done L r (Err ''quota_source_missing'')
      | Some (identity, src) \<Rightarrow>
          if qs_fence src \<noteq> fence then Done L r (Err ''quota_source_fence_changed'')
          else if qs_bucket_id src \<noteq> ob_bucket_id ob then Done L r (Err ''quota_bucket_mismatch'')
          else if ob_observed_at_ms ob < qs_last_observed_at_ms src then Done L r (Ok False)
          else
            let boundary_changed = (qs_next_boundary_ms src \<noteq> Some (ob_ends_at_ms ob));
                freshness_changed = (qs_last_observed_at_ms src \<noteq> ob_observed_at_ms ob);
                src1 = src\<lparr>qs_next_boundary_ms := Some (ob_ends_at_ms ob),
                  qs_last_observed_at_ms := ob_observed_at_ms ob\<rparr>;
                L1 = note_observation identity src ob L
            in (case qs_cycle src1 of
                  None \<Rightarrow>
                    (case inferred of
                       None \<Rightarrow> Done L1 r (Ok (boundary_changed \<or> freshness_changed))
                     | Some start \<Rightarrow> initial_cycle L1 r identity src1 source_ref start ob)
                | Some c \<Rightarrow>
                    observe_current L1 r identity src1 c source_ref fence ob freshness_changed))))"

text \<open>
  The source's \<open>observe\<close> calls itself after each applied reset. Nothing in its text bounds
  the depth, so it is a partial function; that it returns is a theorem below.
\<close>

partial_function (option) observe ::
  "QuotaCycleLedger \<Rightarrow> rng \<Rightarrow> string \<Rightarrow> QuotaSourceFence \<Rightarrow> QuotaWindowObservation \<Rightarrow>
   (QuotaCycleLedger \<times> rng \<times> bool res) option" where
  "observe L r source_ref fence ob =
     (case observe_once L r source_ref fence ob of
        Done L1 r1 result \<Rightarrow> Some (L1, r1, result)
      | Again L1 r1 \<Rightarrow>
          Option.bind (observe L1 r1 source_ref fence ob) (\<lambda>(L2, r2, result).
            Some (L2, r2, case result of Err e \<Rightarrow> Err e | Ok _ \<Rightarrow> Ok True)))"

subsection \<open>The passing of time\<close>

definition due_sources ::
  "QuotaCycleLedger \<Rightarrow> int \<Rightarrow> (string \<times> QuotaSourceFence \<times> int) list" where
  "due_sources L now =
     List.map_filter (\<lambda>src.
       case qs_cycle src of
         None \<Rightarrow> None
       | Some c \<Rightarrow> map_option (\<lambda>e. (qs_source_ref src, qs_fence src, e)) (elapsed_boundary c now))
     (bt_values (ql_sources L))"

fun advance_all ::
  "QuotaCycleLedger \<Rightarrow> rng \<Rightarrow> (string \<times> QuotaSourceFence \<times> int) list \<Rightarrow> int \<Rightarrow> bool \<Rightarrow>
   QuotaCycleLedger \<times> rng \<times> bool res" where
  "advance_all L r [] now changed = (L, r, Ok changed)"
| "advance_all L r ((ref, fence, e) # due) now changed =
     (case apply_reset L r ref fence (natural_event_id e) e now KnownNaturalBoundary of
        (L1, r1, Err x) \<Rightarrow> (L1, r1, Err x)
      | (L1, r1, Ok b) \<Rightarrow> advance_all L1 r1 due now (changed \<or> b))"

definition advance_due ::
  "QuotaCycleLedger \<Rightarrow> rng \<Rightarrow> int \<Rightarrow> QuotaCycleLedger \<times> rng \<times> bool res" where
  "advance_due L r now = advance_all L r (due_sources L now) now False"

definition clear_next_boundary :: "QuotaCycleLedger \<Rightarrow> string \<Rightarrow> QuotaCycleLedger" where
  "clear_next_boundary L source_ref =
     (case find_source L source_ref of
        None \<Rightarrow> L
      | Some (identity, src) \<Rightarrow> put_source identity (src\<lparr>qs_next_boundary_ms := None\<rparr>) L)"

definition open_at_boundary ::
  "QuotaCycleLedger \<Rightarrow> rng \<Rightarrow> string \<Rightarrow> QuotaCycleSource \<Rightarrow> string \<Rightarrow> int \<Rightarrow> int \<Rightarrow>
   QuotaCycleLedger \<times> rng \<times> bool res" where
  "open_at_boundary L r identity src source_ref boundary now =
     (let event_id = natural_event_id boundary;
          cycle = \<lparr>cy_stream_incarnation = ql_stream_incarnation L, cy_source_ref = source_ref,
            cy_source_epoch = qs_source_epoch src, cy_bucket_id = qs_bucket_id src,
            cy_cycle_id = shd r, cy_cycle_sequence = 1, cy_cycle_revision = 1,
            cy_starts_at_ms = boundary, cy_ends_at_ms = None,
            cy_basis = KnownNaturalBoundary, cy_observed_at_ms = now, cy_event_id = event_id\<rparr>;
          event = \<lparr>ev_event_id = event_id, ev_source_ref = source_ref,
            ev_bucket_id = qs_bucket_id src, ev_effective_at_ms = boundary,
            ev_discovered_at_ms = now, ev_basis = KnownNaturalBoundary,
            ev_status = Committed, ev_cycle_id = shd r\<rparr>
      in (bump_revision (put_event (event_key source_ref event_id) event
            (put_source identity
               (src\<lparr>qs_cycle := Some cycle, qs_next_boundary_ms := None\<rparr>) L)),
          stl r, Ok True))"

definition advance_source_due ::
  "QuotaCycleLedger \<Rightarrow> rng \<Rightarrow> string \<Rightarrow> int \<Rightarrow> QuotaCycleLedger \<times> rng \<times> bool res" where
  "advance_source_due L r source_ref now =
     (case find_source L source_ref of
        None \<Rightarrow> (L, r, Err ''quota_source_missing'')
      | Some (identity, src) \<Rightarrow>
          (case (case Option.bind (qs_cycle src) cy_ends_at_ms of
                   Some e \<Rightarrow> Some e | None \<Rightarrow> qs_next_boundary_ms src) of
             None \<Rightarrow> (L, r, Ok False)
           | Some e \<Rightarrow>
               if \<not> e \<le> now then (L, r, Ok False)
               else if qs_cycle src = None
               then open_at_boundary L r identity src source_ref e now
               else (case apply_reset L r source_ref (qs_fence src) (natural_event_id e) e now
                            KnownNaturalBoundary of
                       (L1, r1, Err x) \<Rightarrow> (L1, r1, Err x)
                     | (L1, r1, Ok changed) \<Rightarrow>
                         (if changed then clear_next_boundary L1 source_ref else L1, r1,
                          Ok changed))))"

subsection \<open>Validation\<close>

definition cursor_char :: "char \<Rightarrow> bool" where
  "cursor_char c \<longleftrightarrow> is_ascii_alphanumeric c \<or> c = CHR ''_'' \<or> c = CHR ''-''"

definition valid_cycle :: "QuotaCycleLedger \<Rightarrow> QuotaCycleSource \<Rightarrow> AccountQuotaCycle \<Rightarrow> bool" where
  "valid_cycle L src c \<longleftrightarrow> \<not> (
     cy_stream_incarnation c \<noteq> ql_stream_incarnation L \<or> cy_source_ref c \<noteq> qs_source_ref src \<or>
     cy_source_epoch c \<noteq> qs_source_epoch src \<or> cy_bucket_id c \<noteq> qs_bucket_id src \<or>
     cy_cycle_id c = [] \<or> cy_cycle_sequence c = 0 \<or> cy_cycle_revision c = 0 \<or>
     cy_starts_at_ms c < 0 \<or> cy_observed_at_ms c < cy_starts_at_ms c \<or>
     (case cy_ends_at_ms c of None \<Rightarrow> False | Some e \<Rightarrow> e \<le> cy_starts_at_ms c))"

definition validate_cycle :: "QuotaCycleLedger \<Rightarrow> QuotaCycleSource \<Rightarrow> unit res" where
  "validate_cycle L src =
     (case qs_cycle src of
        None \<Rightarrow> Ok ()
      | Some c \<Rightarrow>
          if \<not> valid_cycle L src c then Err ''quota_cycle_invalid''
          else case bt_get (ql_events L) (event_key (qs_source_ref src) (cy_event_id c)) of
            None \<Rightarrow> Err ''quota_cycle_event_missing''
          | Some e \<Rightarrow>
              if ev_cycle_id e \<noteq> cy_cycle_id c \<or> ev_effective_at_ms e \<noteq> cy_starts_at_ms c \<or>
                 ev_status e = Historical
              then Err ''quota_cycle_event_mismatch'' else Ok ())"

fun validate_sources ::
  "QuotaCycleLedger \<Rightarrow> (string \<times> QuotaCycleSource) list \<Rightarrow> string list \<Rightarrow> unit res" where
  "validate_sources L [] refs = Ok ()"
| "validate_sources L ((identity, src) # rest) refs =
     (if identity = [] \<or> qs_source_ref src = [] \<or> qs_provider_type src = [] \<or>
         qs_bucket_id src = [] \<or> qs_source_epoch src = 0 \<or> qs_last_observed_at_ms src < 0 \<or>
         (case qs_next_boundary_ms src of None \<Rightarrow> False | Some t \<Rightarrow> t < 0) \<or>
         qs_source_ref src \<in> set refs
      then Err ''quota_source_invalid''
      else rbind (validate_cycle L src) (\<lambda>_. validate_sources L rest (qs_source_ref src # refs)))"

definition valid_event :: "QuotaCycleSource \<Rightarrow> string \<Rightarrow> QuotaResetEvent \<Rightarrow> bool" where
  "valid_event src key e \<longleftrightarrow> \<not> (
     ev_event_id e = [] \<or> length (ev_event_id e) > 256 \<or>
     key \<noteq> event_key (ev_source_ref e) (ev_event_id e) \<or> ev_bucket_id e \<noteq> qs_bucket_id src \<or>
     ev_effective_at_ms e < 0 \<or> ev_effective_at_ms e > ev_discovered_at_ms e \<or>
     (ev_status e = Committed \<and> ev_cycle_id e = []) \<or>
     (ev_status e = Historical \<and> ev_cycle_id e \<noteq> []))"

fun validate_events ::
  "QuotaCycleLedger \<Rightarrow> (string \<times> QuotaResetEvent) list \<Rightarrow> unit res" where
  "validate_events L [] = Ok ()"
| "validate_events L ((key, e) # rest) =
     (case source L (ev_source_ref e) of
        None \<Rightarrow> Err ''quota_event_source_missing''
      | Some src \<Rightarrow>
          if \<not> valid_event src key e then Err ''quota_event_invalid''
          else validate_events L rest)"

text \<open>
  Corrections: each names a known event and no correction is recorded twice. The applied
  ones of an event form a chain, and the last one gives the event's time; \<open>applied\<close> maps
  an event key to the time of its last applied correction so far.
\<close>

definition valid_correction :: "QuotaCycleLedger \<Rightarrow> QuotaResetCorrection \<Rightarrow> bool" where
  "valid_correction L c \<longleftrightarrow> \<not> (
     \<not> bt_contains (ql_events L) (co_event_key c) \<or> co_previous_effective_at_ms c < 0 \<or>
     co_effective_at_ms c < 0 \<or> co_effective_at_ms c > co_discovered_at_ms c \<or>
     co_previous_effective_at_ms c = co_effective_at_ms c)"

fun validate_corrections ::
  "QuotaCycleLedger \<Rightarrow> QuotaResetCorrection list \<Rightarrow> QuotaResetCorrection list \<Rightarrow>
   (string, int) btree \<Rightarrow> (string, int) btree res" where
  "validate_corrections L [] seen applied = Ok applied"
| "validate_corrections L (c # rest) seen applied =
     (if \<not> valid_correction L c \<or> (\<exists>prior \<in> set seen. same_correction prior c)
      then Err ''quota_correction_invalid''
      else if co_applied c \<and>
        (case bt_get applied (co_event_key c) of
           None \<Rightarrow> False | Some t \<Rightarrow> t \<noteq> co_previous_effective_at_ms c)
      then Err ''quota_correction_chain_invalid''
      else validate_corrections L rest (c # seen)
        (if co_applied c then bt_insert (co_event_key c) (co_effective_at_ms c) applied
         else applied))"

definition applied_agrees :: "QuotaCycleLedger \<Rightarrow> (string, int) btree \<Rightarrow> bool" where
  "applied_agrees L applied \<longleftrightarrow>
     (\<forall>(key, t) \<in> set applied.
        map_option ev_effective_at_ms (bt_get (ql_events L) key) = Some t)"

definition valid_operation :: "QuotaCycleLedger \<Rightarrow> string \<Rightarrow> ResetCreditOperation \<Rightarrow> bool" where
  "valid_operation L key x \<longleftrightarrow> \<not> (
     rc_operation_id x = [] \<or> key \<noteq> rc_operation_id x \<or> rc_request_id x = [] \<or>
     source L (rc_source_ref x) = None \<or> rc_created_at_ms x < 0 \<or>
     (case rc_confirmed_at_ms x of None \<Rightarrow> False | Some t \<Rightarrow> t < rc_created_at_ms x) \<or>
     (rc_status x = Confirmed) \<noteq> (rc_confirmed_at_ms x \<noteq> None) \<or>
     ((rc_status x = Confirmed \<or> rc_status x = Rejected) \<and> rc_result x = None))"

definition validate_receipt :: "QuotaCycleLedger \<Rightarrow> ResetCreditOperation \<Rightarrow> unit res" where
  "validate_receipt L x =
     (if rc_status x = Confirmed
      then case bt_get (ql_events L)
                  (event_key (rc_source_ref x) (''redeem:'' @ rc_request_id x)) of
          None \<Rightarrow> Err ''quota_reset_receipt_event_missing''
        | Some e \<Rightarrow>
            if ev_basis e \<noteq> RedeemConfirmation \<or> ev_status e = Historical
            then Err ''quota_reset_receipt_event_invalid'' else Ok ()
      else Ok ())"

fun validate_operations ::
  "QuotaCycleLedger \<Rightarrow> (string \<times> ResetCreditOperation) list \<Rightarrow> string list \<Rightarrow> unit res" where
  "validate_operations L [] request_ids = Ok ()"
| "validate_operations L ((key, x) # rest) request_ids =
     (if \<not> valid_operation L key x \<or> rc_request_id x \<in> set request_ids
      then Err ''quota_reset_operation_invalid''
      else rbind (validate_receipt L x)
        (\<lambda>_. validate_operations L rest (rc_request_id x # request_ids)))"

definition valid_cursor :: "PublicResetCursor \<Rightarrow> bool" where
  "valid_cursor p \<longleftrightarrow> \<not> (
     (\<exists>t \<in> set [pc_from_at_ms p, pc_checked_at_ms p, pc_retry_at_ms p, pc_high_watermark_ms p].
        case t of None \<Rightarrow> False | Some t \<Rightarrow> t < 0) \<or>
     (case pc_etag p of None \<Rightarrow> False
        | Some etag \<Rightarrow> length etag > 1024 \<or> CHR 0x0D \<in> set etag \<or> CHR 0x0A \<in> set etag) \<or>
     (case pc_next_cursor p of None \<Rightarrow> False
        | Some v \<Rightarrow> v = [] \<or> length v > 1024 \<or> \<not> list_all cursor_char v) \<or>
     (pc_next_cursor p \<noteq> None \<and> pc_from_at_ms p = None))"

definition valid_public_event :: "string \<times> int \<Rightarrow> bool" where
  "valid_public_event x \<longleftrightarrow>
     (case x of (key, t) \<Rightarrow> key \<noteq> [] \<and> length key \<le> 64 \<and> 0 \<le> t \<and> list_all cursor_char key)"

definition validate :: "QuotaCycleLedger \<Rightarrow> unit res" where
  "validate L =
     (if ql_schema_version L \<noteq> QUOTA_CYCLE_SCHEMA then Err ''unsupported_quota_cycle_schema''
      else if ql_stream_incarnation L = [] then Err ''quota_stream_invalid''
      else rbind (validate_sources L (ql_sources L) []) (\<lambda>_.
        rbind (validate_events L (ql_events L)) (\<lambda>_.
        rbind (validate_corrections L (ql_corrections L) [] []) (\<lambda>applied.
        if \<not> applied_agrees L applied then Err ''quota_correction_chain_invalid''
        else rbind (validate_operations L (ql_operations L) []) (\<lambda>_.
        if \<not> valid_cursor (ql_public_cursor L) \<or> \<not> valid_cursor (ql_public_status_cursor L)
        then Err ''quota_public_cursor_invalid''
        else if \<not> list_all valid_public_event (ql_public_events L)
        then Err ''quota_public_event_invalid''
        else Ok ())))))"

subsection \<open>Registering a source and redeeming a credit\<close>

definition register_source ::
  "QuotaCycleLedger \<Rightarrow> rng \<Rightarrow> string \<Rightarrow> string \<Rightarrow> string \<Rightarrow> QuotaSourceFence \<Rightarrow>
   QuotaCycleLedger \<times> rng \<times> string res" where
  "register_source L r identity provider_type bucket_id fence =
     (case validate L of
        Err e \<Rightarrow> (L, r, Err e)
      | Ok _ \<Rightarrow>
          if identity = [] \<or> bucket_id = [] then (L, r, Err ''identity_unverified'')
          else
            let existed = bt_contains (ql_sources L) identity;
                fresh = \<lparr>qs_source_ref = shd r, qs_source_epoch = 1,
                  qs_provider_type = provider_type, qs_bucket_id = bucket_id,
                  qs_fence = fence, qs_cycle = None, qs_next_boundary_ms = None,
                  qs_last_observed_at_ms = 0\<rparr>;
                src = (case bt_get (ql_sources L) identity of None \<Rightarrow> fresh | Some s \<Rightarrow> s);
                r1 = (if existed then r else stl r);
                L1 = put_source identity src L
            in if qs_provider_type src \<noteq> provider_type \<or> qs_bucket_id src \<noteq> bucket_id
               then (L1, r1, Err ''quota_source_scope_mismatch'')
               else if \<not> existed \<or> qs_fence src \<noteq> fence
               then let L2 = put_source identity (src\<lparr>qs_fence := fence\<rparr>) L1
                    in (case checked_add_u64 (ql_revision L2) 1 of
                          None \<Rightarrow> (L2, r1, Err ''quota_revision_overflow'')
                        | Some n \<Rightarrow> (L2\<lparr>ql_revision := n\<rparr>, r1, Ok (qs_source_ref src)))
               else (L1, r1, Ok (qs_source_ref src)))"

definition begin_redeem ::
  "QuotaCycleLedger \<Rightarrow> ResetCreditOperation \<Rightarrow> QuotaCycleLedger \<times> ResetCreditOperation res" where
  "begin_redeem L x =
     (case source L (rc_source_ref x) of
        None \<Rightarrow> (L, Err ''quota_source_missing'')
      | Some src \<Rightarrow>
          if qs_fence src \<noteq> rc_fence x then (L, Err ''quota_source_fence_changed'')
          else case bt_get (ql_operations L) (rc_operation_id x) of
            Some previous \<Rightarrow>
              if rc_source_ref previous \<noteq> rc_source_ref x \<or> rc_request_id previous \<noteq> rc_request_id x
              then (L, Err ''reset_operation_conflict'')
              else (L, Ok previous)
          | None \<Rightarrow>
              (bump_revision (L\<lparr>ql_operations := bt_insert (rc_operation_id x) x (ql_operations L)\<rparr>),
               Ok x))"

end
