(* ===== verification/Quota_Cycle_Inv.thy ===== *)
theory Quota_Cycle_Inv
  imports Quota_Cycle
begin

section \<open>Account quota cycles: the validity invariant\<close>

text \<open>
  \<open>validate\<close> runs before every registration and after every load. This theory states what
  it accepts as a predicate (\<open>ledger_ok\<close>), proves the two equivalent, and shows that every
  operation that changes the ledger keeps it, so that no sequence of operations produces a
  ledger the server would refuse to load.
\<close>

subsection \<open>The predicate\<close>

definition source_entry_ok :: "string \<Rightarrow> QuotaCycleSource \<Rightarrow> bool" where
  "source_entry_ok identity src \<longleftrightarrow>
     identity \<noteq> [] \<and> qs_source_ref src \<noteq> [] \<and> qs_provider_type src \<noteq> [] \<and>
     qs_bucket_id src \<noteq> [] \<and> qs_source_epoch src \<noteq> 0 \<and> 0 \<le> qs_last_observed_at_ms src \<and>
     (\<forall>t. qs_next_boundary_ms src = Some t \<longrightarrow> 0 \<le> t)"

definition sources_ok :: "QuotaCycleLedger \<Rightarrow> bool" where
  "sources_ok L \<longleftrightarrow>
     (\<forall>(i, s) \<in> set (ql_sources L). source_entry_ok i s \<and> validate_cycle L s = Ok ()) \<and>
     distinct (map (qs_source_ref \<circ> snd) (ql_sources L))"

definition events_ok :: "QuotaCycleLedger \<Rightarrow> bool" where
  "events_ok L \<longleftrightarrow> (\<forall>(k, e) \<in> set (ql_events L).
     \<exists>src. source L (ev_source_ref e) = Some src \<and> valid_event src k e)"

definition corrections_ok :: "QuotaCycleLedger \<Rightarrow> bool" where
  "corrections_ok L \<longleftrightarrow> (\<exists>applied.
     validate_corrections L (ql_corrections L) [] [] = Ok applied \<and> applied_agrees L applied)"

definition operations_ok :: "QuotaCycleLedger \<Rightarrow> bool" where
  "operations_ok L \<longleftrightarrow>
     (\<forall>(k, x) \<in> set (ql_operations L). valid_operation L k x \<and> validate_receipt L x = Ok ()) \<and>
     distinct (map (rc_request_id \<circ> snd) (ql_operations L))"

definition public_ok :: "QuotaCycleLedger \<Rightarrow> bool" where
  "public_ok L \<longleftrightarrow> valid_cursor (ql_public_cursor L) \<and> valid_cursor (ql_public_status_cursor L) \<and>
     list_all valid_public_event (ql_public_events L)"

definition ledger_ok :: "QuotaCycleLedger \<Rightarrow> bool" where
  "ledger_ok L \<longleftrightarrow> ql_schema_version L = QUOTA_CYCLE_SCHEMA \<and> ql_stream_incarnation L \<noteq> [] \<and>
     sources_ok L \<and> events_ok L \<and> corrections_ok L \<and> operations_ok L \<and> public_ok L"

lemma validate_sources_iff:
  "validate_sources L xs refs = Ok () \<longleftrightarrow>
     (\<forall>(i, s) \<in> set xs. source_entry_ok i s \<and> validate_cycle L s = Ok () \<and>
        qs_source_ref s \<notin> set refs) \<and> distinct (map (qs_source_ref \<circ> snd) xs)"
proof (induction xs arbitrary: refs)
  case (Cons x xs)
  obtain i s where x: "x = (i, s)" by (cases x)
  show ?case
    by (cases "qs_next_boundary_ms s"; auto simp: x Cons.IH source_entry_ok_def result_iff) force+
qed simp

lemma validate_events_iff:
  "validate_events L xs = Ok () \<longleftrightarrow> (\<forall>(k, e) \<in> set xs.
     \<exists>src. source L (ev_source_ref e) = Some src \<and> valid_event src k e)"
proof (induction xs)
  case (Cons x xs)
  obtain k e where x: "x = (k, e)" by (cases x)
  show ?case by (cases "source L (ev_source_ref e)") (simp_all add: x Cons.IH)
qed simp

lemma validate_operations_iff:
  "validate_operations L xs ids = Ok () \<longleftrightarrow>
     (\<forall>(k, x) \<in> set xs. valid_operation L k x \<and> validate_receipt L x = Ok () \<and>
        rc_request_id x \<notin> set ids) \<and> distinct (map (rc_request_id \<circ> snd) xs)"
proof (induction xs arbitrary: ids)
  case (Cons x xs)
  obtain k y where x: "x = (k, y)" by (cases x)
  show ?case by (auto simp: x Cons.IH result_iff) force
qed simp

lemma validate_iff: "validate L = Ok () \<longleftrightarrow> ledger_ok L"
  by (auto simp: validate_def ledger_ok_def sources_ok_def events_ok_def corrections_ok_def
      operations_ok_def public_ok_def validate_sources_iff validate_events_iff
      validate_operations_iff result_iff)

subsection \<open>Source references\<close>

text \<open>
  Source references are \<open>opaque_id()\<close>s, in hexadecimal, so they contain no colon and an
  event key determines the source and the event.
\<close>

definition colon_free :: "string \<Rightarrow> bool" where
  "colon_free s \<longleftrightarrow> CHR '':'' \<notin> set s"

definition refs_colon_free :: "QuotaCycleLedger \<Rightarrow> bool" where
  "refs_colon_free L \<longleftrightarrow> (\<forall>s \<in> set (bt_values (ql_sources L)). colon_free (qs_source_ref s))"

definition maps_wf :: "QuotaCycleLedger \<Rightarrow> bool" where
  "maps_wf L \<longleftrightarrow> bt_wf (ql_sources L) \<and> bt_wf (ql_events L) \<and> bt_wf (ql_operations L)"

text \<open>A source that has recorded an event has a current cycle.\<close>

definition events_have_cycle :: "QuotaCycleLedger \<Rightarrow> bool" where
  "events_have_cycle L \<longleftrightarrow> (\<forall>(k, e) \<in> set (ql_events L). \<forall>s.
     source L (ev_source_ref e) = Some s \<longrightarrow> qs_cycle s \<noteq> None)"

definition ledger_inv :: "QuotaCycleLedger \<Rightarrow> bool" where
  "ledger_inv L \<longleftrightarrow> ledger_ok L \<and> maps_wf L \<and> refs_colon_free L \<and> events_have_cycle L"

lemma event_key_inj:
  assumes "colon_free r" and "colon_free r'" and "event_key r i = event_key r' i'"
  shows "r = r' \<and> i = i'"
proof -
  have ref: "takeWhile (\<lambda>c. c \<noteq> CHR '':'') (event_key r i) = r" if "colon_free r" for r i
    using that by (subst event_key_def, subst takeWhile_append2) (auto simp: colon_free_def)
  from ref [OF assms(1)] ref [OF assms(2)] assms(3) have "r = r'" by metis
  with assms(3) show ?thesis by (simp add: event_key_def)
qed

lemma event_key_same [simp]: "event_key r i = event_key r j \<longleftrightarrow> i = j"
  by (simp add: event_key_def)

lemma find_source_iff:
  assumes "distinct (map (qs_source_ref \<circ> snd) (ql_sources L))"
  shows "find_source L ref = Some (i, s) \<longleftrightarrow> (i, s) \<in> set (ql_sources L) \<and> qs_source_ref s = ref"
proof -
  have "find (\<lambda>e. qs_source_ref (snd e) = ref) xs = Some (i, s) \<longleftrightarrow>
      (i, s) \<in> set xs \<and> qs_source_ref s = ref"
    if "distinct (map (qs_source_ref \<circ> snd) xs)" for xs
    using that by (induction xs) (force split: if_splits)+
  with assms show ?thesis by (simp add: find_source_def bt_find_def)
qed

lemma ledger_inv_refs: "ledger_inv L \<Longrightarrow> distinct (map (qs_source_ref \<circ> snd) (ql_sources L))"
  by (simp add: ledger_inv_def ledger_ok_def sources_ok_def)

lemma find_source_put:
  assumes inv: "ledger_inv L" and found: "find_source L ref = Some (i, src)"
    and ref: "qs_source_ref src' = ref"
    and L': "ql_sources L' = bt_insert i src' (ql_sources L)"
  shows "find_source L' r = (if r = ref then Some (i, src') else find_source L r)"
    and "distinct (map (qs_source_ref \<circ> snd) (ql_sources L'))"
proof -
  note refs = ledger_inv_refs [OF inv]
  have wf: "bt_wf (ql_sources L)" using inv by (simp add: ledger_inv_def maps_wf_def)
  from found refs have mem: "(i, src) \<in> set (ql_sources L)" and src: "qs_source_ref src = ref"
    by (simp_all add: find_source_iff)
  from mem wf have get: "bt_get (ql_sources L) i = Some src" by (simp add: bt_get_iff_mem)
  show refs': "distinct (map (qs_source_ref \<circ> snd) (ql_sources L'))"
    using map_bt_insert_same [OF wf get, of qs_source_ref src'] src ref refs L' by simp
  have "find_source L' r = Some (j, s) \<longleftrightarrow>
      (if r = ref then Some (i, src') else find_source L r) = Some (j, s)" for j s
  proof (cases "j = i")
    case True
    from mem refs src have "find_source L r = Some (i, s) \<Longrightarrow> r = ref"
      using find_source_iff [OF refs, of r i s] bt_get_iff_mem [OF wf, of i s] get by auto
    with True show ?thesis
      using find_source_iff [OF refs', of r j s] mem_bt_insert [OF wf, of j s i src'] ref L'
      by auto
  next
    case False
    from False find_source_iff [OF refs, of ref j s] found have "\<not> ((j, s) \<in> set (ql_sources L) \<and> qs_source_ref s = ref)"
      by auto
    with False show ?thesis
      using find_source_iff [OF refs', of r j s] find_source_iff [OF refs, of r j s]
        mem_bt_insert [OF wf, of j s i src'] L'
      by auto
  qed
  then show "find_source L' r = (if r = ref then Some (i, src') else find_source L r)"
    by (metis not_None_eq surj_pair)
qed

subsection \<open>Corrections\<close>

lemma validate_corrections_mono:
  assumes "\<And>k. bt_contains (ql_events L) k \<Longrightarrow> bt_contains (ql_events L') k"
  shows "validate_corrections L xs seen a = Ok b \<Longrightarrow> validate_corrections L' xs seen a = Ok b"
proof (induction xs arbitrary: seen a)
  case (Cons c xs)
  have "valid_correction L c \<Longrightarrow> valid_correction L' c"
    using assms by (auto simp: valid_correction_def)
  with Cons show ?case by (auto split: if_splits)
qed simp

lemma validate_corrections_wf:
  "validate_corrections L xs seen a = Ok b \<Longrightarrow> bt_wf a \<Longrightarrow> bt_wf b"
  by (induction xs arbitrary: seen a) (auto split: if_splits)

lemma validate_corrections_snoc:
  "validate_corrections L xs seen a = Ok b \<Longrightarrow>
   validate_corrections L (xs @ [c]) seen a = validate_corrections L [c] (rev xs @ seen) b"
  by (induction xs arbitrary: seen a) (auto split: if_splits)

lemma applied_agrees_iff:
  "bt_wf a \<Longrightarrow> applied_agrees L a \<longleftrightarrow> (\<forall>k t. bt_get a k = Some t \<longrightarrow>
     (\<exists>e. bt_get (ql_events L) k = Some e \<and> ev_effective_at_ms e = t))"
  by (auto simp: applied_agrees_def bt_get_iff_mem)

lemma corrections_ok_mono:
  assumes "corrections_ok L" and "ql_corrections L' = ql_corrections L"
    and same: "\<And>k e. bt_get (ql_events L) k = Some e \<Longrightarrow>
      \<exists>e'. bt_get (ql_events L') k = Some e' \<and> ev_effective_at_ms e' = ev_effective_at_ms e"
  shows "corrections_ok L'"
proof -
  from assms(1) obtain a where a: "validate_corrections L (ql_corrections L) [] [] = Ok a"
    and agrees: "applied_agrees L a" by (auto simp: corrections_ok_def)
  have "validate_corrections L' (ql_corrections L') [] [] = Ok a"
    unfolding assms(2) by (rule validate_corrections_mono [OF _ a])
      (auto simp: bt_contains_def dest!: same)
  moreover have "applied_agrees L' a"
    using agrees same by (simp add: applied_agrees_iff validate_corrections_wf [OF a]) metis
  ultimately show ?thesis by (auto simp: corrections_ok_def)
qed

text \<open>Recording one more correction of a known event.\<close>

lemma corrections_ok_snoc:
  assumes ok: "corrections_ok L" and L': "ql_corrections L' = ql_corrections L @ [c]"
    and events: "ql_events L' = bt_insert (co_event_key c) e' (ql_events L)"
    and old: "bt_get (ql_events L) (co_event_key c) = Some e"
    and prev: "co_previous_effective_at_ms c = ev_effective_at_ms e"
    and bounds: "0 \<le> ev_effective_at_ms e" "0 \<le> co_effective_at_ms c"
      "co_effective_at_ms c \<le> co_discovered_at_ms c"
      "co_previous_effective_at_ms c \<noteq> co_effective_at_ms c"
    and new: "\<not> (\<exists>p \<in> set (ql_corrections L). same_correction p c)"
    and eff: "ev_effective_at_ms e' = (if co_applied c then co_effective_at_ms c else ev_effective_at_ms e)"
  shows "corrections_ok L'"
proof -
  from ok obtain a where a: "validate_corrections L (ql_corrections L) [] [] = Ok a"
    and agrees: "applied_agrees L a" by (auto simp: corrections_ok_def)
  note wf = validate_corrections_wf [OF a bt_wf_Nil]
  let ?b = "if co_applied c then bt_insert (co_event_key c) (co_effective_at_ms c) a else a"
  have a': "validate_corrections L' (ql_corrections L) [] [] = Ok a"
    by (rule validate_corrections_mono [OF _ a]) (simp add: events)
  have "valid_correction L' c"
    using prev bounds by (simp add: valid_correction_def events)
  moreover have "bt_get a (co_event_key c) = Some t \<Longrightarrow> t = co_previous_effective_at_ms c" for t
    using agrees old prev by (fastforce simp: applied_agrees_iff [OF wf])
  ultimately have "validate_corrections L' (ql_corrections L') [] [] = Ok ?b"
    using new unfolding L' validate_corrections_snoc [OF a'] by (auto split: option.splits)
  moreover have "applied_agrees L' ?b"
    using agrees old eff wf
    by (cases "co_applied c") (fastforce simp: applied_agrees_iff events)+
  ultimately show ?thesis by (auto simp: corrections_ok_def)
qed

subsection \<open>Replacing one source and one event\<close>

lemma validate_cycle_cong:
  assumes "validate_cycle L s = Ok ()"
    and "ql_stream_incarnation L' = ql_stream_incarnation L"
    and "\<And>c. qs_cycle s = Some c \<Longrightarrow>
      bt_get (ql_events L') (event_key (qs_source_ref s) (cy_event_id c)) =
      bt_get (ql_events L) (event_key (qs_source_ref s) (cy_event_id c))"
  shows "validate_cycle L' s = Ok ()"
  using assms by (auto simp: validate_cycle_def valid_cycle_def split: option.splits if_splits)

lemma source_of_find: "source L r = map_option snd (find_source L r)"
  by (simp add: source_def)

lemma valid_event_bucket: "qs_bucket_id s' = qs_bucket_id s \<Longrightarrow> valid_event s' k e = valid_event s k e"
  by (simp add: valid_event_def)

definition same_rest :: "QuotaCycleLedger \<Rightarrow> QuotaCycleLedger \<Rightarrow> bool" where
  "same_rest L L' \<longleftrightarrow>
     ql_schema_version L' = ql_schema_version L \<and>
     ql_stream_incarnation L' = ql_stream_incarnation L \<and> ql_operations L' = ql_operations L \<and>
     ql_public_cursor L' = ql_public_cursor L \<and> ql_public_events L' = ql_public_events L \<and>
     ql_public_status_cursor L' = ql_public_status_cursor L"

text \<open>
  Most operations replace one source. What that alone means for the parts of the invariant is
  shown once, the operations add what they do to the events.
\<close>

definition source_replaced ::
  "QuotaCycleLedger \<Rightarrow> QuotaCycleLedger \<Rightarrow> string \<Rightarrow> string \<Rightarrow> QuotaCycleSource \<Rightarrow> QuotaCycleSource \<Rightarrow> bool" where
  "source_replaced L L' ref i src src' \<longleftrightarrow> ledger_inv L \<and> find_source L ref = Some (i, src) \<and>
     ql_sources L' = bt_insert i src' (ql_sources L) \<and> same_rest L L' \<and>
     qs_source_ref src' = ref \<and> qs_bucket_id src' = qs_bucket_id src \<and> source_entry_ok i src'"

lemma source_replacedD:
  assumes "source_replaced L L' ref i src src'"
  shows "ledger_ok L" "bt_wf (ql_sources L)" "bt_wf (ql_events L)" "refs_colon_free L" "events_have_cycle L"
    and "(i, src) \<in> set (ql_sources L)" "qs_source_ref src = ref"
    and "find_source L' r = (if r = ref then Some (i, src') else find_source L r)"
    and "distinct (map (qs_source_ref \<circ> snd) (ql_sources L'))"
    and "(j, s) \<in> set (ql_sources L') \<Longrightarrow> (j, s) = (i, src') \<or> j \<noteq> i \<and> (j, s) \<in> set (ql_sources L)"
proof -
  note parts = assms [unfolded source_replaced_def ledger_inv_def maps_wf_def]
  have inv: "ledger_inv L" and found: "find_source L ref = Some (i, src)" using assms by (simp_all add: source_replaced_def)
  show wf: "bt_wf (ql_sources L)" and "ledger_ok L" "bt_wf (ql_events L)" "refs_colon_free L" "events_have_cycle L"
    using parts by simp_all
  show "(i, src) \<in> set (ql_sources L)" "qs_source_ref src = ref"
    using found ledger_inv_refs [OF inv] by (simp_all add: find_source_iff)
  show "find_source L' r = (if r = ref then Some (i, src') else find_source L r)"
    "distinct (map (qs_source_ref \<circ> snd) (ql_sources L'))"
    using find_source_put [OF inv found, of src' L'] parts by auto
  show "(j, s) \<in> set (ql_sources L') \<Longrightarrow> (j, s) = (i, src') \<or> j \<noteq> i \<and> (j, s) \<in> set (ql_sources L)"
    using mem_bt_insert [OF wf, of j s i src'] parts by (auto split: if_splits)
qed

lemma replaced_source:
  assumes "source_replaced L L' ref i src src'" and "source L r = Some s"
  shows "\<exists>s'. source L' r = Some s' \<and> qs_bucket_id s' = qs_bucket_id s"
  using assms source_replacedD(8) [OF assms(1), of r] by (auto simp: source_of_find source_replaced_def split: if_splits)

lemma replaced_sources_ok:
  assumes "source_replaced L L' ref i src src'" and "validate_cycle L' src' = Ok ()"
    and "\<And>j s. (j, s) \<in> set (ql_sources L) \<Longrightarrow> j \<noteq> i \<Longrightarrow> validate_cycle L' s = Ok ()"
  shows "sources_ok L'"
proof -
  have "source_entry_ok j s \<and> validate_cycle L' s = Ok ()" if js: "(j, s) \<in> set (ql_sources L')" for j s
    using source_replacedD(10) [OF assms(1) js]
  proof
    assume "(j, s) = (i, src')"
    with assms(1,2) show ?thesis by (simp add: source_replaced_def)
  next
    assume "j \<noteq> i \<and> (j, s) \<in> set (ql_sources L)"
    with assms(3) source_replacedD(1) [OF assms(1)] show ?thesis by (auto simp: ledger_ok_def sources_ok_def)
  qed
  with source_replacedD(9) [OF assms(1)] show ?thesis by (auto simp: sources_ok_def)
qed

lemma replaced_events_ok:
  assumes "source_replaced L L' ref i src src'"
    and "\<And>k x. (k, x) \<in> set (ql_events L') \<Longrightarrow> (k, x) \<in> set (ql_events L) \<or> ev_source_ref x = ref \<and> valid_event src k x"
  shows "events_ok L'"
proof -
  have "\<exists>s. source L' (ev_source_ref x) = Some s \<and> valid_event s k x" if "(k, x) \<in> set (ql_events L')" for k x
  proof -
    have "\<exists>s. source L (ev_source_ref x) = Some s \<and> valid_event s k x"
      using assms(2) [OF that] source_replacedD(1) [OF assms(1)] assms(1)
      by (auto simp: ledger_ok_def events_ok_def source_of_find source_replaced_def)
    with replaced_source [OF assms(1)] show ?thesis using valid_event_bucket by metis
  qed
  then show ?thesis by (auto simp: events_ok_def)
qed

lemma replaced_operations_ok:
  assumes "source_replaced L L' ref i src src'" and "\<And>x. validate_receipt L x = Ok () \<Longrightarrow> validate_receipt L' x = Ok ()"
  shows "operations_ok L'"
proof -
  have "valid_operation L' k x" if "valid_operation L k x" for k x
    using that replaced_source [OF assms(1), of "rc_source_ref x"] by (auto simp: valid_operation_def)
  with assms source_replacedD(1) [OF assms(1)] show ?thesis
    by (auto simp: ledger_ok_def operations_ok_def source_replaced_def same_rest_def)
qed

lemma replaced_have_cycle:
  assumes "source_replaced L L' ref i src src'"
    and "\<And>k x. (k, x) \<in> set (ql_events L') \<Longrightarrow>
      if ev_source_ref x = ref then qs_cycle src' \<noteq> None else (k, x) \<in> set (ql_events L)"
  shows "events_have_cycle L'"
proof -
  have "qs_cycle s \<noteq> None" if kx: "(k, x) \<in> set (ql_events L')" and s: "source L' (ev_source_ref x) = Some s" for k x s
  proof (cases "ev_source_ref x = ref")
    case True
    with s assms(2) [OF kx] source_replacedD(8) [OF assms(1), of ref] show ?thesis by (auto simp: source_of_find)
  next
    case False
    with s assms(2) [OF kx] source_replacedD(8) [OF assms(1)] source_replacedD(5) [OF assms(1)] show ?thesis
      by (auto simp: source_of_find events_have_cycle_def)
  qed
  then show ?thesis by (auto simp: events_have_cycle_def)
qed

lemma replaced_refs:
  assumes "source_replaced L L' ref i src src'"
  shows "refs_colon_free L'"
  using source_replacedD(4,6,7,10) [OF assms] assms
  by (fastforce simp: refs_colon_free_def mem_bt_values source_replaced_def)

lemma replaced_inv:
  assumes "source_replaced L L' ref i src src'" and "sources_ok L'" and "events_ok L'" and "operations_ok L'"
    and "corrections_ok L'" and "events_have_cycle L'" and "bt_wf (ql_events L')"
  shows "ledger_inv L'"
  using assms(1) replaced_refs [OF assms(1)] assms(2-7)
  by (simp add: source_replaced_def ledger_inv_def ledger_ok_def public_ok_def maps_wf_def same_rest_def)

lemma ledger_inv_update:
  assumes inv: "ledger_inv L" and found: "find_source L ref = Some (i, src)"
    and srcs: "ql_sources L' = bt_insert i src' (ql_sources L)"
    and evs: "ql_events L' = bt_insert (event_key ref eid) e (ql_events L)"
    and rest: "same_rest L L'"
    and src': "qs_source_ref src' = ref" "qs_bucket_id src' = qs_bucket_id src"
      "source_entry_ok i src'"
    and cycle: "qs_cycle src' \<noteq> None" "validate_cycle L' src' = Ok ()"
    and event: "ev_source_ref e = ref" "valid_event src (event_key ref eid) e"
    and old: "\<And>p. bt_get (ql_events L) (event_key ref eid) = Some p \<Longrightarrow>
      ev_basis e = ev_basis p \<and> (ev_status p \<noteq> Historical \<longrightarrow> ev_status e \<noteq> Historical)"
    and corr: "corrections_ok L'"
  shows "ledger_inv L'"
proof -
  have rep: "source_replaced L L' ref i src src'" using assms by (simp add: source_replaced_def)
  note D = source_replacedD [OF rep]
  have mem: "(k, x) \<in> set (ql_events L') \<longleftrightarrow> (if k = event_key ref eid then x = e else (k, x) \<in> set (ql_events L))" for k x
    using mem_bt_insert [OF D(3)] by (auto simp: evs)
  have "validate_cycle L' s = Ok ()" if js: "(j, s) \<in> set (ql_sources L)" "j \<noteq> i" for j s
  proof -
    have ref_cf: "colon_free (qs_source_ref s)" if "(j, s) \<in> set (ql_sources L)" for j s
      using D(4) that by (auto simp: refs_colon_free_def mem_bt_values)
    have "qs_source_ref s \<noteq> ref" using js found find_source_iff [OF ledger_inv_refs [OF inv], of ref j s] by auto
    then have "event_key (qs_source_ref s) x \<noteq> event_key ref eid" for x
      using event_key_inj [OF ref_cf [OF js(1)] ref_cf [OF D(6)]] D(7) by auto
    moreover from D(1) js have "validate_cycle L s = Ok ()" by (auto simp: ledger_ok_def sources_ok_def)
    ultimately show ?thesis using rest by (simp add: evs same_rest_def validate_cycle_cong [of L s])
  qed
  then have "sources_ok L'" using replaced_sources_ok [OF rep cycle(2)] by blast
  moreover have "events_ok L'" using event by (intro replaced_events_ok [OF rep]) (auto simp: mem split: if_splits)
  moreover have "operations_ok L'"
    using old by (intro replaced_operations_ok [OF rep]) (auto simp: validate_receipt_def evs split: option.splits if_splits)
  moreover have "events_have_cycle L'"
    using event cycle(1) by (intro replaced_have_cycle [OF rep]) (auto simp: mem split: if_splits)
  moreover have "bt_wf (ql_events L')" using D(3) by (simp add: evs)
  ultimately show ?thesis using replaced_inv [OF rep] corr by blast
qed

text \<open>Replacing a source without touching the events.\<close>

lemma ledger_inv_put_source:
  assumes inv: "ledger_inv L" and found: "find_source L ref = Some (i, src)"
    and srcs: "ql_sources L' = bt_insert i src' (ql_sources L)"
    and evs: "ql_events L' = ql_events L" "ql_corrections L' = ql_corrections L"
    and rest: "same_rest L L'"
    and src': "qs_source_ref src' = ref" "qs_bucket_id src' = qs_bucket_id src"
      "source_entry_ok i src'" "qs_cycle src' = None \<longrightarrow> qs_cycle src = None"
    and cycle: "validate_cycle L src' = Ok ()"
  shows "ledger_inv L'"
proof -
  have rep: "source_replaced L L' ref i src src'" using assms by (simp add: source_replaced_def)
  note D = source_replacedD [OF rep]
  have cyc': "validate_cycle L' s = validate_cycle L s" for s
    using rest by (cases "qs_cycle s") (simp_all add: validate_cycle_def valid_cycle_def evs same_rest_def)
  have "sources_ok L'" using D(1) cycle by (intro replaced_sources_ok [OF rep]) (auto simp: cyc' ledger_ok_def sources_ok_def)
  moreover have "events_ok L'" by (rule replaced_events_ok [OF rep]) (simp add: evs)
  moreover have "operations_ok L'" by (rule replaced_operations_ok [OF rep]) (simp only: validate_receipt_def evs)
  moreover have "corrections_ok L'"
  proof (rule corrections_ok_mono [of L])
    show "corrections_ok L" using D(1) by (simp add: ledger_ok_def)
  qed (simp_all add: evs)
  moreover have "events_have_cycle L'"
    using D(5) found src'(4) by (intro replaced_have_cycle [OF rep]) (auto simp: evs events_have_cycle_def source_of_find)
  moreover have "bt_wf (ql_events L')" using D(3) by (simp add: evs)
  ultimately show ?thesis using replaced_inv [OF rep] by blast
qed

subsection \<open>Applying a reset keeps the invariant\<close>

lemma found_source:
  assumes "ledger_inv L" and "find_source L ref = Some (i, src)"
  shows "(i, src) \<in> set (ql_sources L)" "qs_source_ref src = ref" "source_entry_ok i src"
    "validate_cycle L src = Ok ()" "bt_get (ql_sources L) i = Some src" "colon_free ref"
    "bt_insert i src (ql_sources L) = ql_sources L"
proof -
  show mem: "(i, src) \<in> set (ql_sources L)" "qs_source_ref src = ref"
    using assms ledger_inv_refs by (simp_all add: find_source_iff)
  with assms(1) show "source_entry_ok i src" "validate_cycle L src = Ok ()"
    by (auto simp: ledger_inv_def ledger_ok_def sources_ok_def)
  from mem assms(1) show get: "bt_get (ql_sources L) i = Some src"
    by (simp add: ledger_inv_def maps_wf_def bt_get_iff_mem)
  from mem assms(1) show "colon_free ref"
    by (auto simp: ledger_inv_def refs_colon_free_def mem_bt_values)
  from get assms(1) show "bt_insert i src (ql_sources L) = ql_sources L"
    by (simp add: ledger_inv_def maps_wf_def bt_insert_same)
qed

lemma validate_cycle_Some:
  "validate_cycle L src = Ok () \<Longrightarrow> qs_cycle src = Some c \<Longrightarrow>
   valid_cycle L src c \<and> (\<exists>e. bt_get (ql_events L) (event_key (qs_source_ref src) (cy_event_id c)) = Some e \<and>
     ev_cycle_id e = cy_cycle_id c \<and> ev_effective_at_ms e = cy_starts_at_ms c \<and>
     ev_status e \<noteq> Historical)"
  by (auto simp: validate_cycle_def split: option.splits if_splits)

lemma get_event:
  assumes "ledger_inv L" and "bt_get (ql_events L) (event_key ref eid) = Some e" and "colon_free ref"
  shows "ev_source_ref e = ref" "ev_event_id e = eid"
    "\<exists>s. source L ref = Some s \<and> qs_cycle s \<noteq> None \<and> valid_event s (event_key ref eid) e"
proof -
  from assms(1,2) have mem: "(event_key ref eid, e) \<in> set (ql_events L)"
    by (simp add: ledger_inv_def maps_wf_def bt_get_iff_mem)
  with assms(1) obtain s where s: "source L (ev_source_ref e) = Some s"
    and v: "valid_event s (event_key ref eid) e"
    by (auto simp: ledger_inv_def ledger_ok_def events_ok_def)
  from s obtain j where "find_source L (ev_source_ref e) = Some (j, s)"
    by (auto simp: source_of_find)
  then have "colon_free (ev_source_ref e)" using found_source [OF assms(1)] by blast
  with v assms(3) have "ref = ev_source_ref e \<and> eid = ev_event_id e"
    by (intro event_key_inj) (auto simp: valid_event_def)
  then show "ev_source_ref e = ref" "ev_event_id e = eid" by simp_all
  with s v mem assms(1)
  show "\<exists>s. source L ref = Some s \<and> qs_cycle s \<noteq> None \<and> valid_event s (event_key ref eid) e"
    by (auto simp: ledger_inv_def events_have_cycle_def)
qed

lemma no_event_before_first_cycle:
  assumes "ledger_inv L" and "find_source L ref = Some (i, src)" and "qs_cycle src = None"
  shows "bt_get (ql_events L) (event_key ref eid) = None"
proof (rule ccontr)
  assume "bt_get (ql_events L) (event_key ref eid) \<noteq> None"
  then obtain e where "bt_get (ql_events L) (event_key ref eid) = Some e" by auto
  from get_event(3) [OF assms(1) this] found_source(6) [OF assms(1,2)] assms(2,3)
  show False by (auto simp: source_of_find)
qed

lemma saturating_succ_pos: "saturating_add_u64 n 1 \<noteq> 0"
  by (simp add: saturating_add_u64_def u64_max_def)

text \<open>The outcomes of a reset, each as an instance of \<open>ledger_inv_update\<close>.\<close>

lemmas ledger_updates = bump_revision_def put_event_def put_source_def same_rest_def

lemma ledger_inv_fresh_event_put:
  assumes inv: "ledger_inv L" and found: "find_source L ref = Some (i, src)"
    and fresh: "bt_get (ql_events L) (event_key ref eid) = None"
    and L': "L' = bump_revision (put_event (event_key ref eid) e (put_source i src' L))"
    and src': "qs_source_ref src' = ref" "qs_bucket_id src' = qs_bucket_id src"
      "source_entry_ok i src'" "qs_cycle src' = Some c"
    and vc: "valid_cycle L src' c"
    and own: "cy_event_id c = eid \<and> ev_cycle_id e = cy_cycle_id c \<and>
        ev_effective_at_ms e = cy_starts_at_ms c \<and> ev_status e \<noteq> Historical \<or>
      qs_cycle src = Some c"
    and ve: "ev_source_ref e = ref" "valid_event src (event_key ref eid) e"
  shows "ledger_inv L'"
proof -
  note fs = found_source [OF inv found]
  have "validate_cycle L' src' = Ok ()"
  proof (cases "qs_cycle src = Some c")
    case True
    with validate_cycle_Some [OF fs(4) this] fresh fs(2) vc src' show ?thesis
      by (auto simp: validate_cycle_def valid_cycle_def L' ledger_updates)
  next
    case False
    with own vc fs(2) src' show ?thesis
      by (auto simp: validate_cycle_def valid_cycle_def L' ledger_updates)
  qed
  moreover have "corrections_ok L'"
  proof (rule corrections_ok_mono [of L])
    show "corrections_ok L" using inv by (simp add: ledger_inv_def ledger_ok_def)
  qed (use fresh in \<open>auto simp: L' ledger_updates\<close>)
  moreover have "same_rest L L'" by (simp add: L' ledger_updates)
  ultimately show ?thesis
    using fs ve fresh src'
    by (intro ledger_inv_update [OF inv found, where src' = src' and eid = eid and e = e])
      (auto simp: L' ledger_updates)
qed

lemma ledger_inv_fresh_event:
  assumes inv: "ledger_inv L" and found: "find_source L ref = Some (i, src)"
    and fresh: "bt_get (ql_events L) (event_key ref eid) = None"
    and L': "L' = bump_revision (put_event (event_key ref eid) e
        (put_source i (src\<lparr>qs_cycle := Some c\<rparr>) L))"
    and vc: "valid_cycle L (src\<lparr>qs_cycle := Some c\<rparr>) c"
    and own: "cy_event_id c = eid \<and> ev_cycle_id e = cy_cycle_id c \<and>
        ev_effective_at_ms e = cy_starts_at_ms c \<and> ev_status e \<noteq> Historical \<or>
      qs_cycle src = Some c"
    and ve: "ev_source_ref e = ref" "valid_event src (event_key ref eid) e"
  shows "ledger_inv L'"
  using found_source [OF inv found]
  by (intro ledger_inv_fresh_event_put [OF inv found fresh L' _ _ _ _ vc own ve])
    (simp_all add: source_entry_ok_def)

lemma open_first_cycle_inv:
  assumes inv: "ledger_inv L" and found: "find_source L ref = Some (i, src)"
    and none: "qs_cycle src = None" and id: "shd r \<noteq> []"
    and guard: "eid \<noteq> []" "length eid \<le> 256" "0 \<le> eff" "eff \<le> disc"
    and res: "open_first_cycle L r i src ref eid eff disc basis = (L', r', res)"
  shows "ledger_inv L'"
proof -
  note fs = found_source [OF inv found]
  note fresh = no_event_before_first_cycle [OF inv found none]
  show ?thesis
    using res fs(2) id guard unfolding open_first_cycle_def Let_def
    by (auto intro!: ledger_inv_fresh_event [OF inv found fresh]
        simp: valid_cycle_def valid_event_def split: option.splits if_splits)
qed

lemma new_reset_inv:
  assumes inv: "ledger_inv L" and found: "find_source L ref = Some (i, src)"
    and cyc: "qs_cycle src = Some c" and id: "shd r \<noteq> []"
    and fresh: "bt_get (ql_events L) (event_key ref eid) = None"
    and guard: "eid \<noteq> []" "length eid \<le> 256" "0 \<le> eff" "eff \<le> disc"
    and res: "new_reset L r i src c ref eid eff disc basis = (L', r', Ok b)"
  shows "ledger_inv L'"
proof -
  note fs = found_source [OF inv found]
  from validate_cycle_Some [OF fs(4) cyc] have vc: "valid_cycle L src c" by simp
  have src: "src\<lparr>qs_cycle := Some c\<rparr> = src" using cyc by (cases src) simp
  show ?thesis
  proof (cases "eff > cy_starts_at_ms c")
    case True
    with res vc id guard show ?thesis
      by (auto simp: new_reset_def Let_def advance_cycle_def valid_cycle_def valid_event_def
          intro!: ledger_inv_fresh_event [OF inv found fresh] split: option.splits if_splits)
  next
    case False
    have "put_source i (src\<lparr>qs_cycle := Some c\<rparr>) L = L"
      using fs(7) src by (simp add: put_source_def)
    with False res vc guard cyc src show ?thesis
      by (intro ledger_inv_fresh_event [OF inv found fresh, where c = c and e =
         "\<lparr>ev_event_id = eid, ev_source_ref = ref, ev_bucket_id = qs_bucket_id src,
           ev_effective_at_ms = eff, ev_discovered_at_ms = disc, ev_basis = basis,
           ev_status = (if eff < cy_starts_at_ms c then Historical else Committed),
           ev_cycle_id = (if eff < cy_starts_at_ms c then [] else cy_cycle_id c)\<rparr>"])
        (auto simp: new_reset_def Let_def valid_event_def valid_cycle_def)
  qed
qed

text \<open>A corrected event keeps its basis, its cycle and that it is not history.\<close>

text \<open>What a correction writes: the cycle, the event and the record of the correction.\<close>

definition corrected_cycle :: "bool \<Rightarrow> int \<Rightarrow> int \<Rightarrow> QuotaTimeBasis \<Rightarrow> AccountQuotaCycle \<Rightarrow> AccountQuotaCycle" where
  "corrected_cycle applied eff disc basis c = (if applied then c\<lparr>cy_starts_at_ms := eff, cy_basis := basis,
     cy_observed_at_ms := max (cy_observed_at_ms c) disc,
     cy_cycle_revision := saturating_add_u64 (cy_cycle_revision c) 1\<rparr> else c)"

definition corrected_event :: "bool \<Rightarrow> int \<Rightarrow> int \<Rightarrow> QuotaResetEvent \<Rightarrow> QuotaResetEvent" where
  "corrected_event applied eff disc p = (if applied then p\<lparr>ev_effective_at_ms := eff, ev_discovered_at_ms := disc\<rparr>
     else p\<lparr>ev_status := NeedsReconcile\<rparr>)"

definition correction_of :: "string \<Rightarrow> QuotaResetEvent \<Rightarrow> int \<Rightarrow> bool \<Rightarrow> int \<Rightarrow> QuotaResetCorrection" where
  "correction_of key p eff applied disc = \<lparr>co_event_key = key, co_previous_effective_at_ms = ev_effective_at_ms p,
     co_effective_at_ms = eff, co_discovered_at_ms = disc, co_applied = applied\<rparr>"

lemma correct_reset_cases:
  assumes "ledger_inv L" and "find_source L ref = Some (i, src)" and "qs_cycle src = Some c"
    and "correct_reset L r i src c ref p eid eff disc basis = (L', r', res)"
    and "applied = correction_applies L ref c p eid eff"
  obtains (same) "L' = L" "r' = r" "res = Ok False"
      "ev_effective_at_ms p = eff \<or>
        (\<exists>q \<in> set (ql_corrections L). same_correction q (correction_of (event_key ref eid) p eff applied disc))"
  | (moved) "r' = r" "ev_effective_at_ms p \<noteq> eff"
      "\<not> (\<exists>q \<in> set (ql_corrections L). same_correction q (correction_of (event_key ref eid) p eff applied disc))"
      "ql_sources L' = bt_insert i (src\<lparr>qs_cycle := Some (corrected_cycle applied eff disc basis c)\<rparr>) (ql_sources L)"
      "ql_events L' = bt_insert (event_key ref eid) (corrected_event applied eff disc p) (ql_events L)"
      "ql_corrections L' = ql_corrections L @ [correction_of (event_key ref eid) p eff applied disc]" "same_rest L L'"
proof (cases "ev_effective_at_ms p = eff \<or>
    (\<exists>q \<in> set (ql_corrections L). same_correction q (correction_of (event_key ref eid) p eff applied disc))")
  case True
  with assms(4,5) show ?thesis
    by (intro same) (auto simp: correct_reset_def Let_def correction_of_def split: if_splits)
next
  case False
  have src: "src\<lparr>qs_cycle := Some c\<rparr> = src" using assms(3) by (cases src) simp
  from False have "r' = r \<and> L' = bump_revision (put_event (event_key ref eid) (corrected_event applied eff disc p)
      (put_source i (src\<lparr>qs_cycle := Some (corrected_cycle applied eff disc basis c)\<rparr>)
        (L\<lparr>ql_corrections := ql_corrections L @ [correction_of (event_key ref eid) p eff applied disc]\<rparr>)))"
    using assms(4) found_source(7) [OF assms(1,2)] src
    by (cases applied; simp add: correct_reset_def Let_def assms(5) [symmetric] correction_of_def corrected_cycle_def
        corrected_event_def put_source_def)
  with False show ?thesis by (intro moved) (simp_all add: ledger_updates)
qed

lemma correct_reset_inv:
  assumes inv: "ledger_inv L" and found: "find_source L ref = Some (i, src)"
    and cyc: "qs_cycle src = Some c"
    and known: "bt_get (ql_events L) (event_key ref eid) = Some p"
    and guard: "eid \<noteq> []" "length eid \<le> 256" "0 \<le> eff" "eff \<le> disc"
    and res: "correct_reset L r i src c ref p eid eff disc basis = (L', r', res)"
  shows "ledger_inv L'"
  using inv found cyc res refl
proof (cases rule: correct_reset_cases)
  case same
  with inv show ?thesis by simp
next
  case moved
  let ?a = "correction_applies L ref c p eid eff"
  let ?c = "corrected_cycle ?a eff disc basis c" and ?e = "corrected_event ?a eff disc p"
  note fs = found_source [OF inv found] and L' = moved(4-7)
  note ge = get_event [OF inv known fs(6)]
  from validate_cycle_Some [OF fs(4) cyc] obtain own where vc: "valid_cycle L src c"
    and own: "bt_get (ql_events L) (event_key ref (cy_event_id c)) = Some own" "ev_cycle_id own = cy_cycle_id c"
      "ev_effective_at_ms own = cy_starts_at_ms c" "ev_status own \<noteq> Historical"
    using fs(2) by auto
  from ge(3) found have ve: "valid_event src (event_key ref eid) p" by (auto simp: source_of_find)
  have corr: "corrections_ok L" using inv by (simp add: ledger_inv_def ledger_ok_def)
  have nonneg: "0 \<le> ev_effective_at_ms p" using ve by (simp add: valid_event_def)
  have "valid_cycle L (src\<lparr>qs_cycle := Some ?c\<rparr>) ?c"
    using vc guard saturating_succ_pos
    by (auto simp: valid_cycle_def corrected_cycle_def correction_applies_def split: option.splits if_splits)
  moreover have "valid_event src (event_key ref eid) ?e" using ve guard by (auto simp: valid_event_def corrected_event_def)
  moreover have "corrections_ok L'"
    using moved(2,3) guard nonneg
    by (intro corrections_ok_snoc [OF corr L'(3), of ?e p])
      (simp_all add: L'(2) known correction_of_def corrected_event_def)
  moreover have "validate_cycle L' (src\<lparr>qs_cycle := Some ?c\<rparr>) = Ok ()"
  proof (cases "cy_event_id c = eid")
    case True
    with own known have "own = p" by simp
    with True own calculation(1) L' fs(2) show ?thesis
      by (auto simp: validate_cycle_def valid_cycle_def same_rest_def corrected_cycle_def corrected_event_def)
  next
    case False
    then have "\<not> ?a" by (simp add: correction_applies_def)
    with False own calculation(1) L' fs(2) show ?thesis
      by (auto simp: validate_cycle_def valid_cycle_def same_rest_def corrected_cycle_def)
  qed
  ultimately show ?thesis
    using fs ge L' known
    by (intro ledger_inv_update [OF inv found L'(1,2,4)]) (auto simp: source_entry_ok_def corrected_event_def)
qed

lemma apply_reset_inv:
  assumes inv: "ledger_inv L" and id: "shd r \<noteq> []"
    and res: "apply_reset L r ref fence eid eff disc basis = (L', r', Ok b)"
  shows "ledger_inv L'"
proof -
  from res have guard: "eid \<noteq> []" "length eid \<le> 256" "0 \<le> eff" "eff \<le> disc"
    by (auto simp: apply_reset_def split: if_splits)
  with res obtain i src where found: "find_source L ref = Some (i, src)"
    by (auto simp: apply_reset_def split: if_splits option.splits)
  show ?thesis
  proof (cases "qs_cycle src")
    case None
    with res found guard show ?thesis
      by (auto simp: apply_reset_def split: if_splits
          intro: open_first_cycle_inv [OF inv found None id guard])
  next
    case (Some c)
    with res found guard show ?thesis
      by (auto simp: apply_reset_def split: if_splits option.splits
          intro: new_reset_inv [OF inv found Some id _ guard]
            correct_reset_inv [OF inv found Some _ guard])
  qed
qed

end
