(* ===== verification/Quota_Cycle_Run.thy ===== *)
theory Quota_Cycle_Run
  imports Quota_Cycle_Inv
begin

section \<open>Account quota cycles: runs\<close>

text \<open>
  The invariant of the ledger together with the random source. Beside validity it says that
  identifiers are never drawn twice, that the events the server names itself
  (\<open>natural:<end>\<close> and \<open>upstream:<start>\<close>) took effect at the instant in their name, that
  a natural boundary on record is before the end of the current cycle, and that an upstream
  start on record is before the current cycle unless it opened it. From it follow that \<open>observe\<close>, which
  calls itself, returns, and that every committed operation leads to a valid ledger.
\<close>

subsection \<open>The invariant\<close>

definition timed_id :: "string \<Rightarrow> int \<Rightarrow> bool" where
  "timed_id eid b \<longleftrightarrow> eid = natural_event_id b \<or> eid = upstream_event_id b"

definition opened_or_before :: "AccountQuotaCycle \<Rightarrow> QuotaResetEvent \<Rightarrow> bool" where
  "opened_or_before c x \<longleftrightarrow> cy_event_id c = ev_event_id x \<or>
     ev_cycle_id x \<noteq> cy_cycle_id c \<and> ev_effective_at_ms x < cy_starts_at_ms c"

definition placed :: "AccountQuotaCycle \<Rightarrow> QuotaResetEvent \<Rightarrow> bool" where
  "placed c x \<longleftrightarrow>
     (\<forall>b. ev_event_id x = natural_event_id b \<longrightarrow>
        b \<le> cy_observed_at_ms c \<and> (\<forall>e. cy_ends_at_ms c = Some e \<longrightarrow> b < e)) \<and>
     (\<forall>t. ev_event_id x = upstream_event_id t \<longrightarrow>
        ev_status x = Committed \<and> opened_or_before c x)"

definition timed_event_ok :: "QuotaCycleLedger \<Rightarrow> QuotaResetEvent \<Rightarrow> bool" where
  "timed_event_ok L x \<longleftrightarrow>
     (\<forall>b. timed_id (ev_event_id x) b \<longrightarrow> ev_effective_at_ms x = b) \<and>
     (\<forall>s c. source L (ev_source_ref x) = Some s \<longrightarrow> qs_cycle s = Some c \<longrightarrow> placed c x)"

definition timed_ok :: "QuotaCycleLedger \<Rightarrow> bool" where
  "timed_ok L \<longleftrightarrow> (\<forall>x \<in> set (bt_values (ql_events L)). timed_event_ok L x)"

definition used_ids :: "QuotaCycleLedger \<Rightarrow> string set" where
  "used_ids L = ev_cycle_id ` set (bt_values (ql_events L)) \<union>
     qs_source_ref ` set (bt_values (ql_sources L))"

text \<open>\<open>opaque_id()\<close>: hexadecimal, not empty and never repeated.\<close>

definition fresh_rng :: "QuotaCycleLedger \<Rightarrow> rng \<Rightarrow> bool" where
  "fresh_rng L r \<longleftrightarrow> inj (snth r) \<and>
     (\<forall>x \<in> sset r. x \<noteq> [] \<and> colon_free x \<and> x \<notin> used_ids L)"

definition state_inv :: "QuotaCycleLedger \<times> rng \<Rightarrow> bool" where
  "state_inv S \<longleftrightarrow> ledger_inv (fst S) \<and> timed_ok (fst S) \<and> fresh_rng (fst S) (snd S)"

lemma timed_id_inj: "timed_id eid b \<Longrightarrow> timed_id eid b' \<Longrightarrow> b = b'"
  by (auto simp: timed_id_def natural_event_id_def upstream_event_id_def show_int_inj)

lemma fresh_rng_shd:
  "fresh_rng L r \<Longrightarrow> shd r \<noteq> [] \<and> colon_free (shd r) \<and> shd r \<notin> used_ids L"
  by (auto simp: fresh_rng_def shd_sset)

lemma fresh_rng_stl:
  assumes "fresh_rng L r" and "used_ids L' \<subseteq> insert (shd r) (used_ids L)"
  shows "fresh_rng L' (stl r)"
proof -
  have inj: "inj (snth r)" using assms(1) by (simp add: fresh_rng_def)
  have "shd r \<notin> sset (stl r)"
  proof
    assume "shd r \<in> sset (stl r)"
    then obtain n where "snth (stl r) n = shd r" by (auto simp: sset_range)
    with injD [OF inj, of "Suc n" 0] show False by simp
  qed
  moreover have "inj (snth (stl r))"
    using inj by (auto simp: inj_def) (metis Suc_inject snth.simps(2))
  ultimately show ?thesis
    using assms stl_sset [of _ r] by (auto simp: fresh_rng_def)
qed

lemma fresh_rng_mono: "fresh_rng L r \<Longrightarrow> used_ids L' \<subseteq> used_ids L \<Longrightarrow> fresh_rng L' r"
  by (auto simp: fresh_rng_def)

lemma used_ids_put:
  assumes "ledger_inv L" and "find_source L ref = Some (i, src)"
    and "ql_sources L' = bt_insert i src' (ql_sources L)" and "qs_source_ref src' = ref"
    and "ql_events L' = bt_insert k e (ql_events L)"
  shows "used_ids L' \<subseteq> insert (ev_cycle_id e) (used_ids L)"
proof -
  have "src \<in> set (bt_values (ql_sources L))" and "qs_source_ref src' = qs_source_ref src"
    using found_source(1,2) [OF assms(1,2)] assms(4) by (auto simp: mem_bt_values)
  moreover have "set (bt_values (ql_sources L')) \<subseteq> insert src' (set (bt_values (ql_sources L)))"
    "set (bt_values (ql_events L')) \<subseteq> insert e (set (bt_values (ql_events L)))"
    unfolding assms(3,5) by (rule bt_values_insert_subset)+
  ultimately show ?thesis unfolding used_ids_def by force
qed

text \<open>Replacing a source and an event of it.\<close>

lemma timed_ok_update:
  assumes inv: "ledger_inv L" and timed: "timed_ok L" and found: "find_source L ref = Some (i, src)"
    and srcs: "ql_sources L' = bt_insert i src' (ql_sources L)" "qs_source_ref src' = ref"
    and evs: "ql_events L' = bt_insert (event_key ref eid) e (ql_events L)"
    and e: "ev_source_ref e = ref" "ev_event_id e = eid" "qs_cycle src' = Some c'"
    and new: "\<And>b. timed_id eid b \<Longrightarrow> ev_effective_at_ms e = b" "placed c' e"
    and others: "\<And>x c b. x \<in> set (bt_values (ql_events L)) \<Longrightarrow> ev_source_ref x = ref \<Longrightarrow>
      ev_event_id x \<noteq> eid \<Longrightarrow> qs_cycle src = Some c \<Longrightarrow> placed c x \<Longrightarrow> placed c' x"
  shows "timed_ok L'"
proof -
  have wf: "bt_wf (ql_events L)" using inv by (simp add: ledger_inv_def maps_wf_def)
  note find' = find_source_put [OF inv found srcs(2,1)]
  have "timed_event_ok L' x" if kx: "(k, x) \<in> set (ql_events L')" for k x
  proof (cases "k = event_key ref eid")
    case True
    with kx wf have "x = e" by (auto simp: evs mem_bt_insert)
    with e new find'(1) [of ref] show ?thesis by (auto simp: timed_event_ok_def source_of_find)
  next
    case False
    with kx wf have old: "(k, x) \<in> set (ql_events L)" by (auto simp: evs mem_bt_insert)
    then have xv: "x \<in> set (bt_values (ql_events L))" by (auto simp: mem_bt_values)
    from timed xv have ok: "timed_event_ok L x" by (simp add: timed_ok_def)
    from old inv obtain s where s: "source L (ev_source_ref x) = Some s"
      and v: "valid_event s k x" and cyc: "qs_cycle s \<noteq> None"
      by (fastforce simp: ledger_inv_def ledger_ok_def events_ok_def events_have_cycle_def)
    show ?thesis
    proof (cases "ev_source_ref x = ref")
      case True
      with s found have "s = src" by (simp add: source_of_find)
      moreover from True v False have "ev_event_id x \<noteq> eid" by (auto simp: valid_event_def)
      ultimately show ?thesis
        using ok True others [OF xv True] cyc s find'(1) [of ref] e(3)
        by (auto simp: timed_event_ok_def source_of_find)
    next
      case False
      with ok find'(1) show ?thesis by (simp add: timed_event_ok_def source_of_find)
    qed
  qed
  then show ?thesis by (auto simp: timed_ok_def mem_bt_values)
qed

subsection \<open>Resets keep it\<close>

text \<open>
  An event with a name of the server's own carries its time, and an upstream start that is
  not known yet lies after the start of the current cycle.
\<close>

definition id_ok :: "QuotaCycleLedger \<Rightarrow> string \<Rightarrow> string \<Rightarrow> int \<Rightarrow> bool" where
  "id_ok L ref eid eff \<longleftrightarrow> (\<forall>b. timed_id eid b \<longrightarrow> eff = b) \<and>
     (\<forall>t s c. eid = upstream_event_id t \<longrightarrow> bt_get (ql_events L) (event_key ref eid) = None \<longrightarrow>
       source L ref = Some s \<longrightarrow> qs_cycle s = Some c \<longrightarrow> cy_starts_at_ms c < t)"

text \<open>The clock does not run backwards: nothing is discovered before the last report.\<close>

definition clock_ok :: "QuotaCycleLedger \<Rightarrow> string \<Rightarrow> int \<Rightarrow> bool" where
  "clock_ok L ref now \<longleftrightarrow> (\<forall>s c. source L ref = Some s \<longrightarrow> qs_cycle s = Some c \<longrightarrow>
     cy_observed_at_ms c \<le> now)"

lemma untimed_placed: "(\<And>b. \<not> timed_id (ev_event_id x) b) \<Longrightarrow> placed c x"
  by (auto simp: placed_def timed_id_def)

lemma natural_not_upstream [simp]:
  "natural_event_id b \<noteq> upstream_event_id t" "upstream_event_id t \<noteq> natural_event_id b"
  by (simp_all add: natural_event_id_def upstream_event_id_def)

lemma timed_ids_inj [simp]:
  "natural_event_id b = natural_event_id b' \<longleftrightarrow> b = b'"
  "upstream_event_id b = upstream_event_id b' \<longleftrightarrow> b = b'"
  by (simp_all add: natural_event_id_def upstream_event_id_def)

lemma natural_id_ok [simp]: "id_ok L ref (natural_event_id b) b"
  by (auto simp: id_ok_def timed_id_def)

definition external_id :: "string \<Rightarrow> bool" where
  "external_id eid \<longleftrightarrow> \<not> starts_with ''natural:'' eid \<and> \<not> starts_with ''upstream:'' eid"

lemma external_not_timed: "external_id eid \<Longrightarrow> \<not> timed_id eid b"
  by (auto simp: external_id_def timed_id_def natural_event_id_def upstream_event_id_def
      starts_with_def)

lemma external_id_ok: "external_id eid \<Longrightarrow> id_ok L ref eid eff"
  using external_not_timed by (auto simp: id_ok_def timed_id_def)

lemma event_of_source:
  assumes "ledger_inv L" and "x \<in> set (bt_values (ql_events L))" and "ev_source_ref x = ref"
  shows "bt_get (ql_events L) (event_key ref (ev_event_id x)) = Some x"
  using assms
  by (fastforce simp: ledger_inv_def ledger_ok_def events_ok_def maps_wf_def valid_event_def
      mem_bt_values bt_get_iff_mem)

lemma open_first_cycle_state:
  assumes inv: "state_inv (L, r)" and found: "find_source L ref = Some (i, src)"
    and none: "qs_cycle src = None" and id: "id_ok L ref eid eff"
    and guard: "eid \<noteq> []" "length eid \<le> 256" "0 \<le> eff" "eff \<le> disc"
    and res: "open_first_cycle L r i src ref eid eff disc basis = (L', r', res)"
  shows "state_inv (L', r')"
proof -
  have li: "ledger_inv L" "timed_ok L" and fr: "fresh_rng L r" using inv by (simp_all add: state_inv_def)
  note fs = found_source [OF li(1) found]
  define c where "c = \<lparr>cy_stream_incarnation = ql_stream_incarnation L, cy_source_ref = ref,
    cy_source_epoch = qs_source_epoch src, cy_bucket_id = qs_bucket_id src, cy_cycle_id = shd r,
    cy_cycle_sequence = 1, cy_cycle_revision = 1, cy_starts_at_ms = eff,
    cy_ends_at_ms = (case qs_next_boundary_ms src of
        None \<Rightarrow> None | Some e \<Rightarrow> if e > eff then Some e else None),
    cy_basis = basis, cy_observed_at_ms = disc, cy_event_id = eid\<rparr>"
  define e where "e = \<lparr>ev_event_id = eid, ev_source_ref = ref, ev_bucket_id = qs_bucket_id src,
    ev_effective_at_ms = eff, ev_discovered_at_ms = disc, ev_basis = basis,
    ev_status = Committed, ev_cycle_id = shd r\<rparr>"
  have L': "ql_sources L' = bt_insert i (src\<lparr>qs_cycle := Some c\<rparr>) (ql_sources L)"
    "ql_events L' = bt_insert (event_key ref eid) e (ql_events L)" "r' = stl r"
    using res by (auto simp: open_first_cycle_def c_def e_def ledger_updates Let_def)
  have "ledger_inv L'"
    using open_first_cycle_inv [OF li(1) found none _ guard res] fresh_rng_shd [OF fr] by simp
  moreover have "timed_ok L'"
    using id fs(2) none guard(4)
    by (intro timed_ok_update [OF li found L'(1) _ L'(2), where c' = c])
      (auto simp: id_ok_def e_def c_def opened_or_before_def placed_def timed_id_def
        split: option.splits if_splits)
  moreover have "fresh_rng L' r'"
    unfolding L'(3) using used_ids_put [OF li(1) found L'(1) _ L'(2)] fs(2)
    by (intro fresh_rng_stl [OF fr]) (simp add: e_def)
  ultimately show ?thesis by (simp add: state_inv_def)
qed

text \<open>What a new reset writes: the cycle it leaves current and the event.\<close>

definition reset_cycle :: "string \<Rightarrow> string \<Rightarrow> int \<Rightarrow> int \<Rightarrow> QuotaTimeBasis \<Rightarrow> AccountQuotaCycle \<Rightarrow> AccountQuotaCycle" where
  "reset_cycle cycle_id eid eff disc basis c = (if eff > cy_starts_at_ms c
     then advance_cycle c cycle_id (cy_cycle_sequence c + 1) eid eff disc basis else c)"

definition reset_event ::
  "QuotaCycleSource \<Rightarrow> string \<Rightarrow> string \<Rightarrow> int \<Rightarrow> int \<Rightarrow> QuotaTimeBasis \<Rightarrow> AccountQuotaCycle \<Rightarrow> string \<Rightarrow> QuotaResetEvent" where
  "reset_event src ref eid eff disc basis c cycle_id =
     \<lparr>ev_event_id = eid, ev_source_ref = ref, ev_bucket_id = qs_bucket_id src, ev_effective_at_ms = eff,
      ev_discovered_at_ms = disc, ev_basis = basis,
      ev_status = (if eff < cy_starts_at_ms c then Historical else Committed),
      ev_cycle_id = (if eff < cy_starts_at_ms c then [] else cycle_id)\<rparr>"

lemma new_reset_written:
  assumes "ledger_inv L" and "find_source L ref = Some (i, src)" and "qs_cycle src = Some c"
    and "new_reset L r i src c ref eid eff disc basis = (L', r', Ok b)" and "c' = reset_cycle (shd r) eid eff disc basis c"
  shows "ql_sources L' = bt_insert i (src\<lparr>qs_cycle := Some c'\<rparr>) (ql_sources L)"
    "ql_events L' = bt_insert (event_key ref eid) (reset_event src ref eid eff disc basis c (cy_cycle_id c')) (ql_events L)"
    "r' = (if eff > cy_starts_at_ms c then stl r else r)"
proof -
  have src: "src\<lparr>qs_cycle := Some c\<rparr> = src" using assms(3) by (cases src) simp
  show "ql_sources L' = bt_insert i (src\<lparr>qs_cycle := Some c'\<rparr>) (ql_sources L)"
    "ql_events L' = bt_insert (event_key ref eid) (reset_event src ref eid eff disc basis c (cy_cycle_id c')) (ql_events L)"
    "r' = (if eff > cy_starts_at_ms c then stl r else r)"
    using assms(4) found_source(7) [OF assms(1,2)] src
    by (auto simp: new_reset_def assms(5) reset_cycle_def reset_event_def ledger_updates Let_def advance_cycle_def
        split: option.splits if_splits)
qed

lemma reset_before:
  assumes "x \<in> set (bt_values (ql_events L))" and "opened_or_before c x" and "cycle_id \<notin> used_ids L"
    and "cy_event_id c = ev_event_id x \<Longrightarrow> ev_effective_at_ms x \<le> cy_starts_at_ms c"
  shows "opened_or_before (reset_cycle cycle_id eid eff disc basis c) x"
proof -
  have "ev_cycle_id x \<noteq> cycle_id" using assms(1,3) by (metis UnI1 image_eqI used_ids_def)
  with assms(2,4) show ?thesis by (auto simp: opened_or_before_def reset_cycle_def advance_cycle_def)
qed

lemma reset_fresh:
  assumes fr: "fresh_rng L r" and "cy_cycle_id c \<in> used_ids L"
    and used: "used_ids L' \<subseteq> insert (ev_cycle_id (reset_event src ref eid eff disc basis c
      (cy_cycle_id (reset_cycle (shd r) eid eff disc basis c)))) (used_ids L)"
  shows "fresh_rng L' (if eff > cy_starts_at_ms c then stl r else r)"
proof (cases "eff > cy_starts_at_ms c")
  case True
  with used show ?thesis
    by (auto simp: reset_event_def reset_cycle_def advance_cycle_def intro: fresh_rng_stl [OF fr])
next
  case False
  with used assms(2) have "used_ids L' \<subseteq> insert [] (used_ids L)"
    by (auto simp: reset_event_def reset_cycle_def split: if_splits)
  moreover have "[] \<notin> sset r" using fr by (auto simp: fresh_rng_def)
  ultimately show ?thesis using False fr by (fastforce simp: fresh_rng_def)
qed

lemma new_reset_state:
  assumes inv: "state_inv (L, r)" and found: "find_source L ref = Some (i, src)"
    and cyc: "qs_cycle src = Some c" and id: "id_ok L ref eid eff"
    and clock: "cy_observed_at_ms c \<le> disc"
    and fresh: "bt_get (ql_events L) (event_key ref eid) = None"
    and guard: "eid \<noteq> []" "length eid \<le> 256" "0 \<le> eff" "eff \<le> disc"
    and res: "new_reset L r i src c ref eid eff disc basis = (L', r', Ok b)"
  shows "state_inv (L', r')"
proof -
  have li: "ledger_inv L" "timed_ok L" and fr: "fresh_rng L r" using inv by (simp_all add: state_inv_def)
  note fs = found_source [OF li(1) found] and new = fresh_rng_shd [OF fr]
  from validate_cycle_Some [OF fs(4) cyc] obtain own
    where own: "bt_get (ql_events L) (event_key ref (cy_event_id c)) = Some own" "ev_cycle_id own = cy_cycle_id c"
      "ev_effective_at_ms own = cy_starts_at_ms c" and vc: "valid_cycle L src c" using fs(2) by auto
  let ?c = "reset_cycle (shd r) eid eff disc basis c"
  let ?e = "reset_event src ref eid eff disc basis c (cy_cycle_id ?c)"
  note L' = new_reset_written [OF li(1) found cyc res refl]
  have own_e: "placed ?c ?e"
    using id fresh found cyc vc guard(4)
    by (cases "eff > cy_starts_at_ms c") (auto simp: placed_def id_ok_def source_of_find timed_id_def reset_cycle_def
        reset_event_def advance_cycle_def opened_or_before_def valid_cycle_def split: option.splits if_splits)
  have "cy_observed_at_ms c \<le> cy_observed_at_ms ?c" "cy_ends_at_ms ?c = None \<or> cy_ends_at_ms ?c = cy_ends_at_ms c"
    using clock by (auto simp: reset_cycle_def advance_cycle_def split: option.splits)
  moreover have "opened_or_before ?c x"
    if x: "x \<in> set (bt_values (ql_events L))" "ev_source_ref x = ref" "opened_or_before c x" for x
    using event_of_source [OF li(1) x(1,2)] own new by (intro reset_before [OF x(1,3)]) (auto simp: opened_or_before_def)
  ultimately have step: "placed ?c x"
    if "x \<in> set (bt_values (ql_events L))" "ev_source_ref x = ref" "placed c x" for x
    using that by (fastforce simp: placed_def)
  have "ledger_inv L'" using new_reset_inv [OF li(1) found cyc _ fresh guard res] new by simp
  moreover have "timed_ok L'"
    using fs(2) id step cyc own_e
    by (intro timed_ok_update [OF li found L'(1) _ L'(2), where c' = ?c]) (auto simp: id_ok_def reset_event_def)
  moreover have "fresh_rng L' r'"
  proof -
    have "cy_cycle_id c \<in> used_ids L"
      using own bt_get_Some_mem [OF own(1)] by (force simp: used_ids_def mem_bt_values)
    then show ?thesis
      unfolding L'(3) using used_ids_put [OF li(1) found L'(1) _ L'(2)] fs(2) by (intro reset_fresh [OF fr]) simp_all
  qed
  ultimately show ?thesis by (simp add: state_inv_def)
qed

lemma earlier_boundary_ge:
  assumes "x \<in> set (bt_values (ql_events L))" "ev_source_ref x = ref" "ev_status x = Committed"
    and "ev_cycle_id x \<noteq> cy_cycle_id c" "ev_effective_at_ms x < cy_starts_at_ms c"
  shows "\<exists>b. earlier_boundary L ref c = Some b \<and> ev_effective_at_ms x \<le> b"
proof -
  let ?xs = "filter (\<lambda>e. ev_source_ref e = ref \<and> ev_status e = Committed \<and>
    ev_cycle_id e \<noteq> cy_cycle_id c \<and> ev_effective_at_ms e < cy_starts_at_ms c) (bt_values (ql_events L))"
  from assms have x: "x \<in> set ?xs" by simp
  then have "ev_effective_at_ms x \<le> Max (ev_effective_at_ms ` set ?xs)"
    by (intro Max_ge imageI) simp_all
  moreover from x have "?xs \<noteq> []" by (metis empty_iff empty_set)
  ultimately show ?thesis by (simp add: earlier_boundary_def max_opt_def del: Max_ge_iff)
qed

lemma corrected_before:
  assumes "x \<in> set (bt_values (ql_events L))" and "ev_source_ref x = ref" and "ev_event_id x \<noteq> eid"
    and "ev_status x = Committed" and old: "opened_or_before c x"
  shows "opened_or_before (corrected_cycle (correction_applies L ref c p eid eff) eff disc basis c) x"
proof (cases "correction_applies L ref c p eid eff")
  case True
  then have own: "cy_event_id c = eid" and after: "\<And>b. earlier_boundary L ref c = Some b \<Longrightarrow> b < eff"
    by (auto simp: correction_applies_def split: option.splits)
  with assms have "ev_cycle_id x \<noteq> cy_cycle_id c" "ev_effective_at_ms x < cy_starts_at_ms c"
    by (auto simp: opened_or_before_def)
  with after earlier_boundary_ge [OF assms(1,2,4)] have "ev_effective_at_ms x < eff" by fastforce
  with True \<open>ev_cycle_id x \<noteq> _\<close> show ?thesis by (simp add: opened_or_before_def corrected_cycle_def)
next
  case False
  with old show ?thesis by (simp add: corrected_cycle_def)
qed

lemma correct_reset_state:
  assumes inv: "state_inv (L, r)" and found: "find_source L ref = Some (i, src)"
    and cyc: "qs_cycle src = Some c" and id: "id_ok L ref eid eff"
    and known: "bt_get (ql_events L) (event_key ref eid) = Some p"
    and guard: "eid \<noteq> []" "length eid \<le> 256" "0 \<le> eff" "eff \<le> disc"
    and res: "correct_reset L r i src c ref p eid eff disc basis = (L', r', res)"
  shows "state_inv (L', r')"
proof -
  have li: "ledger_inv L" "timed_ok L" and fr: "fresh_rng L r" using inv by (simp_all add: state_inv_def)
  from li(1) found cyc res refl show ?thesis
  proof (cases rule: correct_reset_cases)
    case same
    with inv show ?thesis by simp
  next
    case moved
    let ?a = "correction_applies L ref c p eid eff"
    let ?c = "corrected_cycle ?a eff disc basis c" and ?e = "corrected_event ?a eff disc p"
    note fs = found_source [OF li(1) found]
    note ge = get_event [OF li(1) known fs(6)]
    have p: "p \<in> set (bt_values (ql_events L))" using bt_get_Some_mem [OF known] by (auto simp: mem_bt_values)
    have untimed: "\<not> timed_id eid t" for t
      using li(2) p ge id moved(2) by (auto simp: timed_ok_def timed_event_ok_def id_ok_def)
    have e_id: "ev_source_ref ?e = ref" "ev_event_id ?e = eid" "ev_cycle_id ?e = ev_cycle_id p"
      using ge by (simp_all add: corrected_event_def)
    have "cy_observed_at_ms c \<le> cy_observed_at_ms ?c" "cy_ends_at_ms ?c = cy_ends_at_ms c"
      by (simp_all add: corrected_cycle_def)
    with corrected_before have step: "placed ?c x"
      if "x \<in> set (bt_values (ql_events L))" "ev_source_ref x = ref" "ev_event_id x \<noteq> eid" "placed c x" for x
      using that by (fastforce simp: placed_def)
    have own_e: "placed ?c ?e" using untimed e_id(2) by (intro untimed_placed) simp
    have "ledger_inv L'" by (rule correct_reset_inv [OF li(1) found cyc known guard res])
    moreover have "timed_ok L'"
      using fs(2) untimed step cyc e_id own_e
      by (intro timed_ok_update [OF li found moved(4) _ moved(5), where c' = ?c]) auto
    moreover have "used_ids L' \<subseteq> insert (ev_cycle_id p) (used_ids L)"
      using used_ids_put [OF li(1) found moved(4) _ moved(5)] fs(2) e_id by simp
    moreover have "ev_cycle_id p \<in> used_ids L" using p by (simp add: used_ids_def)
    ultimately show ?thesis using fr moved(1) by (auto simp: state_inv_def intro: fresh_rng_mono)
  qed
qed

lemma apply_reset_state:
  assumes inv: "state_inv (L, r)" and id: "id_ok L ref eid eff" and clock: "clock_ok L ref disc"
    and res: "apply_reset L r ref fence eid eff disc basis = (L', r', Ok b)"
  shows "state_inv (L', r')"
proof -
  from res have guard: "eid \<noteq> []" "length eid \<le> 256" "0 \<le> eff" "eff \<le> disc"
    by (auto simp: apply_reset_def split: if_splits)
  with res obtain i src where found: "find_source L ref = Some (i, src)"
    by (auto simp: apply_reset_def split: if_splits option.splits)
  show ?thesis
  proof (cases "qs_cycle src")
    case None
    with res found guard show ?thesis
      by (auto simp: apply_reset_def split: if_splits
          intro: open_first_cycle_state [OF inv found None id guard])
  next
    case (Some c)
    with clock found have "cy_observed_at_ms c \<le> disc" by (simp add: clock_ok_def source_of_find)
    with Some res found guard show ?thesis
      by (auto simp: apply_reset_def split: if_splits option.splits
          intro: new_reset_state [OF inv found Some id _ _ guard]
            correct_reset_state [OF inv found Some id _ guard])
  qed
qed

subsection \<open>Observations keep it\<close>

text \<open>Replacing a source whose cycle keeps its identity, its start and its event.\<close>

definition later_report :: "AccountQuotaCycle \<Rightarrow> AccountQuotaCycle \<Rightarrow> bool" where
  "later_report c c' \<longleftrightarrow> cy_event_id c' = cy_event_id c \<and> cy_cycle_id c' = cy_cycle_id c \<and>
     cy_starts_at_ms c' = cy_starts_at_ms c \<and> cy_observed_at_ms c \<le> cy_observed_at_ms c' \<and>
     (cy_ends_at_ms c' = cy_ends_at_ms c \<or>
      (\<exists>e. cy_ends_at_ms c' = Some e \<and> cy_observed_at_ms c < e))"

lemma later_report_refl [simp]: "later_report c c"
  by (simp add: later_report_def)

lemma placed_later: "later_report c c' \<Longrightarrow> placed c x \<Longrightarrow> placed c' x"
  by (auto simp: later_report_def placed_def opened_or_before_def)

lemma state_inv_put_source:
  assumes inv: "state_inv (L, r)" and found: "find_source L ref = Some (i, src)"
    and srcs: "ql_sources L' = bt_insert i src' (ql_sources L)"
    and evs: "ql_events L' = ql_events L" "ql_corrections L' = ql_corrections L" "same_rest L L'"
    and src': "qs_source_ref src' = ref" "qs_bucket_id src' = qs_bucket_id src"
      "source_entry_ok i src'" "validate_cycle L src' = Ok ()"
    and cycle: "rel_option later_report (qs_cycle src) (qs_cycle src')"
  shows "state_inv (L', r)"
proof -
  have li: "ledger_inv L" "timed_ok L" and fr: "fresh_rng L r" using inv by (simp_all add: state_inv_def)
  note find' = find_source_put [OF li(1) found src'(1) srcs]
  have "ledger_inv L'"
    using cycle by (intro ledger_inv_put_source [OF li(1) found srcs evs src'(1-3) _ src'(4)]) auto
  moreover have "timed_event_ok L' x" if "timed_event_ok L x" for x
    using that cycle found find'(1) [of "ev_source_ref x"]
    by (cases "qs_cycle src"; cases "qs_cycle src'")
      (auto simp: timed_event_ok_def source_of_find split: if_splits intro: placed_later)
  then have "timed_ok L'" using li(2) by (simp add: timed_ok_def evs)
  moreover have "used_ids L' \<subseteq> used_ids L"
    using bt_values_insert_subset [of i src' "ql_sources L"] found_source(1,2) [OF li(1) found] src'(1)
    unfolding used_ids_def srcs evs by (force simp: mem_bt_values)
  then have "fresh_rng L' r" by (rule fresh_rng_mono [OF fr])
  ultimately show ?thesis by (simp add: state_inv_def)
qed

lemma find_source_put_source:
  "ledger_inv L \<Longrightarrow> find_source L ref = Some (i, src) \<Longrightarrow> qs_source_ref src' = ref \<Longrightarrow>
   find_source (put_source i src' L) ref = Some (i, src')"
  using find_source_put(1) [of L ref i src src' "put_source i src' L" ref]
  by (simp add: put_source_def)

lemma find_source_other_fields [simp]:
  "find_source (bump_revision L) ref = find_source L ref"
  "find_source (put_event k e L) ref = find_source L ref"
  by (simp_all add: find_source_def bump_revision_def put_event_def)

lemma note_observation_state:
  assumes inv: "state_inv (L, r)" and found: "find_source L ref = Some (i, src)"
    and ob: "validate_end ob = Ok ()"
  shows "state_inv (note_observation i src ob L, r)"
    and "find_source (note_observation i src ob L) ref = Some (i, src\<lparr>qs_next_boundary_ms :=
      Some (ob_ends_at_ms ob), qs_last_observed_at_ms := ob_observed_at_ms ob\<rparr>)"
proof -
  let ?src = "src\<lparr>qs_next_boundary_ms := Some (ob_ends_at_ms ob),
    qs_last_observed_at_ms := ob_observed_at_ms ob\<rparr>"
  have li: "ledger_inv L" using inv by (simp add: state_inv_def)
  note fs = found_source [OF li found]
  from ob have "0 \<le> ob_observed_at_ms ob" "0 \<le> ob_ends_at_ms ob"
    by (auto simp: validate_end_def split: if_splits)
  with fs(3) have "source_entry_ok i ?src" by (simp add: source_entry_ok_def)
  moreover have "validate_cycle L ?src = Ok ()"
    using fs(4) by (auto simp: validate_cycle_def valid_cycle_def split: option.splits if_splits)
  moreover have "rel_option later_report (qs_cycle src) (qs_cycle ?src)"
    by (cases "qs_cycle src") simp_all
  ultimately show "state_inv (note_observation i src ob L, r)"
    using fs(2)
    by (intro state_inv_put_source [OF inv found, where src' = ?src])
      (simp_all add: note_observation_def ledger_updates Let_def)
  show "find_source (note_observation i src ob L) ref = Some (i, ?src)"
    using find_source_put_source [OF li found, of ?src] fs(2)
    by (simp add: note_observation_def Let_def)
qed

text \<open>
  The end of the current cycle, or an upstream start after its start, is not on record yet,
  so applying it opens a new cycle there.
\<close>

lemma known_event_placed:
  assumes inv: "state_inv (L, r)" and found: "find_source L ref = Some (i, src)"
    and cyc: "qs_cycle src = Some c" and p: "bt_get (ql_events L) (event_key ref eid) = Some p"
  shows "placed c p" "ev_event_id p = eid" "timed_id eid b \<Longrightarrow> ev_effective_at_ms p = b"
proof -
  have li: "ledger_inv L" "timed_ok L" using inv by (simp_all add: state_inv_def)
  note ge = get_event [OF li(1) p found_source(6) [OF li(1) found]]
  from p have "p \<in> set (bt_values (ql_events L))" using bt_get_Some_mem by (force simp: mem_bt_values)
  with li(2) ge found cyc
  show "placed c p" "ev_event_id p = eid" "timed_id eid b \<Longrightarrow> ev_effective_at_ms p = b"
    by (auto simp: timed_ok_def timed_event_ok_def source_of_find)
qed

lemma natural_unknown:
  assumes "state_inv (L, r)" "find_source L ref = Some (i, src)" "qs_cycle src = Some c"
    and "cy_ends_at_ms c = Some b"
  shows "bt_get (ql_events L) (event_key ref (natural_event_id b)) = None"
  using known_event_placed [OF assms(1-3), of "natural_event_id b"] assms(4)
  by (cases "bt_get (ql_events L) (event_key ref (natural_event_id b))") (auto simp: placed_def)

lemma upstream_unknown:
  assumes inv: "state_inv (L, r)" and found: "find_source L ref = Some (i, src)"
    and cyc: "qs_cycle src = Some c" and later: "cy_starts_at_ms c < t"
  shows "bt_get (ql_events L) (event_key ref (upstream_event_id t)) = None"
proof (rule ccontr)
  assume "bt_get (ql_events L) (event_key ref (upstream_event_id t)) \<noteq> None"
  then obtain p where p: "bt_get (ql_events L) (event_key ref (upstream_event_id t)) = Some p" by auto
  have li: "ledger_inv L" using inv by (simp add: state_inv_def)
  note kp = known_event_placed [OF inv found cyc p]
  from kp have "opened_or_before c p" "ev_effective_at_ms p = t"
    by (auto simp: placed_def timed_id_def)
  with validate_cycle_Some [OF found_source(4) [OF li found] cyc] p kp(2)
    found_source(2) [OF li found] later
  show False by (auto simp: opened_or_before_def)
qed

lemma apply_timed:
  assumes inv: "state_inv (L, r)" and found: "find_source L ref = Some (i, src)"
    and cyc: "qs_cycle src = Some c" and id: "timed_id eid b" and later: "cy_starts_at_ms c < b"
    and unknown: "bt_get (ql_events L) (event_key ref eid) = None"
    and clock: "cy_observed_at_ms c \<le> disc"
    and res: "apply_reset L r ref fence eid b disc basis = (L', r', Ok x)"
  shows "state_inv (L', r')" and "x"
    and "find_source L' ref = Some (i, src\<lparr>qs_cycle := Some (advance_cycle c (shd r)
      (cy_cycle_sequence c + 1) eid b disc basis)\<rparr>)"
    and "ref' \<noteq> ref \<Longrightarrow> find_source L' ref' = find_source L ref'"
proof -
  have "id_ok L ref eid b"
    using id timed_id_inj later found cyc by (auto simp: id_ok_def source_of_find timed_id_def)
  moreover have "clock_ok L ref disc" using clock found cyc by (simp add: clock_ok_def source_of_find)
  ultimately show "state_inv (L', r')" by (rule apply_reset_state [OF inv _ _ res])
  have L': "L' = bump_revision (put_event (event_key ref eid) e (put_source i (src\<lparr>qs_cycle :=
      Some (advance_cycle c (shd r) (cy_cycle_sequence c + 1) eid b disc basis)\<rparr>) L)) \<and> x"
    if "e = \<lparr>ev_event_id = eid, ev_source_ref = ref, ev_bucket_id = qs_bucket_id src,
      ev_effective_at_ms = b, ev_discovered_at_ms = disc, ev_basis = basis,
      ev_status = Committed, ev_cycle_id = shd r\<rparr>" for e
    using res found cyc unknown later that
    by (auto simp: apply_reset_def new_reset_def Let_def advance_cycle_def split: if_splits option.splits)
  then show x by simp
  have li: "ledger_inv L" using inv by (simp add: state_inv_def)
  show "find_source L' ref' = find_source L ref'" if "ref' \<noteq> ref"
    using L' [OF refl] that found_source(2) [OF li found]
    by (subst find_source_put(1) [OF li found, of "src\<lparr>qs_cycle := Some (advance_cycle c (shd r)
      (cy_cycle_sequence c + 1) eid b disc basis)\<rparr>"]) (simp_all add: ledger_updates)
  show "find_source L' ref = Some (i, src\<lparr>qs_cycle := Some (advance_cycle c (shd r)
      (cy_cycle_sequence c + 1) eid b disc basis)\<rparr>)"
    using L' [OF refl] find_source_put_source [OF _ found] inv found_source(2) [OF _ found]
    by (simp add: state_inv_def)
qed

text \<open>The source with the report noted, and what one activation does to it.\<close>

abbreviation noted :: "QuotaCycleSource \<Rightarrow> QuotaWindowObservation \<Rightarrow> QuotaCycleSource" where
  "noted src ob \<equiv> src\<lparr>qs_next_boundary_ms := Some (ob_ends_at_ms ob),
     qs_last_observed_at_ms := ob_observed_at_ms ob\<rparr>"

lemma initial_cycle_state:
  assumes inv: "state_inv (L, r)" and found: "find_source L ref = Some (i, src)"
    and none: "qs_cycle src = None" and start: "start_of ob = Ok start"
    and width: "in_i64 (ob_ends_at_ms ob)"
    and res: "initial_cycle L r i src ref start ob = Done L' r' res"
  shows "state_inv (L', r')"
    and "\<exists>c. find_source L' ref = Some (i, src\<lparr>qs_cycle := Some c\<rparr>) \<and>
      cycle_contains c (ob_observed_at_ms ob) \<and> cy_ends_at_ms c = Some (ob_ends_at_ms ob)"
proof -
  have li: "ledger_inv L" "timed_ok L" and fr: "fresh_rng L r" using inv by (simp_all add: state_inv_def)
  note fs = found_source [OF li(1) found]
  note fresh = no_event_before_first_cycle [OF li(1) found none]
  from start have st: "0 \<le> start" "start \<le> ob_observed_at_ms ob" "start < ob_ends_at_ms ob"
    "ob_observed_at_ms ob < ob_ends_at_ms ob"
    by (auto simp: start_of_def result_iff split: if_splits)
  let ?eid = "''initial:'' @ show_int (ob_ends_at_ms ob)"
  define c where "c = \<lparr>cy_stream_incarnation = ql_stream_incarnation L, cy_source_ref = ref,
    cy_source_epoch = qs_source_epoch src, cy_bucket_id = qs_bucket_id src, cy_cycle_id = shd r,
    cy_cycle_sequence = 1, cy_cycle_revision = 1, cy_starts_at_ms = start,
    cy_ends_at_ms = Some (ob_ends_at_ms ob), cy_basis = ob_basis ob,
    cy_observed_at_ms = ob_observed_at_ms ob, cy_event_id = ?eid\<rparr>"
  define e where "e = \<lparr>ev_event_id = ?eid, ev_source_ref = ref, ev_bucket_id = qs_bucket_id src,
    ev_effective_at_ms = start, ev_discovered_at_ms = ob_observed_at_ms ob, ev_basis = ob_basis ob,
    ev_status = Committed, ev_cycle_id = shd r\<rparr>"
  have L': "L' = bump_revision (put_event (event_key ref ?eid) e (put_source i (src\<lparr>qs_cycle := Some c\<rparr>) L))"
    and r': "r' = stl r"
    using res fs(2) by (auto simp: initial_cycle_def Let_def c_def e_def)
  have "length ?eid \<le> 256" using length_show_int [OF width] by simp
  have "ledger_inv L'"
    using fs(2) fresh_rng_shd [OF fr] st \<open>length ?eid \<le> 256\<close>
    by (intro ledger_inv_fresh_event [OF li(1) found fresh L'])
      (auto simp: c_def e_def valid_cycle_def valid_event_def)
  moreover have "timed_ok L'"
    using fs(2) none external_not_timed [of ?eid] untimed_placed [of e c]
    by (intro timed_ok_update [OF li found, where c' = c and src' = "src\<lparr>qs_cycle := Some c\<rparr>" and e = e])
      (auto simp: L' ledger_updates e_def external_id_def starts_with_def)
  moreover have "fresh_rng L' r'"
    unfolding r' using used_ids_put [OF li(1) found, of L' "src\<lparr>qs_cycle := Some c\<rparr>" "event_key ref ?eid" e] fs(2)
    by (intro fresh_rng_stl [OF fr]) (simp add: e_def L' ledger_updates)
  ultimately show "state_inv (L', r')" by (simp add: state_inv_def)
  have "find_source L' ref = Some (i, src\<lparr>qs_cycle := Some c\<rparr>)"
    using find_source_put_source [OF li(1) found] fs(2) by (simp add: L')
  moreover have "cycle_contains c (ob_observed_at_ms ob)" using st by (simp add: cycle_contains_def c_def)
  ultimately show "\<exists>c. find_source L' ref = Some (i, src\<lparr>qs_cycle := Some c\<rparr>) \<and>
      cycle_contains c (ob_observed_at_ms ob) \<and> cy_ends_at_ms c = Some (ob_ends_at_ms ob)"
    by (auto simp: c_def)
qed

lemma extend_current_state:
  assumes inv: "state_inv (L, r)" and found: "find_source L ref = Some (i, src)"
    and cyc: "qs_cycle src = Some c" and ob: "validate_end ob = Ok ()"
    and obs: "cy_observed_at_ms c \<le> ob_observed_at_ms ob"
    and res: "extend_current L r i src c ob fc = Done L' r' res"
  shows "state_inv (L', r')"
    and "\<exists>c. find_source L' ref = Some (i, src\<lparr>qs_cycle := Some c\<rparr>) \<and>
      cycle_contains c (ob_observed_at_ms ob) \<and> cy_ends_at_ms c = Some (ob_ends_at_ms ob)"
proof -
  have li: "ledger_inv L" using inv by (simp add: state_inv_def)
  note fs = found_source [OF li found]
  from validate_cycle_Some [OF fs(4) cyc] have vc: "valid_cycle L src c" by simp
  from ob have later: "ob_observed_at_ms ob < ob_ends_at_ms ob"
    by (auto simp: validate_end_def split: if_splits)
  define c' where "c' = c\<lparr>cy_ends_at_ms := Some (ob_ends_at_ms ob),
    cy_cycle_revision := (if cy_ends_at_ms c \<noteq> Some (ob_ends_at_ms ob)
      then saturating_add_u64 (cy_cycle_revision c) 1 else cy_cycle_revision c),
    cy_observed_at_ms := ob_observed_at_ms ob\<rparr>"
  have by_cases: "c' = (if cy_ends_at_ms c \<noteq> Some (ob_ends_at_ms ob)
      then c\<lparr>cy_ends_at_ms := Some (ob_ends_at_ms ob),
        cy_cycle_revision := saturating_add_u64 (cy_cycle_revision c) 1\<rparr>
      else c)\<lparr>cy_observed_at_ms := ob_observed_at_ms ob\<rparr>"
    by (cases c) (simp add: c'_def)
  have c': "cy_event_id c' = cy_event_id c" "cy_cycle_id c' = cy_cycle_id c"
    "cy_starts_at_ms c' = cy_starts_at_ms c" "cy_ends_at_ms c' = Some (ob_ends_at_ms ob)"
    by (simp_all add: c'_def)
  have report: "later_report c c'" using obs later by (simp add: later_report_def c'_def)
  let ?src = "src\<lparr>qs_cycle := Some c'\<rparr>"
  have L': "L' = put_source i ?src (if cy_ends_at_ms c \<noteq> Some (ob_ends_at_ms ob)
      then bump_revision L else L)" and r': "r' = r"
    using res by (auto simp: extend_current_def Let_def by_cases)
  have "valid_cycle L ?src c'"
    using vc obs later saturating_succ_pos by (simp add: valid_cycle_def c'_def)
  then have "validate_cycle L ?src = Ok ()"
    using validate_cycle_Some [OF fs(4) cyc] by (auto simp: validate_cycle_def c')
  then show "state_inv (L', r')"
    unfolding r' using fs(2,3) cyc
    by (intro state_inv_put_source [OF inv found, where src' = ?src])
      (simp_all add: L' ledger_updates source_entry_ok_def c' report)
  have "find_source (bump_revision L) ref = Some (i, src)" "ledger_inv (bump_revision L)"
    using found ledger_inv_put_source [OF li found, of "bump_revision L" src] fs
    by (simp_all add: bump_revision_def same_rest_def find_source_def)
  then have "find_source L' ref = Some (i, ?src)"
    using find_source_put_source [of L ref i src ?src]
      find_source_put_source [of "bump_revision L" ref i src ?src] li found fs(2)
    by (auto simp: L')
  moreover have "cycle_contains c' (ob_observed_at_ms ob)"
    using vc obs later by (simp add: cycle_contains_def c' valid_cycle_def)
  ultimately show "\<exists>c. find_source L' ref = Some (i, src\<lparr>qs_cycle := Some c\<rparr>) \<and>
      cycle_contains c (ob_observed_at_ms ob) \<and> cy_ends_at_ms c = Some (ob_ends_at_ms ob)"
    using c'(4) by blast
qed

text \<open>
  What a report that was accepted establishes: it is noted, and a current cycle contains
  the instant it was taken and ends where it says.
\<close>

definition caught_up :: "QuotaCycleLedger \<Rightarrow> string \<Rightarrow> QuotaWindowObservation \<Rightarrow> bool" where
  "caught_up L ref ob \<longleftrightarrow> (\<exists>s. source L ref = Some s \<and>
     qs_next_boundary_ms s = Some (ob_ends_at_ms ob) \<and>
     qs_last_observed_at_ms s = ob_observed_at_ms ob \<and>
     (\<forall>c. qs_cycle s = Some c \<longrightarrow> cycle_contains c (ob_observed_at_ms ob) \<and>
        cy_ends_at_ms c = Some (ob_ends_at_ms ob)))"

text \<open>The report is not older than what the source has seen.\<close>

definition up_to_date :: "QuotaCycleLedger \<Rightarrow> string \<Rightarrow> QuotaWindowObservation \<Rightarrow> bool" where
  "up_to_date L ref ob \<longleftrightarrow> (\<exists>s. source L ref = Some s \<and>
     qs_last_observed_at_ms s \<le> ob_observed_at_ms ob \<and>
     (\<forall>c. qs_cycle s = Some c \<longrightarrow> cy_observed_at_ms c \<le> ob_observed_at_ms ob))"

text \<open>How many more resets the activation can apply before it settles.\<close>

definition resets_left :: "QuotaCycleLedger \<Rightarrow> string \<Rightarrow> QuotaWindowObservation \<Rightarrow> nat" where
  "resets_left L ref ob = (case Option.bind (source L ref) qs_cycle of
     None \<Rightarrow> 0
   | Some c \<Rightarrow> (if elapsed_boundary c (ob_observed_at_ms ob) \<noteq> None then 2 else 0) +
       (case ob_starts_at_ms ob of None \<Rightarrow> 0 | Some t \<Rightarrow> if t > cy_starts_at_ms c then 1 else 0))"

lemma observe_once_found:
  assumes "observe_once L r ref fence ob = Again L' r' \<or> observe_once L r ref fence ob = Done L' r' (Ok b)"
  obtains i src inferred where "find_source L ref = Some (i, src)" "validate_end ob = Ok ()"
    "inferred_start ob = Ok inferred" "qs_fence src = fence" "qs_bucket_id src = ob_bucket_id ob"
  using assms
  by (auto simp: observe_once_def split: sum.splits option.splits prod.splits if_splits)

lemma observe_once_eq:
  assumes "find_source L ref = Some (i, src)" "validate_end ob = Ok ()"
    "inferred_start ob = Ok inferred" "qs_fence src = fence" "qs_bucket_id src = ob_bucket_id ob"
  shows "observe_once L r ref fence ob =
    (if ob_observed_at_ms ob < qs_last_observed_at_ms src then Done L r (Ok False)
     else case qs_cycle src of
       None \<Rightarrow> (case inferred of
           None \<Rightarrow> Done (note_observation i src ob L) r
             (Ok (qs_next_boundary_ms src \<noteq> Some (ob_ends_at_ms ob) \<or>
                  qs_last_observed_at_ms src \<noteq> ob_observed_at_ms ob))
         | Some start \<Rightarrow>
             initial_cycle (note_observation i src ob L) r i (noted src ob) ref start ob)
     | Some c \<Rightarrow> observe_current (note_observation i src ob L) r i (noted src ob) c ref fence ob
         (qs_last_observed_at_ms src \<noteq> ob_observed_at_ms ob))"
  using assms by (simp add: observe_once_def Let_def split: option.splits)

lemma cycle_ends_after:
  "validate_cycle L src = Ok () \<Longrightarrow> qs_cycle src = Some c \<Longrightarrow> elapsed_boundary c t = Some b \<Longrightarrow>
   cy_starts_at_ms c < b \<and> b \<le> t \<and> cy_ends_at_ms c = Some b"
  by (auto dest!: validate_cycle_Some simp: valid_cycle_def elapsed_boundary_def
      split: option.splits if_splits)

lemma observe_current_cases:
  assumes inv: "state_inv (L, r)" and found: "find_source L ref = Some (i, src)"
    and cyc: "qs_cycle src = Some c" and obs: "cy_observed_at_ms c \<le> ob_observed_at_ms ob"
    and step: "observe_current L r i src c ref fence ob fc = Again L' r'"
  shows "state_inv (L', r') \<and> resets_left L' ref ob < resets_left L ref ob \<and>
    (\<exists>c'. find_source L' ref = Some (i, src\<lparr>qs_cycle := Some c'\<rparr>) \<and>
      cy_observed_at_ms c' = ob_observed_at_ms ob)"
proof (cases "elapsed_boundary c (ob_observed_at_ms ob)")
  case (Some b)
  have li: "ledger_inv L" using inv by (simp add: state_inv_def)
  from cycle_ends_after [OF found_source(4) [OF li found] cyc Some]
  have later: "cy_starts_at_ms c < b" and ends: "cy_ends_at_ms c = Some b" by simp_all
  from step Some obs obtain x where res: "apply_reset L r ref fence (natural_event_id b) b
      (ob_observed_at_ms ob) KnownNaturalBoundary = (L', r', Ok x)"
    by (auto simp: observe_current_def again_after_reset_def split: prod.splits sum.splits)
  have "timed_id (natural_event_id b) b" by (simp add: timed_id_def)
  note at = apply_timed [OF inv found cyc this later natural_unknown [OF inv found cyc ends] obs res]
  from at(3) found cyc Some have "resets_left L' ref ob < resets_left L ref ob"
    by (simp add: resets_left_def source_of_find advance_cycle_def elapsed_boundary_def ends
        split: option.splits)
  with at show ?thesis by (auto simp: advance_cycle_def)
next
  case None
  from step None obs obtain t x where t: "ob_starts_at_ms ob = Some t" "cy_starts_at_ms c < t"
    and res: "apply_reset L r ref fence (upstream_event_id t) t
      (ob_observed_at_ms ob) (ob_basis ob) = (L', r', Ok x)"
    by (auto simp: observe_current_def again_after_reset_def extend_current_def Let_def
        split: prod.splits sum.splits option.splits if_splits)
  have "timed_id (upstream_event_id t) t" by (simp add: timed_id_def)
  note at = apply_timed [OF inv found cyc this t(2) upstream_unknown [OF inv found cyc t(2)] obs res]
  from at(3) found cyc None t have "resets_left L' ref ob < resets_left L ref ob"
    by (auto simp: resets_left_def source_of_find advance_cycle_def elapsed_boundary_def
        split: option.splits)
  with at show ?thesis by (auto simp: advance_cycle_def)
qed

lemma observe_once_Again:
  assumes inv: "state_inv (L, r)" and step: "observe_once L r ref fence ob = Again L' r'"
  shows "state_inv (L', r') \<and> resets_left L' ref ob < resets_left L ref ob \<and> up_to_date L' ref ob"
proof -
  from step obtain i src inferred where f: "find_source L ref = Some (i, src)"
    "validate_end ob = Ok ()" "inferred_start ob = Ok inferred" "qs_fence src = fence"
    "qs_bucket_id src = ob_bucket_id ob" by (rule observe_once_found [OF disjI1])
  note n = note_observation_state [OF inv f(1,2)]
  from step obtain c where cyc: "qs_cycle src = Some c"
    and oc: "observe_current (note_observation i src ob L) r i (noted src ob) c ref fence ob
      (qs_last_observed_at_ms src \<noteq> ob_observed_at_ms ob) = Again L' r'"
    by (auto simp: observe_once_eq [OF f] initial_cycle_def Let_def split: if_splits option.splits)
  from oc have obs: "cy_observed_at_ms c \<le> ob_observed_at_ms ob"
    by (auto simp: observe_current_def split: if_splits)
  have "resets_left (note_observation i src ob L) ref ob = resets_left L ref ob"
    using n(2) f(1) by (simp add: resets_left_def source_of_find)
  with observe_current_cases [OF n(1,2) _ obs oc] cyc show ?thesis
    by (auto simp: up_to_date_def source_of_find)
qed

lemma observe_once_Done:
  assumes inv: "state_inv (L, r)" and width: "in_i64 (ob_ends_at_ms ob)"
    and step: "observe_once L r ref fence ob = Done L' r' (Ok b)"
  shows "state_inv (L', r') \<and> (b \<or> up_to_date L ref ob \<longrightarrow> caught_up L' ref ob)"
proof -
  from step obtain i src inferred where f: "find_source L ref = Some (i, src)"
    "validate_end ob = Ok ()" "inferred_start ob = Ok inferred" "qs_fence src = fence"
    "qs_bucket_id src = ob_bucket_id ob" by (rule observe_once_found [OF disjI2])
  note n = note_observation_state [OF inv f(1,2)] and step' = step [unfolded observe_once_eq [OF f]]
  have caught: "caught_up L' ref ob" if "find_source L' ref = Some (i, (noted src ob)\<lparr>qs_cycle := Some c\<rparr>)"
    "cycle_contains c (ob_observed_at_ms ob)" "cy_ends_at_ms c = Some (ob_ends_at_ms ob)" for c
    using that by (simp add: caught_up_def source_of_find)
  show ?thesis
  proof (cases "ob_observed_at_ms ob < qs_last_observed_at_ms src")
    case True
    with step' inv f(1) show ?thesis by (auto simp: up_to_date_def source_of_find)
  next
    case fresh: False
    show ?thesis
    proof (cases "qs_cycle src")
      case None
      show ?thesis
      proof (cases inferred)
        case None
        with \<open>qs_cycle src = None\<close> fresh step' n show ?thesis
          by (auto simp: caught_up_def source_of_find)
      next
        case (Some start)
        with \<open>qs_cycle src = None\<close> fresh step'
        have ic: "initial_cycle (note_observation i src ob L) r i (noted src ob) ref start ob = Done L' r' (Ok b)"
          by simp
        from Some f(3) have "start_of ob = Ok start"
          by (auto simp: inferred_start_def split: sum.splits if_splits)
        from initial_cycle_state [OF n _ this width ic] None caught show ?thesis by auto
      qed
    next
      case (Some c)
      with fresh step' have oc: "observe_current (note_observation i src ob L) r i (noted src ob) c ref fence ob
        (qs_last_observed_at_ms src \<noteq> ob_observed_at_ms ob) = Done L' r' (Ok b)" by simp
      show ?thesis
      proof (cases "ob_observed_at_ms ob < cy_observed_at_ms c")
        case True
        with oc n Some f(1) show ?thesis
          by (auto simp: observe_current_def up_to_date_def source_of_find)
      next
        case False
        with oc have ec: "extend_current (note_observation i src ob L) r i (noted src ob) c ob
            (qs_last_observed_at_ms src \<noteq> ob_observed_at_ms ob) = Done L' r' (Ok b)"
          by (auto simp: observe_current_def again_after_reset_def
              split: option.splits prod.splits sum.splits if_splits)
        from extend_current_state [OF n _ f(2) _ ec] Some False caught show ?thesis by auto
      qed
    qed
  qed
qed

lemma observe_run:
  assumes "state_inv (L, r)" and "in_i64 (ob_ends_at_ms ob)"
  shows "\<exists>L' r' res. observe L r ref fence ob = Some (L', r', res) \<and>
    (\<forall>b. res = Ok b \<longrightarrow> state_inv (L', r') \<and> (b \<or> up_to_date L ref ob \<longrightarrow> caught_up L' ref ob))"
  using assms(1)
proof (induction "resets_left L ref ob" arbitrary: L r rule: less_induct)
  case less
  show ?case
  proof (cases "observe_once L r ref fence ob")
    case (Done L1 r1 res)
    with observe_once_Done [OF less.prems assms(2)] show ?thesis
      by (subst observe.simps) auto
  next
    case (Again L1 r1)
    note ag = observe_once_Again [OF less.prems Again]
    with less.hyps obtain L' r' res where rec: "observe L1 r1 ref fence ob = Some (L', r', res)"
      and ok: "\<forall>b. res = Ok b \<longrightarrow> state_inv (L', r') \<and> (b \<or> up_to_date L1 ref ob \<longrightarrow> caught_up L' ref ob)"
      by blast
    from Again rec have "observe L r ref fence ob =
        Some (L', r', case res of Err e \<Rightarrow> Err e | Ok _ \<Rightarrow> Ok True)"
      by (subst observe.simps) simp
    with ok ag show ?thesis by (auto split: sum.splits)
  qed
qed

subsection \<open>The passing of time keeps it\<close>

definition due_entry :: "QuotaCycleLedger \<Rightarrow> int \<Rightarrow> string \<times> QuotaSourceFence \<times> int \<Rightarrow> bool" where
  "due_entry L now d \<longleftrightarrow> (case d of (ref, fence, e) \<Rightarrow> \<exists>i s c.
     find_source L ref = Some (i, s) \<and> qs_cycle s = Some c \<and> elapsed_boundary c now = Some e \<and>
     cy_observed_at_ms c \<le> now)"

text \<open>The cycle that follows \<open>c\<close> at its end \<open>e\<close>.\<close>

definition successor :: "AccountQuotaCycle \<Rightarrow> int \<Rightarrow> int \<Rightarrow> AccountQuotaCycle \<Rightarrow> bool" where
  "successor c e now c' \<longleftrightarrow> cy_starts_at_ms c' = e \<and> cy_ends_at_ms c' = None \<and>
     cy_cycle_sequence c' = cy_cycle_sequence c + 1 \<and> cy_observed_at_ms c' = now \<and>
     cy_event_id c' = natural_event_id e"

lemma apply_natural:
  assumes inv: "state_inv (L, r)" and found: "find_source L ref = Some (i, src)"
    and cyc: "qs_cycle src = Some c" and e: "elapsed_boundary c now = Some e"
    and clock: "cy_observed_at_ms c \<le> now"
    and res: "apply_reset L r ref fence (natural_event_id e) e now KnownNaturalBoundary = (L', r', Ok x)"
  shows "state_inv (L', r')" "x"
    "\<exists>c'. find_source L' ref = Some (i, src\<lparr>qs_cycle := Some c'\<rparr>) \<and> successor c e now c'"
    "ref' \<noteq> ref \<Longrightarrow> find_source L' ref' = find_source L ref'"
proof -
  have li: "ledger_inv L" using inv by (simp add: state_inv_def)
  from cycle_ends_after [OF found_source(4) [OF li found] cyc e]
  have later: "cy_starts_at_ms c < e" and ends: "cy_ends_at_ms c = Some e" by simp_all
  have "timed_id (natural_event_id e) e" by (simp add: timed_id_def)
  note at = apply_timed [OF inv found cyc this later natural_unknown [OF inv found cyc ends] clock res]
  show "state_inv (L', r')" "x" "ref' \<noteq> ref \<Longrightarrow> find_source L' ref' = find_source L ref'"
    by (fact at)+
  from at(3) show "\<exists>c'. find_source L' ref = Some (i, src\<lparr>qs_cycle := Some c'\<rparr>) \<and> successor c e now c'"
    by (auto simp: successor_def advance_cycle_def ends)
qed

lemma advance_all_state:
  assumes "state_inv (L, r)" and "distinct (map fst due)" and "\<forall>d \<in> set due. due_entry L now d"
    and "advance_all L r due now changed = (L', r', Ok b)"
  shows "state_inv (L', r') \<and>
    (\<forall>ref. ref \<notin> fst ` set due \<longrightarrow> find_source L' ref = find_source L ref) \<and>
    (\<forall>(ref, fence, e) \<in> set due. \<exists>i s c c'. find_source L ref = Some (i, s) \<and> qs_cycle s = Some c \<and>
      find_source L' ref = Some (i, s\<lparr>qs_cycle := Some c'\<rparr>) \<and> successor c e now c')"
  using assms
proof (induction due arbitrary: L r changed)
  case (Cons d due)
  obtain ref fence e where d: "d = (ref, fence, e)" by (cases d)
  with Cons.prems(3) obtain i s c where found: "find_source L ref = Some (i, s)"
    and cyc: "qs_cycle s = Some c" and e: "elapsed_boundary c now = Some e"
    and clock: "cy_observed_at_ms c \<le> now"
    by (auto simp: due_entry_def)
  from Cons.prems(4) d obtain L1 r1 x where
    res: "apply_reset L r ref fence (natural_event_id e) e now KnownNaturalBoundary = (L1, r1, Ok x)"
    and rest: "advance_all L1 r1 due now (changed \<or> x) = (L', r', Ok b)"
    by (auto split: prod.splits sum.splits)
  note an = apply_natural [OF Cons.prems(1) found cyc e clock res]
  have other: "\<forall>d \<in> set due. fst d \<noteq> ref" using Cons.prems(2) d by auto
  have "\<forall>d \<in> set due. due_entry L1 now d"
    using Cons.prems(3) other an(4) by (force simp: due_entry_def)
  with Cons.IH [OF an(1) _ _ rest] Cons.prems(2)
  have IH: "state_inv (L', r') \<and>
    (\<forall>ref. ref \<notin> fst ` set due \<longrightarrow> find_source L' ref = find_source L1 ref) \<and>
    (\<forall>(ref, fence, e) \<in> set due. \<exists>i s c c'. find_source L1 ref = Some (i, s) \<and> qs_cycle s = Some c \<and>
      find_source L' ref = Some (i, s\<lparr>qs_cycle := Some c'\<rparr>) \<and> successor c e now c')" by simp
  have "ref \<notin> fst ` set due" using other by auto
  with IH an(3) found cyc have "\<exists>i s c c'. find_source L ref = Some (i, s) \<and> qs_cycle s = Some c \<and>
      find_source L' ref = Some (i, s\<lparr>qs_cycle := Some c'\<rparr>) \<and> successor c e now c'" by auto
  with IH an(4) other d show ?case by fastforce
qed auto

lemma due_sources_entries:
  assumes "ledger_inv L" and clock: "\<And>ref. clock_ok L ref now"
  shows "distinct (map fst (due_sources L now))" "\<forall>d \<in> set (due_sources L now). due_entry L now d"
    "\<lbrakk>find_source L ref = Some (i, s); qs_cycle s = Some c; elapsed_boundary c now = Some e\<rbrakk> \<Longrightarrow>
      (ref, qs_fence s, e) \<in> set (due_sources L now)"
proof -
  note refs = ledger_inv_refs [OF assms(1)]
  have "distinct (map fst (List.map_filter (\<lambda>src. case qs_cycle src of None \<Rightarrow> None
      | Some c \<Rightarrow> map_option (\<lambda>e. (qs_source_ref src, qs_fence src, e)) (elapsed_boundary c now)) xs)) \<and>
    fst ` set (List.map_filter (\<lambda>src. case qs_cycle src of None \<Rightarrow> None
      | Some c \<Rightarrow> map_option (\<lambda>e. (qs_source_ref src, qs_fence src, e)) (elapsed_boundary c now)) xs)
      \<subseteq> qs_source_ref ` set xs"
    if "distinct (map qs_source_ref xs)" for xs
    using that by (induction xs) (auto simp: map_filter_simps split: option.splits)
  from this [of "bt_values (ql_sources L)"] refs show "distinct (map fst (due_sources L now))"
    by (simp add: due_sources_def bt_values_def)
  show "\<forall>d \<in> set (due_sources L now). due_entry L now d"
    using find_source_iff [OF refs] clock
    by (fastforce simp: due_sources_def due_entry_def map_filter_def mem_bt_values clock_ok_def
        source_of_find split: option.splits)
  show "(ref, qs_fence s, e) \<in> set (due_sources L now)"
    if "find_source L ref = Some (i, s)" "qs_cycle s = Some c" "elapsed_boundary c now = Some e"
    using that find_source_iff [OF refs, of ref i s]
    by (force simp: due_sources_def map_filter_def mem_bt_values)
qed

lemma advance_due_state:
  assumes inv: "state_inv (L, r)" and clock: "\<And>ref. clock_ok L ref now"
    and res: "advance_due L r now = (L', r', Ok b)"
  shows "state_inv (L', r')" and "due_sources L' now = []"
proof -
  have li: "ledger_inv L" using inv by (simp add: state_inv_def)
  note due = due_sources_entries [OF li clock]
  note all = advance_all_state [OF inv due(1,2) res [unfolded advance_due_def]]
  then show inv': "state_inv (L', r')" by simp
  have settled: "elapsed_boundary c now = None \<and> cy_observed_at_ms c \<le> now"
    if f: "find_source L' ref = Some (i, s)" and c: "qs_cycle s = Some c" for ref i s c
  proof (cases "ref \<in> fst ` set (due_sources L now)")
    case True
    with all f c show ?thesis by (fastforce simp: successor_def elapsed_boundary_def)
  next
    case False
    with all f have found: "find_source L ref = Some (i, s)" by auto
    with due(3) [OF this c] False have "elapsed_boundary c now = None"
      by (cases "elapsed_boundary c now") force+
    with found c clock [of ref] show ?thesis by (simp add: clock_ok_def source_of_find)
  qed
  then have "clock_ok L' ref now" for ref by (fastforce simp: clock_ok_def source_of_find)
  moreover have "ledger_inv L'" using inv' by (simp add: state_inv_def)
  ultimately have "\<forall>d \<in> set (due_sources L' now). due_entry L' now d"
    by (intro due_sources_entries(2))
  with settled have "\<forall>d. d \<notin> set (due_sources L' now)" by (fastforce simp: due_entry_def)
  then show "due_sources L' now = []" by (cases "due_sources L' now") auto
qed

lemma clear_next_boundary_state:
  assumes inv: "state_inv (L, r)"
  shows "state_inv (clear_next_boundary L ref, r)"
proof (cases "find_source L ref")
  case None
  with inv show ?thesis by (simp add: clear_next_boundary_def)
next
  case (Some f)
  obtain i src where f: "f = (i, src)" by (cases f)
  have li: "ledger_inv L" using inv by (simp add: state_inv_def)
  note fs = found_source [OF li Some [unfolded f]]
  let ?src = "src\<lparr>qs_next_boundary_ms := None\<rparr>"
  have "validate_cycle L ?src = Ok ()"
    using fs(4) by (auto simp: validate_cycle_def valid_cycle_def split: option.splits if_splits)
  moreover have "source_entry_ok i ?src" using fs(3) by (simp add: source_entry_ok_def)
  ultimately show ?thesis
    using fs(2) Some f
    by (intro state_inv_put_source [OF inv Some [unfolded f], where src' = ?src])
      (simp_all add: clear_next_boundary_def ledger_updates option.rel_refl)
qed

lemma open_at_boundary_state:
  assumes inv: "state_inv (L, r)" and found: "find_source L ref = Some (i, src)"
    and none: "qs_cycle src = None" and b: "qs_next_boundary_ms src = Some b" "b \<le> now" "in_i64 b"
    and res: "open_at_boundary L r i src ref b now = (L', r', res)"
  shows "state_inv (L', r')"
proof -
  have li: "ledger_inv L" "timed_ok L" and fr: "fresh_rng L r" using inv by (simp_all add: state_inv_def)
  note fs = found_source [OF li(1) found] and new = fresh_rng_shd [OF fr]
  note fresh = no_event_before_first_cycle [OF li(1) found none]
  from fs(3) b(1) have "0 \<le> b" by (simp add: source_entry_ok_def)
  define c where "c = \<lparr>cy_stream_incarnation = ql_stream_incarnation L, cy_source_ref = ref,
    cy_source_epoch = qs_source_epoch src, cy_bucket_id = qs_bucket_id src, cy_cycle_id = shd r,
    cy_cycle_sequence = 1, cy_cycle_revision = 1, cy_starts_at_ms = b, cy_ends_at_ms = None,
    cy_basis = KnownNaturalBoundary, cy_observed_at_ms = now, cy_event_id = natural_event_id b\<rparr>"
  define e where "e = \<lparr>ev_event_id = natural_event_id b, ev_source_ref = ref,
    ev_bucket_id = qs_bucket_id src, ev_effective_at_ms = b, ev_discovered_at_ms = now,
    ev_basis = KnownNaturalBoundary, ev_status = Committed, ev_cycle_id = shd r\<rparr>"
  let ?src = "src\<lparr>qs_cycle := Some c, qs_next_boundary_ms := None\<rparr>"
  have L': "L' = bump_revision (put_event (event_key ref (natural_event_id b)) e (put_source i ?src L))"
    and r': "r' = stl r"
    using res by (auto simp: open_at_boundary_def Let_def c_def e_def)
  have "length (natural_event_id b) \<le> 256" "natural_event_id b \<noteq> []"
    using length_show_int [OF b(3)] by (simp_all add: natural_event_id_def)
  then have "ledger_inv L'"
    using fs new b \<open>0 \<le> b\<close>
    by (intro ledger_inv_fresh_event_put [OF li(1) found fresh L', where c = c])
      (simp_all add: c_def e_def valid_cycle_def valid_event_def source_entry_ok_def)
  moreover have "timed_ok L'"
    using fs(2) none b(2)
    by (intro timed_ok_update [OF li found, where c' = c and src' = ?src and e = e])
      (auto simp: L' ledger_updates e_def c_def timed_id_def placed_def)
  moreover have "fresh_rng L' r'"
    unfolding r' using used_ids_put [OF li(1) found, of L' ?src "event_key ref (natural_event_id b)" e] fs(2)
    by (intro fresh_rng_stl [OF fr]) (simp add: e_def L' ledger_updates)
  ultimately show ?thesis by (simp add: state_inv_def)
qed

definition boundaries_i64 :: "QuotaCycleLedger \<Rightarrow> bool" where
  "boundaries_i64 L \<longleftrightarrow> (\<forall>s \<in> set (bt_values (ql_sources L)).
     pred_option in_i64 (qs_next_boundary_ms s))"

lemma advance_source_due_state:
  assumes inv: "state_inv (L, r)" and width: "boundaries_i64 L" and clock: "clock_ok L ref now"
    and res: "advance_source_due L r ref now = (L', r', Ok b)"
  shows "state_inv (L', r')"
proof -
  from res obtain i src where found: "find_source L ref = Some (i, src)"
    by (auto simp: advance_source_due_def split: option.splits)
  have li: "ledger_inv L" using inv by (simp add: state_inv_def)
  note fs = found_source [OF li found]
  show ?thesis
  proof (cases "qs_cycle src")
    case None
    show ?thesis
    proof (cases "qs_next_boundary_ms src")
      case (Some e)
      from fs(1) have "src \<in> set (bt_values (ql_sources L))" by (auto simp: mem_bt_values)
      with width Some have "in_i64 e" by (auto simp: boundaries_i64_def dest: bspec)
      with None Some res found inv show ?thesis
        by (auto simp: advance_source_due_def split: if_splits
            intro: open_at_boundary_state [OF inv found None Some])
    qed (use None res found inv in \<open>auto simp: advance_source_due_def\<close>)
  next
    case (Some c)
    have "L' = L \<and> r' = r \<or> (\<exists>e L1 x. (L' = L1 \<or> L' = clear_next_boundary L1 ref) \<and>
      apply_reset L r ref (qs_fence src) (natural_event_id e) e now KnownNaturalBoundary = (L1, r', Ok x))"
      using res found Some
      by (auto simp: advance_source_due_def split: option.splits prod.splits sum.splits if_splits)
    then show ?thesis
      using inv apply_reset_state [OF inv natural_id_ok clock] clear_next_boundary_state by blast
  qed
qed

end
