(* ===== verification/Quota_Cycle_Props.thy ===== *)
theory Quota_Cycle_Props
  imports Quota_Cycle_Run
begin

section \<open>Account quota cycles: correctness\<close>

text \<open>
  Registration and redemption, the transition system of all committed operations, and the
  properties of the component: the ledger stays valid, \<open>observe\<close> returns and catches up with
  the report, time leaves no elapsed cycle behind, a replayed event changes nothing, and a
  report with a stale fence is refused.
\<close>

subsection \<open>Registration\<close>

definition source_added :: "QuotaCycleLedger \<Rightarrow> QuotaCycleLedger \<Rightarrow> string \<Rightarrow> QuotaCycleSource \<Rightarrow> bool" where
  "source_added L L' identity src \<longleftrightarrow> \<not> bt_contains (ql_sources L) identity \<and>
     ql_sources L' = bt_insert identity src (ql_sources L) \<and> ql_events L' = ql_events L \<and>
     ql_corrections L' = ql_corrections L \<and> same_rest L L' \<and> source_entry_ok identity src \<and> qs_cycle src = None"

lemma source_addedD:
  assumes inv: "ledger_inv L" and add: "source_added L L' identity src"
    and unused: "\<And>i s. (i, s) \<in> set (ql_sources L) \<Longrightarrow> qs_source_ref s \<noteq> qs_source_ref src"
  shows "set (ql_sources L') = insert (identity, src) (set (ql_sources L))"
    and "distinct (map (qs_source_ref \<circ> snd) (ql_sources L'))"
    and "ref \<noteq> qs_source_ref src \<Longrightarrow> find_source L' ref = find_source L ref"
    and "find_source L (qs_source_ref src) = None"
    and "(k, x) \<in> set (ql_events L) \<Longrightarrow> ev_source_ref x \<noteq> qs_source_ref src"
proof -
  note L' = add [unfolded source_added_def] and refs = ledger_inv_refs [OF inv]
  show sources: "set (ql_sources L') = insert (identity, src) (set (ql_sources L))" using L' by (simp add: set_bt_insert_new)
  have "ql_sources L' = bt_insert identity src (ql_sources L)" using L' by simp
  then show refs': "distinct (map (qs_source_ref \<circ> snd) (ql_sources L'))"
    using L' refs unused by (simp, intro distinct_map_bt_insert_new) fastforce+
  show "find_source L' ref = find_source L ref" if "ref \<noteq> qs_source_ref src"
  proof -
    have "find_source L' ref = Some (i, s) \<longleftrightarrow> find_source L ref = Some (i, s)" for i s
      using that by (auto simp: find_source_iff [OF refs] find_source_iff [OF refs'] sources)
    then show ?thesis by (metis not_None_eq surj_pair)
  qed
  show none: "find_source L (qs_source_ref src) = None"
    using unused find_source_iff [OF refs, of "qs_source_ref src"] by (metis not_None_eq surj_pair)
  show "ev_source_ref x \<noteq> qs_source_ref src" if "(k, x) \<in> set (ql_events L)"
    using inv that none by (auto simp: ledger_inv_def ledger_ok_def events_ok_def source_of_find)
qed

lemma ledger_inv_new_source:
  assumes inv: "ledger_inv L" and add: "source_added L L' identity src" and "colon_free (qs_source_ref src)"
    and unused: "\<And>i s. (i, s) \<in> set (ql_sources L) \<Longrightarrow> qs_source_ref s \<noteq> qs_source_ref src"
  shows "ledger_inv L'"
proof -
  note L' = add [unfolded source_added_def] and D = source_addedD [OF inv add unused]
  have same: "source L' ref = Some s" if "source L ref = Some s" for ref s
    using that D(3,4) by (cases "ref = qs_source_ref src") (auto simp: source_of_find)
  have cyc: "validate_cycle L' s = validate_cycle L s" for s
    using L' by (cases "qs_cycle s") (simp_all add: validate_cycle_def valid_cycle_def same_rest_def)
  have ok: "ledger_ok L" and cf: "refs_colon_free L" and ehc: "events_have_cycle L"
    using inv by (simp_all add: ledger_inv_def)
  have "validate_cycle L src = Ok ()" using L' by (simp add: validate_cycle_def)
  then have "sources_ok L'" using ok L' D(1,2) by (auto simp: sources_ok_def ledger_ok_def cyc)
  moreover have "events_ok L'" using ok same L' by (fastforce simp: ledger_ok_def events_ok_def)
  moreover have "operations_ok L'"
    using ok same L' by (fastforce simp: ledger_ok_def operations_ok_def same_rest_def valid_operation_def validate_receipt_def)
  moreover have "corrections_ok L'" by (rule corrections_ok_mono [of L]) (use ok L' in \<open>auto simp: ledger_ok_def\<close>)
  moreover have "events_have_cycle L'" using ehc D(3,5) L' by (fastforce simp: events_have_cycle_def source_of_find)
  moreover have "refs_colon_free L'" using cf D(1) assms(3) by (auto simp: refs_colon_free_def mem_bt_values)
  ultimately show ?thesis
    using ok inv L' by (simp add: ledger_inv_def ledger_ok_def maps_wf_def public_ok_def same_rest_def)
qed

lemma state_inv_new_source:
  assumes inv: "state_inv (L, r)" and add: "source_added L L' identity src" and ref: "qs_source_ref src = shd r"
  shows "state_inv (L', stl r)"
proof -
  have li: "ledger_inv L" "timed_ok L" and fr: "fresh_rng L r" using inv by (simp_all add: state_inv_def)
  note id = fresh_rng_shd [OF fr] and L' = add [unfolded source_added_def]
  have unused: "qs_source_ref s \<noteq> qs_source_ref src" if "(i, s) \<in> set (ql_sources L)" for i s
    using id ref that by (force simp: used_ids_def mem_bt_values)
  note D = source_addedD [OF li(1) add unused]
  have "ledger_inv L'" using ledger_inv_new_source [OF li(1) add _ unused] id ref by simp
  moreover have "timed_ok L'"
    using li(2) D(3,5) L' by (fastforce simp: timed_ok_def timed_event_ok_def mem_bt_values source_of_find)
  moreover have "fresh_rng L' (stl r)"
  proof (rule fresh_rng_stl [OF fr])
    have "set (bt_values (ql_sources L')) = insert src (set (bt_values (ql_sources L)))"
      using D(1) by (simp add: bt_values_def)
    then show "used_ids L' \<subseteq> insert (shd r) (used_ids L)" using ref L' by (auto simp: used_ids_def)
  qed
  ultimately show ?thesis by (simp add: state_inv_def)
qed

definition registered_source :: "string \<Rightarrow> string \<Rightarrow> string \<Rightarrow> QuotaSourceFence \<Rightarrow> QuotaCycleSource" where
  "registered_source ref provider_type bucket fence =
     \<lparr>qs_source_ref = ref, qs_source_epoch = 1, qs_provider_type = provider_type, qs_bucket_id = bucket, qs_fence = fence,
      qs_cycle = None, qs_next_boundary_ms = None, qs_last_observed_at_ms = 0\<rparr>"

lemma register_new_source:
  assumes inv: "state_inv (L, r)" and provider: "provider_type \<noteq> []" and guard: "identity \<noteq> []" "bucket \<noteq> []"
    and new: "bt_get (ql_sources L) identity = None" and valid: "validate L = Ok ()"
    and res: "register_source L r identity provider_type bucket fence = (L', r', Ok ref)"
    and src: "src = registered_source (shd r) provider_type bucket fence"
  shows "state_inv (L', r') \<and> find_source L' ref = Some (identity, src)"
proof -
  from new res valid guard have L': "ql_sources L' = bt_insert identity src (bt_insert identity src (ql_sources L))"
    "ql_events L' = ql_events L" "ql_corrections L' = ql_corrections L" "same_rest L L'"
    and r': "r' = stl r" and ref: "ref = shd r"
    by (auto simp: register_source_def bt_contains_def src registered_source_def ledger_updates Let_def split: option.splits)
  have wf: "bt_wf (ql_sources L)" using inv by (simp add: state_inv_def ledger_inv_def maps_wf_def)
  then have L1: "ql_sources L' = bt_insert identity src (ql_sources L)"
    unfolding L'(1) by (intro bt_insert_same) simp_all
  have "source_entry_ok identity src"
    using fresh_rng_shd [of L r] inv guard provider by (simp add: src registered_source_def source_entry_ok_def state_inv_def)
  then have add: "source_added L L' identity src"
    using new L1 L'(2-4) by (simp add: source_added_def bt_contains_def src registered_source_def)
  have st: "state_inv (L', r')"
    unfolding r' by (rule state_inv_new_source [OF inv add]) (simp add: src registered_source_def)
  then have "distinct (map (qs_source_ref \<circ> snd) (ql_sources L'))" by (simp add: state_inv_def ledger_inv_refs)
  moreover have "(identity, src) \<in> set (ql_sources L')" using wf by (simp add: L1 mem_bt_insert)
  ultimately have "find_source L' ref = Some (identity, src)"
    by (simp add: find_source_iff ref src registered_source_def)
  with st show ?thesis by simp
qed

lemma register_known_source:
  assumes inv: "state_inv (L, r)" and guard: "identity \<noteq> []" "bucket \<noteq> []"
    and known: "bt_get (ql_sources L) identity = Some s" and valid: "validate L = Ok ()"
    and res: "register_source L r identity provider_type bucket fence = (L', r', Ok ref)"
  shows "state_inv (L', r') \<and> find_source L' ref = Some (identity, s\<lparr>qs_fence := fence\<rparr>) \<and>
    qs_provider_type s = provider_type \<and> qs_bucket_id s = bucket"
proof -
  have li: "ledger_inv L" using inv by (simp add: state_inv_def)
  have found: "find_source L (qs_source_ref s) = Some (identity, s)"
    using known li by (simp add: find_source_iff [OF ledger_inv_refs] bt_get_Some_mem)
  note fs = found_source [OF li found]
  let ?s = "s\<lparr>qs_fence := fence\<rparr>"
  have put: "put_source identity s L = L" using fs(7) by (simp add: put_source_def)
  from known res valid guard put have r': "r' = r" and ref: "ref = qs_source_ref s"
    and scope: "qs_provider_type s = provider_type" "qs_bucket_id s = bucket"
    and L': "L' = L \<and> qs_fence s = fence \<or> L' = (put_source identity ?s L)\<lparr>ql_revision := ql_revision L + 1\<rparr>"
    by (auto simp: register_source_def bt_contains_def Let_def put_source_def split: if_splits option.splits)
  from L' show ?thesis
  proof
    assume "L' = L \<and> qs_fence s = fence"
    moreover from this have "?s = s" by (cases s) simp
    ultimately show ?thesis using inv found scope r' ref by simp
  next
    assume L1: "L' = (put_source identity ?s L)\<lparr>ql_revision := ql_revision L + 1\<rparr>"
    have "validate_cycle L ?s = Ok ()"
      using fs(4) by (auto simp: validate_cycle_def valid_cycle_def split: option.splits if_splits)
    then have "state_inv (L', r)"
      using fs(3) by (intro state_inv_put_source [OF inv found, where src' = ?s])
        (simp_all add: L1 ledger_updates source_entry_ok_def option.rel_refl)
    moreover have "find_source L' ref = Some (identity, ?s)"
      using find_source_put_source [OF li found, of ?s] by (simp add: L1 ref find_source_def)
    ultimately show ?thesis using scope r' by simp
  qed
qed

lemma register_source_state:
  assumes inv: "state_inv (L, r)" and provider: "provider_type \<noteq> []"
    and res: "register_source L r identity provider_type bucket fence = (L', r', Ok ref)"
  shows "state_inv (L', r')"
    and "\<exists>s. find_source L' ref = Some (identity, s) \<and> qs_fence s = fence \<and>
      qs_provider_type s = provider_type \<and> qs_bucket_id s = bucket"
proof -
  from res have guard: "identity \<noteq> []" "bucket \<noteq> []"
    by (auto simp: register_source_def split: sum.splits if_splits)
  have valid: "validate L = Ok ()" using inv by (simp add: validate_iff state_inv_def ledger_inv_def)
  have "state_inv (L', r') \<and> (\<exists>s. find_source L' ref = Some (identity, s) \<and> qs_fence s = fence \<and>
      qs_provider_type s = provider_type \<and> qs_bucket_id s = bucket)"
  proof (cases "bt_get (ql_sources L) identity")
    case None
    from register_new_source [OF inv provider guard None valid res refl] show ?thesis by (simp add: registered_source_def)
  next
    case (Some s)
    from register_known_source [OF inv guard Some valid res] show ?thesis by simp
  qed
  then show "state_inv (L', r')"
    and "\<exists>s. find_source L' ref = Some (identity, s) \<and> qs_fence s = fence \<and>
      qs_provider_type s = provider_type \<and> qs_bucket_id s = bucket" by simp_all
qed

subsection \<open>Redemption\<close>

text \<open>
  The operations the server begins: an intent with identifiers of its own, whose request is
  not that of another operation.
\<close>

definition redeem_intent :: "QuotaCycleLedger \<Rightarrow> ResetCreditOperation \<Rightarrow> bool" where
  "redeem_intent L x \<longleftrightarrow> rc_operation_id x \<noteq> [] \<and> rc_request_id x \<noteq> [] \<and>
     0 \<le> rc_created_at_ms x \<and> rc_confirmed_at_ms x = None \<and> rc_status x = IntentDurable \<and>
     (\<forall>y \<in> set (bt_values (ql_operations L)). rc_operation_id y \<noteq> rc_operation_id x \<longrightarrow>
        rc_request_id y \<noteq> rc_request_id x)"

definition operation_added :: "QuotaCycleLedger \<Rightarrow> ResetCreditOperation \<Rightarrow> QuotaCycleLedger" where
  "operation_added L x = bump_revision (L\<lparr>ql_operations := bt_insert (rc_operation_id x) x (ql_operations L)\<rparr>)"

lemma operation_added_simps [simp]:
  "ql_events (operation_added L x) = ql_events L" "ql_sources (operation_added L x) = ql_sources L"
  "ql_corrections (operation_added L x) = ql_corrections L"
  "ql_schema_version (operation_added L x) = ql_schema_version L"
  "ql_stream_incarnation (operation_added L x) = ql_stream_incarnation L"
  "ql_public_cursor (operation_added L x) = ql_public_cursor L" "ql_public_events (operation_added L x) = ql_public_events L"
  "ql_public_status_cursor (operation_added L x) = ql_public_status_cursor L"
  "ql_operations (operation_added L x) = bt_insert (rc_operation_id x) x (ql_operations L)"
  "find_source (operation_added L x) ref = find_source L ref" "source (operation_added L x) ref = source L ref"
  "validate_cycle (operation_added L x) s = validate_cycle L s"
  "valid_operation (operation_added L x) k z = valid_operation L k z"
  "validate_receipt (operation_added L x) z = validate_receipt L z"
  by (cases "qs_cycle s"; simp add: operation_added_def bump_revision_def find_source_def source_of_find
      validate_cycle_def valid_cycle_def valid_operation_def validate_receipt_def)+

lemma operation_added_ok:
  assumes ok: "operations_ok L" and intent: "redeem_intent L x" and src: "source L (rc_source_ref x) = Some src"
    and new: "bt_get (ql_operations L) (rc_operation_id x) = None"
  shows "operations_ok (operation_added L x)"
proof -
  have new: "\<not> bt_contains (ql_operations L) (rc_operation_id x)" using new by (simp add: bt_contains_def)
  have unused: "rc_request_id z \<noteq> rc_request_id x" if "(k, z) \<in> set (ql_operations L)" for k z
  proof -
    from ok that have "k = rc_operation_id z" by (auto simp: operations_ok_def valid_operation_def)
    with that new have "rc_operation_id z \<noteq> rc_operation_id x" by (auto simp: bt_contains_iff) force
    with intent that show ?thesis by (auto simp: redeem_intent_def mem_bt_values)
  qed
  have "distinct (map (rc_request_id \<circ> snd) (bt_insert (rc_operation_id x) x (ql_operations L)))"
    using ok new unused by (intro distinct_map_bt_insert_new) (fastforce simp: operations_ok_def)+
  moreover have "valid_operation L (rc_operation_id x) x" "validate_receipt L x = Ok ()"
    using intent src by (simp_all add: redeem_intent_def valid_operation_def validate_receipt_def)
  ultimately show ?thesis using ok new by (auto simp: operations_ok_def set_bt_insert_new)
qed

lemma begin_redeem_state:
  assumes inv: "state_inv (L, r)" and intent: "redeem_intent L x"
    and res: "begin_redeem L x = (L', Ok y)"
  shows "state_inv (L', r)" and "bt_get (ql_operations L') (rc_operation_id x) = Some y"
proof -
  have li: "ledger_inv L" "timed_ok L" "fresh_rng L r" using inv by (simp_all add: state_inv_def)
  then have ok: "ledger_ok L" by (simp add: ledger_inv_def)
  show got: "bt_get (ql_operations L') (rc_operation_id x) = Some y"
    using res by (auto simp: begin_redeem_def bump_revision_def split: option.splits if_splits)
  show "state_inv (L', r)"
  proof (cases "bt_get (ql_operations L) (rc_operation_id x)")
    case (Some p)
    with res inv show ?thesis by (auto simp: begin_redeem_def split: option.splits if_splits)
  next
    case None
    with res obtain src where src: "source L (rc_source_ref x) = Some src" and L': "L' = operation_added L x"
      by (auto simp: begin_redeem_def operation_added_def split: option.splits if_splits)
    have "operations_ok L'" using operation_added_ok [OF _ intent src None] ok by (simp add: L' ledger_ok_def)
    moreover have "corrections_ok L'"
      by (rule corrections_ok_mono [of L]) (use ok in \<open>auto simp: L' ledger_ok_def\<close>)
    ultimately have "ledger_inv L'"
      using li(1) ok by (simp add: L' ledger_inv_def ledger_ok_def sources_ok_def events_ok_def maps_wf_def
          refs_colon_free_def events_have_cycle_def public_ok_def)
    with li(2,3) show ?thesis
      by (simp add: L' state_inv_def timed_ok_def timed_event_ok_def fresh_rng_def used_ids_def)
  qed
qed

subsection \<open>All operations\<close>

text \<open>
  The server runs every operation on a copy of the ledger and keeps the copy only when the
  operation succeeds, so a step is a successful operation. Events from outside have names of
  their own (\<open>redeem:\<close> and \<open>public:\<close>), and the clock does not run backwards.
\<close>

inductive cycle_step :: "QuotaCycleLedger \<times> rng \<Rightarrow> QuotaCycleLedger \<times> rng \<Rightarrow> bool" where
  register: "register_source L r identity provider bucket fence = (L', r', Ok ref) \<Longrightarrow>
    provider \<noteq> [] \<Longrightarrow> cycle_step (L, r) (L', r')"
| reset: "apply_reset L r ref fence eid eff disc basis = (L', r', Ok changed) \<Longrightarrow>
    external_id eid \<Longrightarrow> clock_ok L ref disc \<Longrightarrow> cycle_step (L, r) (L', r')"
| report: "observe L r ref fence ob = Some (L', r', Ok changed) \<Longrightarrow>
    in_i64 (ob_ends_at_ms ob) \<Longrightarrow> cycle_step (L, r) (L', r')"
| due: "advance_due L r now = (L', r', Ok changed) \<Longrightarrow> (\<forall>ref. clock_ok L ref now) \<Longrightarrow>
    cycle_step (L, r) (L', r')"
| source_due: "advance_source_due L r ref now = (L', r', Ok changed) \<Longrightarrow> clock_ok L ref now \<Longrightarrow>
    boundaries_i64 L \<Longrightarrow> cycle_step (L, r) (L', r')"
| redeem: "begin_redeem L x = (L', Ok y) \<Longrightarrow> redeem_intent L x \<Longrightarrow> cycle_step (L, r) (L', r)"

inductive_cases cycle_stepE: "cycle_step (L, r) S"

definition cycle_start :: "QuotaCycleLedger \<times> rng \<Rightarrow> bool" where
  "cycle_start S \<longleftrightarrow> (\<exists>r. S = default_ledger r \<and> inj (snth r) \<and>
     (\<forall>x \<in> sset r. x \<noteq> [] \<and> colon_free x))"

lemma cycle_start_inv: "cycle_start S \<Longrightarrow> state_inv S"
proof -
  assume "cycle_start S"
  then obtain r where S: "S = default_ledger r" and r: "inj (snth r)" "\<forall>x \<in> sset r. x \<noteq> [] \<and> colon_free x"
    by (auto simp: cycle_start_def)
  have L: "ledger_inv (fst S)" "timed_ok (fst S)"
    using r shd_sset [of r]
    by (auto simp: S default_ledger_def ledger_inv_def ledger_ok_def sources_ok_def events_ok_def
        corrections_ok_def applied_agrees_def operations_ok_def public_ok_def valid_cursor_def
        default_cursor_def maps_wf_def refs_colon_free_def events_have_cycle_def bt_values_def timed_ok_def)
  have "fresh_rng (fst S) r" using r by (simp add: fresh_rng_def S default_ledger_def used_ids_def bt_values_def)
  then have "fresh_rng (fst S) (stl r)" by (rule fresh_rng_stl) auto
  with L show ?thesis by (simp add: state_inv_def S default_ledger_def)
qed

lemma cycle_step_inv: "state_inv S \<Longrightarrow> cycle_step S S' \<Longrightarrow> state_inv S'"
proof (erule cycle_step.cases, goal_cases register reset report due source_due redeem)
  case (report L r ref fence ob L' r' changed)
  with observe_run [of L r ob ref fence] show ?case by auto
qed (auto intro: register_source_state apply_reset_state [OF _ external_id_ok] advance_due_state
    advance_source_due_state begin_redeem_state)

interpretation cycles: transition_system cycle_start cycle_step state_inv
  by unfold_locales (fact cycle_start_inv, fact cycle_step_inv)

subsection \<open>Replays\<close>

lemma earlier_boundary_ignores:
  assumes wf: "bt_wf (ql_events L)" and known: "bt_get (ql_events L) k = Some p"
    and L': "ql_events L' = bt_insert k p' (ql_events L)"
    and own: "ev_cycle_id p = cy_cycle_id c" "ev_cycle_id p' = cy_cycle_id c"
  shows "earlier_boundary L' ref c = earlier_boundary L ref c"
proof -
  let ?old = "\<lambda>e. ev_source_ref e = ref \<and> ev_status e = Committed \<and>
    ev_cycle_id e \<noteq> cy_cycle_id c \<and> ev_effective_at_ms e < cy_starts_at_ms c"
  have "?old x \<and> x \<in> set (bt_values (ql_events L')) \<longleftrightarrow> ?old x \<and> x \<in> set (bt_values (ql_events L))" for x
  proof (cases "x = p \<or> x = p'")
    case True
    with own show ?thesis by auto
  next
    case False
    have wf': "bt_wf (ql_events L')" using wf by (simp add: L')
    have "bt_get (ql_events L') j = Some x \<longleftrightarrow> bt_get (ql_events L) j = Some x" for j
      using False known by (auto simp: L')
    then show ?thesis by (auto simp: mem_bt_values bt_get_iff_mem [OF wf] bt_get_iff_mem [OF wf'])
  qed
  then have same: "set (filter ?old (bt_values (ql_events L'))) = set (filter ?old (bt_values (ql_events L)))"
    by auto
  have "filter ?old (bt_values (ql_events L')) = [] \<longleftrightarrow> filter ?old (bt_values (ql_events L)) = []"
    unfolding set_empty [symmetric] same by (rule refl)
  with same show ?thesis by (simp only: earlier_boundary_def max_opt_def map_is_Nil_conv set_map)
qed

text \<open>The same event again, discovered at another time or from another basis.\<close>

lemma correct_reset_replay:
  assumes inv: "ledger_inv L" and found: "find_source L ref = Some (i, src)"
    and cyc: "qs_cycle src = Some c"
    and known: "bt_get (ql_events L) (event_key ref eid) = Some p"
    and res: "correct_reset L r i src c ref p eid eff disc basis = (L', r', res)"
  shows "\<exists>c' p'. find_source L' ref = Some (i, src\<lparr>qs_cycle := Some c'\<rparr>) \<and>
    bt_get (ql_events L') (event_key ref eid) = Some p' \<and>
    correct_reset L' r' i (src\<lparr>qs_cycle := Some c'\<rparr>) c' ref p' eid eff disc' basis' = (L', r', Ok False)"
  using inv found cyc res refl
proof (cases rule: correct_reset_cases)
  case same
  have "src\<lparr>qs_cycle := Some c\<rparr> = src" using cyc by (cases src) simp
  moreover have "correct_reset L r i src c ref p eid eff disc' basis' = (L, r, Ok False)"
    using same(4) by (auto simp: correct_reset_def Let_def correction_of_def same_correction_def)
  ultimately show ?thesis using same found known by (intro exI [of _ c] exI [of _ p]) simp
next
  case moved
  let ?a = "correction_applies L ref c p eid eff"
  let ?c = "corrected_cycle ?a eff disc basis c" and ?p = "corrected_event ?a eff disc p"
  let ?k = "correction_of (event_key ref eid) p eff ?a disc"
  have "find_source L' ref = Some (i, src\<lparr>qs_cycle := Some ?c\<rparr>)"
    using find_source_put(1) [OF inv found _ moved(4), of ref] found_source(2) [OF inv found] by simp
  moreover have "correct_reset L' r' i (src\<lparr>qs_cycle := Some ?c\<rparr>) ?c ref ?p eid eff disc' basis' = (L', r', Ok False)"
  proof (cases ?a)
    case True
    then show ?thesis by (simp add: correct_reset_def corrected_event_def)
  next
    case False
    have wf: "bt_wf (ql_events L)" using inv by (simp add: ledger_inv_def maps_wf_def)
    from False moved(5) have "ql_events L' = bt_insert (event_key ref eid) (p\<lparr>ev_status := NeedsReconcile\<rparr>) (ql_events L)"
      by (simp add: corrected_event_def)
    with False have "\<not> correction_applies L' ref c (p\<lparr>ev_status := NeedsReconcile\<rparr>) eid eff"
      using earlier_boundary_ignores [OF wf known, of L' _ c ref] by (auto simp: correction_applies_def)
    moreover have "?k \<in> set (ql_corrections L')" by (simp add: moved(6))
    ultimately show ?thesis
      using False by (auto simp: correct_reset_def Let_def corrected_event_def corrected_cycle_def correction_of_def
          same_correction_def intro!: bexI [of _ ?k])
  qed
  ultimately show ?thesis using moved(5) by auto
qed

lemma apply_reset_known:
  assumes "find_source L ref = Some (i, src)" "qs_fence src = fence" "qs_cycle src = Some c"
    "bt_get (ql_events L) (event_key ref eid) = Some p"
    "eid \<noteq> []" "length eid \<le> 256" "0 \<le> eff" "eff \<le> disc"
  shows "apply_reset L r ref fence eid eff disc basis = correct_reset L r i src c ref p eid eff disc basis"
  using assms by (simp add: apply_reset_def)

lemma apply_reset_replay_aux:
  assumes inv: "ledger_inv L" and later: "eff \<le> disc'"
    and res: "apply_reset L r ref fence eid eff disc basis = (L', r', Ok b)"
  shows "apply_reset L' r' ref fence eid eff disc' basis' = (L', r', Ok False)"
proof -
  from res have guard: "eid \<noteq> []" "length eid \<le> 256" "0 \<le> eff" "eff \<le> disc"
    by (auto simp: apply_reset_def split: if_splits)
  with res obtain i src where found: "find_source L ref = Some (i, src)" and fence: "qs_fence src = fence"
    by (auto simp: apply_reset_def split: if_splits option.splits)
  note fs = found_source [OF inv found]
  show ?thesis
  proof (cases "\<exists>c p. qs_cycle src = Some c \<and> bt_get (ql_events L) (event_key ref eid) = Some p")
    case True
    then obtain c p where cyc: "qs_cycle src = Some c"
      and known: "bt_get (ql_events L) (event_key ref eid) = Some p" by auto
    from res apply_reset_known [OF found fence cyc known guard]
    have "correct_reset L r i src c ref p eid eff disc basis = (L', r', Ok b)" by simp
    from correct_reset_replay [OF inv found cyc known this, of disc' basis'] obtain c' p' where
      "find_source L' ref = Some (i, src\<lparr>qs_cycle := Some c'\<rparr>)"
      "bt_get (ql_events L') (event_key ref eid) = Some p'"
      "correct_reset L' r' i (src\<lparr>qs_cycle := Some c'\<rparr>) c' ref p' eid eff disc' basis' = (L', r', Ok False)"
      by blast
    then show ?thesis using fence guard(1-3) later by (simp add: apply_reset_def)
  next
    case False
    have "\<exists>c e. ql_sources L' = bt_insert i (src\<lparr>qs_cycle := Some c\<rparr>) (ql_sources L) \<and>
      bt_get (ql_events L') (event_key ref eid) = Some e \<and> ev_effective_at_ms e = eff"
    proof (cases "qs_cycle src")
      case None
      with res found fence guard show ?thesis
        by (auto simp: apply_reset_def open_first_cycle_def Let_def ledger_updates)
    next
      case (Some c)
      with False have unknown: "bt_get (ql_events L) (event_key ref eid) = None" by auto
      have "src\<lparr>qs_cycle := Some c\<rparr> = src" using Some by (cases src) simp
      with fs(7) have same: "ql_sources L = bt_insert i (src\<lparr>qs_cycle := Some c\<rparr>) (ql_sources L)" by simp
      from res found fence guard Some unknown show ?thesis
        by (cases "cy_starts_at_ms c < eff")
          (auto simp: apply_reset_def new_reset_def Let_def ledger_updates same [symmetric]
            intro: exI [of _ c] split: option.splits)
    qed
    then obtain c e where srcs: "ql_sources L' = bt_insert i (src\<lparr>qs_cycle := Some c\<rparr>) (ql_sources L)"
      and e: "bt_get (ql_events L') (event_key ref eid) = Some e" "ev_effective_at_ms e = eff" by blast
    have "find_source L' ref = Some (i, src\<lparr>qs_cycle := Some c\<rparr>)"
      using find_source_put(1) [OF inv found _ srcs, of ref] fs(2) by simp
    with e fence guard(1-3) later show ?thesis by (simp add: apply_reset_def correct_reset_def)
  qed
qed

subsection \<open>A concrete run\<close>

text \<open>
  One account, registered, then observed in the window \<open>[1000, 9000)\<close> at 2000. The
  identifiers are \<open>a\<close>, \<open>aa\<close>, \<open>aaa\<close> and so on.
\<close>

definition demo_rng :: rng where
  "demo_rng = siterate (Cons (CHR ''a'')) ''a''"

definition demo_fence :: QuotaSourceFence where
  "demo_fence = \<lparr>qf_account_incarnation = 1, qf_identity_generation = 1,
     qf_credential_generation = 1, qf_quota_credential_generation = 1\<rparr>"

definition demo_registered :: "QuotaCycleLedger \<times> rng \<times> string res" where
  "demo_registered = (case default_ledger demo_rng of (L, r) \<Rightarrow>
     register_source L r ''codex:1'' ''codex'' ''weekly'' demo_fence)"

definition demo_report :: "int \<Rightarrow> int \<Rightarrow> int \<Rightarrow> QuotaWindowObservation" where
  "demo_report start ends at = \<lparr>ob_bucket_id = ''weekly'', ob_starts_at_ms = Some start,
     ob_ends_at_ms = ends, ob_duration_ms = None, ob_observed_at_ms = at,
     ob_basis = UpstreamWindow\<rparr>"

definition demo_ledger :: QuotaCycleLedger where
  "demo_ledger = fst demo_registered"

definition demo_source :: QuotaCycleSource where
  "demo_source = \<lparr>qs_source_ref = ''aa'', qs_source_epoch = 1, qs_provider_type = ''codex'',
     qs_bucket_id = ''weekly'', qs_fence = demo_fence, qs_cycle = None,
     qs_next_boundary_ms = None, qs_last_observed_at_ms = 0\<rparr>"

lemma replicate_funpow: "(Cons a ^^ n) xs = replicate n a @ xs"
  by (induction n) simp_all

lemma demo_rng_ok: "inj (snth demo_rng)" "\<forall>x \<in> sset demo_rng. x \<noteq> [] \<and> colon_free x"
proof -
  have snth: "snth demo_rng n = replicate (Suc n) (CHR ''a'')" for n
    by (simp add: demo_rng_def replicate_funpow replicate_append_same)
  show "inj (snth demo_rng)" unfolding snth inj_def by (auto dest: arg_cong [of _ _ length] simp del: replicate.simps)
  show "\<forall>x \<in> sset demo_rng. x \<noteq> [] \<and> colon_free x"
    by (auto simp: sset_range snth colon_free_def)
qed

lemma demo_start: "cycle_start (default_ledger demo_rng)"
  using demo_rng_ok by (auto simp: cycle_start_def)

lemma demo_registered_eq:
  "demo_registered = (demo_ledger, stl (stl demo_rng), Ok ''aa'')"
  "ql_sources demo_ledger = [(''codex:1'', demo_source)]" "ql_events demo_ledger = []"
  by (simp_all add: demo_ledger_def demo_registered_def default_ledger_def register_source_def validate_def
      QUOTA_CYCLE_SCHEMA_def demo_rng_def applied_agrees_def valid_cursor_def default_cursor_def
      bt_contains_def Let_def put_source_def demo_source_def checked_add_u64_def checked_unsigned_def
      u64_max_def)

lemma demo_step: "cycle_step (default_ledger demo_rng) (demo_ledger, stl (stl demo_rng))"
  using demo_registered_eq(1)
  by (auto simp: demo_registered_def default_ledger_def intro: cycle_step.register)

lemma demo_reach: "cycle_step\<^sup>*\<^sup>* (default_ledger demo_rng) (demo_ledger, stl (stl demo_rng))"
  using demo_step by (rule r_into_rtranclp)

lemma demo_inv: "state_inv (demo_ledger, stl (stl demo_rng))"
  by (rule cycles.reachable_inv [OF demo_start demo_reach])

lemma demo_found: "find_source demo_ledger ''aa'' = Some (''codex:1'', demo_source)"
  by (simp add: find_source_def bt_find_def demo_registered_eq demo_source_def)

definition demo_cycle :: AccountQuotaCycle where
  "demo_cycle = \<lparr>cy_stream_incarnation = ''a'', cy_source_ref = ''aa'', cy_source_epoch = 1,
     cy_bucket_id = ''weekly'', cy_cycle_id = ''aaa'', cy_cycle_sequence = 1,
     cy_cycle_revision = 1, cy_starts_at_ms = 1000, cy_ends_at_ms = Some 9000,
     cy_basis = UpstreamWindow, cy_observed_at_ms = 2000, cy_event_id = ''initial:9000''\<rparr>"

definition demo_event :: QuotaResetEvent where
  "demo_event = \<lparr>ev_event_id = ''initial:9000'', ev_source_ref = ''aa'', ev_bucket_id = ''weekly'',
     ev_effective_at_ms = 1000, ev_discovered_at_ms = 2000, ev_basis = UpstreamWindow,
     ev_status = Committed, ev_cycle_id = ''aaa''\<rparr>"

definition demo_observed :: QuotaCycleLedger where
  "demo_observed = bump_revision (put_event ''aa:initial:9000'' demo_event
     (put_source ''codex:1'' ((noted demo_source (demo_report 1000 9000 2000))\<lparr>qs_cycle := Some demo_cycle\<rparr>)
       (note_observation ''codex:1'' demo_source (demo_report 1000 9000 2000) demo_ledger)))"

lemma demo_stream: "ql_stream_incarnation demo_ledger = ''a''"
  by (simp add: demo_ledger_def demo_registered_def default_ledger_def register_source_def validate_def
      QUOTA_CYCLE_SCHEMA_def demo_rng_def applied_agrees_def valid_cursor_def default_cursor_def
      bt_contains_def Let_def put_source_def checked_add_u64_def checked_unsigned_def u64_max_def)

lemma show_nat_9000: "show_nat 9000 = ''9000''"
  by (simp add: show_nat.simps digit_chars)

lemma demo_observe_eq:
  "observe demo_ledger (stl (stl demo_rng)) ''aa'' demo_fence (demo_report 1000 9000 2000) =
   Some (demo_observed, stl (stl (stl demo_rng)), Ok True)"
  by (subst observe.simps)
    (simp add: observe_once_def demo_report_def validate_end_def checked_i64_def in_i64_def int_limits
      inferred_start_def start_of_def candidate_start_def demo_found demo_source_def Let_def
      initial_cycle_def demo_observed_def note_observation_def demo_cycle_def demo_event_def
      demo_rng_def show_int_def show_nat_9000 event_key_def bump_revision_def put_source_def
      demo_stream)

lemma demo_observed_step: "cycle_step (demo_ledger, stl (stl demo_rng)) (demo_observed, stl (stl (stl demo_rng)))"
  using demo_observe_eq
  by (rule cycle_step.report) (simp add: demo_report_def in_i64_def int_limits)

lemma demo_observed_reach:
  "cycle_step\<^sup>*\<^sup>* (default_ledger demo_rng) (demo_observed, stl (stl (stl demo_rng)))"
  using demo_reach demo_observed_step by (rule rtranclp.rtrancl_into_rtrancl)

lemma demo_observed_sources:
  "ql_sources demo_observed = [(''codex:1'', (noted demo_source (demo_report 1000 9000 2000))\<lparr>qs_cycle := Some demo_cycle\<rparr>)]"
  by (simp add: demo_observed_def note_observation_def demo_registered_eq ledger_updates Let_def)

lemma demo_found_observed:
  "find_source demo_observed ''aa'' = Some (''codex:1'',
     (noted demo_source (demo_report 1000 9000 2000))\<lparr>qs_cycle := Some demo_cycle\<rparr>)"
  by (simp add: find_source_def bt_find_def demo_observed_sources demo_source_def)

lemma demo_observed_events: "ql_events demo_observed = [(''aa:initial:9000'', demo_event)]"
  by (simp add: demo_observed_def note_observation_def demo_registered_eq ledger_updates Let_def)

lemma demo_clock: "\<forall>ref. clock_ok demo_observed ref 10000"
  by (simp add: clock_ok_def source_def find_source_def bt_find_def demo_observed_sources demo_cycle_def)

lemma demo_advance: "\<exists>L' r'. advance_due demo_observed (stl (stl (stl demo_rng))) 10000 = (L', r', Ok True)"
  by (simp add: advance_due_def due_sources_def demo_observed_sources bt_values_def map_filter_simps
      elapsed_boundary_def demo_cycle_def demo_source_def apply_reset_def demo_found_observed
      natural_event_id_def show_int_def show_nat_9000 demo_observed_events bt_get_Cons event_key_def
      new_reset_def Let_def checked_add_u64_def checked_unsigned_def u64_max_def)

lemma demo_reset: "\<exists>L' r'. apply_reset demo_observed (stl (stl (stl demo_rng))) ''aa'' demo_fence
    ''redeem:1'' 5000 6000 RedeemConfirmation = (L', r', Ok True)"
  by (simp add: apply_reset_def demo_found_observed demo_source_def demo_observed_events bt_get_Cons
      event_key_def new_reset_def Let_def demo_cycle_def checked_add_u64_def checked_unsigned_def u64_max_def)

subsection \<open>Properties\<close>

text \<open>
  C1. Every ledger the server can reach from a fresh one by successful registrations,
  resets, window reports, due boundaries and redemptions passes \<open>validate\<close>: the persisted
  file is never one that the next start refuses.
\<close>

theorem cycle_ledger_valid:
  assumes "cycle_start S" and "cycle_step\<^sup>*\<^sup>* S T"
  shows "validate (fst T) = Ok ()"
  using cycles.reachable_inv [OF assms] by (simp add: state_inv_def ledger_inv_def validate_iff)

theorem cycle_ledger_valid_witness:
  "validate demo_observed = Ok () \<and> ql_sources demo_observed \<noteq> [] \<and> ql_events demo_observed \<noteq> []"
  using cycle_ledger_valid [OF demo_start demo_observed_reach]
  by (simp add: demo_observed_sources demo_observed_def put_event_def put_source_def bump_revision_def
      note_observation_def demo_registered_eq Let_def)

text \<open>
  C2. \<open>observe\<close> calls itself after each reset it applies, yet on every reachable ledger it
  returns, whatever the source, the fence and the report.
\<close>

theorem observe_returns:
  assumes "cycle_start S" and "cycle_step\<^sup>*\<^sup>* S (L, r)" and "in_i64 (ob_ends_at_ms ob)"
  shows "\<exists>L' r' result. observe L r ref fence ob = Some (L', r', result)"
  using observe_run [OF cycles.reachable_inv [OF assms(1,2)] assms(3)] by blast

theorem observe_returns_witness:
  "\<exists>L' r' result. observe demo_observed (stl (stl (stl demo_rng))) ''aa'' demo_fence
     (demo_report 9500 20000 10000) = Some (L', r', result)"
  by (rule observe_returns [OF demo_start demo_observed_reach])
    (simp add: demo_report_def in_i64_def int_limits)

text \<open>
  C38. A report that \<open>observe\<close> accepts is caught up with: the source remembers its end and
  its time, and the current cycle, if there is one, contains the instant of the report and
  ends where the report says, however many boundaries had to be crossed to get there.
\<close>

theorem observe_catches_up:
  assumes "cycle_start S" and "cycle_step\<^sup>*\<^sup>* S (L, r)" and "in_i64 (ob_ends_at_ms ob)"
    and "observe L r ref fence ob = Some (L', r', Ok True)"
  shows "\<exists>s. source L' ref = Some s \<and> qs_next_boundary_ms s = Some (ob_ends_at_ms ob) \<and>
    qs_last_observed_at_ms s = ob_observed_at_ms ob \<and>
    (\<forall>c. qs_cycle s = Some c \<longrightarrow> cycle_contains c (ob_observed_at_ms ob) \<and>
       cy_ends_at_ms c = Some (ob_ends_at_ms ob))"
  using observe_run [OF cycles.reachable_inv [OF assms(1,2)] assms(3), of ref fence] assms(4)
  by (auto simp: caught_up_def)

theorem observe_catches_up_witness:
  "\<exists>s. source demo_observed ''aa'' = Some s \<and> qs_next_boundary_ms s = Some 9000 \<and>
     qs_last_observed_at_ms s = 2000 \<and>
     (\<forall>c. qs_cycle s = Some c \<longrightarrow> cycle_contains c 2000 \<and> cy_ends_at_ms c = Some 9000)"
  using observe_catches_up [OF demo_start demo_reach _ demo_observe_eq]
  by (simp add: demo_report_def in_i64_def int_limits)

text \<open>
  C4. After \<open>advance_due\<close> no cycle that has elapsed is left current, and every source whose
  cycle had elapsed is in a new cycle that starts exactly where the old one ended.
\<close>

theorem advance_due_settles:
  assumes "cycle_start S" and "cycle_step\<^sup>*\<^sup>* S (L, r)" and "\<forall>ref. clock_ok L ref now"
    and "advance_due L r now = (L', r', Ok changed)"
  shows "due_sources L' now = [] \<and>
    (\<forall>ref s c e. source L ref = Some s \<longrightarrow> qs_cycle s = Some c \<longrightarrow> cy_ends_at_ms c = Some e \<longrightarrow>
       e \<le> now \<longrightarrow> (\<exists>c'. source L' ref = Some (s\<lparr>qs_cycle := Some c'\<rparr>) \<and>
         cy_starts_at_ms c' = e \<and> cy_ends_at_ms c' = None \<and>
         cy_cycle_sequence c' = cy_cycle_sequence c + 1))"
proof -
  note inv = cycles.reachable_inv [OF assms(1,2)]
  then have li: "ledger_inv L" by (simp add: state_inv_def)
  have clock: "clock_ok L ref now" for ref using assms(3) by blast
  note due = due_sources_entries [OF li clock]
  note all = advance_all_state [OF inv due(1,2) assms(4) [unfolded advance_due_def]]
  have "\<exists>c'. source L' ref = Some (s\<lparr>qs_cycle := Some c'\<rparr>) \<and> cy_starts_at_ms c' = e \<and>
      cy_ends_at_ms c' = None \<and> cy_cycle_sequence c' = cy_cycle_sequence c + 1"
    if s: "source L ref = Some s" and c: "qs_cycle s = Some c" "cy_ends_at_ms c = Some e" "e \<le> now"
    for ref s c e
  proof -
    from s obtain i where f: "find_source L ref = Some (i, s)" by (auto simp: source_of_find)
    from c have "elapsed_boundary c now = Some e" by (simp add: elapsed_boundary_def)
    from due(3) [OF f c(1) this] all f c(1) show ?thesis
      by (force simp: successor_def source_of_find)
  qed
  with advance_due_state(2) [OF inv clock assms(4)] show ?thesis by blast
qed

theorem advance_due_settles_witness:
  "\<exists>L' r'. advance_due demo_observed (stl (stl (stl demo_rng))) 10000 = (L', r', Ok True) \<and>
     due_sources L' 10000 = []"
  using demo_advance advance_due_settles [OF demo_start demo_observed_reach demo_clock] by blast

text \<open>
  Resets are idempotent: once \<open>apply_reset\<close> has accepted an event (opened a cycle with
  it, filed it as history, corrected the start, or set the correction aside), reporting the
  same event at the same time again returns \<open>false\<close> and changes nothing, whenever it is
  discovered again and on whatever basis.
\<close>

theorem apply_reset_replay:
  assumes "cycle_start S" and "cycle_step\<^sup>*\<^sup>* S (L, r)" and "effective \<le> discovered'"
    and "apply_reset L r ref fence event_id effective discovered basis = (L', r', Ok changed)"
  shows "apply_reset L' r' ref fence event_id effective discovered' basis' = (L', r', Ok False)"
  using cycles.reachable_inv [OF assms(1,2)] apply_reset_replay_aux [OF _ assms(3,4)]
  by (simp add: state_inv_def)

theorem apply_reset_replay_witness:
  "\<exists>L' r'. apply_reset demo_observed (stl (stl (stl demo_rng))) ''aa'' demo_fence
       ''redeem:1'' 5000 6000 RedeemConfirmation = (L', r', Ok True) \<and>
     apply_reset L' r' ''aa'' demo_fence ''redeem:1'' 5000 7000 PublicAnnouncement = (L', r', Ok False)"
  using demo_reset apply_reset_replay [OF demo_start demo_observed_reach, of 5000 7000 "''aa''"
      demo_fence "''redeem:1''" 6000 RedeemConfirmation]
  by auto

text \<open>
  C6. A caller whose view of the account is out of date (another credential generation,
  another incarnation) cannot move the cycle or spend a reset credit: a reset, a report and
  a redemption under a fence that is not the source's are refused and leave the ledger as
  it is.
\<close>

theorem stale_fence_refused:
  assumes "source L ref = Some s" and "qs_fence s \<noteq> fence"
  shows "(\<exists>e. apply_reset L r ref fence event_id effective discovered basis = (L, r, Err e)) \<and>
    (\<exists>e. observe L r ref fence ob = Some (L, r, Err e)) \<and>
    (rc_source_ref x = ref \<longrightarrow> rc_fence x = fence \<longrightarrow>
       begin_redeem L x = (L, Err ''quota_source_fence_changed''))"
proof -
  from assms obtain i where found: "find_source L ref = Some (i, s)" by (auto simp: source_of_find)
  have "\<exists>e. observe_once L r ref fence ob = Done L r (Err e)"
    using found assms(2) by (auto simp: observe_once_def split: sum.splits)
  then have "\<exists>e. observe L r ref fence ob = Some (L, r, Err e)" by (subst observe.simps) auto
  with found assms show ?thesis by (auto simp: apply_reset_def begin_redeem_def)
qed

theorem stale_fence_refused_witness:
  "\<exists>e. apply_reset demo_observed demo_rng ''aa'' (demo_fence\<lparr>qf_credential_generation := 2\<rparr>)
     ''redeem:1'' 5000 6000 RedeemConfirmation = (demo_observed, demo_rng, Err e)"
proof -
  have "source demo_observed ''aa'' = Some ((noted demo_source (demo_report 1000 9000 2000))\<lparr>qs_cycle := Some demo_cycle\<rparr>)"
    by (simp add: source_def demo_found_observed)
  from stale_fence_refused [OF this, of "demo_fence\<lparr>qf_credential_generation := 2\<rparr>"]
  show ?thesis by (simp add: demo_source_def demo_fence_def)
qed

end
