(* ===== verification/Usage_Log.thy ===== *)
theory Usage_Log
  imports Rust_Str Ordered_Map
begin

section \<open>Usage records\<close>

text \<open>
  The settled record of one request (\<open>UsageLog\<close> of \<open>src/src/domain/usage/store.rs\<close>), with
  the fields the ledgers and the health view read. The fields that are only displayed or
  exported (model names, agents, media sizes, the export cursor of the router) are left out.
\<close>

record QuotaAttribution =
  qa_source_ref :: string
  qa_source_epoch :: nat
  qa_bucket_id :: string
  qa_started_at_ms :: int

datatype UsageRecordKind = UserInference | InternalSupplemental | HealthProbe

datatype UsageState = Pending | Observed | Missing | ParseError | Interrupted | NotApplicable

record UsageLog =
  ul_request_id :: string
  ul_quota_attribution :: "QuotaAttribution option"
  ul_record_kind :: UsageRecordKind
  ul_parent_request_id :: "string option"
  ul_provider_id :: string
  ul_failure_kind :: "string option"
  ul_started_at_ms :: nat
  ul_completed_at_ms :: nat
  ul_input_tokens :: "nat option"
  ul_output_tokens :: "nat option"
  ul_cache_read_tokens :: "nat option"
  ul_cache_creation_tokens :: "nat option"
  ul_total_tokens :: "nat option"
  ul_share_id :: "string option"
  ul_user_email :: "string option"
  ul_usage_state :: UsageState
  ul_usage_revision :: nat
  ul_created_at_ms :: nat
  ul_status_code :: nat
  ul_is_health_check :: bool

definition opt0 :: "nat option \<Rightarrow> nat" where
  "opt0 x = (case x of None \<Rightarrow> 0 | Some n \<Rightarrow> n)"

definition processed_tokens :: "UsageLog \<Rightarrow> nat" where
  "processed_tokens l =
     saturating_add_u64 (saturating_add_u64 (saturating_add_u64
       (opt0 (ul_input_tokens l)) (opt0 (ul_output_tokens l)))
       (opt0 (ul_cache_read_tokens l))) (opt0 (ul_cache_creation_tokens l))"

definition quota_tokens :: "UsageLog \<Rightarrow> nat" where
  "quota_tokens l =
     (if processed_tokens l > 0 then processed_tokens l else opt0 (ul_total_tokens l))"

text \<open>The four counts are summed, never past the maximum.\<close>

lemma processed_tokens_sum:
  "processed_tokens l = min u64_max (opt0 (ul_input_tokens l) + opt0 (ul_output_tokens l) +
     opt0 (ul_cache_read_tokens l) + opt0 (ul_cache_creation_tokens l))"
  by (simp add: processed_tokens_def saturating_add_u64_def)

lemma quota_tokens_le: "opt0 (ul_total_tokens l) \<le> u64_max \<Longrightarrow> quota_tokens l \<le> u64_max"
  by (simp add: quota_tokens_def processed_tokens_sum)

end
