(* ===== verification/Quota_Ledger.thy ===== *)
theory Quota_Ledger
  imports Usage_Log Quota_Cycle "HOL-Library.Multiset"
begin

section \<open>The exact usage ledger\<close>

text \<open>
  Model of \<open>src/src/domain/usage/quota_ledger.rs\<close>: every revision of every metered request,
  under the scope (source, epoch, bucket, Share, user) it is charged to, with a watermark
  that counts the commits. A revision carries the cumulative usage of its request, so the
  usage of a scope at a watermark is the sum over its requests of the last revision at or
  before the watermark.

  \<open>scope_key\<close> encodes the scope with \<open>serde_json::to_string\<close>. The encoder is the parameter
  \<open>json\<close>; what the ledger relies on is that it does not confuse two scopes.
\<close>

subsection \<open>Data\<close>

type_synonym scope = "string \<times> nat \<times> string \<times> string \<times> string"
type_synonym json_encoder = "scope \<Rightarrow> string"

record QuotaUsageEntry =
  ue_request_id :: string
  ue_parent_request_id :: "string option"
  ue_share_id :: string
  ue_user_email :: string
  ue_attribution :: QuotaAttribution
  ue_usage_revision :: nat
  ue_watermark :: nat
  ue_tokens :: nat
  ue_count_request :: bool
  ue_pending :: bool

type_synonym usage_records = "(string, QuotaUsageEntry list) btree"

record QuotaUsageLedger =
  us_schema_version :: nat
  us_watermark :: nat
  us_coverage_from_ms :: "(string, int) btree"
  us_entries :: "(string, usage_records) btree"
  us_record_scopes :: "(string, string) btree"
  us_recovery_required :: "(string, QuotaAttribution) btree"
  us_integrity_error :: "string option"

definition default_usage_ledger :: QuotaUsageLedger where
  "default_usage_ledger = \<lparr>us_schema_version = 1, us_watermark = 0, us_coverage_from_ms = [],
     us_entries = [], us_record_scopes = [], us_recovery_required = [],
     us_integrity_error = None\<rparr>"

definition QUOTA_USAGE_WARN_REVISIONS :: nat where
  "QUOTA_USAGE_WARN_REVISIONS = 250000"

definition QUOTA_USAGE_ADMISSION_LIMIT :: nat where
  "QUOTA_USAGE_ADMISSION_LIMIT = 1000000"

definition scope_key ::
  "json_encoder \<Rightarrow> string \<Rightarrow> nat \<Rightarrow> string \<Rightarrow> string \<Rightarrow> string \<Rightarrow> string" where
  "scope_key json src epoch bucket share user =
     json (src, epoch, bucket, share, to_ascii_lowercase user)"

definition capacity_warning :: "QuotaUsageLedger \<Rightarrow> bool" where
  "capacity_warning L \<longleftrightarrow> us_watermark L \<ge> QUOTA_USAGE_WARN_REVISIONS"

definition capacity_limited :: "QuotaUsageLedger \<Rightarrow> bool" where
  "capacity_limited L \<longleftrightarrow> us_watermark L \<ge> QUOTA_USAGE_ADMISSION_LIMIT"

subsection \<open>Validation\<close>

definition validate_metadata :: "QuotaUsageLedger \<Rightarrow> unit res" where
  "validate_metadata L =
     (if us_schema_version L \<noteq> 1 then Err ''unsupported_quota_usage_schema''
      else if (\<exists>(src, start) \<in> set (us_coverage_from_ms L). src = [] \<or> start < 0) \<or>
        (\<exists>a \<in> set (bt_values (us_recovery_required L)).
           qa_source_ref a = [] \<or> qa_source_epoch a = 0 \<or> qa_bucket_id a = [] \<or>
           qa_started_at_ms a < 0)
      then Err ''quota_usage_integrity_error''
      else Ok ())"

definition entry_scope :: "json_encoder \<Rightarrow> QuotaUsageEntry \<Rightarrow> string" where
  "entry_scope json e =
     scope_key json (qa_source_ref (ue_attribution e)) (qa_source_epoch (ue_attribution e))
       (qa_bucket_id (ue_attribution e)) (ue_share_id e) (ue_user_email e)"

fun validate_versions ::
  "json_encoder \<Rightarrow> nat \<Rightarrow> string \<Rightarrow> string \<Rightarrow> QuotaUsageEntry list \<Rightarrow> QuotaUsageEntry option \<Rightarrow>
   nat list \<Rightarrow> nat list res" where
  "validate_versions json limit scope rid [] previous marks = Ok marks"
| "validate_versions json limit scope rid (e # rest) previous marks =
     (if ue_request_id e \<noteq> rid \<or> ue_watermark e = 0 \<or> ue_watermark e > limit \<or>
         qa_source_epoch (ue_attribution e) = 0 \<or> qa_started_at_ms (ue_attribution e) < 0 \<or>
         qa_source_ref (ue_attribution e) = [] \<or> qa_bucket_id (ue_attribution e) = [] \<or>
         ue_watermark e \<in> set marks \<or> entry_scope json e \<noteq> scope
      then Err ''quota_usage_integrity_error''
      else if (case previous of
          None \<Rightarrow> False
        | Some p \<Rightarrow> ue_usage_revision p \<ge> ue_usage_revision e \<or>
            ue_watermark p \<ge> ue_watermark e \<or> ue_attribution p \<noteq> ue_attribution e \<or>
            ue_parent_request_id p \<noteq> ue_parent_request_id e \<or>
            ue_count_request p \<noteq> ue_count_request e)
      then Err ''quota_revision_conflict''
      else validate_versions json limit scope rid rest (Some e) (ue_watermark e # marks))"

fun validate_records ::
  "json_encoder \<Rightarrow> nat \<Rightarrow> string \<Rightarrow> (string \<times> QuotaUsageEntry list) list \<Rightarrow>
   (string, string) btree \<Rightarrow> nat list \<Rightarrow> ((string, string) btree \<times> nat list) res" where
  "validate_records json limit scope [] ids marks = Ok (ids, marks)"
| "validate_records json limit scope ((rid, versions) # rest) ids marks =
     (if versions = [] then Err ''quota_usage_integrity_error''
      else if bt_contains ids rid then Err ''quota_attribution_changed''
      else rbind (validate_versions json limit scope rid versions None marks) (\<lambda>marks'.
        validate_records json limit scope rest (bt_insert rid scope ids) marks'))"

fun validate_scopes ::
  "json_encoder \<Rightarrow> nat \<Rightarrow> (string \<times> usage_records) list \<Rightarrow> (string, string) btree \<Rightarrow> nat list \<Rightarrow>
   ((string, string) btree \<times> nat list) res" where
  "validate_scopes json limit [] ids marks = Ok (ids, marks)"
| "validate_scopes json limit ((scope, records) # rest) ids marks =
     rbind (validate_records json limit scope records ids marks) (\<lambda>(ids', marks').
       validate_scopes json limit rest ids' marks')"

definition validate_usage :: "json_encoder \<Rightarrow> QuotaUsageLedger \<Rightarrow> unit res" where
  "validate_usage json L =
     rbind (validate_metadata L) (\<lambda>_.
     rbind (validate_scopes json (us_watermark L) (us_entries L) [] []) (\<lambda>(ids, marks).
       if length marks \<noteq> us_watermark L \<or> length ids \<noteq> length (us_record_scopes L) \<or>
          (\<exists>(rid, scope) \<in> set ids. bt_get (us_record_scopes L) rid \<noteq> Some scope)
       then Err ''quota_usage_missing_revisions'' else Ok ()))"

subsection \<open>Operations\<close>

definition recover_pending :: "QuotaUsageLedger \<Rightarrow> QuotaUsageLedger \<times> bool" where
  "recover_pending L =
     (let pending = filter ue_pending (List.map_filter last_opt
            (concat (map bt_values (bt_values (us_entries L)))));
          go = (\<lambda>e (required, changed).
            (bt_insert (ue_request_id e) (ue_attribution e) required,
             changed \<or> \<not> bt_contains required (ue_request_id e)));
          (required, changed) = fold go pending (us_recovery_required L, False)
      in (L\<lparr>us_recovery_required := required\<rparr>, changed))"

definition push_entry ::
  "string \<Rightarrow> string \<Rightarrow> QuotaUsageEntry list \<Rightarrow> (string, usage_records) btree \<Rightarrow>
   (string, usage_records) btree" where
  "push_entry key rid new entries =
     bt_update_default key [] (bt_update_default rid [] (\<lambda>versions. versions @ new)) entries"

definition insert_persisted ::
  "json_encoder \<Rightarrow> QuotaUsageLedger \<Rightarrow> QuotaUsageEntry \<Rightarrow> QuotaUsageLedger \<times> unit res" where
  "insert_persisted json L e =
     (let key = entry_scope json e
      in if (case bt_get (us_record_scopes L) (ue_request_id e) of
               None \<Rightarrow> False | Some previous \<Rightarrow> previous \<noteq> key)
         then (L, Err ''quota_attribution_changed'')
         else (L\<lparr>us_record_scopes := bt_insert (ue_request_id e) key (us_record_scopes L),
                 us_entries := push_entry key (ue_request_id e) [e] (us_entries L)\<rparr>, Ok ()))"

definition metadata :: "QuotaUsageLedger \<Rightarrow> QuotaUsageLedger" where
  "metadata L = L\<lparr>us_entries := [], us_record_scopes := []\<rparr>"

definition begin_collection :: "QuotaUsageLedger \<Rightarrow> string \<Rightarrow> int \<Rightarrow> QuotaUsageLedger \<times> bool" where
  "begin_collection L src at_ms =
     (if bt_contains (us_coverage_from_ms L) src then (L, False)
      else (L\<lparr>us_coverage_from_ms := bt_insert src at_ms (us_coverage_from_ms L)\<rparr>, True))"

definition complete_for :: "QuotaUsageLedger \<Rightarrow> AccountQuotaCycle \<Rightarrow> bool" where
  "complete_for L c \<longleftrightarrow>
     us_schema_version L = 1 \<and> us_integrity_error L = None \<and>
     (case bt_get (us_coverage_from_ms L) (cy_source_ref c) of
        None \<Rightarrow> False | Some start \<Rightarrow> start \<le> cy_starts_at_ms c) \<and>
     \<not> (\<exists>a \<in> set (bt_values (us_recovery_required L)).
          qa_source_ref a = cy_source_ref c \<and> qa_source_epoch a = cy_source_epoch c \<and>
          qa_bucket_id a = cy_bucket_id c \<and> cycle_contains c (qa_started_at_ms a))"

text \<open>\<open>i64::try_from(log.started_at_ms).ok() == Some(at)\<close> for a 128-bit unsigned start.\<close>

definition same_start :: "nat \<Rightarrow> int \<Rightarrow> bool" where
  "same_start started at_ms \<longleftrightarrow> int started \<le> i64_max \<and> int started = at_ms"

definition log_scope :: "json_encoder \<Rightarrow> QuotaAttribution \<Rightarrow> UsageLog \<Rightarrow> string" where
  "log_scope json a l =
     scope_key json (qa_source_ref a) (qa_source_epoch a) (qa_bucket_id a)
       (case ul_share_id l of None \<Rightarrow> [] | Some x \<Rightarrow> x)
       (case ul_user_email l of None \<Rightarrow> [] | Some x \<Rightarrow> x)"

definition previous_scope :: "QuotaUsageLedger \<Rightarrow> string \<Rightarrow> string option" where
  "previous_scope L rid =
     (case bt_get (us_record_scopes L) rid of
        Some key \<Rightarrow> Some key
      | None \<Rightarrow> map_option fst (find (\<lambda>(_, records). bt_contains records rid) (us_entries L)))"

definition last_version ::
  "QuotaUsageLedger \<Rightarrow> string \<Rightarrow> string \<Rightarrow> QuotaUsageEntry option" where
  "last_version L key rid =
     Option.bind (bt_get (us_entries L) key) (\<lambda>records.
       Option.bind (bt_get records rid) last_opt)"

definition validate_log :: "json_encoder \<Rightarrow> QuotaUsageLedger \<Rightarrow> UsageLog \<Rightarrow> unit res" where
  "validate_log json L l =
     (if us_schema_version L \<noteq> 1 then Err ''unsupported_quota_usage_schema''
      else case ul_quota_attribution l of
        None \<Rightarrow> if previous_scope L (ul_request_id l) \<noteq> None
                then Err ''quota_attribution_changed'' else Ok ()
      | Some a \<Rightarrow>
          if qa_started_at_ms a < 0 \<or> qa_source_epoch a = 0 \<or> qa_source_ref a = [] \<or>
             qa_bucket_id a = [] \<or> ul_share_id l = None \<or> ul_user_email l = None \<or>
             \<not> same_start (ul_started_at_ms l) (qa_started_at_ms a)
          then Err ''quota_attribution_invalid''
          else
            let key = log_scope json a l
            in if (case previous_scope L (ul_request_id l) of
                     None \<Rightarrow> False | Some previous \<Rightarrow> previous \<noteq> key)
               then Err ''quota_attribution_changed''
               else case last_version L key (ul_request_id l) of
                 None \<Rightarrow> Ok ()
               | Some p \<Rightarrow>
                   if ue_attribution p \<noteq> a \<or> ue_parent_request_id p \<noteq> ul_parent_request_id l
                   then Err ''quota_attribution_changed''
                   else if ue_count_request p \<noteq> (ul_record_kind l = UserInference)
                   then Err ''quota_attribution_changed''
                   else if ue_usage_revision p = ul_usage_revision l \<and>
                      ue_tokens p \<noteq> quota_tokens l
                   then Err ''quota_revision_conflict''
                   else Ok ())"

definition new_entry :: "UsageLog \<Rightarrow> QuotaAttribution \<Rightarrow> string \<Rightarrow> string \<Rightarrow> nat \<Rightarrow> QuotaUsageEntry" where
  "new_entry l a share user watermark =
     \<lparr>ue_request_id = ul_request_id l, ue_parent_request_id = ul_parent_request_id l,
      ue_share_id = share, ue_user_email = to_ascii_lowercase user, ue_attribution = a,
      ue_usage_revision = ul_usage_revision l, ue_watermark = watermark,
      ue_tokens = quota_tokens l, ue_count_request = (ul_record_kind l = UserInference),
      ue_pending = (ul_usage_state l = Pending)\<rparr>"

definition settle_recovery ::
  "UsageLog \<Rightarrow> QuotaAttribution \<Rightarrow> (string, QuotaAttribution) btree \<Rightarrow>
   (string, QuotaAttribution) btree" where
  "settle_recovery l a required =
     (if ul_failure_kind l = Some ''server_restarted''
      then bt_insert (ul_request_id l) a required
      else if ul_usage_state l = Observed then bt_remove (ul_request_id l) required
      else required)"

definition record_usage ::
  "json_encoder \<Rightarrow> QuotaUsageLedger \<Rightarrow> UsageLog \<Rightarrow> QuotaUsageLedger \<times> bool res" where
  "record_usage json L l =
     (case validate_log json L l of
        Err e \<Rightarrow> (L, Err e)
      | Ok _ \<Rightarrow>
     (case ul_quota_attribution l of
        None \<Rightarrow> (L, Ok False)
      | Some a \<Rightarrow>
          if ul_record_kind l = HealthProbe then (L, Ok False)
          else (case (ul_share_id l, ul_user_email l) of
            (Some share, Some user) \<Rightarrow>
              (let key = scope_key json (qa_source_ref a) (qa_source_epoch a) (qa_bucket_id a)
                     share user;
                   L1 = L\<lparr>us_record_scopes := bt_insert (ul_request_id l) key (us_record_scopes L),
                          us_entries := push_entry key (ul_request_id l) [] (us_entries L)\<rparr>
               in if (case last_version L key (ul_request_id l) of
                        None \<Rightarrow> False | Some p \<Rightarrow> ue_usage_revision p \<ge> ul_usage_revision l)
                  then (L1, Ok False)
                  else
                    let L2 = L1\<lparr>us_recovery_required := settle_recovery l a (us_recovery_required L1)\<rparr>
                    in (case checked_add_u64 (us_watermark L2) 1 of
                          None \<Rightarrow> (L2, Err ''quota_usage_watermark_overflow'')
                        | Some w \<Rightarrow>
                            (L2\<lparr>us_watermark := w,
                                us_entries := push_entry key (ul_request_id l)
                                  [new_entry l a share user w] (us_entries L2)\<rparr>, Ok True)))
          | _ \<Rightarrow> (L, Ok False))))"

text \<open>The version of a record that a query at \<open>watermark\<close> sees.\<close>

definition version_at :: "nat \<Rightarrow> QuotaUsageEntry list \<Rightarrow> QuotaUsageEntry option" where
  "version_at watermark versions = find (\<lambda>e. ue_watermark e \<le> watermark) (rev versions)"

fun query_loop ::
  "AccountQuotaCycle \<Rightarrow> nat \<Rightarrow> QuotaUsageEntry list list \<Rightarrow> nat \<Rightarrow> nat \<Rightarrow> (nat \<times> nat) res" where
  "query_loop c watermark [] tokens requests = Ok (tokens, requests)"
| "query_loop c watermark (versions # rest) tokens requests =
     (case version_at watermark versions of
        None \<Rightarrow> query_loop c watermark rest tokens requests
      | Some e \<Rightarrow>
          if cycle_contains c (qa_started_at_ms (ue_attribution e))
          then rbind (ok_or (checked_add_u64 tokens (ue_tokens e)) ''quota_token_overflow'') (\<lambda>t.
               rbind (ok_or (checked_add_u64 requests (if ue_count_request e then 1 else 0))
                        ''quota_request_overflow'') (\<lambda>n.
                 query_loop c watermark rest t n))
          else query_loop c watermark rest tokens requests)"

definition query_usage ::
  "json_encoder \<Rightarrow> QuotaUsageLedger \<Rightarrow> AccountQuotaCycle \<Rightarrow> string \<Rightarrow> string \<Rightarrow> nat \<Rightarrow>
   (nat \<times> nat) res" where
  "query_usage json L c share user watermark =
     (if \<not> complete_for L c then Err ''history_incomplete''
      else case bt_get (us_entries L)
          (scope_key json (cy_source_ref c) (cy_source_epoch c) (cy_bucket_id c) share user) of
        None \<Rightarrow> Ok (0, 0)
      | Some records \<Rightarrow> query_loop c watermark (bt_values records) 0 0)"

text \<open>128-bit arithmetic cannot overflow on 64-bit operands; the clamp comes last.\<close>

definition effective_with_baseline :: "nat \<Rightarrow> nat \<Rightarrow> nat \<Rightarrow> nat" where
  "effective_with_baseline observed target observed_at_edit =
     nat (min (int u64_max) (max 0 (int target + int observed - int observed_at_edit)))"

subsection \<open>Persistence\<close>

text \<open>
  \<open>load\<close> of \<open>src/src/repository/server_sqlite/quota.rs\<close>, on rows already read and decoded:
  the rows are inserted in the order of the query (by watermark) into the stored metadata,
  and the result is validated.
\<close>

fun insert_rows ::
  "json_encoder \<Rightarrow> QuotaUsageLedger \<Rightarrow> QuotaUsageEntry list \<Rightarrow> QuotaUsageLedger res" where
  "insert_rows json L [] = Ok L"
| "insert_rows json L (e # rest) =
     (case insert_persisted json L e of
        (L1, Err x) \<Rightarrow> Err x
      | (L1, Ok _) \<Rightarrow> insert_rows json L1 rest)"

definition all_entries :: "QuotaUsageLedger \<Rightarrow> QuotaUsageEntry list" where
  "all_entries L = concat (concat (map bt_values (bt_values (us_entries L))))"

definition load_rows ::
  "json_encoder \<Rightarrow> QuotaUsageLedger \<Rightarrow> QuotaUsageEntry list \<Rightarrow> QuotaUsageLedger res" where
  "load_rows json meta rows =
     rbind (insert_rows json meta rows) (\<lambda>L.
     rbind (validate_usage json L) (\<lambda>_.
       if (if all_entries L = [] then 0 else Max (ue_watermark ` set (all_entries L))) \<noteq> us_watermark L
       then Err ''quota usage watermark has missing revisions'' else Ok L))"

text \<open>
  \<open>upsert_log\<close>: a revision is committed against the metadata and the last stored revision
  of its request only; the row to insert is the entry with the new watermark.
\<close>

definition upsert_log ::
  "json_encoder \<Rightarrow> QuotaUsageLedger \<Rightarrow> QuotaUsageEntry option \<Rightarrow> UsageLog \<Rightarrow>
   (QuotaUsageLedger \<times> QuotaUsageEntry) option res" where
  "upsert_log json meta previous l =
     rbind (insert_rows json meta (case previous of None \<Rightarrow> [] | Some e \<Rightarrow> [e])) (\<lambda>L.
       case record_usage json L l of
         (L', Err x) \<Rightarrow> Err x
       | (L', Ok False) \<Rightarrow> Ok None
       | (L', Ok True) \<Rightarrow>
           (case find (\<lambda>e. ue_watermark e = us_watermark L')
                   (List.map_filter last_opt (concat (map bt_values (bt_values (us_entries L'))))) of
              None \<Rightarrow> Err ''new quota usage revision missing''
            | Some e \<Rightarrow> Ok (Some (metadata L', e))))"

end
