(* ===== verification/Quota_Ledger_Props.thy ===== *)
theory Quota_Ledger_Props
  imports Quota_Ledger
begin

section \<open>The exact usage ledger: correctness\<close>

text \<open>
  What \<open>validate\<close> accepts as an invariant on lookups, that every operation keeps it, that a
  query is the sum of the last revisions in its scope, that past watermarks are immutable,
  and that storing and loading gives the ledger back.
\<close>

subsection \<open>Lookups\<close>

definition versions :: "QuotaUsageLedger \<Rightarrow> string \<Rightarrow> string \<Rightarrow> QuotaUsageEntry list option" where
  "versions L key rid = Option.bind (bt_get (us_entries L) key) (\<lambda>records. bt_get records rid)"

definition usage_wf :: "QuotaUsageLedger \<Rightarrow> bool" where
  "usage_wf L \<longleftrightarrow> bt_wf (us_entries L) \<and> bt_wf (us_record_scopes L) \<and>
     bt_wf (us_recovery_required L) \<and> bt_wf (us_coverage_from_ms L) \<and>
     (\<forall>records \<in> set (bt_values (us_entries L)). bt_wf records)"

definition marks :: "QuotaUsageLedger \<Rightarrow> nat multiset" where
  "marks L = bt_sum (bt_sum (\<lambda>vs. mset (map ue_watermark vs))) (us_entries L)"

definition revises :: "QuotaUsageEntry \<Rightarrow> QuotaUsageEntry \<Rightarrow> bool" where
  "revises p e \<longleftrightarrow> ue_usage_revision p < ue_usage_revision e \<and> ue_watermark p < ue_watermark e \<and>
     ue_attribution p = ue_attribution e \<and> ue_parent_request_id p = ue_parent_request_id e \<and>
     ue_count_request p = ue_count_request e"

definition entry_ok :: "json_encoder \<Rightarrow> nat \<Rightarrow> string \<Rightarrow> string \<Rightarrow> QuotaUsageEntry \<Rightarrow> bool" where
  "entry_ok json limit scope rid e \<longleftrightarrow> ue_request_id e = rid \<and> 0 < ue_watermark e \<and>
     ue_watermark e \<le> limit \<and> qa_source_epoch (ue_attribution e) \<noteq> 0 \<and>
     0 \<le> qa_started_at_ms (ue_attribution e) \<and> qa_source_ref (ue_attribution e) \<noteq> [] \<and>
     qa_bucket_id (ue_attribution e) \<noteq> [] \<and> entry_scope json e = scope"

definition version_list_ok :: "json_encoder \<Rightarrow> nat \<Rightarrow> string \<Rightarrow> string \<Rightarrow> QuotaUsageEntry list \<Rightarrow> bool" where
  "version_list_ok json limit scope rid vs \<longleftrightarrow>
     vs \<noteq> [] \<and> (\<forall>e \<in> set vs. entry_ok json limit scope rid e) \<and> sorted_wrt revises vs"

definition usage_inv :: "json_encoder \<Rightarrow> QuotaUsageLedger \<Rightarrow> bool" where
  "usage_inv json L \<longleftrightarrow> usage_wf L \<and> validate_metadata L = Ok () \<and>
     (\<forall>key rid vs. versions L key rid = Some vs \<longrightarrow>
        version_list_ok json (us_watermark L) key rid vs) \<and>
     (\<forall>key rid. bt_get (us_record_scopes L) rid = Some key \<longleftrightarrow> versions L key rid \<noteq> None) \<and>
     (\<forall>w. count (marks L) w \<le> 1) \<and> size (marks L) = us_watermark L"

lemma revises_transp: "transp revises"
  by (auto simp: transp_def revises_def)

lemma sorted_revises_Cons2:
  "sorted_wrt revises (p # e # vs) \<longleftrightarrow> revises p e \<and> sorted_wrt revises (e # vs)"
  using revises_transp by (auto dest: transpD)

lemma versions_mem:
  assumes "usage_wf L"
  shows "versions L key rid = Some vs \<longleftrightarrow>
    (\<exists>records. (key, records) \<in> set (us_entries L) \<and> (rid, vs) \<in> set records)"
proof -
  have wf: "bt_wf (us_entries L)" "\<And>k r. (k, r) \<in> set (us_entries L) \<Longrightarrow> bt_wf r"
    using assms by (auto simp: usage_wf_def mem_bt_values)
  then show ?thesis
    by (auto simp: versions_def Option.bind_eq_Some_conv bt_get_iff_mem [OF wf(1)])
      (metis bt_get_iff_mem)+
qed

lemma versions_push_entry:
  assumes "us_entries L' = push_entry k r new (us_entries L)"
  shows "versions L' key rid =
    (if key = k \<and> rid = r then Some ((case versions L k r of None \<Rightarrow> [] | Some vs \<Rightarrow> vs) @ new)
     else versions L key rid)"
  by (auto simp: versions_def assms push_entry_def split: option.splits)

lemma push_entry_again [simp]: "push_entry k r new (push_entry k r [] m) = push_entry k r new m"
  by (simp add: push_entry_def bt_update_default_def)

lemma push_entry_Nil:
  assumes "usage_wf L" and "versions L k r = Some vs"
  shows "push_entry k r [] (us_entries L) = us_entries L"
proof -
  from assms(2) obtain rs where rs: "bt_get (us_entries L) k = Some rs" "bt_get rs r = Some vs"
    by (auto simp: versions_def Option.bind_eq_Some_conv)
  with assms(1) have "bt_wf rs" "bt_wf (us_entries L)"
    using bt_get_Some_mem by (force simp: usage_wf_def mem_bt_values)+
  with rs show ?thesis by (simp add: push_entry_def bt_update_default_def bt_insert_same)
qed

lemma usage_wf_push_entry:
  assumes "usage_wf L"
  shows "usage_wf (L\<lparr>us_entries := push_entry k r new (us_entries L)\<rparr>)"
proof -
  have "bt_wf (case bt_get (us_entries L) k of None \<Rightarrow> [] | Some records \<Rightarrow> records)"
    using assms bt_get_Some_mem by (force simp: usage_wf_def mem_bt_values split: option.splits)
  then show ?thesis
    using assms bt_values_insert_subset
    by (fastforce simp: usage_wf_def push_entry_def bt_update_default_def [of k])
qed

lemma marks_push_entry:
  assumes "usage_wf L" and "us_entries L' = push_entry k r new (us_entries L)"
  shows "marks L' = marks L + mset (map ue_watermark new)"
proof -
  let ?inner = "bt_sum (\<lambda>vs. mset (map ue_watermark vs))"
  have wf: "bt_wf (us_entries L)" "bt_wf (case bt_get (us_entries L) k of None \<Rightarrow> [] | Some rs \<Rightarrow> rs)"
    using assms(1) bt_get_Some_mem by (force simp: usage_wf_def mem_bt_values split: option.splits)+
  show ?thesis
    unfolding marks_def assms(2) push_entry_def
    by (intro bt_sum_update_default wf) simp_all
qed

subsection \<open>Validation accepts exactly the invariant\<close>

lemma validate_versions_iff:
  "validate_versions json limit scope rid vs previous ms = Ok ms' \<longleftrightarrow>
     (\<forall>e \<in> set vs. entry_ok json limit scope rid e) \<and>
     sorted_wrt revises ((case previous of None \<Rightarrow> [] | Some p \<Rightarrow> [p]) @ vs) \<and>
     distinct (map ue_watermark vs) \<and> set (map ue_watermark vs) \<inter> set ms = {} \<and>
     ms' = rev (map ue_watermark vs) @ ms"
proof (induction vs arbitrary: previous ms)
  case (Cons e vs)
  have first: "entry_ok json limit scope rid e \<and> ue_watermark e \<notin> set ms \<longleftrightarrow>
      \<not> (ue_request_id e \<noteq> rid \<or> ue_watermark e = 0 \<or> ue_watermark e > limit \<or>
         qa_source_epoch (ue_attribution e) = 0 \<or> qa_started_at_ms (ue_attribution e) < 0 \<or>
         qa_source_ref (ue_attribution e) = [] \<or> qa_bucket_id (ue_attribution e) = [] \<or>
         ue_watermark e \<in> set ms \<or> entry_scope json e \<noteq> scope)"
    by (auto simp: entry_ok_def)
  have link: "(case previous of None \<Rightarrow> False
      | Some p \<Rightarrow> ue_usage_revision p \<ge> ue_usage_revision e \<or> ue_watermark p \<ge> ue_watermark e \<or>
          ue_attribution p \<noteq> ue_attribution e \<or> ue_parent_request_id p \<noteq> ue_parent_request_id e \<or>
          ue_count_request p \<noteq> ue_count_request e) \<longleftrightarrow> (\<exists>p. previous = Some p \<and> \<not> revises p e)"
    by (cases previous) (auto simp: revises_def)
  have chain: "sorted_wrt revises ((case previous of None \<Rightarrow> [] | Some p \<Rightarrow> [p]) @ e # vs) \<longleftrightarrow>
      \<not> (\<exists>p. previous = Some p \<and> \<not> revises p e) \<and> sorted_wrt revises (e # vs)"
    by (cases previous) (simp_all add: sorted_revises_Cons2 del: sorted_wrt.simps)
  show ?case
    unfolding validate_versions.simps first [symmetric, THEN arg_cong [of _ _ Not], simplified] link chain
    using first Cons.IH [of "Some e" "ue_watermark e # ms"] by auto
qed (auto split: option.splits)

definition record_marks :: "(string \<times> QuotaUsageEntry list) list \<Rightarrow> nat list" where
  "record_marks records = concat (map (map ue_watermark \<circ> snd) records)"

definition scope_marks :: "(string \<times> usage_records) list \<Rightarrow> nat list" where
  "scope_marks xs = concat (map (record_marks \<circ> snd) xs)"

definition scope_ids :: "(string \<times> usage_records) list \<Rightarrow> (string \<times> string) list" where
  "scope_ids xs = concat (map (\<lambda>(scope, records). map (\<lambda>r. (fst r, scope)) records) xs)"

lemma validate_records_iff:
  "validate_records json limit scope records ids ms = Ok (ids', ms') \<longleftrightarrow>
     (\<forall>(rid, vs) \<in> set records. version_list_ok json limit scope rid vs \<and> \<not> bt_contains ids rid) \<and>
     distinct (map fst records) \<and> distinct (record_marks records) \<and>
     set (record_marks records) \<inter> set ms = {} \<and>
     ids' = fold (\<lambda>r. bt_insert (fst r) scope) records ids \<and> ms' = rev (record_marks records) @ ms"
proof (induction records arbitrary: ids ms)
  case (Cons x records)
  obtain rid vs where x: "x = (rid, vs)" by (cases x)
  let ?ok = "\<lambda>ids (r, v). version_list_ok json limit scope r v \<and> \<not> bt_contains ids r"
  have "validate_records json limit scope (x # records) ids ms = Ok (ids', ms') \<longleftrightarrow>
      version_list_ok json limit scope rid vs \<and> \<not> bt_contains ids rid \<and>
      distinct (map ue_watermark vs) \<and> set (map ue_watermark vs) \<inter> set ms = {} \<and>
      validate_records json limit scope records (bt_insert rid scope ids)
        (rev (map ue_watermark vs) @ ms) = Ok (ids', ms')"
    by (auto simp: x result_iff validate_versions_iff version_list_ok_def)
  moreover have "(\<forall>y \<in> set records. ?ok (bt_insert rid scope ids) y) \<longleftrightarrow>
      (\<forall>y \<in> set records. ?ok ids y) \<and> rid \<notin> set (map fst records)"
    by (auto simp: image_iff split: prod.splits)
  moreover have "set (record_marks records) \<inter> set (rev (map ue_watermark vs) @ ms) = {} \<longleftrightarrow>
      set (map ue_watermark vs) \<inter> set (record_marks records) = {} \<and> set (record_marks records) \<inter> set ms = {}"
    by auto
  moreover have "record_marks (x # records) = map ue_watermark vs @ record_marks records"
    by (simp add: record_marks_def x)
  ultimately show ?case
    unfolding Cons.IH by (simp only: x list.set list.map fold_simps fst_conv bex_simps ball_simps
        distinct.simps distinct_append set_append Int_Un_distrib2 Un_empty rev_append append_assoc
        split_conv) blast
qed (auto simp: record_marks_def)

lemma validate_scopes_iff:
  "validate_scopes json limit xs ids ms = Ok (ids', ms') \<longleftrightarrow>
     (\<forall>(scope, records) \<in> set xs. \<forall>(rid, vs) \<in> set records. version_list_ok json limit scope rid vs) \<and>
     (\<forall>x \<in> set (scope_ids xs). \<not> bt_contains ids (fst x)) \<and> distinct (map fst (scope_ids xs)) \<and>
     distinct (scope_marks xs) \<and> set (scope_marks xs) \<inter> set ms = {} \<and>
     ids' = fold (\<lambda>(k, v). bt_insert k v) (scope_ids xs) ids \<and> ms' = rev (scope_marks xs) @ ms"
proof (induction xs arbitrary: ids ms)
  case (Cons x xs)
  obtain scope records where x: "x = (scope, records)" by (cases x)
  have ids: "bt_contains (fold (\<lambda>r. bt_insert (fst r) scope) records ids) k \<longleftrightarrow>
      k \<in> fst ` set records \<or> bt_contains ids k" for k
    by (induction records arbitrary: ids) auto
  have split: "fold (\<lambda>(k, v). bt_insert k v) (scope_ids (x # xs)) ids =
      fold (\<lambda>(k, v). bt_insert k v) (scope_ids xs) (fold (\<lambda>r. bt_insert (fst r) scope) records ids)"
    by (simp add: scope_ids_def x fold_map comp_def)
  let ?ids = "fold (\<lambda>r. bt_insert (fst r) scope) records ids"
  have "validate_scopes json limit (x # xs) ids ms = Ok (ids', ms') \<longleftrightarrow>
      (\<forall>(rid, vs) \<in> set records. version_list_ok json limit scope rid vs) \<and>
      (\<forall>r \<in> set records. \<not> bt_contains ids (fst r)) \<and>
      distinct (map fst records) \<and> distinct (record_marks records) \<and>
      set (record_marks records) \<inter> set ms = {} \<and>
      validate_scopes json limit xs ?ids (rev (record_marks records) @ ms) = Ok (ids', ms')"
    by (auto simp: x result_iff validate_records_iff)
  moreover have "(\<forall>y \<in> set (scope_ids xs). \<not> bt_contains ?ids (fst y)) \<longleftrightarrow>
      (\<forall>y \<in> set (scope_ids xs). \<not> bt_contains ids (fst y)) \<and>
      set (map fst records) \<inter> set (map fst (scope_ids xs)) = {}"
    unfolding ids by force
  moreover have "set (scope_marks xs) \<inter> set (rev (record_marks records) @ ms) = {} \<longleftrightarrow>
      set (record_marks records) \<inter> set (scope_marks xs) = {} \<and> set (scope_marks xs) \<inter> set ms = {}"
    by auto
  moreover have "scope_marks (x # xs) = record_marks records @ scope_marks xs"
    "map fst (scope_ids (x # xs)) = map fst records @ map fst (scope_ids xs)"
    by (simp_all add: scope_marks_def scope_ids_def x comp_def)
  moreover have "(\<forall>y \<in> set (scope_ids (x # xs)). \<not> bt_contains ids (fst y)) \<longleftrightarrow>
      (\<forall>r \<in> set records. \<not> bt_contains ids (fst r)) \<and> (\<forall>y \<in> set (scope_ids xs). \<not> bt_contains ids (fst y))"
  proof -
    have "set (scope_ids (x # xs)) = (\<lambda>r. (fst r, scope)) ` set records \<union> set (scope_ids xs)"
      by (simp add: scope_ids_def x)
    then show ?thesis by (simp add: ball_Un)
  qed
  ultimately show ?case
    unfolding split Cons.IH by (simp only: x list.set ball_simps distinct_append set_append
        Int_Un_distrib2 Un_empty rev_append append_assoc split_conv conj_ac)
qed (auto simp: scope_ids_def scope_marks_def)

lemma mset_scope_marks: "mset (scope_marks (us_entries L)) = marks L"
proof -
  have inner: "mset (record_marks rs) = bt_sum (\<lambda>vs. mset (map ue_watermark vs)) rs" for rs
    by (induction rs) (simp_all add: record_marks_def)
  have "mset (scope_marks xs) = bt_sum (bt_sum (\<lambda>vs. mset (map ue_watermark vs))) xs" for xs
    by (induction xs) (simp_all add: scope_marks_def inner)
  then show ?thesis by (simp add: marks_def)
qed

lemma distinct_iff_count: "distinct xs \<longleftrightarrow> (\<forall>x. count (mset xs) x \<le> 1)"
proof (induction xs)
  case (Cons a xs)
  have "count (mset xs) a = 0 \<longleftrightarrow> a \<notin> set xs" by simp
  with Cons show ?case
    by (auto simp: le_Suc_eq)
qed simp

lemma scope_ids_mem:
  assumes "usage_wf L"
  shows "(rid, key) \<in> set (scope_ids (us_entries L)) \<longleftrightarrow> versions L key rid \<noteq> None"
proof -
  have "(rid, key) \<in> set (scope_ids xs) \<longleftrightarrow> (\<exists>rs vs. (key, rs) \<in> set xs \<and> (rid, vs) \<in> set rs)" for xs
    by (induction xs) (force simp: scope_ids_def)+
  with versions_mem [OF assms] show ?thesis by (auto simp: not_None_eq)
qed

lemma distinct_scope_ids:
  "bt_wf xs \<Longrightarrow> (\<And>k r. (k, r) \<in> set xs \<Longrightarrow> bt_wf r) \<Longrightarrow> distinct (scope_ids xs)"
proof (induction xs)
  case (Cons x xs)
  obtain k r where x: "x = (k, r)" by (cases x)
  from Cons.prems have "\<forall>y \<in> set (scope_ids xs). snd y \<noteq> k"
    by (force simp: scope_ids_def bt_wf_Cons x)
  moreover have "distinct (map fst r)" using Cons.prems(2) [of k r] by (simp add: x bt_wf_distinct)
  then have "distinct (map (\<lambda>e. (fst e, k)) r)" by (auto simp: distinct_map inj_on_def)
  moreover have "distinct (scope_ids xs)" using Cons by (auto simp: bt_wf_Cons)
  moreover have "scope_ids (x # xs) = map (\<lambda>e. (fst e, k)) r @ scope_ids xs"
    by (simp add: scope_ids_def x)
  ultimately show ?case by auto
qed (simp add: scope_ids_def)

lemma validate_usage_iff:
  assumes wf: "usage_wf L"
  shows "validate_usage json L = Ok () \<longleftrightarrow> usage_inv json L"
proof -
  define ids where "ids = fold (\<lambda>(k, v). bt_insert k v) (scope_ids (us_entries L)) []"
  let ?each = "\<forall>key rid vs. versions L key rid = Some vs \<longrightarrow> version_list_ok json (us_watermark L) key rid vs"
  have each: "(\<forall>(scope, records) \<in> set (us_entries L). \<forall>(rid, vs) \<in> set records.
      version_list_ok json (us_watermark L) scope rid vs) \<longleftrightarrow> ?each"
    using versions_mem [OF wf] by fastforce
  have wf_ids: "bt_wf ids" and wf_rs: "bt_wf (us_record_scopes L)"
    using btree.wf_fold_insert [of "[]"] wf by (auto simp: ids_def usage_wf_def)
  have get: "bt_get ids rid = map_of (rev (scope_ids (us_entries L))) rid" for rid
    by (simp add: ids_def btree.get_fold_insert split: option.splits)
  let ?functional = "distinct (map fst (scope_ids (us_entries L)))"
  have mem: "bt_get ids rid = Some key \<longleftrightarrow> versions L key rid \<noteq> None" if ?functional for rid key
    using that scope_ids_mem [OF wf] by (simp add: get map_of_eq_Some_iff rev_map [symmetric])
  have same: "?functional \<and> length ids = length (us_record_scopes L) \<and>
      (\<forall>(rid, scope) \<in> set ids. bt_get (us_record_scopes L) rid = Some scope) \<longleftrightarrow>
      (\<forall>key rid. bt_get (us_record_scopes L) rid = Some key \<longleftrightarrow> versions L key rid \<noteq> None)"
    (is "?l \<longleftrightarrow> ?r")
  proof
    assume l: ?l
    then have "set ids \<subseteq> set (us_record_scopes L)" by (auto simp: bt_get_iff_mem [OF wf_rs])
    moreover have "card (set ids) = card (set (us_record_scopes L))"
      using l bt_wf_distinct [OF wf_ids] bt_wf_distinct [OF wf_rs]
      by (metis distinct_card distinct_zipI1 distinct_map length_map)
    ultimately have "set ids = set (us_record_scopes L)" by (simp add: card_subset_eq)
    with l mem show ?r by (simp add: bt_get_iff_mem [OF wf_rs] bt_get_iff_mem [OF wf_ids])
  next
    assume r: ?r
    have "distinct (scope_ids (us_entries L))"
      using wf by (intro distinct_scope_ids) (auto simp: usage_wf_def mem_bt_values)
    moreover have "inj_on fst (set (scope_ids (us_entries L)))"
      using r scope_ids_mem [OF wf] by (auto simp: inj_on_def) (metis option.inject)+
    ultimately have f: ?functional by (simp add: distinct_map)
    then have "bt_get ids rid = bt_get (us_record_scopes L) rid" for rid
      using mem [OF f] r by (metis not_Some_eq)
    then have "ids = us_record_scopes L" by (intro bt_ext wf_ids wf_rs)
    with f show ?l by (auto simp: bt_get_iff_mem [OF wf_rs])
  qed
  have dm: "distinct (scope_marks (us_entries L)) \<longleftrightarrow> (\<forall>w. count (marks L) w \<le> 1)"
    by (simp add: distinct_iff_count mset_scope_marks)
  have lm: "length (scope_marks (us_entries L)) = size (marks L)"
    by (simp add: mset_scope_marks [symmetric])
  have "validate_usage json L = Ok () \<longleftrightarrow> validate_metadata L = Ok () \<and> ?each \<and>
      distinct (scope_marks (us_entries L)) \<and> length (scope_marks (us_entries L)) = us_watermark L \<and> ?l"
    unfolding each [symmetric]
    by (auto simp: validate_usage_def result_iff validate_scopes_iff ids_def bt_contains_def)
  also have "\<dots> \<longleftrightarrow> usage_inv json L"
    unfolding same dm lm usage_inv_def using wf by blast
  finally show ?thesis .
qed

subsection \<open>Recording keeps the invariant\<close>

lemma last_version_eq: "last_version L key rid = Option.bind (versions L key rid) last_opt"
  by (simp add: last_version_def versions_def)

lemma usage_inv_versions:
  "usage_inv json L \<Longrightarrow> versions L key rid = Some vs \<Longrightarrow> version_list_ok json (us_watermark L) key rid vs"
  by (simp add: usage_inv_def)

lemma usage_inv_scopes:
  "usage_inv json L \<Longrightarrow> bt_get (us_record_scopes L) rid = Some key \<longleftrightarrow> versions L key rid \<noteq> None"
  by (simp add: usage_inv_def)

lemma version_list_ok_mono:
  "version_list_ok json w key rid vs \<Longrightarrow> w \<le> w' \<Longrightarrow> version_list_ok json w' key rid vs"
  by (fastforce simp: version_list_ok_def entry_ok_def)

lemma previous_scope_eq:
  assumes "usage_inv json L"
  shows "previous_scope L rid = bt_get (us_record_scopes L) rid"
proof (cases "bt_get (us_record_scopes L) rid")
  case None
  have none: "versions L key rid = None" for key
    using usage_inv_scopes [OF assms, of rid key] None by simp
  have wf: "usage_wf L" using assms by (simp add: usage_inv_def)
  have "\<not> bt_contains records rid" if "(key, records) \<in> set (us_entries L)" for key records
    using none [of key] that versions_mem [OF wf, of key rid] wf
    by (metis bt_contains_def bt_get_Some_mem not_None_eq)
  then have "find (\<lambda>(_, records). bt_contains records rid) (us_entries L) = None"
    by (auto simp: find_None_set)
  with None show ?thesis by (simp add: previous_scope_def)
qed (simp add: previous_scope_def)

text \<open>The cases of a successful \<open>record\<close>.\<close>

lemma record_usage_cases:
  assumes inv: "usage_inv json L" and res: "record_usage json L l = (L', Ok b)"
  obtains (skip) "b = False" "L' = L"
  | (push) a share user key e where "b"
      "ul_quota_attribution l = Some a" "ul_share_id l = Some share" "ul_user_email l = Some user"
      "key = scope_key json (qa_source_ref a) (qa_source_epoch a) (qa_bucket_id a) share user"
      "validate_log json L l = Ok ()" "us_watermark L < u64_max"
      "e = new_entry l a share user (us_watermark L + 1)"
      "\<And>p. last_version L key (ul_request_id l) = Some p \<Longrightarrow> revises p e"
      "bt_get (us_record_scopes L) (ul_request_id l) = None \<or>
       bt_get (us_record_scopes L) (ul_request_id l) = Some key"
      "L' = L\<lparr>us_watermark := us_watermark L + 1,
        us_record_scopes := bt_insert (ul_request_id l) key (us_record_scopes L),
        us_recovery_required := settle_recovery l a (us_recovery_required L),
        us_entries := push_entry key (ul_request_id l) [e] (us_entries L)\<rparr>"
proof -
  from res have valid: "validate_log json L l = Ok ()"
    by (auto simp: record_usage_def split: sum.splits)
  have wf: "usage_wf L" using inv by (simp add: usage_inv_def)
  show ?thesis
  proof (cases "ul_quota_attribution l = None \<or> ul_record_kind l = HealthProbe")
    case True
    with res valid skip show ?thesis by (auto simp: record_usage_def split: option.splits)
  next
    case False
    then obtain a where a: "ul_quota_attribution l = Some a" by auto
    with valid obtain share user where su: "ul_share_id l = Some share" "ul_user_email l = Some user"
      by (auto simp: validate_log_def split: if_splits)
    define key where "key = scope_key json (qa_source_ref a) (qa_source_epoch a) (qa_bucket_id a) share user"
    let ?rid = "ul_request_id l"
    have key: "log_scope json a l = key" by (simp add: log_scope_def key_def su)
    have scope: "bt_get (us_record_scopes L) ?rid = None \<or> bt_get (us_record_scopes L) ?rid = Some key"
      using valid a key by (auto simp: validate_log_def Let_def previous_scope_eq [OF inv]
          split: if_splits option.splits)
    show ?thesis
    proof (cases "\<exists>p. last_version L key ?rid = Some p \<and> ue_usage_revision p \<ge> ul_usage_revision l")
      case True
      then obtain p vs where p: "last_version L key ?rid = Some p" "ue_usage_revision p \<ge> ul_usage_revision l"
        and vs: "versions L key ?rid = Some vs"
        by (auto simp: last_version_eq Option.bind_eq_Some_conv)
      from vs have "bt_get (us_record_scopes L) ?rid = Some key" by (simp add: usage_inv_scopes [OF inv])
      then have "bt_insert ?rid key (us_record_scopes L) = us_record_scopes L"
        using wf by (simp add: usage_wf_def bt_insert_same)
      with res valid a su False p push_entry_Nil [OF wf vs] key_def
      have "b = False" "L' = L" by (auto simp: record_usage_def Let_def)
      then show ?thesis by (rule skip)
    next
      case new: False
      with res valid a su False key_def
      have b and limit: "us_watermark L < u64_max"
        and L': "L' = L\<lparr>us_watermark := us_watermark L + 1,
          us_record_scopes := bt_insert ?rid key (us_record_scopes L),
          us_recovery_required := settle_recovery l a (us_recovery_required L),
          us_entries := push_entry key ?rid [new_entry l a share user (us_watermark L + 1)] (us_entries L)\<rparr>"
        by (auto simp: record_usage_def Let_def split: option.splits if_splits)
      have "revises p (new_entry l a share user (us_watermark L + 1))"
        if p: "last_version L key ?rid = Some p" for p
      proof -
        from p obtain vs where vs: "versions L key ?rid = Some vs" "last_opt vs = Some p"
          by (auto simp: last_version_eq Option.bind_eq_Some_conv)
        with usage_inv_versions [OF inv vs(1)] have "ue_watermark p \<le> us_watermark L"
          by (auto simp: version_list_ok_def entry_ok_def last_opt_Some)
        with valid a key p new show ?thesis
          by (auto simp: validate_log_def Let_def revises_def new_entry_def split: if_splits)
      qed
      with \<open>b\<close> a su key_def valid limit scope L' show ?thesis by (intro push [OF _ _ _ _ _ _ _ refl]) auto
    qed
  qed
qed

lemma validate_metadata_iff:
  "validate_metadata L = Ok () \<longleftrightarrow> us_schema_version L = 1 \<and>
     (\<forall>(src, start) \<in> set (us_coverage_from_ms L). src \<noteq> [] \<and> 0 \<le> start) \<and>
     (\<forall>a \<in> set (bt_values (us_recovery_required L)). qa_source_ref a \<noteq> [] \<and>
        qa_source_epoch a \<noteq> 0 \<and> qa_bucket_id a \<noteq> [] \<and> 0 \<le> qa_started_at_ms a)"
proof -
  have "(\<exists>(src, start) \<in> S. src = [] \<or> start < 0) \<longleftrightarrow>
      \<not> (\<forall>(src, start) \<in> S. src \<noteq> [] \<and> 0 \<le> start)" for S :: "(string \<times> int) set"
    by (simp add: case_prod_beta not_le)
  moreover have "(\<exists>a \<in> A. qa_source_ref a = [] \<or> qa_source_epoch a = 0 \<or> qa_bucket_id a = [] \<or>
      qa_started_at_ms a < 0) \<longleftrightarrow> \<not> (\<forall>a \<in> A. qa_source_ref a \<noteq> [] \<and> qa_source_epoch a \<noteq> 0 \<and>
      qa_bucket_id a \<noteq> [] \<and> 0 \<le> qa_started_at_ms a)" for A :: "QuotaAttribution set"
    by (simp add: not_le)
  ultimately show ?thesis by (simp only: validate_metadata_def) simp
qed

lemma settle_recovery_values:
  "set (bt_values (settle_recovery l a m)) \<subseteq> insert a (set (bt_values m))"
  using bt_values_insert_subset [of "ul_request_id l" a m]
  by (auto simp: settle_recovery_def bt_remove_def bt_values_def)

lemma version_list_snoc:
  assumes old: "version_list_ok json w key rid old" and e: "entry_ok json w key rid e" and r: "revises (last old) e"
  shows "version_list_ok json w key rid (old @ [e])"
proof -
  have "revises p e" if "p \<in> set old" for p
  proof (cases "p = last old")
    case False
    with that old have "revises p (last old)"
      using sorted_wrt_last [of revises old p] by (simp add: version_list_ok_def)
    with r show ?thesis using revises_transp by (blast dest: transpD)
  qed (simp add: r)
  with old e show ?thesis by (auto simp: version_list_ok_def sorted_wrt_append)
qed

lemma next_mark_unused:
  assumes inv: "usage_inv json L"
  shows "count (marks L) (us_watermark L + 1) = 0"
proof -
  have wf: "usage_wf L" using inv by (simp add: usage_inv_def)
  have "w \<le> us_watermark L" if "w \<in> set (scope_marks (us_entries L))" for w
  proof -
    from that obtain k rs r vs e where "(k, rs) \<in> set (us_entries L)" "(r, vs) \<in> set rs" "e \<in> set vs"
      "w = ue_watermark e" by (auto simp: scope_marks_def record_marks_def)
    with versions_mem [OF wf] usage_inv_versions [OF inv] show ?thesis
      by (fastforce simp: version_list_ok_def entry_ok_def)
  qed
  from this [of "us_watermark L + 1"] show ?thesis by (auto simp: mset_scope_marks [symmetric])
qed

lemma record_usage_inv:
  assumes inv: "usage_inv json L" and res: "record_usage json L l = (L', Ok b)"
  shows "usage_inv json L'"
  using inv res
proof (cases rule: record_usage_cases)
  case (push a share user key e)
  let ?rid = "ul_request_id l"
  have wf: "usage_wf L" using inv by (simp add: usage_inv_def)
  have en: "us_entries L' = push_entry key ?rid [e] (us_entries L)" using push by simp
  note vs' = versions_push_entry [OF en]
  have "usage_wf L'"
    using usage_wf_push_entry [OF wf, of key ?rid "[e]"] push(11)
    by (auto simp: usage_wf_def settle_recovery_def)
  moreover from push(2,6) have a: "qa_source_ref a \<noteq> []" "qa_source_epoch a \<noteq> 0" "qa_bucket_id a \<noteq> []"
    "0 \<le> qa_started_at_ms a" by (auto simp: validate_log_def split: if_splits)
  have "validate_metadata L' = Ok ()"
    using inv a settle_recovery_values [of l a "us_recovery_required L"] push(11)
    by (auto simp: usage_inv_def validate_metadata_iff)
  moreover have "version_list_ok json (us_watermark L') k r vs" if "versions L' k r = Some vs" for k r vs
  proof (cases "k = key \<and> r = ?rid")
    case False
    with that vs' have "versions L k r = Some vs" by auto
    with inv have "version_list_ok json (us_watermark L) k r vs" by (rule usage_inv_versions)
    with push(11) show ?thesis by (auto intro: version_list_ok_mono)
  next
    case True
    have e: "entry_ok json (us_watermark L') key ?rid e"
      using push(5,8,11) a by (simp add: entry_ok_def entry_scope_def new_entry_def scope_key_def)
    show ?thesis
    proof (cases "versions L key ?rid")
      case None
      with True that vs' e show ?thesis by (auto simp: version_list_ok_def)
    next
      case (Some old)
      with True that vs' have vs: "vs = old @ [e]" by auto
      from usage_inv_versions [OF inv Some] have old: "version_list_ok json (us_watermark L') key ?rid old"
        using push(11) by (auto intro: version_list_ok_mono)
      then have "last_version L key ?rid = Some (last old)"
        by (simp add: last_version_eq Some last_opt_def version_list_ok_def)
      with push(9) have "revises (last old) e" by blast
      with version_list_snoc [OF old e] True show ?thesis by (simp add: vs)
    qed
  qed
  moreover have "bt_get (us_record_scopes L') r = Some k \<longleftrightarrow> versions L' k r \<noteq> None" for k r
    using usage_inv_scopes [OF inv, of r k] push(10,11) vs' by (auto split: if_splits)
  moreover have "marks L' = marks L + {#us_watermark L + 1#}"
    using marks_push_entry [OF wf en] push(8) by (simp add: new_entry_def)
  moreover note next_mark_unused [OF inv]
  ultimately show ?thesis using inv push(11) by (auto simp: usage_inv_def)
qed (use inv in simp)

lemma begin_collection_inv:
  assumes "usage_inv json L" and "src \<noteq> []" and "0 \<le> at_ms"
  shows "usage_inv json (fst (begin_collection L src at_ms))"
proof -
  let ?L = "L\<lparr>us_coverage_from_ms := bt_insert src at_ms (us_coverage_from_ms L)\<rparr>"
  have wf: "bt_wf (us_coverage_from_ms L)" using assms(1) by (simp add: usage_inv_def usage_wf_def)
  have "validate_metadata ?L = Ok ()"
    using assms wf by (auto simp: usage_inv_def validate_metadata_iff mem_bt_insert split: if_splits)
  with assms show ?thesis
    by (simp add: begin_collection_def usage_inv_def usage_wf_def versions_def marks_def)
qed

lemma recover_pending_inv:
  assumes inv: "usage_inv json L"
  shows "usage_inv json (fst (recover_pending L))"
proof -
  define go where "go = (\<lambda>(e :: QuotaUsageEntry) (required :: (string, QuotaAttribution) btree, changed).
    (bt_insert (ue_request_id e) (ue_attribution e) required,
     changed \<or> \<not> bt_contains required (ue_request_id e)))"
  define pending where "pending = filter ue_pending (List.map_filter last_opt
    (concat (map bt_values (bt_values (us_entries L)))))"
  have go: "set (bt_values (fst (fold go es x))) \<subseteq> ue_attribution ` set es \<union> set (bt_values (fst x)) \<and>
      (bt_wf (fst x) \<longrightarrow> bt_wf (fst (fold go es x)))" for es x
  proof (induction es arbitrary: x)
    case (Cons e es)
    obtain m b where x: "x = (m, b)" by (cases x)
    show ?case using Cons.IH [of "go e x"] bt_values_insert_subset [of "ue_request_id e" "ue_attribution e" m]
      by (auto simp: x go_def)
  qed simp
  have wf: "usage_wf L" using inv by (simp add: usage_inv_def)
  have pend: "\<exists>k r. entry_ok json (us_watermark L) k r e" if "e \<in> set pending" for e
  proof -
    from that obtain k rs r vs where "(k, rs) \<in> set (us_entries L)" "(r, vs) \<in> set rs" "last_opt vs = Some e"
      by (auto simp: pending_def map_filter_def mem_bt_values)
    with versions_mem [OF wf] usage_inv_versions [OF inv] show ?thesis
      by (fastforce simp: version_list_ok_def last_opt_Some)
  qed
  have eq: "fst (recover_pending L) = L\<lparr>us_recovery_required := fst (fold go pending (us_recovery_required L, False))\<rparr>"
    by (simp add: recover_pending_def go_def pending_def case_prod_beta Let_def)
  have old: "validate_metadata L = Ok ()" using inv by (simp add: usage_inv_def)
  have "qa_source_ref a \<noteq> [] \<and> qa_source_epoch a \<noteq> 0 \<and> qa_bucket_id a \<noteq> [] \<and> 0 \<le> qa_started_at_ms a"
    if "a \<in> set (bt_values (fst (fold go pending (us_recovery_required L, False))))" for a
  proof -
    from that go [of pending "(us_recovery_required L, False)"]
    have "a \<in> ue_attribution ` set pending \<or> a \<in> set (bt_values (us_recovery_required L))" by auto
    with pend old show ?thesis by (auto simp: entry_ok_def validate_metadata_iff)
  qed
  with old have "validate_metadata (fst (recover_pending L)) = Ok ()"
    by (simp add: eq validate_metadata_iff)
  with inv go [of pending "(us_recovery_required L, False)"] show ?thesis
    by (simp add: eq usage_inv_def usage_wf_def versions_def marks_def)
qed

inductive usage_step :: "json_encoder \<Rightarrow> QuotaUsageLedger \<Rightarrow> QuotaUsageLedger \<Rightarrow> bool"
  for json :: json_encoder where
  commit: "record_usage json L l = (L', Ok changed) \<Longrightarrow> usage_step json L L'"
| collect: "begin_collection L src at_ms = (L', changed) \<Longrightarrow> src \<noteq> [] \<Longrightarrow> 0 \<le> at_ms \<Longrightarrow>
    usage_step json L L'"
| recover: "recover_pending L = (L', changed) \<Longrightarrow> usage_step json L L'"

text \<open>
  The server starts from an empty ledger or from one it has loaded, which it validates; a
  loaded ledger is built of \<open>BTreeMap\<close>s.
\<close>

definition usage_start :: "json_encoder \<Rightarrow> QuotaUsageLedger \<Rightarrow> bool" where
  "usage_start json L \<longleftrightarrow> L = default_usage_ledger \<or> usage_wf L \<and> validate_usage json L = Ok ()"

lemma default_usage_inv: "usage_inv json default_usage_ledger"
  by (simp add: usage_inv_def default_usage_ledger_def usage_wf_def bt_values_def validate_metadata_def
      versions_def marks_def)

interpretation usage: transition_system "usage_start json" "usage_step json" "usage_inv json" for json
proof unfold_locales
  show "usage_start json L \<Longrightarrow> usage_inv json L" for L
    using validate_usage_iff default_usage_inv by (auto simp: usage_start_def)
  show "usage_inv json L \<Longrightarrow> usage_step json L L' \<Longrightarrow> usage_inv json L'" for L L'
    by (erule usage_step.cases) (auto intro: record_usage_inv
        dest: begin_collection_inv recover_pending_inv simp: fst_def split: prod.splits)
qed

subsection \<open>Queries\<close>

definition counted :: "AccountQuotaCycle \<Rightarrow> nat \<Rightarrow> QuotaUsageEntry list \<Rightarrow> QuotaUsageEntry option" where
  "counted c w vs = (case version_at w vs of
     None \<Rightarrow> None
   | Some e \<Rightarrow> if cycle_contains c (qa_started_at_ms (ue_attribution e)) then Some e else None)"

definition token_share :: "AccountQuotaCycle \<Rightarrow> nat \<Rightarrow> QuotaUsageEntry list \<Rightarrow> nat" where
  "token_share c w vs = (case counted c w vs of None \<Rightarrow> 0 | Some e \<Rightarrow> ue_tokens e)"

definition request_share :: "AccountQuotaCycle \<Rightarrow> nat \<Rightarrow> QuotaUsageEntry list \<Rightarrow> nat" where
  "request_share c w vs = (case counted c w vs of None \<Rightarrow> 0 | Some e \<Rightarrow> if ue_count_request e then 1 else 0)"

lemma query_loop_Ok:
  assumes "t \<le> u64_max" and "n \<le> u64_max"
  shows "query_loop c w vss t n = Ok (t', n') \<longleftrightarrow>
    t' = t + sum_list (map (token_share c w) vss) \<and> n' = n + sum_list (map (request_share c w) vss) \<and>
    t' \<le> u64_max \<and> n' \<le> u64_max"
  using assms
proof (induction vss arbitrary: t n)
  case (Cons vs vss)
  show ?case
  proof (cases "counted c w vs")
    case None
    with Cons show ?thesis
      by (auto simp: counted_def token_share_def request_share_def split: option.splits if_splits)
  next
    case (Some e)
    then have e: "version_at w vs = Some e" "cycle_contains c (qa_started_at_ms (ue_attribution e))"
      by (auto simp: counted_def split: option.splits if_splits)
    show ?thesis
    proof (cases "t + ue_tokens e \<le> u64_max \<and> n + (if ue_count_request e then 1 else 0) \<le> u64_max")
      case True
      with e Some Cons.IH show ?thesis
        by (auto simp: token_share_def request_share_def result_iff)
    next
      case False
      with e Some show ?thesis by (auto simp: token_share_def request_share_def result_iff)
    qed
  qed
qed auto

lemma query_loop_visible:
  "query_loop c w vss t n = query_loop c w (map (\<lambda>e. [e]) (List.map_filter (version_at w) vss)) t n"
proof (induction vss arbitrary: t n)
  case (Cons vs vss)
  have "version_at w [e] = Some e" if "version_at w vs = Some e" for e
    using that by (auto simp: version_at_def dest: find_Some_iff2)
  moreover have "query_loop c w vss = query_loop c w (map (\<lambda>e. [e]) (List.map_filter (version_at w) vss))"
    by (intro ext Cons.IH)
  ultimately show ?case
    by (auto simp: map_filter_simps split: option.splits)
qed (simp add: map_filter_simps)

lemma version_at_snoc:
  "version_at w (vs @ [e]) = (if ue_watermark e \<le> w then Some e else version_at w vs)"
  by (simp add: version_at_def)

lemma version_at_Nil [simp]: "version_at w [] = None"
  by (simp add: version_at_def)

lemma version_at_latest:
  assumes "version_list_ok json w key rid vs"
  shows "version_at w vs = last_opt vs"
proof -
  from assms have "vs \<noteq> []" "ue_watermark (last vs) \<le> w" by (auto simp: version_list_ok_def entry_ok_def)
  then show ?thesis using version_at_snoc [of w "butlast vs" "last vs"] by (simp add: last_opt_def)
qed

text \<open>The entries a query of a scope at a watermark sees, in the order of the records.\<close>

definition visible :: "QuotaUsageLedger \<Rightarrow> string \<Rightarrow> nat \<Rightarrow> QuotaUsageEntry list" where
  "visible L key w = (case bt_get (us_entries L) key of
     None \<Rightarrow> [] | Some records \<Rightarrow> List.map_filter (version_at w) (bt_values records))"

lemma query_visible:
  "query_usage json L c share user w = (if complete_for L c
     then query_loop c w (map (\<lambda>e. [e]) (visible L (scope_key json (cy_source_ref c)
       (cy_source_epoch c) (cy_bucket_id c) share user) w)) 0 0
     else Err ''history_incomplete'')"
  using query_loop_visible [of c w]
  by (auto simp: query_usage_def visible_def split: option.splits)

lemma visible_push_entry:
  assumes wf: "usage_wf L" and en: "us_entries L' = push_entry k r [e] (us_entries L)"
    and "key \<noteq> k \<or> w < ue_watermark e"
  shows "visible L' key w = visible L key w"
proof (cases "key = k")
  case True
  with assms(3) have later: "w < ue_watermark e" by simp
  let ?rs = "case bt_get (us_entries L) k of None \<Rightarrow> [] | Some rs \<Rightarrow> rs"
  have "bt_wf ?rs"
    using wf bt_get_Some_mem by (force simp: usage_wf_def mem_bt_values split: option.splits)
  then have "List.map_filter (version_at w) (bt_values (bt_insert r
      ((case bt_get ?rs r of None \<Rightarrow> [] | Some vs \<Rightarrow> vs) @ [e]) ?rs)) =
      List.map_filter (version_at w) (bt_values ?rs)"
    using later by (intro map_filter_bt_insert) (auto simp: version_at_snoc split: option.splits)
  with True show ?thesis
    by (simp add: visible_def en push_entry_def bt_update_default_def [of r] bt_values_def
        map_filter_simps split: option.splits)
next
  case False
  then show ?thesis by (simp add: visible_def en push_entry_def)
qed

text \<open>How one commit moves the sums of its scope.\<close>

definition scope_sum :: "(QuotaUsageEntry list \<Rightarrow> nat) \<Rightarrow> QuotaUsageLedger \<Rightarrow> string \<Rightarrow> nat" where
  "scope_sum h L key = (case bt_get (us_entries L) key of None \<Rightarrow> 0 | Some records \<Rightarrow> bt_sum h records)"

lemma query_Ok:
  "query_usage json L c share user w = Ok (t, n) \<longleftrightarrow> complete_for L c \<and>
     t = scope_sum (token_share c w) L (scope_key json (cy_source_ref c) (cy_source_epoch c) (cy_bucket_id c) share user) \<and>
     n = scope_sum (request_share c w) L (scope_key json (cy_source_ref c) (cy_source_epoch c) (cy_bucket_id c) share user) \<and>
     t \<le> u64_max \<and> n \<le> u64_max"
  by (auto simp: query_usage_def scope_sum_def query_loop_Ok bt_sum_def bt_values_def split: option.splits)

lemma scope_sum_push:
  assumes wf: "usage_wf L" and en: "us_entries L' = push_entry key rid [e] (us_entries L)"
    and h: "h [] = 0"
  shows "scope_sum h L' key + h (case versions L key rid of None \<Rightarrow> [] | Some vs \<Rightarrow> vs) =
    scope_sum h L key + h ((case versions L key rid of None \<Rightarrow> [] | Some vs \<Rightarrow> vs) @ [e])"
proof (cases "bt_get (us_entries L) key")
  case None
  with h show ?thesis by (simp add: scope_sum_def en push_entry_def versions_def bt_update_default_def)
next
  case (Some rs)
  have "bt_wf rs" using wf bt_get_Some_mem [OF Some] by (auto simp: usage_wf_def mem_bt_values)
  from bt_sum_insert [OF this, of h rid "(case bt_get rs rid of None \<Rightarrow> [] | Some vs \<Rightarrow> vs) @ [e]"] Some h
  show ?thesis
    by (auto simp: scope_sum_def en push_entry_def versions_def bt_update_default_def split: option.splits)
qed

lemma scope_sum_at:
  assumes inv: "usage_inv json L" and later: "us_watermark L \<le> w"
  shows "scope_sum (token_share c w) L key = scope_sum (token_share c (us_watermark L)) L key"
    and "scope_sum (request_share c w) L key = scope_sum (request_share c (us_watermark L)) L key"
proof -
  have wf: "usage_wf L" using inv by (simp add: usage_inv_def)
  have "counted c w vs = counted c (us_watermark L) vs"
    if "bt_get (us_entries L) key = Some rs" "(rid, vs) \<in> set rs" for rs rid vs
  proof -
    from bt_get_Some_mem [OF that(1)] that(2) have "versions L key rid = Some vs"
      unfolding versions_mem [OF wf] by (intro exI conjI)
    then have vl: "version_list_ok json (us_watermark L) key rid vs" by (rule usage_inv_versions [OF inv])
    with later show ?thesis
      using version_at_latest [OF vl] version_at_latest [OF version_list_ok_mono [OF vl]]
      by (simp add: counted_def)
  qed
  then show "scope_sum (token_share c w) L key = scope_sum (token_share c (us_watermark L)) L key"
    and "scope_sum (request_share c w) L key = scope_sum (request_share c (us_watermark L)) L key"
    by (auto simp: scope_sum_def token_share_def request_share_def intro!: bt_sum_cong split: option.splits)
qed

text \<open>
  A baseline counts exactly the usage since it was set, in both directions, within the
  bounds of the counter.
\<close>

lemma effective_with_baseline_eq:
  "effective_with_baseline observed target at_edit =
     (if target + observed \<le> at_edit then 0 else min u64_max (target + observed - at_edit))"
  by (auto simp: effective_with_baseline_def min_def)

subsection \<open>A concrete ledger\<close>

text \<open>A length-free encoding of scopes: every character is escaped, every part terminated.\<close>

definition demo_part :: "string \<Rightarrow> string" where
  "demo_part s = concat (map (\<lambda>c. [CHR ''.'', c]) s) @ ''|''"

definition demo_json :: json_encoder where
  "demo_json x = (case x of (a, n, b, c, d) \<Rightarrow>
     demo_part a @ demo_part (show_nat n) @ demo_part b @ demo_part c @ demo_part d)"

lemma demo_part_append: "demo_part s @ t = demo_part s' @ t' \<longleftrightarrow> s = s' \<and> t = t'"
proof (induction s arbitrary: s')
  case Nil
  then show ?case by (cases s') (auto simp: demo_part_def)
next
  case (Cons a s)
  show ?case
  proof (cases s')
    case Nil
    then show ?thesis by (simp add: demo_part_def)
  next
    case (Cons b r)
    with Cons.IH [of r] show ?thesis by (auto simp: demo_part_def)
  qed
qed

lemma demo_json_inj: "inj demo_json"
proof (rule injI)
  fix x y :: scope
  assume "demo_json x = demo_json y"
  moreover have "demo_part d = demo_part d' \<longleftrightarrow> d = d'" for d d'
    using demo_part_append [of d "[]" d' "[]"] by simp
  ultimately show "x = y"
    by (cases x; cases y) (auto simp: demo_json_def demo_part_append)
qed

definition demo_attribution :: QuotaAttribution where
  "demo_attribution = \<lparr>qa_source_ref = ''aa'', qa_source_epoch = 1, qa_bucket_id = ''w'',
     qa_started_at_ms = 1500\<rparr>"

definition demo_log :: "nat \<Rightarrow> nat \<Rightarrow> UsageLog" where
  "demo_log revision tokens = \<lparr>ul_request_id = ''r1'', ul_quota_attribution = Some demo_attribution,
     ul_record_kind = UserInference, ul_parent_request_id = None, ul_provider_id = ''p'',
     ul_failure_kind = None, ul_started_at_ms = 1500, ul_completed_at_ms = 1600,
     ul_input_tokens = Some tokens, ul_output_tokens = None, ul_cache_read_tokens = None,
     ul_cache_creation_tokens = None, ul_total_tokens = None, ul_share_id = Some ''s'',
     ul_user_email = Some ''U'', ul_usage_state = Observed, ul_usage_revision = revision,
     ul_created_at_ms = 1600, ul_status_code = 200, ul_is_health_check = False\<rparr>"

definition demo_quota_cycle :: AccountQuotaCycle where
  "demo_quota_cycle = \<lparr>cy_stream_incarnation = ''a'', cy_source_ref = ''aa'', cy_source_epoch = 1,
     cy_bucket_id = ''w'', cy_cycle_id = ''c'', cy_cycle_sequence = 1, cy_cycle_revision = 1,
     cy_starts_at_ms = 1000, cy_ends_at_ms = Some 9000, cy_basis = UpstreamWindow,
     cy_observed_at_ms = 2000, cy_event_id = ''e''\<rparr>"

definition demo_usage0 :: QuotaUsageLedger where
  "demo_usage0 = fst (begin_collection default_usage_ledger ''aa'' 1000)"

definition demo_usage1 :: QuotaUsageLedger where
  "demo_usage1 = fst (record_usage demo_json demo_usage0 (demo_log 1 100))"

definition demo_usage2 :: QuotaUsageLedger where
  "demo_usage2 = fst (record_usage demo_json demo_usage1 (demo_log 2 250))"

lemmas demo_eval = record_usage_def validate_log_def previous_scope_def last_version_def
  push_entry_def bt_update_default_def new_entry_def settle_recovery_def log_scope_def same_start_def
  quota_tokens_def processed_tokens_def opt0_def saturating_add_u64_def checked_add_u64_def
  checked_unsigned_def int_limits demo_attribution_def Let_def bt_remove_def

lemma demo_usage0_eq: "demo_usage0 = default_usage_ledger\<lparr>us_coverage_from_ms := [(''aa'', 1000)]\<rparr>"
  by (simp add: demo_usage0_def begin_collection_def default_usage_ledger_def bt_contains_def)

lemma demo_record1: "record_usage demo_json demo_usage0 (demo_log 1 100) = (demo_usage1, Ok True)"
  by (simp add: demo_usage1_def demo_usage0_eq default_usage_ledger_def demo_log_def demo_eval)

lemma demo_usage1_eq:
  "demo_usage1 = demo_usage0\<lparr>us_watermark := 1,
     us_record_scopes := [(''r1'', scope_key demo_json ''aa'' 1 ''w'' ''s'' ''U'')],
     us_entries := [(scope_key demo_json ''aa'' 1 ''w'' ''s'' ''U'',
       [(''r1'', [new_entry (demo_log 1 100) demo_attribution ''s'' ''U'' 1])])]\<rparr>"
  by (simp add: demo_usage1_def demo_usage0_eq default_usage_ledger_def demo_log_def demo_eval bt_get_Cons)

lemma demo_record2: "record_usage demo_json demo_usage1 (demo_log 2 250) = (demo_usage2, Ok True)"
  by (simp add: demo_usage2_def demo_usage1_eq demo_usage0_eq default_usage_ledger_def demo_log_def
      demo_eval bt_get_Cons last_opt_def)

lemma demo_usage_reach: "(usage_step demo_json)\<^sup>*\<^sup>* default_usage_ledger demo_usage1"
proof -
  have "usage_step demo_json default_usage_ledger demo_usage0"
    by (rule usage_step.collect [of _ "''aa''" 1000])
      (auto simp: demo_usage0_def begin_collection_def default_usage_ledger_def bt_contains_def)
  moreover have "usage_step demo_json demo_usage0 demo_usage1"
    using demo_record1 by (rule usage_step.commit)
  ultimately show ?thesis by (meson rtranclp.rtrancl_into_rtrancl rtranclp.rtrancl_refl)
qed

lemma demo_usage_start: "usage_start demo_json default_usage_ledger"
  by (simp add: usage_start_def)

lemma demo_usage1_inv: "usage_inv demo_json demo_usage1"
  by (rule usage.reachable_inv [OF demo_usage_start demo_usage_reach])

lemma demo_complete:
  "complete_for demo_usage1 demo_quota_cycle" "complete_for demo_usage2 demo_quota_cycle"
  by (simp_all add: complete_for_def demo_usage2_def demo_usage1_eq demo_usage0_eq default_usage_ledger_def
      bt_get_Cons demo_quota_cycle_def bt_values_def demo_log_def demo_eval last_opt_def)

lemma demo_last_version:
  "last_version demo_usage1 (log_scope demo_json demo_attribution (demo_log 2 250)) ''r1'' =
   Some (new_entry (demo_log 1 100) demo_attribution ''s'' ''U'' 1)"
  by (simp add: last_version_def demo_usage1_eq bt_get_Cons log_scope_def demo_log_def
      demo_attribution_def last_opt_def)

lemma demo_queries:
  "query_usage demo_json demo_usage1 demo_quota_cycle ''s'' ''U'' (us_watermark demo_usage1) = Ok (100, 1)"
  "query_usage demo_json demo_usage2 demo_quota_cycle ''s'' ''U'' (us_watermark demo_usage2) = Ok (250, 1)"
  using demo_complete
  by (simp_all add: query_usage_def demo_usage2_def demo_usage1_eq demo_usage0_eq default_usage_ledger_def
      bt_get_Cons demo_quota_cycle_def bt_values_def demo_log_def demo_eval last_opt_def
      version_at_def cycle_contains_def)

subsection \<open>Properties\<close>

text \<open>
  C7. From an empty ledger, or from any stored one that loaded, every sequence of committed
  records, new collections and crash recoveries leads to a ledger that \<open>validate\<close> accepts:
  each request stays in one scope, revisions grow, and the watermarks of all revisions are
  exactly the numbers up to the current one.
\<close>

theorem usage_ledger_valid:
  assumes "usage_start json L" and "(usage_step json)\<^sup>*\<^sup>* L L'"
  shows "validate_usage json L' = Ok ()"
  using usage.reachable_inv [OF assms] validate_usage_iff by (simp add: usage_inv_def)

theorem usage_ledger_valid_witness:
  "validate_usage demo_json demo_usage1 = Ok () \<and> us_watermark demo_usage1 = 1"
  using usage_ledger_valid [OF demo_usage_start demo_usage_reach] by (simp add: demo_usage1_eq)

text \<open>
  A commit can reach an earlier snapshot in one way only: through the list of requests that
  wait for recovery, which decides whether the history of a cycle is complete. A record of a
  request that a restart interrupted puts the request on the list; a later record of a request
  on the list takes it off once its usage is observed.
\<close>

definition charged_in :: "QuotaAttribution \<Rightarrow> AccountQuotaCycle \<Rightarrow> bool" where
  "charged_in a c \<longleftrightarrow> qa_source_ref a = cy_source_ref c \<and> qa_source_epoch a = cy_source_epoch c \<and>
     qa_bucket_id a = cy_bucket_id c \<and> cycle_contains c (qa_started_at_ms a)"

definition interrupts :: "UsageLog \<Rightarrow> AccountQuotaCycle \<Rightarrow> bool" where
  "interrupts l c \<longleftrightarrow> ul_failure_kind l = Some ''server_restarted'' \<and>
     (case ul_quota_attribution l of None \<Rightarrow> False | Some a \<Rightarrow> charged_in a c)"

definition settles :: "QuotaUsageLedger \<Rightarrow> UsageLog \<Rightarrow> AccountQuotaCycle \<Rightarrow> bool" where
  "settles L l c \<longleftrightarrow> (ul_failure_kind l = Some ''server_restarted'' \<or> ul_usage_state l = Observed) \<and>
     (case bt_get (us_recovery_required L) (ul_request_id l) of
        None \<Rightarrow> False | Some a \<Rightarrow> charged_in a c)"

definition without_recovery :: "string \<Rightarrow> QuotaUsageLedger \<Rightarrow> QuotaUsageLedger" where
  "without_recovery rid L = L\<lparr>us_recovery_required := bt_remove rid (us_recovery_required L)\<rparr>"

lemma complete_for_recovery:
  assumes "usage_wf L"
  shows "complete_for L c \<longleftrightarrow> us_schema_version L = 1 \<and> us_integrity_error L = None \<and>
     (case bt_get (us_coverage_from_ms L) (cy_source_ref c) of
        None \<Rightarrow> False | Some start \<Rightarrow> start \<le> cy_starts_at_ms c) \<and>
     (\<forall>rid a. bt_get (us_recovery_required L) rid = Some a \<longrightarrow> \<not> charged_in a c)"
  using assms
  by (fastforce simp: complete_for_def charged_in_def usage_wf_def mem_bt_values bt_get_iff_mem)

lemma settles_incomplete:
  assumes "usage_wf L" and "settles L l c"
  shows "\<not> complete_for L c"
  using assms(2) by (auto simp: complete_for_recovery [OF assms(1)] settles_def split: option.splits)

text \<open>
  A commit that leaves the visible entries of a scope alone changes the answer of its query
  only by what it does to that list.
\<close>

lemma query_after_record:
  assumes inv: "usage_inv json L" and rec: "record_usage json L l = (L', Ok changed)"
    and vis: "\<And>k. k = scope_key json (cy_source_ref c) (cy_source_epoch c) (cy_bucket_id c) share user \<Longrightarrow>
      visible L' k w = visible L k w"
  shows "query_usage json L' c share user w =
    (if changed \<and> interrupts l c then Err ''history_incomplete''
     else if changed \<and> settles L l c
     then query_usage json (without_recovery (ul_request_id l) L) c share user w
     else query_usage json L c share user w)"
proof -
  let ?R = "without_recovery (ul_request_id l) L"
  have wf: "usage_wf L" "usage_wf ?R" and wf': "usage_wf L'"
    using inv record_usage_inv [OF inv rec] by (auto simp: usage_inv_def usage_wf_def without_recovery_def)
  have visR: "visible ?R k w = visible L k w" for k by (simp add: visible_def without_recovery_def)
  from inv rec show ?thesis
  proof (cases rule: record_usage_cases)
    case (push a s u key e)
    let ?open = "\<lambda>m. \<forall>rid a. bt_get m rid = Some a \<longrightarrow> \<not> charged_in a c"
    have "bt_wf (us_recovery_required L)" using wf by (simp add: usage_wf_def)
    then have "?open (us_recovery_required L') \<longleftrightarrow>
        \<not> interrupts l c \<and> ?open (us_recovery_required (if settles L l c then ?R else L))"
      unfolding push(11)
      by (cases "bt_get (us_recovery_required L) (ul_request_id l)")
        (auto simp: interrupts_def settles_def settle_recovery_def without_recovery_def push(2),
          (metis option.inject option.distinct(1))+)
    then have "complete_for L' c \<longleftrightarrow> \<not> interrupts l c \<and> complete_for (if settles L l c then ?R else L) c"
      using wf wf' push(11) by (simp add: complete_for_recovery without_recovery_def) blast
    with push(1) show ?thesis by (simp add: query_visible vis visR)
  qed simp
qed

text \<open>
  C8. Snapshots are immutable: committing another record does not change what a query at an
  earlier watermark counts, so a baseline set at a watermark keeps its meaning. The one thing a
  commit can change is whether the query is answered at all: the record of a request charged to
  the cycle that a restart interrupted turns the answer into \<open>history_incomplete\<close>, and a record
  that settles such a request takes it off the recovery list again, after which the query
  answers what it would have answered had the request never been on it.
\<close>

theorem query_snapshot_stable:
  assumes "usage_start json L0" and "(usage_step json)\<^sup>*\<^sup>* L0 L"
    and "record_usage json L l = (L', Ok changed)" and "w \<le> us_watermark L"
  shows "query_usage json L' c share user w =
    (if changed \<and> interrupts l c then Err ''history_incomplete''
     else if changed \<and> settles L l c
     then query_usage json (without_recovery (ul_request_id l) L) c share user w
     else query_usage json L c share user w) \<and>
    (settles L l c \<longrightarrow> query_usage json L c share user w = Err ''history_incomplete'')"
proof
  have inv: "usage_inv json L" by (rule usage.reachable_inv [OF assms(1,2)])
  then show "settles L l c \<longrightarrow> query_usage json L c share user w = Err ''history_incomplete''"
    using settles_incomplete [of L l c] by (simp add: query_visible usage_inv_def)
  show "query_usage json L' c share user w =
    (if changed \<and> interrupts l c then Err ''history_incomplete''
     else if changed \<and> settles L l c
     then query_usage json (without_recovery (ul_request_id l) L) c share user w
     else query_usage json L c share user w)"
  proof (rule query_after_record [OF inv assms(3)])
    fix k
    from inv assms(3) show "visible L' k w = visible L k w"
    proof (cases rule: record_usage_cases)
      case (push a s u key e)
      show ?thesis
        by (rule visible_push_entry [of L L' key "ul_request_id l" e])
          (use inv push assms(4) in \<open>auto simp: usage_inv_def new_entry_def\<close>)
    qed simp
  qed
qed

text \<open>The same request after a restart, at its next revision; the next one settles it.\<close>

definition demo_restart :: UsageLog where
  "demo_restart = (demo_log 2 100)\<lparr>ul_failure_kind := Some ''server_restarted'', ul_usage_state := Missing\<rparr>"

definition demo_usage3 :: QuotaUsageLedger where
  "demo_usage3 = fst (record_usage demo_json demo_usage1 demo_restart)"

lemma demo_record3: "record_usage demo_json demo_usage1 demo_restart = (demo_usage3, Ok True)"
  by (simp add: demo_usage3_def demo_restart_def demo_usage1_eq demo_usage0_eq default_usage_ledger_def
      demo_log_def demo_eval bt_get_Cons last_opt_def)

lemma demo_interrupts: "interrupts demo_restart demo_quota_cycle" "\<not> interrupts (demo_log 2 250) demo_quota_cycle"
    "\<not> settles demo_usage1 l demo_quota_cycle"
  by (simp_all add: interrupts_def settles_def charged_in_def demo_restart_def demo_log_def demo_attribution_def
      demo_quota_cycle_def cycle_contains_def demo_usage1_eq demo_usage0_eq default_usage_ledger_def)

theorem query_snapshot_stable_witness:
  "query_usage demo_json demo_usage1 demo_quota_cycle ''s'' ''U'' 1 = Ok (100, 1) \<and>
   query_usage demo_json demo_usage2 demo_quota_cycle ''s'' ''U'' 1 = Ok (100, 1) \<and>
   query_usage demo_json demo_usage3 demo_quota_cycle ''s'' ''U'' 1 = Err ''history_incomplete''"
  using query_snapshot_stable [OF demo_usage_start demo_usage_reach demo_record2, of 1 demo_quota_cycle "''s''" "''U''"]
    query_snapshot_stable [OF demo_usage_start demo_usage_reach demo_record3, of 1 demo_quota_cycle "''s''" "''U''"]
    demo_queries(1) demo_interrupts
  by (simp add: demo_usage1_eq)

lemma token_share_latest:
  assumes "usage_inv json L" and "us_watermark L \<le> w" and "cycle_contains c (qa_started_at_ms a)"
    and "\<And>p. last_version L key i = Some p \<Longrightarrow> ue_attribution p = a"
  shows "token_share c w (case versions L key i of None \<Rightarrow> [] | Some vs \<Rightarrow> vs) =
    (case last_version L key i of None \<Rightarrow> 0 | Some p \<Rightarrow> ue_tokens p)"
proof (cases "versions L key i")
  case (Some vs)
  have vl: "version_list_ok json (us_watermark L) key i vs" by (rule usage_inv_versions [OF assms(1) Some])
  then have ne: "vs \<noteq> []" "last vs \<in> set vs" by (simp_all add: version_list_ok_def)
  have "version_at w vs = Some (last vs)"
    using version_at_latest [OF version_list_ok_mono [OF vl assms(2)]] ne by (simp add: last_opt_def)
  moreover have "last_version L key i = Some (last vs)" using Some ne by (simp add: last_version_eq last_opt_def)
  ultimately show ?thesis using Some assms(3,4) by (simp add: token_share_def counted_def)
qed (simp add: last_version_eq token_share_def counted_def)

text \<open>
  C9. A revision replaces, it is not charged on top: after a commit, the usage of the
  request's scope in the cycle it started in has grown by the new cumulative tokens minus
  those of the request's previous revision.
\<close>

theorem revision_replaces_usage:
  assumes "usage_start json L0" and "(usage_step json)\<^sup>*\<^sup>* L0 L"
    and "record_usage json L l = (L', Ok True)"
    and "ul_quota_attribution l = Some a" and "ul_share_id l = Some share" and "ul_user_email l = Some user"
    and "qa_source_ref a = cy_source_ref c" and "qa_source_epoch a = cy_source_epoch c"
    and "qa_bucket_id a = cy_bucket_id c" and "cycle_contains c (qa_started_at_ms a)"
    and "query_usage json L c share user (us_watermark L) = Ok (tokens, requests)"
    and "query_usage json L' c share user (us_watermark L') = Ok (tokens', requests')"
  shows "tokens' + (case last_version L (log_scope json a l) (ul_request_id l) of
      None \<Rightarrow> 0 | Some p \<Rightarrow> ue_tokens p) = tokens + quota_tokens l"
proof -
  have inv: "usage_inv json L" by (rule usage.reachable_inv [OF assms(1,2)])
  have inv': "usage_inv json L'" by (rule record_usage_inv [OF inv assms(3)])
  show ?thesis
    using inv assms(3)
  proof (cases rule: record_usage_cases)
    case (push a' s u key e)
    let ?rid = "ul_request_id l" and ?w = "us_watermark L'"
    let ?h = "token_share c ?w"
    have same: "a' = a" "s = share" "u = user" using push assms by simp_all
    have key: "key = log_scope json a l"
      "key = scope_key json (cy_source_ref c) (cy_source_epoch c) (cy_bucket_id c) share user"
      using push same assms by (simp_all add: log_scope_def)
    have w: "?w = us_watermark L + 1" and en: "us_entries L' = push_entry key ?rid [e] (us_entries L)"
      using push by simp_all
    have e: "qa_started_at_ms (ue_attribution e) = qa_started_at_ms a" "ue_watermark e = ?w"
      "ue_tokens e = quota_tokens l"
      using push same by (simp_all add: new_entry_def)
    have wf: "usage_wf L" using inv by (simp add: usage_inv_def)
    let ?vs = "case versions L key ?rid of None \<Rightarrow> [] | Some vs \<Rightarrow> vs"
    have new: "?h (?vs @ [e]) = quota_tokens l"
      using e assms(10) by (simp add: token_share_def counted_def version_at_snoc)
    have old: "?h ?vs = (case last_version L key ?rid of None \<Rightarrow> 0 | Some p \<Rightarrow> ue_tokens p)"
      using push(9) e(1) assms(10) w by (intro token_share_latest [OF inv, where a = "ue_attribution e"]) (auto simp: revises_def)
    have "scope_sum ?h L' key + ?h ?vs = scope_sum ?h L key + ?h (?vs @ [e])"
      by (rule scope_sum_push [OF wf en]) (simp add: token_share_def counted_def)
    moreover have "tokens' = scope_sum ?h L' key" using assms(12) by (simp add: query_Ok key(2))
    moreover have "tokens = scope_sum ?h L key"
      using assms(11) scope_sum_at(1) [OF inv, of ?w c key] w by (simp add: query_Ok key(2))
    ultimately show ?thesis using new old key(1) by simp
  qed simp
qed

theorem revision_replaces_usage_witness:
  "250 + ue_tokens (new_entry (demo_log 1 100) demo_attribution ''s'' ''U'' 1) =
   100 + quota_tokens (demo_log 2 250)"
  using revision_replaces_usage [OF demo_usage_start demo_usage_reach demo_record2 _ _ _ _ _ _ _ demo_queries,
      of demo_attribution] demo_last_version
  by (simp add: demo_log_def demo_attribution_def demo_quota_cycle_def cycle_contains_def)

text \<open>
  C10. Usage is charged to its own scope: a committed record does not move the usage of any
  other account, epoch, bucket, Share or user (compared as the ledger compares them), at any
  watermark. The scope encoding only has to be injective. As in C8, what such a record can do
  to another scope of the same account, epoch and bucket is to make its history incomplete
  (its request was interrupted by a restart) or, when it settles that request, to lift this
  again.
\<close>

theorem usage_scope_isolated:
  assumes "inj json" and "usage_start json L0" and "(usage_step json)\<^sup>*\<^sup>* L0 L"
    and "record_usage json L l = (L', Ok changed)"
    and "ul_quota_attribution l = Some a" and "ul_share_id l = Some s" and "ul_user_email l = Some u"
    and "(qa_source_ref a, qa_source_epoch a, qa_bucket_id a, s, to_ascii_lowercase u) \<noteq>
      (cy_source_ref c, cy_source_epoch c, cy_bucket_id c, share, to_ascii_lowercase user)"
  shows "query_usage json L' c share user w =
    (if changed \<and> interrupts l c then Err ''history_incomplete''
     else if changed \<and> settles L l c
     then query_usage json (without_recovery (ul_request_id l) L) c share user w
     else query_usage json L c share user w)"
proof -
  have inv: "usage_inv json L" by (rule usage.reachable_inv [OF assms(2,3)])
  show ?thesis
  proof (rule query_after_record [OF inv assms(4)])
    fix k
    assume k: "k = scope_key json (cy_source_ref c) (cy_source_epoch c) (cy_bucket_id c) share user"
    from inv assms(4) show "visible L' k w = visible L k w"
    proof (cases rule: record_usage_cases)
      case (push a' s' u' key e)
      have "a' = a" "s' = s" "u' = u" using push assms by simp_all
      then have "k \<noteq> key" using assms(1,8) push(5) by (auto simp: k scope_key_def dest!: injD)
      then show ?thesis
        using inv push
        by (intro visible_push_entry [of L L' key "ul_request_id l" e]) (auto simp: usage_inv_def)
    qed simp
  qed
qed

theorem usage_scope_isolated_witness:
  "query_usage demo_json demo_usage2 demo_quota_cycle ''other'' ''U'' 2 =
     query_usage demo_json demo_usage1 demo_quota_cycle ''other'' ''U'' 2 \<and>
   query_usage demo_json demo_usage3 demo_quota_cycle ''other'' ''U'' 2 = Err ''history_incomplete''"
  using usage_scope_isolated [OF demo_json_inj demo_usage_start demo_usage_reach demo_record2,
      of demo_attribution "''s''" "''U''" demo_quota_cycle "''other''" "''U''" 2]
    usage_scope_isolated [OF demo_json_inj demo_usage_start demo_usage_reach demo_record3,
      of demo_attribution "''s''" "''U''" demo_quota_cycle "''other''" "''U''" 2]
    demo_interrupts
  by (simp add: demo_restart_def demo_log_def)

text \<open>
  C11. Recording is idempotent: a record that was accepted can be delivered again (after a
  crash, a retry) without a second charge; the ledger does not change at all.
\<close>

theorem record_usage_replay:
  assumes "usage_start json L0" and "(usage_step json)\<^sup>*\<^sup>* L0 L"
    and "record_usage json L l = (L', Ok changed)"
  shows "record_usage json L' l = (L', Ok False)"
proof -
  have inv: "usage_inv json L" by (rule usage.reachable_inv [OF assms(1,2)])
  have inv': "usage_inv json L'" by (rule record_usage_inv [OF inv assms(3)])
  show ?thesis
    using inv assms(3)
  proof (cases rule: record_usage_cases)
    case skip
    with assms(3) show ?thesis by simp
  next
    case (push a s u key e)
    let ?rid = "ul_request_id l"
    have kind: "ul_record_kind l \<noteq> HealthProbe"
      using assms(3) push by (auto simp: record_usage_def split: if_splits)
    have last: "last_version L' key ?rid = Some e"
      using versions_push_entry [of L' key ?rid "[e]" L] push(11) by (simp add: last_version_eq)
    have prev: "previous_scope L' ?rid = Some key"
      using previous_scope_eq [OF inv'] push(11) by simp
    have key: "log_scope json a l = key" using push by (simp add: log_scope_def)
    have e: "ue_attribution e = a" "ue_parent_request_id e = ul_parent_request_id l"
      "ue_count_request e = (ul_record_kind l = UserInference)"
      "ue_usage_revision e = ul_usage_revision l" "ue_tokens e = quota_tokens l"
      using push(8) by (simp_all add: new_entry_def)
    have "us_schema_version L' = us_schema_version L" using push(11) by simp
    then have "validate_log json L' l = Ok ()"
      using push(2,6) prev last key e by (auto simp: validate_log_def Let_def split: if_splits)
    moreover have vs: "versions L' key ?rid \<noteq> None" using last
      by (cases "versions L' key ?rid") (auto simp: last_version_eq)
    moreover have "bt_insert ?rid key (us_record_scopes L') = us_record_scopes L'"
      by (simp add: push(11))
    moreover have "push_entry key ?rid [] (us_entries L') = us_entries L'"
      using push_entry_Nil [of L' key ?rid] vs inv' by (auto simp: usage_inv_def)
    ultimately show ?thesis
      using push(2-5) kind last e(4) by (simp add: record_usage_def Let_def)
  qed
qed

theorem record_usage_replay_witness:
  "record_usage demo_json demo_usage2 (demo_log 2 250) = (demo_usage2, Ok False)"
  by (rule record_usage_replay [OF demo_usage_start demo_usage_reach demo_record2])

end
