(* ===== verification/Quota_Ledger_Store.thy ===== *)
theory Quota_Ledger_Store
  imports Quota_Ledger_Props
begin

section \<open>The exact usage ledger: storage\<close>

text \<open>
  The database keeps the metadata and one row per revision. Loading the rows in the order of
  their watermarks rebuilds the ledger exactly, and committing one revision against the
  metadata and the last row of its request (what the server does) writes the row that
  committing it against the whole ledger would.
\<close>

subsection \<open>Inserting rows\<close>

definition rows_of :: "json_encoder \<Rightarrow> string \<Rightarrow> string \<Rightarrow> QuotaUsageEntry list \<Rightarrow> QuotaUsageEntry list" where
  "rows_of json key rid es = filter (\<lambda>e. entry_scope json e = key \<and> ue_request_id e = rid) es"

lemma insert_rows_versions:
  assumes "usage_wf L"
    and "\<And>e. e \<in> set es \<Longrightarrow> scopes (ue_request_id e) = entry_scope json e"
    and "\<And>rid key. bt_get (us_record_scopes L) rid = Some key \<Longrightarrow> scopes rid = key"
  shows "\<exists>L'. insert_rows json L es = Ok L' \<and> usage_wf L' \<and> metadata L' = metadata L \<and>
    (\<forall>key rid. versions L' key rid = (if rows_of json key rid es = [] then versions L key rid
       else Some ((case versions L key rid of None \<Rightarrow> [] | Some vs \<Rightarrow> vs) @ rows_of json key rid es))) \<and>
    (\<forall>rid. bt_get (us_record_scopes L') rid =
       (if rid \<in> ue_request_id ` set es then Some (scopes rid) else bt_get (us_record_scopes L) rid))"
  using assms
proof (induction es arbitrary: L)
  case (Cons e es)
  let ?key = "entry_scope json e" and ?rid = "ue_request_id e"
  define L1 where "L1 = L\<lparr>us_record_scopes := bt_insert ?rid ?key (us_record_scopes L),
    us_entries := push_entry ?key ?rid [e] (us_entries L)\<rparr>"
  have "bt_get (us_record_scopes L) ?rid = None \<or> bt_get (us_record_scopes L) ?rid = Some ?key"
    using Cons.prems(2) [of e] Cons.prems(3) [of ?rid] by (cases "bt_get (us_record_scopes L) ?rid") auto
  then have ins: "insert_persisted json L e = (L1, Ok ())"
    by (auto simp: insert_persisted_def L1_def Let_def)
  have vs1: "versions L1 key rid = (if key = ?key \<and> rid = ?rid
      then Some ((case versions L ?key ?rid of None \<Rightarrow> [] | Some vs \<Rightarrow> vs) @ [e]) else versions L key rid)" for key rid
    by (rule versions_push_entry) (simp add: L1_def)
  have wf1: "usage_wf L1"
    using usage_wf_push_entry [OF Cons.prems(1), of ?key ?rid "[e]"] by (simp add: usage_wf_def L1_def)
  have sc1: "scopes rid = key" if "bt_get (us_record_scopes L1) rid = Some key" for rid key
    using that Cons.prems(2) [of e] Cons.prems(3) [of rid key] by (auto simp: L1_def split: if_splits)
  from Cons.IH [OF wf1 _ sc1] Cons.prems(2) obtain L' where
    L': "insert_rows json L1 es = Ok L'" "usage_wf L'" "metadata L' = metadata L1"
      "\<forall>key rid. versions L' key rid = (if rows_of json key rid es = [] then versions L1 key rid
       else Some ((case versions L1 key rid of None \<Rightarrow> [] | Some vs \<Rightarrow> vs) @ rows_of json key rid es))"
      "\<forall>rid. bt_get (us_record_scopes L') rid =
       (if rid \<in> ue_request_id ` set es then Some (scopes rid) else bt_get (us_record_scopes L1) rid)"
    by auto
  have "metadata L1 = metadata L" by (simp add: metadata_def L1_def)
  moreover have "rows_of json key rid (e # es) = (if key = ?key \<and> rid = ?rid then [e] else []) @ rows_of json key rid es"
    for key rid by (auto simp: rows_of_def)
  moreover have "bt_get (us_record_scopes L1) rid =
      (if rid = ?rid then Some (scopes rid) else bt_get (us_record_scopes L) rid)" for rid
    using Cons.prems(2) [of e] by (auto simp: L1_def)
  ultimately show ?case using L' ins vs1 by (auto simp: image_iff)
qed (auto simp: rows_of_def)

lemma mem_all_entries:
  assumes "usage_wf L"
  shows "e \<in> set (all_entries L) \<longleftrightarrow> (\<exists>key rid vs. versions L key rid = Some vs \<and> e \<in> set vs)"
proof -
  have "e \<in> set (all_entries L) \<longleftrightarrow>
      (\<exists>rs \<in> set (bt_values (us_entries L)). \<exists>vs \<in> set (bt_values rs). e \<in> set vs)"
    by (auto simp: all_entries_def)
  then show ?thesis unfolding versions_mem [OF assms] by (simp add: Bex_def mem_bt_values) blast
qed

lemma mset_all_entries: "mset (map ue_watermark (all_entries L)) = marks L"
proof -
  have "map ue_watermark (concat (concat (map bt_values (bt_values xs)))) = scope_marks xs" for xs
    by (induction xs) (simp_all add: scope_marks_def record_marks_def bt_values_def map_concat)
  then show ?thesis using mset_scope_marks [of L] by (simp add: all_entries_def)
qed

subsection \<open>Loading\<close>

lemma all_entries_ok:
  assumes inv: "usage_inv json L" and e: "e \<in> set (all_entries L)"
  shows "\<exists>vs. versions L (entry_scope json e) (ue_request_id e) = Some vs \<and> e \<in> set vs"
    and "bt_get (us_record_scopes L) (ue_request_id e) = Some (entry_scope json e)"
    and "ue_watermark e \<le> us_watermark L"
proof -
  have wf: "usage_wf L" using inv by (simp add: usage_inv_def)
  from e obtain key rid vs where vs: "versions L key rid = Some vs" "e \<in> set vs"
    by (auto simp: mem_all_entries [OF wf])
  with usage_inv_versions [OF inv vs(1)] have "entry_ok json (us_watermark L) key rid e"
    by (simp add: version_list_ok_def)
  then have "key = entry_scope json e" "rid = ue_request_id e" "ue_watermark e \<le> us_watermark L"
    by (simp_all add: entry_ok_def)
  with vs show "\<exists>vs. versions L (entry_scope json e) (ue_request_id e) = Some vs \<and> e \<in> set vs"
    and "bt_get (us_record_scopes L) (ue_request_id e) = Some (entry_scope json e)"
    and "ue_watermark e \<le> us_watermark L"
    by (auto simp: usage_inv_scopes [OF inv])
qed

lemma distinct_marks: "usage_inv json L \<Longrightarrow> distinct (map ue_watermark (all_entries L))"
  by (simp add: distinct_iff_count mset_all_entries usage_inv_def del: mset_map)

lemma rows_of_versions:
  assumes inv: "usage_inv json L"
  shows "rows_of json key rid (sort_key ue_watermark (all_entries L)) =
    (case versions L key rid of None \<Rightarrow> [] | Some vs \<Rightarrow> vs)"
proof -
  let ?rows = "rows_of json key rid (sort_key ue_watermark (all_entries L))"
  have wf: "usage_wf L" using inv by (simp add: usage_inv_def)
  have mem: "e \<in> set ?rows \<longleftrightarrow> (\<exists>vs. versions L key rid = Some vs \<and> e \<in> set vs)" for e
  proof
    assume "e \<in> set ?rows"
    with all_entries_ok(1) [OF inv, of e] show "\<exists>vs. versions L key rid = Some vs \<and> e \<in> set vs"
      by (auto simp: rows_of_def)
  next
    assume "\<exists>vs. versions L key rid = Some vs \<and> e \<in> set vs"
    with usage_inv_versions [OF inv, of key rid] mem_all_entries [OF wf, of e] show "e \<in> set ?rows"
      by (auto simp: rows_of_def version_list_ok_def entry_ok_def)
  qed
  show ?thesis
  proof (cases "versions L key rid")
    case None
    with mem show ?thesis by (cases ?rows) auto
  next
    case (Some vs)
    have vl: "version_list_ok json (us_watermark L) key rid vs" by (rule usage_inv_versions [OF inv Some])
    then have "sorted_wrt (<) (map ue_watermark vs)"
      by (auto simp: version_list_ok_def revises_def sorted_wrt_map elim: sorted_wrt_mono_rel [rotated])
    then have vs: "sorted (map ue_watermark vs)" "distinct (map ue_watermark vs)"
      by (simp_all only: strict_sorted_iff)
    have "distinct (map ue_watermark (sort_key ue_watermark (all_entries L)))"
      using distinct_marks [OF inv] by (simp add: distinct_map)
    then have rows: "sorted (map ue_watermark ?rows)" "distinct (map ue_watermark ?rows)"
      by (simp_all add: rows_of_def sorted_filter distinct_map_filter)
    have set: "set ?rows = set vs" using mem Some by auto
    with vs(2) have "inj_on ue_watermark (set ?rows \<union> set vs)" by (simp add: distinct_map)
    then show ?thesis using map_sorted_distinct_set_unique [OF _ rows vs set] Some by simp
  qed
qed

definition no_empty_scope :: "QuotaUsageLedger \<Rightarrow> bool" where
  "no_empty_scope L \<longleftrightarrow> (\<forall>rs \<in> set (bt_values (us_entries L)). rs \<noteq> [])"

lemma bt_insert_not_Nil [simp]: "bt_insert k v m \<noteq> []" "[] \<noteq> bt_insert k v m"
  by (cases m; auto)+

lemma entries_from_versions:
  assumes wf: "usage_wf L" "usage_wf L'" and no: "no_empty_scope L" "no_empty_scope L'"
    and same: "\<And>key rid. versions L' key rid = versions L key rid"
  shows "us_entries L' = us_entries L"
proof (rule bt_ext)
  show "bt_wf (us_entries L')" "bt_wf (us_entries L)" using wf by (simp_all add: usage_wf_def)
  have inner: "bt_wf rs \<and> rs \<noteq> []" if "usage_wf M" "no_empty_scope M" "bt_get (us_entries M) k = Some rs" for M k rs
    using that bt_get_Some_mem by (force simp: usage_wf_def no_empty_scope_def mem_bt_values)
  have some: "\<exists>rid. bt_get rs rid \<noteq> None" if "rs \<noteq> []" for rs :: usage_records
    using that by (cases rs) (auto simp: bt_get_Cons)
  fix key
  show "bt_get (us_entries L') key = bt_get (us_entries L) key"
  proof (cases "bt_get (us_entries L') key")
    case None
    then have "versions L key rid = None" for rid using same [of key rid] by (simp add: versions_def)
    then show ?thesis using None inner [OF wf(1) no(1), of key] some
      by (cases "bt_get (us_entries L) key") (force simp: versions_def)+
  next
    case (Some rs)
    from inner [OF wf(2) no(2) Some] some obtain rid where "bt_get rs rid \<noteq> None" by blast
    with Some same [of key rid] obtain rs' where rs': "bt_get (us_entries L) key = Some rs'"
      by (cases "bt_get (us_entries L) key") (auto simp: versions_def)
    have "rs = rs'"
    proof (rule bt_ext)
      show "bt_wf rs" "bt_wf rs'" using inner wf no Some rs' by blast+
      show "bt_get rs rid = bt_get rs' rid" for rid using same [of key rid] Some rs' by (simp add: versions_def)
    qed
    with Some rs' show ?thesis by simp
  qed
qed

lemma no_empty_push:
  assumes "no_empty_scope L" and "rs \<in> set (bt_values (push_entry k r new (us_entries L)))"
  shows "rs \<noteq> []"
proof -
  let ?new = "bt_update_default r [] (\<lambda>vs. vs @ new) (case bt_get (us_entries L) k of None \<Rightarrow> [] | Some v \<Rightarrow> v)"
  have "rs \<in> insert ?new (set (bt_values (us_entries L)))"
    using assms(2) bt_values_insert_subset [of k ?new "us_entries L"]
    by (auto simp: push_entry_def bt_update_default_def [of k])
  with assms(1) show ?thesis by (auto simp: no_empty_scope_def bt_update_default_def)
qed

lemma insert_rows_no_empty:
  "insert_rows json L es = Ok L' \<Longrightarrow> no_empty_scope L \<Longrightarrow> no_empty_scope L'"
proof (induction es arbitrary: L)
  case (Cons e es)
  obtain L1 r where ip: "insert_persisted json L e = (L1, r)" by (cases "insert_persisted json L e")
  have "no_empty_scope L1"
  proof -
    have "L1 = L \<or> us_entries L1 = push_entry (entry_scope json e) (ue_request_id e) [e] (us_entries L)"
      using ip by (auto simp: insert_persisted_def Let_def split: if_splits)
    then show ?thesis using Cons.prems(2) no_empty_push [OF Cons.prems(2)]
      by (metis no_empty_scope_def)
  qed
  with Cons ip show ?case by (auto split: sum.splits)
qed simp

lemma marks_cover:
  assumes inv: "usage_inv json L"
  shows "ue_watermark ` set (all_entries L) = {1..us_watermark L}"
proof -
  have "length (all_entries L) = us_watermark L"
    using inv arg_cong [OF mset_all_entries [of L], of size] by (simp add: usage_inv_def)
  moreover have "card (ue_watermark ` set (all_entries L)) = length (all_entries L)"
    using distinct_marks [OF inv] distinct_card [of "map ue_watermark (all_entries L)"] by simp
  moreover have "ue_watermark ` set (all_entries L) \<subseteq> {1..us_watermark L}"
  proof -
    have "0 < ue_watermark e" if "e \<in> set (all_entries L)" for e
      using all_entries_ok(1) [OF inv that] usage_inv_versions [OF inv]
      by (fastforce simp: version_list_ok_def entry_ok_def)
    then show ?thesis using all_entries_ok(3) [OF inv] by (fastforce simp: Suc_le_eq)
  qed
  ultimately show ?thesis by (intro card_subset_eq) simp_all
qed

lemma scope_has_entry:
  assumes inv: "usage_inv json L" and new: "rid \<notin> ue_request_id ` set (all_entries L)"
  shows "bt_get (us_record_scopes L) rid = None"
proof (rule ccontr)
  assume "bt_get (us_record_scopes L) rid \<noteq> None"
  then obtain key vs where vs: "versions L key rid = Some vs"
    using usage_inv_scopes [OF inv] by fastforce
  then have "vs \<noteq> []" "\<forall>e \<in> set vs. ue_request_id e = rid"
    using usage_inv_versions [OF inv vs] by (auto simp: version_list_ok_def entry_ok_def)
  then have "last vs \<in> set vs" "ue_request_id (last vs) = rid" by simp_all
  moreover from this vs mem_all_entries [of L] inv have "last vs \<in> set (all_entries L)" by (auto simp: usage_inv_def)
  ultimately show False using new by blast
qed

lemma top_mark:
  assumes inv: "usage_inv json L"
  shows "(if all_entries L = [] then 0 else Max (ue_watermark ` set (all_entries L))) = us_watermark L"
proof (cases "all_entries L = []")
  case True
  with marks_cover [OF inv] show ?thesis by simp
next
  case False
  then have "ue_watermark ` set (all_entries L) \<noteq> {}" by simp
  then have "{1..us_watermark L} \<noteq> {}" unfolding marks_cover [OF inv] .
  then have "Max {1..us_watermark L} = us_watermark L" by (intro Max_eqI) auto
  with False show ?thesis unfolding marks_cover [OF inv] by simp
qed

lemma load_rows_all:
  assumes inv: "usage_inv json L" and no: "no_empty_scope L"
  shows "load_rows json (metadata L) (sort_key ue_watermark (all_entries L)) = Ok L"
proof -
  let ?rows = "sort_key ue_watermark (all_entries L)"
  define scopes where "scopes rid = the (bt_get (us_record_scopes L) rid)" for rid
  have wf: "usage_wf L" using inv by (simp add: usage_inv_def)
  have wf0: "usage_wf (metadata L)" using wf by (simp add: usage_wf_def metadata_def bt_values_def)
  have "scopes (ue_request_id e) = entry_scope json e" if "e \<in> set ?rows" for e
    using all_entries_ok(2) [OF inv] that by (simp add: scopes_def)
  from insert_rows_versions [OF wf0 this, of ?rows] obtain L' where
    L': "insert_rows json (metadata L) ?rows = Ok L'" "usage_wf L'" "metadata L' = metadata (metadata L)"
      "\<forall>key rid. versions L' key rid = (if rows_of json key rid ?rows = [] then versions (metadata L) key rid
       else Some ((case versions (metadata L) key rid of None \<Rightarrow> [] | Some vs \<Rightarrow> vs) @ rows_of json key rid ?rows))"
      "\<forall>rid. bt_get (us_record_scopes L') rid = (if rid \<in> ue_request_id ` set ?rows then Some (scopes rid)
       else bt_get (us_record_scopes (metadata L)) rid)"
    by (auto simp: metadata_def)
  have none: "versions (metadata L) key rid = None" for key rid
    by (simp add: versions_def metadata_def)
  have vs: "versions L' key rid = versions L key rid" for key rid
    using L'(4) rows_of_versions [OF inv, of key rid] usage_inv_versions [OF inv, of key rid] none
    by (auto simp: version_list_ok_def split: option.splits)
  have en: "us_entries L' = us_entries L"
    using insert_rows_no_empty [OF L'(1)]
    by (intro entries_from_versions wf L'(2) no vs) (simp add: no_empty_scope_def metadata_def bt_values_def)
  have "bt_get (us_record_scopes L') rid = bt_get (us_record_scopes L) rid" for rid
  proof (cases "rid \<in> ue_request_id ` set (all_entries L)")
    case True
    with L'(5) all_entries_ok(2) [OF inv] show ?thesis by (auto simp: scopes_def)
  next
    case False
    with scope_has_entry [OF inv] L'(5) show ?thesis by (simp add: metadata_def)
  qed
  then have sc: "us_record_scopes L' = us_record_scopes L"
    using wf L'(2) by (intro bt_ext) (simp_all add: usage_wf_def)
  have "L' = L"
    using en sc L'(3) by (cases L; cases L') (simp add: metadata_def)
  moreover have "validate_usage json L = Ok ()" using inv validate_usage_iff [OF wf] by simp
  moreover note top_mark [OF inv]
  ultimately show ?thesis using L'(1) by (simp add: load_rows_def)
qed

subsection \<open>Committing one revision\<close>

text \<open>What \<open>record\<close> does with a ledger is determined by its metadata and the last revision.\<close>

lemma record_usage_local:
  assumes "metadata L' = metadata L" and "previous_scope L' (ul_request_id l) = previous_scope L (ul_request_id l)"
    and "\<And>key. last_version L' key (ul_request_id l) = last_version L key (ul_request_id l)"
  shows "validate_log json L' l = validate_log json L l"
proof -
  have "us_schema_version L' = us_schema_version L"
    using assms(1) by (cases L; cases L') (simp add: metadata_def)
  with assms(2,3) show ?thesis by (simp add: validate_log_def Let_def cong: if_cong option.case_cong)
qed

lemma metadata_fields:
  "metadata L' = metadata L \<longleftrightarrow> us_schema_version L' = us_schema_version L \<and>
     us_watermark L' = us_watermark L \<and> us_coverage_from_ms L' = us_coverage_from_ms L \<and>
     us_recovery_required L' = us_recovery_required L \<and> us_integrity_error L' = us_integrity_error L"
  by (cases L; cases L') (auto simp: metadata_def)

text \<open>The ledger \<open>upsert_log\<close> works on: the metadata with the last revision of one request.\<close>

lemma stored_previous:
  assumes inv: "usage_inv json L"
    and prev: "previous = (case bt_get (us_record_scopes L) rid of
      None \<Rightarrow> None | Some key \<Rightarrow> last_version L key rid)"
  obtains M where "insert_rows json (metadata L) (case previous of None \<Rightarrow> [] | Some e \<Rightarrow> [e]) = Ok M"
    "usage_wf M" "metadata M = metadata L" "previous_scope M rid = previous_scope L rid"
    "\<And>key. last_version M key rid = last_version L key rid"
    "all_entries M = (case previous of None \<Rightarrow> [] | Some e \<Rightarrow> [e])"
proof -
  have wf0: "usage_wf (metadata L)"
    using inv by (simp add: usage_inv_def usage_wf_def metadata_def bt_values_def)
  show ?thesis
  proof (cases "bt_get (us_record_scopes L) rid")
    case None
    have "versions L key rid = None" for key using usage_inv_scopes [OF inv, of rid key] None by simp
    moreover have "versions (metadata L) key rid = None" "previous_scope (metadata L) rid = None"
      "all_entries (metadata L) = []" "metadata (metadata L) = metadata L" for key
      by (simp_all add: versions_def previous_scope_def metadata_def all_entries_def bt_values_def)
    ultimately show ?thesis using None prev previous_scope_eq [OF inv, of rid] wf0
      by (intro that [of "metadata L"]) (simp_all add: last_version_eq)
  next
    case (Some key)
    then obtain vs where vs: "versions L key rid = Some vs" using usage_inv_scopes [OF inv, of rid key] by auto
    note vl = usage_inv_versions [OF inv vs]
    then have lv: "last_version L key rid = Some (last vs)" and ok: "entry_ok json (us_watermark L) key rid (last vs)"
      using vs by (simp_all add: last_version_eq version_list_ok_def last_opt_def)
    have other: "last_version L k rid = None" if "k \<noteq> key" for k
      using usage_inv_scopes [OF inv, of rid k] Some that by (simp add: last_version_eq)
    define M where "M = (metadata L)\<lparr>us_record_scopes := [(rid, key)], us_entries := [(key, [(rid, [last vs])])]\<rparr>"
    have "insert_rows json (metadata L) [last vs] = Ok M"
      using ok by (simp add: insert_persisted_def entry_ok_def Let_def metadata_def M_def push_entry_def
          bt_update_default_def)
    moreover have "usage_wf M" using wf0 by (simp add: usage_wf_def M_def metadata_def bt_wf_Cons bt_values_def)
    moreover have "versions M k rid = (if k = key then Some [last vs] else None)" for k
      by (simp add: versions_def M_def bt_get_Cons)
    then have "last_version M k rid = last_version L k rid" for k
      using lv other by (simp add: last_version_eq [of M] last_opt_def)
    moreover have "previous_scope M rid = previous_scope L rid"
      using Some previous_scope_eq [OF inv, of rid] by (simp add: previous_scope_def M_def bt_get_Cons)
    moreover have "metadata M = metadata L" by (simp add: M_def metadata_def)
    moreover have "all_entries M = [last vs]" by (simp add: all_entries_def M_def bt_values_def)
    ultimately show ?thesis using prev Some lv by (intro that [of M]) simp_all
  qed
qed

lemma find_unique:
  assumes "x \<in> set xs" and "P x" and only: "\<And>y. y \<in> set xs \<Longrightarrow> P y \<Longrightarrow> y = x"
  shows "find P xs = Some x"
proof (cases "find P xs")
  case None
  with assms(1,2) show ?thesis unfolding find_None_set by blast
next
  case (Some z)
  then have "P z \<and> z \<in> set xs" by (rule find_Some_iff2)
  with only have "z = x" by blast
  with Some show ?thesis by simp
qed

lemma mem_lasts:
  assumes "usage_wf L"
  shows "x \<in> set (List.map_filter last_opt (concat (map bt_values (bt_values (us_entries L))))) \<longleftrightarrow>
    (\<exists>key rid vs. versions L key rid = Some vs \<and> last_opt vs = Some x)"
proof -
  have "x \<in> set (List.map_filter last_opt (concat (map bt_values (bt_values (us_entries L))))) \<longleftrightarrow>
      (\<exists>rs \<in> set (bt_values (us_entries L)). \<exists>vs \<in> set (bt_values rs). last_opt vs = Some x)"
    by (auto simp: mem_map_filter)
  then show ?thesis unfolding versions_mem [OF assms] by (simp add: Bex_def mem_bt_values) blast
qed

lemma new_revision_found:
  assumes wf: "usage_wf M" "usage_wf M'" and old: "\<forall>e \<in> set (all_entries M). ue_watermark e \<le> w"
    and en: "us_entries M' = push_entry key rid [e] (us_entries M)" and e: "ue_watermark e = Suc w"
  shows "find (\<lambda>e. ue_watermark e = Suc w) (List.map_filter last_opt
    (concat (map bt_values (bt_values (us_entries M'))))) = Some e"
proof (rule find_unique)
  note vs' = versions_push_entry [OF en]
  show "e \<in> set (List.map_filter last_opt (concat (map bt_values (bt_values (us_entries M')))))"
    unfolding mem_lasts [OF wf(2)] using vs' [of key rid] by (intro exI conjI) (auto simp: last_opt_def)
  fix x assume x: "x \<in> set (List.map_filter last_opt (concat (map bt_values (bt_values (us_entries M')))))"
    and wx: "ue_watermark x = Suc w"
  from x obtain k r vs where vs: "versions M' k r = Some vs" "last_opt vs = Some x"
    by (auto simp: mem_lasts [OF wf(2)])
  show "x = e"
  proof (cases "k = key \<and> r = rid")
    case True
    with vs vs' show ?thesis by auto
  next
    case False
    with vs vs' have "versions M k r = Some vs" "x \<in> set vs" by (auto simp: last_opt_Some)
    with mem_all_entries [OF wf(1)] have "x \<in> set (all_entries M)" by blast
    with old wx show ?thesis by fastforce
  qed
qed (fact e)

lemma mset_push_entry:
  assumes "usage_wf L" and "us_entries L' = push_entry k r [e] (us_entries L)"
  shows "mset (all_entries L') = add_mset e (mset (all_entries L))"
proof -
  have inner: "mset (concat (bt_values rs)) = bt_sum mset rs" for rs :: usage_records
    by (induction rs) simp_all
  have all: "mset (all_entries M) = bt_sum (bt_sum mset) (us_entries M)" for M
  proof -
    have "mset (concat (concat (map bt_values (bt_values xs)))) = bt_sum (bt_sum mset) xs"
      for xs :: "(string, usage_records) btree"
      by (induction xs) (simp_all add: inner)
    then show ?thesis by (simp add: all_entries_def)
  qed
  have wf: "bt_wf (us_entries L)" "bt_wf (case bt_get (us_entries L) k of None \<Rightarrow> [] | Some rs \<Rightarrow> rs)"
    using assms(1) bt_get_Some_mem by (force simp: usage_wf_def mem_bt_values split: option.splits)+
  have "bt_sum (bt_sum mset) (us_entries L') = bt_sum (bt_sum mset) (us_entries L) + {#e#}"
    unfolding assms(2) push_entry_def by (intro bt_sum_update_default wf) simp_all
  then show ?thesis by (simp add: all)
qed

lemma record_usage_True:
  assumes "record_usage json M l = (M', Ok True)"
  obtains a share user key where "ul_quota_attribution l = Some a"
    "ul_share_id l = Some share" "ul_user_email l = Some user"
    "key = scope_key json (qa_source_ref a) (qa_source_epoch a) (qa_bucket_id a) share user"
    "M' = M\<lparr>us_watermark := us_watermark M + 1,
        us_record_scopes := bt_insert (ul_request_id l) key (us_record_scopes M),
        us_recovery_required := settle_recovery l a (us_recovery_required M),
        us_entries := push_entry key (ul_request_id l)
          [new_entry l a share user (us_watermark M + 1)] (us_entries M)\<rparr>"
  using assms
  by (auto simp: record_usage_def Let_def split: sum.splits option.splits if_splits)

lemma record_usage_result:
  assumes "metadata M = metadata L" and "previous_scope M (ul_request_id l) = previous_scope L (ul_request_id l)"
    and "\<And>key. last_version M key (ul_request_id l) = last_version L key (ul_request_id l)"
  shows "snd (record_usage json M l) = snd (record_usage json L l)"
proof -
  have "us_watermark M = us_watermark L" using assms(1) by (simp add: metadata_fields)
  with record_usage_local [OF assms] assms(3) show ?thesis
    by (simp add: record_usage_def Let_def split: sum.splits option.splits)
qed

subsection \<open>Ledgers grown from an empty one\<close>

lemma usage_step_no_empty:
  assumes inv: "usage_inv json L" and no: "no_empty_scope L" and step: "usage_step json L L'"
  shows "no_empty_scope L'"
  using step
proof cases
  case (commit l changed)
  from inv commit show ?thesis
  proof (cases rule: record_usage_cases)
    case (push a s u key e)
    then have "us_entries L' = push_entry key (ul_request_id l) [e] (us_entries L)" by simp
    with no_empty_push [OF no] show ?thesis by (metis no_empty_scope_def)
  qed (use no in simp)
next
  case (collect src at_ms changed)
  with no show ?thesis by (auto simp: begin_collection_def no_empty_scope_def split: if_splits)
next
  case (recover changed)
  with no show ?thesis by (auto simp: recover_pending_def no_empty_scope_def Let_def split: prod.splits)
qed

interpretation grown: transition_system "\<lambda>L. L = default_usage_ledger" "usage_step json"
  "\<lambda>L. usage_inv json L \<and> no_empty_scope L" for json
proof unfold_locales
  show "L = default_usage_ledger \<Longrightarrow> usage_inv json L \<and> no_empty_scope L" for L
    using default_usage_inv by (simp add: no_empty_scope_def default_usage_ledger_def)
  show "usage_inv json L \<and> no_empty_scope L \<Longrightarrow> usage_step json L L' \<Longrightarrow>
      usage_inv json L' \<and> no_empty_scope L'" for L L'
    using usage.step_inv usage_step_no_empty by blast
qed

lemma demo_usage2_reach: "(usage_step demo_json)\<^sup>*\<^sup>* default_usage_ledger demo_usage2"
  using demo_usage_reach usage_step.commit [OF demo_record2] by (rule rtranclp.rtrancl_into_rtrancl)

subsection \<open>Properties\<close>

text \<open>
  C12. Storing and loading is the identity: the metadata and the rows of a ledger, read back
  in the order of their watermarks as the loader's query returns them, pass the loader's
  checks and give the same ledger, down to the order of every map and list.
\<close>

theorem load_after_store:
  assumes "(usage_step json)\<^sup>*\<^sup>* default_usage_ledger L"
  shows "load_rows json (metadata L) (sort_key ue_watermark (all_entries L)) = Ok L"
  using grown.reachable_inv [OF refl assms] load_rows_all by blast

theorem load_after_store_witness:
  "load_rows demo_json (metadata demo_usage2) (sort_key ue_watermark (all_entries demo_usage2)) = Ok demo_usage2"
  by (rule load_after_store [OF demo_usage2_reach])

lemma previous_stored:
  assumes "usage_inv json L" and "last_version L k i = Some p"
  shows "p \<in> set (all_entries L)"
proof -
  from assms(2) obtain vs where "versions L k i = Some vs" "p \<in> set vs"
    by (auto simp: last_version_eq Option.bind_eq_Some_conv last_opt_Some)
  moreover have "usage_wf L" using assms(1) by (simp add: usage_inv_def)
  ultimately show ?thesis using mem_all_entries by blast
qed

text \<open>Two ledgers with the same metadata commit an accepted revision as the same row.\<close>

lemma commits_alike:
  assumes "record_usage json L l = (L', Ok True)" and "record_usage json M l = (M', Ok True)"
    and "metadata M = metadata L" and "usage_wf M"
  obtains key e where "us_entries L' = push_entry key (ul_request_id l) [e] (us_entries L)"
    "us_entries M' = push_entry key (ul_request_id l) [e] (us_entries M)" "ue_watermark e = Suc (us_watermark L)"
    "ue_request_id e = ul_request_id l" "metadata M' = metadata L'" "usage_wf M'" "us_watermark M' = Suc (us_watermark L)"
proof -
  have wm: "us_watermark M = us_watermark L" "us_recovery_required M = us_recovery_required L"
    using assms(3) by (simp_all add: metadata_fields)
  from assms(1) obtain a share user key where a: "ul_quota_attribution l = Some a"
    "ul_share_id l = Some share" "ul_user_email l = Some user"
    "key = scope_key json (qa_source_ref a) (qa_source_epoch a) (qa_bucket_id a) share user"
    and eL: "L' = L\<lparr>us_watermark := us_watermark L + 1,
      us_record_scopes := bt_insert (ul_request_id l) key (us_record_scopes L),
      us_recovery_required := settle_recovery l a (us_recovery_required L),
      us_entries := push_entry key (ul_request_id l) [new_entry l a share user (us_watermark L + 1)] (us_entries L)\<rparr>"
    by (rule record_usage_True)
  from assms(2) obtain a' share' user' key' where a': "ul_quota_attribution l = Some a'"
    "ul_share_id l = Some share'" "ul_user_email l = Some user'"
    "key' = scope_key json (qa_source_ref a') (qa_source_epoch a') (qa_bucket_id a') share' user'"
    and eM: "M' = M\<lparr>us_watermark := us_watermark M + 1,
      us_record_scopes := bt_insert (ul_request_id l) key' (us_record_scopes M),
      us_recovery_required := settle_recovery l a' (us_recovery_required M),
      us_entries := push_entry key' (ul_request_id l) [new_entry l a' share' user' (us_watermark M + 1)] (us_entries M)\<rparr>"
    by (rule record_usage_True)
  from a a' have same: "a' = a" "share' = share" "user' = user" "key' = key" by simp_all
  show ?thesis
  proof (rule that [of key "new_entry l a share user (us_watermark L + 1)"])
    show "metadata M' = metadata L'" "usage_wf M'"
      using eL eM same wm assms(3,4) usage_wf_push_entry [OF assms(4)]
      by (auto simp: metadata_fields usage_wf_def settle_recovery_def)
  qed (use eL eM same wm in \<open>simp_all add: new_entry_def\<close>)
qed

text \<open>
  C13. The database commits a record against the metadata and the last stored revision of
  its request only. It accepts and refuses exactly the records the full in-memory ledger
  accepts and refuses, stores the same metadata, and the row it writes is exactly the
  revision the in-memory ledger gains.
\<close>

theorem upsert_log_agrees:
  assumes "(usage_step json)\<^sup>*\<^sup>* default_usage_ledger L"
    and "previous = (case bt_get (us_record_scopes L) (ul_request_id l) of
      None \<Rightarrow> None | Some key \<Rightarrow> last_version L key (ul_request_id l))"
  shows "case record_usage json L l of
      (L', Err x) \<Rightarrow> upsert_log json (metadata L) previous l = Err x
    | (L', Ok False) \<Rightarrow> upsert_log json (metadata L) previous l = Ok None
    | (L', Ok True) \<Rightarrow> (\<exists>e. upsert_log json (metadata L) previous l = Ok (Some (metadata L', e)) \<and>
        mset (all_entries L') = add_mset e (mset (all_entries L)))"
proof -
  have inv: "usage_inv json L" using grown.reachable_inv [OF refl assms(1)] by simp
  obtain M where M: "insert_rows json (metadata L) (case previous of None \<Rightarrow> [] | Some e \<Rightarrow> [e]) = Ok M"
    "usage_wf M" "metadata M = metadata L" "previous_scope M (ul_request_id l) = previous_scope L (ul_request_id l)"
    "\<And>key. last_version M key (ul_request_id l) = last_version L key (ul_request_id l)"
    "all_entries M = (case previous of None \<Rightarrow> [] | Some e \<Rightarrow> [e])"
    using stored_previous [OF inv assms(2)] by blast
  obtain L' res where L': "record_usage json L l = (L', res)" by (cases "record_usage json L l")
  obtain M' where M': "record_usage json M l = (M', res)"
    using record_usage_result [OF M(3-5), of json] L' by (cases "record_usage json M l") simp
  show ?thesis
  proof (cases "res = Ok True")
    case False
    with L' M' M(1) show ?thesis by (auto simp: upsert_log_def split: sum.splits bool.splits)
  next
    case True
    with L' M' have rec: "record_usage json L l = (L', Ok True)" "record_usage json M l = (M', Ok True)" by simp_all
    from commits_alike [OF rec M(3,2)] obtain key e where e: "us_entries L' = push_entry key (ul_request_id l) [e] (us_entries L)"
      "us_entries M' = push_entry key (ul_request_id l) [e] (us_entries M)" "ue_watermark e = Suc (us_watermark L)"
      "ue_request_id e = ul_request_id l" "metadata M' = metadata L'" "usage_wf M'" "us_watermark M' = Suc (us_watermark L)" .
    have "\<forall>e \<in> set (all_entries M). ue_watermark e \<le> us_watermark L"
      using all_entries_ok(3) [OF inv] previous_stored [OF inv] M(6) assms(2) by (auto split: option.splits)
    from new_revision_found [OF M(2) e(6) this e(2)]
    have "upsert_log json (metadata L) previous l = Ok (Some (metadata L', e))"
      using M(1) rec(2) e by (simp add: upsert_log_def)
    moreover have "mset (all_entries L') = add_mset e (mset (all_entries L))"
      using mset_push_entry [of L L' key "ul_request_id l" e] inv e(1) by (simp add: usage_inv_def)
    ultimately show ?thesis using rec(1) by auto
  qed
qed

theorem upsert_log_agrees_witness:
  "\<exists>previous e. upsert_log demo_json (metadata demo_usage1) previous (demo_log 2 250) =
     Ok (Some (metadata demo_usage2, e)) \<and>
   mset (all_entries demo_usage2) = add_mset e (mset (all_entries demo_usage1))"
  using upsert_log_agrees [OF demo_usage_reach refl, of "demo_log 2 250"] demo_record2 by auto

end
