(* ===== verification/In_Flight.thy ===== *)
theory In_Flight
  imports Rust_Str Ordered_Map
begin

section \<open>In-flight leases\<close>

text \<open>
  Model of \<open>src/src/state/in_flight.rs\<close>: the two trackers that bound how many requests run at
  once, per Share and user and per upstream account. A successful acquisition returns a
  guard; dropping the guard releases what it took. Each operation holds the tracker's mutex
  for its whole body, so operations on one tracker interleave as whole steps. The metrics
  calls and a poisoned mutex (a panic inside an operation) are not modelled.

  The contract both trackers keep is the locale \<open>lease_counter\<close>: taking a guard adds one to
  each key it uses and giving it back subtracts one. From it follows that the counts are
  the live guards, for both.
\<close>

subsection \<open>The contract\<close>

locale lease_counter =
  fixes empty :: 's
    and wf :: "'s \<Rightarrow> bool"
    and count :: "'s \<Rightarrow> 'k \<Rightarrow> nat"
    and uses :: "'g \<Rightarrow> 'k \<Rightarrow> nat"
    and take :: "'s \<Rightarrow> 'g \<Rightarrow> 's"
    and give :: "'s \<Rightarrow> 'g \<Rightarrow> 's"
    and bound :: nat
  assumes wf_empty: "wf empty"
    and wf_take: "wf s \<Longrightarrow> wf (take s g)"
    and wf_give: "wf s \<Longrightarrow> wf (give s g)"
    and count_empty: "count empty k = 0"
    and uses_once: "uses g k \<le> 1"
    and count_take: "wf s \<Longrightarrow> \<forall>k. count s k < bound \<Longrightarrow> count (take s g) k = count s k + uses g k"
    and count_give: "wf s \<Longrightarrow> \<forall>k. uses g k \<le> count s k \<Longrightarrow> count (give s g) k = count s k - uses g k"
    and empty_unique: "wf s \<Longrightarrow> \<forall>k. count s k = 0 \<Longrightarrow> s = empty"
begin

definition live_uses :: "'g list \<Rightarrow> 'k \<Rightarrow> nat" where
  "live_uses gs k = sum_list (map (\<lambda>g. uses g k) gs)"

definition tracks :: "'s \<Rightarrow> 'g list \<Rightarrow> bool" where
  "tracks s gs \<longleftrightarrow> wf s \<and> (\<forall>k. count s k = live_uses gs k)"

lemma live_uses_le: "live_uses gs k \<le> length gs"
  unfolding live_uses_def by (induction gs) (auto intro: add_le_mono [OF uses_once, simplified])

lemma tracks_empty: "tracks empty []"
  by (simp add: tracks_def wf_empty count_empty live_uses_def)

lemma tracks_take:
  assumes "tracks s gs" and "length gs < bound"
  shows "tracks (take s g) (g # gs)"
proof -
  have "\<forall>k. count s k < bound" using assms live_uses_le by (fastforce simp: tracks_def intro: le_less_trans)
  with assms(1) show ?thesis by (auto simp: tracks_def wf_take count_take live_uses_def)
qed

lemma live_uses_remove: "g \<in> set gs \<Longrightarrow> live_uses gs k = uses g k + live_uses (remove1 g gs) k"
  unfolding live_uses_def by (induction gs) auto

lemma tracks_give:
  assumes "tracks s gs" and "g \<in> set gs"
  shows "tracks (give s g) (remove1 g gs)"
proof -
  have "\<forall>k. uses g k \<le> count s k" using assms live_uses_remove by (simp add: tracks_def)
  with assms live_uses_remove show ?thesis by (auto simp: tracks_def wf_give count_give)
qed

text \<open>No lease outlives its guard.\<close>

lemma tracks_none: "tracks s [] \<Longrightarrow> s = empty"
  by (rule empty_unique) (simp_all add: tracks_def live_uses_def)

text \<open>A key that stays below a limit when it is taken is used by at most so many live guards.\<close>

lemma tracks_limit:
  assumes "tracks s gs" and "count s k < limit" and "length gs < bound"
    and "filter P gs = [] \<or> (\<forall>g. P g \<longrightarrow> uses g k = 1)"
  shows "length (filter P (g # gs)) \<le> limit"
proof -
  have "length (filter P gs) \<le> live_uses gs k" if "\<forall>g. P g \<longrightarrow> uses g k = 1"
    using that unfolding live_uses_def by (induction gs) auto
  then have "length (filter P gs) \<le> count s k"
    using assms(1,4) by (auto simp: tracks_def)
  with assms(2) show ?thesis by simp
qed

end

subsection \<open>Counters\<close>

text \<open>\<open>*counts.get(key).unwrap_or(&0)\<close>, and the two ways a counter moves.\<close>

type_synonym counts = "(string, nat) btree"

definition count_of :: "counts \<Rightarrow> string \<Rightarrow> nat" where
  "count_of m k = (case bt_get m k of None \<Rightarrow> 0 | Some n \<Rightarrow> n)"

definition bump :: "string \<Rightarrow> counts \<Rightarrow> counts" where
  "bump k m = bt_insert k (saturating_add_u32 (count_of m k) 1) m"

definition drop_one :: "string \<Rightarrow> counts \<Rightarrow> counts" where
  "drop_one k m = (case bt_get m k of
     None \<Rightarrow> m
   | Some n \<Rightarrow> if n \<le> 1 then bt_remove k m else bt_insert k (n - 1) m)"

definition counts_wf :: "counts \<Rightarrow> bool" where
  "counts_wf m \<longleftrightarrow> bt_wf m \<and> (\<forall>n \<in> set (bt_values m). 0 < n)"

lemma count_of_bump:
  "count_of (bump k m) k' = (if k' = k then saturating_add_u32 (count_of m k) 1 else count_of m k')"
  by (simp add: count_of_def bump_def)

lemma count_of_drop_one:
  "count_of (drop_one k m) k' = (if k' = k then count_of m k - 1 else count_of m k')"
  by (auto simp: count_of_def drop_one_def split: option.splits)

lemma counts_wf_bump [simp]: "counts_wf m \<Longrightarrow> counts_wf (bump k m)"
  using bt_values_insert_subset [of k "saturating_add_u32 (count_of m k) 1" m]
  by (auto simp: counts_wf_def bump_def saturating_add_u32_def u32_max_def)

lemma counts_wf_drop_one [simp]: "counts_wf m \<Longrightarrow> counts_wf (drop_one k m)"
  using bt_values_insert_subset [of k _ m]
  by (fastforce simp: counts_wf_def drop_one_def bt_remove_def bt_values_def split: option.splits)

lemma counts_wf_Nil [simp]: "counts_wf []"
  by (simp add: counts_wf_def)

lemma counts_empty: "counts_wf m \<Longrightarrow> \<forall>k. count_of m k = 0 \<Longrightarrow> m = []"
proof (cases m)
  case (Cons e r)
  assume "counts_wf m" "\<forall>k. count_of m k = 0"
  with Cons have "count_of m (fst e) = snd e" "0 < snd e"
    by (simp_all add: counts_wf_def count_of_def bt_get_Cons)
  with \<open>\<forall>k. count_of m k = 0\<close> show ?thesis by simp
qed simp

subsection \<open>Shares and users\<close>

record ShareInFlightGuard =
  sg_share_id :: string
  sg_user_key :: "string option"

datatype ShareInFlightAcquireError =
  ShareLimit nat nat
| UserLimit nat nat

definition has_in_flight :: "counts \<Rightarrow> string \<Rightarrow> bool" where
  "has_in_flight m share_id \<longleftrightarrow> (case bt_get m share_id of None \<Rightarrow> False | Some n \<Rightarrow> n > 0)"

definition reached :: "nat option \<Rightarrow> nat \<Rightarrow> nat option" where
  "reached limit current = (case limit of None \<Rightarrow> None | Some l \<Rightarrow> if current \<ge> l then Some l else None)"

definition user_key_of :: "string \<Rightarrow> string \<Rightarrow> string" where
  "user_key_of share_id email = share_id @ [CHR 0x1F] @ to_ascii_lowercase email"

definition try_acquire_for_user ::
  "counts \<Rightarrow> string \<Rightarrow> nat option \<Rightarrow> string option \<Rightarrow> nat option \<Rightarrow>
   counts \<times> (ShareInFlightAcquireError + ShareInFlightGuard)" where
  "try_acquire_for_user m share_id parallel_limit user_email user_parallel_limit =
     (case reached parallel_limit (count_of m share_id) of
        Some limit \<Rightarrow> (m, Err (ShareLimit (count_of m share_id) limit))
      | None \<Rightarrow>
          let user_key = map_option (user_key_of share_id) user_email
          in case Option.bind user_key (\<lambda>k. reached user_parallel_limit (count_of m k)) of
               Some limit \<Rightarrow> (m, Err (UserLimit (count_of m (the user_key)) limit))
             | None \<Rightarrow>
                 let m1 = bump share_id m;
                     m2 = (case user_key of None \<Rightarrow> m1 | Some k \<Rightarrow> bump k m1)
                 in (m2, Ok \<lparr>sg_share_id = share_id, sg_user_key = user_key\<rparr>))"

definition try_acquire :: "counts \<Rightarrow> string \<Rightarrow> nat option \<Rightarrow> counts \<times> ShareInFlightGuard option" where
  "try_acquire m share_id parallel_limit =
     (case try_acquire_for_user m share_id parallel_limit None None of
        (m', Ok g) \<Rightarrow> (m', Some g) | (m', Err _) \<Rightarrow> (m', None))"

definition release_share :: "counts \<Rightarrow> string \<Rightarrow> string option \<Rightarrow> counts" where
  "release_share m share_id user_key =
     fold drop_one (share_id # (case user_key of None \<Rightarrow> [] | Some k \<Rightarrow> [k])) m"

text \<open>A guard as a lease: the keys it counts under.\<close>

definition share_uses :: "ShareInFlightGuard \<Rightarrow> string \<Rightarrow> nat" where
  "share_uses g k = (if sg_share_id g = k \<or> sg_user_key g = Some k then 1 else 0)"

definition take_share :: "counts \<Rightarrow> ShareInFlightGuard \<Rightarrow> counts" where
  "take_share m g = (let m1 = bump (sg_share_id g) m
     in case sg_user_key g of None \<Rightarrow> m1 | Some k \<Rightarrow> if k = sg_share_id g then m1 else bump k m1)"

definition give_share :: "counts \<Rightarrow> ShareInFlightGuard \<Rightarrow> counts" where
  "give_share m g = (let m1 = drop_one (sg_share_id g) m
     in case sg_user_key g of None \<Rightarrow> m1 | Some k \<Rightarrow> if k = sg_share_id g then m1 else drop_one k m1)"

interpretation shares: lease_counter "[]" counts_wf count_of share_uses take_share give_share u32_max
proof unfold_locales
  fix m :: counts and g k
  show "counts_wf []" by simp
  show "count_of [] k = 0" by (simp add: count_of_def)
  show "share_uses g k \<le> 1" by (simp add: share_uses_def)
  show "counts_wf m \<Longrightarrow> counts_wf (take_share m g)"
    by (simp add: take_share_def Let_def split: option.splits)
  show "counts_wf m \<Longrightarrow> counts_wf (give_share m g)"
    by (simp add: give_share_def Let_def split: option.splits)
  show "counts_wf m \<Longrightarrow> \<forall>k. count_of m k = 0 \<Longrightarrow> m = []" by (rule counts_empty)
  show "count_of (take_share m g) k = count_of m k + share_uses g k" if "\<forall>k. count_of m k < u32_max"
  proof -
    have "saturating_add_u32 (count_of m x) 1 = count_of m x + 1" for x
      using that [rule_format, of x] by (simp add: saturating_add_u32_def)
    then show ?thesis
      by (auto simp: take_share_def share_uses_def Let_def count_of_bump split: option.splits)
  qed
  show "count_of (give_share m g) k = count_of m k - share_uses g k"
    by (auto simp: give_share_def share_uses_def Let_def count_of_drop_one split: option.splits)
qed

lemma user_key_not_share [simp]: "user_key_of share email \<noteq> share" "share \<noteq> user_key_of share email"
  by (auto simp: user_key_of_def)

text \<open>The operations of the tracker are the operations of the contract.\<close>

lemma acquire_takes:
  assumes "try_acquire_for_user m share_id pl email ul = (m', Ok g)"
  shows "m' = take_share m g" "sg_share_id g = share_id" "sg_user_key g = map_option (user_key_of share_id) email"
    "pl = Some n \<Longrightarrow> count_of m share_id < n"
    "ul = Some n \<Longrightarrow> email = Some e \<Longrightarrow> count_of m (user_key_of share_id e) < n"
  using assms
  by (auto simp: try_acquire_for_user_def take_share_def Let_def reached_def not_le
      split: option.splits if_splits)

lemma acquire_refused:
  "try_acquire_for_user m share_id pl email ul = (m', Err e) \<Longrightarrow> m' = m"
  by (auto simp: try_acquire_for_user_def Let_def split: option.splits)

lemma release_gives:
  assumes "sg_user_key g \<noteq> Some (sg_share_id g)"
  shows "release_share m (sg_share_id g) (sg_user_key g) = give_share m g"
  using assms by (auto simp: release_share_def give_share_def Let_def split: option.splits)

text \<open>The tracker with its live guards: acquisitions, refusals and drops in any order.\<close>

inductive share_lease_step ::
  "counts \<times> ShareInFlightGuard list \<Rightarrow> counts \<times> ShareInFlightGuard list \<Rightarrow> bool" where
  acquire: "try_acquire_for_user m share_id pl email ul = (m', Ok g) \<Longrightarrow> length gs < u32_max \<Longrightarrow>
    share_lease_step (m, gs) (m', g # gs)"
| refuse: "try_acquire_for_user m share_id pl email ul = (m', Err e) \<Longrightarrow> share_lease_step (m, gs) (m', gs)"
| dropped: "g \<in> set gs \<Longrightarrow>
    share_lease_step (m, gs) (release_share m (sg_share_id g) (sg_user_key g), remove1 g gs)"

definition share_lease_inv :: "counts \<times> ShareInFlightGuard list \<Rightarrow> bool" where
  "share_lease_inv S \<longleftrightarrow> shares.tracks (fst S) (snd S) \<and>
     (\<forall>g \<in> set (snd S). sg_user_key g \<noteq> Some (sg_share_id g))"

interpretation share_leases: transition_system "\<lambda>S. S = ([], [])" share_lease_step share_lease_inv
proof unfold_locales
  show "S = ([], []) \<Longrightarrow> share_lease_inv S" for S
    using shares.tracks_empty by (simp add: share_lease_inv_def)
  show "share_lease_inv S \<Longrightarrow> share_lease_step S T \<Longrightarrow> share_lease_inv T" for S T
  proof (erule share_lease_step.cases, goal_cases acquire refuse dropped)
    case (acquire m share_id pl email ul m' g gs)
    with acquire_takes [of m share_id pl email ul m' g] shares.tracks_take [of m gs g] show ?case
      by (auto simp: share_lease_inv_def)
  next
    case (refuse m share_id pl email ul m' e gs)
    with acquire_refused [of m share_id pl email ul m' e] show ?case by (auto simp: share_lease_inv_def)
  next
    case (dropped g gs m)
    with shares.tracks_give [of m gs g] release_gives [of g m] show ?case
      by (auto simp: share_lease_inv_def dest: notin_set_remove1)
  qed
qed

subsection \<open>Upstream accounts\<close>

text \<open>
  \<open>ProviderType\<close> only enters through its label \<open>as_str()\<close>, which the model takes directly.
\<close>

record AccountInFlightCounts =
  ac_by_account :: counts
  ac_by_provider_type :: counts

record AccountInFlightGuard =
  ag_key :: string
  ag_provider_type :: string

record AccountInFlightAcquireError =
  ae_current :: nat
  ae_limit :: nat

definition account_in_flight_key :: "string \<Rightarrow> string \<Rightarrow> string" where
  "account_in_flight_key provider_type account_id = provider_type @ '':'' @ account_id"

definition acquire_account ::
  "AccountInFlightCounts \<Rightarrow> string \<Rightarrow> string \<Rightarrow> nat \<Rightarrow>
   AccountInFlightCounts \<times> (AccountInFlightAcquireError + AccountInFlightGuard)" where
  "acquire_account s provider_type account_id max_concurrent =
     (let key = account_in_flight_key provider_type account_id;
          current = count_of (ac_by_account s) key
      in if current \<ge> max_concurrent
         then (s, Err \<lparr>ae_current = current, ae_limit = max_concurrent\<rparr>)
         else (\<lparr>ac_by_account = bt_insert key (saturating_add_u32 current 1) (ac_by_account s),
                ac_by_provider_type = bt_update_default provider_type 0
                  (\<lambda>total. saturating_add_u32 total 1) (ac_by_provider_type s)\<rparr>,
               Ok \<lparr>ag_key = key, ag_provider_type = provider_type\<rparr>))"

definition release_account :: "AccountInFlightCounts \<Rightarrow> string \<Rightarrow> string \<Rightarrow> AccountInFlightCounts" where
  "release_account s key provider_type =
     (case bt_get (ac_by_account s) key of
        None \<Rightarrow> s
      | Some current \<Rightarrow>
          let accounts = (if current - 1 = 0 then bt_remove key (ac_by_account s)
                          else bt_insert key (current - 1) (ac_by_account s));
              (providers, total) = (case bt_get (ac_by_provider_type s) provider_type of
                  None \<Rightarrow> (ac_by_provider_type s, 0)
                | Some n \<Rightarrow> (bt_insert provider_type (n - 1) (ac_by_provider_type s), n - 1))
          in \<lparr>ac_by_account = accounts,
              ac_by_provider_type = (if total = 0 then bt_remove provider_type providers else providers)\<rparr>)"

definition snapshot_current :: "AccountInFlightCounts \<Rightarrow> string \<Rightarrow> string \<Rightarrow> nat" where
  "snapshot_current s provider_type account_id =
     count_of (ac_by_account s) (account_in_flight_key provider_type account_id)"

text \<open>A guard counts under its account and under its provider type.\<close>

definition account_count :: "AccountInFlightCounts \<Rightarrow> string + string \<Rightarrow> nat" where
  "account_count s k = (case k of Inl a \<Rightarrow> count_of (ac_by_account s) a | Inr p \<Rightarrow> count_of (ac_by_provider_type s) p)"

definition account_uses :: "AccountInFlightGuard \<Rightarrow> string + string \<Rightarrow> nat" where
  "account_uses g k = (if k = Inl (ag_key g) \<or> k = Inr (ag_provider_type g) then 1 else 0)"

definition accounts_wf :: "AccountInFlightCounts \<Rightarrow> bool" where
  "accounts_wf s \<longleftrightarrow> counts_wf (ac_by_account s) \<and> counts_wf (ac_by_provider_type s)"

definition take_account :: "AccountInFlightCounts \<Rightarrow> AccountInFlightGuard \<Rightarrow> AccountInFlightCounts" where
  "take_account s g = \<lparr>ac_by_account = bump (ag_key g) (ac_by_account s),
     ac_by_provider_type = bump (ag_provider_type g) (ac_by_provider_type s)\<rparr>"

definition give_account :: "AccountInFlightCounts \<Rightarrow> AccountInFlightGuard \<Rightarrow> AccountInFlightCounts" where
  "give_account s g = release_account s (ag_key g) (ag_provider_type g)"

lemma bump_default: "bt_update_default k 0 (\<lambda>n. saturating_add_u32 n (Suc 0)) m = bump k m"
  by (simp add: bt_update_default_def bump_def count_of_def)

lemma bt_remove_insert [simp]: "bt_remove k (bt_insert k v m) = bt_remove k m"
  by (induction m) (auto simp: bt_remove_def)

lemma release_account_eq:
  "release_account s key provider = (if bt_get (ac_by_account s) key = None then s
     else \<lparr>ac_by_account = drop_one key (ac_by_account s),
           ac_by_provider_type = drop_one provider (ac_by_provider_type s)\<rparr>)"
proof -
  have "bt_remove provider m = m" if "bt_get m provider = None" for m :: counts
    using that by (induction m) (auto simp: bt_remove_def bt_get_Cons split: if_splits)
  then show ?thesis
    by (auto simp: release_account_def drop_one_def Let_def le_Suc_eq split: option.splits)
qed

interpretation accounts: lease_counter "\<lparr>ac_by_account = [], ac_by_provider_type = []\<rparr>" accounts_wf
  account_count account_uses take_account give_account u32_max
proof unfold_locales
  fix s :: AccountInFlightCounts and g k
  let ?empty = "\<lparr>ac_by_account = [], ac_by_provider_type = []\<rparr> :: AccountInFlightCounts"
  show "accounts_wf ?empty" by (simp add: accounts_wf_def)
  show "account_count ?empty k = 0" by (simp add: account_count_def count_of_def split: sum.split)
  show "account_uses g k \<le> 1" by (simp add: account_uses_def)
  show "accounts_wf s \<Longrightarrow> accounts_wf (take_account s g)" by (simp add: accounts_wf_def take_account_def)
  show "accounts_wf s \<Longrightarrow> accounts_wf (give_account s g)"
    by (simp add: accounts_wf_def give_account_def release_account_eq)
  show "s = ?empty" if "accounts_wf s" "\<forall>k. account_count s k = 0"
  proof -
    from that(2) have "count_of (ac_by_account s) a = 0" "count_of (ac_by_provider_type s) a = 0" for a
      by (metis account_count_def sum.case)+
    with that(1) counts_empty have "ac_by_account s = [] \<and> ac_by_provider_type s = []"
      by (simp add: accounts_wf_def)
    then show ?thesis by (cases s) simp
  qed
  show "account_count (take_account s g) k = account_count s k + account_uses g k"
    if below: "\<forall>k. account_count s k < u32_max"
  proof -
    have "saturating_add_u32 (account_count s x) 1 = account_count s x + 1" for x
      using below [rule_format, of x] by (simp add: saturating_add_u32_def)
    from this [of "Inl _"] this [of "Inr _"] show ?thesis
      by (auto simp: account_count_def take_account_def account_uses_def count_of_bump split: sum.split)
  qed
  show "account_count (give_account s g) k = account_count s k - account_uses g k"
    if held: "\<forall>k. account_uses g k \<le> account_count s k"
  proof -
    have "0 < count_of (ac_by_account s) (ag_key g)"
      using held [rule_format, of "Inl (ag_key g)"] by (simp add: account_uses_def account_count_def)
    then have "bt_get (ac_by_account s) (ag_key g) \<noteq> None" by (auto simp: count_of_def split: option.splits)
    then show ?thesis
      by (auto simp: give_account_def release_account_eq account_count_def account_uses_def
          count_of_drop_one split: sum.split)
  qed
qed

lemma acquire_account_takes:
  assumes "acquire_account s p a limit = (s', Ok g)"
  shows "s' = take_account s g" "ag_key g = account_in_flight_key p a" "ag_provider_type g = p"
    "account_count s (Inl (account_in_flight_key p a)) < limit"
  using assms
  by (auto simp: acquire_account_def take_account_def Let_def bump_default account_count_def
      bump_def [of "account_in_flight_key p a"] split: if_splits)

inductive account_lease_step ::
  "AccountInFlightCounts \<times> AccountInFlightGuard list \<Rightarrow>
   AccountInFlightCounts \<times> AccountInFlightGuard list \<Rightarrow> bool" where
  acquire: "acquire_account s p a limit = (s', Ok g) \<Longrightarrow> length gs < u32_max \<Longrightarrow>
    account_lease_step (s, gs) (s', g # gs)"
| refuse: "acquire_account s p a limit = (s', Err e) \<Longrightarrow> account_lease_step (s, gs) (s', gs)"
| dropped: "g \<in> set gs \<Longrightarrow>
    account_lease_step (s, gs) (release_account s (ag_key g) (ag_provider_type g), remove1 g gs)"

definition no_accounts :: AccountInFlightCounts where
  "no_accounts = \<lparr>ac_by_account = [], ac_by_provider_type = []\<rparr>"

interpretation account_leases: transition_system "\<lambda>S. S = (no_accounts, [])" account_lease_step
  "\<lambda>(s, gs). accounts.tracks s gs"
proof unfold_locales
  show "S = (no_accounts, []) \<Longrightarrow> (case S of (s, gs) \<Rightarrow> accounts.tracks s gs)" for S
    using accounts.tracks_empty by (simp add: no_accounts_def)
  show "(case S of (s, gs) \<Rightarrow> accounts.tracks s gs) \<Longrightarrow> account_lease_step S T \<Longrightarrow>
      (case T of (s, gs) \<Rightarrow> accounts.tracks s gs)" for S T
  proof (erule account_lease_step.cases, goal_cases acquire refuse dropped)
    case (acquire s p a limit s' g gs)
    with acquire_account_takes [of s p a limit s' g] accounts.tracks_take [of s gs g] show ?case by simp
  next
    case (refuse s p a limit s' e gs)
    then have "s' = s" by (auto simp: acquire_account_def Let_def split: if_splits)
    with refuse show ?case by simp
  next
    case (dropped g gs s)
    with accounts.tracks_give [of s gs g] show ?case by (simp add: give_account_def)
  qed
qed

subsection \<open>Properties\<close>

definition demo_guard :: ShareInFlightGuard where
  "demo_guard = \<lparr>sg_share_id = ''s'', sg_user_key = Some (user_key_of ''s'' ''u'')\<rparr>"

lemma demo_acquire:
  "try_acquire_for_user [] ''s'' (Some 2) (Some ''u'') (Some 1) =
   ([(''s'', 1), (user_key_of ''s'' ''u'', 1)], Ok demo_guard)"
  by (simp add: try_acquire_for_user_def demo_guard_def count_of_def reached_def Let_def bump_def
      saturating_add_u32_def u32_max_def user_key_of_def bt_get_Cons)

text \<open>
  C14. Concurrency limits hold: however acquisitions and drops interleave, when a request is
  admitted under a Share limit and a user limit, the number of requests then running under
  that Share, and under that Share and user, does not exceed them.
\<close>

theorem share_limits_hold:
  assumes "share_lease_step\<^sup>*\<^sup>* ([], []) (m, gs)" and "length gs < u32_max"
    and "try_acquire_for_user m share_id parallel_limit user_email user_limit = (m', Ok g)"
  shows "(\<forall>n. parallel_limit = Some n \<longrightarrow> length (filter (\<lambda>h. sg_share_id h = share_id) (g # gs)) \<le> n) \<and>
    (\<forall>n email. user_limit = Some n \<longrightarrow> user_email = Some email \<longrightarrow>
       length (filter (\<lambda>h. sg_user_key h = Some (user_key_of share_id email)) (g # gs)) \<le> n)"
proof -
  have tracks: "shares.tracks m gs"
    using share_leases.reachable_inv [OF refl assms(1)] by (simp add: share_lease_inv_def)
  note got = acquire_takes [OF assms(3)]
  show ?thesis
  proof (intro conjI allI impI)
    show "length (filter (\<lambda>h. sg_share_id h = share_id) (g # gs)) \<le> n" if "parallel_limit = Some n" for n
      by (rule shares.tracks_limit [OF tracks got(4) [OF that] assms(2)]) (simp add: share_uses_def)
    show "length (filter (\<lambda>h. sg_user_key h = Some (user_key_of share_id email)) (g # gs)) \<le> n"
      if "user_limit = Some n" "user_email = Some email" for n email
      by (rule shares.tracks_limit [OF tracks got(5) [OF that] assms(2)]) (simp add: share_uses_def)
  qed
qed

theorem share_limits_hold_witness:
  "length (filter (\<lambda>h. sg_share_id h = ''s'') [demo_guard]) \<le> 2 \<and>
   length (filter (\<lambda>h. sg_user_key h = Some (user_key_of ''s'' ''u'')) [demo_guard]) \<le> 1"
  using share_limits_hold [OF rtranclp.rtrancl_refl _ demo_acquire] by (simp add: u32_max_def)

text \<open>
  C15. No lease leaks: whatever was acquired and dropped, the tracker counts exactly the
  live guards of every Share, and when no guard is left the tracker is empty again.
\<close>

theorem share_leases_exact:
  assumes "share_lease_step\<^sup>*\<^sup>* ([], []) (m, gs)"
  shows "count_of m k = length (filter (\<lambda>g. sg_share_id g = k \<or> sg_user_key g = Some k) gs) \<and>
    (gs = [] \<longrightarrow> m = [])"
proof -
  have tracks: "shares.tracks m gs"
    using share_leases.reachable_inv [OF refl assms] by (simp add: share_lease_inv_def)
  have "shares.live_uses gs k = length (filter (\<lambda>g. sg_share_id g = k \<or> sg_user_key g = Some k) gs)"
    unfolding shares.live_uses_def by (induction gs) (auto simp: share_uses_def)
  with tracks shares.tracks_none [of m] show ?thesis by (auto simp: shares.tracks_def)
qed

theorem share_leases_exact_witness:
  "count_of (fst (try_acquire_for_user [] ''s'' (Some 2) (Some ''u'') (Some 1))) ''s'' = 1"
proof -
  have "share_lease_step\<^sup>*\<^sup>* ([], []) ([(''s'', 1), (user_key_of ''s'' ''u'', 1)], [demo_guard])"
    by (rule r_into_rtranclp, rule share_lease_step.acquire [OF demo_acquire]) (simp add: u32_max_def)
  from share_leases_exact [OF this, of "''s''"] show ?thesis
    unfolding demo_acquire fst_conv by (simp add: demo_guard_def)
qed

text \<open>
  The same for upstream accounts: an admitted request leaves at most \<open>max_concurrent\<close>
  running on its account, the provider totals are the sums over the accounts' guards, and
  the last drop leaves nothing behind.
\<close>

theorem account_leases_exact:
  assumes "account_lease_step\<^sup>*\<^sup>* (no_accounts, []) (s, gs)"
  shows "snapshot_current s provider account =
      length (filter (\<lambda>g. ag_key g = account_in_flight_key provider account) gs) \<and>
    count_of (ac_by_provider_type s) provider = length (filter (\<lambda>g. ag_provider_type g = provider) gs) \<and>
    (gs = [] \<longrightarrow> s = no_accounts) \<and>
    (\<forall>limit s' g. acquire_account s provider account limit = (s', Ok g) \<longrightarrow>
       length (filter (\<lambda>h. ag_key h = ag_key g) (g # gs)) \<le> limit)"
proof -
  have tracks: "accounts.tracks s gs"
    using account_leases.reachable_inv [OF refl assms] by simp
  have "accounts.live_uses gs (Inl k) = length (filter (\<lambda>g. ag_key g = k) gs)"
    "accounts.live_uses gs (Inr k) = length (filter (\<lambda>g. ag_provider_type g = k) gs)" for k
    unfolding accounts.live_uses_def by (induction gs) (auto simp: account_uses_def)
  moreover have "account_count s k = accounts.live_uses gs k" for k
    using tracks by (simp add: accounts.tracks_def)
  from this [of "Inl _"] this [of "Inr _"] have
    "count_of (ac_by_account s) k = accounts.live_uses gs (Inl k)"
    "count_of (ac_by_provider_type s) k = accounts.live_uses gs (Inr k)" for k
    by (simp_all add: account_count_def)
  ultimately show ?thesis
    using accounts.tracks_none [of s] tracks acquire_account_takes(2,4) [of s provider account]
    by (auto simp: snapshot_current_def no_accounts_def account_count_def Suc_le_eq)
qed

theorem account_leases_exact_witness:
  "snapshot_current (fst (acquire_account no_accounts ''codex'' ''1'' 3)) ''codex'' ''1'' = 1"
proof -
  obtain s g where got: "acquire_account no_accounts ''codex'' ''1'' 3 = (s, Ok g)"
    by (simp add: acquire_account_def no_accounts_def count_of_def Let_def)
  have "account_lease_step\<^sup>*\<^sup>* (no_accounts, []) (s, [g])"
    by (rule r_into_rtranclp, rule account_lease_step.acquire [OF got]) (simp add: u32_max_def)
  from account_leases_exact [OF this, of "''codex''" "''1''"] acquire_account_takes(2) [OF got] got
  show ?thesis by simp
qed

end
