(* ===== verification/Recovery.thy ===== *)
theory Recovery
  imports Prelude
begin

section \<open>Transparent recovery\<close>

text \<open>
  Model of \<open>src/src/proxy/execution/recovery.rs\<close>, \<open>terminal.rs\<close> and the binding fence of
  \<open>context.rs\<close>: a request may be replayed upstream only while nothing of the answer has
  been published, the provider binding is the one it started with, and a budget of retries
  (in total, per kind and in time) is not used up.
\<close>

subsection \<open>The commit fence\<close>

record CommitGuard =
  cg_committed_at_attempt :: "nat option"

definition default_guard :: CommitGuard where
  "default_guard = \<lparr>cg_committed_at_attempt = None\<rparr>"

definition is_committed :: "CommitGuard \<Rightarrow> bool" where
  "is_committed g \<longleftrightarrow> cg_committed_at_attempt g \<noteq> None"

definition commit_business_output :: "CommitGuard \<Rightarrow> nat \<Rightarrow> CommitGuard \<times> bool" where
  "commit_business_output g attempt =
     (if cg_committed_at_attempt g \<noteq> None then (g, False)
      else (\<lparr>cg_committed_at_attempt = Some attempt\<rparr>, True))"

subsection \<open>The binding fence\<close>

text \<open>\<open>AppKind\<close> and \<open>ProviderType\<close> are only compared for equality: they enter as labels.\<close>

record ManagedAccountSnapshot =
  ma_provider_type :: string
  ma_account_id :: string
  ma_auth_identity_generation :: nat
  ma_token_generation :: nat

record BindingSnapshot =
  bs_app :: string
  bs_provider_id :: string
  bs_provider_type :: string
  bs_provider_revision :: nat
  bs_credential_generation :: nat
  bs_rail :: string
  bs_account :: "ManagedAccountSnapshot option"

datatype BindingSnapshotError =
  AccountMissing | AuthIdentityChanged | BindingChanged | TokenGenerationRegressed

definition same_identity :: "BindingSnapshot \<Rightarrow> BindingSnapshot \<Rightarrow> bool" where
  "same_identity a b \<longleftrightarrow>
     bs_app a = bs_app b \<and> bs_provider_id a = bs_provider_id b \<and>
     bs_provider_type a = bs_provider_type b \<and> bs_provider_revision a = bs_provider_revision b \<and>
     bs_credential_generation a = bs_credential_generation b \<and> bs_rail a = bs_rail b \<and>
     (case (bs_account a, bs_account b) of
        (Some l, Some r) \<Rightarrow> ma_provider_type l = ma_provider_type r \<and>
          ma_account_id l = ma_account_id r \<and>
          ma_auth_identity_generation l = ma_auth_identity_generation r
      | (None, None) \<Rightarrow> True
      | _ \<Rightarrow> False)"

text \<open>
  What a capture reads of the stored provider, its execution plan and the account store.
  \<open>st_managed\<close> is the answer of \<open>managed_account_binding_with_generation\<close>,
  \<open>ex_managed_ownership\<close> that of \<open>account_credential_ownership\<close> for the provider's type.
\<close>

record Account =
  ac_id :: string
  ac_provider_type :: string
  ac_auth_identity_generation :: nat
  ac_token_refresh_generation :: nat

record StoredProvider =
  st_app :: string
  st_provider_id :: string
  st_provider_type :: string
  st_revision :: nat
  st_credential_generation :: nat
  st_managed :: "(string \<times> string \<times> nat) option"

datatype RuntimeAuthRef =
  ManagedAccount (ra_account_id: string) (ra_expected_provider_type: string) (ra_auth_identity_generation: nat)
| StaticCredential string "string list" nat
| AwsCredential "string list" nat
| CustomCredential string "string list" nat
| Legacy "string option" nat
| Missing

record ProviderExecution =
  ex_stored :: StoredProvider
  ex_auth_ref :: RuntimeAuthRef
  ex_profile_id :: string
  ex_driver_id :: string
  ex_upstream_protocol :: string
  ex_managed_ownership :: bool

definition find_for_provider :: "Account list \<Rightarrow> string \<Rightarrow> string option \<Rightarrow> Account option" where
  "find_for_provider accounts provider_type account_id = (case account_id of
     Some i \<Rightarrow> find (\<lambda>a. ac_id a = i \<and> ac_provider_type a = provider_type) accounts
   | None \<Rightarrow> find (\<lambda>a. ac_provider_type a = provider_type) accounts)"

definition managed_account_target :: "ProviderExecution \<Rightarrow> (string \<times> string) option" where
  "managed_account_target e = (case ex_auth_ref e of
     ManagedAccount account_id expected _ \<Rightarrow> Some (expected, account_id)
   | Legacy (Some account_id) _ \<Rightarrow>
       if ex_managed_ownership e then Some (st_provider_type (ex_stored e), account_id) else None
   | _ \<Rightarrow> None)"

text \<open>Both captures look the named account up and pin its identity generation.\<close>

definition pinned_account ::
  "Account list \<Rightarrow> string \<Rightarrow> string \<Rightarrow> nat \<Rightarrow> BindingSnapshotError + ManagedAccountSnapshot option" where
  "pinned_account accounts provider_type account_id generation =
     (case find_for_provider accounts provider_type (Some account_id) of
        None \<Rightarrow> Err AccountMissing
      | Some current \<Rightarrow>
          if ac_auth_identity_generation current \<noteq> generation then Err AuthIdentityChanged
          else Ok (Some \<lparr>ma_provider_type = provider_type, ma_account_id = account_id,
            ma_auth_identity_generation = generation,
            ma_token_generation = ac_token_refresh_generation current\<rparr>))"

definition stored_snapshot ::
  "StoredProvider \<Rightarrow> string \<Rightarrow> ManagedAccountSnapshot option \<Rightarrow> BindingSnapshot" where
  "stored_snapshot st rail account =
     \<lparr>bs_app = st_app st, bs_provider_id = st_provider_id st, bs_provider_type = st_provider_type st,
      bs_provider_revision = st_revision st, bs_credential_generation = st_credential_generation st,
      bs_rail = rail, bs_account = account\<rparr>"

definition capture_stored ::
  "StoredProvider \<Rightarrow> Account list \<Rightarrow> string \<Rightarrow> BindingSnapshotError + BindingSnapshot" where
  "capture_stored stored accounts rail =
     (case (case st_managed stored of
              Some (provider_type, account_id, generation) \<Rightarrow>
                pinned_account accounts provider_type account_id generation
            | None \<Rightarrow> Ok None) of
        Err e \<Rightarrow> Err e
      | Ok account \<Rightarrow> Ok (stored_snapshot stored rail account))"

definition execution_rail :: "ProviderExecution \<Rightarrow> string" where
  "execution_rail e = ex_profile_id e @ '':'' @ ex_driver_id e @ '':'' @ ex_upstream_protocol e"

definition execution_account ::
  "ProviderExecution \<Rightarrow> Account list \<Rightarrow> BindingSnapshotError + ManagedAccountSnapshot option" where
  "execution_account e accounts = (case ex_auth_ref e of
     ManagedAccount account_id expected generation \<Rightarrow>
       pinned_account accounts expected account_id generation
   | Legacy (Some account_id) _ \<Rightarrow>
       if managed_account_target e \<noteq> None
       then (case find_for_provider accounts (st_provider_type (ex_stored e)) (Some account_id) of
               None \<Rightarrow> Err AccountMissing
             | Some current \<Rightarrow> Ok (Some \<lparr>ma_provider_type = st_provider_type (ex_stored e),
                 ma_account_id = account_id,
                 ma_auth_identity_generation = ac_auth_identity_generation current,
                 ma_token_generation = ac_token_refresh_generation current\<rparr>))
       else Ok None
   | _ \<Rightarrow> Ok None)"

definition capture :: "ProviderExecution \<Rightarrow> Account list \<Rightarrow> BindingSnapshotError + BindingSnapshot" where
  "capture e accounts = (case execution_account e accounts of
     Err err \<Rightarrow> Err err
   | Ok account \<Rightarrow> Ok (stored_snapshot (ex_stored e) (execution_rail e) account))"

definition validate_binding ::
  "BindingSnapshot \<Rightarrow> ProviderExecution \<Rightarrow> Account list \<Rightarrow> BindingSnapshotError + unit" where
  "validate_binding self e accounts = (case capture e accounts of
     Err err \<Rightarrow> Err err
   | Ok current \<Rightarrow> if self = current then Ok () else Err BindingChanged)"

text \<open>
  \<open>advance_token_generation\<close> and \<open>advance_stored_token_generation\<close> share everything after
  the capture: a token refresh is the only transition of a binding in place.
\<close>

definition advance_to ::
  "BindingSnapshot \<Rightarrow> BindingSnapshotError + BindingSnapshot \<Rightarrow>
   BindingSnapshot \<times> (BindingSnapshotError + unit)" where
  "advance_to self captured = (case captured of
     Err e \<Rightarrow> (self, Err e)
   | Ok current \<Rightarrow>
       if \<not> same_identity self current then (self, Err BindingChanged)
       else case (bs_account self, bs_account current) of
          (Some previous, Some next) \<Rightarrow>
            if ma_token_generation next < ma_token_generation previous
            then (self, Err TokenGenerationRegressed)
            else (current, Ok ())
        | (None, None) \<Rightarrow> (self, Ok ())
        | _ \<Rightarrow> (self, Err BindingChanged))"

definition advance_token_generation ::
  "BindingSnapshot \<Rightarrow> ProviderExecution \<Rightarrow> Account list \<Rightarrow>
   BindingSnapshot \<times> (BindingSnapshotError + unit)" where
  "advance_token_generation self e accounts = advance_to self (capture e accounts)"

definition advance_stored_token_generation ::
  "BindingSnapshot \<Rightarrow> StoredProvider \<Rightarrow> Account list \<Rightarrow> string \<Rightarrow>
   BindingSnapshot \<times> (BindingSnapshotError + unit)" where
  "advance_stored_token_generation self stored accounts rail =
     advance_to self (capture_stored stored accounts rail)"

subsection \<open>The budget\<close>

datatype RecoveryStage =
  Auth | Capacity | BodyCompatibility | Reasoning | SessionRollover | Transport | WebsocketToHttp

fun stage_index :: "RecoveryStage \<Rightarrow> nat" where
  "stage_index Auth = 0"
| "stage_index Capacity = 1"
| "stage_index BodyCompatibility = 2"
| "stage_index Reasoning = 3"
| "stage_index SessionRollover = 4"
| "stage_index Transport = 5"
| "stage_index WebsocketToHttp = 6"

definition RECOVERY_STAGE_COUNT :: nat where
  "RECOVERY_STAGE_COUNT = 7"

datatype DelaySource = NoDelay | Immediate | RetryAfter | ProviderHint | BoundedBackoff

datatype RetryDecision =
  Reserved | DeniedTotalLimit | DeniedStageLimit | DeniedElapsedLimit | DeniedCommitted
| DeniedBindingDrift | DeniedBudget

record AttemptLimits =
  al_total_retries :: nat
  al_elapsed_ms :: nat
  al_per_stage :: "nat list"

definition forward_default :: "nat \<Rightarrow> nat \<Rightarrow> AttemptLimits" where
  "forward_default total_retries elapsed_ms =
     \<lparr>al_total_retries = total_retries, al_elapsed_ms = elapsed_ms,
      al_per_stage = [1, 2, 3, 1, 1, 3, 1]\<rparr>"

definition stage_limit :: "AttemptLimits \<Rightarrow> RecoveryStage \<Rightarrow> nat" where
  "stage_limit l stage = al_per_stage l ! stage_index stage"

record AttemptObservation =
  ao_stage :: RecoveryStage
  ao_reason :: string
  ao_delay_source :: DelaySource
  ao_decision :: RetryDecision

record AttemptBudget =
  ab_limits :: AttemptLimits
  ab_started_at_ms :: nat
  ab_retries_used :: nat
  ab_per_stage_used :: "nat list"
  ab_last_observation :: "AttemptObservation option"

definition new_budget :: "AttemptLimits \<Rightarrow> nat \<Rightarrow> AttemptBudget" where
  "new_budget limits started_at_ms =
     \<lparr>ab_limits = limits, ab_started_at_ms = started_at_ms, ab_retries_used = 0,
      ab_per_stage_used = replicate RECOVERY_STAGE_COUNT 0, ab_last_observation = None\<rparr>"

definition used_for :: "AttemptBudget \<Rightarrow> RecoveryStage \<Rightarrow> nat" where
  "used_for b stage = ab_per_stage_used b ! stage_index stage"

text \<open>Subtraction on naturals stops at zero, as \<open>saturating_sub\<close> does.\<close>

definition has_remaining :: "AttemptBudget \<Rightarrow> nat \<Rightarrow> CommitGuard \<Rightarrow> bool" where
  "has_remaining b now_ms guard \<longleftrightarrow>
     \<not> is_committed guard \<and> ab_retries_used b < al_total_retries (ab_limits b) \<and>
     now_ms - ab_started_at_ms b < al_elapsed_ms (ab_limits b)"

definition reserve ::
  "AttemptBudget \<Rightarrow> RecoveryStage \<Rightarrow> string \<Rightarrow> DelaySource \<Rightarrow> nat \<Rightarrow> CommitGuard \<Rightarrow>
   BindingSnapshot option \<Rightarrow> BindingSnapshot option \<Rightarrow> AttemptBudget \<times> RetryDecision" where
  "reserve b stage reason delay now_ms guard expected current =
     (let (b1, decision) =
        (if is_committed guard then (b, DeniedCommitted)
         else if expected \<noteq> current then (b, DeniedBindingDrift)
         else if now_ms - ab_started_at_ms b \<ge> al_elapsed_ms (ab_limits b) then (b, DeniedElapsedLimit)
         else if ab_retries_used b \<ge> al_total_retries (ab_limits b) then (b, DeniedTotalLimit)
         else if ab_per_stage_used b ! stage_index stage \<ge> stage_limit (ab_limits b) stage
         then (b, DeniedStageLimit)
         else (b\<lparr>ab_retries_used := saturating_add_u32 (ab_retries_used b) 1,
                 ab_per_stage_used := (ab_per_stage_used b)[stage_index stage :=
                   saturating_add_u32 (ab_per_stage_used b ! stage_index stage) 1]\<rparr>, Reserved))
      in (b1\<lparr>ab_last_observation := Some \<lparr>ao_stage = stage, ao_reason = reason,
            ao_delay_source = delay, ao_decision = decision\<rparr>\<rparr>, decision))"

subsection \<open>Sequences of recoveries\<close>

lemma stage_index_less [simp]: "stage_index s < 7"
  by (cases s) simp_all

lemma stage_index_inj: "stage_index s = stage_index t \<longleftrightarrow> s = t"
  by (cases s; cases t) simp_all

record recovery_state =
  rs_budget :: AttemptBudget
  rs_guard :: CommitGuard
  rs_replays :: "RecoveryStage list"

text \<open>
  One request: it asks for replays, and at some point its first business output commits it.
  \<open>rs_replays\<close> records the stages of the replays that were granted, the last one first.
\<close>

inductive recovery_step :: "recovery_state \<Rightarrow> recovery_state \<Rightarrow> bool" where
  ask: "reserve (rs_budget S) stage reason delay now (rs_guard S) expected current = (b, d) \<Longrightarrow>
    recovery_step S (S\<lparr>rs_budget := b,
      rs_replays := (if d = Reserved then stage # rs_replays S else rs_replays S)\<rparr>)"
| publish: "commit_business_output (rs_guard S) attempt = (g, first) \<Longrightarrow>
    recovery_step S (S\<lparr>rs_guard := g\<rparr>)"

definition fresh_request :: "AttemptLimits \<Rightarrow> nat \<Rightarrow> recovery_state" where
  "fresh_request limits started = \<lparr>rs_budget = new_budget limits started, rs_guard = default_guard,
     rs_replays = []\<rparr>"

definition limits_ok :: "AttemptLimits \<Rightarrow> bool" where
  "limits_ok l \<longleftrightarrow> length (al_per_stage l) = RECOVERY_STAGE_COUNT \<and> al_total_retries l \<le> u32_max \<and>
     (\<forall>n \<in> set (al_per_stage l). n \<le> u32_max)"

definition recovery_inv :: "AttemptLimits \<Rightarrow> recovery_state \<Rightarrow> bool" where
  "recovery_inv l S \<longleftrightarrow> ab_limits (rs_budget S) = l \<and> limits_ok l \<and>
     length (ab_per_stage_used (rs_budget S)) = RECOVERY_STAGE_COUNT \<and>
     ab_retries_used (rs_budget S) = length (rs_replays S) \<and>
     length (rs_replays S) \<le> al_total_retries l \<and>
     (\<forall>t. used_for (rs_budget S) t = count_list (rs_replays S) t \<and>
        count_list (rs_replays S) t \<le> stage_limit l t)"

lemma reserve_granted:
  assumes inv: "recovery_inv l S"
    and res: "reserve (rs_budget S) stage reason delay now (rs_guard S) expected current = (b, Reserved)"
  shows "recovery_inv l (S\<lparr>rs_budget := b, rs_replays := stage # rs_replays S\<rparr>)"
    and "\<not> is_committed (rs_guard S)" and "expected = current"
    and "now - ab_started_at_ms (rs_budget S) < al_elapsed_ms l"
proof -
  let ?b = "rs_budget S" and ?i = "stage_index stage"
  have len: "length (ab_per_stage_used ?b) = 7" "length (al_per_stage l) = 7"
    using inv by (simp_all add: recovery_inv_def limits_ok_def RECOVERY_STAGE_COUNT_def)
  from res inv have below: "ab_retries_used ?b < al_total_retries l" "used_for ?b stage < stage_limit l stage"
    and b: "b = ?b\<lparr>ab_retries_used := saturating_add_u32 (ab_retries_used ?b) 1,
        ab_per_stage_used := (ab_per_stage_used ?b)[?i := saturating_add_u32 (used_for ?b stage) 1],
        ab_last_observation := Some \<lparr>ao_stage = stage, ao_reason = reason, ao_delay_source = delay,
          ao_decision = Reserved\<rparr>\<rparr>"
    and other: "\<not> is_committed (rs_guard S)" "expected = current"
      "now - ab_started_at_ms ?b < al_elapsed_ms l"
    by (auto simp: reserve_def Let_def recovery_inv_def used_for_def split: if_splits)
  then show "\<not> is_committed (rs_guard S)" "expected = current" "now - ab_started_at_ms ?b < al_elapsed_ms l"
    by simp_all
  have "al_per_stage l ! ?i \<in> set (al_per_stage l)"
    using len by (intro nth_mem) simp
  then have "stage_limit l stage \<le> u32_max"
    using inv by (simp add: recovery_inv_def limits_ok_def stage_limit_def)
  with below inv have sat: "saturating_add_u32 (ab_retries_used ?b) 1 = ab_retries_used ?b + 1"
    "saturating_add_u32 (used_for ?b stage) 1 = used_for ?b stage + 1"
    by (auto simp: saturating_add_u32_def recovery_inv_def limits_ok_def)
  have used: "used_for b t = (if t = stage then used_for ?b stage + 1 else used_for ?b t)" for t
    using len sat by (auto simp: used_for_def b nth_list_update stage_index_inj)
  show "recovery_inv l (S\<lparr>rs_budget := b, rs_replays := stage # rs_replays S\<rparr>)"
    using inv below sat used by (auto simp: recovery_inv_def b Suc_le_eq)
qed

lemma recovery_step_inv: "recovery_inv l S \<Longrightarrow> recovery_step S T \<Longrightarrow> recovery_inv l T"
proof (erule recovery_step.cases, goal_cases ask publish)
  case (ask U stage reason delay now expected current b d)
  show ?case
  proof (cases "d = Reserved")
    case True
    with ask reserve_granted(1) show ?thesis by fastforce
  next
    case False
    with ask have "ab_limits b = ab_limits (rs_budget U)" "ab_per_stage_used b = ab_per_stage_used (rs_budget U)"
      "ab_retries_used b = ab_retries_used (rs_budget U)"
      by (auto simp: reserve_def Let_def split: if_splits)
    with False ask show ?thesis by (simp add: recovery_inv_def used_for_def)
  qed
qed (simp add: recovery_inv_def)

interpretation recovery: transition_system
  "\<lambda>S. limits_ok l \<and> (\<exists>t. S = fresh_request l t)" recovery_step "recovery_inv l" for l
proof unfold_locales
  show "limits_ok l \<and> (\<exists>t. S = fresh_request l t) \<Longrightarrow> recovery_inv l S" for S
    by (auto simp: recovery_inv_def fresh_request_def new_budget_def used_for_def RECOVERY_STAGE_COUNT_def)
qed (fact recovery_step_inv)

subsection \<open>Properties\<close>

text \<open>
  C17. Replays are bounded: whatever failures a request meets and in whatever order, it is
  never replayed more often than its total budget and never more often for one kind of
  failure than that kind allows.
\<close>

theorem replays_bounded:
  assumes "limits_ok l" and "recovery_step\<^sup>*\<^sup>* (fresh_request l started) S"
  shows "length (rs_replays S) \<le> al_total_retries l \<and> count_list (rs_replays S) stage \<le> stage_limit l stage"
proof -
  have "recovery_inv l S"
    by (rule recovery.reachable_inv [OF _ assms(2)]) (use assms(1) in blast)
  then show ?thesis by (simp add: recovery_inv_def)
qed

lemma demo_limits: "limits_ok (forward_default 3 1000)"
  by (simp add: limits_ok_def forward_default_def RECOVERY_STAGE_COUNT_def u32_max_def)

theorem replays_bounded_witness:
  "\<exists>S. recovery_step\<^sup>*\<^sup>* (fresh_request (forward_default 3 1000) 0) S \<and> rs_replays S = [Auth] \<and>
     length (rs_replays S) \<le> 3 \<and> count_list (rs_replays S) Auth \<le> 1"
proof -
  let ?S = "fresh_request (forward_default 3 1000) 0"
  obtain b where b: "reserve (rs_budget ?S) Auth ''401'' Immediate 5 (rs_guard ?S) None None = (b, Reserved)"
    by (simp add: fresh_request_def new_budget_def reserve_def is_committed_def default_guard_def
        forward_default_def stage_limit_def RECOVERY_STAGE_COUNT_def)
  have step: "recovery_step\<^sup>*\<^sup>* ?S (?S\<lparr>rs_budget := b, rs_replays := [Auth]\<rparr>)"
    using recovery_step.ask [OF b] by (auto simp: fresh_request_def intro: r_into_rtranclp)
  from replays_bounded [OF demo_limits step, of Auth] step show ?thesis
    by (intro exI [of _ "?S\<lparr>rs_budget := b, rs_replays := [Auth]\<rparr>"])
      (simp add: forward_default_def stage_limit_def)
qed

text \<open>
  C18. No replay after output: once the first business output is published no replay is
  ever granted again, and the attempt that published stays recorded.
\<close>

theorem no_replay_after_commit:
  assumes "is_committed (rs_guard S)" and "recovery_step\<^sup>*\<^sup>* S T"
  shows "rs_replays T = rs_replays S \<and> rs_guard T = rs_guard S"
  using assms(2)
proof (induction rule: rtranclp_induct)
  case (step T U)
  with assms(1) have "is_committed (rs_guard T)" by simp
  with step.hyps(2) have "rs_replays U = rs_replays T \<and> rs_guard U = rs_guard T"
    by cases (auto simp: reserve_def commit_business_output_def is_committed_def Let_def split: if_splits)
  with step.IH show ?case by simp
qed simp

theorem no_replay_after_commit_witness:
  "\<exists>T. recovery_step ((fresh_request (forward_default 3 1000) 0)\<lparr>rs_guard := \<lparr>cg_committed_at_attempt = Some 1\<rparr>\<rparr>) T \<and>
     rs_replays T = []"
proof -
  let ?S = "(fresh_request (forward_default 3 1000) 0)\<lparr>rs_guard := \<lparr>cg_committed_at_attempt = Some 1\<rparr>\<rparr>"
  obtain b d where "reserve (rs_budget ?S) Auth ''401'' Immediate 5 (rs_guard ?S) None None = (b, d)"
    by (metis surj_pair)
  from recovery_step.ask [OF this] obtain T where step: "recovery_step ?S T" by blast
  from no_replay_after_commit [OF _ r_into_rtranclp [of recovery_step, OF step]] step show ?thesis
    by (auto simp: is_committed_def fresh_request_def)
qed

lemma advance_to_cases:
  "advance_to self captured = (b, r) \<Longrightarrow>
     (case r of Err _ \<Rightarrow> b = self
      | Ok _ \<Rightarrow> captured = Ok b \<and> same_identity self b \<and>
          (\<forall>p n. bs_account self = Some p \<longrightarrow> bs_account b = Some n \<longrightarrow>
             ma_token_generation p \<le> ma_token_generation n))"
  by (auto simp: advance_to_def same_identity_def split: option.splits sum.splits if_splits
      intro: BindingSnapshot.equality)

text \<open>
  The binding fence only moves forward on the same identity: an accepted token refresh
  keeps the provider, its revision, the credential generation, the rail and the account,
  never goes back to an older token, and leaves a binding that validates against the same
  accounts; a refused one changes nothing.
\<close>

theorem binding_only_refreshes:
  "case advance_token_generation self e accounts of
     (b, Ok _) \<Rightarrow> same_identity self b \<and> validate_binding b e accounts = Ok () \<and>
       (\<forall>p n. bs_account self = Some p \<longrightarrow> bs_account b = Some n \<longrightarrow>
          ma_token_generation p \<le> ma_token_generation n)
   | (b, Err _) \<Rightarrow> b = self"
proof (cases "advance_token_generation self e accounts")
  case (Pair b r)
  with advance_to_cases [of self "capture e accounts" b r] show ?thesis
    by (auto simp: advance_token_generation_def validate_binding_def split: sum.splits)
qed

definition demo_account :: "nat \<Rightarrow> nat \<Rightarrow> Account" where
  "demo_account identity token = \<lparr>ac_id = ''a'', ac_provider_type = ''codex'',
     ac_auth_identity_generation = identity, ac_token_refresh_generation = token\<rparr>"

definition demo_execution :: ProviderExecution where
  "demo_execution = \<lparr>ex_stored = \<lparr>st_app = ''codex'', st_provider_id = ''p'', st_provider_type = ''codex'',
       st_revision = 1, st_credential_generation = 1, st_managed = None\<rparr>,
     ex_auth_ref = ManagedAccount ''a'' ''codex'' 1, ex_profile_id = ''p'', ex_driver_id = ''d'',
     ex_upstream_protocol = ''Responses'', ex_managed_ownership = True\<rparr>"

lemmas demo_binding_simps = demo_account_def demo_execution_def capture_def execution_account_def
  pinned_account_def find_for_provider_def stored_snapshot_def

theorem binding_only_refreshes_witness:
  "\<exists>b c. capture demo_execution [demo_account 1 4] = Ok b \<and>
     advance_token_generation b demo_execution [demo_account 1 5] = (c, Ok ()) \<and> b \<noteq> c \<and>
     same_identity b c \<and> validate_binding c demo_execution [demo_account 1 5] = Ok ()"
proof -
  obtain b where b: "capture demo_execution [demo_account 1 4] = Ok b"
    by (simp add: demo_binding_simps)
  then obtain c where c: "advance_token_generation b demo_execution [demo_account 1 5] = (c, Ok ())" "b \<noteq> c"
    by (auto simp: demo_binding_simps advance_token_generation_def advance_to_def same_identity_def)
  with b binding_only_refreshes [of b demo_execution "[demo_account 1 5]"] show ?thesis by auto
qed

end
