(* ===== verification/Ingress.thy ===== *)
theory Ingress
  imports Ordered_Map Rust_Str
begin

section \<open>Router ingress\<close>

text \<open>
  Model of \<open>src/src/clients/router/ingress.rs\<close> and of the two middlewares of
  \<open>src/src/api/mod.rs\<close> that use it (\<open>verify_router_ingress\<close>,
  \<open>require_router_share_ingress\<close>): a request reaches the inference handlers only with a
  context signed by the router, addressed to this installation, fresh, bound to the request's
  method, target and body, and used once.

  The base64 decoder, the JSON decoder, HMAC-SHA256, SHA-256 and the header values of the
  \<open>http\<close> crate are the fields of \<open>ingress_lib\<close>.
\<close>

subsection \<open>Constants\<close>

definition PROTOCOL_EPOCH :: string where "PROTOCOL_EPOCH = ''namespace-flat-1''"
definition INGRESS_CONTEXT_HEADER :: string where
  "INGRESS_CONTEXT_HEADER = ''x-cc-switch-ingress-context''"
definition INGRESS_SIGNATURE_HEADER :: string where
  "INGRESS_SIGNATURE_HEADER = ''x-cc-switch-ingress-signature''"
definition INGRESS_BODY_LIMIT_HEADER :: string where
  "INGRESS_BODY_LIMIT_HEADER = ''x-cc-switch-ingress-body-limit''"
definition DEFAULT_MAX_CONTEXT_AGE_MS :: int where "DEFAULT_MAX_CONTEXT_AGE_MS = 30000"
definition DEFAULT_FUTURE_CLOCK_SKEW_MS :: int where "DEFAULT_FUTURE_CLOCK_SKEW_MS = 5000"
definition SIGNATURE_VERSION_V1 :: nat where "SIGNATURE_VERSION_V1 = 1"
definition SIGNATURE_VERSION_V2 :: nat where "SIGNATURE_VERSION_V2 = 2"
definition V1_COMPAT_UNTIL_MS :: int where "V1_COMPAT_UNTIL_MS = 1788825600000"
definition V1_SIGNING_DOMAIN :: string where "V1_SIGNING_DOMAIN = ''cc-switch-router-ingress-v1''"
definition V2_SIGNING_DOMAIN :: string where "V2_SIGNING_DOMAIN = ''cc-switch-router-ingress-v2''"
definition SHA256_HEX_LENGTH :: nat where "SHA256_HEX_LENGTH = 64"
definition MAX_REQUEST_ID_BYTES :: nat where "MAX_REQUEST_ID_BYTES = 128"
definition MAX_PATH_AND_QUERY_BYTES :: nat where "MAX_PATH_AND_QUERY_BYTES = 16 * 1024"
definition MAX_REPLAY_ENTRIES :: nat where "MAX_REPLAY_ENTRIES = 16384"

lemmas ingress_consts = DEFAULT_MAX_CONTEXT_AGE_MS_def DEFAULT_FUTURE_CLOCK_SKEW_MS_def
  SIGNATURE_VERSION_V1_def SIGNATURE_VERSION_V2_def V1_COMPAT_UNTIL_MS_def SHA256_HEX_LENGTH_def
  MAX_REQUEST_ID_BYTES_def MAX_PATH_AND_QUERY_BYTES_def

subsection \<open>The signed context\<close>

record IngressContext =
  ic_signature_version :: nat
  ic_protocol_epoch :: string
  ic_router_id :: string
  ic_route_id :: string
  ic_installation_id :: string
  ic_target_lane_id :: string
  ic_public_host :: string
  ic_share_id :: "string option"
  ic_request_id :: string
  ic_user_email :: "string option"
  ic_user_role :: "string option"
  ic_user_country :: "string option"
  ic_is_health_check :: bool
  ic_method :: string
  ic_path_and_query :: string
  ic_body_sha256 :: string
  ic_issued_at_ms :: int

datatype IngressContextError =
  InvalidEncoding | InvalidSignature | InvalidJson string | UnsupportedEpoch
| UnsupportedSignatureVersion | V1CompatibilityEnded | Expired int int | FutureTimestamp int int
| RouterMismatch | InstallationMismatch | InvalidField | MethodMismatch | PathMismatch
| BodyDigestMismatch

fun error_code :: "IngressContextError \<Rightarrow> string" where
  "error_code InvalidEncoding = ''invalid_encoding''"
| "error_code InvalidSignature = ''invalid_signature''"
| "error_code (InvalidJson _) = ''invalid_json''"
| "error_code UnsupportedEpoch = ''unsupported_epoch''"
| "error_code UnsupportedSignatureVersion = ''unsupported_signature_version''"
| "error_code V1CompatibilityEnded = ''v1_compatibility_ended''"
| "error_code (Expired _ _) = ''expired''"
| "error_code (FutureTimestamp _ _) = ''future_timestamp''"
| "error_code RouterMismatch = ''router_mismatch''"
| "error_code InstallationMismatch = ''installation_mismatch''"
| "error_code InvalidField = ''invalid_field''"
| "error_code MethodMismatch = ''method_mismatch''"
| "error_code PathMismatch = ''path_mismatch''"
| "error_code BodyDigestMismatch = ''body_digest_mismatch''"

fun error_timing :: "IngressContextError \<Rightarrow> (int \<times> int) option" where
  "error_timing (Expired issued now) = Some (issued, now)"
| "error_timing (FutureTimestamp issued now) = Some (issued, now)"
| "error_timing _ = None"

record ingress_lib =
  il_base64_decode :: "string \<Rightarrow> string option"
  il_from_json :: "string \<Rightarrow> string + IngressContext"
  il_hmac_sha256 :: "string \<Rightarrow> (string \<Rightarrow> string) option"
  il_sha256_hex :: "string \<Rightarrow> string"
  il_header_value :: "string \<Rightarrow> string option"
  il_header_str :: "string \<Rightarrow> string option"

subsection \<open>Checks\<close>

definition normalize_method :: "string \<Rightarrow> string option" where
  "normalize_method m = (let t = trim m in
     if t \<noteq> [] \<and> length t \<le> 16 \<and> list_all is_ascii_upper t then Some t else None)"

definition normalize_path_and_query :: "string \<Rightarrow> string option" where
  "normalize_path_and_query p = (let t = trim p in
     if starts_with ''/'' t \<and> length t \<le> MAX_PATH_AND_QUERY_BYTES \<and> CHR ''#'' \<notin> set t \<and>
        \<not> list_ex is_ascii_control t
     then Some t else None)"

definition is_lower_hex :: "char \<Rightarrow> bool" where
  "is_lower_hex c \<longleftrightarrow> is_ascii_digit c \<or> (97 \<le> byte c \<and> byte c \<le> 102)"

definition bad_route :: "IngressContext \<Rightarrow> bool" where
  "bad_route c \<longleftrightarrow>
     starts_with ''share:'' (ic_route_id c) \<noteq> (ic_share_id c \<noteq> None) \<or>
     (case ic_share_id c of
        Some share_id \<Rightarrow> trim share_id = [] \<or> ic_route_id c \<noteq> ''share:'' @ share_id
      | None \<Rightarrow> ic_route_id c \<noteq> ''client:'' @ ic_installation_id c)"

definition bad_email :: "string \<Rightarrow> bool" where
  "bad_email v \<longleftrightarrow> v = [] \<or> v \<noteq> trim v \<or> v \<noteq> to_ascii_lowercase v \<or> CHR ''@'' \<notin> set v"

definition bad_v2_fields :: "IngressContext \<Rightarrow> bool" where
  "bad_v2_fields c \<longleftrightarrow> normalize_method (ic_method c) \<noteq> Some (ic_method c) \<or>
     normalize_path_and_query (ic_path_and_query c) \<noteq> Some (ic_path_and_query c) \<or>
     length (ic_body_sha256 c) \<noteq> SHA256_HEX_LENGTH \<or> \<not> list_all is_lower_hex (ic_body_sha256 c)"

definition validate_context ::
  "IngressContext \<Rightarrow> string \<Rightarrow> string \<Rightarrow> int \<Rightarrow> IngressContextError + unit" where
  "validate_context c expected_router_id expected_installation_id now_ms =
     (if ic_protocol_epoch c \<noteq> PROTOCOL_EPOCH then Err UnsupportedEpoch
      else if ic_router_id c \<noteq> expected_router_id then Err RouterMismatch
      else if ic_installation_id c \<noteq> expected_installation_id then Err InstallationMismatch
      else if trim (ic_route_id c) = [] \<or> trim (ic_target_lane_id c) = [] \<or> trim (ic_public_host c) = [] \<or>
        ic_public_host c \<noteq> to_ascii_lowercase (ic_public_host c) \<or> trim (ic_request_id c) = [] \<or>
        length (ic_request_id c) > MAX_REQUEST_ID_BYTES \<or> ic_issued_at_ms c \<le> 0
      then Err InvalidField
      else if ic_issued_at_ms c > saturate_i64 (now_ms + DEFAULT_FUTURE_CLOCK_SKEW_MS)
      then Err (FutureTimestamp (ic_issued_at_ms c) now_ms)
      else if saturate_i64 (now_ms - ic_issued_at_ms c) > DEFAULT_MAX_CONTEXT_AGE_MS
      then Err (Expired (ic_issued_at_ms c) now_ms)
      else if bad_route c then Err InvalidField
      else if (case ic_user_email c of None \<Rightarrow> False | Some v \<Rightarrow> bad_email v) then Err InvalidField
      else if (case ic_user_role c of None \<Rightarrow> False | Some v \<Rightarrow> v \<noteq> ''owner'' \<and> v \<noteq> ''admin'')
      then Err InvalidField
      else if ic_signature_version c = SIGNATURE_VERSION_V2 \<and> bad_v2_fields c then Err InvalidField
      else Ok ())"

definition signing_domain :: "nat \<Rightarrow> int \<Rightarrow> IngressContextError + string" where
  "signing_domain version now_ms =
     (if version = SIGNATURE_VERSION_V1 then
        (if now_ms \<le> V1_COMPAT_UNTIL_MS then Ok V1_SIGNING_DOMAIN else Err V1CompatibilityEnded)
      else if version = SIGNATURE_VERSION_V2 then Ok V2_SIGNING_DOMAIN
      else Err UnsupportedSignatureVersion)"

definition signed_message :: "string \<Rightarrow> string \<Rightarrow> string" where
  "signed_message domain encoded_context =
     domain @ [char_of (10 :: nat)] @ PROTOCOL_EPOCH @ [char_of (10 :: nat)] @ encoded_context"

definition verify_envelope ::
  "ingress_lib \<Rightarrow> string \<Rightarrow> string \<Rightarrow> string \<Rightarrow> string \<Rightarrow> string \<Rightarrow> int \<Rightarrow>
   IngressContextError + IngressContext" where
  "verify_envelope lib encoded_context signature control_secret expected_router_id
     expected_installation_id now_ms =
   rbind (ok_or (il_base64_decode lib signature) InvalidEncoding) (\<lambda>signature_bytes.
   rbind (ok_or (il_base64_decode lib encoded_context) InvalidEncoding) (\<lambda>json.
   rbind (map_err InvalidJson (il_from_json lib json)) (\<lambda>context.
   rbind (signing_domain (ic_signature_version context) now_ms) (\<lambda>domain.
   rbind (ok_or (il_hmac_sha256 lib control_secret) InvalidSignature) (\<lambda>mac.
   rbind (check (mac (signed_message domain encoded_context) = signature_bytes) InvalidSignature) (\<lambda>_.
   rbind (validate_context context expected_router_id expected_installation_id now_ms) (\<lambda>_.
   Ok context)))))))"

definition verify_request_binding ::
  "IngressContext \<Rightarrow> string \<Rightarrow> string \<Rightarrow> string \<Rightarrow> IngressContextError + unit" where
  "verify_request_binding c method path_and_query body_sha256 =
     (if ic_signature_version c = SIGNATURE_VERSION_V1 then Ok ()
      else rbind (ok_or (normalize_method method) InvalidField) (\<lambda>m.
        if ic_method c \<noteq> m then Err MethodMismatch
        else rbind (ok_or (normalize_path_and_query path_and_query) InvalidField) (\<lambda>p.
          if ic_path_and_query c \<noteq> p then Err PathMismatch
          else if ic_body_sha256 c \<noteq> body_sha256 then Err BodyDigestMismatch
          else Ok ())))"

subsection \<open>The replay cache\<close>

record IngressReplayCache =
  rc_entries :: "(string, int) btree"
  rc_order :: "(string \<times> int) list"

definition empty_cache :: IngressReplayCache where
  "empty_cache = \<lparr>rc_entries = [], rc_order = []\<rparr>"

datatype IngressReplayDecision = Accepted | Replay | Capacity

fun prune_from :: "int \<Rightarrow> (string, int) btree \<Rightarrow> (string \<times> int) list \<Rightarrow> IngressReplayCache" where
  "prune_from now_ms m [] = \<lparr>rc_entries = m, rc_order = []\<rparr>"
| "prune_from now_ms m ((key, expiry) # q) =
     (if expiry > now_ms then \<lparr>rc_entries = m, rc_order = (key, expiry) # q\<rparr>
      else prune_from now_ms (if bt_get m key = Some expiry then bt_remove key m else m) q)"

definition prune :: "IngressReplayCache \<Rightarrow> int \<Rightarrow> IngressReplayCache" where
  "prune c now_ms = prune_from now_ms (rc_entries c) (rc_order c)"

definition replay_key :: "IngressContext \<Rightarrow> string" where
  "replay_key c = ic_router_id c @ [char_of (31 :: nat)] @ ic_installation_id c @ [char_of (31 :: nat)] @
     ic_request_id c"

definition replay_expiry :: "IngressContext \<Rightarrow> int" where
  "replay_expiry c = saturate_i64 (saturate_i64 (ic_issued_at_ms c + DEFAULT_MAX_CONTEXT_AGE_MS) +
     DEFAULT_FUTURE_CLOCK_SKEW_MS)"

definition accept ::
  "IngressReplayCache \<Rightarrow> IngressContext \<Rightarrow> int \<Rightarrow> IngressReplayCache \<times> IngressReplayDecision" where
  "accept cache context now_ms =
     (if ic_signature_version context \<noteq> SIGNATURE_VERSION_V2 then (cache, Accepted)
      else let c = prune cache now_ms; key = replay_key context in
        if (case bt_get (rc_entries c) key of None \<Rightarrow> False | Some expires_at \<Rightarrow> expires_at > now_ms)
        then (c, Replay)
        else if length (rc_entries c) \<ge> MAX_REPLAY_ENTRIES then (c, Capacity)
        else (c\<lparr>rc_entries := bt_insert key (replay_expiry context) (rc_entries c),
                rc_order := rc_order c @ [(key, replay_expiry context)]\<rparr>, Accepted))"

subsection \<open>Headers and body limits\<close>

text \<open>
  A \<open>HeaderMap\<close>: names are lower case, \<open>get\<close> reads the first value, \<open>remove\<close> and \<open>insert\<close>
  drop every value of the name.
\<close>

type_synonym headers = "(string \<times> string) list"

definition hd_get :: "headers \<Rightarrow> string \<Rightarrow> string option" where
  "hd_get h n = map_of h n"

definition hd_remove :: "string \<Rightarrow> headers \<Rightarrow> headers" where
  "hd_remove n h = filter (\<lambda>e. fst e \<noteq> n) h"

definition hd_insert :: "string \<Rightarrow> string \<Rightarrow> headers \<Rightarrow> headers" where
  "hd_insert n v h = hd_remove n h @ [(n, v)]"

definition STRIPPED_HEADERS :: "string list" where
  "STRIPPED_HEADERS = [INGRESS_CONTEXT_HEADER, INGRESS_SIGNATURE_HEADER, INGRESS_BODY_LIMIT_HEADER,
     ''x-cc-switch-share-id'', ''x-cc-switch-share-subdomain'', ''x-cc-switch-share-host'',
     ''x-cc-switch-user-email'', ''x-cc-switch-user-country'', ''x-cc-switch-user-country-iso3'',
     ''x-cc-switch-request-id'', ''x-cc-switch-health-check'', ''x-cc-switch-data-source'',
     ''x-cc-switch-source'', ''x-cc-switch-web-user-email'', ''x-cc-switch-web-role'',
     ''x-cc-switch-installation-id'', ''x-cc-switch-client-tunnel-subdomain'',
     ''x-cc-switch-client-tunnel-host'']"

record RequestBodyLimits =
  rl_default_bytes :: nat
  rl_media_bytes :: nat
  rl_image_bytes :: nat
  rl_memory_budget_bytes :: nat

definition is_image_path :: "string \<Rightarrow> bool" where
  "is_image_path p \<longleftrightarrow> p \<in> {''/v1/images/generations'', ''/images/generations'', ''/v1/images/edits'', ''/images/edits''}"

definition is_video_path :: "string \<Rightarrow> bool" where
  "is_video_path p \<longleftrightarrow> p \<in> {''/v1/videos/generations'', ''/videos/generations''}"

definition for_path :: "RequestBodyLimits \<Rightarrow> string \<Rightarrow> nat" where
  "for_path limits path =
     (let p = (case split_once (CHR ''?'') path of None \<Rightarrow> path | Some (a, _) \<Rightarrow> a) in
      if is_image_path p then rl_image_bytes limits
      else if is_video_path p then rl_media_bytes limits
      else rl_default_bytes limits)"

definition legacy_router_ingress_body_limit :: "string \<Rightarrow> nat" where
  "legacy_router_ingress_body_limit path =
     (if is_image_path path then 48 * 1024 * 1024
      else if is_video_path path then 32 * 1024 * 1024
      else 2 * 1024 * 1024)"

text \<open>\<open>str::parse::<u64>\<close>: an optional plus sign and decimal digits, within 64 bits.\<close>

definition parse_u64 :: "string \<Rightarrow> nat option" where
  "parse_u64 s = (let d = (case s of c # r \<Rightarrow> if c = CHR ''+'' then r else s | [] \<Rightarrow> []) in
     if d \<noteq> [] \<and> list_all is_ascii_digit d \<and> read_digits d \<le> u64_max then Some (read_digits d) else None)"

definition router_declared_body_limit :: "ingress_lib \<Rightarrow> headers \<Rightarrow> nat option" where
  "router_declared_body_limit lib h =
     (case Option.bind (hd_get h INGRESS_BODY_LIMIT_HEADER) (il_header_str lib) of
        None \<Rightarrow> None
      | Some v \<Rightarrow> (case parse_u64 (trim v) of
          None \<Rightarrow> None
        | Some n \<Rightarrow> if n > 0 then Some n else None))"

definition resolve_router_ingress_body_limit ::
  "RequestBodyLimits \<Rightarrow> string \<Rightarrow> nat option \<Rightarrow> nat" where
  "resolve_router_ingress_body_limit limits path declared = (case declared of
     Some n \<Rightarrow> min (for_path limits path) n
   | None \<Rightarrow> legacy_router_ingress_body_limit path)"

subsection \<open>The middlewares\<close>

record RouterIdentity =
  ri_installation_id :: string
  ri_control_secret :: "string option"

text \<open>
  \<open>cf_identity\<close> is the answer of \<open>registered_router_identity\<close> and \<open>cf_router_id\<close> that of
  \<open>tunnel_router_id\<close>, which parses the configured router address.
\<close>

record ingress_config =
  cf_identity :: "RouterIdentity option"
  cf_router_id :: "string option"
  cf_limits :: RequestBodyLimits

record ingress_request =
  rq_method :: string
  rq_path :: string
  rq_path_and_query :: "string option"
  rq_headers :: headers
  rq_body :: "string option"
  rq_context :: "IngressContext option"

datatype ingress_outcome =
  Rejection string "(int \<times> int) option"
| PayloadTooLarge
| Next ingress_request

definition read_context ::
  "ingress_lib \<Rightarrow> ingress_config \<Rightarrow> string option \<Rightarrow> string option \<Rightarrow> int \<Rightarrow>
   (string \<times> (int \<times> int) option) + IngressContext option" where
  "read_context lib cfg encoded signature now_ms = (case (encoded, signature) of
     (None, None) \<Rightarrow> Ok None
   | (Some encoded, Some signature) \<Rightarrow>
       (case cf_identity cfg of None \<Rightarrow> Err (''router_identity_unavailable'', None)
        | Some identity \<Rightarrow>
       (case ri_control_secret identity of None \<Rightarrow> Err (''control_secret_unavailable'', None)
        | Some control_secret \<Rightarrow>
       (case cf_router_id cfg of None \<Rightarrow> Err (''router_binding_invalid'', None)
        | Some router_id \<Rightarrow>
       (case verify_envelope lib encoded signature control_secret router_id
               (ri_installation_id identity) now_ms of
          Ok context \<Rightarrow> Ok (Some context)
        | Err error \<Rightarrow> Err (error_code error, error_timing error)))))
   | _ \<Rightarrow> Err (''headers_incomplete'', None))"

definition first_label :: "string \<Rightarrow> string" where
  "first_label host = takeWhile (\<lambda>c. c \<noteq> CHR ''.'') host"

definition share_headers :: "IngressContext \<Rightarrow> (string \<times> string option) list" where
  "share_headers c =
     [(''x-cc-switch-share-id'', ic_share_id c),
      (''x-cc-switch-share-subdomain'', Some (first_label (ic_public_host c))),
      (''x-cc-switch-share-host'', if ic_share_id c \<noteq> None then Some (ic_public_host c) else None),
      (''x-cc-switch-user-email'', ic_user_email c),
      (''x-cc-switch-user-country'', ic_user_country c),
      (''x-cc-switch-request-id'', Some (ic_request_id c))]"

definition web_headers :: "IngressContext \<Rightarrow> (string \<times> string option) list" where
  "web_headers c =
     [(''x-cc-switch-web-user-email'', ic_user_email c),
      (''x-cc-switch-web-role'', ic_user_role c),
      (''x-cc-switch-installation-id'', Some (ic_installation_id c)),
      (''x-cc-switch-client-tunnel-subdomain'', Some (first_label (ic_public_host c))),
      (''x-cc-switch-client-tunnel-host'', Some (ic_public_host c))]"

definition set_headers :: "ingress_lib \<Rightarrow> (string \<times> string option) list \<Rightarrow> headers \<Rightarrow> headers" where
  "set_headers lib vs h = fold (\<lambda>(n, v) h.
     case Option.bind v (il_header_value lib) of None \<Rightarrow> h | Some x \<Rightarrow> hd_insert n x h) vs h"

definition forward_headers :: "ingress_lib \<Rightarrow> IngressContext \<Rightarrow> headers \<Rightarrow> headers" where
  "forward_headers lib c h =
     (let h1 = set_headers lib (share_headers c) h;
          h2 = (if ic_is_health_check c then hd_insert ''x-cc-switch-health-check'' ''1'' h1 else h1)
      in if ic_share_id c = None then set_headers lib (web_headers c) h2 else h2)"

definition bind_body ::
  "ingress_lib \<Rightarrow> RequestBodyLimits \<Rightarrow> ingress_request \<Rightarrow> nat option \<Rightarrow> IngressContext \<Rightarrow>
   ingress_outcome + unit" where
  "bind_body lib limits request declared context =
     (if ic_signature_version context \<noteq> SIGNATURE_VERSION_V2 then Ok ()
      else case rq_body request of
        None \<Rightarrow> Err PayloadTooLarge
      | Some body \<Rightarrow>
          if length body > resolve_router_ingress_body_limit limits (rq_path request) declared
          then Err PayloadTooLarge
          else (case verify_request_binding context (rq_method request)
                  (case rq_path_and_query request of None \<Rightarrow> ''/'' | Some p \<Rightarrow> p)
                  (il_sha256_hex lib body) of
                  Ok _ \<Rightarrow> Ok ()
                | Err error \<Rightarrow> Err (Rejection (error_code error) None)))"

text \<open>
  The clock is read twice: \<open>verify_ms\<close> when the headers are checked, \<open>accept_ms\<close> after the
  whole body has arrived.
\<close>

definition verify_router_ingress ::
  "ingress_lib \<Rightarrow> ingress_config \<Rightarrow> IngressReplayCache \<Rightarrow> ingress_request \<Rightarrow> int \<Rightarrow> int \<Rightarrow>
   IngressReplayCache \<times> ingress_outcome" where
  "verify_router_ingress lib cfg cache request verify_ms accept_ms =
     (let encoded = Option.bind (hd_get (rq_headers request) INGRESS_CONTEXT_HEADER) (il_header_str lib);
          signature = Option.bind (hd_get (rq_headers request) INGRESS_SIGNATURE_HEADER) (il_header_str lib);
          declared = router_declared_body_limit lib (rq_headers request);
          stripped = request\<lparr>rq_headers := fold hd_remove STRIPPED_HEADERS (rq_headers request)\<rparr>
      in case read_context lib cfg encoded signature verify_ms of
        Err (code, timing) \<Rightarrow> (cache, Rejection code timing)
      | Ok None \<Rightarrow> (cache, Next stripped)
      | Ok (Some context) \<Rightarrow>
          (case bind_body lib (cf_limits cfg) stripped declared context of
             Err outcome \<Rightarrow> (cache, outcome)
           | Ok _ \<Rightarrow>
             (case accept cache context accept_ms of
                (c, Replay) \<Rightarrow> (c, Rejection ''replayed_request_id'' None)
              | (c, Capacity) \<Rightarrow> (c, Rejection ''replay_cache_capacity'' None)
              | (c, Accepted) \<Rightarrow>
                  (c, Next (stripped\<lparr>rq_context := Some context,
                     rq_headers := forward_headers lib context (rq_headers stripped)\<rparr>)))))"

datatype share_gate = Unauthorized | Forbidden | Inference ingress_request

definition require_router_share_ingress :: "ingress_request \<Rightarrow> share_gate" where
  "require_router_share_ingress request = (case rq_context request of
     None \<Rightarrow> Unauthorized
   | Some context \<Rightarrow> if ic_share_id context = None then Forbidden else Inference request)"

subsection \<open>What the checks establish\<close>

lemma saturate_i64_le: "in_i64 a \<Longrightarrow> 0 \<le> b \<Longrightarrow> saturate_i64 (a + b) \<le> a + b"
  by (auto simp: saturate_i64_def in_i64_def)

lemma saturate_i64_bound: "saturate_i64 x \<le> b \<Longrightarrow> b < i64_max \<Longrightarrow> x \<le> b"
  by (auto simp: saturate_i64_def)

lemma validate_context_Ok:
  assumes "validate_context c router installation now = Ok u"
  shows "ic_router_id c = router" "ic_installation_id c = installation" "0 < ic_issued_at_ms c"
    "in_i64 now \<Longrightarrow> ic_issued_at_ms c \<le> now + DEFAULT_FUTURE_CLOCK_SKEW_MS"
    "now \<le> ic_issued_at_ms c + DEFAULT_MAX_CONTEXT_AGE_MS"
    "\<not> bad_route c"
proof -
  from assms show "ic_router_id c = router" "ic_installation_id c = installation" "0 < ic_issued_at_ms c"
    "\<not> bad_route c"
    by (simp_all add: validate_context_def split: if_splits)
  from assms have "ic_issued_at_ms c \<le> saturate_i64 (now + DEFAULT_FUTURE_CLOCK_SKEW_MS)"
    and age: "saturate_i64 (now - ic_issued_at_ms c) \<le> DEFAULT_MAX_CONTEXT_AGE_MS"
    by (simp_all add: validate_context_def split: if_splits)
  then show "in_i64 now \<Longrightarrow> ic_issued_at_ms c \<le> now + DEFAULT_FUTURE_CLOCK_SKEW_MS"
    using saturate_i64_le [of now DEFAULT_FUTURE_CLOCK_SKEW_MS] by (simp add: ingress_consts)
  from saturate_i64_bound [OF age] show "now \<le> ic_issued_at_ms c + DEFAULT_MAX_CONTEXT_AGE_MS"
    by (simp add: ingress_consts int_limits)
qed

definition signed_context ::
  "ingress_lib \<Rightarrow> string \<Rightarrow> string \<Rightarrow> string \<Rightarrow> int \<Rightarrow> IngressContext \<Rightarrow> bool" where
  "signed_context lib secret encoded signature now c \<longleftrightarrow>
     (\<exists>json mac domain. il_base64_decode lib encoded = Some json \<and> il_from_json lib json = Ok c \<and>
        signing_domain (ic_signature_version c) now = Ok domain \<and> il_hmac_sha256 lib secret = Some mac \<and>
        il_base64_decode lib signature = Some (mac (signed_message domain encoded)))"

lemma verify_envelope_Ok:
  "verify_envelope lib encoded signature secret router installation now = Ok c \<longleftrightarrow>
     signed_context lib secret encoded signature now c \<and> validate_context c router installation now = Ok ()"
  by (auto simp: verify_envelope_def signed_context_def result_iff)

lemma verify_request_binding_Ok:
  assumes "verify_request_binding c m p digest = Ok u" and "ic_signature_version c = SIGNATURE_VERSION_V2"
  shows "ic_method c = trim m" "ic_path_and_query c = trim p" "ic_body_sha256 c = digest"
  using assms by (simp_all add: verify_request_binding_def result_iff normalize_method_def Let_def
      normalize_path_and_query_def ingress_consts ok_or_def split: if_splits option.splits)

definition ingress_header :: "ingress_lib \<Rightarrow> ingress_request \<Rightarrow> string \<Rightarrow> string option" where
  "ingress_header lib rq n = Option.bind (hd_get (rq_headers rq) n) (il_header_str lib)"

text \<open>One characterisation of what the handler forwards carries every property below.\<close>

lemma ingress_forwards:
  assumes "verify_router_ingress lib cfg cache rq v a = (cache', Next rq')" and "rq_context rq = None"
  shows "(case rq_context rq' of
     None \<Rightarrow> cache' = cache \<and> rq' = rq\<lparr>rq_headers := fold hd_remove STRIPPED_HEADERS (rq_headers rq)\<rparr> \<and>
       ingress_header lib rq INGRESS_CONTEXT_HEADER = None \<and> ingress_header lib rq INGRESS_SIGNATURE_HEADER = None
   | Some c \<Rightarrow> accept cache c a = (cache', Accepted) \<and>
       rq' = rq\<lparr>rq_context := Some c,
         rq_headers := forward_headers lib c (fold hd_remove STRIPPED_HEADERS (rq_headers rq))\<rparr> \<and>
       bind_body lib (cf_limits cfg) rq (router_declared_body_limit lib (rq_headers rq)) c = Ok () \<and>
       (\<exists>encoded signature identity secret router.
          ingress_header lib rq INGRESS_CONTEXT_HEADER = Some encoded \<and>
          ingress_header lib rq INGRESS_SIGNATURE_HEADER = Some signature \<and>
          cf_identity cfg = Some identity \<and> ri_control_secret identity = Some secret \<and>
          cf_router_id cfg = Some router \<and>
          verify_envelope lib encoded signature secret router (ri_installation_id identity) v = Ok c))"
  using assms
  by (auto simp: verify_router_ingress_def Let_def ingress_header_def read_context_def bind_body_def
      split: option.splits sum.splits prod.splits IngressReplayDecision.splits if_splits)

subsection \<open>The replay cache over time\<close>

lemma bt_wf_prune_from: "bt_wf m \<Longrightarrow> bt_wf (rc_entries (prune_from now m q))"
  by (induction now m q rule: prune_from.induct) auto

lemma length_prune_from: "length (rc_entries (prune_from now m q)) \<le> length m"
proof (induction now m q rule: prune_from.induct)
  case (2 now m key expiry q)
  have "length (bt_remove key m) \<le> length m" by (simp add: bt_remove_def)
  with 2 show ?case by (auto intro: order_trans)
qed simp

lemma prune_from_keeps:
  "bt_get m k = Some e \<Longrightarrow> now < e \<Longrightarrow> bt_get (rc_entries (prune_from now m q)) k = Some e"
proof (induction now m q rule: prune_from.induct)
  case (2 now m key expiry q)
  then show ?case by (cases "k = key") auto
qed simp

lemma prune_from_covered:
  "\<forall>k e. bt_get m k = Some e \<longrightarrow> (k, e) \<in> set q \<Longrightarrow>
   bt_get (rc_entries (prune_from now m q)) k = Some e \<Longrightarrow> (k, e) \<in> set (rc_order (prune_from now m q))"
  by (induction now m q rule: prune_from.induct) (fastforce split: if_splits)+

lemma prune_from_expired: "\<forall>x \<in> set q. snd x \<le> now \<Longrightarrow> rc_order (prune_from now m q) = []"
  by (induction now m q rule: prune_from.induct) auto

record ingress_state =
  is_cache :: IngressReplayCache
  is_clock :: int
  is_forwarded :: "IngressContext list"

definition forwarded_v2 :: "ingress_outcome \<Rightarrow> IngressContext list" where
  "forwarded_v2 out = (case out of
     Next rq \<Rightarrow> (case rq_context rq of
       Some c \<Rightarrow> if ic_signature_version c = SIGNATURE_VERSION_V2 then [c] else []
     | None \<Rightarrow> [])
   | _ \<Rightarrow> [])"

text \<open>
  The server's requests in the order in which they take the lock of the replay cache. Both
  clocks of a request are arbitrary, as are the configuration and the requests: the one that
  the cache is asked with is read before the lock is taken, so a request that waited for the
  lock brings an older clock than the one served before it. The state keeps the latest clock
  that the cache has been asked with.
\<close>

inductive ingress_step :: "ingress_lib \<Rightarrow> ingress_state \<Rightarrow> ingress_state \<Rightarrow> bool" for lib where
  handle: "verify_router_ingress lib cfg (is_cache S) rq v a = (cache, out) \<Longrightarrow> rq_context rq = None \<Longrightarrow>
    ingress_step lib S \<lparr>is_cache = cache, is_clock = max (is_clock S) a,
      is_forwarded = forwarded_v2 out @ is_forwarded S\<rparr>"

definition ingress_start :: "int \<Rightarrow> ingress_state" where
  "ingress_start now = \<lparr>is_cache = empty_cache, is_clock = now, is_forwarded = []\<rparr>"

definition cache_inv :: "IngressReplayCache \<Rightarrow> bool" where
  "cache_inv c \<longleftrightarrow> bt_wf (rc_entries c) \<and> length (rc_entries c) \<le> MAX_REPLAY_ENTRIES \<and>
     (\<forall>k e. bt_get (rc_entries c) k = Some e \<longrightarrow> (k, e) \<in> set (rc_order c))"

definition remembers :: "IngressReplayCache \<Rightarrow> int \<Rightarrow> IngressContext \<Rightarrow> bool" where
  "remembers cache now c \<longleftrightarrow>
     now < replay_expiry c \<longrightarrow> bt_get (rc_entries cache) (replay_key c) = Some (replay_expiry c)"

definition ingress_inv :: "ingress_state \<Rightarrow> bool" where
  "ingress_inv S \<longleftrightarrow> cache_inv (is_cache S) \<and>
     (\<forall>c \<in> set (is_forwarded S). remembers (is_cache S) (is_clock S) c)"

lemma prune_inv: "cache_inv c \<Longrightarrow> cache_inv (prune c now)"
  using length_prune_from [of now "rc_entries c" "rc_order c"]
  by (auto simp: cache_inv_def prune_def bt_wf_prune_from intro: prune_from_covered)

lemma prune_remembers: "remembers c clock x \<Longrightarrow> remembers (prune c now) (max clock now) x"
  by (auto simp: remembers_def prune_def intro: prune_from_keeps)

lemma accept_inv:
  assumes inv: "cache_inv c" and acc: "accept c x now = (c', d)"
  shows "cache_inv c'"
proof (cases "ic_signature_version x = SIGNATURE_VERSION_V2 \<and> d = Accepted")
  case True
  let ?p = "prune c now"
  from prune_inv [OF inv] have p: "cache_inv ?p" .
  from True acc have room: "length (rc_entries ?p) < MAX_REPLAY_ENTRIES"
    and c': "c' = ?p\<lparr>rc_entries := bt_insert (replay_key x) (replay_expiry x) (rc_entries ?p),
      rc_order := rc_order ?p @ [(replay_key x, replay_expiry x)]\<rparr>"
    by (auto simp: accept_def Let_def split: if_splits)
  have "length (bt_insert (replay_key x) (replay_expiry x) (rc_entries ?p)) \<le> Suc (length (rc_entries ?p))"
    using p length_bt_insert_new [of "rc_entries ?p"] length_bt_insert_old [of "rc_entries ?p"]
    by (cases "bt_contains (rc_entries ?p) (replay_key x)") (auto simp: cache_inv_def)
  with p room show ?thesis by (auto simp: cache_inv_def c' split: if_splits)
next
  case False
  with acc inv prune_inv [OF inv] show ?thesis
    by (auto simp: accept_def Let_def split: if_splits)
qed

lemma accept_remembers:
  assumes "remembers c clock y" and "accept c x now = (c', d)"
  shows "remembers c' (max clock now) y"
    and "d = Accepted \<Longrightarrow> ic_signature_version x = SIGNATURE_VERSION_V2 \<Longrightarrow> remembers c' (max clock now) x"
    and "d = Accepted \<Longrightarrow> ic_signature_version x = SIGNATURE_VERSION_V2 \<Longrightarrow>
      replay_key x = replay_key y \<Longrightarrow> replay_expiry y \<le> max clock now"
proof -
  have p: "remembers (prune c now) (max clock now) y" by (rule prune_remembers [OF assms(1)])
  have self: "remembers c (max clock now) y" using assms(1) by (auto simp: remembers_def)
  show "remembers c' (max clock now) y"
    using p self assms(2) by (auto simp: accept_def Let_def remembers_def split: if_splits option.splits)
  show "d = Accepted \<Longrightarrow> ic_signature_version x = SIGNATURE_VERSION_V2 \<Longrightarrow> remembers c' (max clock now) x"
    using assms(2) by (auto simp: accept_def Let_def remembers_def split: if_splits)
  show "d = Accepted \<Longrightarrow> ic_signature_version x = SIGNATURE_VERSION_V2 \<Longrightarrow>
      replay_key x = replay_key y \<Longrightarrow> replay_expiry y \<le> max clock now"
    using p assms(2) by (auto simp: accept_def Let_def remembers_def split: if_splits)
qed

text \<open>A request touches the cache through one \<open>accept\<close> at most.\<close>

lemma ingress_accepts:
  assumes "verify_router_ingress lib cfg cache rq v a = (cache', out)" and "rq_context rq = None"
  shows "cache' = cache \<and> forwarded_v2 out = [] \<or>
    (\<exists>c d. accept cache c a = (cache', d) \<and>
       (forwarded_v2 out = [] \<or>
        forwarded_v2 out = [c] \<and> d = Accepted \<and> ic_signature_version c = SIGNATURE_VERSION_V2))"
  using assms
  by (auto simp: verify_router_ingress_def Let_def forwarded_v2_def bind_body_def
      split: option.splits sum.splits prod.splits IngressReplayDecision.splits if_splits)

lemma ingress_step_inv:
  assumes "ingress_inv S" and "ingress_step lib S T"
  shows "ingress_inv T"
  using assms(2)
proof cases
  case 1: (handle cfg rq v a cache out)
  have old: "cache_inv (is_cache S)" "\<forall>y \<in> set (is_forwarded S). remembers (is_cache S) (is_clock S) y"
    using assms(1) by (simp_all add: ingress_inv_def)
  from ingress_accepts [OF 1(2,3)] show ?thesis
  proof (elim disjE exE conjE)
    assume "cache = is_cache S" "forwarded_v2 out = []"
    with old 1 show ?thesis by (auto simp: ingress_inv_def remembers_def)
  next
    fix c d assume acc: "accept (is_cache S) c a = (cache, d)" and none: "forwarded_v2 out = []"
    from accept_inv [OF old(1) acc] accept_remembers(1) [OF _ acc] old(2) none 1(1)
    show ?thesis by (auto simp: ingress_inv_def)
  next
    fix c d assume acc: "accept (is_cache S) c a = (cache, d)" and one: "forwarded_v2 out = [c]"
      "d = Accepted" "ic_signature_version c = SIGNATURE_VERSION_V2"
    have "remembers cache (max (is_clock S) a) c"
      using acc one by (auto simp: accept_def Let_def remembers_def split: if_splits)
    with accept_inv [OF old(1) acc] accept_remembers(1) [OF _ acc] old(2) one 1(1)
    show ?thesis by (auto simp: ingress_inv_def)
  qed
qed

interpretation ingress: transition_system "\<lambda>S. \<exists>now. S = ingress_start now" "ingress_step lib" ingress_inv
  for lib
proof
  show "\<exists>now. S = ingress_start now \<Longrightarrow> ingress_inv S" for S
    by (auto simp: ingress_start_def empty_cache_def ingress_inv_def cache_inv_def)
qed (fact ingress_step_inv)

end
