(* ===== verification/Ingress_Props.thy ===== *)
theory Ingress_Props
  imports Ingress
begin

section \<open>Properties of the router ingress\<close>

text \<open>
  Authenticity of what reaches inference, the headers handlers may trust, single use of a
  signed context, and the replay cache's bound and recovery.
\<close>

subsection \<open>Header maps\<close>

lemma hd_get_remove [simp]: "hd_get (hd_remove n h) k = (if k = n then None else hd_get h k)"
  by (induction h) (auto simp: hd_get_def hd_remove_def)

lemma hd_get_append: "hd_get (h @ h') k = (case hd_get h k of None \<Rightarrow> hd_get h' k | Some v \<Rightarrow> Some v)"
  by (simp add: hd_get_def map_add_def split: option.splits)

lemma hd_get_insert [simp]: "hd_get (hd_insert n v h) k = (if k = n then Some v else hd_get h k)"
  by (auto simp: hd_insert_def hd_get_append hd_get_def [of "[_]"] split: option.splits)

lemma hd_get_fold_remove: "hd_get (fold hd_remove ns h) k = (if k \<in> set ns then None else hd_get h k)"
  by (induction ns arbitrary: h) auto

lemma hd_get_set_headers:
  "distinct (map fst vs) \<Longrightarrow> hd_get (set_headers lib vs h) k =
     (case Option.bind (Option.bind (map_of vs k) id) (il_header_value lib) of
        None \<Rightarrow> hd_get h k | Some x \<Rightarrow> Some x)"
proof (induction vs arbitrary: h)
  case (Cons e vs)
  obtain n v where e: "e = (n, v)" by (cases e)
  have "k \<noteq> n \<or> map_of vs k = None"
    using Cons.prems e by (auto simp: map_of_eq_None_iff)
  with Cons show ?case
    by (auto simp: set_headers_def e split: option.splits)
qed (simp add: set_headers_def)

definition trusted_header :: "ingress_lib \<Rightarrow> IngressContext \<Rightarrow> string \<Rightarrow> string option" where
  "trusted_header lib c n =
     (if n = ''x-cc-switch-health-check'' then (if ic_is_health_check c then Some ''1'' else None)
      else Option.bind (Option.bind (map_of (share_headers c @ (if ic_share_id c = None then web_headers c else [])) n) id)
        (il_header_value lib))"

lemma context_header_names:
  "distinct (map fst (share_headers c))" "distinct (map fst (web_headers c))"
  "fst ` set (share_headers c) \<inter> fst ` set (web_headers c) = {}"
  "fst ` set (share_headers c) \<subseteq> set STRIPPED_HEADERS" "fst ` set (web_headers c) \<subseteq> set STRIPPED_HEADERS"
  "''x-cc-switch-health-check'' \<notin> fst ` set (share_headers c)"
  "''x-cc-switch-health-check'' \<notin> fst ` set (web_headers c)"
  "''x-cc-switch-health-check'' \<in> set STRIPPED_HEADERS"
  by (simp_all add: share_headers_def web_headers_def STRIPPED_HEADERS_def)

lemma map_of_outside: "k \<notin> fst ` set vs \<Longrightarrow> map_of vs k = None"
  by (simp add: map_of_eq_None_iff)

lemma forward_headers_get:
  assumes "\<And>k. k \<in> set STRIPPED_HEADERS \<Longrightarrow> hd_get h k = None"
  shows "hd_get (forward_headers lib c h) n = (if n \<in> set STRIPPED_HEADERS then trusted_header lib c n else hd_get h n)"
proof -
  note names = context_header_names
  consider (out) "n \<notin> set STRIPPED_HEADERS" | (health) "n = ''x-cc-switch-health-check''"
    | (share) "n \<in> fst ` set (share_headers c)" "n \<noteq> ''x-cc-switch-health-check''"
    | (web) "n \<notin> fst ` set (share_headers c)" "n \<noteq> ''x-cc-switch-health-check''" "n \<in> set STRIPPED_HEADERS"
    using names(4) by blast
  then show ?thesis
  proof cases
    case out
    then have "map_of (share_headers c) n = None" "map_of (web_headers c) n = None" "n \<noteq> ''x-cc-switch-health-check''"
      using names(4) [of c] names(5) [of c] names(8) by (blast intro: map_of_outside)+
    with out show ?thesis
      by (simp add: forward_headers_def Let_def hd_get_set_headers names)
  next
    case health
    then have "map_of (share_headers c) n = None" "map_of (web_headers c) n = None"
      using names(6,7) by (auto intro!: map_of_outside)
    with health assms [of n] names(8) show ?thesis
      by (simp add: forward_headers_def Let_def hd_get_set_headers names(1,2) trusted_header_def)
  next
    case share
    then have "n \<notin> fst ` set (web_headers c)" and s: "n \<in> set STRIPPED_HEADERS"
      using names(3) [of c] names(4) [of c] by blast+
    then have web: "map_of (web_headers c) n = None" by (simp add: map_of_outside)
    show ?thesis using share(2) web s assms [OF s]
      by (auto simp: forward_headers_def Let_def hd_get_set_headers names(1,2) trusted_header_def
          map_add_def split: option.splits)
  next
    case web
    then have "map_of (share_headers c) n = None" by (auto intro!: map_of_outside)
    with web assms [OF web(3)] show ?thesis
      by (auto simp: forward_headers_def Let_def hd_get_set_headers names(1,2) trusted_header_def
          map_add_def split: option.splits)
  qed
qed

subsection \<open>A concrete request\<close>

definition demo_lib :: "IngressContext \<Rightarrow> ingress_lib" where
  "demo_lib c = \<lparr>il_base64_decode = Some, il_from_json = (\<lambda>_. Ok c),
     il_hmac_sha256 = (\<lambda>_. Some (\<lambda>_. ''sig'')), il_sha256_hex = (\<lambda>_. replicate 64 (CHR ''0'')),
     il_header_value = Some, il_header_str = Some\<rparr>"

definition demo_ctx :: IngressContext where
  "demo_ctx = \<lparr>ic_signature_version = 2, ic_protocol_epoch = PROTOCOL_EPOCH, ic_router_id = ''r'',
     ic_route_id = ''share:s'', ic_installation_id = ''i'', ic_target_lane_id = ''l'',
     ic_public_host = ''s.r'', ic_share_id = Some ''s'', ic_request_id = ''q'',
     ic_user_email = Some ''u@x'', ic_user_role = None, ic_user_country = None,
     ic_is_health_check = False, ic_method = ''POST'', ic_path_and_query = ''/v1'',
     ic_body_sha256 = replicate 64 (CHR ''0''), ic_issued_at_ms = 100000\<rparr>"

definition demo_cfg :: ingress_config where
  "demo_cfg = \<lparr>cf_identity = Some \<lparr>ri_installation_id = ''i'', ri_control_secret = Some ''k''\<rparr>,
     cf_router_id = Some ''r'',
     cf_limits = \<lparr>rl_default_bytes = 10, rl_media_bytes = 10, rl_image_bytes = 10, rl_memory_budget_bytes = 10\<rparr>\<rparr>"

definition demo_rq :: ingress_request where
  "demo_rq = \<lparr>rq_method = ''POST'', rq_path = ''/v1'', rq_path_and_query = Some ''/v1'',
     rq_headers = [(''x-cc-switch-user-email'', ''mallory@x''), (INGRESS_CONTEXT_HEADER, ''ctx''),
       (INGRESS_SIGNATURE_HEADER, ''sig'')],
     rq_body = Some ''hi'', rq_context = None\<rparr>"

lemma demo_trims [simp]:
  "trim ''share:s'' = ''share:s''" "trim ''l'' = ''l''" "trim ''s.r'' = ''s.r''" "trim ''q'' = ''q''"
  "trim ''s'' = ''s''" "trim ''u@x'' = ''u@x''" "trim ''POST'' = ''POST''" "trim ''/v1'' = ''/v1''"
  by code_simp+

lemma demo_chars [simp]:
  "to_ascii_lowercase ''s.r'' = ''s.r''" "to_ascii_lowercase ''u@x'' = ''u@x''"
  "normalize_method ''POST'' = Some ''POST''" "normalize_path_and_query ''/v1'' = Some ''/v1''"
  "is_lower_hex (CHR ''0'')"
  by code_simp+

lemma demo_validates: "t \<in> {100000..130000} \<Longrightarrow> validate_context demo_ctx ''r'' ''i'' t = Ok ()"
  by (simp add: validate_context_def demo_ctx_def ingress_consts saturate_i64_def int_limits
      bad_route_def starts_with_def bad_email_def bad_v2_fields_def list_all_iff)

lemma demo_envelope:
  assumes "t \<in> {100000..130000}"
  shows "verify_envelope (demo_lib demo_ctx) ''ctx'' ''sig'' ''k'' ''r'' ''i'' t = Ok demo_ctx"
proof -
  have "ic_signature_version demo_ctx = 2" by (simp add: demo_ctx_def)
  then have "signed_context (demo_lib demo_ctx) ''k'' ''ctx'' ''sig'' t demo_ctx"
    by (simp add: signed_context_def demo_lib_def signing_domain_def ingress_consts)
  with demo_validates [OF assms] show ?thesis by (simp add: verify_envelope_Ok)
qed

lemma demo_headers:
  "hd_get (rq_headers demo_rq) INGRESS_CONTEXT_HEADER = Some ''ctx''"
  "hd_get (rq_headers demo_rq) INGRESS_SIGNATURE_HEADER = Some ''sig''"
  "hd_get (rq_headers demo_rq) INGRESS_BODY_LIMIT_HEADER = None"
  by (simp_all add: demo_rq_def hd_get_def INGRESS_CONTEXT_HEADER_def INGRESS_SIGNATURE_HEADER_def
      INGRESS_BODY_LIMIT_HEADER_def)

lemma demo_binding: "bind_body (demo_lib demo_ctx) (cf_limits demo_cfg)
    (demo_rq\<lparr>rq_headers := h\<rparr>) (router_declared_body_limit (demo_lib demo_ctx) (rq_headers demo_rq)) demo_ctx = Ok ()"
  by (simp add: bind_body_def router_declared_body_limit_def demo_headers) (simp add: demo_rq_def
      resolve_router_ingress_body_limit_def legacy_router_ingress_body_limit_def is_image_path_def
      is_video_path_def verify_request_binding_def ingress_consts demo_ctx_def demo_lib_def starts_with_def)

lemma demo_run:
  assumes "v \<in> {100000..130000}"
  shows "verify_router_ingress (demo_lib demo_ctx) demo_cfg cache demo_rq v a =
    (case accept cache demo_ctx a of
       (c, Accepted) \<Rightarrow> (c, Next (demo_rq\<lparr>rq_context := Some demo_ctx, rq_headers :=
          forward_headers (demo_lib demo_ctx) demo_ctx (fold hd_remove STRIPPED_HEADERS (rq_headers demo_rq))\<rparr>))
     | (c, Replay) \<Rightarrow> (c, Rejection ''replayed_request_id'' None)
     | (c, Capacity) \<Rightarrow> (c, Rejection ''replay_cache_capacity'' None))"
proof -
  have "il_header_str (demo_lib demo_ctx) x = Some x" for x by (simp add: demo_lib_def)
  moreover have "read_context (demo_lib demo_ctx) demo_cfg (Some ''ctx'') (Some ''sig'') v = Ok (Some demo_ctx)"
    by (simp add: read_context_def demo_cfg_def demo_envelope [OF assms])
  ultimately show ?thesis
    by (simp add: verify_router_ingress_def demo_headers demo_binding Let_def)
qed

lemma demo_first: "accept empty_cache demo_ctx a =
    (\<lparr>rc_entries = [(replay_key demo_ctx, 135000)], rc_order = [(replay_key demo_ctx, 135000)]\<rparr>, Accepted)"
  by (simp add: accept_def prune_def empty_cache_def MAX_REPLAY_ENTRIES_def replay_expiry_def demo_ctx_def
      ingress_consts saturate_i64_def int_limits Let_def)

subsection \<open>Properties\<close>

text \<open>
  C20. Only signed requests reach inference: a request that passes both middlewares carries a
  context whose encoding was authenticated under this installation's control secret, that
  names this router and this installation, was issued at most thirty seconds before and five
  after the headers were checked, and is bound to a share by its route; when it is of the
  current version it also carries the digest of the request's body, its method and its target.
\<close>

theorem inference_is_signed:
  assumes "verify_router_ingress lib cfg cache rq v a = (cache', Next rq')" and "rq_context rq = None"
    and "require_router_share_ingress rq' = Inference out" and "in_i64 v"
  shows "\<exists>c encoded signature identity secret share.
     rq_context out = Some c \<and> cf_identity cfg = Some identity \<and> ri_control_secret identity = Some secret \<and>
     ingress_header lib rq INGRESS_CONTEXT_HEADER = Some encoded \<and>
     ingress_header lib rq INGRESS_SIGNATURE_HEADER = Some signature \<and>
     signed_context lib secret encoded signature v c \<and>
     cf_router_id cfg = Some (ic_router_id c) \<and> ic_installation_id c = ri_installation_id identity \<and>
     ic_issued_at_ms c \<le> v + 5000 \<and> v \<le> ic_issued_at_ms c + 30000 \<and>
     ic_share_id c = Some share \<and> ic_route_id c = ''share:'' @ share \<and>
     (ic_signature_version c = SIGNATURE_VERSION_V2 \<longrightarrow>
        ic_method c = trim (rq_method rq) \<and>
        ic_path_and_query c = trim (case rq_path_and_query rq of None \<Rightarrow> ''/'' | Some p \<Rightarrow> p) \<and>
        (\<exists>body. rq_body rq = Some body \<and> ic_body_sha256 c = il_sha256_hex lib body))"
proof -
  from assms(3) obtain c share where c: "rq_context rq' = Some c" "ic_share_id c = Some share" "out = rq'"
    by (auto simp: require_router_share_ingress_def split: option.splits if_splits)
  from ingress_forwards [OF assms(1,2)] c obtain encoded signature identity secret router where
    bound: "bind_body lib (cf_limits cfg) rq (router_declared_body_limit lib (rq_headers rq)) c = Ok ()"
    and env: "ingress_header lib rq INGRESS_CONTEXT_HEADER = Some encoded"
      "ingress_header lib rq INGRESS_SIGNATURE_HEADER = Some signature"
      "cf_identity cfg = Some identity" "ri_control_secret identity = Some secret"
      "cf_router_id cfg = Some router"
    and ver: "verify_envelope lib encoded signature secret router (ri_installation_id identity) v = Ok c"
    by auto
  from ver have signed: "signed_context lib secret encoded signature v c"
    and valid: "validate_context c router (ri_installation_id identity) v = Ok ()"
    by (simp_all add: verify_envelope_Ok)
  note facts = validate_context_Ok [OF valid]
  have route: "ic_route_id c = ''share:'' @ share"
    using facts(6) c(2) by (auto simp: bad_route_def)
  have body: "ic_signature_version c = SIGNATURE_VERSION_V2 \<longrightarrow>
      ic_method c = trim (rq_method rq) \<and>
      ic_path_and_query c = trim (case rq_path_and_query rq of None \<Rightarrow> ''/'' | Some p \<Rightarrow> p) \<and>
      (\<exists>body. rq_body rq = Some body \<and> ic_body_sha256 c = il_sha256_hex lib body)"
    using bound by (auto simp: bind_body_def dest: verify_request_binding_Ok split: option.splits if_splits sum.splits)
  from facts(4) [OF assms(4)] facts(5) have fresh: "ic_issued_at_ms c \<le> v + 5000" "v \<le> ic_issued_at_ms c + 30000"
    by (simp_all add: ingress_consts)
  from c env signed facts(1,2) route body fresh show ?thesis by simp
qed

lemma demo_forwarded:
  "\<exists>cache' rq'. verify_router_ingress (demo_lib demo_ctx) demo_cfg empty_cache demo_rq 100000 100001 = (cache', Next rq') \<and>
     rq_context rq' = Some demo_ctx"
  by (simp add: demo_run demo_first)

lemma demo_rq_fresh: "rq_context demo_rq = None"
  by (simp add: demo_rq_def)

theorem inference_is_signed_witness:
  "\<exists>(out :: ingress_request) c. rq_context out = Some c \<and> ic_share_id c = Some ''s'' \<and> ic_method c = ''POST'' \<and>
     signed_context (demo_lib demo_ctx) ''k'' ''ctx'' ''sig'' 100000 c"
proof -
  obtain cache' rq' where run: "verify_router_ingress (demo_lib demo_ctx) demo_cfg empty_cache demo_rq 100000 100001
      = (cache', Next rq')" and c: "rq_context rq' = Some demo_ctx"
    using demo_forwarded by blast
  have gate: "require_router_share_ingress rq' = Inference rq'"
    by (simp add: require_router_share_ingress_def c demo_ctx_def)
  have "in_i64 100000" by (simp add: in_i64_def int_limits)
  from inference_is_signed [OF run demo_rq_fresh gate this] obtain e s k where
    signed: "signed_context (demo_lib demo_ctx) k e s 100000 demo_ctx"
    and from_header: "ingress_header (demo_lib demo_ctx) demo_rq INGRESS_CONTEXT_HEADER = Some e"
      "ingress_header (demo_lib demo_ctx) demo_rq INGRESS_SIGNATURE_HEADER = Some s"
    and "\<exists>i. cf_identity demo_cfg = Some i \<and> ri_control_secret i = Some k"
    by (auto simp: c)
  then have k: "k = ''k''" by (simp add: demo_cfg_def)
  have str: "il_header_str (demo_lib demo_ctx) x = Some x" for x by (simp add: demo_lib_def)
  from from_header have "e = ''ctx''" "s = ''sig''"
    by (simp_all add: ingress_header_def demo_headers str)
  with signed k have "signed_context (demo_lib demo_ctx) ''k'' ''ctx'' ''sig'' 100000 demo_ctx" by simp
  moreover have "ic_share_id demo_ctx = Some ''s''" "ic_method demo_ctx = ''POST''" by (simp_all add: demo_ctx_def)
  ultimately show ?thesis using c by blast
qed

text \<open>
  C21. Identity headers are the router's: whatever a client sends, a forwarded request has
  every \<open>x-cc-switch\<close> header either absent or set from the verified context, the web role and
  the web user only without a share, and every other header as it came. A request without a
  context is forwarded with none of them.
\<close>

theorem ingress_headers_trusted:
  assumes "verify_router_ingress lib cfg cache rq v a = (cache', Next rq')" and "rq_context rq = None"
  shows "hd_get (rq_headers rq') n =
    (if n \<in> set STRIPPED_HEADERS
     then (case rq_context rq' of None \<Rightarrow> None | Some c \<Rightarrow> trusted_header lib c n)
     else hd_get (rq_headers rq) n)"
proof (cases "rq_context rq'")
  case None
  with ingress_forwards [OF assms] have "rq_headers rq' = fold hd_remove STRIPPED_HEADERS (rq_headers rq)"
    by simp
  then show ?thesis by (simp add: None hd_get_fold_remove)
next
  case (Some c)
  with ingress_forwards [OF assms] have
    "rq_headers rq' = forward_headers lib c (fold hd_remove STRIPPED_HEADERS (rq_headers rq))"
    by auto
  then show ?thesis by (simp add: Some forward_headers_get hd_get_fold_remove)
qed

theorem ingress_headers_trusted_witness:
  "\<exists>cache' rq'. verify_router_ingress (demo_lib demo_ctx) demo_cfg empty_cache demo_rq 100000 100001 = (cache', Next rq') \<and>
     hd_get (rq_headers demo_rq) ''x-cc-switch-user-email'' = Some ''mallory@x'' \<and>
     hd_get (rq_headers rq') ''x-cc-switch-user-email'' = Some ''u@x'' \<and>
     hd_get (rq_headers rq') ''x-cc-switch-web-role'' = None"
proof -
  obtain cache' rq' where run: "verify_router_ingress (demo_lib demo_ctx) demo_cfg empty_cache demo_rq 100000 100001
      = (cache', Next rq')" and c: "rq_context rq' = Some demo_ctx"
    using demo_forwarded by blast
  have "hd_get (rq_headers demo_rq) ''x-cc-switch-user-email'' = Some ''mallory@x''"
    by (simp add: demo_rq_def hd_get_def)
  moreover have "hd_get (rq_headers rq') ''x-cc-switch-user-email'' = Some ''u@x''"
    using ingress_headers_trusted [OF run demo_rq_fresh, of "''x-cc-switch-user-email''"]
    by (simp add: c STRIPPED_HEADERS_def trusted_header_def share_headers_def demo_ctx_def demo_lib_def)
  moreover have "hd_get (rq_headers rq') ''x-cc-switch-web-role'' = None"
    using ingress_headers_trusted [OF run demo_rq_fresh, of "''x-cc-switch-web-role''"]
    by (simp add: c STRIPPED_HEADERS_def trusted_header_def share_headers_def demo_ctx_def demo_lib_def)
  ultimately show ?thesis using run by blast
qed


lemma demo_after_first:
  "ingress_step (demo_lib demo_ctx) (ingress_start 0) \<lparr>is_cache =
     \<lparr>rc_entries = [(replay_key demo_ctx, 135000)], rc_order = [(replay_key demo_ctx, 135000)]\<rparr>,
     is_clock = 100001, is_forwarded = [demo_ctx]\<rparr>"
proof -
  obtain rq' where run: "verify_router_ingress (demo_lib demo_ctx) demo_cfg (is_cache (ingress_start 0)) demo_rq 100000 100001
      = (\<lparr>rc_entries = [(replay_key demo_ctx, 135000)], rc_order = [(replay_key demo_ctx, 135000)]\<rparr>, Next rq')"
    "rq_context rq' = Some demo_ctx"
    by (simp add: demo_run ingress_start_def demo_first)
  have "ic_signature_version demo_ctx = SIGNATURE_VERSION_V2"
    by (simp add: demo_ctx_def SIGNATURE_VERSION_V2_def)
  with ingress_step.handle [OF run(1) demo_rq_fresh] run(2) show ?thesis
    by (simp add: ingress_start_def forwarded_v2_def)
qed


text \<open>
  The bound of five seconds is needed: freshness is checked before the body is read and the
  replay cache is consulted after it. A copy of a request whose body is held back until the
  cache has forgotten the first one is forwarded a second time.
\<close>

theorem stalled_body_forwarded_twice:
  "\<exists>S. (ingress_step (demo_lib demo_ctx))\<^sup>*\<^sup>* (ingress_start 0) S \<and> is_forwarded S = [demo_ctx, demo_ctx]"
proof -
  let ?c = "\<lparr>rc_entries = [(replay_key demo_ctx, 135000)], rc_order = [(replay_key demo_ctx, 135000)]\<rparr>"
  let ?S = "\<lparr>is_cache = ?c, is_clock = 100001, is_forwarded = [demo_ctx]\<rparr>"
  have v2: "ic_signature_version demo_ctx = SIGNATURE_VERSION_V2"
    by (simp add: demo_ctx_def SIGNATURE_VERSION_V2_def)
  have exp: "replay_expiry demo_ctx = 135000"
    by (simp add: replay_expiry_def demo_ctx_def ingress_consts saturate_i64_def int_limits)
  have "accept ?c demo_ctx 135000 = (?c, Accepted)"
    by (simp add: accept_def v2 Let_def prune_def bt_get_Cons bt_remove_def MAX_REPLAY_ENTRIES_def exp)
  then obtain rq' where run: "verify_router_ingress (demo_lib demo_ctx) demo_cfg (is_cache ?S) demo_rq 130000 135000
      = (?c, Next rq')" "rq_context rq' = Some demo_ctx"
    by (simp add: demo_run)
  from ingress_step.handle [OF run(1) demo_rq_fresh] run(2) v2
  have "ingress_step (demo_lib demo_ctx) ?S \<lparr>is_cache = ?c, is_clock = 135000, is_forwarded = [demo_ctx, demo_ctx]\<rparr>"
    by (simp add: forwarded_v2_def)
  with demo_after_first have "(ingress_step (demo_lib demo_ctx))\<^sup>*\<^sup>* (ingress_start 0)
      \<lparr>is_cache = ?c, is_clock = 135000, is_forwarded = [demo_ctx, demo_ctx]\<rparr>"
    by (meson converse_rtranclp_into_rtranclp r_into_rtranclp)
  then show ?thesis by (intro exI [of _ "\<lparr>is_cache = ?c, is_clock = 135000, is_forwarded = [demo_ctx, demo_ctx]\<rparr>"]) simp
qed

text \<open>
  C23. The replay cache is bounded and recovers by itself: it never remembers more than its
  maximum, a refusal for lack of room leaves every remembered context remembered, and as soon
  as the contexts it holds have expired a new request is accepted again.
\<close>

theorem replay_cache_recovers:
  assumes "(ingress_step lib)\<^sup>*\<^sup>* (ingress_start start) S"
  shows "length (rc_entries (is_cache S)) \<le> MAX_REPLAY_ENTRIES \<and>
    (\<forall>c now cache'. accept (is_cache S) c now = (cache', Capacity) \<longrightarrow>
       (\<forall>x \<in> set (is_forwarded S). remembers cache' (max (is_clock S) now) x)) \<and>
    (\<forall>c now. (\<forall>e \<in> set (rc_order (is_cache S)). snd e \<le> now) \<longrightarrow> snd (accept (is_cache S) c now) = Accepted)"
proof (intro conjI allI impI ballI)
  have inv: "ingress_inv S" by (rule ingress.reachable_inv [OF _ assms]) blast
  then have cinv: "cache_inv (is_cache S)" by (simp add: ingress_inv_def)
  then show "length (rc_entries (is_cache S)) \<le> MAX_REPLAY_ENTRIES" by (simp add: cache_inv_def)
  fix c now cache' x
  assume "accept (is_cache S) c now = (cache', Capacity)" "x \<in> set (is_forwarded S)"
  with inv accept_remembers(1) show "remembers cache' (max (is_clock S) now) x" by (fastforce simp: ingress_inv_def)
next
  fix c now
  assume "\<forall>e \<in> set (rc_order (is_cache S)). snd e \<le> now"
  then have gone: "rc_order (prune (is_cache S) now) = []"
    unfolding prune_def by (rule prune_from_expired)
  have "ingress_inv S" by (rule ingress.reachable_inv [OF _ assms]) blast
  then have "cache_inv (prune (is_cache S) now)" by (simp add: ingress_inv_def prune_inv)
  with gone have "bt_get (rc_entries (prune (is_cache S) now)) k = None" for k
    by (cases "bt_get (rc_entries (prune (is_cache S) now)) k") (auto simp: cache_inv_def)
  then have "rc_entries (prune (is_cache S) now) = []" by (rule bt_get_all_None)
  then show "snd (accept (is_cache S) c now) = Accepted"
    by (simp add: accept_def Let_def MAX_REPLAY_ENTRIES_def)
qed

theorem replay_cache_recovers_witness:
  "snd (accept \<lparr>rc_entries = [(replay_key demo_ctx, 135000)], rc_order = [(replay_key demo_ctx, 135000)]\<rparr>
     demo_ctx 135000) = Accepted"
proof -
  from replay_cache_recovers [OF r_into_rtranclp [of "ingress_step (demo_lib demo_ctx)", OF demo_after_first]]
  show ?thesis by simp
qed

end
