(* ===== verification/Usage_Rollup.thy ===== *)
theory Usage_Rollup
  imports Quota_Ledger
begin

section \<open>Usage rollups\<close>

text \<open>
  Model of the part of \<open>src/src/domain/usage/store.rs\<close> that answers how much a user of a share
  has consumed in a window: detailed records are kept for a month, and every record is also
  added to a per-minute rollup bucket that is kept. A query reads the whole minutes of its
  window from the rollups and only the edges from the records.
\<close>

definition USAGE_ROLLUP_BUCKET_MS :: nat where "USAGE_ROLLUP_BUCKET_MS = 60 * 1000"

definition USAGE_DETAIL_RETENTION_MS :: nat where
  "USAGE_DETAIL_RETENTION_MS = 32 * 24 * 60 * 60 * 1000"

record UsageQuotaAccumulator =
  qa_quota_tokens :: nat
  qa_request_count :: nat
  qa_record_count :: nat

definition user_request :: "UsageLog \<Rightarrow> nat" where
  "user_request l = (if ul_record_kind l = UserInference then 1 else 0)"

definition acc_push :: "UsageLog \<Rightarrow> UsageQuotaAccumulator \<Rightarrow> UsageQuotaAccumulator" where
  "acc_push l a = \<lparr>qa_quota_tokens = saturating_add_u64 (qa_quota_tokens a) (quota_tokens l),
     qa_request_count = (if ul_record_kind l = UserInference
       then saturating_add_u64 (qa_request_count a) 1 else qa_request_count a),
     qa_record_count = saturating_add_u64 (qa_record_count a) 1\<rparr>"

definition acc_remove :: "UsageLog \<Rightarrow> UsageQuotaAccumulator \<Rightarrow> UsageQuotaAccumulator" where
  "acc_remove l a = \<lparr>qa_quota_tokens = qa_quota_tokens a - quota_tokens l,
     qa_request_count = (if ul_record_kind l = UserInference
       then qa_request_count a - 1 else qa_request_count a),
     qa_record_count = qa_record_count a - 1\<rparr>"

record UsageRollupBucket =
  rk_bucket_start_ms :: nat
  rk_share_id :: string
  rk_user_email :: string
  rk_record_kind :: UsageRecordKind
  rk_stats :: UsageQuotaAccumulator

definition nonempty :: "string option \<Rightarrow> bool" where
  "nonempty x = (case x of None \<Rightarrow> False | Some s \<Rightarrow> s \<noteq> [])"

definition is_share_user_quota_record :: "UsageLog \<Rightarrow> bool" where
  "is_share_user_quota_record l \<longleftrightarrow> \<not> ul_is_health_check l \<and> ul_record_kind l \<noteq> HealthProbe \<and>
     nonempty (ul_share_id l) \<and> nonempty (ul_user_email l)"

fun record_kind_str :: "UsageRecordKind \<Rightarrow> string" where
  "record_kind_str UserInference = ''user_inference''"
| "record_kind_str InternalSupplemental = ''internal_supplemental''"
| "record_kind_str HealthProbe = ''health_probe''"

definition bucket_start :: "UsageLog \<Rightarrow> nat" where
  "bucket_start l = ul_created_at_ms l - ul_created_at_ms l mod USAGE_ROLLUP_BUCKET_MS"

definition opt_str :: "string option \<Rightarrow> string" where
  "opt_str x = (case x of None \<Rightarrow> [] | Some s \<Rightarrow> s)"

definition log_email :: "UsageLog \<Rightarrow> string" where
  "log_email l = (case ul_user_email l of None \<Rightarrow> [] | Some e \<Rightarrow> to_ascii_lowercase (trim e))"

definition US :: char where "US = char_of (31 :: nat)"

definition usage_rollup_key :: "UsageLog \<Rightarrow> string" where
  "usage_rollup_key l = show_nat (bucket_start l) @ US # opt_str (ul_share_id l) @ US # log_email l @
     US # record_kind_str (ul_record_kind l)"

definition new_bucket :: "UsageLog \<Rightarrow> UsageRollupBucket" where
  "new_bucket l = \<lparr>rk_bucket_start_ms = bucket_start l, rk_share_id = opt_str (ul_share_id l),
     rk_user_email = log_email l, rk_record_kind = ul_record_kind l,
     rk_stats = \<lparr>qa_quota_tokens = 0, qa_request_count = 0, qa_record_count = 0\<rparr>\<rparr>"

type_synonym rollups = "(string, UsageRollupBucket) btree"

definition on_stats :: "(UsageQuotaAccumulator \<Rightarrow> UsageQuotaAccumulator) \<Rightarrow> UsageRollupBucket \<Rightarrow> UsageRollupBucket" where
  "on_stats f b = b\<lparr>rk_stats := f (rk_stats b)\<rparr>"

definition add_log :: "UsageLog \<Rightarrow> rollups \<Rightarrow> rollups" where
  "add_log l m = (if \<not> is_share_user_quota_record l then m
     else bt_update_default (usage_rollup_key l) (new_bucket l) (on_stats (acc_push l)) m)"

definition remove_log :: "UsageLog \<Rightarrow> rollups \<Rightarrow> rollups" where
  "remove_log l m = (if \<not> is_share_user_quota_record l then m
     else case bt_get m (usage_rollup_key l) of
       None \<Rightarrow> m
     | Some b \<Rightarrow> (let b' = on_stats (acc_remove l) b in
         if qa_record_count (rk_stats b') = 0 then bt_remove (usage_rollup_key l) m
         else bt_insert (usage_rollup_key l) b' m))"

definition replace_log :: "UsageLog \<Rightarrow> UsageLog \<Rightarrow> rollups \<Rightarrow> rollups" where
  "replace_log previous updated m = add_log updated (remove_log previous m)"

record UsageStore =
  st_quota_ledger :: QuotaUsageLedger
  st_logs :: "UsageLog list"
  st_rollups :: rollups

definition empty_store :: UsageStore where
  "empty_store = \<lparr>st_quota_ledger = default_usage_ledger, st_logs = [], st_rollups = []\<rparr>"

fun replace_first :: "UsageLog \<Rightarrow> UsageLog list \<Rightarrow> UsageLog list" where
  "replace_first l [] = []"
| "replace_first l (x # xs) =
     (if ul_request_id x = ul_request_id l then l # xs else x # replace_first l xs)"

definition trim_recent_window :: "nat \<Rightarrow> UsageLog list \<Rightarrow> UsageLog list" where
  "trim_recent_window now_ms logs =
     filter (\<lambda>l. ul_created_at_ms l \<ge> now_ms - USAGE_DETAIL_RETENTION_MS) logs"

definition push_log :: "json_encoder \<Rightarrow> nat \<Rightarrow> UsageStore \<Rightarrow> UsageLog \<Rightarrow> UsageStore" where
  "push_log json now_ms S l =
     (let ledger = (case record_usage json (st_quota_ledger S) l of
            (L, Ok _) \<Rightarrow> L
          | (L, Err e) \<Rightarrow> L\<lparr>us_integrity_error := Some e\<rparr>)
      in case find (\<lambda>x. ul_request_id x = ul_request_id l) (st_logs S) of
           Some previous \<Rightarrow> \<lparr>st_quota_ledger = ledger, st_logs = replace_first l (st_logs S),
             st_rollups = replace_log previous l (st_rollups S)\<rparr>
         | None \<Rightarrow> \<lparr>st_quota_ledger = ledger, st_logs = trim_recent_window now_ms (st_logs S @ [l]),
             st_rollups = add_log l (st_rollups S)\<rparr>)"

definition ceil_to_usage_bucket :: "nat \<Rightarrow> nat" where
  "ceil_to_usage_bucket v = (let r = v mod USAGE_ROLLUP_BUCKET_MS in
     if r = 0 then v else saturating_add_u128 v (USAGE_ROLLUP_BUCKET_MS - r))"

definition quota_log_matches :: "UsageLog \<Rightarrow> string \<Rightarrow> string \<Rightarrow> bool" where
  "quota_log_matches l share_id user_email \<longleftrightarrow> is_share_user_quota_record l \<and>
     ul_share_id l = Some share_id \<and>
     (case ul_user_email l of None \<Rightarrow> False | Some e \<Rightarrow> eq_ignore_ascii_case e user_email)"

definition count_logs :: "UsageLog list \<Rightarrow> nat \<times> nat" where
  "count_logs ls = fold (\<lambda>l (tokens, requests).
     (saturating_add_u64 tokens (quota_tokens l), saturating_add_u64 requests (user_request l))) ls (0, 0)"

definition quota_usage_from_logs :: "UsageLog list \<Rightarrow> string \<Rightarrow> string \<Rightarrow> nat \<Rightarrow> nat \<Rightarrow> nat \<times> nat" where
  "quota_usage_from_logs logs share_id user_email starts ends =
     count_logs (filter (\<lambda>l. quota_log_matches l share_id user_email)
       (filter (\<lambda>l. ul_created_at_ms l \<ge> starts \<and> ul_created_at_ms l < ends) logs))"

definition count_buckets :: "UsageRollupBucket list \<Rightarrow> nat \<times> nat" where
  "count_buckets bs = fold (\<lambda>b (tokens, requests).
     (saturating_add_u64 tokens (qa_quota_tokens (rk_stats b)),
      saturating_add_u64 requests (qa_request_count (rk_stats b)))) bs (0, 0)"

definition share_user_quota_usage :: "UsageStore \<Rightarrow> string \<Rightarrow> string \<Rightarrow> int \<Rightarrow> int \<Rightarrow> nat \<times> nat" where
  "share_user_quota_usage S share_id user_email starts_at_ms ends_at_ms =
     (if starts_at_ms < 0 \<or> ends_at_ms < 0 then (0, 0)
      else let starts = nat starts_at_ms; ends = nat ends_at_ms; email = trim user_email in
        if starts \<ge> ends then (0, 0)
        else let first = ceil_to_usage_bucket starts; after = ends - ends mod USAGE_ROLLUP_BUCKET_MS in
          if first \<ge> after then quota_usage_from_logs (st_logs S) share_id email starts ends
          else let
            rolled_up = count_buckets (filter (\<lambda>b. rk_bucket_start_ms b \<ge> first \<and> rk_bucket_start_ms b < after \<and>
              rk_share_id b = share_id \<and> eq_ignore_ascii_case (rk_user_email b) email) (bt_values (st_rollups S)));
            edge = count_logs (filter (\<lambda>l. quota_log_matches l share_id email)
              (filter (\<lambda>l. (ul_created_at_ms l \<ge> starts \<and> ul_created_at_ms l < first) \<or>
                 (ul_created_at_ms l \<ge> after \<and> ul_created_at_ms l < ends)) (st_logs S)))
          in (saturating_add_u64 (fst rolled_up) (fst edge), saturating_add_u64 (snd rolled_up) (snd edge)))"

end
