(* ===== verification/Usage_Rollup_Props.thy ===== *)
theory Usage_Rollup_Props
  imports Usage_Rollup
begin

section \<open>The rollups answer as the records do\<close>

text \<open>
  The rollup buckets are related to the records they summarise by \<open>rollup_inv\<close>; every push keeps
  the relation, and from it a query over rollups and edges is the sum over the records.
\<close>

subsection \<open>Saturating sums\<close>

definition total :: "('a \<Rightarrow> nat) \<Rightarrow> 'a list \<Rightarrow> nat" where
  "total f xs = sum_list (map f xs)"

lemma total_simps [simp]: "total f [] = 0" "total f (x # xs) = f x + total f xs"
  "total f (xs @ ys) = total f xs + total f ys"
  by (simp_all add: total_def)

definition sat :: "nat \<Rightarrow> nat" where "sat n = min u64_max n"

lemma saturating_add_sat [simp]: "saturating_add_u64 (sat a) b = sat (a + b)" "saturating_add_u64 a (sat b) = sat (a + b)"
  by (auto simp: saturating_add_u64_def sat_def)

lemma sat_sat [simp]: "sat (sat a + b) = sat (a + b)" "sat (a + sat b) = sat (a + b)"
  by (auto simp: sat_def)

lemma sat_0 [simp]: "sat 0 = 0"
  by (simp add: sat_def)

lemma fold_sat:
  "fold (\<lambda>x (t, r). (saturating_add_u64 t (f x), saturating_add_u64 r (g x))) xs (sat a, sat b) =
     (sat (a + total f xs), sat (b + total g xs))"
  by (induction xs arbitrary: a b) (simp_all add: add.assoc)

lemma count_logs_total: "count_logs ls = (sat (total quota_tokens ls), sat (total user_request ls))"
  using fold_sat [of quota_tokens user_request ls 0 0] by (simp add: count_logs_def)

lemma count_buckets_total:
  "count_buckets bs = (sat (total (qa_quota_tokens \<circ> rk_stats) bs), sat (total (qa_request_count \<circ> rk_stats) bs))"
  using fold_sat [of "qa_quota_tokens \<circ> rk_stats" "qa_request_count \<circ> rk_stats" bs 0 0]
  by (simp add: count_buckets_def comp_def)

lemma total_filter: "total f (filter P xs) = total (\<lambda>x. if P x then f x else 0) xs"
  by (induction xs) auto

lemma total_mono_filter: "total f (filter P xs) \<le> total f xs"
  by (induction xs) auto

lemma total_user_request: "total user_request xs \<le> length xs"
  by (induction xs) (auto simp: user_request_def)

subsection \<open>Keys\<close>

text \<open>The separator of the keys does not occur in the parts.\<close>

definition clean :: "UsageLog \<Rightarrow> bool" where
  "clean l \<longleftrightarrow> US \<notin> set (opt_str (ul_share_id l)) \<and> US \<notin> set (opt_str (ul_user_email l))"

lemma split_at_sep:
  "x \<notin> set a \<Longrightarrow> x \<notin> set a' \<Longrightarrow> a @ x # b = a' @ x # b' \<longleftrightarrow> a = a' \<and> b = b'"
proof (induction a arbitrary: a')
  case Nil
  then show ?case by (cases a') auto
next
  case (Cons y a)
  then show ?case by (cases a') auto
qed

lemma US_byte: "byte US = 31"
  by (simp add: US_def byte_def)

lemma US_no_digit: "US \<notin> set (show_nat n)"
  using show_nat_digits [of n] US_byte by (auto simp: is_ascii_digit_def)

lemma ascii_lower_US: "ascii_lower c = US \<longleftrightarrow> c = US"
proof -
  have "byte (ascii_lower c) = 31 \<longleftrightarrow> byte c = 31"
    by (auto simp: ascii_lower_def is_ascii_upper_def byte_char_of)
  moreover have "d = US \<longleftrightarrow> byte d = 31" for d
    using US_byte by (metis US_def byte_def char_of_char)
  ultimately show ?thesis by blast
qed

lemma set_trim_start: "set (trim_start s) \<subseteq> set s"
  by (induction s rule: trim_start.induct) auto

lemma set_trim_end_rev: "set (trim_end_rev s) \<subseteq> set s"
  by (induction s rule: trim_end_rev.induct) auto

lemma set_trim: "set (trim s) \<subseteq> set s"
  using set_trim_start [of s] set_trim_end_rev [of "rev (trim_start s)"] by (auto simp: trim_def)

lemma clean_email:
  assumes "clean l"
  shows "US \<notin> set (log_email l)"
proof (cases "ul_user_email l")
  case (Some e)
  with assms set_trim [of e] have "US \<notin> set (trim e)" by (auto simp: clean_def opt_str_def)
  then have "US \<notin> ascii_lower ` set (trim e)" by (metis ascii_lower_US imageE)
  with Some show ?thesis by (simp add: log_email_def to_ascii_lowercase_def)
qed (simp add: log_email_def)

definition same_place :: "UsageLog \<Rightarrow> UsageLog \<Rightarrow> bool" where
  "same_place l l' \<longleftrightarrow> bucket_start l = bucket_start l' \<and> opt_str (ul_share_id l) = opt_str (ul_share_id l') \<and>
     log_email l = log_email l'"

lemma key_same_place:
  assumes "usage_rollup_key l = usage_rollup_key l'" and "clean l" and "clean l'"
  shows "same_place l l'"
proof -
  have share: "US \<notin> set (opt_str (ul_share_id l))" "US \<notin> set (opt_str (ul_share_id l'))"
    using assms by (simp_all add: clean_def)
  show ?thesis
    using assms(1) unfolding usage_rollup_key_def same_place_def
    by (simp only: split_at_sep [OF US_no_digit US_no_digit] split_at_sep [OF share]
        split_at_sep [OF clean_email [OF assms(2)] clean_email [OF assms(3)]] show_nat_inj simp_thms)
qed

subsection \<open>The relation\<close>

definition key_logs :: "UsageLog list \<Rightarrow> string \<Rightarrow> UsageLog list" where
  "key_logs L k = filter (\<lambda>l. is_share_user_quota_record l \<and> usage_rollup_key l = k) L"

definition places :: "UsageRollupBucket \<Rightarrow> UsageLog \<Rightarrow> bool" where
  "places b l \<longleftrightarrow> rk_bucket_start_ms b = bucket_start l \<and> rk_share_id b = opt_str (ul_share_id l) \<and>
     rk_user_email b = log_email l"

definition sums_up :: "UsageRollupBucket \<Rightarrow> UsageLog list \<Rightarrow> bool" where
  "sums_up b ls \<longleftrightarrow> rk_stats b = \<lparr>qa_quota_tokens = total quota_tokens ls,
     qa_request_count = total user_request ls, qa_record_count = length ls\<rparr>"

definition key_ok :: "UsageLog list \<Rightarrow> UsageRollupBucket option \<Rightarrow> bool" where
  "key_ok ls ob = (case ob of None \<Rightarrow> ls = []
     | Some b \<Rightarrow> ls \<noteq> [] \<and> (\<forall>l \<in> set ls. places b l) \<and> sums_up b ls)"

lemma key_ok_simps [simp]: "key_ok ls None \<longleftrightarrow> ls = []"
  "key_ok ls (Some b) \<longleftrightarrow> ls \<noteq> [] \<and> (\<forall>l \<in> set ls. places b l) \<and> sums_up b ls"
  by (simp_all add: key_ok_def)

definition rollup_inv :: "UsageLog list \<Rightarrow> rollups \<Rightarrow> bool" where
  "rollup_inv L m \<longleftrightarrow> bt_wf m \<and> (\<forall>l \<in> set L. clean l) \<and> (\<forall>k. key_ok (key_logs L k) (bt_get m k))"

lemma key_logs_append: "key_logs (L @ L') k = key_logs L k @ key_logs L' k"
  by (simp add: key_logs_def)

lemma key_logs_Cons: "key_logs (l # L) k =
    (if is_share_user_quota_record l \<and> usage_rollup_key l = k then l # key_logs L k else key_logs L k)"
  by (simp add: key_logs_def)

lemma mem_key_logs: "x \<in> set (key_logs L k) \<longleftrightarrow> x \<in> set L \<and> is_share_user_quota_record x \<and> usage_rollup_key x = k"
  by (auto simp: key_logs_def)

definition fits :: "UsageLog list \<Rightarrow> bool" where
  "fits L \<longleftrightarrow> total quota_tokens L \<le> u64_max \<and> length L \<le> u64_max"

lemma key_logs_fit:
  assumes "fits L"
  shows "total quota_tokens (key_logs L k) \<le> u64_max" "total user_request (key_logs L k) \<le> u64_max"
    "length (key_logs L k) \<le> u64_max"
proof -
  show "total quota_tokens (key_logs L k) \<le> u64_max"
    using assms total_mono_filter [of quota_tokens] unfolding fits_def key_logs_def by (meson order_trans)
  show len: "length (key_logs L k) \<le> u64_max"
    using assms length_filter_le unfolding fits_def key_logs_def by (meson order_trans)
  show "total user_request (key_logs L k) \<le> u64_max"
    using len total_user_request [of "key_logs L k"] by simp
qed

lemma sums_up_push:
  assumes "sums_up b (xs @ ys)" and "total quota_tokens (xs @ l # ys) \<le> u64_max"
    and "total user_request (xs @ l # ys) \<le> u64_max" and "length (xs @ l # ys) \<le> u64_max"
  shows "sums_up (on_stats (acc_push l) b) (xs @ l # ys)"
  using assms by (auto simp: sums_up_def on_stats_def acc_push_def saturating_add_u64_def user_request_def)

lemma sums_up_remove:
  "sums_up b (xs @ l # ys) \<Longrightarrow> sums_up (on_stats (acc_remove l) b) (xs @ ys)"
  by (auto simp: sums_up_def on_stats_def acc_remove_def user_request_def)

lemma sums_up_new: "sums_up (new_bucket l) []"
  by (simp add: sums_up_def new_bucket_def)

lemma places_stats [simp]: "places (on_stats f b) l \<longleftrightarrow> places b l"
  by (simp add: places_def on_stats_def)

lemma places_new: "places (new_bucket l) l"
  by (simp add: places_def new_bucket_def)

lemma places_same: "places b l \<Longrightarrow> same_place l l' \<Longrightarrow> places b l'"
  by (simp add: places_def same_place_def)

lemma add_log_inv:
  assumes inv: "rollup_inv (A @ B) m" and "clean l" and fit: "fits (A @ l # B)"
  shows "rollup_inv (A @ l # B) (add_log l m)"
proof (cases "is_share_user_quota_record l")
  case False
  then have same: "key_logs (A @ l # B) k = key_logs (A @ B) k" for k
    by (simp add: key_logs_append key_logs_Cons)
  with False assms show ?thesis unfolding rollup_inv_def same by (auto simp: add_log_def)
next
  case True
  define key where "key = usage_rollup_key l"
  define b where "b = (case bt_get m key of None \<Rightarrow> new_bucket l | Some b \<Rightarrow> b)"
  have cl: "\<forall>x \<in> set (A @ l # B). clean x" using inv \<open>clean l\<close> by (auto simp: rollup_inv_def)
  have at_key: "key_ok (key_logs (A @ B) key) (bt_get m key)"
    using inv by (simp add: rollup_inv_def)
  have sums: "sums_up b (key_logs A key @ key_logs B key)"
    using at_key sums_up_new by (cases "bt_get m key") (auto simp: b_def key_logs_append)
  have pl: "places b x" if "x \<in> set (key_logs (A @ l # B) key)" for x
  proof -
    have "same_place l x"
      using that cl \<open>clean l\<close> by (intro key_same_place) (auto simp: mem_key_logs key_def)
    moreover have "places b l"
    proof (cases "bt_get m key")
      case None
      then show ?thesis by (simp add: b_def places_new)
    next
      case (Some b0)
      with at_key have all: "\<forall>y \<in> set (key_logs (A @ B) key). places b0 y" and "key_logs (A @ B) key \<noteq> []"
        by simp_all
      then have y: "hd (key_logs (A @ B) key) \<in> set (key_logs (A @ B) key)" by simp
      define y0 where "y0 = hd (key_logs (A @ B) key)"
      have y: "y0 \<in> set (key_logs (A @ B) key)" "places b0 y0" using y all by (auto simp: y0_def)
      then have "same_place y0 l"
        using cl \<open>clean l\<close> by (intro key_same_place) (auto simp: mem_key_logs key_def)
      with y(2) Some show ?thesis by (auto simp: b_def intro: places_same)
    qed
    ultimately show ?thesis by (rule places_same [rotated])
  qed
  have new: "key_logs (A @ l # B) key = key_logs A key @ l # key_logs B key"
    using True by (simp add: key_logs_append key_logs_Cons key_def)
  have "sums_up (on_stats (acc_push l) b) (key_logs (A @ l # B) key)"
    using sums_up_push [OF sums] key_logs_fit [OF fit, of key] unfolding new by blast
  moreover have "add_log l m = bt_insert key (on_stats (acc_push l) b) m"
    using True by (simp add: add_log_def bt_update_default_def key_def b_def)
  moreover have "key_logs (A @ l # B) k = key_logs (A @ B) k" if "k \<noteq> key" for k
    using that by (simp add: key_logs_append key_logs_Cons key_def)
  ultimately show ?thesis
    using inv pl new cl by (auto simp: rollup_inv_def)
qed

lemma remove_log_inv:
  assumes inv: "rollup_inv (A @ l # B) m"
  shows "rollup_inv (A @ B) (remove_log l m)"
proof (cases "is_share_user_quota_record l")
  case False
  then have same: "key_logs (A @ l # B) k = key_logs (A @ B) k" for k
    by (simp add: key_logs_append key_logs_Cons)
  with False assms show ?thesis unfolding rollup_inv_def same by (auto simp: remove_log_def)
next
  case True
  define key where "key = usage_rollup_key l"
  have new: "key_logs (A @ l # B) key = key_logs A key @ l # key_logs B key"
    using True by (simp add: key_logs_append key_logs_Cons key_def)
  have "key_ok (key_logs A key @ l # key_logs B key) (bt_get m key)"
    using inv unfolding rollup_inv_def new [symmetric] by blast
  then obtain b where b: "bt_get m key = Some b" "\<forall>x \<in> set (key_logs (A @ B) key). places b x"
    and sums: "sums_up (on_stats (acc_remove l) b) (key_logs (A @ B) key)"
    by (cases "bt_get m key") (auto simp: key_logs_append dest: sums_up_remove)
  have rest: "key_logs (A @ l # B) k = key_logs (A @ B) k" if "k \<noteq> key" for k
    using that by (simp add: key_logs_append key_logs_Cons key_def)
  have count: "qa_record_count (rk_stats (on_stats (acc_remove l) b)) = length (key_logs (A @ B) key)"
    using sums by (simp add: sums_up_def)
  have m: "remove_log l m = (if key_logs (A @ B) key = [] then bt_remove key m
      else bt_insert key (on_stats (acc_remove l) b) m)"
    using True b(1) count by (simp add: remove_log_def key_def [symmetric] Let_def)
  have "key_ok (key_logs (A @ B) k) (bt_get (remove_log l m) k)" for k
  proof (cases "k = key")
    case True
    with b sums show ?thesis by (simp add: m)
  next
    case False
    then have "bt_get (remove_log l m) k = bt_get m k" "key_logs (A @ l # B) k = key_logs (A @ B) k"
      by (simp_all add: m rest)
    moreover have "key_ok (key_logs (A @ l # B) k) (bt_get m k)" using inv by (simp add: rollup_inv_def)
    ultimately show ?thesis by simp
  qed
  moreover have "bt_wf (remove_log l m)" "\<forall>x \<in> set (A @ B). clean x"
    using inv by (simp_all add: rollup_inv_def m)
  ultimately show ?thesis unfolding rollup_inv_def by blast
qed

subsection \<open>Queries\<close>

lemma sum_key_logs:
  assumes "finite K"
  shows "\<forall>l \<in> set L. is_share_user_quota_record l \<longrightarrow> usage_rollup_key l \<in> K \<Longrightarrow>
    (\<Sum>k \<in> K. total f (filter Q (key_logs L k))) = total f (filter (\<lambda>l. is_share_user_quota_record l \<and> Q l) L)"
proof (induction L)
  case (Cons l L)
  let ?in = "is_share_user_quota_record l \<and> Q l"
  have "(\<Sum>k \<in> K. total f (filter Q (key_logs (l # L) k))) =
      (\<Sum>k \<in> K. (if k = usage_rollup_key l then (if ?in then f l else 0) else 0) + total f (filter Q (key_logs L k)))"
    by (rule sum.cong) (auto simp: key_logs_Cons)
  also have "\<dots> = (if usage_rollup_key l \<in> K then (if ?in then f l else 0) else 0) +
      (\<Sum>k \<in> K. total f (filter Q (key_logs L k)))"
    using assms by (simp add: sum.distrib sum.delta)
  also have "\<dots> = total f (filter (\<lambda>l. is_share_user_quota_record l \<and> Q l) (l # L))"
    using Cons by auto
  finally show ?case .
qed (simp add: key_logs_def)

lemma rollup_sum:
  assumes inv: "rollup_inv L m" and agree: "\<And>b l. places b l \<Longrightarrow> Q b \<longleftrightarrow> Q' l"
    and stat: "\<And>b ls. sums_up b ls \<Longrightarrow> g b = total f ls"
  shows "total g (filter Q (bt_values m)) = total f (filter (\<lambda>l. is_share_user_quota_record l \<and> Q' l) L)"
proof -
  have wf: "bt_wf m" and ok: "\<And>k. key_ok (key_logs L k) (bt_get m k)"
    using inv by (simp_all add: rollup_inv_def)
  have one: "(if Q b then g b else 0) = total f (filter Q' (key_logs L k))" if "bt_get m k = Some b" for k b
  proof -
    from ok [of k] that have pl: "\<forall>l \<in> set (key_logs L k). places b l" "key_logs L k \<noteq> []" "sums_up b (key_logs L k)"
      by simp_all
    then have "\<forall>l \<in> set (key_logs L k). Q' l = Q b" using agree by blast
    then have "filter Q' (key_logs L k) = (if Q b then key_logs L k else [])"
      by (auto simp: filter_id_conv filter_empty_conv)
    with stat [OF pl(3)] show ?thesis by simp
  qed
  have "total g (filter Q (bt_values m)) = sum_list (map (\<lambda>e. if Q (snd e) then g (snd e) else 0) m)"
    unfolding total_filter [of g] by (simp add: total_def bt_values_def comp_def)
  also have "\<dots> = (\<Sum>e \<in> set m. if Q (snd e) then g (snd e) else 0)"
    using bt_wf_distinct [OF wf] by (intro sum_list_distinct_conv_sum_set) (rule distinct_map [THEN iffD1, THEN conjunct1])
  also have "\<dots> = (\<Sum>e \<in> set m. total f (filter Q' (key_logs L (fst e))))"
    using one wf by (intro sum.cong) (auto simp: bt_get_iff_mem)
  also have "\<dots> = (\<Sum>k \<in> fst ` set m. total f (filter Q' (key_logs L k)))"
    using bt_wf_distinct [OF wf] by (simp add: sum.reindex distinct_map)
  also have "\<dots> = total f (filter (\<lambda>l. is_share_user_quota_record l \<and> Q' l) L)"
  proof (rule sum_key_logs)
    show "\<forall>l \<in> set L. is_share_user_quota_record l \<longrightarrow> usage_rollup_key l \<in> fst ` set m"
    proof (intro ballI impI)
      fix l assume "l \<in> set L" "is_share_user_quota_record l"
      then have "key_logs L (usage_rollup_key l) \<noteq> []" by (auto simp: key_logs_def filter_empty_conv)
      with ok [of "usage_rollup_key l"] have "bt_get m (usage_rollup_key l) \<noteq> None" by (cases "bt_get m (usage_rollup_key l)") auto
      then show "usage_rollup_key l \<in> fst ` set m" by (simp add: bt_get_None_iff)
    qed
  qed simp
  finally show ?thesis .
qed

lemma total_split:
  "(\<And>x. P x \<longleftrightarrow> A x \<or> B x) \<Longrightarrow> (\<And>x. \<not> (A x \<and> B x)) \<Longrightarrow>
   total f (filter P xs) = total f (filter A xs) + total f (filter B xs)"
  by (induction xs) auto

lemma bucket_mult: "USAGE_ROLLUP_BUCKET_MS dvd x \<Longrightarrow> x \<le> bucket_start l \<longleftrightarrow> x \<le> ul_created_at_ms l"
proof -
  assume "USAGE_ROLLUP_BUCKET_MS dvd x"
  then obtain q where x: "x = q * USAGE_ROLLUP_BUCKET_MS" by (metis dvd_def mult.commute)
  have "bucket_start l = (ul_created_at_ms l div USAGE_ROLLUP_BUCKET_MS) * USAGE_ROLLUP_BUCKET_MS"
    by (simp add: bucket_start_def minus_mod_eq_div_mult)
  then show ?thesis
    by (simp add: x USAGE_ROLLUP_BUCKET_MS_def less_eq_div_iff_mult_less_eq)
qed

lemma ceil_bucket:
  assumes "v \<le> nat i64_max"
  shows "USAGE_ROLLUP_BUCKET_MS dvd ceil_to_usage_bucket v" "v \<le> ceil_to_usage_bucket v"
proof -
  let ?r = "v mod USAGE_ROLLUP_BUCKET_MS"
  have le: "?r < USAGE_ROLLUP_BUCKET_MS" by (simp add: USAGE_ROLLUP_BUCKET_MS_def)
  then have c: "ceil_to_usage_bucket v = (if ?r = 0 then v else v + (USAGE_ROLLUP_BUCKET_MS - ?r))"
    using assms by (simp add: ceil_to_usage_bucket_def Let_def saturating_add_u128_def int_limits USAGE_ROLLUP_BUCKET_MS_def)
  then show "v \<le> ceil_to_usage_bucket v" by simp
  have "v + (USAGE_ROLLUP_BUCKET_MS - ?r) = v div USAGE_ROLLUP_BUCKET_MS * USAGE_ROLLUP_BUCKET_MS + USAGE_ROLLUP_BUCKET_MS"
    using le div_mult_mod_eq [of v USAGE_ROLLUP_BUCKET_MS] by linarith
  then show "USAGE_ROLLUP_BUCKET_MS dvd ceil_to_usage_bucket v"
    unfolding c by (auto simp: dvd_eq_mod_eq_0)
qed

text \<open>
  The records a query counts: those of the share in the window, a record whose whole minute lies
  in the window by its trimmed email, as the rollup files it, any other by its email as it is.
\<close>

definition whole_minute :: "nat \<Rightarrow> nat \<Rightarrow> UsageLog \<Rightarrow> bool" where
  "whole_minute starts ends l \<longleftrightarrow> starts \<le> bucket_start l \<and> bucket_start l + USAGE_ROLLUP_BUCKET_MS \<le> ends"

definition counted_by_query :: "string \<Rightarrow> string \<Rightarrow> nat \<Rightarrow> nat \<Rightarrow> UsageLog \<Rightarrow> bool" where
  "counted_by_query share email starts ends l \<longleftrightarrow> is_share_user_quota_record l \<and> ul_share_id l = Some share \<and>
     starts \<le> ul_created_at_ms l \<and> ul_created_at_ms l < ends \<and>
     eq_ignore_ascii_case (if whole_minute starts ends l then trim (opt_str (ul_user_email l)) else opt_str (ul_user_email l)) email"

lemma minute_bounds: "bucket_start l \<le> ul_created_at_ms l" "ul_created_at_ms l < bucket_start l + USAGE_ROLLUP_BUCKET_MS"
proof -
  have "ul_created_at_ms l mod USAGE_ROLLUP_BUCKET_MS < USAGE_ROLLUP_BUCKET_MS" by (simp add: USAGE_ROLLUP_BUCKET_MS_def)
  moreover have "ul_created_at_ms l mod USAGE_ROLLUP_BUCKET_MS \<le> ul_created_at_ms l" by simp
  ultimately show "bucket_start l \<le> ul_created_at_ms l" "ul_created_at_ms l < bucket_start l + USAGE_ROLLUP_BUCKET_MS"
    unfolding bucket_start_def by linarith+
qed

lemma dvd_bucket_start: "USAGE_ROLLUP_BUCKET_MS dvd bucket_start l"
  by (simp add: bucket_start_def minus_mod_eq_div_mult)

lemma whole_minute_iff:
  assumes "starts \<le> nat i64_max"
  shows "whole_minute starts ends l \<longleftrightarrow> ceil_to_usage_bucket starts \<le> ul_created_at_ms l \<and>
    ul_created_at_ms l < ends - ends mod USAGE_ROLLUP_BUCKET_MS"
proof -
  let ?B = USAGE_ROLLUP_BUCKET_MS and ?c = "ceil_to_usage_bucket starts" and ?a = "ends - ends mod USAGE_ROLLUP_BUCKET_MS"
  have pos: "0 < ?B" by (simp add: USAGE_ROLLUP_BUCKET_MS_def)
  have step: "x + ?B \<le> y" if "x < y" "?B dvd x" "?B dvd y" for x y
    using that pos by (metis dvd_diff_nat dvd_imp_le le_diff_conv2 less_imp_le zero_less_diff add.commute)
  have small: "?c < starts + ?B"
    using assms pos by (auto simp: ceil_to_usage_bucket_def Let_def saturating_add_u128_def)
  have a: "?B dvd ?a" "?a \<le> ends" "ends < ?a + ?B"
  proof -
    show "?B dvd ?a" by (simp add: minus_mod_eq_div_mult)
    have "ends mod ?B < ?B" "ends mod ?B \<le> ends" using pos by simp_all
    then show "?a \<le> ends" "ends < ?a + ?B" by linarith+
  qed
  have "starts \<le> bucket_start l \<longleftrightarrow> ?c \<le> bucket_start l"
    using step [of "bucket_start l" ?c] dvd_bucket_start ceil_bucket [OF assms] small by force
  moreover have "bucket_start l + ?B \<le> ends \<longleftrightarrow> bucket_start l < ?a"
    using step [of "bucket_start l" ?a] step [of ?a "bucket_start l + ?B"] dvd_bucket_start a by fastforce
  ultimately show ?thesis
    using bucket_mult [OF ceil_bucket(1) [OF assms], of l] bucket_mult [OF a(1), of l]
    by (simp add: whole_minute_def not_le [symmetric] del: not_le)
qed

lemma counted_cases:
  "counted_by_query share email starts ends l \<longleftrightarrow> starts \<le> ul_created_at_ms l \<and> ul_created_at_ms l < ends \<and>
     (if whole_minute starts ends l then is_share_user_quota_record l \<and> opt_str (ul_share_id l) = share \<and>
        eq_ignore_ascii_case (log_email l) email
      else quota_log_matches l share email)"
  by (auto simp: counted_by_query_def quota_log_matches_def is_share_user_quota_record_def nonempty_def
      log_email_def opt_str_def eq_ignore_ascii_case_def split: option.splits)

lemma counted_trimmed:
  "trim (opt_str (ul_user_email l)) = opt_str (ul_user_email l) \<Longrightarrow>
   counted_by_query share email starts ends l \<longleftrightarrow> quota_log_matches l share email \<and>
     starts \<le> ul_created_at_ms l \<and> ul_created_at_ms l < ends"
  by (auto simp: counted_by_query_def quota_log_matches_def is_share_user_quota_record_def nonempty_def
      opt_str_def split: option.splits)

lemma rolled_query:
  fixes starts ends :: nat
  assumes inv: "rollup_inv (st_logs S) (st_rollups S)" and s: "starts \<le> nat i64_max"
    and rolled: "starts < ends" "ceil_to_usage_bucket starts < ends - ends mod USAGE_ROLLUP_BUCKET_MS"
  shows "share_user_quota_usage S share email (int starts) (int ends) =
    count_logs (filter (counted_by_query share (trim email) starts ends) (st_logs S))"
proof -
  let ?L = "st_logs S" and ?m = "trim email"
  let ?first = "ceil_to_usage_bucket starts" and ?after = "ends - ends mod USAGE_ROLLUP_BUCKET_MS"
  have after: "USAGE_ROLLUP_BUCKET_MS dvd ?after" "?after \<le> ends"
    by (simp_all add: minus_mod_eq_div_mult)
  note whole = whole_minute_iff [OF s, of ends]
  define Q where "Q b \<longleftrightarrow> rk_bucket_start_ms b \<ge> ?first \<and> rk_bucket_start_ms b < ?after \<and>
      rk_share_id b = share \<and> eq_ignore_ascii_case (rk_user_email b) ?m" for b :: UsageRollupBucket
  define Q' where "Q' l \<longleftrightarrow> ul_created_at_ms l \<ge> ?first \<and> ul_created_at_ms l < ?after \<and>
      opt_str (ul_share_id l) = share \<and> eq_ignore_ascii_case (log_email l) ?m" for l
  define mids where "mids = filter Q (bt_values (st_rollups S))"
  define edge where "edge = filter (\<lambda>l. quota_log_matches l share ?m) (filter (\<lambda>l.
      (ul_created_at_ms l \<ge> starts \<and> ul_created_at_ms l < ?first) \<or> (ul_created_at_ms l \<ge> ?after \<and> ul_created_at_ms l < ends)) ?L)"
  define all where "all = filter (counted_by_query share ?m starts ends) ?L"
  have agree: "Q b \<longleftrightarrow> Q' l" if "places b l" for b l
    using that bucket_mult [OF ceil_bucket(1) [OF s], of l] bucket_mult [OF after(1), of l]
    by (auto simp: Q_def Q'_def places_def not_le [symmetric])
  have sum: "total g mids + total f edge = total f all" if "\<And>b ls. sums_up b ls \<Longrightarrow> g b = total f ls" for f g
  proof -
    have "total g mids = total f (filter (\<lambda>l. is_share_user_quota_record l \<and> Q' l) ?L)"
      unfolding mids_def by (rule rollup_sum [OF inv agree that])
    moreover have "total f all = total f (filter (\<lambda>l. is_share_user_quota_record l \<and> Q' l) ?L) + total f edge"
      unfolding all_def edge_def filter_filter using ceil_bucket(2) [OF s] after(2) rolled
      by (intro total_split) (auto simp: counted_cases whole Q'_def split: if_splits)
    ultimately show ?thesis by simp
  qed
  have tokens: "total (qa_quota_tokens \<circ> rk_stats) mids + total quota_tokens edge = total quota_tokens all"
    by (rule sum) (simp add: sums_up_def)
  have requests: "total (qa_request_count \<circ> rk_stats) mids + total user_request edge = total user_request all"
    by (rule sum) (simp add: sums_up_def)
  have no: "\<not> (int starts < 0 \<or> int ends < 0)" "\<not> starts \<ge> ends" "\<not> ?first \<ge> ?after" using rolled by linarith+
  have "share_user_quota_usage S share email (int starts) (int ends) =
      (saturating_add_u64 (fst (count_buckets mids)) (fst (count_logs edge)),
       saturating_add_u64 (snd (count_buckets mids)) (snd (count_logs edge)))"
    unfolding share_user_quota_usage_def Let_def mids_def edge_def Q_def nat_int by (simp only: no if_False)
  also have "\<dots> = count_logs all"
    by (simp add: count_buckets_total count_logs_total tokens requests)
  finally show ?thesis by (simp only: all_def)
qed

lemma rollup_query:
  assumes inv: "rollup_inv (st_logs S) (st_rollups S)" and "0 \<le> starts" and "0 \<le> ends" and ends: "ends \<le> i64_max"
  shows "share_user_quota_usage S share email starts ends =
    count_logs (filter (counted_by_query share (trim email) (nat starts) (nat ends)) (st_logs S))"
proof -
  let ?s = "nat starts" and ?e = "nat ends"
  let ?first = "ceil_to_usage_bucket ?s" and ?after = "?e - ?e mod USAGE_ROLLUP_BUCKET_MS"
  consider (empty) "?s \<ge> ?e" | (raw) "?s < ?e" "?first \<ge> ?after" | (rolled) "?s < ?e" "?first < ?after" by linarith
  then show ?thesis
  proof cases
    case empty
    then have none: "filter (counted_by_query share (trim email) ?s ?e) (st_logs S) = []"
      by (auto simp: filter_empty_conv counted_by_query_def)
    from empty assms show ?thesis unfolding none by (simp add: share_user_quota_usage_def count_logs_def)
  next
    case raw
    then have s: "?s \<le> nat i64_max" using ends by (auto simp: nat_le_eq_zle)
    from raw have "counted_by_query share (trim email) ?s ?e l \<longleftrightarrow>
        (?s \<le> ul_created_at_ms l \<and> ul_created_at_ms l < ?e) \<and> quota_log_matches l share (trim email)" for l
      unfolding counted_cases whole_minute_iff [OF s] by auto
    then have "filter (counted_by_query share (trim email) ?s ?e) (st_logs S) =
        filter (\<lambda>l. quota_log_matches l share (trim email))
          (filter (\<lambda>l. ?s \<le> ul_created_at_ms l \<and> ul_created_at_ms l < ?e) (st_logs S))"
      unfolding filter_filter by (intro filter_cong) simp_all
    then have "quota_usage_from_logs (st_logs S) share (trim email) ?s ?e =
        count_logs (filter (counted_by_query share (trim email) ?s ?e) (st_logs S))"
      by (simp only: quota_usage_from_logs_def)
    moreover from raw have "\<not> ?s \<ge> ?e" by linarith
    ultimately show ?thesis
      using raw assms by (simp only: share_user_quota_usage_def Let_def not_less [symmetric] if_False simp_thms if_True)
  next
    case rolled
    then have "?s \<le> nat i64_max" using ends by (auto simp: nat_le_eq_zle)
    from rolled_query [OF inv this rolled] assms show ?thesis by simp
  qed
qed

subsection \<open>Pushes\<close>

lemma find_splits:
  "find P xs = Some x \<Longrightarrow> \<exists>A B. xs = A @ x # B \<and> P x \<and> (\<forall>y \<in> set A. \<not> P y)"
proof (induction xs)
  case (Cons y xs)
  show ?case
  proof (cases "P y")
    case True
    with Cons.prems show ?thesis by (intro exI [of _ "[]"] exI [of _ xs]) auto
  next
    case False
    with Cons obtain A B where "xs = A @ x # B \<and> P x \<and> (\<forall>y \<in> set A. \<not> P y)" by auto
    with False show ?thesis by (intro exI [of _ "y # A"] exI [of _ B]) auto
  qed
qed simp

lemma replace_first_split:
  "ul_request_id p = ul_request_id l \<Longrightarrow> \<forall>y \<in> set A. ul_request_id y \<noteq> ul_request_id l \<Longrightarrow>
   replace_first l (A @ p # B) = A @ l # B"
  by (induction A) auto

inductive usage_push :: "json_encoder \<Rightarrow> UsageStore \<Rightarrow> UsageStore \<Rightarrow> bool" for json where
  push: "clean l \<Longrightarrow> fits (st_logs (push_log json now S l)) \<Longrightarrow>
    \<forall>x \<in> set (l # st_logs S). now - USAGE_DETAIL_RETENTION_MS \<le> ul_created_at_ms x \<Longrightarrow>
    usage_push json S (push_log json now S l)"

abbreviation store_inv :: "UsageStore \<Rightarrow> bool" where
  "store_inv S \<equiv> rollup_inv (st_logs S) (st_rollups S)"

lemma usage_push_inv:
  assumes "store_inv S" and "usage_push json S T"
  shows "store_inv T"
  using assms(2)
proof cases
  case (push l now)
  show ?thesis
  proof (cases "find (\<lambda>x. ul_request_id x = ul_request_id l) (st_logs S)")
    case None
    have keep: "trim_recent_window now (st_logs S @ [l]) = st_logs S @ [l]"
      using push(4) by (auto simp: trim_recent_window_def filter_id_conv)
    have "st_logs T = st_logs S @ [l]" "st_rollups T = add_log l (st_rollups S)"
      using None keep by (simp_all add: push(1) push_log_def Let_def)
    with add_log_inv [of "st_logs S" "[]" "st_rollups S" l] assms(1) push show ?thesis by simp
  next
    case (Some p)
    from find_splits [OF this] obtain A B where logs: "st_logs S = A @ p # B"
      and id: "ul_request_id p = ul_request_id l" "\<forall>y \<in> set A. ul_request_id y \<noteq> ul_request_id l" by blast
    have T: "st_logs T = A @ l # B" "st_rollups T = add_log l (remove_log p (st_rollups S))"
      using Some replace_first_split [OF id, of B] logs by (simp_all add: push(1) push_log_def Let_def replace_log_def)
    have "rollup_inv (A @ B) (remove_log p (st_rollups S))"
      using assms(1) unfolding logs by (rule remove_log_inv)
    from add_log_inv [OF this push(2)] push(3) show ?thesis unfolding T push(1) [symmetric] .
  qed
qed

interpretation store: transition_system "\<lambda>S. S = empty_store" "usage_push json" store_inv for json
proof
  show "S = empty_store \<Longrightarrow> store_inv S" for S
    by (simp add: empty_store_def rollup_inv_def key_logs_def)
qed (fact usage_push_inv)

subsection \<open>Property\<close>

text \<open>
  C28. The rollups answer as the records do: while no record has left the retention window, no
  total has reached 64 bits and no share id or email contains the separator byte 31 of the
  rollup keys, then whatever was recorded, corrected and replaced, the usage of a user of a share
  over any window is the sum over exactly the records of that share and user in it, tokens and
  requests. The user of a record is compared by its trimmed email in the whole minutes of the
  window, which the rollups answer, and by its email as recorded at the edges; when the records'
  emails are trimmed the answer is the one computed from the records alone.
\<close>

theorem rollup_query_exact:
  assumes "(usage_push json)\<^sup>*\<^sup>* empty_store S" and "0 \<le> starts" and "0 \<le> ends" and "ends \<le> i64_max"
  shows "share_user_quota_usage S share email starts ends =
      count_logs (filter (counted_by_query share (trim email) (nat starts) (nat ends)) (st_logs S)) \<and>
    ((\<forall>l \<in> set (st_logs S). trim (opt_str (ul_user_email l)) = opt_str (ul_user_email l)) \<longrightarrow>
      share_user_quota_usage S share email starts ends =
      quota_usage_from_logs (st_logs S) share (trim email) (nat starts) (nat ends))"
proof -
  have q: "share_user_quota_usage S share email starts ends =
      count_logs (filter (counted_by_query share (trim email) (nat starts) (nat ends)) (st_logs S))"
    by (rule rollup_query [OF store.reachable_inv [OF refl assms(1)] assms(2-4)])
  have "filter (counted_by_query share (trim email) (nat starts) (nat ends)) (st_logs S) =
      filter (\<lambda>l. (nat starts \<le> ul_created_at_ms l \<and> ul_created_at_ms l < nat ends) \<and>
        quota_log_matches l share (trim email)) (st_logs S)"
    if "\<forall>l \<in> set (st_logs S). trim (opt_str (ul_user_email l)) = opt_str (ul_user_email l)"
    using that by (intro filter_cong) (auto simp: counted_trimmed)
  with q show ?thesis by (simp add: quota_usage_from_logs_def conj_ac)
qed

definition demo_usage_log :: UsageLog where
  "demo_usage_log = \<lparr>ul_request_id = ''r'', ul_quota_attribution = None, ul_record_kind = UserInference,
     ul_parent_request_id = None, ul_provider_id = ''p'', ul_failure_kind = None, ul_started_at_ms = 70000,
     ul_completed_at_ms = 70500, ul_input_tokens = Some 5, ul_output_tokens = Some 2, ul_cache_read_tokens = None,
     ul_cache_creation_tokens = None, ul_total_tokens = None, ul_share_id = Some ''s'', ul_user_email = Some ''u@x'',
     ul_usage_state = Observed, ul_usage_revision = 1, ul_created_at_ms = 70500, ul_status_code = 200,
     ul_is_health_check = False\<rparr>"

lemma demo_clean: "clean demo_usage_log"
proof -
  have "US \<notin> set ''s''" "US \<notin> set ''u@x''" by code_simp+
  then show ?thesis by (simp add: clean_def demo_usage_log_def opt_str_def)
qed

theorem rollup_query_exact_witness:
  "share_user_quota_usage (push_log (\<lambda>_. []) 70500 empty_store demo_usage_log) ''s'' ''u@x'' 0 120000 = (7, 1)"
proof -
  let ?S = "push_log (\<lambda>_. []) 70500 empty_store demo_usage_log"
  have logs: "st_logs ?S = [demo_usage_log]"
    by (simp add: push_log_def empty_store_def trim_recent_window_def Let_def USAGE_DETAIL_RETENTION_MS_def)
  have "usage_push (\<lambda>_. []) empty_store ?S"
  proof (rule usage_push.push [OF demo_clean])
    show "fits (st_logs ?S)" unfolding logs
      by (simp add: fits_def demo_usage_log_def quota_tokens_def processed_tokens_sum opt0_def int_limits)
    show "\<forall>x \<in> set (demo_usage_log # st_logs empty_store). 70500 - USAGE_DETAIL_RETENTION_MS \<le> ul_created_at_ms x"
      by (simp add: empty_store_def USAGE_DETAIL_RETENTION_MS_def)
  qed
  moreover have trimmed: "trim ''u@x'' = ''u@x''" by code_simp
  moreover have email: "ul_user_email demo_usage_log = Some ''u@x''" by (simp add: demo_usage_log_def)
  ultimately have "share_user_quota_usage ?S ''s'' ''u@x'' 0 120000 =
      quota_usage_from_logs [demo_usage_log] ''s'' ''u@x'' 0 120000"
    using rollup_query_exact [of "\<lambda>_. []" ?S 0 120000 "''s''" "''u@x''", THEN conjunct2] unfolding logs
    by (simp add: i64_max_def r_into_rtranclp opt_str_def)
  also have "quota_usage_from_logs [demo_usage_log] ''s'' ''u@x'' 0 120000 = (7, 1)"
    by (simp add: quota_usage_from_logs_def count_logs_total sat_def quota_log_matches_def is_share_user_quota_record_def
        demo_usage_log_def nonempty_def quota_tokens_def processed_tokens_sum opt0_def user_request_def int_limits)
  finally show ?thesis .
qed

text \<open>
  The condition on the emails is needed: a record whose email has a blank before it is counted
  when its minute is whole in the window and not when the window ends within it.
\<close>

lemma untrimmed_email_at_the_edge:
  fixes l :: UsageLog
  defines "l \<equiv> demo_usage_log\<lparr>ul_user_email := Some '' u@x''\<rparr>"
  shows "counted_by_query ''s'' ''u@x'' 0 120000 l" and "\<not> counted_by_query ''s'' ''u@x'' 0 110000 l"
proof -
  have "trim '' u@x'' = ''u@x''" "eq_ignore_ascii_case ''u@x'' ''u@x''" "\<not> eq_ignore_ascii_case '' u@x'' ''u@x''"
    by code_simp+
  then show "counted_by_query ''s'' ''u@x'' 0 120000 l" and "\<not> counted_by_query ''s'' ''u@x'' 0 110000 l"
    by (simp_all add: counted_by_query_def l_def demo_usage_log_def is_share_user_quota_record_def nonempty_def
        opt_str_def whole_minute_def bucket_start_def USAGE_ROLLUP_BUCKET_MS_def)
qed

end
