(* ===== verification/Value_Decimal.thy ===== *)
theory Value_Decimal
  imports Rust_Str
begin

section \<open>Exact money amounts\<close>

text \<open>
  The decimal amounts of \<open>src/src/domain/usage/value_pricing.rs\<close>: amounts travel as canonical
  unsigned decimal strings and are computed in 128-bit integers, in millionths of a dollar
  (micros) on the wire and in millionths of those (picos) in the ledgers.
\<close>

definition PICOS_PER_MICRO :: int where "PICOS_PER_MICRO = 1000000"
definition MAX_LIMIT_MICROS :: int where "MAX_LIMIT_MICROS = 1000000000000000"
definition TARIFF_POLICY :: string where "TARIFF_POLICY = ''api-equivalent-v1''"

datatype ValueError =
  InvalidDecimal | OutOfRange | InvalidPolicy | InvalidSnapshot | PriceUnavailable
| UsageUnavailable | Overflow

fun value_error_str :: "ValueError \<Rightarrow> string" where
  "value_error_str InvalidDecimal = ''invalid canonical unsigned decimal''"
| "value_error_str OutOfRange = ''value exceeds the supported range''"
| "value_error_str InvalidPolicy = ''invalid USD-equivalent quota policy''"
| "value_error_str InvalidSnapshot = ''invalid pricing snapshot''"
| "value_error_str PriceUnavailable = ''price_unavailable''"
| "value_error_str UsageUnavailable = ''usage_unavailable''"
| "value_error_str Overflow = ''quota arithmetic overflow''"

text \<open>\<open>str::parse::<i128>\<close> on a string of ASCII digits.\<close>

definition parse_i128_digits :: "string \<Rightarrow> int option" where
  "parse_i128_digits s = checked_i128 (int (read_digits s))"

definition unsigned_decimal :: "string \<Rightarrow> ValueError + int" where
  "unsigned_decimal raw =
     (if raw = [] \<or> length raw > 39 \<or> (length raw > 1 \<and> starts_with ''0'' raw) \<or>
         \<not> list_all is_ascii_digit raw
      then Err InvalidDecimal
      else ok_or (parse_i128_digits raw) OutOfRange)"

text \<open>\<open>format!("{fraction:0<6}")\<close> pads on the right with zeros.\<close>

definition pad_zeros :: "string \<Rightarrow> string" where
  "pad_zeros s = s @ replicate (6 - length s) (CHR ''0'')"

definition usd_to_micros :: "string \<Rightarrow> ValueError + string" where
  "usd_to_micros raw =
     (let (whole, fraction) = (case split_once (CHR ''.'') raw of Some p \<Rightarrow> p | None \<Rightarrow> (raw, []))
      in if whole = [] \<or> (CHR ''.'' \<in> set raw \<and> fraction = []) \<or> length fraction > 6 \<or>
            \<not> list_all is_ascii_digit whole \<or> \<not> list_all is_ascii_digit fraction
         then Err InvalidDecimal
         else rbind (ok_or (parse_i128_digits whole) OutOfRange) (\<lambda>w.
              rbind (ok_or (parse_i128_digits (pad_zeros fraction)) InvalidDecimal) (\<lambda>f.
              rbind (ok_or (Option.bind (checked_i128 (w * 1000000)) (\<lambda>v. checked_i128 (v + f))) Overflow) (\<lambda>micros.
                if micros = 0 \<or> micros > MAX_LIMIT_MICROS then Err OutOfRange
                else Ok (show_int micros)))))"

record ValueQuota =
  vq_limit_usd_micros :: string
  vq_tariff_policy_id :: string

definition limit_picos :: "ValueQuota \<Rightarrow> ValueError + int" where
  "limit_picos q = rbind (unsigned_decimal (vq_limit_usd_micros q)) (\<lambda>micros.
     if vq_tariff_policy_id q \<noteq> TARIFF_POLICY \<or> micros = 0 \<or> micros > MAX_LIMIT_MICROS
     then Err InvalidPolicy
     else ok_or (checked_i128 (micros * PICOS_PER_MICRO)) Overflow)"

subsection \<open>Reading and printing amounts\<close>

lemma list_all_digits_show [simp]: "list_all is_ascii_digit (show_nat n)"
  by (simp add: list_all_iff show_nat_digits)

lemma starts_with_0_iff: "s \<noteq> [] \<Longrightarrow> starts_with ''0'' s \<longleftrightarrow> hd s = CHR ''0''"
  by (cases s) (auto simp: starts_with_def)

lemma show_nat_canonical: "\<not> (length (show_nat n) > 1 \<and> starts_with ''0'' (show_nat n))"
proof (cases "n = 0")
  case True
  then show ?thesis by (simp add: show_nat.simps [of 0])
next
  case False
  then show ?thesis using hd_show_nat [of n] by (simp add: starts_with_0_iff)
qed

lemma unsigned_decimal_show: "int n \<le> i128_max \<Longrightarrow> unsigned_decimal (show_nat n) = Ok (int n)"
proof -
  assume n: "int n \<le> i128_max"
  then have "n < 10 ^ 39" by (simp add: int_limits)
  then have "length (show_nat n) \<le> 39" using length_show_nat [of n 39] by simp
  with n show_nat_canonical [of n] show ?thesis
    by (auto simp: unsigned_decimal_def parse_i128_digits_def checked_i128_def in_i128_def int_limits)
qed

lemma unsigned_decimal_Ok:
  assumes "unsigned_decimal s = Ok n"
  shows "0 \<le> n" "n \<le> i128_max" "s = show_nat (nat n)"
proof -
  have s: "s \<noteq> []" "\<forall>c \<in> set s. is_ascii_digit c" "length s = 1 \<or> hd s \<noteq> CHR ''0''"
    and n: "n = int (read_digits s)" "in_i128 n"
    using assms by (auto simp: unsigned_decimal_def parse_i128_digits_def result_iff list_all_iff
        starts_with_0_iff Suc_lessI split: if_splits)
  from n show "0 \<le> n" "n \<le> i128_max" by (simp_all add: in_i128_def)
  from show_read_digits [OF s] n show "s = show_nat (nat n)" by simp
qed

lemma show_int_nat: "0 \<le> n \<Longrightarrow> show_int n = show_nat (nat n)"
  by (simp add: show_int_def)

lemma read_digits_append: "read_digits (s @ t) = read_digits s * 10 ^ length t + read_digits t"
proof (induction t rule: rev_induct)
  case (snoc c t)
  have "read_digits (s @ t @ [c]) = 10 * read_digits (s @ t) + digit_val c"
    using read_digits_snoc [of "s @ t" c] by simp
  with snoc show ?case by (simp add: read_digits_snoc algebra_simps)
qed (simp add: read_digits_def)

lemma read_digits_zeros: "read_digits (replicate n (CHR ''0'')) = 0"
proof (induction n)
  case (Suc n)
  have "digit_val (CHR ''0'') = 0" by (simp add: digit_val_def byte_def)
  with Suc show ?case by (simp add: replicate_append_same [symmetric] read_digits_snoc)
qed (simp add: read_digits_def)

lemma read_pad_zeros: "length s \<le> 6 \<Longrightarrow> read_digits (pad_zeros s) = read_digits s * 10 ^ (6 - length s)"
  by (simp add: pad_zeros_def read_digits_append read_digits_zeros)

subsection \<open>Properties\<close>

text \<open>
  Amounts have one spelling: a string is accepted exactly when it is the decimal form of
  a number of the 128-bit range, and reading it gives that number back.
\<close>

theorem unsigned_decimal_roundtrip:
  "unsigned_decimal s = Ok n \<longleftrightarrow> 0 \<le> n \<and> n \<le> i128_max \<and> s = show_int n"
proof
  assume "unsigned_decimal s = Ok n"
  from unsigned_decimal_Ok [OF this] show "0 \<le> n \<and> n \<le> i128_max \<and> s = show_int n"
    by (simp add: show_int_nat)
next
  assume "0 \<le> n \<and> n \<le> i128_max \<and> s = show_int n"
  then show "unsigned_decimal s = Ok n"
    using unsigned_decimal_show [of "nat n"] by (simp add: show_int_nat)
qed

text \<open>
  C26. A dollar amount is converted without rounding: when an operator's input is accepted,
  the limit enforced in picos is exactly the input times a million million, at whatever number
  of decimals it was written, and it is positive and within the maximum.
\<close>

theorem usd_limit_exact:
  assumes "usd_to_micros raw = Ok micros"
  shows "\<exists>p whole fraction. (case split_once (CHR ''.'') raw of Some x \<Rightarrow> x | None \<Rightarrow> (raw, [])) = (whole, fraction) \<and>
    limit_picos \<lparr>vq_limit_usd_micros = micros, vq_tariff_policy_id = TARIFF_POLICY\<rparr> = Ok p \<and>
    0 < p \<and> p \<le> MAX_LIMIT_MICROS * PICOS_PER_MICRO \<and>
    p * 10 ^ length fraction = int (read_digits whole * 10 ^ length fraction + read_digits fraction) * 10 ^ 12"
proof -
  obtain whole fraction where split:
    "(case split_once (CHR ''.'') raw of Some x \<Rightarrow> x | None \<Rightarrow> (raw, [])) = (whole, fraction)"
    by (metis surj_pair)
  from assms obtain m where len: "length fraction \<le> 6"
    and m: "m = int (read_digits whole) * 1000000 + int (read_digits (pad_zeros fraction))"
    and bounds: "m \<noteq> 0" "m \<le> MAX_LIMIT_MICROS" and micros: "micros = show_int m"
    by (auto simp: usd_to_micros_def split parse_i128_digits_def result_iff bind_eq_Some_conv split: if_splits)
  have pos: "0 < m" using m bounds(1) by linarith
  have "m \<le> i128_max" using bounds(2) by (simp add: MAX_LIMIT_MICROS_def int_limits)
  then have dec: "unsigned_decimal micros = Ok m"
    using pos unsigned_decimal_show [of "nat m"] by (simp add: micros show_int_nat)
  have range: "in_i128 (m * PICOS_PER_MICRO)"
    using pos bounds(2) by (simp add: in_i128_def int_limits MAX_LIMIT_MICROS_def PICOS_PER_MICRO_def)
  have picos: "limit_picos \<lparr>vq_limit_usd_micros = micros, vq_tariff_policy_id = TARIFF_POLICY\<rparr> = Ok (m * PICOS_PER_MICRO)"
    using dec bounds pos range by (simp add: limit_picos_def checked_i128_def)
  have "(10 :: int) ^ (6 - length fraction) * 10 ^ length fraction = 10 ^ 6"
    using len by (simp flip: power_add)
  then have "m * 10 ^ length fraction =
      (int (read_digits whole) * 10 ^ length fraction + int (read_digits fraction)) * 10 ^ 6"
    by (simp add: m read_pad_zeros [OF len] algebra_simps)
  then have "m * PICOS_PER_MICRO * 10 ^ length fraction =
      int (read_digits whole * 10 ^ length fraction + read_digits fraction) * 10 ^ 12"
    by (simp add: PICOS_PER_MICRO_def algebra_simps)
  moreover have "0 < m * PICOS_PER_MICRO" "m * PICOS_PER_MICRO \<le> MAX_LIMIT_MICROS * PICOS_PER_MICRO"
    using pos bounds(2) by (simp_all add: PICOS_PER_MICRO_def)
  ultimately show ?thesis using split picos by (intro exI conjI)
qed

lemma demo_usd: "usd_to_micros ''2.5'' = Ok ''2500000''"
proof -
  have "show_int 2500000 = ''2500000''" by (simp add: show_int_def show_nat.simps digit_chars)
  moreover have "split_once (CHR ''.'') ''2.5'' = Some (''2'', ''5'')" by simp
  moreover have "list_all is_ascii_digit ''2''" "list_all is_ascii_digit ''5''" by code_simp+
  moreover have digits: "read_digits ''2'' = 2" "read_digits ''5'' = 5"
    by (simp_all add: read_digits_def digit_val_def byte_def)
  moreover from digits have "read_digits (pad_zeros ''5'') = 500000" by (simp add: read_pad_zeros)
  ultimately show ?thesis
    by (simp add: usd_to_micros_def parse_i128_digits_def checked_i128_def in_i128_def int_limits MAX_LIMIT_MICROS_def)
qed

theorem usd_limit_exact_witness:
  "\<exists>p. limit_picos \<lparr>vq_limit_usd_micros = ''2500000'', vq_tariff_policy_id = TARIFF_POLICY\<rparr> = Ok p \<and> p * 10 = 25 * 10 ^ 12"
proof -
  have "read_digits ''2'' = 2" "read_digits ''5'' = 5" by (simp_all add: read_digits_def digit_val_def byte_def)
  with usd_limit_exact [OF demo_usd] show ?thesis by auto
qed

end
