(* ===== verification/Share_Types.thy ===== *)
theory Share_Types
  imports Value_Decimal Ordered_Map Quota_Cycle
begin

section \<open>Shares, grants and policies\<close>

text \<open>
  The data a share carries: the policy, usage buckets and grant of a user
  (\<open>src/src/domain/sharing/router_contract.rs\<close>), the market entitlement and its request
  receipts (\<open>market_trials.rs\<close>), and the share itself (\<open>shares.rs\<close>). Of \<open>Share\<close> the fields of
  the router synchronisation, the display and the provider binding history are left out, except
  those that the modelled operations write; the runtime snapshot, a JSON value that only mirrors
  the counters, is left out too.
\<close>

datatype AppKind = Claude | Codex | Gemini

datatype ShareTokenPeriod = Lifetime | Day | Week | SevenDays | CalendarMonth | ThirtyDays | AccountReset

record ShareUserPolicy =
  up_parallel_limit :: "nat option"
  up_token_limit :: "nat option"
  up_value_quota :: "ValueQuota option"
  up_token_period :: ShareTokenPeriod
  up_token_period_anchor_at_ms :: "int option"
  up_expires_at :: "int option"
  up_allowed_apps :: "AppKind list"

record ShareUserUsageBucket =
  ub_started_at_ms :: int
  ub_tokens_used :: nat
  ub_requests_count :: nat

definition default_bucket :: ShareUserUsageBucket where
  "default_bucket = \<lparr>ub_started_at_ms = 0, ub_tokens_used = 0, ub_requests_count = 0\<rparr>"

record ShareAnchoredUsageBucket =
  nb_period :: ShareTokenPeriod
  nb_anchor_at_ms :: int
  nb_started_at_ms :: int
  nb_tokens_used :: nat
  nb_requests_count :: nat

record ShareUserUsage =
  uu_lifetime :: ShareUserUsageBucket
  uu_day :: ShareUserUsageBucket
  uu_week :: ShareUserUsageBucket
  uu_calendar_month :: ShareUserUsageBucket
  uu_anchored :: "ShareAnchoredUsageBucket option"

definition default_usage :: ShareUserUsage where
  "default_usage = \<lparr>uu_lifetime = default_bucket, uu_day = default_bucket, uu_week = default_bucket,
     uu_calendar_month = default_bucket, uu_anchored = None\<rparr>"

datatype ShareUsageRebaseSource = Manual | ProviderReset

record ShareUserUsageRebase =
  rb_period :: ShareTokenPeriod
  rb_anchor_at_ms :: "int option"
  rb_window_starts_at_ms :: "int option"
  rb_window_ends_at_ms :: "int option"
  rb_target_tokens :: nat
  rb_observed_tokens_at_rebase :: nat
  rb_observed_requests_at_rebase :: nat
  rb_usage_watermark :: nat
  rb_applied_at_ms :: int
  rb_applied_by :: "string option"
  rb_source :: ShareUsageRebaseSource

record ShareUserQuotaView =
  qv_period :: ShareTokenPeriod
  qv_anchor_at_ms :: "int option"
  qv_window_starts_at_ms :: "int option"
  qv_window_ends_at_ms :: "int option"
  qv_effective_tokens_used :: nat
  qv_observed_tokens_used :: nat
  qv_manual_offset_tokens :: int
  qv_observed_requests_count :: nat
  qv_rebase_applies :: bool
  qv_usage_watermark :: nat

record PendingValueQuota =
  pv_policy :: ShareUserPolicy
  pv_effective_from_ms :: int
  pv_retain_access :: bool

record AccountResetCapability =
  rcap_support :: string
  rcap_sync_status :: string
  rcap_reason :: "string option"
  rcap_minimum_contract_version :: nat

datatype ShareGrantManager = Owner | ManualGrant | RouterShareMarket

record ValueMeteringBinding =
  vb_quota_policy_epoch :: string
  vb_value_metered_from_ms :: int
  vb_effective_from_ms :: int
  vb_pricing_revision :: string

record ShareUserGrant =
  ug_email :: string
  ug_role :: string
  ug_active :: bool
  ug_policy :: ShareUserPolicy
  ug_value_metering :: "ValueMeteringBinding option"
  ug_pending_value_quota :: "PendingValueQuota option"
  ug_usage :: ShareUserUsage
  ug_usage_rebase :: "ShareUserUsageRebase option"
  ug_usage_quota :: "ShareUserQuotaView option"
  ug_account_quota_cycle :: "AccountQuotaCycle option"
  ug_account_reset_capability :: "AccountResetCapability option"
  ug_account_usage_baseline :: "AccountQuotaBaseline option"
  ug_created_at_ms :: nat
  ug_updated_at_ms :: nat
  ug_revoked_at_ms :: "nat option"
  ug_revision :: nat
  ug_manager :: ShareGrantManager
  ug_entitlement_id :: "string option"

datatype ShareMarketPhase = Trial | Paid

record ShareMarketEntitlement =
  me_trial_scope_id :: string
  me_trial_token_allowance :: "nat option"
  me_email :: string
  me_phase :: ShareMarketPhase
  me_active :: bool
  me_trial_token_limit :: "nat option"
  me_trial_tokens_used :: nat
  me_usage_revision :: nat
  me_usage_uncertain :: bool
  me_applied_at_ms :: int
  me_paid_started_at_ms :: "int option"
  me_trial_value_allowance_usd_micros :: "string option"
  me_trial_value_limit_usd_micros :: "string option"
  me_trial_value_used_picos :: string

record MarketRequestReceipt =
  mr_entitlement_id :: string
  mr_email :: string
  mr_phase :: ShareMarketPhase
  mr_started_at_ms :: int
  mr_tokens :: nat
  mr_revision :: nat
  mr_count_request :: bool
  mr_parent_request_id :: "string option"
  mr_value_picos :: string

record CompactedUsage =
  cu_trial_tokens :: nat
  cu_trial_requests :: nat
  cu_paid_tokens :: nat
  cu_paid_requests :: nat

record Share =
  sh_id :: string
  sh_owner_email :: "string option"
  sh_app :: AppKind
  sh_display_name :: "string option"
  sh_enabled :: bool
  sh_status :: string
  sh_token_limit :: "nat option"
  sh_parallel_limit :: "nat option"
  sh_expires_at :: "int option"
  sh_free_access :: bool
  sh_tokens_used :: nat
  sh_requests_count :: nat
  sh_enabled_apps :: "AppKind list option"
  sh_bindings :: "AppKind list"
  sh_last_error :: "string option"
  sh_router_last_sync_error :: "string option"
  sh_config_revision :: nat
  sh_user_grants :: "(string, ShareUserGrant) btree"
  sh_market_entitlements :: "(string, ShareMarketEntitlement) btree"
  sh_market_requests :: "(string, MarketRequestReceipt) btree"
  sh_pending_market_termination_acks :: "(string, string) btree"
  sh_market_compacted_usage :: "(string, CompactedUsage) btree"
  sh_market_receipts_before_ms :: int

type_synonym ShareStore = "Share list"

end
