(* ===== verification/Gregorian.thy ===== *)
theory Gregorian
  imports Prelude
begin

section \<open>The Gregorian calendar\<close>

text \<open>
  The proleptic Gregorian calendar on day numbers, day 0 being Thursday the first of January
  1970: leap years, the lengths of the months, the day a month begins on, the month a day lies
  in, and the weekdays. It is the calendar that \<open>chrono\<close> documents; \<open>utc_calendar\<close> of
  \<open>Token_Period\<close> refers to it. Nothing in this theory comes from the program.
\<close>

datatype Weekday = Mon | Tue | Wed | Thu | Fri | Sat | Sun

definition weekday_of :: "int \<Rightarrow> Weekday" where
  "weekday_of d = [Thu, Fri, Sat, Sun, Mon, Tue, Wed] ! nat (d mod 7)"

definition leap_year :: "int \<Rightarrow> bool" where
  "leap_year y \<longleftrightarrow> y mod 4 = 0 \<and> (y mod 100 \<noteq> 0 \<or> y mod 400 = 0)"

definition month_length :: "int \<Rightarrow> nat \<Rightarrow> int" where
  "month_length y m = (if m = 2 then (if leap_year y then 29 else 28)
     else if m \<in> {4, 6, 9, 11} then 30 else 31)"

text \<open>The leap years up to a year; there are 477 up to 1969.\<close>

definition leap_years :: "int \<Rightarrow> int" where
  "leap_years y = y div 4 - y div 100 + y div 400"

definition year_start :: "int \<Rightarrow> int" where
  "year_start y = 365 * (y - 1970) + (leap_years (y - 1) - 477)"

definition first_of_month :: "int \<Rightarrow> nat \<Rightarrow> int" where
  "first_of_month y m = year_start y + (\<Sum>k \<leftarrow> [1..<m]. month_length y k)"

definition in_month :: "int \<Rightarrow> int \<Rightarrow> nat \<Rightarrow> bool" where
  "in_month d y m \<longleftrightarrow> 1 \<le> m \<and> m \<le> 12 \<and> first_of_month y m \<le> d \<and> d < first_of_month y m + month_length y m"

text \<open>The definitions on days with a known date: in 1970, around the leap days of 2000 and 2024, in 2100.\<close>

lemma known_dates:
  "first_of_month 1970 1 = 0" "first_of_month 2000 3 = 11017" "month_length 2000 2 = 29"
  "first_of_month 2024 3 = 19783" "weekday_of 19783 = Fri" "month_length 2100 2 = 28" "weekday_of 0 = Thu"
  by code_simp+

subsection \<open>Months follow each other\<close>

lemma month_length_pos: "28 \<le> month_length y m"
  by (simp add: month_length_def)

lemma div_step:
  fixes y k :: int
  assumes "0 < k"
  shows "y div k = (y - 1) div k + (if y mod k = 0 then 1 else 0)"
proof -
  have y: "y = k * (y div k) + y mod k" and m: "0 \<le> y mod k" "y mod k < k" using assms by simp_all
  show ?thesis
  proof (cases "y mod k = 0")
    case True
    have "(y - 1) div k = y div k - 1"
      using y True assms by (intro int_div_pos_eq [where r = "k - 1"]) (simp_all add: algebra_simps)
    with True show ?thesis by simp
  next
    case False
    have "(y - 1) div k = y div k"
      using y m False by (intro int_div_pos_eq [where r = "y mod k - 1"]) simp_all
    with False show ?thesis by simp
  qed
qed

lemma leap_years_step: "leap_years y = leap_years (y - 1) + (if leap_year y then 1 else 0)"
proof -
  have "y mod 4 = 0" if "y mod 100 = 0" using mod_mod_cancel [of 4 100 y] that by simp
  moreover have "y mod 100 = 0" if "y mod 400 = 0" using mod_mod_cancel [of 100 400 y] that by simp
  ultimately show ?thesis
    unfolding leap_years_def leap_year_def div_step [of 4 y, simplified] div_step [of 100 y, simplified]
      div_step [of 400 y, simplified]
    by (cases "y mod 4 = 0"; cases "y mod 100 = 0"; cases "y mod 400 = 0") simp_all
qed

lemma year_start_Suc: "year_start (y + 1) = year_start y + (if leap_year y then 366 else 365)"
  using leap_years_step [of y] by (simp add: year_start_def)

lemma year_start_mono: "y \<le> z \<Longrightarrow> year_start y \<le> year_start z"
proof (induction z rule: int_ge_induct)
  case (step z)
  then show ?case by (simp add: year_start_Suc split: if_splits)
qed simp

lemma first_of_month_1: "first_of_month y (Suc 0) = year_start y"
  by (simp add: first_of_month_def)

lemma first_of_month_Suc: "1 \<le> m \<Longrightarrow> first_of_month y (Suc m) = first_of_month y m + month_length y m"
  by (simp add: first_of_month_def)

lemma first_of_month_13: "first_of_month y 13 = year_start (y + 1)"
  by (simp add: first_of_month_def year_start_Suc month_length_def upt_rec)

lemma first_of_month_mono:
  assumes "1 \<le> m" and "m \<le> n"
  shows "first_of_month y m \<le> first_of_month y n"
  using assms(2)
proof (induction n rule: dec_induct)
  case (step n)
  with assms(1) show ?case using month_length_pos [of y n] by (simp add: first_of_month_Suc)
qed simp

text \<open>A month ends where the next one begins, December where the next year begins.\<close>

lemma month_follows:
  assumes "1 \<le> m" and "m \<le> 12"
  shows "first_of_month y m + month_length y m = (if m = 12 then first_of_month (y + 1) 1 else first_of_month y (m + 1))"
  using assms first_of_month_Suc [of m y] first_of_month_13 [of y] by (auto simp: first_of_month_1)

lemma month_order:
  assumes "1 \<le> m" and "m \<le> 12" and "1 \<le> n" and "y < z \<or> y = z \<and> m < n"
  shows "first_of_month y m + month_length y m \<le> first_of_month z n"
proof (cases "y < z")
  case True
  have "first_of_month y m + month_length y m \<le> first_of_month y 13"
    using first_of_month_mono [of "Suc m" 13 y] assms by (simp add: first_of_month_Suc)
  also have "\<dots> \<le> year_start z" using True year_start_mono [of "y + 1" z] by (simp add: first_of_month_13)
  also have "\<dots> \<le> first_of_month z n" using first_of_month_mono [of 1 n z] assms by (simp add: first_of_month_1)
  finally show ?thesis .
next
  case False
  with assms first_of_month_mono [of "Suc m" n y] show ?thesis by (simp add: first_of_month_Suc)
qed

lemma in_month_unique:
  assumes "in_month d y m" and "in_month d z n"
  shows "y = z \<and> m = n"
proof (rule ccontr)
  assume "\<not> (y = z \<and> m = n)"
  then consider "y < z \<or> y = z \<and> m < n" | "z < y \<or> z = y \<and> n < m" by linarith
  then show False
    using assms month_order [of m n y z] month_order [of n m z y] by cases (auto simp: in_month_def)
qed

end
