(* ===== verification/Token_Period.thy ===== *)
theory Token_Period
  imports Share_Types Gregorian
begin

section \<open>Token periods\<close>

text \<open>
  Model of \<open>src/src/domain/sharing/token_period.rs\<close> and of the calendar helpers of
  \<open>shares.rs\<close>: the window of time a user's token limit applies to. The calendar is the
  \<open>chrono\<close> crate; what the code asks it is the record \<open>chrono\<close>, and \<open>utc_calendar\<close> states the
  documented behaviour the windows rely on: it is the Gregorian calendar of \<open>Gregorian\<close>.
\<close>

record chrono =
  ch_valid :: "int \<Rightarrow> bool"
  ch_now :: int
  ch_midnight :: "int \<Rightarrow> int"
  ch_midnight_before :: "int \<Rightarrow> nat \<Rightarrow> int"
  ch_weekday :: "int \<Rightarrow> Weekday"
  ch_year :: "int \<Rightarrow> int"
  ch_month :: "int \<Rightarrow> nat"
  ch_first_of :: "int \<Rightarrow> nat \<Rightarrow> int"

definition MINUTE_MS :: int where "MINUTE_MS = 60000"
definition DAY_MS :: int where "DAY_MS = 24 * 60 * MINUTE_MS"

lemma DAY_MS_val: "DAY_MS = 86400000"
  by (simp add: DAY_MS_def MINUTE_MS_def)

record TokenPeriodWindow =
  tw_starts_at_ms :: "int option"
  tw_ends_at_ms :: "int option"

fun requires_anchor :: "ShareTokenPeriod \<Rightarrow> bool" where
  "requires_anchor SevenDays = True"
| "requires_anchor ThirtyDays = True"
| "requires_anchor _ = False"

fun duration_ms :: "ShareTokenPeriod \<Rightarrow> int option" where
  "duration_ms SevenDays = Some (7 * DAY_MS)"
| "duration_ms ThirtyDays = Some (30 * DAY_MS)"
| "duration_ms _ = None"

definition validate_user_policy :: "ShareUserPolicy \<Rightarrow> int \<Rightarrow> unit res" where
  "validate_user_policy policy now_ms =
     rbind (case up_value_quota policy of
        None \<Rightarrow> Ok ()
      | Some quota \<Rightarrow>
          if up_token_limit policy \<noteq> None then Err ''tokenLimit and valueQuota are mutually exclusive''
          else (case limit_picos quota of Ok _ \<Rightarrow> Ok () | Err e \<Rightarrow> Err (value_error_str e))) (\<lambda>_.
     case (requires_anchor (up_token_period policy), up_token_period_anchor_at_ms policy) of
        (True, None) \<Rightarrow> Err ''tokenPeriodAnchorAtMs is required for fixed token periods''
      | (False, Some _) \<Rightarrow> Err ''tokenPeriodAnchorAtMs is only allowed for sevenDays or thirtyDays''
      | (True, Some anchor) \<Rightarrow>
          if anchor < 0 then Err ''tokenPeriodAnchorAtMs must be a non-negative UTC timestamp''
          else if trunc_rem anchor MINUTE_MS \<noteq> 0 then Err ''tokenPeriodAnchorAtMs must use minute precision''
          else if anchor > now_ms then Err ''tokenPeriodAnchorAtMs cannot be in the future''
          else Ok ()
      | (False, None) \<Rightarrow> Ok ())"

definition calendar_window :: "int \<Rightarrow> int \<Rightarrow> TokenPeriodWindow" where
  "calendar_window s e = \<lparr>tw_starts_at_ms = Some s, tw_ends_at_ms = Some e\<rparr>"

definition next_month :: "int \<Rightarrow> nat \<Rightarrow> int \<times> nat" where
  "next_month y m = (if m = 12 then (y + 1, 1) else (y, m + 1))"

text \<open>The match on \<open>now.weekday()\<close>, which occurs here and in \<open>utc_week_start_ms\<close>.\<close>

fun days_from_monday :: "Weekday \<Rightarrow> nat" where
  "days_from_monday Mon = 0"
| "days_from_monday Tue = 1"
| "days_from_monday Wed = 2"
| "days_from_monday Thu = 3"
| "days_from_monday Fri = 4"
| "days_from_monday Sat = 5"
| "days_from_monday Sun = 6"

text \<open>\<open>div_euclid\<close> by a positive number rounds down, as \<open>div\<close> does.\<close>

definition fixed_window :: "ShareTokenPeriod \<Rightarrow> int option \<Rightarrow> int \<Rightarrow> TokenPeriodWindow res" where
  "fixed_window period anchor_at_ms now_ms =
     rbind (ok_or anchor_at_ms ''tokenPeriodAnchorAtMs is required'') (\<lambda>anchor.
     rbind (ok_or (duration_ms period) ''fixed period has duration'') (\<lambda>duration.
     rbind (ok_or (checked_i128 ((now_ms - anchor) div duration * duration))
       ''fixed token period window multiplication overflow'') (\<lambda>offset.
     rbind (ok_or (checked_i128 (anchor + offset)) ''fixed token period window start overflow'') (\<lambda>start.
     rbind (ok_or (checked_i128 (start + duration)) ''fixed token period window end overflow'') (\<lambda>end_ms.
     rbind (ok_or (checked_i64 start) ''fixed token period window start is out of range'') (\<lambda>s.
     rbind (ok_or (checked_i64 end_ms) ''fixed token period window end is out of range'') (\<lambda>e.
     Ok (calendar_window s e))))))))"

definition token_period_window :: "chrono \<Rightarrow> ShareUserPolicy \<Rightarrow> int \<Rightarrow> TokenPeriodWindow res" where
  "token_period_window cal policy now_ms =
     (if \<not> ch_valid cal now_ms then Err ''current time is outside the supported UTC range''
      else case up_token_period policy of
        AccountReset \<Rightarrow> Err ''accountReset requires verified account quota context''
      | Lifetime \<Rightarrow> Ok \<lparr>tw_starts_at_ms = None, tw_ends_at_ms = None\<rparr>
      | Day \<Rightarrow> (let start = ch_midnight cal now_ms in Ok (calendar_window start (start + DAY_MS)))
      | Week \<Rightarrow> (let start = ch_midnight_before cal now_ms (days_from_monday (ch_weekday cal now_ms))
                 in Ok (calendar_window start (start + 7 * DAY_MS)))
      | CalendarMonth \<Rightarrow>
          (let start = ch_first_of cal (ch_year cal now_ms) (ch_month cal now_ms);
               (year, month) = next_month (ch_year cal now_ms) (ch_month cal now_ms)
           in Ok (calendar_window start (ch_first_of cal year month)))
      | period \<Rightarrow> fixed_window period (up_token_period_anchor_at_ms policy) now_ms)"

definition utc_datetime :: "chrono \<Rightarrow> int \<Rightarrow> int" where
  "utc_datetime cal now_ms = (if ch_valid cal now_ms then now_ms else ch_now cal)"

definition utc_day_start_ms :: "chrono \<Rightarrow> int \<Rightarrow> int" where
  "utc_day_start_ms cal now_ms = ch_midnight cal (utc_datetime cal now_ms)"

definition utc_week_start_ms :: "chrono \<Rightarrow> int \<Rightarrow> int" where
  "utc_week_start_ms cal now_ms =
     (let now = utc_datetime cal now_ms in ch_midnight_before cal now (days_from_monday (ch_weekday cal now)))"

definition utc_calendar_month_start_ms :: "chrono \<Rightarrow> int \<Rightarrow> int" where
  "utc_calendar_month_start_ms cal now_ms =
     (let now = utc_datetime cal now_ms in ch_first_of cal (ch_year cal now) (ch_month cal now))"

subsection \<open>What the calendar promises\<close>

text \<open>
  What \<open>chrono\<close> documents, over the Gregorian calendar: a day has 86400 seconds, the weekday of
  a day, the year and month a day lies in, and the day a month begins on. Every year has its
  months here; \<open>chrono\<close> has them for some 262000 years to either side, and the panic in the
  last December it represents is not modelled.
\<close>

definition utc_calendar :: "chrono \<Rightarrow> bool" where
  "utc_calendar cal \<longleftrightarrow>
     (\<forall>t. ch_valid cal t \<longrightarrow>
        ch_midnight cal t = t div DAY_MS * DAY_MS \<and>
        (\<forall>n. ch_midnight_before cal t n = ch_midnight cal t - int n * DAY_MS) \<and>
        ch_weekday cal t = weekday_of (t div DAY_MS) \<and>
        in_month (t div DAY_MS) (ch_year cal t) (ch_month cal t)) \<and>
     (\<forall>y m. 1 \<le> m \<longrightarrow> m \<le> 12 \<longrightarrow> ch_first_of cal y m = first_of_month y m * DAY_MS)"

lemma utc_calendar_at:
  assumes "utc_calendar cal" and "ch_valid cal t"
  shows utc_midnight: "ch_midnight cal t = t div DAY_MS * DAY_MS"
    and utc_midnight_before: "ch_midnight_before cal t n = ch_midnight cal t - int n * DAY_MS"
    and utc_weekday: "ch_weekday cal t = weekday_of (t div DAY_MS)"
    and utc_in_month: "in_month (t div DAY_MS) (ch_year cal t) (ch_month cal t)"
  using assms unfolding utc_calendar_def by blast+

lemma utc_first_of:
  "utc_calendar cal \<Longrightarrow> 1 \<le> m \<Longrightarrow> m \<le> 12 \<Longrightarrow> ch_first_of cal y m = first_of_month y m * DAY_MS"
  unfolding utc_calendar_def by blast

text \<open>The days since Monday, as the code reads them off the weekday.\<close>

lemma days_from_monday_eq: "int (days_from_monday (weekday_of d)) = (d + 3) mod 7"
proof -
  have "(d + 3) mod 7 = (d mod 7 + 3) mod 7" by (simp add: mod_simps)
  moreover from pos_mod_sign [of 7 d] pos_mod_bound [of 7 d]
  consider "d mod 7 = 0" | "d mod 7 = 1" | "d mod 7 = 2" | "d mod 7 = 3" | "d mod 7 = 4" | "d mod 7 = 5" | "d mod 7 = 6"
    by linarith
  then have "int (days_from_monday (weekday_of d)) = (d mod 7 + 3) mod 7"
    by cases (simp_all add: weekday_of_def)
  ultimately show ?thesis by simp
qed

lemma floor_window:
  fixes t u w :: int
  assumes "0 < w"
  shows "(t div w) * w \<le> t" "t < (t div w) * w + w"
    "(t div w) * w \<le> u \<Longrightarrow> u < (t div w) * w + w \<Longrightarrow> u div w = t div w"
proof -
  have t: "t = (t div w) * w + t mod w" by simp
  have m: "0 \<le> t mod w" "t mod w < w" using assms by simp_all
  from t m show "(t div w) * w \<le> t" "t < (t div w) * w + w" by linarith+
  assume u: "(t div w) * w \<le> u" "u < (t div w) * w + w"
  then have "0 \<le> u - (t div w) * w" "u - (t div w) * w < w" by linarith+
  then have "(u - (t div w) * w) div w = 0" by (rule div_pos_pos_trivial)
  moreover have "(u - (t div w) * w + (t div w) * w) div w = t div w + (u - (t div w) * w) div w"
    using assms by (intro div_mult_self1) simp
  ultimately show "u div w = t div w" by simp
qed

lemma week_start:
  assumes "utc_calendar cal" and "ch_valid cal t"
  shows "ch_midnight_before cal t (days_from_monday (ch_weekday cal t)) = (t + 3 * DAY_MS) div (7 * DAY_MS) * (7 * DAY_MS) - 3 * DAY_MS"
proof -
  let ?d = "t div DAY_MS"
  have "ch_midnight_before cal t (days_from_monday (ch_weekday cal t)) = ?d * DAY_MS - ((?d + 3) mod 7) * DAY_MS"
    by (simp add: utc_midnight_before [OF assms] utc_midnight [OF assms] utc_weekday [OF assms]
        days_from_monday_eq)
  moreover have "(t + 3 * DAY_MS) div (7 * DAY_MS) = (?d + 3) div 7"
    using zdiv_zmult2_eq [of 7 "t + 3 * DAY_MS" DAY_MS] by (simp add: DAY_MS_val mult.commute)
  moreover have "?d = (?d + 3) div 7 * 7 + (?d + 3) mod 7 - 3" by simp
  then have "?d * DAY_MS - ((?d + 3) mod 7) * DAY_MS = (?d + 3) div 7 * (7 * DAY_MS) - 3 * DAY_MS"
    unfolding DAY_MS_val by linarith
  ultimately show ?thesis by simp
qed

lemma duration_pos: "duration_ms p = Some d \<Longrightarrow> 0 < d"
  by (cases p) (auto simp: DAY_MS_val)

lemma fixed_window_Ok:
  assumes "fixed_window p anchor now = Ok w"
  obtains a d where "anchor = Some a" "duration_ms p = Some d" "0 < d"
    "w = calendar_window (a + (now - a) div d * d) (a + (now - a) div d * d + d)"
    "\<And>t. (t - a) div d = (now - a) div d \<Longrightarrow> fixed_window p anchor t = Ok w"
  using assms duration_pos by (auto simp: fixed_window_def result_iff)

text \<open>
  Every calendar window is given by a start function that is constant on the window it
  starts; this is the contract the usage buckets rely on.
\<close>

definition window_start :: "chrono \<Rightarrow> (int \<Rightarrow> int) \<Rightarrow> (int \<Rightarrow> int) \<Rightarrow> bool" where
  "window_start cal start stop \<longleftrightarrow> (\<forall>t. ch_valid cal t \<longrightarrow> start t \<le> t \<and> t < stop t \<and>
     (\<forall>u. ch_valid cal u \<longrightarrow> start t \<le> u \<longrightarrow> u < stop t \<longrightarrow> start u = start t \<and> stop u = stop t))"

lemma day_window:
  assumes "utc_calendar cal"
  shows "window_start cal (ch_midnight cal) (\<lambda>t. ch_midnight cal t + DAY_MS)"
proof -
  have "0 < DAY_MS" by (simp add: DAY_MS_val)
  note w = floor_window [OF this]
  show ?thesis
    unfolding window_start_def
  proof (intro allI impI conjI)
    fix t u assume t: "ch_valid cal t"
    then show "ch_midnight cal t \<le> t" "t < ch_midnight cal t + DAY_MS"
      using w(1,2) [of t] by (simp_all add: utc_midnight [OF assms])
    assume u: "ch_valid cal u" "ch_midnight cal t \<le> u" "u < ch_midnight cal t + DAY_MS"
    with t have "u div DAY_MS = t div DAY_MS" by (intro w(3)) (simp_all add: utc_midnight [OF assms])
    with t u(1) show "ch_midnight cal u = ch_midnight cal t" "ch_midnight cal u + DAY_MS = ch_midnight cal t + DAY_MS"
      by (simp_all add: utc_midnight [OF assms])
  qed
qed

lemma week_window:
  assumes "utc_calendar cal"
  shows "window_start cal (\<lambda>t. ch_midnight_before cal t (days_from_monday (ch_weekday cal t)))
    (\<lambda>t. ch_midnight_before cal t (days_from_monday (ch_weekday cal t)) + 7 * DAY_MS)"
proof -
  let ?s = "\<lambda>t. (t + 3 * DAY_MS) div (7 * DAY_MS) * (7 * DAY_MS) - 3 * DAY_MS"
  have "0 < 7 * DAY_MS" by (simp add: DAY_MS_val)
  note w = floor_window [OF this]
  have in_week: "?s t \<le> t" "t < ?s t + 7 * DAY_MS" for t
    using w(1,2) [of "t + 3 * DAY_MS"] by linarith+
  have same: "?s u = ?s t" if "?s t \<le> u" "u < ?s t + 7 * DAY_MS" for t u
  proof -
    have "(u + 3 * DAY_MS) div (7 * DAY_MS) = (t + 3 * DAY_MS) div (7 * DAY_MS)"
      using that by (intro w(3)) linarith+
    then show ?thesis by simp
  qed
  show ?thesis
    unfolding window_start_def
  proof (intro allI impI conjI)
    fix t u assume t: "ch_valid cal t"
    let ?b = "\<lambda>t. ch_midnight_before cal t (days_from_monday (ch_weekday cal t))"
    have st: "?b t = ?s t" by (rule week_start [OF assms t])
    show "?b t \<le> t" "t < ?b t + 7 * DAY_MS" unfolding st by (rule in_week)+
    assume u: "ch_valid cal u" "?b t \<le> u" "u < ?b t + 7 * DAY_MS"
    have "?b u = ?s u" by (rule week_start [OF assms u(1)])
    also have "\<dots> = ?s t" by (rule same) (use u(2,3) in \<open>simp_all only: st\<close>)
    finally show "?b u = ?b t" "?b u + 7 * DAY_MS = ?b t + 7 * DAY_MS" by (simp_all only: st)
  qed
qed

definition month_end :: "chrono \<Rightarrow> int \<Rightarrow> int" where
  "month_end cal t = (case next_month (ch_year cal t) (ch_month cal t) of (y, m) \<Rightarrow> ch_first_of cal y m)"

text \<open>What the code takes for the next month begins where the month of the instant ends.\<close>

lemma month_end_eq:
  assumes "utc_calendar cal" and "ch_valid cal t"
  shows "ch_first_of cal (ch_year cal t) (ch_month cal t) = first_of_month (ch_year cal t) (ch_month cal t) * DAY_MS"
    and "month_end cal t = (first_of_month (ch_year cal t) (ch_month cal t) +
      month_length (ch_year cal t) (ch_month cal t)) * DAY_MS"
proof -
  have m: "1 \<le> ch_month cal t" "ch_month cal t \<le> 12"
    using utc_in_month [OF assms] by (simp_all add: in_month_def)
  then show "ch_first_of cal (ch_year cal t) (ch_month cal t) = first_of_month (ch_year cal t) (ch_month cal t) * DAY_MS"
    by (rule utc_first_of [OF assms(1)])
  show "month_end cal t = (first_of_month (ch_year cal t) (ch_month cal t) +
      month_length (ch_year cal t) (ch_month cal t)) * DAY_MS"
    using m utc_first_of [OF assms(1)] by (simp add: month_end_def next_month_def month_follows [OF m])
qed

lemma le_div_iff:
  fixes k t w :: int
  assumes "0 < w"
  shows "k * w \<le> t \<longleftrightarrow> k \<le> t div w"
proof
  assume "k * w \<le> t"
  then have "k * w div w \<le> t div w" by (intro zdiv_mono1 assms)
  then show "k \<le> t div w" using assms by simp
next
  assume "k \<le> t div w"
  then have "k * w \<le> t div w * w" using assms by simp
  with floor_window(1) [OF assms, of t] show "k * w \<le> t" by linarith
qed

lemma month_window:
  assumes "utc_calendar cal"
  shows "window_start cal (\<lambda>t. ch_first_of cal (ch_year cal t) (ch_month cal t)) (month_end cal)"
  unfolding window_start_def
proof (intro allI impI conjI)
  fix t u assume t: "ch_valid cal t"
  note eq = month_end_eq [OF assms]
  have pos: "0 < DAY_MS" by (simp add: DAY_MS_val)
  have within: "ch_first_of cal (ch_year cal t) (ch_month cal t) \<le> x \<and> x < month_end cal t \<longleftrightarrow>
      in_month (x div DAY_MS) (ch_year cal t) (ch_month cal t)" for x
    using utc_in_month [OF assms t]
    by (simp add: eq [OF t] in_month_def le_div_iff [OF pos] not_le [symmetric] del: not_le)
  from within [of t] utc_in_month [OF assms t]
  show "ch_first_of cal (ch_year cal t) (ch_month cal t) \<le> t" "t < month_end cal t" by simp_all
  assume u: "ch_valid cal u" "ch_first_of cal (ch_year cal t) (ch_month cal t) \<le> u" "u < month_end cal t"
  with within [of u] in_month_unique [OF utc_in_month [OF assms u(1)]]
  have "ch_year cal u = ch_year cal t" "ch_month cal u = ch_month cal t" by blast+
  then show "ch_first_of cal (ch_year cal u) (ch_month cal u) = ch_first_of cal (ch_year cal t) (ch_month cal t)"
    "month_end cal u = month_end cal t" by (simp_all add: month_end_def)
qed

text \<open>
  Where the windows of a period begin and end: at midnight, at midnight of a Monday, at the
  first and the last midnight of a month, at a whole number of periods from the anchor.
\<close>

definition period_bounds :: "ShareUserPolicy \<Rightarrow> int \<Rightarrow> int \<Rightarrow> bool" where
  "period_bounds p s e \<longleftrightarrow> (case up_token_period p of
     Day \<Rightarrow> \<exists>d. s = d * DAY_MS \<and> e = (d + 1) * DAY_MS
   | Week \<Rightarrow> \<exists>d. weekday_of d = Mon \<and> s = d * DAY_MS \<and> e = (d + 7) * DAY_MS
   | CalendarMonth \<Rightarrow> \<exists>y m. 1 \<le> m \<and> m \<le> 12 \<and> s = first_of_month y m * DAY_MS \<and>
       e = (first_of_month y m + month_length y m) * DAY_MS
   | SevenDays \<Rightarrow> \<exists>a k. up_token_period_anchor_at_ms p = Some a \<and> s = a + k * (7 * DAY_MS) \<and> e = s + 7 * DAY_MS
   | ThirtyDays \<Rightarrow> \<exists>a k. up_token_period_anchor_at_ms p = Some a \<and> s = a + k * (30 * DAY_MS) \<and> e = s + 30 * DAY_MS
   | _ \<Rightarrow> False)"

lemma weekday_of_Monday: "weekday_of (d - (d + 3) mod 7) = Mon"
proof -
  have "(d - (d + 3) mod 7) mod 7 = 4"
  proof -
    have "(d - (d + 3) mod 7) mod 7 = (d - (d + 3)) mod 7" by (rule mod_diff_right_eq)
    also have "\<dots> = 4" by simp
    finally show ?thesis .
  qed
  then show ?thesis by (simp add: weekday_of_def)
qed

lemma fixed_window_instants:
  assumes "fixed_window p anchor now = Ok w"
  shows "\<exists>s e. w = calendar_window s e \<and> s \<le> now \<and> now < e \<and>
    (\<exists>a d k. anchor = Some a \<and> duration_ms p = Some d \<and> s = a + k * d \<and> e = s + d) \<and>
    (\<forall>u. s \<le> u \<longrightarrow> u < e \<longrightarrow> fixed_window p anchor u = Ok w)"
  using assms
proof (rule fixed_window_Ok)
  fix a d assume ad: "anchor = Some a" "duration_ms p = Some d" and d: "0 < d"
    and w: "w = calendar_window (a + (now - a) div d * d) (a + (now - a) div d * d + d)"
    and same: "\<And>t. (t - a) div d = (now - a) div d \<Longrightarrow> fixed_window p anchor t = Ok w"
  note f = floor_window [OF d]
  have "a + (now - a) div d * d \<le> now" "now < a + (now - a) div d * d + d"
    using f(1,2) [of "now - a"] by linarith+
  moreover have "fixed_window p anchor u = Ok w"
    if "a + (now - a) div d * d \<le> u" "u < a + (now - a) div d * d + d" for u
  proof (rule same, rule f(3))
    show "(now - a) div d * d \<le> u - a" "u - a < (now - a) div d * d + d" using that by linarith+
  qed
  ultimately show ?thesis using w ad by blast
qed

text \<open>The real calendar of the year 1970, for the witnesses.\<close>

definition month_of_day :: "int \<Rightarrow> nat" where
  "month_of_day d = (if d < 31 then 1 else if d < 59 then 2 else if d < 90 then 3 else if d < 120 then 4
     else if d < 151 then 5 else if d < 181 then 6 else if d < 212 then 7 else if d < 243 then 8
     else if d < 273 then 9 else if d < 304 then 10 else if d < 334 then 11 else 12)"

definition year_1970 :: chrono where
  "year_1970 = \<lparr>ch_valid = (\<lambda>t. 0 \<le> t \<and> t < 365 * DAY_MS), ch_now = 0,
     ch_midnight = (\<lambda>t. t div DAY_MS * DAY_MS),
     ch_midnight_before = (\<lambda>t n. t div DAY_MS * DAY_MS - int n * DAY_MS),
     ch_weekday = (\<lambda>t. weekday_of (t div DAY_MS)),
     ch_year = (\<lambda>t. 1970), ch_month = (\<lambda>t. month_of_day (t div DAY_MS)),
     ch_first_of = (\<lambda>y m. first_of_month y m * DAY_MS)\<rparr>"

lemma first_of_1970 [simp]:
  "first_of_month 1970 (Suc 0) = 0" "first_of_month 1970 2 = 31" "first_of_month 1970 3 = 59"
  "first_of_month 1970 4 = 90" "first_of_month 1970 5 = 120" "first_of_month 1970 6 = 151"
  "first_of_month 1970 7 = 181" "first_of_month 1970 8 = 212" "first_of_month 1970 9 = 243"
  "first_of_month 1970 10 = 273" "first_of_month 1970 11 = 304" "first_of_month 1970 12 = 334"
  by code_simp+

lemma month_of_day_1970:
  assumes "0 \<le> d" and "d < 365"
  shows "in_month d 1970 (month_of_day d)"
  using assms by (simp add: in_month_def month_of_day_def month_length_def leap_year_def)

lemma year_1970_calendar: "utc_calendar year_1970"
proof -
  have "in_month (t div DAY_MS) 1970 (month_of_day (t div DAY_MS))" if "0 \<le> t" "t < 365 * DAY_MS" for t
    using that le_div_iff [of DAY_MS 0 t] le_div_iff [of DAY_MS 365 t]
    by (intro month_of_day_1970) (auto simp: DAY_MS_val)
  then show ?thesis by (simp add: utc_calendar_def year_1970_def)
qed

subsection \<open>Properties\<close>

lemma week_bounds:
  assumes "utc_calendar cal" and "ch_valid cal t"
  shows "\<exists>d. weekday_of d = Mon \<and> ch_midnight_before cal t (days_from_monday (ch_weekday cal t)) = d * DAY_MS"
  using weekday_of_Monday [of "t div DAY_MS"]
  by (intro exI [of _ "t div DAY_MS - (t div DAY_MS + 3) mod 7"])
    (simp add: utc_midnight_before [OF assms] utc_midnight [OF assms] utc_weekday [OF assms] days_from_monday_eq
      left_diff_distrib)

lemma calendar_period_bounds:
  assumes "utc_calendar cal" and "ch_valid cal t"
  shows "up_token_period p = Day \<Longrightarrow> period_bounds p (ch_midnight cal t) (ch_midnight cal t + DAY_MS)"
    and "up_token_period p = Week \<Longrightarrow> period_bounds p (ch_midnight_before cal t (days_from_monday (ch_weekday cal t)))
      (ch_midnight_before cal t (days_from_monday (ch_weekday cal t)) + 7 * DAY_MS)"
    and "up_token_period p = CalendarMonth \<Longrightarrow>
      period_bounds p (ch_first_of cal (ch_year cal t) (ch_month cal t)) (month_end cal t)"
proof -
  show "up_token_period p = Day \<Longrightarrow> period_bounds p (ch_midnight cal t) (ch_midnight cal t + DAY_MS)"
    by (simp add: period_bounds_def utc_midnight [OF assms] distrib_right)
  from week_bounds [OF assms]
  show "up_token_period p = Week \<Longrightarrow> period_bounds p (ch_midnight_before cal t (days_from_monday (ch_weekday cal t)))
      (ch_midnight_before cal t (days_from_monday (ch_weekday cal t)) + 7 * DAY_MS)"
    by (auto simp: period_bounds_def distrib_right)
  from utc_in_month [OF assms] month_end_eq [OF assms]
  show "up_token_period p = CalendarMonth \<Longrightarrow>
      period_bounds p (ch_first_of cal (ch_year cal t) (ch_month cal t)) (month_end cal t)"
    by (auto simp: period_bounds_def in_month_def)
qed

lemma window_partition:
  assumes cal: "utc_calendar cal" and w: "token_period_window cal p now = Ok w"
    and "up_token_period p \<noteq> Lifetime"
  shows "\<exists>s e. w = calendar_window s e \<and> s \<le> now \<and> now < e \<and> period_bounds p s e \<and>
    (\<forall>u. ch_valid cal u \<longrightarrow> s \<le> u \<longrightarrow> u < e \<longrightarrow> token_period_window cal p u = Ok w)"
proof -
  have valid: "ch_valid cal now" using w by (simp add: token_period_window_def split: if_splits)
  note bounds = calendar_period_bounds [OF cal valid]
  have by_start: ?thesis if ws: "window_start cal start stop" and "period_bounds p (start now) (stop now)"
    and def: "\<And>u. ch_valid cal u \<Longrightarrow> token_period_window cal p u = Ok (calendar_window (start u) (stop u))" for start stop
  proof -
    from w def [OF valid] have "w = calendar_window (start now) (stop now)" by simp
    with ws [unfolded window_start_def, rule_format, OF valid] that(2) def show ?thesis
      by (intro exI [of _ "start now"] exI [of _ "stop now"]) auto
  qed
  have by_anchor: ?thesis if "up_token_period p = q" "q = SevenDays \<or> q = ThirtyDays" for q
  proof -
    from that have fixed: "token_period_window cal p u = fixed_window q (up_token_period_anchor_at_ms p) u"
      if "ch_valid cal u" for u
      using that by (auto simp: token_period_window_def)
    from fixed_window_instants [of q "up_token_period_anchor_at_ms p" now w] w fixed [OF valid]
    obtain s e a d k where sed: "w = calendar_window s e" "s \<le> now" "now < e" "up_token_period_anchor_at_ms p = Some a"
      "duration_ms q = Some d" "s = a + k * d" "e = s + d"
      and all: "\<forall>u. s \<le> u \<longrightarrow> u < e \<longrightarrow> fixed_window q (up_token_period_anchor_at_ms p) u = Ok w"
      by auto
    have "period_bounds p s e" using that sed(4-7) by (auto simp: period_bounds_def)
    with sed(1-3) all fixed show ?thesis by (intro exI [of _ s] exI [of _ e]) simp
  qed
  show ?thesis
  proof (cases "up_token_period p")
    case Day
    from by_start [OF day_window [OF cal] bounds(1) [OF Day]] Day show ?thesis
      by (simp add: token_period_window_def Let_def)
  next
    case Week
    from by_start [OF week_window [OF cal] bounds(2) [OF Week]] Week show ?thesis
      by (simp add: token_period_window_def Let_def)
  next
    case CalendarMonth
    then have "token_period_window cal p u = Ok (calendar_window (ch_first_of cal (ch_year cal u) (ch_month cal u))
        (month_end cal u))" if "ch_valid cal u" for u
      using that by (simp add: token_period_window_def Let_def month_end_def split: prod.split)
    with month_window [OF cal] bounds(3) [OF CalendarMonth] show ?thesis by (rule by_start)
  next
    case SevenDays
    then show ?thesis by (rule by_anchor) simp
  next
    case ThirtyDays
    then show ?thesis by (rule by_anchor) simp
  qed (use assms in \<open>simp_all add: token_period_window_def split: if_splits\<close>)
qed

text \<open>
  C27. Quota windows partition time: the window of an instant contains it, and every other
  instant of that window has the same window, for calendar periods as for fixed ones counted
  from an anchor, before and after it. The windows are the days, the weeks from Monday and the
  months of the Gregorian calendar, which is what is assumed of \<open>chrono\<close>, and the multiples of
  seven or thirty days from the anchor.
\<close>

theorem token_windows_partition:
  assumes cal: "utc_calendar cal" and w: "token_period_window cal p now = Ok w"
    and "up_token_period p \<noteq> Lifetime"
  shows "\<exists>s e. w = calendar_window s e \<and> s \<le> now \<and> now < e \<and> period_bounds p s e \<and>
    (\<forall>u. ch_valid cal u \<longrightarrow> s \<le> u \<longrightarrow> u < e \<longrightarrow> token_period_window cal p u = Ok w)"
  using assms by (rule window_partition)

definition demo_policy :: "ShareTokenPeriod \<Rightarrow> int option \<Rightarrow> ShareUserPolicy" where
  "demo_policy period anchor = \<lparr>up_parallel_limit = None, up_token_limit = Some 100, up_value_quota = None,
     up_token_period = period, up_token_period_anchor_at_ms = anchor, up_expires_at = None, up_allowed_apps = []\<rparr>"

theorem token_windows_partition_witness:
  "token_period_window year_1970 (demo_policy CalendarMonth None) (40 * DAY_MS) =
     Ok (calendar_window (31 * DAY_MS) (59 * DAY_MS)) \<and>
   token_period_window year_1970 (demo_policy CalendarMonth None) (58 * DAY_MS) =
     Ok (calendar_window (31 * DAY_MS) (59 * DAY_MS))"
proof -
  have feb: "token_period_window year_1970 (demo_policy CalendarMonth None) (40 * DAY_MS) =
      Ok (calendar_window (31 * DAY_MS) (59 * DAY_MS))"
    by (simp add: token_period_window_def demo_policy_def year_1970_def next_month_def month_of_day_def
        DAY_MS_val)
  from token_windows_partition [OF year_1970_calendar feb] have
    "\<forall>u. ch_valid year_1970 u \<longrightarrow> 31 * DAY_MS \<le> u \<longrightarrow> u < 59 * DAY_MS \<longrightarrow>
       token_period_window year_1970 (demo_policy CalendarMonth None) u = Ok (calendar_window (31 * DAY_MS) (59 * DAY_MS))"
    by (auto simp: calendar_window_def demo_policy_def)
  from this [rule_format, of "58 * DAY_MS"] feb show ?thesis by (simp add: year_1970_def DAY_MS_val)
qed

end
