(* ===== verification/Share_Usage.thy ===== *)
theory Share_Usage
  imports Token_Period Usage_Rollup
begin

section \<open>Usage buckets of a grant\<close>

text \<open>
  Model of the usage side of \<open>src/src/domain/sharing/shares.rs\<close>: the buckets a grant carries
  for its lifetime and for the current day, week, month or anchored window, how requests are
  recorded in them, and what a limit is compared with.
\<close>

subsection \<open>Buckets\<close>

definition current_bucket_tokens :: "ShareUserUsageBucket \<Rightarrow> int \<Rightarrow> nat" where
  "current_bucket_tokens b expected_start_ms =
     (if ub_started_at_ms b = expected_start_ms then ub_tokens_used b else 0)"

definition record_bucket :: "int \<Rightarrow> nat \<Rightarrow> bool \<Rightarrow> ShareUserUsageBucket \<Rightarrow> ShareUserUsageBucket" where
  "record_bucket start_ms tokens count_request bucket =
     (let b = (if ub_started_at_ms bucket \<noteq> start_ms then default_bucket\<lparr>ub_started_at_ms := start_ms\<rparr> else bucket)
      in b\<lparr>ub_tokens_used := saturating_add_u64 (ub_tokens_used b) tokens,
           ub_requests_count := (if count_request then saturating_add_u64 (ub_requests_count b) 1
                                 else ub_requests_count b)\<rparr>)"

definition tokens_for :: "chrono \<Rightarrow> ShareUserUsage \<Rightarrow> ShareTokenPeriod \<Rightarrow> int \<Rightarrow> nat" where
  "tokens_for cal u period now_ms = (case period of
     Lifetime \<Rightarrow> ub_tokens_used (uu_lifetime u)
   | Day \<Rightarrow> current_bucket_tokens (uu_day u) (utc_day_start_ms cal now_ms)
   | Week \<Rightarrow> current_bucket_tokens (uu_week u) (utc_week_start_ms cal now_ms)
   | CalendarMonth \<Rightarrow> current_bucket_tokens (uu_calendar_month u) (utc_calendar_month_start_ms cal now_ms)
   | _ \<Rightarrow> 0)"

definition anchored_tokens :: "ShareUserUsage \<Rightarrow> ShareTokenPeriod \<Rightarrow> int \<Rightarrow> int \<Rightarrow> nat" where
  "anchored_tokens u period anchor start = (case uu_anchored u of
     Some b \<Rightarrow> if nb_period b = period \<and> nb_anchor_at_ms b = anchor \<and> nb_started_at_ms b = start
               then nb_tokens_used b else 0
   | None \<Rightarrow> 0)"

definition tokens_for_policy :: "chrono \<Rightarrow> ShareUserUsage \<Rightarrow> ShareUserPolicy \<Rightarrow> int \<Rightarrow> nat" where
  "tokens_for_policy cal u policy now_ms =
     (if \<not> requires_anchor (up_token_period policy) then tokens_for cal u (up_token_period policy) now_ms
      else case token_period_window cal policy now_ms of
        Err _ \<Rightarrow> 0
      | Ok window \<Rightarrow> (case (up_token_period_anchor_at_ms policy, tw_starts_at_ms window) of
          (Some anchor, Some start) \<Rightarrow> anchored_tokens u (up_token_period policy) anchor start
        | _ \<Rightarrow> 0))"

definition fixed_bucket :: "int \<Rightarrow> nat \<Rightarrow> nat \<Rightarrow> ShareUserUsageBucket" where
  "fixed_bucket start tokens requests =
     \<lparr>ub_started_at_ms = start, ub_tokens_used = tokens, ub_requests_count = requests\<rparr>"

definition fixed_anchored :: "ShareTokenPeriod \<Rightarrow> int \<Rightarrow> int \<Rightarrow> nat \<Rightarrow> nat \<Rightarrow> ShareAnchoredUsageBucket" where
  "fixed_anchored period anchor start tokens requests =
     \<lparr>nb_period = period, nb_anchor_at_ms = anchor, nb_started_at_ms = start, nb_tokens_used = tokens,
      nb_requests_count = requests\<rparr>"

definition rebuild_current_policy_bucket ::
  "chrono \<Rightarrow> ShareUserUsage \<Rightarrow> ShareUserPolicy \<Rightarrow> int \<Rightarrow> nat \<Rightarrow> nat \<Rightarrow> ShareUserUsage res" where
  "rebuild_current_policy_bucket cal u policy now_ms tokens requests = (case up_token_period policy of
     AccountReset \<Rightarrow> Ok (u\<lparr>uu_anchored := None\<rparr>)
   | Lifetime \<Rightarrow> Ok (u\<lparr>uu_lifetime := fixed_bucket 0 tokens requests, uu_anchored := None\<rparr>)
   | Day \<Rightarrow> Ok (u\<lparr>uu_day := fixed_bucket (utc_day_start_ms cal now_ms) tokens requests, uu_anchored := None\<rparr>)
   | Week \<Rightarrow> Ok (u\<lparr>uu_week := fixed_bucket (utc_week_start_ms cal now_ms) tokens requests, uu_anchored := None\<rparr>)
   | CalendarMonth \<Rightarrow> Ok (u\<lparr>uu_calendar_month :=
       fixed_bucket (utc_calendar_month_start_ms cal now_ms) tokens requests, uu_anchored := None\<rparr>)
   | period \<Rightarrow>
       rbind (token_period_window cal policy now_ms) (\<lambda>window.
       rbind (ok_or (up_token_period_anchor_at_ms policy) ''fixed token period has no anchor'') (\<lambda>anchor.
       rbind (ok_or (tw_starts_at_ms window) ''fixed token period has no start'') (\<lambda>start.
       Ok (u\<lparr>uu_anchored := Some (fixed_anchored period anchor start tokens requests)\<rparr>)))))"

definition record_inner :: "chrono \<Rightarrow> nat \<Rightarrow> int \<Rightarrow> bool \<Rightarrow> ShareUserUsage \<Rightarrow> ShareUserUsage" where
  "record_inner cal tokens now_ms count_request u =
     u\<lparr>uu_lifetime := record_bucket 0 tokens count_request (uu_lifetime u),
       uu_day := record_bucket (utc_day_start_ms cal now_ms) tokens count_request (uu_day u),
       uu_week := record_bucket (utc_week_start_ms cal now_ms) tokens count_request (uu_week u),
       uu_calendar_month :=
         record_bucket (utc_calendar_month_start_ms cal now_ms) tokens count_request (uu_calendar_month u)\<rparr>"

definition anchored_add :: "nat \<Rightarrow> bool \<Rightarrow> ShareAnchoredUsageBucket \<Rightarrow> ShareAnchoredUsageBucket" where
  "anchored_add tokens count_request b =
     b\<lparr>nb_tokens_used := saturating_add_u64 (nb_tokens_used b) tokens,
       nb_requests_count := saturating_add_u64 (nb_requests_count b) (if count_request then 1 else 0)\<rparr>"

definition record_for_policy_inner ::
  "chrono \<Rightarrow> ShareUserPolicy \<Rightarrow> nat \<Rightarrow> int \<Rightarrow> bool \<Rightarrow> ShareUserUsage \<Rightarrow> ShareUserUsage" where
  "record_for_policy_inner cal policy tokens now_ms count_request usage =
     (let u = record_inner cal tokens now_ms count_request usage; period = up_token_period policy in
      if \<not> requires_anchor period then u
      else case token_period_window cal policy now_ms of
        Err _ \<Rightarrow> u
      | Ok window \<Rightarrow> (case (up_token_period_anchor_at_ms policy, tw_starts_at_ms window) of
          (Some anchor, Some start) \<Rightarrow>
            (let fresh = fixed_anchored period anchor start 0 0;
                 b = (case uu_anchored u of
                        None \<Rightarrow> fresh
                      | Some b \<Rightarrow> if nb_period b \<noteq> period \<or> nb_anchor_at_ms b \<noteq> anchor \<or> nb_started_at_ms b \<noteq> start
                                  then fresh else b)
             in u\<lparr>uu_anchored := Some (b\<lparr>nb_tokens_used := saturating_add_u64 (nb_tokens_used b) tokens,
                    nb_requests_count := (if count_request then saturating_add_u64 (nb_requests_count b) 1
                                          else nb_requests_count b)\<rparr>)\<rparr>)
        | _ \<Rightarrow> u))"

definition record_for_policy :: "chrono \<Rightarrow> ShareUserPolicy \<Rightarrow> nat \<Rightarrow> int \<Rightarrow> ShareUserUsage \<Rightarrow> ShareUserUsage" where
  "record_for_policy cal policy tokens now_ms u = record_for_policy_inner cal policy tokens now_ms True u"

definition record_supplemental_for_policy ::
  "chrono \<Rightarrow> ShareUserPolicy \<Rightarrow> nat \<Rightarrow> int \<Rightarrow> ShareUserUsage \<Rightarrow> ShareUserUsage" where
  "record_supplemental_for_policy cal policy tokens now_ms u = record_for_policy_inner cal policy tokens now_ms False u"

definition record_if_current :: "int \<Rightarrow> nat \<Rightarrow> bool \<Rightarrow> ShareUserUsageBucket \<Rightarrow> ShareUserUsageBucket" where
  "record_if_current start tokens counted b =
     (if start \<ge> ub_started_at_ms b then record_bucket start tokens counted b else b)"

definition market_anchored ::
  "ShareTokenPeriod \<Rightarrow> int \<Rightarrow> int \<Rightarrow> nat \<Rightarrow> bool \<Rightarrow> ShareAnchoredUsageBucket option \<Rightarrow> ShareAnchoredUsageBucket" where
  "market_anchored period anchor start tokens counted ob =
     (let fresh = fixed_anchored period anchor start 0 0;
          b = (case ob of None \<Rightarrow> fresh | Some b \<Rightarrow> b);
          b = (if nb_period b \<noteq> period \<or> nb_anchor_at_ms b \<noteq> anchor \<or> start > nb_started_at_ms b then fresh else b)
      in if nb_started_at_ms b = start then anchored_add tokens counted b else b)"

definition record_market_delta ::
  "chrono \<Rightarrow> ShareUserPolicy \<Rightarrow> nat \<Rightarrow> int \<Rightarrow> bool \<Rightarrow> ShareUserUsage \<Rightarrow> ShareUserUsage" where
  "record_market_delta cal policy tokens at_ms counted usage =
     (let u = usage\<lparr>uu_lifetime := record_bucket 0 tokens counted (uu_lifetime usage),
            uu_day := record_if_current (utc_day_start_ms cal at_ms) tokens counted (uu_day usage),
            uu_week := record_if_current (utc_week_start_ms cal at_ms) tokens counted (uu_week usage),
            uu_calendar_month :=
              record_if_current (utc_calendar_month_start_ms cal at_ms) tokens counted (uu_calendar_month usage)\<rparr>
      in if \<not> requires_anchor (up_token_period policy) then u
         else case token_period_window cal policy at_ms of
           Err _ \<Rightarrow> u
         | Ok window \<Rightarrow> (case (up_token_period_anchor_at_ms policy, tw_starts_at_ms window) of
             (Some anchor, Some start) \<Rightarrow>
               u\<lparr>uu_anchored := Some (market_anchored (up_token_period policy) anchor start tokens counted (uu_anchored u))\<rparr>
           | _ \<Rightarrow> u))"

definition rebuild_anchored ::
  "chrono \<Rightarrow> ShareUserUsage \<Rightarrow> ShareUserPolicy \<Rightarrow> int \<Rightarrow> nat \<Rightarrow> nat \<Rightarrow> ShareUserUsage res" where
  "rebuild_anchored cal u policy now_ms tokens requests =
     (if \<not> requires_anchor (up_token_period policy) then Ok (u\<lparr>uu_anchored := None\<rparr>)
      else rbind (token_period_window cal policy now_ms) (\<lambda>window.
           rbind (ok_or (up_token_period_anchor_at_ms policy) ''tokenPeriodAnchorAtMs is required'') (\<lambda>anchor.
           rbind (ok_or (tw_starts_at_ms window) ''fixed token period has no start'') (\<lambda>start.
           Ok (u\<lparr>uu_anchored := Some (fixed_anchored (up_token_period policy) anchor start tokens requests)\<rparr>)))))"

subsection \<open>What a limit is compared with\<close>

record ShareUserQuotaWindow =
  qw_period :: ShareTokenPeriod
  qw_anchor_at_ms :: "int option"
  qw_starts_at_ms :: "int option"
  qw_ends_at_ms :: "int option"

record ShareUserQuotaSnapshot =
  qn_window :: ShareUserQuotaWindow
  qn_observed_tokens :: nat
  qn_observed_requests :: nat
  qn_baseline_observed_tokens :: "nat option"
  qn_usage_watermark :: nat

definition quota_window_for_policy :: "chrono \<Rightarrow> ShareUserPolicy \<Rightarrow> int \<Rightarrow> ShareUserQuotaWindow res" where
  "quota_window_for_policy cal policy now_ms =
     (if up_token_period policy = Lifetime
      then Ok \<lparr>qw_period = Lifetime, qw_anchor_at_ms = None, qw_starts_at_ms = None, qw_ends_at_ms = None\<rparr>
      else rbind (token_period_window cal policy now_ms) (\<lambda>window.
        Ok \<lparr>qw_period = up_token_period policy, qw_anchor_at_ms = up_token_period_anchor_at_ms policy,
            qw_starts_at_ms = tw_starts_at_ms window, qw_ends_at_ms = tw_ends_at_ms window\<rparr>))"

definition observe_account_quota ::
  "json_encoder \<Rightarrow> UsageStore \<Rightarrow> string \<Rightarrow> string \<Rightarrow> ShareUserGrant \<Rightarrow> ShareUserQuotaSnapshot res" where
  "observe_account_quota json usage share_id email grant =
     rbind (ok_or (ug_account_quota_cycle grant) ''ACCOUNT_RESET_NOT_READY'') (\<lambda>cycle.
     rbind (query_usage json (st_quota_ledger usage) cycle share_id email (us_watermark (st_quota_ledger usage))) (\<lambda>observed.
     rbind (case ug_account_usage_baseline grant of
        None \<Rightarrow> Ok None
      | Some baseline \<Rightarrow>
          if ba_source_ref baseline = cy_source_ref cycle \<and> ba_cycle_id baseline = cy_cycle_id cycle
          then rbind (query_usage json (st_quota_ledger usage) cycle share_id email (ba_usage_watermark baseline))
                 (\<lambda>x. Ok (Some (fst x)))
          else Ok None) (\<lambda>baseline_tokens.
     Ok \<lparr>qn_window = \<lparr>qw_period = AccountReset, qw_anchor_at_ms = None,
           qw_starts_at_ms = Some (cy_starts_at_ms cycle), qw_ends_at_ms = cy_ends_at_ms cycle\<rparr>,
         qn_observed_tokens = fst observed, qn_observed_requests = snd observed,
         qn_baseline_observed_tokens = baseline_tokens,
         qn_usage_watermark = us_watermark (st_quota_ledger usage)\<rparr>)))"

definition observe_user_quota ::
  "chrono \<Rightarrow> json_encoder \<Rightarrow> UsageStore \<Rightarrow> string \<Rightarrow> string \<Rightarrow> ShareUserGrant \<Rightarrow> int \<Rightarrow>
   ShareUserQuotaSnapshot res" where
  "observe_user_quota cal json usage share_id email grant now_ms =
     (if up_token_period (ug_policy grant) = AccountReset
      then observe_account_quota json usage share_id email grant
      else rbind (quota_window_for_policy cal (ug_policy grant) now_ms) (\<lambda>window.
           rbind (case (qw_starts_at_ms window, qw_ends_at_ms window) of
                    (Some s, Some e) \<Rightarrow> Ok (s, e)
                  | (None, None) \<Rightarrow> Ok (0, saturate_i64 (now_ms + 1))
                  | _ \<Rightarrow> Err ''quota window has only one boundary'') (\<lambda>(s, e).
           let (tokens, requests) = share_user_quota_usage usage share_id email s e in
           Ok \<lparr>qn_window = window, qn_observed_tokens = tokens, qn_observed_requests = requests,
               qn_baseline_observed_tokens = None, qn_usage_watermark = 0\<rparr>)))"

definition rebase_matches_window :: "ShareUserUsageRebase \<Rightarrow> ShareUserQuotaWindow \<Rightarrow> bool" where
  "rebase_matches_window r w \<longleftrightarrow> rb_period r = qw_period w \<and> rb_anchor_at_ms r = qw_anchor_at_ms w \<and>
     rb_window_starts_at_ms r = qw_starts_at_ms w \<and> rb_window_ends_at_ms r = qw_ends_at_ms w"

definition effective_user_tokens :: "ShareUserGrant \<Rightarrow> ShareUserQuotaSnapshot \<Rightarrow> nat" where
  "effective_user_tokens grant snapshot =
     (if up_token_period (ug_policy grant) = AccountReset then
        (case (qn_baseline_observed_tokens snapshot, ug_account_usage_baseline grant) of
           (Some at_edit, Some baseline) \<Rightarrow>
             effective_with_baseline (qn_observed_tokens snapshot) (ba_target_tokens baseline) at_edit
         | _ \<Rightarrow> qn_observed_tokens snapshot)
      else case ug_usage_rebase grant of
        Some rebase \<Rightarrow>
          if rebase_matches_window rebase (qn_window snapshot)
          then saturating_add_u64 (rb_target_tokens rebase)
                 (qn_observed_tokens snapshot - rb_observed_tokens_at_rebase rebase)
          else qn_observed_tokens snapshot
      | None \<Rightarrow> qn_observed_tokens snapshot)"

definition quota_effective :: "ShareUserQuotaView option \<Rightarrow> nat \<Rightarrow> nat" where
  "quota_effective q d = (case q of None \<Rightarrow> d | Some v \<Rightarrow> qv_effective_tokens_used v)"

definition effective_grant_tokens_for_policy :: "chrono \<Rightarrow> ShareUserGrant \<Rightarrow> int \<Rightarrow> nat" where
  "effective_grant_tokens_for_policy cal grant now_ms =
     (if up_token_period (ug_policy grant) = AccountReset then quota_effective (ug_usage_quota grant) u64_max
      else
        let bucket = tokens_for_policy cal (ug_usage grant) (ug_policy grant) now_ms;
            by_view = (case ug_usage_quota grant of
              Some quota \<Rightarrow> if qv_rebase_applies quota then max (qv_effective_tokens_used quota) bucket else bucket
            | None \<Rightarrow> bucket)
        in case ug_usage_rebase grant of
             Some rebase \<Rightarrow>
               if rb_period rebase = up_token_period (ug_policy grant) \<and>
                  rb_anchor_at_ms rebase = up_token_period_anchor_at_ms (ug_policy grant)
               then max (max (rb_target_tokens rebase) bucket) (quota_effective (ug_usage_quota grant) 0)
               else by_view
           | None \<Rightarrow> by_view)"

definition to_i64 :: "nat \<Rightarrow> int" where
  "to_i64 n = (if int n \<le> i64_max then int n else i64_max)"

definition quota_view :: "ShareUserGrant \<Rightarrow> ShareUserQuotaSnapshot \<Rightarrow> nat \<Rightarrow> bool \<Rightarrow> ShareUserQuotaView" where
  "quota_view grant snapshot effective rebase_applies =
     \<lparr>qv_period = qw_period (qn_window snapshot), qv_anchor_at_ms = qw_anchor_at_ms (qn_window snapshot),
      qv_window_starts_at_ms = qw_starts_at_ms (qn_window snapshot),
      qv_window_ends_at_ms = qw_ends_at_ms (qn_window snapshot),
      qv_effective_tokens_used = effective, qv_observed_tokens_used = qn_observed_tokens snapshot,
      qv_manual_offset_tokens = saturate_i64 (to_i64 effective - to_i64 (qn_observed_tokens snapshot)),
      qv_observed_requests_count = qn_observed_requests snapshot,
      qv_rebase_applies = (if up_token_period (ug_policy grant) = AccountReset
        then qn_baseline_observed_tokens snapshot \<noteq> None
        else rebase_applies \<and> ug_usage_rebase grant \<noteq> None),
      qv_usage_watermark = qn_usage_watermark snapshot\<rparr>"

end
