(* ===== verification/Market_Trials.thy ===== *)
theory Market_Trials
  imports Share_Usage
begin

section \<open>Market trials\<close>

text \<open>
  Model of \<open>src/src/domain/sharing/market_trials.rs\<close>: the one-time trial budget of a market
  entitlement and the receipts that attribute every request to it. The operations run on a copy
  of the share that the caller publishes on success only, so an operation returns the new share
  with its result, and an error carries no state.
\<close>

definition RECEIPT_RETENTION_MS :: int where "RECEIPT_RETENTION_MS = 35 * 86400000"
definition MAX_MARKET_REQUESTS :: nat where "MAX_MARKET_REQUESTS = 1000000"

definition default_compacted :: CompactedUsage where
  "default_compacted = \<lparr>cu_trial_tokens = 0, cu_trial_requests = 0, cu_paid_tokens = 0, cu_paid_requests = 0\<rparr>"

definition zero_decimal :: string where "zero_decimal = ''0''"

subsection \<open>Budgets\<close>

definition same_scope :: "Share \<Rightarrow> ShareMarketEntitlement \<Rightarrow> ShareMarketEntitlement list" where
  "same_scope share state =
     filter (\<lambda>e. me_trial_scope_id e = me_trial_scope_id state) (bt_values (sh_market_entitlements share))"

definition uncertain :: "Share \<Rightarrow> string \<Rightarrow> bool" where
  "uncertain share eid = (case bt_get (sh_market_entitlements share) eid of
     None \<Rightarrow> False
   | Some state \<Rightarrow> list_ex me_usage_uncertain (same_scope share state))"

definition usd_trial :: "ShareMarketEntitlement \<Rightarrow> bool" where
  "usd_trial state \<longleftrightarrow> me_trial_value_limit_usd_micros state \<noteq> None \<or> me_trial_value_allowance_usd_micros state \<noteq> None"

definition ok_value :: "'e + 'a \<Rightarrow> 'a option" where
  "ok_value m = (case m of Err _ \<Rightarrow> None | Ok x \<Rightarrow> Some x)"

definition micros_to_picos :: "string \<Rightarrow> int option" where
  "micros_to_picos micros = (case unsigned_decimal micros of Err _ \<Rightarrow> None | Ok n \<Rightarrow> checked_i128 (n * PICOS_PER_MICRO))"

fun sum_picos :: "int \<Rightarrow> ShareMarketEntitlement list \<Rightarrow> int option" where
  "sum_picos acc [] = Some acc"
| "sum_picos acc (e # es) = (case unsigned_decimal (me_trial_value_used_picos e) of
     Err _ \<Rightarrow> None
   | Ok used \<Rightarrow> (case checked_i128 (acc + used) of None \<Rightarrow> None | Some t \<Rightarrow> sum_picos t es))"

definition value_exhausted :: "Share \<Rightarrow> ShareMarketEntitlement \<Rightarrow> bool" where
  "value_exhausted share state =
     ((case me_trial_value_limit_usd_micros state of
         None \<Rightarrow> False
       | Some limit \<Rightarrow> (case (micros_to_picos limit, ok_value (unsigned_decimal (me_trial_value_used_picos state))) of
           (Some limit, Some used) \<Rightarrow> \<not> used < limit
         | _ \<Rightarrow> True)) \<or>
      (case me_trial_value_allowance_usd_micros state of
         None \<Rightarrow> False
       | Some allowance \<Rightarrow> (case micros_to_picos allowance of
           None \<Rightarrow> True
         | Some allowance \<Rightarrow> (case sum_picos 0 (same_scope share state) of
             None \<Rightarrow> True
           | Some acc \<Rightarrow> acc \<ge> allowance))))"

definition scope_tokens :: "ShareMarketEntitlement list \<Rightarrow> nat" where
  "scope_tokens es = fold (\<lambda>e acc. saturating_add_u64 acc (me_trial_tokens_used e)) es 0"

definition exhausted :: "Share \<Rightarrow> string \<Rightarrow> bool" where
  "exhausted share eid = (case bt_get (sh_market_entitlements share) eid of
     None \<Rightarrow> False
   | Some state \<Rightarrow> me_phase state = Trial \<and>
       ((case me_trial_token_limit state of None \<Rightarrow> False | Some limit \<Rightarrow> me_trial_tokens_used state \<ge> limit) \<or>
        (case me_trial_token_allowance state of None \<Rightarrow> False
         | Some limit \<Rightarrow> scope_tokens (same_scope share state) \<ge> limit) \<or>
        value_exhausted share state))"

definition value_receipt :: "Share \<Rightarrow> string \<Rightarrow> MarketRequestReceipt option" where
  "value_receipt share request_id = (case bt_get (sh_market_requests share) request_id of
     None \<Rightarrow> None
   | Some r \<Rightarrow> if mr_phase r = Trial \<and>
        (case bt_get (sh_market_entitlements share) (mr_entitlement_id r) of None \<Rightarrow> False | Some e \<Rightarrow> usd_trial e)
      then Some r else None)"

definition value_receipts :: "Share \<Rightarrow> string list" where
  "value_receipts share = filter (\<lambda>i. value_receipt share i \<noteq> None) (bt_keys (sh_market_requests share))"

subsection \<open>Settling a request\<close>

definition put_entitlement :: "string \<Rightarrow> ShareMarketEntitlement \<Rightarrow> Share \<Rightarrow> Share" where
  "put_entitlement eid e share = share\<lparr>sh_market_entitlements := bt_insert eid e (sh_market_entitlements share)\<rparr>"

definition put_receipt :: "string \<Rightarrow> MarketRequestReceipt \<Rightarrow> Share \<Rightarrow> Share" where
  "put_receipt i r share = share\<lparr>sh_market_requests := bt_insert i r (sh_market_requests share)\<rparr>"

definition record_value :: "Share \<Rightarrow> string \<Rightarrow> int \<Rightarrow> (Share \<times> bool) res" where
  "record_value share request_id picos = (case bt_get (sh_market_requests share) request_id of
     None \<Rightarrow> Ok (share, False)
   | Some receipt \<Rightarrow>
      if mr_phase receipt \<noteq> Trial then Ok (share, False)
      else rbind (ok_or (bt_get (sh_market_entitlements share) (mr_entitlement_id receipt)) ''market entitlement missing'')
        (\<lambda>entitlement.
        if \<not> usd_trial entitlement then Ok (share, False)
        else if picos < 0 then Err ''market USD usage cannot be negative''
        else rbind (map_err value_error_str (unsigned_decimal (mr_value_picos receipt))) (\<lambda>seen.
        if picos \<le> seen then Ok (share, False)
        else rbind (map_err value_error_str (unsigned_decimal (me_trial_value_used_picos entitlement))) (\<lambda>before.
             rbind (ok_or (checked_i128 (before + (picos - seen))) ''market USD usage overflow'') (\<lambda>used.
             rbind (ok_or (checked_add_u64 (me_usage_revision entitlement) 1) ''market usage revision overflow'') (\<lambda>revision.
             Ok (put_receipt request_id (receipt\<lparr>mr_value_picos := show_int picos\<rparr>)
                  (put_entitlement (mr_entitlement_id receipt)
                    (entitlement\<lparr>me_usage_revision := revision, me_trial_value_used_picos := show_int used\<rparr>) share),
                 True)))))))"

text \<open>A supplemental record without a receipt takes over the attribution of its parent.\<close>

definition adopt_receipt :: "UsageLog \<Rightarrow> Share \<Rightarrow> Share" where
  "adopt_receipt log share =
     (if \<not> bt_contains (sh_market_requests share) (ul_request_id log) \<and> ul_record_kind log = InternalSupplemental
      then (case ul_parent_request_id log of
        None \<Rightarrow> share
      | Some parent_id \<Rightarrow> (case bt_get (sh_market_requests share) parent_id of
          None \<Rightarrow> share
        | Some parent \<Rightarrow> put_receipt (ul_request_id log)
            (parent\<lparr>mr_tokens := 0, mr_revision := 0, mr_count_request := False, mr_value_picos := zero_decimal,
               mr_parent_request_id := ul_parent_request_id log\<rparr>) share))
      else share)"

definition identity_changed :: "Share \<Rightarrow> MarketRequestReceipt \<Rightarrow> UsageLog \<Rightarrow> bool" where
  "identity_changed share receipt log \<longleftrightarrow>
     (\<not> mr_count_request receipt \<and> mr_parent_request_id receipt \<noteq> ul_parent_request_id log) \<or>
     mr_count_request receipt \<noteq> (ul_record_kind log = UserInference) \<or>
     ul_share_id log \<noteq> Some (sh_id share) \<or>
     \<not> (case ul_user_email log of None \<Rightarrow> False | Some e \<Rightarrow> eq_ignore_ascii_case e (mr_email receipt))"

definition usage_unknown :: "MarketRequestReceipt \<Rightarrow> UsageLog \<Rightarrow> bool" where
  "usage_unknown receipt log \<longleftrightarrow> mr_phase receipt = Trial \<and>
     (ul_usage_state log = Interrupted \<or> ul_usage_state log = ParseError \<or>
      (ul_usage_state log = Missing \<and> ul_status_code log \<ge> 200 \<and> ul_status_code log < 300))"

definition charge_entitlement ::
  "MarketRequestReceipt \<Rightarrow> bool \<Rightarrow> nat \<Rightarrow> ShareMarketEntitlement \<Rightarrow> ShareMarketEntitlement res" where
  "charge_entitlement receipt unknown delta entitlement =
     (let e = entitlement\<lparr>me_usage_uncertain := me_usage_uncertain entitlement \<or> unknown\<rparr> in
      if mr_phase receipt = Trial then
        rbind (ok_or (checked_add_u64 (me_trial_tokens_used e) delta) ''market Tokens overflow'') (\<lambda>tokens.
        rbind (ok_or (checked_add_u64 (me_usage_revision e) 1) ''market usage revision overflow'') (\<lambda>revision.
        Ok (e\<lparr>me_trial_tokens_used := tokens, me_usage_revision := revision\<rparr>)))
      else Ok e)"

definition charge_grant ::
  "chrono \<Rightarrow> MarketRequestReceipt \<Rightarrow> ShareMarketEntitlement \<Rightarrow> nat \<Rightarrow> bool \<Rightarrow> Share \<Rightarrow> Share" where
  "charge_grant cal receipt entitlement delta counted share =
     (case bt_get (sh_user_grants share) (mr_email receipt) of
        None \<Rightarrow> share
      | Some g \<Rightarrow>
          if ug_entitlement_id g = Some (mr_entitlement_id receipt) \<and> me_phase entitlement = mr_phase receipt
          then share\<lparr>sh_user_grants := bt_insert (mr_email receipt)
            (g\<lparr>ug_usage := record_market_delta cal (ug_policy g) delta (mr_started_at_ms receipt) counted (ug_usage g),
               ug_usage_rebase := None, ug_usage_quota := None\<rparr>) (sh_user_grants share)\<rparr>
          else share)"

definition settle_receipt ::
  "chrono \<Rightarrow> Share \<Rightarrow> UsageLog \<Rightarrow> MarketRequestReceipt \<Rightarrow> nat \<Rightarrow> nat \<Rightarrow> (Share \<times> bool) res" where
  "settle_receipt cal share log receipt tokens revision =
     (let counted = (mr_revision receipt = 0 \<and> mr_count_request receipt);
          delta = tokens - mr_tokens receipt;
          r = receipt\<lparr>mr_tokens := tokens, mr_revision := revision\<rparr>
      in rbind (ok_or (bt_get (sh_market_entitlements share) (mr_entitlement_id r)) ''market entitlement missing'') (\<lambda>e.
         rbind (charge_entitlement r (usage_unknown r log) delta e) (\<lambda>e.
         Ok (charge_grant cal r e delta counted
               (put_entitlement (mr_entitlement_id r) e (put_receipt (ul_request_id log) r share)), True))))"

definition record_usage_log :: "chrono \<Rightarrow> Share \<Rightarrow> UsageLog \<Rightarrow> (Share \<times> bool) res" where
  "record_usage_log cal share0 log =
     (let share = adopt_receipt log share0 in
      case bt_get (sh_market_requests share) (ul_request_id log) of
        None \<Rightarrow> Ok (share, False)
      | Some receipt \<Rightarrow>
          if identity_changed share receipt log then Err ''market usage identity changed''
          else if ul_usage_state log = Pending then Ok (share, False)
          else let tokens = quota_tokens log; revision = max (ul_usage_revision log) 1 in
            if revision < mr_revision receipt then Ok (share, False)
            else if revision = mr_revision receipt then
              (if tokens \<noteq> mr_tokens receipt then Err ''market usage revision changed payload'' else Ok (share, False))
            else if tokens < mr_tokens receipt then Err ''market usage cannot erase confirmed Tokens''
            else settle_receipt cal share log receipt tokens revision)"

subsection \<open>Admission, compaction, rebuild and recovery\<close>

definition fold_receipt :: "MarketRequestReceipt \<Rightarrow> CompactedUsage \<Rightarrow> CompactedUsage" where
  "fold_receipt r c =
     (if mr_phase r = Trial
      then c\<lparr>cu_trial_tokens := saturating_add_u64 (cu_trial_tokens c) (mr_tokens r),
             cu_trial_requests := saturating_add_u64 (cu_trial_requests c) (if mr_count_request r then 1 else 0)\<rparr>
      else c\<lparr>cu_paid_tokens := saturating_add_u64 (cu_paid_tokens c) (mr_tokens r),
             cu_paid_requests := saturating_add_u64 (cu_paid_requests c) (if mr_count_request r then 1 else 0)\<rparr>)"

definition compact_one :: "int \<Rightarrow> string \<times> MarketRequestReceipt \<Rightarrow>
    (string, MarketRequestReceipt) btree \<times> (string, CompactedUsage) btree \<Rightarrow>
    (string, MarketRequestReceipt) btree \<times> (string, CompactedUsage) btree" where
  "compact_one cutoff = (\<lambda>(i, r) (retained, totals).
     if mr_started_at_ms r \<ge> cutoff \<or> mr_revision r = 0 then (bt_insert i r retained, totals)
     else (retained, bt_update_default (mr_entitlement_id r) default_compacted (fold_receipt r) totals))"

definition compact :: "int \<Rightarrow> Share \<Rightarrow> Share" where
  "compact at_ms share =
     (let cutoff = max (saturate_i64 (at_ms - RECEIPT_RETENTION_MS)) 0 in
      if cutoff < saturate_i64 (sh_market_receipts_before_ms share + 86400000) then share
      else let (retained, totals) =
             fold (compact_one cutoff) (sh_market_requests share) ([], sh_market_compacted_usage share)
           in share\<lparr>sh_market_requests := retained, sh_market_compacted_usage := totals,
                    sh_market_receipts_before_ms := cutoff\<rparr>)"

definition new_receipt :: "string \<Rightarrow> string \<Rightarrow> ShareMarketPhase \<Rightarrow> int \<Rightarrow> MarketRequestReceipt" where
  "new_receipt eid email phase started_at_ms =
     \<lparr>mr_entitlement_id = eid, mr_email = email, mr_phase = phase, mr_started_at_ms = started_at_ms, mr_tokens = 0,
      mr_revision = 0, mr_count_request = True, mr_parent_request_id = None, mr_value_picos = zero_decimal\<rparr>"

definition admit_new ::
  "Share \<Rightarrow> string \<Rightarrow> string \<Rightarrow> ShareMarketPhase \<Rightarrow> string \<Rightarrow> int \<Rightarrow> (Share \<times> bool) res" where
  "admit_new share0 eid email phase request_id started_at_ms =
     (let share = compact started_at_ms share0 in
      rbind (check (started_at_ms \<ge> sh_market_receipts_before_ms share)
        ''market request precedes retained revision window'') (\<lambda>_.
      rbind (check (length (sh_market_requests share) < MAX_MARKET_REQUESTS)
        ''MARKET_USAGE_CAPACITY: unresolved or recent receipts must be retained'') (\<lambda>_.
      rbind (check (\<not> exhausted share eid) ''MARKET_TRIAL_EXHAUSTED: trial conversion is pending'') (\<lambda>_.
      Ok (put_receipt request_id (new_receipt eid email phase started_at_ms) share, True)))))"

definition admit :: "Share \<Rightarrow> string \<Rightarrow> string \<Rightarrow> int \<Rightarrow> (Share \<times> bool) res" where
  "admit share user_email request_id started_at_ms =
     rbind (check (request_id \<noteq> [] \<and> length request_id \<le> 128 \<and> started_at_ms > 0) ''invalid market request identity'') (\<lambda>_.
     let email = to_ascii_lowercase (trim user_email) in
     case bt_get (sh_user_grants share) email of
       None \<Rightarrow> Ok (share, False)
     | Some grant \<Rightarrow> if \<not> ug_active grant then Ok (share, False) else
     (case ug_entitlement_id grant of
       None \<Rightarrow> Ok (share, False)
     | Some eid \<Rightarrow>
     (case bt_get (sh_market_entitlements share) eid of
       None \<Rightarrow> Ok (share, False)
     | Some entitlement \<Rightarrow> if \<not> me_active entitlement then Ok (share, False) else
       rbind (check (\<not> uncertain share eid) ''MARKET_USAGE_UNAVAILABLE: unresolved metering requires cleanup'') (\<lambda>_.
       case bt_get (sh_market_requests share) request_id of
         Some saved \<Rightarrow>
           rbind (check (mr_entitlement_id saved = eid \<and> mr_email saved = email \<and> mr_phase saved = me_phase entitlement)
             ''market request identity or phase changed'') (\<lambda>_. Ok (share, True))
       | None \<Rightarrow> admit_new share eid email (me_phase entitlement) request_id started_at_ms))))"

definition final_receipts :: "Share \<Rightarrow> string \<Rightarrow> ShareMarketPhase \<Rightarrow> MarketRequestReceipt list" where
  "final_receipts share eid phase =
     filter (\<lambda>r. mr_entitlement_id r = eid \<and> mr_phase r = phase \<and> mr_revision r > 0) (bt_values (sh_market_requests share))"

definition replay_receipt ::
  "chrono \<Rightarrow> ShareUserPolicy \<Rightarrow> MarketRequestReceipt \<Rightarrow> ShareUserUsage \<Rightarrow> ShareUserUsage" where
  "replay_receipt cal policy r usage =
     (if mr_count_request r then record_for_policy cal policy (mr_tokens r) (mr_started_at_ms r) usage
      else record_supplemental_for_policy cal policy (mr_tokens r) (mr_started_at_ms r) usage)"

definition compacted_bucket :: "Share \<Rightarrow> string \<Rightarrow> ShareMarketPhase \<Rightarrow> ShareUserUsageBucket" where
  "compacted_bucket share eid phase = (case bt_get (sh_market_compacted_usage share) eid of
     None \<Rightarrow> default_bucket
   | Some c \<Rightarrow> default_bucket\<lparr>
       ub_tokens_used := (if phase = Trial then cu_trial_tokens c else cu_paid_tokens c),
       ub_requests_count := (if phase = Trial then cu_trial_requests c else cu_paid_requests c)\<rparr>)"

definition project_grant :: "chrono \<Rightarrow> Share \<Rightarrow> ShareUserGrant \<Rightarrow> ShareUserGrant" where
  "project_grant cal share grant = (case ug_entitlement_id grant of
     None \<Rightarrow> grant
   | Some eid \<Rightarrow> (case bt_get (sh_market_entitlements share) eid of
       None \<Rightarrow> grant
     | Some entitlement \<Rightarrow>
         let receipts = sort_key mr_started_at_ms (final_receipts share eid (me_phase entitlement));
             usage = default_usage\<lparr>uu_lifetime := compacted_bucket share eid (me_phase entitlement)\<rparr>
         in grant\<lparr>ug_usage := fold (replay_receipt cal (ug_policy grant)) receipts usage,
                  ug_usage_rebase := None, ug_usage_quota := None\<rparr>))"

definition project :: "chrono \<Rightarrow> Share \<Rightarrow> Share" where
  "project cal share = share\<lparr>sh_user_grants := bt_map_values (project_grant cal share) (sh_user_grants share)\<rparr>"

text \<open>
  Recovery indexes the receipt it just looked up; an absent one would panic, so the branch is an
  error here.
\<close>

definition recover_one :: "chrono \<Rightarrow> UsageLog list \<Rightarrow> string \<Rightarrow> (Share \<times> bool) \<Rightarrow> (Share \<times> bool) res" where
  "recover_one cal logs i = (\<lambda>(share0, changed0).
     rbind (case find (\<lambda>l. ul_request_id l = i \<and> ul_usage_state l \<noteq> Pending) logs of
        None \<Rightarrow> Ok (share0, False)
      | Some log \<Rightarrow> record_usage_log cal share0 log) (\<lambda>(share, recorded).
     rbind (ok_or (bt_get (sh_market_requests share) i) ''receipt index panics'') (\<lambda>receipt.
     if mr_revision receipt = 0 \<and> mr_phase receipt = Trial then
       rbind (ok_or (bt_get (sh_market_entitlements share) (mr_entitlement_id receipt))
         ''market entitlement missing during recovery'') (\<lambda>state.
       Ok (put_entitlement (mr_entitlement_id receipt) (state\<lparr>me_usage_uncertain := True\<rparr>) share,
           changed0 \<or> recorded \<or> \<not> me_usage_uncertain state))
     else Ok (share, changed0 \<or> recorded))))"

fun recover_all :: "chrono \<Rightarrow> UsageLog list \<Rightarrow> string list \<Rightarrow> (Share \<times> bool) \<Rightarrow> (Share \<times> bool) res" where
  "recover_all cal logs [] st = Ok st"
| "recover_all cal logs (i # is) st = rbind (recover_one cal logs i st) (recover_all cal logs is)"

definition restore_entitlement :: "ShareMarketEntitlement \<Rightarrow> ShareMarketEntitlement" where
  "restore_entitlement e = (if me_active e then e\<lparr>me_usage_uncertain := True\<rparr> else e)"

definition recover :: "chrono \<Rightarrow> Share \<Rightarrow> UsageLog list \<Rightarrow> bool \<Rightarrow> (Share \<times> bool) res" where
  "recover cal share logs restored =
     (let pending = map fst (filter (\<lambda>(i, r). mr_revision r = 0) (sh_market_requests share)) in
      rbind (recover_all cal logs pending (share, False)) (\<lambda>(share, changed).
      if restored
      then Ok (share\<lparr>sh_market_entitlements := bt_map_values restore_entitlement (sh_market_entitlements share)\<rparr>,
               changed \<or> list_ex (\<lambda>e. me_active e \<and> \<not> me_usage_uncertain e) (bt_values (sh_market_entitlements share)))
      else Ok (share, changed)))"

subsection \<open>Budget fences\<close>

definition validate_transition ::
  "Share \<Rightarrow> string \<Rightarrow> string \<Rightarrow> ShareMarketPhase \<Rightarrow> nat option \<Rightarrow> unit res" where
  "validate_transition share eid email phase token_limit =
     (if token_limit = Some 0 \<or> (phase = Paid \<and> token_limit \<noteq> None)
      then Err ''trial Token cap must be positive or unlimited, and belongs only to the trial phase''
      else case bt_get (sh_market_entitlements share) eid of
        None \<Rightarrow> Ok ()
      | Some existing \<Rightarrow>
          check (\<not> (\<not> eq_ignore_ascii_case (me_email existing) email \<or>
                    (me_phase existing = Paid \<and> phase = Trial) \<or>
                    (phase = Trial \<and> me_trial_token_limit existing \<noteq> token_limit)))
            ''market entitlement phase or budget cannot be reset'')"

definition validate_value_transition ::
  "Share \<Rightarrow> string \<Rightarrow> ShareMarketPhase \<Rightarrow> string option \<Rightarrow> unit res" where
  "validate_value_transition share eid phase value_limit =
     (if phase = Paid \<and> value_limit \<noteq> None
      then Err ''a USD trial budget belongs only to the trial phase''
      else if phase = Trial \<and>
        (case bt_get (sh_market_entitlements share) eid of None \<Rightarrow> False
         | Some existing \<Rightarrow> me_trial_value_limit_usd_micros existing \<noteq> value_limit)
      then Err ''market entitlement phase or budget cannot be reset''
      else Ok ())"

end
