(* ===== verification/Managed_Grants.thy ===== *)
theory Managed_Grants
  imports Market_Trials
begin

section \<open>Grants managed by the market\<close>

text \<open>
  Model of the managed grants of \<open>src/src/domain/sharing/shares.rs\<close>: the operations by which the
  router gives a market user access to a share, converts a trial into a paid term and revokes
  the access. Every rejection is the message of \<open>SharePatchError::Invalid\<close>.
\<close>

datatype ShareManagedGrantAction = Upsert | Revoke

record TerminationFence =
  tf_termination_id :: string
  tf_cutoff_at_ms :: int
  tf_period_start_ms :: int
  tf_period_end_ms :: int
  tf_policy :: ShareUserPolicy

record ShareManagedGrantOperation =
  mo_termination :: "TerminationFence option"
  mo_operation_id :: string
  mo_entitlement_id :: string
  mo_share_sequence :: int
  mo_expected_config_revision :: nat
  mo_action :: ShareManagedGrantAction
  mo_email :: string
  mo_policy :: "ShareUserPolicy option"
  mo_duration_seconds :: "nat option"
  mo_market_phase :: "ShareMarketPhase option"
  mo_trial_scope_id :: "string option"
  mo_trial_token_allowance :: "nat option"
  mo_trial_token_limit :: "nat option"
  mo_trial_value_allowance_usd_micros :: "string option"
  mo_trial_value_limit_usd_micros :: "string option"

definition MAX_MANAGED_GRANT_DURATION_SECONDS :: nat where
  "MAX_MANAGED_GRANT_DURATION_SECONDS = 365 * 24 * 60 * 60"

subsection \<open>Emails\<close>

text \<open>
  \<open>chars().any(char::is_whitespace)\<close> on the UTF-8 bytes: the encodings of white space start
  with a byte that starts no other character, so every position may be tried.
\<close>

fun has_whitespace :: "string \<Rightarrow> bool" where
  "has_whitespace [] = False"
| "has_whitespace [a] = ws1 a"
| "has_whitespace [a, b] = (ws1 a \<or> ws2 a b \<or> has_whitespace [b])"
| "has_whitespace (a # b # c # s) = (ws1 a \<or> ws2 a b \<or> ws3 a b c \<or> has_whitespace (b # c # s))"

definition normalize_verified_email :: "string \<Rightarrow> string res" where
  "normalize_verified_email raw =
     (let email = to_ascii_lowercase (trim raw); invalid = Err ''ownerEmail format is invalid'' in
      if email = [] \<or> length email > 254 \<or> has_whitespace email \<or> length (filter (\<lambda>c. c = CHR ''@'') email) \<noteq> 1
      then invalid
      else case split_once (CHR ''@'') email of
        None \<Rightarrow> invalid
      | Some (local, domain) \<Rightarrow>
          if local = [] \<or> domain = [] \<or> CHR ''.'' \<notin> set domain \<or> starts_with ''.'' domain \<or> ends_with ''.'' domain
          then invalid else Ok email)"

subsection \<open>The shape of an operation\<close>

definition budget_micros :: "string \<Rightarrow> int option" where
  "budget_micros raw = (case unsigned_decimal raw of
     Err _ \<Rightarrow> None
   | Ok micros \<Rightarrow> if 1 \<le> micros \<and> micros \<le> MAX_LIMIT_MICROS then Some micros else None)"

definition validate_managed_value_trial :: "ShareManagedGrantOperation \<Rightarrow> unit res" where
  "validate_managed_value_trial op =
     (case (mo_trial_value_allowance_usd_micros op, mo_trial_value_limit_usd_micros op) of
        (None, None) \<Rightarrow> Ok ()
      | (Some allowance, Some limit) \<Rightarrow>
          if mo_trial_token_allowance op \<noteq> None \<or> mo_trial_token_limit op \<noteq> None
          then Err ''a market trial budget uses one unit: Token or USD-equivalent, not both''
          else if mo_market_phase op = None then Err ''USD trial budget requires a market phase''
          else if (case mo_policy op of None \<Rightarrow> True | Some p \<Rightarrow> up_value_quota p = None)
          then Err ''USD trial budget requires a USD-equivalent seat quota (valueQuota)''
          else (case (budget_micros allowance, budget_micros limit) of
             (Some allowance, Some limit) \<Rightarrow>
               check (limit \<le> allowance) ''invalid one-time market USD trial budget''
           | _ \<Rightarrow> Err ''invalid one-time market USD trial budget'')
      | _ \<Rightarrow> Err ''USD trial allowance and limit must be provided together'')"

definition bad_fence :: "ShareManagedGrantOperation \<Rightarrow> bool" where
  "bad_fence op = (case mo_termination op of
     None \<Rightarrow> False
   | Some t \<Rightarrow> mo_action op \<noteq> Revoke \<or> tf_termination_id t = [] \<or> length (tf_termination_id t) > 128 \<or>
       tf_period_start_ms t < 0 \<or> tf_period_start_ms t > tf_cutoff_at_ms t \<or> tf_cutoff_at_ms t > tf_period_end_ms t)"

definition validate_duration :: "ShareManagedGrantOperation \<Rightarrow> ShareUserPolicy \<Rightarrow> unit res" where
  "validate_duration op policy = (case mo_duration_seconds op of
     None \<Rightarrow> Ok ()
   | Some seconds \<Rightarrow>
       if \<not> (1 \<le> seconds \<and> seconds \<le> MAX_MANAGED_GRANT_DURATION_SECONDS)
       then Err (''managed grant durationSeconds must be between 1 and '' @ show_nat MAX_MANAGED_GRANT_DURATION_SECONDS)
       else check (\<not> (up_expires_at policy \<noteq> None \<or> up_token_period_anchor_at_ms policy \<noteq> None))
         ''relative managed grants must not provide an absolute expiry or token-period anchor'')"

definition has_grant_terms :: "ShareManagedGrantOperation \<Rightarrow> bool" where
  "has_grant_terms op \<longleftrightarrow> mo_policy op \<noteq> None \<or> mo_duration_seconds op \<noteq> None \<or> mo_market_phase op \<noteq> None \<or>
     mo_trial_token_limit op \<noteq> None \<or> mo_trial_scope_id op \<noteq> None \<or> mo_trial_token_allowance op \<noteq> None \<or>
     mo_trial_value_allowance_usd_micros op \<noteq> None \<or> mo_trial_value_limit_usd_micros op \<noteq> None"

definition validate_managed_grant_operation :: "ShareManagedGrantOperation \<Rightarrow> unit res" where
  "validate_managed_grant_operation op =
     rbind (check (\<not> bad_fence op) ''invalid Market termination fence'') (\<lambda>_.
     rbind (check (\<not> (trim (mo_operation_id op) = [] \<or> length (mo_operation_id op) > 128))
       ''managed grant operationId must contain 1-128 characters'') (\<lambda>_.
     rbind (check (\<not> (trim (mo_entitlement_id op) = [] \<or> length (mo_entitlement_id op) > 128))
       ''managed grant entitlementId must contain 1-128 characters'') (\<lambda>_.
     rbind (check (\<not> mo_share_sequence op < 1) ''managed grant shareSequence must be positive'') (\<lambda>_.
     case mo_action op of
       Upsert \<Rightarrow>
         rbind (ok_or (mo_policy op) ''managed grant upsert requires policy'') (\<lambda>policy.
         rbind (validate_duration op policy) (\<lambda>_. validate_managed_value_trial op))
     | Revoke \<Rightarrow>
         check (\<not> has_grant_terms op) ''managed grant revoke must not include policy or durationSeconds''))))"

subsection \<open>Upsert\<close>

definition bad_token_budget :: "ShareManagedGrantOperation \<Rightarrow> bool" where
  "bad_token_budget op = (case (mo_trial_token_limit op, mo_trial_token_allowance op) of
     (Some budget, Some allowance) \<Rightarrow> budget > allowance \<or> allowance > 9007199254740991
   | (None, None) \<Rightarrow> False
   | _ \<Rightarrow> True)"

definition bad_scope :: "Share \<Rightarrow> ShareManagedGrantOperation \<Rightarrow> ShareMarketPhase \<Rightarrow> string \<Rightarrow> bool" where
  "bad_scope share op phase scope = (case bt_get (sh_market_entitlements share) (mo_entitlement_id op) of
     None \<Rightarrow> False
   | Some e \<Rightarrow> me_trial_scope_id e \<noteq> scope \<or>
       (phase = Trial \<and> (me_trial_token_allowance e \<noteq> mo_trial_token_allowance op \<or>
          me_trial_value_allowance_usd_micros e \<noteq> mo_trial_value_allowance_usd_micros op)))"

definition check_market_phase ::
  "Share \<Rightarrow> ShareManagedGrantOperation \<Rightarrow> string \<Rightarrow> ShareMarketPhase \<Rightarrow> unit res" where
  "check_market_phase share op email phase =
     rbind (validate_transition share (mo_entitlement_id op) email phase (mo_trial_token_limit op)) (\<lambda>_.
     rbind (validate_value_transition share (mo_entitlement_id op) phase (mo_trial_value_limit_usd_micros op)) (\<lambda>_.
     rbind (case mo_trial_scope_id op of
         Some i \<Rightarrow> if i \<noteq> [] \<and> length i \<le> 128 then Ok i else Err ''market phase requires a trial scope identity''
       | None \<Rightarrow> Err ''market phase requires a trial scope identity'') (\<lambda>scope.
     rbind (check (\<not> bad_token_budget op) ''invalid one-time market trial budget'') (\<lambda>_.
     rbind (check (\<not> bad_scope share op phase scope) ''market trial scope or allowance cannot be changed'') (\<lambda>_.
     check (\<not> list_ex (\<lambda>e. me_trial_scope_id e = scope \<and> \<not> eq_ignore_ascii_case (me_email e) email)
         (bt_values (sh_market_entitlements share)))
       ''market trial scope is assigned to another user'')))))"

definition grant_policy :: "ShareManagedGrantOperation \<Rightarrow> ShareUserPolicy \<Rightarrow> int \<Rightarrow> ShareUserPolicy res" where
  "grant_policy op policy0 now =
     rbind (case mo_duration_seconds op of
         None \<Rightarrow> Ok policy0
       | Some seconds \<Rightarrow>
           rbind (ok_or (case checked_i64 (int seconds) of None \<Rightarrow> None | Some s \<Rightarrow> checked_i64 (s * 1000))
             ''managed grant durationSeconds is too large'') (\<lambda>duration_ms.
           rbind (ok_or (checked_i64 (now + duration_ms))
             ''managed grant absolute expiry is outside the supported range'') (\<lambda>expires.
           Ok (policy0\<lparr>up_expires_at := Some expires\<rparr>)))) (\<lambda>policy.
     Ok (if requires_anchor (up_token_period policy) \<and> up_token_period_anchor_at_ms policy = None
         then policy\<lparr>up_token_period_anchor_at_ms := Some (now div 60000 * 60000)\<rparr> else policy))"

definition entitlement_taken :: "Share \<Rightarrow> string \<Rightarrow> string \<Rightarrow> bool" where
  "entitlement_taken share eid email = list_ex (\<lambda>g. ug_active g \<and> ug_entitlement_id g = Some eid \<and>
     \<not> eq_ignore_ascii_case (ug_email g) email) (bt_values (sh_user_grants share))"

definition other_access :: "Share \<Rightarrow> string \<Rightarrow> string \<Rightarrow> bool" where
  "other_access share eid email = (case bt_get (sh_user_grants share) email of
     None \<Rightarrow> False
   | Some g \<Rightarrow> ug_active g \<and> \<not> (ug_manager g = RouterShareMarket \<and> ug_entitlement_id g = Some eid))"

definition upsert_guard ::
  "Share \<Rightarrow> ShareManagedGrantOperation \<Rightarrow> string \<Rightarrow> int \<Rightarrow> ShareUserPolicy res" where
  "upsert_guard share op email now =
     rbind (ok_or (mo_policy op) ''managed grant upsert requires policy'') (\<lambda>policy0.
     rbind (check (\<not> (mo_market_phase op = None \<and> bt_contains (sh_market_entitlements share) (mo_entitlement_id op)))
       ''market phase cannot be removed from a versioned entitlement'') (\<lambda>_.
     rbind (check (\<not> (mo_market_phase op = None \<and> mo_trial_token_limit op \<noteq> None))
       ''trial Token cap requires a market phase'') (\<lambda>_.
     rbind (case mo_market_phase op of None \<Rightarrow> Ok () | Some phase \<Rightarrow> check_market_phase share op email phase) (\<lambda>_.
     rbind (check (\<not> (up_parallel_limit policy0 = Some 0 \<or> up_token_limit policy0 = Some 0))
       ''user limits must be positive or unlimited'') (\<lambda>_.
     rbind (grant_policy op policy0 now) (\<lambda>policy.
     rbind (validate_user_policy policy now) (\<lambda>_.
     rbind (check (up_token_period policy \<noteq> AccountReset) ''market contracts cannot use accountReset'') (\<lambda>_.
     rbind (check (\<not> entitlement_taken share (mo_entitlement_id op) email)
       ''market entitlement is already assigned to another user'') (\<lambda>_.
     rbind (check (\<not> other_access share (mo_entitlement_id op) email)
       ''user already has Share access outside this market entitlement'') (\<lambda>_.
     Ok policy))))))))))"

definition new_entitlement ::
  "ShareManagedGrantOperation \<Rightarrow> string \<Rightarrow> ShareMarketPhase \<Rightarrow> int \<Rightarrow> ShareMarketEntitlement" where
  "new_entitlement op email phase now =
     \<lparr>me_trial_scope_id = opt_str (mo_trial_scope_id op), me_trial_token_allowance = mo_trial_token_allowance op,
      me_email = email, me_phase = phase, me_active = True, me_trial_token_limit = mo_trial_token_limit op,
      me_trial_tokens_used = 0, me_usage_revision = 0, me_usage_uncertain = False, me_applied_at_ms = now,
      me_paid_started_at_ms = None, me_trial_value_allowance_usd_micros = mo_trial_value_allowance_usd_micros op,
      me_trial_value_limit_usd_micros = mo_trial_value_limit_usd_micros op, me_trial_value_used_picos = ''0''\<rparr>"

definition activate_entitlement :: "ShareMarketPhase \<Rightarrow> int \<Rightarrow> ShareMarketEntitlement \<Rightarrow> ShareMarketEntitlement" where
  "activate_entitlement phase now state =
     state\<lparr>me_applied_at_ms := (if me_phase state \<noteq> phase then now else me_applied_at_ms state),
           me_phase := phase, me_active := True,
           me_paid_started_at_ms := (if phase = Paid \<and> me_paid_started_at_ms state = None then Some now
                                     else me_paid_started_at_ms state)\<rparr>"

definition upsert_entitlement :: "ShareManagedGrantOperation \<Rightarrow> string \<Rightarrow> int \<Rightarrow> Share \<Rightarrow> Share" where
  "upsert_entitlement op email now share = (case mo_market_phase op of
     None \<Rightarrow> share
   | Some phase \<Rightarrow> share\<lparr>sh_market_entitlements :=
       bt_update_default (mo_entitlement_id op) (new_entitlement op email phase now)
         (activate_entitlement phase now) (sh_market_entitlements share)\<rparr>)"

definition market_grant ::
  "ShareUserGrant option \<Rightarrow> string \<Rightarrow> ShareUserPolicy \<Rightarrow> string \<Rightarrow> nat \<Rightarrow> ShareUserGrant" where
  "market_grant previous email policy eid applied_at_ms =
     \<lparr>ug_email = email, ug_role = ''shareto'', ug_active = True, ug_policy = policy, ug_value_metering = None,
      ug_pending_value_quota = None,
      ug_usage = (case previous of None \<Rightarrow> default_usage | Some g \<Rightarrow> ug_usage g),
      ug_usage_rebase = (case previous of None \<Rightarrow> None | Some g \<Rightarrow> ug_usage_rebase g),
      ug_usage_quota = None, ug_account_quota_cycle = None, ug_account_reset_capability = None,
      ug_account_usage_baseline = None,
      ug_created_at_ms = (case previous of None \<Rightarrow> applied_at_ms
        | Some g \<Rightarrow> if ug_created_at_ms g > 0 then ug_created_at_ms g else applied_at_ms),
      ug_updated_at_ms = applied_at_ms, ug_revoked_at_ms = None,
      ug_revision = max (case previous of None \<Rightarrow> 1 | Some g \<Rightarrow> saturating_add_u64 (ug_revision g) 1) 1,
      ug_manager = RouterShareMarket, ug_entitlement_id = Some eid\<rparr>"

definition upsert_grant :: "ShareManagedGrantOperation \<Rightarrow> string \<Rightarrow> ShareUserPolicy \<Rightarrow> nat \<Rightarrow> Share \<Rightarrow> Share" where
  "upsert_grant op email policy applied_at_ms share =
     share\<lparr>sh_user_grants := bt_insert email
       (market_grant (bt_get (sh_user_grants share) email) email policy (mo_entitlement_id op) applied_at_ms)
       (sh_user_grants share)\<rparr>"

subsection \<open>Revoke\<close>

definition acknowledge :: "ShareManagedGrantOperation \<Rightarrow> Share \<Rightarrow> Share" where
  "acknowledge op share = (case mo_termination op of
     None \<Rightarrow> share
   | Some fence \<Rightarrow> share\<lparr>sh_pending_market_termination_acks :=
       bt_insert (mo_operation_id op) (tf_termination_id fence) (sh_pending_market_termination_acks share)\<rparr>)"

definition deactivate_entitlement :: "string \<Rightarrow> Share \<Rightarrow> Share" where
  "deactivate_entitlement eid share = (case bt_get (sh_market_entitlements share) eid of
     None \<Rightarrow> share
   | Some state \<Rightarrow> put_entitlement eid (state\<lparr>me_active := False\<rparr>) share)"

definition revoke_grant :: "nat \<Rightarrow> ShareUserGrant \<Rightarrow> ShareUserGrant" where
  "revoke_grant now g = g\<lparr>ug_active := False, ug_updated_at_ms := now, ug_revoked_at_ms := Some now,
     ug_revision := max (saturating_add_u64 (ug_revision g) 1) 1\<rparr>"

definition revoke :: "Share \<Rightarrow> ShareManagedGrantOperation \<Rightarrow> string \<Rightarrow> nat \<Rightarrow> Share res" where
  "revoke share0 op email now =
     (let share = deactivate_entitlement (mo_entitlement_id op) (acknowledge op share0) in
      case bt_find (\<lambda>g. ug_manager g = RouterShareMarket \<and> ug_entitlement_id g = Some (mo_entitlement_id op))
          (sh_user_grants share) of
        None \<Rightarrow> Ok share
      | Some (grant_email, grant) \<Rightarrow>
          if \<not> eq_ignore_ascii_case (ug_email grant) email
          then Err ''managed grant revoke email does not match the entitlement owner''
          else Ok (share\<lparr>sh_user_grants := bt_insert grant_email (revoke_grant now grant) (sh_user_grants share)\<rparr>))"

subsection \<open>The operation\<close>

definition apply_managed_grant_operation ::
  "chrono \<Rightarrow> Share \<Rightarrow> ShareManagedGrantOperation \<Rightarrow> nat \<Rightarrow> Share res" where
  "apply_managed_grant_operation cal share op now_ms =
     rbind (normalize_verified_email (mo_email op)) (\<lambda>email.
     rbind (check (\<not> (case sh_owner_email share of None \<Rightarrow> False | Some owner \<Rightarrow> eq_ignore_ascii_case owner email))
       ''share owner cannot receive a market entitlement'') (\<lambda>_.
     case mo_action op of
       Upsert \<Rightarrow>
         rbind (upsert_guard share op email (to_i64 now_ms)) (\<lambda>policy.
         Ok (project cal (upsert_grant op email policy now_ms (upsert_entitlement op email (to_i64 now_ms) share))))
     | Revoke \<Rightarrow> revoke share op email now_ms))"

end
