(* ===== verification/Market_Trials_Inv.thy ===== *)
theory Market_Trials_Inv
  imports Managed_Grants
begin

section \<open>What trial budgets account for\<close>

text \<open>
  Every token charged to a trial is held by a retained receipt or by the compacted totals of
  its entitlement, in every state the market operations reach.
\<close>

definition trial_tokens :: "string \<Rightarrow> MarketRequestReceipt \<Rightarrow> nat" where
  "trial_tokens eid r = (if mr_entitlement_id r = eid \<and> mr_phase r = Trial then mr_tokens r else 0)"

definition compacted_trial :: "(string, CompactedUsage) btree \<Rightarrow> string \<Rightarrow> nat" where
  "compacted_trial m eid = (case bt_get m eid of None \<Rightarrow> 0 | Some c \<Rightarrow> cu_trial_tokens c)"

definition accounted :: "Share \<Rightarrow> string \<Rightarrow> nat" where
  "accounted share eid = bt_sum (trial_tokens eid) (sh_market_requests share) +
     compacted_trial (sh_market_compacted_usage share) eid"

definition receipts_ok :: "Share \<Rightarrow> bool" where
  "receipts_ok share \<longleftrightarrow> bt_wf (sh_market_requests share) \<and> bt_wf (sh_market_entitlements share) \<and>
     bt_wf (sh_market_compacted_usage share) \<and>
     (\<forall>i r. bt_get (sh_market_requests share) i = Some r \<longrightarrow>
        bt_contains (sh_market_entitlements share) (mr_entitlement_id r) \<and> (mr_revision r = 0 \<longrightarrow> mr_tokens r = 0)) \<and>
     (\<forall>eid. bt_contains (sh_market_compacted_usage share) eid \<longrightarrow> bt_contains (sh_market_entitlements share) eid)"

definition trial_inv :: "Share \<Rightarrow> bool" where
  "trial_inv share \<longleftrightarrow> receipts_ok share \<and>
     (\<forall>eid e. bt_get (sh_market_entitlements share) eid = Some e \<longrightarrow>
        me_trial_tokens_used e = accounted share eid \<and> accounted share eid \<le> u64_max)"

lemma receipts_okD:
  assumes "receipts_ok share"
  shows "bt_wf (sh_market_requests share)" "bt_wf (sh_market_entitlements share)"
    "bt_wf (sh_market_compacted_usage share)"
    "bt_get (sh_market_requests share) i = Some r \<Longrightarrow> bt_contains (sh_market_entitlements share) (mr_entitlement_id r)"
    "bt_get (sh_market_requests share) i = Some r \<Longrightarrow> mr_revision r = 0 \<Longrightarrow> mr_tokens r = 0"
    "bt_contains (sh_market_compacted_usage share) eid \<Longrightarrow> bt_contains (sh_market_entitlements share) eid"
  using assms unfolding receipts_ok_def by blast+

lemma trial_invD:
  assumes "trial_inv share"
  shows "receipts_ok share"
    "bt_get (sh_market_entitlements share) eid = Some e \<Longrightarrow> me_trial_tokens_used e = accounted share eid"
    "bt_get (sh_market_entitlements share) eid = Some e \<Longrightarrow> accounted share eid \<le> u64_max"
  using assms unfolding trial_inv_def by blast+

lemma trial_invI:
  assumes "receipts_ok share"
    and "\<And>eid e. bt_get (sh_market_entitlements share) eid = Some e \<Longrightarrow>
      me_trial_tokens_used e = accounted share eid \<and> accounted share eid \<le> u64_max"
  shows "trial_inv share"
  unfolding trial_inv_def using assms by blast

lemma accounted_entitlements [simp]:
  "accounted (s\<lparr>sh_market_entitlements := m\<rparr>) = accounted s" "accounted (put_entitlement eid e s) = accounted s"
  by (simp_all add: accounted_def [abs_def] put_entitlement_def)

subsection \<open>Changes that keep the account\<close>

lemma put_simps [simp]:
  "sh_market_requests (put_receipt i r s) = bt_insert i r (sh_market_requests s)"
  "sh_market_entitlements (put_receipt i r s) = sh_market_entitlements s"
  "sh_market_compacted_usage (put_receipt i r s) = sh_market_compacted_usage s"
  "sh_user_grants (put_receipt i r s) = sh_user_grants s"
  "sh_market_requests (put_entitlement i e s) = sh_market_requests s"
  "sh_market_entitlements (put_entitlement i e s) = bt_insert i e (sh_market_entitlements s)"
  "sh_market_compacted_usage (put_entitlement i e s) = sh_market_compacted_usage s"
  "sh_user_grants (put_entitlement i e s) = sh_user_grants s"
  "sh_id (put_receipt i r s) = sh_id s" "sh_id (put_entitlement i e s) = sh_id s"
  by (simp_all add: put_receipt_def put_entitlement_def)

text \<open>The market's part of a share: what the invariant reads.\<close>

definition same_market :: "Share \<Rightarrow> Share \<Rightarrow> bool" where
  "same_market s t \<longleftrightarrow> sh_market_requests s = sh_market_requests t \<and>
     sh_market_entitlements s = sh_market_entitlements t \<and> sh_market_compacted_usage s = sh_market_compacted_usage t"

lemma same_market_inv: "same_market s t \<Longrightarrow> trial_inv s = trial_inv t"
  by (simp add: same_market_def trial_inv_def receipts_ok_def accounted_def)

lemma charge_grant_market [simp]:
  "sh_market_requests (charge_grant cal r e d c s) = sh_market_requests s"
  "sh_market_entitlements (charge_grant cal r e d c s) = sh_market_entitlements s"
  "sh_market_compacted_usage (charge_grant cal r e d c s) = sh_market_compacted_usage s"
  by (simp_all add: charge_grant_def split: option.split)

text \<open>Replacing a receipt moves the account by the difference of its trial tokens.\<close>

lemma accounted_put_receipt:
  assumes "bt_wf (sh_market_requests s)"
  shows "accounted (put_receipt i r s) eid +
      (case bt_get (sh_market_requests s) i of None \<Rightarrow> 0 | Some r0 \<Rightarrow> trial_tokens eid r0) =
    accounted s eid + trial_tokens eid r"
  using bt_sum_insert [OF assms, of "trial_tokens eid" i r] by (simp add: accounted_def)

lemma receipts_ok_put:
  assumes "receipts_ok s" and "bt_contains (sh_market_entitlements s) (mr_entitlement_id r)"
    and "mr_revision r = 0 \<Longrightarrow> mr_tokens r = 0"
  shows "receipts_ok (put_receipt i r s)"
  using assms by (simp add: receipts_ok_def)

lemma trial_inv_put_receipt:
  assumes inv: "trial_inv s" and r: "bt_contains (sh_market_entitlements s) (mr_entitlement_id r)"
    "mr_revision r = 0 \<Longrightarrow> mr_tokens r = 0"
    and same: "\<And>eid. trial_tokens eid r = (case bt_get (sh_market_requests s) i of None \<Rightarrow> 0 | Some r0 \<Rightarrow> trial_tokens eid r0)"
  shows "trial_inv (put_receipt i r s)"
proof -
  have "accounted (put_receipt i r s) eid = accounted s eid" for eid
    using accounted_put_receipt [OF receipts_okD(1) [OF trial_invD(1) [OF inv]], of i r eid]
    unfolding same [of eid] by linarith
  then show ?thesis
    using receipts_ok_put [OF trial_invD(1) [OF inv] r] trial_invD(2,3) [OF inv] by (intro trial_invI) simp_all
qed

text \<open>Entitlements may change as long as their counters stay.\<close>

lemma trial_inv_entitlements:
  assumes "trial_inv s" and "bt_wf m"
    and "\<And>eid. map_option me_trial_tokens_used (bt_get m eid) =
      map_option me_trial_tokens_used (bt_get (sh_market_entitlements s) eid)"
  shows "trial_inv (s\<lparr>sh_market_entitlements := m\<rparr>)"
proof -
  have c: "bt_contains m eid = bt_contains (sh_market_entitlements s) eid" for eid
    using assms(3) [of eid] by (cases "bt_get m eid"; cases "bt_get (sh_market_entitlements s) eid")
      (simp_all add: bt_contains_def)
  have "receipts_ok (s\<lparr>sh_market_entitlements := m\<rparr>)"
    using trial_invD(1) [OF assms(1)] assms(2) by (simp add: receipts_ok_def c)
  moreover have "me_trial_tokens_used e = accounted s eid \<and> accounted s eid \<le> u64_max"
    if "bt_get m eid = Some e" for eid e
    using that assms(3) [of eid] trial_invD(2,3) [OF assms(1), of eid]
    by (cases "bt_get (sh_market_entitlements s) eid") auto
  ultimately show ?thesis by (intro trial_invI) simp_all
qed

lemma trial_inv_put_entitlement:
  assumes "trial_inv s" and "bt_get (sh_market_entitlements s) eid = Some e0"
    and "me_trial_tokens_used e = me_trial_tokens_used e0"
  shows "trial_inv (put_entitlement eid e s)"
  unfolding put_entitlement_def
  using assms receipts_okD(2) [OF trial_invD(1) [OF assms(1)]] by (intro trial_inv_entitlements) auto

subsection \<open>Settling\<close>

lemma adopt_receipt_inv: "trial_inv s \<Longrightarrow> trial_inv (adopt_receipt log s)"
  by (auto simp: adopt_receipt_def bt_contains_def trial_tokens_def split: option.splits
      intro!: trial_inv_put_receipt dest: receipts_okD(4) [OF trial_invD(1)])

lemma charge_entitlement_Ok:
  assumes "charge_entitlement r unknown delta e = Ok e'"
  shows "me_trial_tokens_used e' = me_trial_tokens_used e + (if mr_phase r = Trial then delta else 0)"
    "me_trial_tokens_used e \<le> u64_max \<Longrightarrow> me_trial_tokens_used e' \<le> u64_max"
    "me_usage_revision e \<le> me_usage_revision e'"
    "me_usage_uncertain e' = (me_usage_uncertain e \<or> unknown)"
    "e' = e\<lparr>me_trial_tokens_used := me_trial_tokens_used e', me_usage_revision := me_usage_revision e',
           me_usage_uncertain := me_usage_uncertain e'\<rparr>"
  using assms by (auto simp: charge_entitlement_def Let_def result_iff split: if_splits)

lemma settle_receipt_inv:
  assumes inv: "trial_inv s" and r: "bt_get (sh_market_requests s) (ul_request_id log) = Some receipt"
    and more: "mr_tokens receipt \<le> tokens" "0 < revision"
    and ok: "settle_receipt cal s log receipt tokens revision = Ok (t, b)"
  shows "trial_inv t"
proof -
  let ?r = "receipt\<lparr>mr_tokens := tokens, mr_revision := revision\<rparr>" and ?d = "tokens - mr_tokens receipt"
  let ?id = "mr_entitlement_id receipt"
  note wf = receipts_okD [OF trial_invD(1) [OF inv]]
  from ok obtain e e' where e: "bt_get (sh_market_entitlements s) ?id = Some e"
    and e': "charge_entitlement ?r (usage_unknown ?r log) ?d e = Ok e'"
    and t: "same_market t (put_entitlement ?id e' (put_receipt (ul_request_id log) ?r s))"
    by (auto simp: settle_receipt_def Let_def result_iff same_market_def)
  have acc: "accounted (put_receipt (ul_request_id log) ?r s) eid = accounted s eid +
      (if eid = ?id \<and> mr_phase receipt = Trial then ?d else 0)" for eid
    using accounted_put_receipt [OF wf(1), of "ul_request_id log" ?r eid] r more(1)
    by (auto simp: trial_tokens_def split: if_splits)
  have "receipts_ok (put_receipt (ul_request_id log) ?r s)"
    using wf(4) [OF r] more(2) by (intro receipts_ok_put trial_invD(1) inv) simp_all
  then have "receipts_ok (put_entitlement ?id e' (put_receipt (ul_request_id log) ?r s))"
    using wf(2) by (simp add: receipts_ok_def)
  moreover have "me_trial_tokens_used x = accounted (put_receipt (ul_request_id log) ?r s) eid \<and>
      accounted (put_receipt (ul_request_id log) ?r s) eid \<le> u64_max"
    if "bt_get (bt_insert ?id e' (sh_market_entitlements s)) eid = Some x" for eid x
    using that charge_entitlement_Ok(1,2) [OF e'] trial_invD(2,3) [OF inv, of eid] e by (auto simp: acc split: if_splits)
  ultimately have "trial_inv (put_entitlement ?id e' (put_receipt (ul_request_id log) ?r s))"
    by (intro trial_invI) simp_all
  with t show ?thesis by (simp add: same_market_inv)
qed

lemma record_usage_log_inv:
  assumes "trial_inv s" and "record_usage_log cal s log = Ok (t, b)"
  shows "trial_inv t"
proof -
  have a: "trial_inv (adopt_receipt log s)" by (rule adopt_receipt_inv [OF assms(1)])
  from assms(2) consider "t = adopt_receipt log s"
    | r where "bt_get (sh_market_requests (adopt_receipt log s)) (ul_request_id log) = Some r"
      "mr_tokens r \<le> quota_tokens log" "mr_revision r < max (ul_usage_revision log) 1"
      "settle_receipt cal (adopt_receipt log s) log r (quota_tokens log) (max (ul_usage_revision log) 1) = Ok (t, b)"
    by (auto simp: record_usage_log_def Let_def split: option.splits if_splits)
  then show ?thesis
  proof cases
    case 1
    with a show ?thesis by simp
  next
    case 2
    show ?thesis by (rule settle_receipt_inv [OF a 2(1,2) _ 2(4)]) simp
  qed
qed

subsection \<open>Compaction and admission\<close>

lemma compact_one_simps:
  "mr_started_at_ms r \<ge> c \<or> mr_revision r = 0 \<Longrightarrow> compact_one c (i, r) (ret, tot) = (bt_insert i r ret, tot)"
  "\<not> (mr_started_at_ms r \<ge> c \<or> mr_revision r = 0) \<Longrightarrow> compact_one c (i, r) (ret, tot) =
     (ret, bt_update_default (mr_entitlement_id r) default_compacted (fold_receipt r) tot)"
  by (simp_all add: compact_one_def)

lemma compact_one_keeps:
  assumes "compact_one c (i, r) (ret, tot) = (ret', tot')"
  shows "bt_wf ret \<Longrightarrow> bt_wf ret'" "bt_wf tot \<Longrightarrow> bt_wf tot'"
    "bt_get ret' j = Some x \<Longrightarrow> (j, x) = (i, r) \<or> bt_get ret j = Some x"
    "bt_contains tot' eid \<Longrightarrow> bt_contains tot eid \<or> mr_entitlement_id r = eid"
  using assms by (auto simp: compact_one_def bt_contains_def split: if_splits)

lemma compact_fold_all:
  assumes "fold (compact_one c) es (ret, tot) = (ret', tot')"
  shows "(bt_wf ret \<longrightarrow> bt_wf ret') \<and> (bt_wf tot \<longrightarrow> bt_wf tot') \<and>
    (\<forall>j x. bt_get ret' j = Some x \<longrightarrow> (j, x) \<in> set es \<or> bt_get ret j = Some x) \<and>
    (\<forall>eid. bt_contains tot' eid \<longrightarrow> bt_contains tot eid \<or> (\<exists>i r. (i, r) \<in> set es \<and> mr_entitlement_id r = eid))"
  using assms
proof (induction es arbitrary: ret tot)
  case (Cons e es)
  obtain i r where e: "e = (i, r)" by (cases e)
  obtain ret1 tot1 where one: "compact_one c (i, r) (ret, tot) = (ret1, tot1)" by (cases "compact_one c (i, r) (ret, tot)")
  have "fold (compact_one c) es (ret1, tot1) = (ret', tot')" using Cons.prems by (simp add: e one)
  note rest = Cons.IH [OF this] and keep = compact_one_keeps [OF one]
  show ?case
  proof (intro conjI allI impI)
    show "bt_wf ret \<Longrightarrow> bt_wf ret'" "bt_wf tot \<Longrightarrow> bt_wf tot'" using rest keep(1,2) by simp_all
    show "(j, x) \<in> set (e # es) \<or> bt_get ret j = Some x" if x: "bt_get ret' j = Some x" for j x
    proof -
      from rest x have "(j, x) \<in> set es \<or> bt_get ret1 j = Some x" by blast
      with keep(3) [of j x] e show ?thesis by auto
    qed
    show "bt_contains tot eid \<or> (\<exists>i r. (i, r) \<in> set (e # es) \<and> mr_entitlement_id r = eid)" if x: "bt_contains tot' eid" for eid
    proof -
      from rest x consider "bt_contains tot1 eid" | j q where "(j, q) \<in> set es" "mr_entitlement_id q = eid" by blast
      then show ?thesis
      proof cases
        case 1
        with keep(4) [of eid] e show ?thesis by auto
      next
        case 2
        then have "(j, q) \<in> set (e # es)" by simp
        with 2(2) show ?thesis by blast
      qed
    qed
  qed
qed simp

lemma compact_fold_keeps:
  assumes "fold (compact_one c) es (ret, tot) = (ret', tot')"
  shows "bt_wf ret \<Longrightarrow> bt_wf ret'" "bt_wf tot \<Longrightarrow> bt_wf tot'"
    "bt_get ret' j = Some x \<Longrightarrow> (j, x) \<in> set es \<or> bt_get ret j = Some x"
    "bt_contains tot' eid \<Longrightarrow> bt_contains tot eid \<or> (\<exists>i r. (i, r) \<in> set es \<and> mr_entitlement_id r = eid)"
  using compact_fold_all [OF assms] by blast+

lemma compact_one_sum:
  assumes "compact_one c (i, r) (ret, tot) = (ret', tot')" and "bt_wf ret" and "bt_get ret i = None"
    and "compacted_trial tot eid + trial_tokens eid r \<le> u64_max"
  shows "bt_sum (trial_tokens eid) ret' + compacted_trial tot' eid =
    bt_sum (trial_tokens eid) ret + compacted_trial tot eid + trial_tokens eid r"
proof (cases "mr_started_at_ms r \<ge> c \<or> mr_revision r = 0")
  case True
  with assms(1) bt_sum_insert [OF assms(2), of "trial_tokens eid" i r] assms(3) show ?thesis
    by (simp add: compact_one_simps)
next
  case False
  with assms(1,4) show ?thesis
    by (auto simp: compact_one_simps compacted_trial_def trial_tokens_def fold_receipt_def default_compacted_def
        saturating_add_u64_def split: option.splits if_splits)
qed

lemma compact_fold_sum:
  assumes "fold (compact_one c) es (ret, tot) = (ret', tot')" and "bt_wf ret" and "distinct (map fst es)"
    and "\<And>k. k \<in> fst ` set es \<Longrightarrow> bt_get ret k = None"
    and "compacted_trial tot eid + bt_sum (trial_tokens eid) ret + bt_sum (trial_tokens eid) es \<le> u64_max"
  shows "bt_sum (trial_tokens eid) ret' + compacted_trial tot' eid =
    bt_sum (trial_tokens eid) ret + compacted_trial tot eid + bt_sum (trial_tokens eid) es"
  using assms
proof (induction es arbitrary: ret tot)
  case (Cons e es)
  obtain i r where e: "e = (i, r)" by (cases e)
  obtain ret1 tot1 where one: "compact_one c (i, r) (ret, tot) = (ret1, tot1)" by (cases "compact_one c (i, r) (ret, tot)")
  have sum1: "bt_sum (trial_tokens eid) ret1 + compacted_trial tot1 eid =
      bt_sum (trial_tokens eid) ret + compacted_trial tot eid + trial_tokens eid r"
    using Cons.prems(5) e by (intro compact_one_sum [OF one Cons.prems(2)] Cons.prems(4)) simp_all
  have "bt_get ret1 k = None" if k: "k \<in> fst ` set es" for k
  proof (cases "bt_get ret1 k")
    case (Some x)
    with compact_one_keeps(3) [OF one Some] Cons.prems(3,4) k e have False by auto
    then show ?thesis ..
  qed simp
  then have "bt_sum (trial_tokens eid) ret' + compacted_trial tot' eid =
      bt_sum (trial_tokens eid) ret1 + compacted_trial tot1 eid + bt_sum (trial_tokens eid) es"
    using Cons.prems(1,3,5) one e sum1 compact_one_keeps(1) [OF one Cons.prems(2)]
    by (intro Cons.IH) simp_all
  with sum1 e show ?case by simp
qed simp

lemma compact_cases:
  obtains "compact at_ms s = s"
  | c ret tot where "fold (compact_one c) (sh_market_requests s) ([], sh_market_compacted_usage s) = (ret, tot)"
      "compact at_ms s = s\<lparr>sh_market_requests := ret, sh_market_compacted_usage := tot, sh_market_receipts_before_ms := c\<rparr>"
proof -
  define c where "c = max (saturate_i64 (at_ms - RECEIPT_RETENTION_MS)) 0"
  obtain ret tot where f: "fold (compact_one c) (sh_market_requests s) ([], sh_market_compacted_usage s) = (ret, tot)"
    by (cases "fold (compact_one c) (sh_market_requests s) ([], sh_market_compacted_usage s)")
  show thesis
  proof (cases "c < saturate_i64 (sh_market_receipts_before_ms s + 86400000)")
    case True
    then have "compact at_ms s = s" by (simp add: compact_def c_def [symmetric])
    then show thesis by (rule that(1))
  next
    case False
    then show thesis by (intro that(2) [OF f]) (simp add: compact_def c_def [symmetric] f)
  qed
qed

lemma compact_frame [simp]:
  "sh_market_entitlements (compact at_ms s) = sh_market_entitlements s" "sh_user_grants (compact at_ms s) = sh_user_grants s"
  by (simp_all add: compact_def Let_def split: prod.split)

lemma compact_inv:
  assumes inv: "trial_inv s"
  shows "trial_inv (compact at_ms s)"
proof (rule compact_cases [of at_ms s])
  assume "compact at_ms s = s"
  with inv show ?thesis by simp
next
  fix c ret tot assume f: "fold (compact_one c) (sh_market_requests s) ([], sh_market_compacted_usage s) = (ret, tot)"
    and t: "compact at_ms s = s\<lparr>sh_market_requests := ret, sh_market_compacted_usage := tot, sh_market_receipts_before_ms := c\<rparr>"
  note wf = receipts_okD [OF trial_invD(1) [OF inv]] and keep = compact_fold_keeps [OF f]
  have old: "bt_get ret i = Some r \<Longrightarrow> bt_get (sh_market_requests s) i = Some r" for i r
    using keep(3) [of i r] wf(1) by (simp add: bt_get_iff_mem)
  have tot: "bt_contains (sh_market_entitlements s) eid" if "bt_contains tot eid" for eid
  proof -
    from keep(4) [OF that] show ?thesis
    proof (elim disjE exE conjE)
      fix i r assume r: "(i, r) \<in> set (sh_market_requests s)" "mr_entitlement_id r = eid"
      with wf(1) have "bt_get (sh_market_requests s) i = Some r" by (simp add: bt_get_iff_mem)
      from wf(4) [OF this] r(2) show ?thesis by simp
    qed (rule wf(6))
  qed
  have "receipts_ok (compact at_ms s)"
    unfolding receipts_ok_def t
  proof (intro conjI allI impI)
    fix i r assume "bt_get (sh_market_requests (s\<lparr>sh_market_requests := ret, sh_market_compacted_usage := tot,
      sh_market_receipts_before_ms := c\<rparr>)) i = Some r"
    then have r: "bt_get (sh_market_requests s) i = Some r" using old by simp
    from wf(4) [OF r] show "bt_contains (sh_market_entitlements (s\<lparr>sh_market_requests := ret,
      sh_market_compacted_usage := tot, sh_market_receipts_before_ms := c\<rparr>)) (mr_entitlement_id r)" by simp
    from wf(5) [OF r] show "mr_revision r = 0 \<Longrightarrow> mr_tokens r = 0" .
  qed (use tot keep(1,2) wf(2,3) in simp_all)
  moreover have "accounted (compact at_ms s) eid = accounted s eid" if "bt_get (sh_market_entitlements s) eid = Some e" for eid e
    using compact_fold_sum [OF f, of eid] trial_invD(3) [OF inv that] bt_wf_distinct [OF wf(1)]
    by (simp add: t accounted_def add.commute)
  ultimately show ?thesis using trial_invD(2,3) [OF inv] by (intro trial_invI) simp_all
qed

lemma admit_cases:
  assumes "admit s email i at_ms = Ok (t, b)"
  obtains "t = s"
  | eid e g where "bt_get (sh_user_grants s) (to_ascii_lowercase (trim email)) = Some g" "ug_active g"
      "ug_entitlement_id g = Some eid" "bt_get (sh_market_entitlements s) eid = Some e" "me_active e"
      "\<not> uncertain s eid" "bt_get (sh_market_requests s) i = None"
      "admit_new s eid (to_ascii_lowercase (trim email)) (me_phase e) i at_ms = Ok (t, b)"
  using assms by (auto simp: admit_def Let_def result_iff split: option.splits if_splits)

lemma compact_get_None:
  assumes "bt_get (sh_market_requests s) i = None"
  shows "bt_get (sh_market_requests (compact at_ms s)) i = None"
proof (rule compact_cases [of at_ms s])
  fix c ret tot assume f: "fold (compact_one c) (sh_market_requests s) ([], sh_market_compacted_usage s) = (ret, tot)"
    and c: "compact at_ms s = s\<lparr>sh_market_requests := ret, sh_market_compacted_usage := tot, sh_market_receipts_before_ms := c\<rparr>"
  have "i \<notin> fst ` set (sh_market_requests s)" using assms by (simp add: bt_get_None_iff)
  then have "(i, x) \<notin> set (sh_market_requests s)" for x by force
  with compact_fold_keeps(3) [OF f, of i] c show ?thesis by (cases "bt_get ret i") auto
qed (simp add: assms)

lemma admit_inv:
  assumes "trial_inv s" and "admit s email i at_ms = Ok (t, b)"
  shows "trial_inv t"
  using assms(2)
proof (rule admit_cases)
  assume "t = s"
  with assms(1) show ?thesis by simp
next
  fix eid e g
  assume e: "bt_get (sh_market_entitlements s) eid = Some e" "bt_get (sh_market_requests s) i = None"
    and new: "admit_new s eid (to_ascii_lowercase (trim email)) (me_phase e) i at_ms = Ok (t, b)"
  have t: "t = put_receipt i (new_receipt eid (to_ascii_lowercase (trim email)) (me_phase e) at_ms) (compact at_ms s)"
    using new by (simp add: admit_new_def Let_def result_iff)
  show ?thesis
    unfolding t using e compact_get_None [OF e(2), of at_ms]
    by (intro trial_inv_put_receipt compact_inv assms(1)) (simp_all add: new_receipt_def trial_tokens_def bt_contains_def)
qed

end
