(* ===== verification/Share_Usage_Props.thy ===== *)
theory Share_Usage_Props
  imports Share_Usage
begin

section \<open>Recording usage in any order\<close>

text \<open>
  Settlements of market requests arrive out of order, while a rebuild replays the receipts in
  the order of their start. This theory shows that both give the same buckets.
\<close>

subsection \<open>Updates that commute\<close>

text \<open>
  The contract of an incremental counter: two updates may be swapped. Any two orders of the
  same updates then end in the same state.
\<close>

locale commuting_updates =
  fixes upd :: "'e \<Rightarrow> 's \<Rightarrow> 's"
  assumes commute: "upd d (upd e s) = upd e (upd d s)"
begin

lemma fold_upd_swap: "fold upd es (upd e s) = upd e (fold upd es s)"
proof (induction es arbitrary: s)
  case (Cons d es)
  have "fold upd (d # es) (upd e s) = fold upd es (upd e (upd d s))" by (simp add: commute [of d e])
  then show ?case by (simp add: Cons.IH)
qed simp

lemma fold_upd_move: "fold upd (xs @ e # ys) s = upd e (fold upd (xs @ ys) s)"
  by (simp add: fold_upd_swap)

lemma fold_upd_perm: "mset es = mset ds \<Longrightarrow> fold upd es s = fold upd ds s"
  by (rule fold_permuted_eq [where P = "\<lambda>_. True"]) (auto simp: commute)

end

lemma saturating_add_swap:
  "saturating_add_u64 (saturating_add_u64 a b) c = saturating_add_u64 (saturating_add_u64 a c) b"
  by (simp add: saturating_add_u64_def)

lemma saturating_add_again:
  "saturating_add_u64 (saturating_add_u64 a b) c = saturating_add_u64 a (b + c)"
  by (simp add: saturating_add_u64_def)

lemmas bucket_defs = record_bucket_def record_if_current_def default_bucket_def Let_def

lemma record_bucket_start [simp]: "ub_started_at_ms (record_bucket s t c b) = s"
  by (simp add: bucket_defs)

lemma record_if_current_start [simp]: "ub_started_at_ms (record_if_current s t c b) = max s (ub_started_at_ms b)"
  by (simp add: record_if_current_def)

lemma record_bucket_commute: "record_bucket s t c (record_bucket s t' c' b) = record_bucket s t' c' (record_bucket s t c b)"
  by (simp add: bucket_defs saturating_add_swap)

lemma record_if_current_commute:
  "record_if_current s t c (record_if_current s' t' c' b) = record_if_current s' t' c' (record_if_current s t c b)"
proof (cases "s = s'")
  case True
  then show ?thesis by (simp add: record_if_current_def record_bucket_commute)
next
  case False
  then show ?thesis by (simp add: bucket_defs)
qed

lemma market_anchored_start [simp]:
  "nb_period (market_anchored p a s t c ob) = p" "nb_anchor_at_ms (market_anchored p a s t c ob) = a"
  "s \<le> nb_started_at_ms (market_anchored p a s t c ob)"
  by (auto simp: market_anchored_def Let_def fixed_anchored_def anchored_add_def split: option.splits)

lemma market_anchored_commute:
  "market_anchored p a s t c (Some (market_anchored p a s' t' c' ob)) =
   market_anchored p a s' t' c' (Some (market_anchored p a s t c ob))"
  by (cases ob; cases s s' rule: linorder_cases)
    (simp_all add: market_anchored_def Let_def fixed_anchored_def anchored_add_def saturating_add_swap)

definition anchored_at :: "chrono \<Rightarrow> ShareUserPolicy \<Rightarrow> int \<Rightarrow> (int \<times> int) option" where
  "anchored_at cal policy at_ms =
     (if \<not> requires_anchor (up_token_period policy) then None
      else case token_period_window cal policy at_ms of
        Err _ \<Rightarrow> None
      | Ok window \<Rightarrow> (case (up_token_period_anchor_at_ms policy, tw_starts_at_ms window) of
          (Some anchor, Some start) \<Rightarrow> Some (anchor, start) | _ \<Rightarrow> None))"

definition with_anchored :: "(int \<times> int) option \<Rightarrow>
    (int \<Rightarrow> int \<Rightarrow> ShareAnchoredUsageBucket option \<Rightarrow> ShareAnchoredUsageBucket) \<Rightarrow> ShareUserUsage \<Rightarrow> ShareUserUsage" where
  "with_anchored w f u = (case w of None \<Rightarrow> u | Some (a, s) \<Rightarrow> u\<lparr>uu_anchored := Some (f a s (uu_anchored u))\<rparr>)"

definition delta_buckets :: "chrono \<Rightarrow> nat \<Rightarrow> int \<Rightarrow> bool \<Rightarrow> ShareUserUsage \<Rightarrow> ShareUserUsage" where
  "delta_buckets cal tokens at_ms counted usage =
     usage\<lparr>uu_lifetime := record_bucket 0 tokens counted (uu_lifetime usage),
       uu_day := record_if_current (utc_day_start_ms cal at_ms) tokens counted (uu_day usage),
       uu_week := record_if_current (utc_week_start_ms cal at_ms) tokens counted (uu_week usage),
       uu_calendar_month :=
         record_if_current (utc_calendar_month_start_ms cal at_ms) tokens counted (uu_calendar_month usage)\<rparr>"

lemma record_market_delta_parts:
  "record_market_delta cal p tokens at_ms counted u =
     with_anchored (anchored_at cal p at_ms) (\<lambda>a s. market_anchored (up_token_period p) a s tokens counted)
       (delta_buckets cal tokens at_ms counted u)"
  by (auto simp: record_market_delta_def with_anchored_def anchored_at_def delta_buckets_def Let_def
      split: sum.splits option.splits)

text \<open>The anchor is the policy's, so two windows of one policy differ in their start only.\<close>

lemma anchored_at_anchor: "anchored_at cal p t = Some (a, s) \<Longrightarrow> up_token_period_anchor_at_ms p = Some a"
  by (simp add: anchored_at_def split: if_splits sum.splits option.splits)

lemma record_market_delta_fields:
  "uu_lifetime (record_market_delta cal p t at_ms c u) = record_bucket 0 t c (uu_lifetime u)"
  "uu_day (record_market_delta cal p t at_ms c u) = record_if_current (utc_day_start_ms cal at_ms) t c (uu_day u)"
  "uu_week (record_market_delta cal p t at_ms c u) = record_if_current (utc_week_start_ms cal at_ms) t c (uu_week u)"
  "uu_calendar_month (record_market_delta cal p t at_ms c u) =
     record_if_current (utc_calendar_month_start_ms cal at_ms) t c (uu_calendar_month u)"
  "uu_anchored (record_market_delta cal p t at_ms c u) = (case anchored_at cal p at_ms of
     None \<Rightarrow> uu_anchored u | Some (a, s) \<Rightarrow> Some (market_anchored (up_token_period p) a s t c (uu_anchored u)))"
  "ShareUserUsage.more (record_market_delta cal p t at_ms c u) = ShareUserUsage.more u"
  by (simp_all add: record_market_delta_parts with_anchored_def delta_buckets_def split: option.split)

lemma anchored_delta_commute:
  "uu_anchored (record_market_delta cal p t1 a1 c1 (record_market_delta cal p t2 a2 c2 u)) =
   uu_anchored (record_market_delta cal p t2 a2 c2 (record_market_delta cal p t1 a1 c1 u))"
proof (cases "anchored_at cal p a1"; cases "anchored_at cal p a2")
  fix x y assume x: "anchored_at cal p a1 = Some x" and y: "anchored_at cal p a2 = Some y"
  then have "fst x = fst y"
    using anchored_at_anchor [of cal p a1] anchored_at_anchor [of cal p a2] by (cases x; cases y) simp
  with x y show ?thesis
    by (cases x; cases y) (simp add: record_market_delta_fields market_anchored_commute)
qed (simp_all add: record_market_delta_fields)

lemma record_market_delta_commute:
  fixes u :: ShareUserUsage
  shows "record_market_delta cal p t1 a1 c1 (record_market_delta cal p t2 a2 c2 u) =
   record_market_delta cal p t2 a2 c2 (record_market_delta cal p t1 a1 c1 u)"
  by (rule ShareUserUsage.equality)
    (simp_all only: anchored_delta_commute record_market_delta_fields(1-4,6) record_bucket_commute record_if_current_commute)

type_synonym usage_event = "nat \<times> int \<times> bool"

definition settle :: "chrono \<Rightarrow> ShareUserPolicy \<Rightarrow> usage_event \<Rightarrow> ShareUserUsage \<Rightarrow> ShareUserUsage" where
  "settle cal p e = (case e of (tokens, at_ms, counted) \<Rightarrow> record_market_delta cal p tokens at_ms counted)"

definition replay :: "chrono \<Rightarrow> ShareUserPolicy \<Rightarrow> usage_event \<Rightarrow> ShareUserUsage \<Rightarrow> ShareUserUsage" where
  "replay cal p e = (case e of (tokens, at_ms, counted) \<Rightarrow> record_for_policy_inner cal p tokens at_ms counted)"

interpretation market: commuting_updates "settle cal p" for cal p
  by unfold_locales (auto simp: settle_def record_market_delta_commute split: prod.splits)

subsection \<open>Replaying in order of time\<close>

lemma window_start_mono:
  assumes "window_start cal start stop" and "ch_valid cal t" and "ch_valid cal u" and "t \<le> u"
  shows "start t \<le> start u"
proof (rule ccontr)
  note at = assms(1) [unfolded window_start_def, THEN spec, THEN mp]
  assume less: "\<not> start t \<le> start u"
  have t: "start t \<le> t" using at [OF assms(2)] by (rule conjunct1)
  have u: "u < stop u" using at [OF assms(3), THEN conjunct2] by (rule conjunct1)
  from less t u assms(4) have "start u \<le> t" "t < stop u" by linarith+
  with at [OF assms(3), THEN conjunct2, THEN conjunct2, THEN spec, THEN mp, OF assms(2)] have "start t = start u" by simp
  with less show False by simp
qed

lemma fixed_window_mono:
  assumes "fixed_window p anchor t = Ok w" and "fixed_window p anchor u = Ok v" and "t \<le> u"
    and "tw_starts_at_ms w = Some s" and "tw_starts_at_ms v = Some r"
  shows "s \<le> r"
proof -
  from assms(1) obtain a d where a: "anchor = Some a" "duration_ms p = Some d" "0 < d"
    "w = calendar_window (a + (t - a) div d * d) (a + (t - a) div d * d + d)" by (rule fixed_window_Ok)
  from assms(2) obtain a' d' where b: "anchor = Some a'" "duration_ms p = Some d'"
    "v = calendar_window (a' + (u - a') div d' * d') (a' + (u - a') div d' * d' + d')" by (rule fixed_window_Ok)
  have "(t - a) div d * d \<le> (u - a) div d * d"
    using a(3) assms(3) by (simp add: zdiv_mono1)
  moreover from a b assms(4,5) have "s = a + (t - a) div d * d" "r = a + (u - a) div d * d"
    by (simp_all add: calendar_window_def)
  ultimately show ?thesis by linarith
qed

lemma anchored_at_mono:
  assumes "anchored_at cal p t = Some (a, s)" and "anchored_at cal p u = Some (b, r)" and "t \<le> u"
  shows "s \<le> r"
proof -
  have fw: "\<exists>w. fixed_window (up_token_period p) (up_token_period_anchor_at_ms p) v = Ok w \<and> tw_starts_at_ms w = Some x"
    if "anchored_at cal p v = Some (c, x)" for v c x
    using that by (auto simp: anchored_at_def token_period_window_def split: if_splits sum.splits option.splits
        ShareTokenPeriod.splits)
  from fw [OF assms(1)] fw [OF assms(2)] fixed_window_mono [OF _ _ assms(3)] show ?thesis by blast
qed

definition replay_anchored ::
  "ShareTokenPeriod \<Rightarrow> int \<Rightarrow> int \<Rightarrow> nat \<Rightarrow> bool \<Rightarrow> ShareAnchoredUsageBucket option \<Rightarrow> ShareAnchoredUsageBucket" where
  "replay_anchored period anchor start tokens counted ob =
     (let fresh = fixed_anchored period anchor start 0 0;
          b = (case ob of None \<Rightarrow> fresh
               | Some b \<Rightarrow> if nb_period b \<noteq> period \<or> nb_anchor_at_ms b \<noteq> anchor \<or> nb_started_at_ms b \<noteq> start
                           then fresh else b)
      in b\<lparr>nb_tokens_used := saturating_add_u64 (nb_tokens_used b) tokens,
           nb_requests_count := (if counted then saturating_add_u64 (nb_requests_count b) 1 else nb_requests_count b)\<rparr>)"

lemma record_for_policy_parts:
  "record_for_policy_inner cal p tokens at_ms counted u =
     with_anchored (anchored_at cal p at_ms) (\<lambda>a s. replay_anchored (up_token_period p) a s tokens counted)
       (record_inner cal tokens at_ms counted u)"
  by (auto simp: record_for_policy_inner_def with_anchored_def anchored_at_def replay_anchored_def Let_def
      split: sum.splits option.splits)

definition counts_ok :: "ShareUserUsage \<Rightarrow> bool" where
  "counts_ok u \<longleftrightarrow> (case uu_anchored u of None \<Rightarrow> True | Some b \<Rightarrow> nb_requests_count b \<le> u64_max)"

text \<open>No bucket of the usage belongs to a window later than the one of the instant.\<close>

definition not_after :: "chrono \<Rightarrow> ShareUserPolicy \<Rightarrow> int \<Rightarrow> ShareUserUsage \<Rightarrow> bool" where
  "not_after cal p at_ms u \<longleftrightarrow>
     ub_started_at_ms (uu_day u) \<le> utc_day_start_ms cal at_ms \<and>
     ub_started_at_ms (uu_week u) \<le> utc_week_start_ms cal at_ms \<and>
     ub_started_at_ms (uu_calendar_month u) \<le> utc_calendar_month_start_ms cal at_ms \<and>
     (\<forall>b a s. uu_anchored u = Some b \<longrightarrow> anchored_at cal p at_ms = Some (a, s) \<longrightarrow>
        nb_period b = up_token_period p \<longrightarrow> nb_anchor_at_ms b = a \<longrightarrow> nb_started_at_ms b \<le> s)"

lemma replay_anchored_market:
  assumes "\<And>b. ob = Some b \<Longrightarrow> nb_requests_count b \<le> u64_max"
    and "\<And>b. ob = Some b \<Longrightarrow> nb_period b = p \<Longrightarrow> nb_anchor_at_ms b = a \<Longrightarrow> nb_started_at_ms b \<le> s"
  shows "replay_anchored p a s t c ob = market_anchored p a s t c ob"
proof (cases ob)
  case None
  then show ?thesis
    by (simp add: replay_anchored_def market_anchored_def fixed_anchored_def anchored_add_def saturating_add_u64_def)
next
  case (Some b)
  with assms have "nb_requests_count b \<le> u64_max"
    "nb_period b = p \<Longrightarrow> nb_anchor_at_ms b = a \<Longrightarrow> nb_started_at_ms b \<le> s" by auto
  with Some show ?thesis
    by (auto simp: replay_anchored_def market_anchored_def fixed_anchored_def anchored_add_def saturating_add_u64_def)
qed

lemma replay_is_settle:
  assumes "not_after cal p at_ms u" and "counts_ok u"
  shows "record_for_policy_inner cal p tokens at_ms counted u = record_market_delta cal p tokens at_ms counted u"
proof -
  have inner: "record_inner cal tokens at_ms counted u = delta_buckets cal tokens at_ms counted u"
    using assms(1) by (simp add: not_after_def record_inner_def delta_buckets_def record_if_current_def)
  have "with_anchored (anchored_at cal p at_ms) (\<lambda>a s. replay_anchored (up_token_period p) a s tokens counted)
      (delta_buckets cal tokens at_ms counted u) =
    with_anchored (anchored_at cal p at_ms) (\<lambda>a s. market_anchored (up_token_period p) a s tokens counted)
      (delta_buckets cal tokens at_ms counted u)"
  proof (cases "anchored_at cal p at_ms")
    case (Some x)
    obtain a s where x: "x = (a, s)" by (cases x)
    have "replay_anchored (up_token_period p) a s tokens counted (uu_anchored u) =
        market_anchored (up_token_period p) a s tokens counted (uu_anchored u)"
      using assms Some x by (intro replay_anchored_market) (auto simp: not_after_def counts_ok_def)
    with Some x show ?thesis by (simp add: with_anchored_def delta_buckets_def)
  qed (simp add: with_anchored_def)
  then show ?thesis by (simp add: record_for_policy_parts record_market_delta_parts inner)
qed

lemma market_anchored_le:
  assumes "s \<le> r" and "\<And>b. ob = Some b \<Longrightarrow> nb_period b = p \<Longrightarrow> nb_anchor_at_ms b = a \<Longrightarrow> nb_started_at_ms b \<le> r"
  shows "nb_started_at_ms (market_anchored p a s t c ob) \<le> r"
proof (cases ob)
  case None
  with assms(1) show ?thesis by (simp add: market_anchored_def fixed_anchored_def anchored_add_def Let_def)
next
  case (Some b)
  from assms(2) [OF Some] assms(1) Some show ?thesis
    by (auto simp: market_anchored_def fixed_anchored_def anchored_add_def Let_def)
qed

lemma calendar_starts_mono:
  assumes "utc_calendar cal" and "ch_valid cal t" and "ch_valid cal u" and "t \<le> u"
  shows "utc_day_start_ms cal t \<le> utc_day_start_ms cal u" "utc_week_start_ms cal t \<le> utc_week_start_ms cal u"
    "utc_calendar_month_start_ms cal t \<le> utc_calendar_month_start_ms cal u"
  using window_start_mono [OF day_window [OF assms(1)] assms(2-4)]
    window_start_mono [OF week_window [OF assms(1)] assms(2-4)]
    window_start_mono [OF month_window [OF assms(1)] assms(2-4)] assms(2,3)
  by (simp_all add: utc_day_start_ms_def utc_week_start_ms_def utc_calendar_month_start_ms_def utc_datetime_def Let_def)

lemma settle_not_after:
  assumes "utc_calendar cal" and "ch_valid cal t" and "ch_valid cal u" and "t \<le> u" and "not_after cal p u x"
  shows "not_after cal p u (record_market_delta cal p tokens t counted x)"
proof -
  have "nb_started_at_ms (market_anchored (up_token_period p) a s tokens counted (uu_anchored x)) \<le> r"
    if "anchored_at cal p t = Some (a, s)" "anchored_at cal p u = Some (a, r)" for a s r
    using that anchored_at_mono [OF that assms(4)] assms(5) by (intro market_anchored_le) (auto simp: not_after_def)
  with assms(5) calendar_starts_mono [OF assms(1-4)] show ?thesis
    by (auto simp: not_after_def record_market_delta_fields split: option.splits)
qed

lemma settle_counts_ok: "counts_ok u \<Longrightarrow> counts_ok (record_market_delta cal p tokens t counted u)"
  by (auto simp: counts_ok_def record_market_delta_fields market_anchored_def anchored_add_def fixed_anchored_def Let_def
      split: option.splits)

lemma replay_sorted:
  assumes "utc_calendar cal" and "sorted (map (\<lambda>e. fst (snd e)) ds)" and "counts_ok u"
    and "\<And>e. e \<in> set ds \<Longrightarrow> ch_valid cal (fst (snd e)) \<and> not_after cal p (fst (snd e)) u"
  shows "fold (replay cal p) ds u = fold (settle cal p) ds u"
  using assms(2-)
proof (induction ds arbitrary: u)
  case (Cons d ds)
  obtain tokens t counted where d: "d = (tokens, t, counted)" by (cases d)
  have valid: "ch_valid cal t" "not_after cal p t u" using Cons.prems(3) [of d] d by simp_all
  have same: "replay cal p d u = settle cal p d u"
    using replay_is_settle [OF valid(2) Cons.prems(2)] by (simp add: d replay_def settle_def)
  have "fold (replay cal p) ds (settle cal p d u) = fold (settle cal p) ds (settle cal p d u)"
  proof (rule Cons.IH)
    show "sorted (map (\<lambda>e. fst (snd e)) ds)" using Cons.prems(1) by simp
    show "counts_ok (settle cal p d u)" using Cons.prems(2) by (simp add: d settle_def settle_counts_ok)
    fix e assume e: "e \<in> set ds"
    then have "ch_valid cal (fst (snd e)) \<and> not_after cal p (fst (snd e)) u" using Cons.prems(3) [of e] by simp
    moreover have "t \<le> fst (snd e)" using Cons.prems(1) e d by simp
    ultimately show "ch_valid cal (fst (snd e)) \<and> not_after cal p (fst (snd e)) (settle cal p d u)"
      using settle_not_after [OF assms(1) valid(1)] by (simp add: d settle_def)
  qed
  with same show ?case by simp
qed simp

subsection \<open>Property\<close>

definition fresh_usage :: "ShareUserUsageBucket \<Rightarrow> ShareUserUsage" where
  "fresh_usage l = default_usage\<lparr>uu_lifetime := l\<rparr>"

definition after_epoch :: "chrono \<Rightarrow> int \<Rightarrow> bool" where
  "after_epoch cal t \<longleftrightarrow> ch_valid cal t \<and> 0 \<le> utc_day_start_ms cal t \<and> 0 \<le> utc_week_start_ms cal t \<and>
     0 \<le> utc_calendar_month_start_ms cal t"

lemma fresh_usage_not_after: "after_epoch cal t \<Longrightarrow> ch_valid cal t \<and> not_after cal p t (fresh_usage l)"
  by (simp add: after_epoch_def not_after_def fresh_usage_def default_usage_def default_bucket_def)

text \<open>
  Settlements may arrive in any order: recording the deltas of the market requests as they
  come gives every bucket of the user, lifetime, day, week, month and anchored window, exactly
  the contents that a rebuild reaches by replaying the same requests in the order of their
  start. Saturation at the 64-bit maximum is included.
\<close>

theorem market_deltas_order_free:
  assumes "utc_calendar cal" and "mset es = mset ds" and "sorted (map (\<lambda>(tokens, at_ms, counted). at_ms) ds)"
    and "\<forall>(tokens, at_ms, counted) \<in> set es. after_epoch cal at_ms"
  shows "fold (\<lambda>(tokens, at_ms, counted). record_market_delta cal p tokens at_ms counted) es (fresh_usage l) =
    fold (\<lambda>(tokens, at_ms, counted). record_for_policy_inner cal p tokens at_ms counted) ds (fresh_usage l)"
proof -
  have sets: "set es = set ds" using assms(2) by (metis set_mset_mset)
  have at_ms: "(\<lambda>(tokens :: nat, at_ms, counted :: bool). at_ms) = (\<lambda>e. fst (snd e) :: int)" by auto
  have "fold (settle cal p) es (fresh_usage l) = fold (settle cal p) ds (fresh_usage l)"
    by (rule market.fold_upd_perm [OF assms(2)])
  also have "\<dots> = fold (replay cal p) ds (fresh_usage l)"
  proof (rule replay_sorted [OF assms(1), symmetric])
    show "sorted (map (\<lambda>e. fst (snd e)) ds)" using assms(3) by (simp add: at_ms)
    show "counts_ok (fresh_usage l)" by (simp add: counts_ok_def fresh_usage_def default_usage_def)
    fix e assume "e \<in> set ds"
    with assms(4) sets have "after_epoch cal (fst (snd e))" by auto
    then show "ch_valid cal (fst (snd e)) \<and> not_after cal p (fst (snd e)) (fresh_usage l)"
      by (rule fresh_usage_not_after)
  qed
  finally show ?thesis by (simp add: settle_def [abs_def] replay_def [abs_def])
qed

theorem market_deltas_order_free_witness:
  "uu_anchored (record_market_delta year_1970 (demo_policy SevenDays (Some 0)) 7 (10 * DAY_MS) True
     (record_market_delta year_1970 (demo_policy SevenDays (Some 0)) 5 (20 * DAY_MS) True (fresh_usage default_bucket))) =
   Some (fixed_anchored SevenDays 0 (14 * DAY_MS) 5 1)"
proof -
  let ?p = "demo_policy SevenDays (Some 0)"
  let ?ds = "[(7, 10 * DAY_MS, True), (5, 20 * DAY_MS, True)]"
  have "after_epoch year_1970 (10 * DAY_MS)" "after_epoch year_1970 (20 * DAY_MS)"
    by (simp_all add: after_epoch_def year_1970_def DAY_MS_val utc_day_start_ms_def utc_week_start_ms_def
        utc_calendar_month_start_ms_def utc_datetime_def weekday_of_def month_of_day_def)
  then have "fold (\<lambda>(tokens, at_ms, counted). record_market_delta year_1970 ?p tokens at_ms counted) (rev ?ds) (fresh_usage default_bucket) =
      fold (\<lambda>(tokens, at_ms, counted). record_for_policy_inner year_1970 ?p tokens at_ms counted) ?ds (fresh_usage default_bucket)"
    by (intro market_deltas_order_free [OF year_1970_calendar]) (simp_all add: DAY_MS_val)
  moreover have "anchored_at year_1970 ?p (10 * DAY_MS) = Some (0, 7 * DAY_MS)"
    "anchored_at year_1970 ?p (20 * DAY_MS) = Some (0, 14 * DAY_MS)"
    by (simp_all add: anchored_at_def demo_policy_def token_period_window_def fixed_window_def year_1970_def DAY_MS_val
        checked_i128_def checked_i64_def in_i64_def in_i128_def int_limits calendar_window_def)
  ultimately show ?thesis
    by (simp add: record_for_policy_parts with_anchored_def replay_anchored_def record_inner_def fixed_anchored_def
        fresh_usage_def default_usage_def demo_policy_def saturating_add_u64_def u64_max_def DAY_MS_val)
qed

end
