(* ===== verification/Market_Trials_Props.thy ===== *)
theory Market_Trials_Props
  imports Market_Trials_Inv Share_Usage_Props
begin

section \<open>Trial budgets are charged once and never reopened\<close>

text \<open>
  The market operations of a share as a transition system: admission of a request, settlement of
  its usage, settlement of its value, recovery after a restart or a restore, and the managed
  grant operations of the router. The theory shows what every run of them keeps.
\<close>

inductive market_step :: "chrono \<Rightarrow> Share \<Rightarrow> Share \<Rightarrow> bool" for cal where
  admitted: "admit s email i at_ms = Ok (t, b) \<Longrightarrow> market_step cal s t"
| recorded: "record_usage_log cal s log = Ok (t, b) \<Longrightarrow> market_step cal s t"
| valued: "record_value s i picos = Ok (t, b) \<Longrightarrow> market_step cal s t"
| recovered: "recover cal s logs restored = Ok (t, b) \<Longrightarrow> market_step cal s t"
| managed: "validate_managed_grant_operation op = Ok () \<Longrightarrow>
    apply_managed_grant_operation cal s op now_ms = Ok t \<Longrightarrow> market_step cal s t"

definition no_market :: "Share \<Rightarrow> bool" where
  "no_market s \<longleftrightarrow> sh_market_requests s = [] \<and> sh_market_entitlements s = [] \<and> sh_market_compacted_usage s = []"

subsection \<open>Value, recovery and managed grants\<close>

lemma record_value_cases:
  assumes "record_value s i picos = Ok (t, b)"
  obtains "t = s"
  | r e seen before used revision where "bt_get (sh_market_requests s) i = Some r"
      "bt_get (sh_market_entitlements s) (mr_entitlement_id r) = Some e"
      "unsigned_decimal (mr_value_picos r) = Ok seen" "seen < picos"
      "unsigned_decimal (me_trial_value_used_picos e) = Ok before" "used = before + (picos - seen)" "in_i128 used"
      "me_usage_revision e < revision"
      "t = put_receipt i (r\<lparr>mr_value_picos := show_int picos\<rparr>) (put_entitlement (mr_entitlement_id r)
         (e\<lparr>me_usage_revision := revision, me_trial_value_used_picos := show_int used\<rparr>) s)"
proof (cases "bt_get (sh_market_requests s) i")
  case None
  with assms show thesis by (intro that(1)) (simp add: record_value_def)
next
  case (Some r)
  show thesis
  proof (cases "bt_get (sh_market_entitlements s) (mr_entitlement_id r)")
    case None
    with Some assms show thesis by (intro that(1)) (simp add: record_value_def split: if_splits)
  next
    case e: (Some e)
    show thesis
    proof (cases "mr_phase r = Trial \<and> usd_trial e")
      case False
      with Some e assms show thesis by (intro that(1)) (auto simp: record_value_def split: if_splits)
    next
      case True
      with Some e assms obtain seen where seen: "unsigned_decimal (mr_value_picos r) = Ok seen"
        by (auto simp: record_value_def result_iff split: if_splits)
      show thesis
      proof (cases "picos \<le> seen")
        case le: True
        with True Some e seen assms show thesis by (intro that(1)) (auto simp: record_value_def split: if_splits)
      next
        case False
        with True Some e seen assms obtain before used revision where v:
          "unsigned_decimal (me_trial_value_used_picos e) = Ok before"
          "checked_i128 (before + (picos - seen)) = Some used" "checked_add_u64 (me_usage_revision e) 1 = Some revision"
          "t = put_receipt i (r\<lparr>mr_value_picos := show_int picos\<rparr>) (put_entitlement (mr_entitlement_id r)
             (e\<lparr>me_usage_revision := revision, me_trial_value_used_picos := show_int used\<rparr>) s)"
          by (auto simp: record_value_def result_iff split: if_splits)
        with False show thesis by (intro that(2) [OF Some e seen _ v(1) _ _ _ v(4)]) auto
      qed
    qed
  qed
qed

lemma record_value_inv:
  assumes "trial_inv s" and "record_value s i picos = Ok (t, b)"
  shows "trial_inv t"
  using assms(2)
proof (rule record_value_cases)
  assume "t = s"
  with assms(1) show ?thesis by simp
next
  fix r e revision used
  assume r: "bt_get (sh_market_requests s) i = Some r" and e: "bt_get (sh_market_entitlements s) (mr_entitlement_id r) = Some e"
    and t: "t = put_receipt i (r\<lparr>mr_value_picos := show_int picos\<rparr>) (put_entitlement (mr_entitlement_id r)
      (e\<lparr>me_usage_revision := revision, me_trial_value_used_picos := show_int used\<rparr>) s)"
  note ok = trial_invD(1) [OF assms(1)]
  show ?thesis
    unfolding t using r receipts_okD(5) [OF ok r]
    by (intro trial_inv_put_receipt trial_inv_put_entitlement [OF assms(1) e])
      (simp_all add: trial_tokens_def bt_contains_def)
qed

lemma recover_all_induct:
  assumes "recover_all cal logs is (s, c) = Ok (t, b)" and "P s"
    and rec: "\<And>s log t b. P s \<Longrightarrow> record_usage_log cal s log = Ok (t, b) \<Longrightarrow> P t"
    and unc: "\<And>s eid e. P s \<Longrightarrow> bt_get (sh_market_entitlements s) eid = Some e \<Longrightarrow>
      P (put_entitlement eid (e\<lparr>me_usage_uncertain := True\<rparr>) s)"
  shows "P t"
  using assms(1,2)
proof (induction "is" arbitrary: s c)
  case (Cons i "is")
  from Cons.prems(1) obtain s1 c1 where one: "recover_one cal logs i (s, c) = Ok (s1, c1)"
    and rest: "recover_all cal logs is (s1, c1) = Ok (t, b)" by (auto simp: result_iff)
  from one obtain s2 d where s2: "s2 = s \<or> (\<exists>log. record_usage_log cal s log = Ok (s2, d))"
    and s1: "s1 = s2 \<or> (\<exists>eid e. bt_get (sh_market_entitlements s2) eid = Some e \<and>
      s1 = put_entitlement eid (e\<lparr>me_usage_uncertain := True\<rparr>) s2)"
    by (auto simp: recover_one_def result_iff split: option.splits if_splits)
  from s2 Cons.prems(2) rec have "P s2" by blast
  with s1 unc have "P s1" by blast
  with Cons.IH rest show ?case by blast
qed simp

lemma recover_induct:
  assumes "recover cal s logs restored = Ok (t, b)" and "P s"
    and "\<And>s log t b. P s \<Longrightarrow> record_usage_log cal s log = Ok (t, b) \<Longrightarrow> P t"
    and "\<And>s eid e. P s \<Longrightarrow> bt_get (sh_market_entitlements s) eid = Some e \<Longrightarrow>
      P (put_entitlement eid (e\<lparr>me_usage_uncertain := True\<rparr>) s)"
    and restore: "\<And>s. P s \<Longrightarrow> P (s\<lparr>sh_market_entitlements := bt_map_values restore_entitlement (sh_market_entitlements s)\<rparr>)"
  shows "P t"
proof -
  from assms(1) obtain s1 c where s1: "recover_all cal logs
      (map fst (filter (\<lambda>(i, r). mr_revision r = 0) (sh_market_requests s))) (s, False) = Ok (s1, c)"
    and t: "t = s1 \<or> t = s1\<lparr>sh_market_entitlements := bt_map_values restore_entitlement (sh_market_entitlements s1)\<rparr>"
    by (auto simp: recover_def Let_def result_iff split: if_splits)
  from recover_all_induct [OF s1 assms(2-4)] have "P s1" .
  with t restore show ?thesis by blast
qed

lemma recover_inv:
  assumes "trial_inv s" and "recover cal s logs restored = Ok (t, b)"
  shows "trial_inv t"
proof (rule recover_induct [OF assms(2), of trial_inv])
  fix s assume s: "trial_inv s"
  have "map_option me_trial_tokens_used (map_option restore_entitlement x) = map_option me_trial_tokens_used x" for x
    by (cases x) (simp_all add: restore_entitlement_def)
  with s receipts_okD(2) [OF trial_invD(1) [OF s]]
  show "trial_inv (s\<lparr>sh_market_entitlements := bt_map_values restore_entitlement (sh_market_entitlements s)\<rparr>)"
    by (intro trial_inv_entitlements) simp_all
qed (use assms(1) record_usage_log_inv trial_inv_put_entitlement in auto)

text \<open>What a managed operation does to the market's part of the share.\<close>

lemma managed_cases:
  assumes "apply_managed_grant_operation cal s op now_ms = Ok t"
  obtains (kept) "same_market t s"
  | (off) e where "bt_get (sh_market_entitlements s) (mo_entitlement_id op) = Some e"
      "same_market t (put_entitlement (mo_entitlement_id op) (e\<lparr>me_active := False\<rparr>) s)"
  | (on) email phase now where "check_market_phase s op email phase = Ok ()"
      "same_market t (s\<lparr>sh_market_entitlements := bt_update_default (mo_entitlement_id op) (new_entitlement op email phase now)
         (activate_entitlement phase now) (sh_market_entitlements s)\<rparr>)"
proof -
  from assms obtain email where email: "normalize_verified_email (mo_email op) = Ok email"
    and step: "(case mo_action op of
       Upsert \<Rightarrow> rbind (upsert_guard s op email (to_i64 now_ms)) (\<lambda>policy.
         Ok (project cal (upsert_grant op email policy now_ms (upsert_entitlement op email (to_i64 now_ms) s))))
     | Revoke \<Rightarrow> revoke s op email now_ms) = Ok t"
    by (auto simp: apply_managed_grant_operation_def result_iff)
  show thesis
  proof (cases "mo_action op")
    case Upsert
    with step obtain policy where guard: "upsert_guard s op email (to_i64 now_ms) = Ok policy"
      and t: "t = project cal (upsert_grant op email policy now_ms (upsert_entitlement op email (to_i64 now_ms) s))"
      by (auto simp: result_iff)
    show thesis
    proof (cases "mo_market_phase op")
      case None
      with t show thesis by (intro kept) (simp add: same_market_def project_def upsert_grant_def upsert_entitlement_def)
    next
      case (Some phase)
      with guard have "check_market_phase s op email phase = Ok ()" by (auto simp: upsert_guard_def result_iff)
      with Some t show thesis
        by (intro on [of email phase "to_i64 now_ms"])
          (simp_all add: same_market_def project_def upsert_grant_def upsert_entitlement_def)
    qed
  next
    case Revoke
    with step have r: "revoke s op email now_ms = Ok t" by simp
    have ack: "same_market (acknowledge op s) s" by (simp add: same_market_def acknowledge_def split: option.split)
    have "same_market t (deactivate_entitlement (mo_entitlement_id op) (acknowledge op s))"
      using r by (auto simp: revoke_def Let_def same_market_def split: option.splits prod.splits if_splits)
    with ack show thesis
      by (cases "bt_get (sh_market_entitlements s) (mo_entitlement_id op)")
        (auto simp: deactivate_entitlement_def same_market_def intro: kept off)
  qed
qed

lemma managed_inv:
  assumes inv: "trial_inv s" and "apply_managed_grant_operation cal s op now_ms = Ok t"
  shows "trial_inv t"
  using assms(2)
proof (cases rule: managed_cases)
  case kept
  with inv show ?thesis by (simp add: same_market_inv)
next
  case (off e)
  with trial_inv_put_entitlement [OF inv off(1)] show ?thesis by (simp add: same_market_inv)
next
  case (on email phase now)
  let ?m = "bt_update_default (mo_entitlement_id op) (new_entitlement op email phase now)
    (activate_entitlement phase now) (sh_market_entitlements s)"
  note wf = receipts_okD [OF trial_invD(1) [OF inv]]
  have fresh: "accounted s (mo_entitlement_id op) = 0" if none: "bt_get (sh_market_entitlements s) (mo_entitlement_id op) = None"
  proof -
    have "bt_sum (trial_tokens (mo_entitlement_id op)) (sh_market_requests s) = bt_sum (\<lambda>_. 0) (sh_market_requests s)"
    proof (rule bt_sum_cong)
      fix i r assume "(i, r) \<in> set (sh_market_requests s)"
      then have "bt_contains (sh_market_entitlements s) (mr_entitlement_id r)"
        using wf(1,4) by (simp add: bt_get_iff_mem)
      with none show "trial_tokens (mo_entitlement_id op) r = 0" by (auto simp: trial_tokens_def bt_contains_def)
    qed
    moreover have "bt_get (sh_market_compacted_usage s) (mo_entitlement_id op) = None"
      using wf(6) [of "mo_entitlement_id op"] none
      by (cases "bt_get (sh_market_compacted_usage s) (mo_entitlement_id op)") (simp_all add: bt_contains_def)
    ultimately show ?thesis by (simp add: accounted_def compacted_trial_def bt_sum_def)
  qed
  have "receipts_ok (s\<lparr>sh_market_entitlements := ?m\<rparr>)"
    using trial_invD(1) [OF inv] unfolding receipts_ok_def by (auto simp: bt_contains_def)
  moreover have "me_trial_tokens_used x = accounted s eid \<and> accounted s eid \<le> u64_max" if "bt_get ?m eid = Some x" for eid x
    using that fresh trial_invD(2,3) [OF inv, of eid]
    by (cases "bt_get (sh_market_entitlements s) eid")
      (auto simp: activate_entitlement_def new_entitlement_def split: if_splits)
  ultimately have "trial_inv (s\<lparr>sh_market_entitlements := ?m\<rparr>)" by (intro trial_invI) simp_all
  with on(2) show ?thesis by (simp add: same_market_inv)
qed

lemma market_step_inv: "trial_inv s \<Longrightarrow> market_step cal s t \<Longrightarrow> trial_inv t"
  by (erule market_step.cases) (auto intro: admit_inv record_usage_log_inv record_value_inv recover_inv managed_inv)

lemma no_market_inv: "no_market s \<Longrightarrow> trial_inv s"
  by (simp add: no_market_def trial_inv_def receipts_ok_def bt_contains_def)

interpretation trials: transition_system no_market "market_step cal" trial_inv for cal
  by unfold_locales (auto intro: no_market_inv market_step_inv)

subsection \<open>Entitlements only grow\<close>

definition picos_le :: "string \<Rightarrow> string \<Rightarrow> bool" where
  "picos_le a b = (case unsigned_decimal a of Err _ \<Rightarrow> b = a
     | Ok n \<Rightarrow> (case unsigned_decimal b of Err _ \<Rightarrow> False | Ok k \<Rightarrow> n \<le> k))"

lemma picos_le_refl [simp]: "picos_le a a"
  by (simp add: picos_le_def split: sum.split)

lemma picos_le_trans: "picos_le a b \<Longrightarrow> picos_le b c \<Longrightarrow> picos_le a c"
  by (auto simp: picos_le_def split: sum.splits)

definition ent_le :: "ShareMarketEntitlement \<Rightarrow> ShareMarketEntitlement \<Rightarrow> bool" where
  "ent_le e f \<longleftrightarrow> me_trial_scope_id f = me_trial_scope_id e \<and> me_email f = me_email e \<and>
     me_trial_token_limit f = me_trial_token_limit e \<and> me_trial_token_allowance f = me_trial_token_allowance e \<and>
     me_trial_value_limit_usd_micros f = me_trial_value_limit_usd_micros e \<and>
     me_trial_value_allowance_usd_micros f = me_trial_value_allowance_usd_micros e \<and>
     me_trial_tokens_used e \<le> me_trial_tokens_used f \<and> me_usage_revision e \<le> me_usage_revision f \<and>
     picos_le (me_trial_value_used_picos e) (me_trial_value_used_picos f) \<and>
     (me_usage_uncertain e \<longrightarrow> me_usage_uncertain f) \<and> (me_phase e = Paid \<longrightarrow> me_phase f = Paid)"

lemma ent_le_refl [simp]: "ent_le e e"
  by (simp add: ent_le_def)

lemma ent_le_trans: "ent_le d e \<Longrightarrow> ent_le e f \<Longrightarrow> ent_le d f"
  unfolding ent_le_def by (auto intro: picos_le_trans)

definition ents_le :: "Share \<Rightarrow> Share \<Rightarrow> bool" where
  "ents_le s t \<longleftrightarrow> (\<forall>eid e. bt_get (sh_market_entitlements s) eid = Some e \<longrightarrow>
     (\<exists>f. bt_get (sh_market_entitlements t) eid = Some f \<and> ent_le e f))"

lemma ents_leD:
  assumes "ents_le s t" and "bt_get (sh_market_entitlements s) eid = Some e"
  obtains f where "bt_get (sh_market_entitlements t) eid = Some f" "ent_le e f"
  using assms by (auto simp: ents_le_def)

lemma ents_le_same: "sh_market_entitlements t = sh_market_entitlements s \<Longrightarrow> ents_le s t"
  by (simp add: ents_le_def)

lemma ents_le_trans: "ents_le r s \<Longrightarrow> ents_le s t \<Longrightarrow> ents_le r t"
  by (meson ents_le_def ent_le_trans)

lemma ents_le_put:
  "bt_get (sh_market_entitlements s) eid = Some e \<Longrightarrow> ent_le e f \<Longrightarrow>
   sh_market_entitlements t = bt_insert eid f (sh_market_entitlements s) \<Longrightarrow> ents_le s t"
  by (auto simp: ents_le_def)

lemma adopt_entitlements [simp]: "sh_market_entitlements (adopt_receipt log s) = sh_market_entitlements s"
  by (simp add: adopt_receipt_def split: option.split)

lemma record_cases:
  assumes "record_usage_log cal s log = Ok (t, b)"
  obtains (same) "t = adopt_receipt log s" "\<not> b"
  | (settled) r where "bt_get (sh_market_requests (adopt_receipt log s)) (ul_request_id log) = Some r"
      "\<not> identity_changed (adopt_receipt log s) r log" "ul_usage_state log \<noteq> Pending"
      "mr_tokens r \<le> quota_tokens log" "mr_revision r < max (ul_usage_revision log) 1"
      "settle_receipt cal (adopt_receipt log s) log r (quota_tokens log) (max (ul_usage_revision log) 1) = Ok (t, b)"
  using assms by (auto simp: record_usage_log_def Let_def split: option.splits if_splits)

lemma settle_receipt_cases:
  assumes "settle_receipt cal s log r tokens revision = Ok (t, b)"
  obtains e e' where "bt_get (sh_market_entitlements s) (mr_entitlement_id r) = Some e"
    "charge_entitlement (r\<lparr>mr_tokens := tokens, mr_revision := revision\<rparr>)
       (usage_unknown (r\<lparr>mr_tokens := tokens, mr_revision := revision\<rparr>) log) (tokens - mr_tokens r) e = Ok e'"
    "t = charge_grant cal (r\<lparr>mr_tokens := tokens, mr_revision := revision\<rparr>) e' (tokens - mr_tokens r)
       (mr_revision r = 0 \<and> mr_count_request r)
       (put_entitlement (mr_entitlement_id r) e' (put_receipt (ul_request_id log)
         (r\<lparr>mr_tokens := tokens, mr_revision := revision\<rparr>) s))" "b"
  using assms by (auto simp: settle_receipt_def Let_def result_iff)

lemma charge_entitlement_le: "charge_entitlement r u d e = Ok f \<Longrightarrow> ent_le e f"
  by (auto simp: charge_entitlement_def Let_def result_iff ent_le_def split: if_splits)

lemma record_usage_log_le:
  assumes "record_usage_log cal s log = Ok (t, b)"
  shows "ents_le s t"
  using assms
proof (cases rule: record_cases)
  case same
  then show ?thesis by (simp add: ents_le_same)
next
  case (settled r)
  from settled(6) show ?thesis
    by (rule settle_receipt_cases) (auto intro: ents_le_put charge_entitlement_le)
qed

lemma admit_le: "admit s email i at_ms = Ok (t, b) \<Longrightarrow> ents_le s t"
  by (erule admit_cases) (auto simp: admit_new_def Let_def result_iff intro: ents_le_same)

lemma record_value_le:
  assumes "record_value s i picos = Ok (t, b)"
  shows "ents_le s t"
  using assms
proof (rule record_value_cases)
  fix r e seen before used revision
  assume e: "bt_get (sh_market_entitlements s) (mr_entitlement_id r) = Some e" and "seen < picos"
    and v: "unsigned_decimal (me_trial_value_used_picos e) = Ok before" "used = before + (picos - seen)" "in_i128 used"
    and "me_usage_revision e < revision"
    and t: "t = put_receipt i (r\<lparr>mr_value_picos := show_int picos\<rparr>) (put_entitlement (mr_entitlement_id r)
      (e\<lparr>me_usage_revision := revision, me_trial_value_used_picos := show_int used\<rparr>) s)"
  from unsigned_decimal_Ok [OF v(1)] have "0 \<le> before" by auto
  with v \<open>seen < picos\<close> unsigned_decimal_show [of "nat used"] have "unsigned_decimal (show_int used) = Ok used"
    by (simp add: show_int_nat in_i128_def)
  with e v \<open>seen < picos\<close> \<open>me_usage_revision e < revision\<close> show ?thesis
    by (intro ents_le_put [OF e, of "e\<lparr>me_usage_revision := revision, me_trial_value_used_picos := show_int used\<rparr>"])
      (simp_all add: ent_le_def picos_le_def t)
qed (simp add: ents_le_same)

lemma recover_le:
  assumes "recover cal s logs restored = Ok (t, b)"
  shows "ents_le s t"
proof (rule recover_induct [OF assms, of "ents_le s"])
  show "ents_le s s" by (simp add: ents_le_same)
  show "ents_le s x \<Longrightarrow> record_usage_log cal x log = Ok (y, c) \<Longrightarrow> ents_le s y" for x log y c
    using record_usage_log_le ents_le_trans by blast
  show "ents_le s (put_entitlement eid (e\<lparr>me_usage_uncertain := True\<rparr>) x)"
    if "ents_le s x" "bt_get (sh_market_entitlements x) eid = Some e" for x eid e
    by (rule ents_le_trans [OF that(1)], rule ents_le_put [OF that(2)]) (simp_all add: ent_le_def)
  show "ents_le s (x\<lparr>sh_market_entitlements := bt_map_values restore_entitlement (sh_market_entitlements x)\<rparr>)"
    if "ents_le s x" for x
    by (rule ents_le_trans [OF that]) (simp add: ents_le_def restore_entitlement_def ent_le_def)
qed

lemma managed_le:
  assumes "apply_managed_grant_operation cal s op now_ms = Ok t"
  shows "ents_le s t"
  using assms
proof (cases rule: managed_cases)
  case kept
  then show ?thesis by (simp add: ents_le_same same_market_def)
next
  case (off e)
  then show ?thesis by (intro ents_le_put [OF off(1)]) (simp_all add: same_market_def ent_le_def)
next
  case (on email phase now)
  show ?thesis
    unfolding ents_le_def
  proof (intro allI impI)
    fix eid e assume e: "bt_get (sh_market_entitlements s) eid = Some e"
    have "me_phase e = Paid \<Longrightarrow> phase = Paid" if "eid = mo_entitlement_id op"
      using on(1) e that
      by (cases phase) (auto simp: check_market_phase_def validate_transition_def result_iff split: if_splits)
    with e on(2) show "\<exists>f. bt_get (sh_market_entitlements t) eid = Some f \<and> ent_le e f"
      by (auto simp: same_market_def activate_entitlement_def ent_le_def)
  qed
qed

lemma market_step_le: "market_step cal s t \<Longrightarrow> ents_le s t"
  by (erule market_step.cases) (auto intro: admit_le record_usage_log_le record_value_le recover_le managed_le)

lemma market_run_le: "(market_step cal)\<^sup>*\<^sup>* s t \<Longrightarrow> ents_le s t"
  by (induction rule: rtranclp_induct) (auto intro: ents_le_same ents_le_trans market_step_le)

subsection \<open>Exhaustion and uncertainty last\<close>

lemma mem_same_scope:
  "bt_wf (sh_market_entitlements s) \<Longrightarrow> x \<in> set (same_scope s e) \<longleftrightarrow>
     (\<exists>k. bt_get (sh_market_entitlements s) k = Some x) \<and> me_trial_scope_id x = me_trial_scope_id e"
  by (auto simp: same_scope_def mem_bt_values bt_get_iff_mem)

lemma same_scope_grows:
  assumes "ents_le s t" and "bt_wf (sh_market_entitlements s)" and "bt_wf (sh_market_entitlements t)" and "ent_le e f"
    and "x \<in> set (same_scope s e)"
  obtains y where "y \<in> set (same_scope t f)" "ent_le x y"
proof -
  from assms(2,5) obtain k where k: "bt_get (sh_market_entitlements s) k = Some x"
    and scope: "me_trial_scope_id x = me_trial_scope_id e" by (auto simp: mem_same_scope)
  from assms(1) k obtain y where y: "bt_get (sh_market_entitlements t) k = Some y" "ent_le x y" by (rule ents_leD)
  from y scope assms(4) have "y \<in> set (same_scope t f)" by (auto simp: mem_same_scope [OF assms(3)] ent_le_def)
  with y(2) show thesis by (rule that [rotated])
qed

lemma scope_sum_grows:
  assumes "ents_le s t" and "bt_wf (sh_market_entitlements s)" and "bt_wf (sh_market_entitlements t)" and "ent_le e f"
    and "\<And>x y. ent_le x y \<Longrightarrow> (h x :: nat) \<le> h y"
  shows "sum_list (map h (same_scope s e)) \<le> sum_list (map h (same_scope t f))"
proof -
  have scope: "me_trial_scope_id f = me_trial_scope_id e" using assms(4) by (simp add: ent_le_def)
  show ?thesis
    unfolding same_scope_def bt_sum_filter scope
  proof (rule bt_sum_mono [OF assms(2,3)])
    fix k x assume "bt_get (sh_market_entitlements s) k = Some x"
    with assms(1) obtain y where y: "bt_get (sh_market_entitlements t) k = Some y" "ent_le x y" by (rule ents_leD)
    with assms(5) [OF y(2)] show "\<exists>w. bt_get (sh_market_entitlements t) k = Some w \<and>
        (if me_trial_scope_id x = me_trial_scope_id e then h x else 0) \<le>
        (if me_trial_scope_id w = me_trial_scope_id e then h w else 0)" by (auto simp: ent_le_def)
  qed
qed

lemma scope_tokens_sum: "scope_tokens es = min u64_max (sum_list (map me_trial_tokens_used es))"
proof -
  have "a \<le> u64_max \<Longrightarrow> fold (\<lambda>e acc. saturating_add_u64 acc (me_trial_tokens_used e)) es a =
      min u64_max (a + sum_list (map me_trial_tokens_used es))" for a
    by (induction es arbitrary: a) (auto simp: saturating_add_u64_def)
  from this [of 0] show ?thesis by (simp add: scope_tokens_def)
qed

definition parses :: "ShareMarketEntitlement \<Rightarrow> bool" where
  "parses e = is_ok (unsigned_decimal (me_trial_value_used_picos e))"

definition picos_val :: "ShareMarketEntitlement \<Rightarrow> nat" where
  "picos_val e = (case unsigned_decimal (me_trial_value_used_picos e) of Err _ \<Rightarrow> 0 | Ok n \<Rightarrow> nat n)"

lemma ent_le_picos: "ent_le x y \<Longrightarrow> picos_val x \<le> picos_val y" "ent_le x y \<Longrightarrow> parses x = parses y"
  by (auto simp: ent_le_def picos_le_def picos_val_def parses_def split: sum.splits)

lemma sum_picos_eq:
  "0 \<le> acc \<Longrightarrow> acc \<le> i128_max \<Longrightarrow> sum_picos acc es =
     (if list_all parses es \<and> acc + int (sum_list (map picos_val es)) \<le> i128_max
      then Some (acc + int (sum_list (map picos_val es))) else None)"
proof (induction es arbitrary: acc)
  case (Cons e es)
  show ?case
  proof (cases "unsigned_decimal (me_trial_value_used_picos e)")
    case (Inl a)
    then show ?thesis by (simp add: parses_def)
  next
    case (Inr n)
    with unsigned_decimal_Ok [of "me_trial_value_used_picos e" n] have "0 \<le> n" by auto
    with Inr Cons.prems show ?thesis
      using Cons.IH [of "acc + n"]
      by (cases "acc + n \<le> i128_max")
        (auto simp: checked_i128_def in_i128_def int_limits parses_def picos_val_def split: option.split)
  qed
qed simp

lemma value_exhausted_eq:
  "value_exhausted s e =
     ((case me_trial_value_limit_usd_micros e of None \<Rightarrow> False
       | Some l \<Rightarrow> (case micros_to_picos l of None \<Rightarrow> True | Some p \<Rightarrow> \<not> parses e \<or> p \<le> int (picos_val e))) \<or>
      (case me_trial_value_allowance_usd_micros e of None \<Rightarrow> False
       | Some a \<Rightarrow> (case micros_to_picos a of None \<Rightarrow> True
           | Some p \<Rightarrow> \<not> list_all parses (same_scope s e) \<or> i128_max < int (sum_list (map picos_val (same_scope s e))) \<or>
               p \<le> int (sum_list (map picos_val (same_scope s e))))))"
proof -
  have limit: "(case (l, ok_value (unsigned_decimal (me_trial_value_used_picos e))) of
      (Some limit, Some used) \<Rightarrow> \<not> used < limit | _ \<Rightarrow> True) =
    (case l of None \<Rightarrow> True | Some p \<Rightarrow> \<not> parses e \<or> p \<le> int (picos_val e))" for l
  proof (cases "unsigned_decimal (me_trial_value_used_picos e)")
    case (Inr n)
    with unsigned_decimal_Ok [of "me_trial_value_used_picos e" n] have "0 \<le> n" by auto
    with Inr show ?thesis by (simp add: ok_value_def parses_def picos_val_def not_less split: option.split)
  qed (simp add: ok_value_def parses_def split: option.split)
  have "0 \<le> i128_max" by (simp add: i128_max_def)
  then show ?thesis
    unfolding value_exhausted_def limit by (auto simp: sum_picos_eq split: option.splits)
qed

lemma value_exhausted_lasts:
  assumes "ents_le s t" and "bt_wf (sh_market_entitlements s)" and "bt_wf (sh_market_entitlements t)" and "ent_le e f"
    and "value_exhausted s e"
  shows "value_exhausted t f"
proof -
  have sum: "sum_list (map picos_val (same_scope s e)) \<le> sum_list (map picos_val (same_scope t f))"
    by (rule scope_sum_grows [OF assms(1-4) ent_le_picos(1)])
  have all: "list_all parses (same_scope t f) \<Longrightarrow> list_all parses (same_scope s e)"
  proof (unfold list_all_iff, rule ballI)
    fix x assume parsed: "\<forall>y \<in> set (same_scope t f). parses y" and "x \<in> set (same_scope s e)"
    from this(2) obtain y where "y \<in> set (same_scope t f)" "ent_le x y" by (rule same_scope_grows [OF assms(1-4)])
    with parsed ent_le_picos(2) show "parses x" by blast
  qed
  have same: "me_trial_value_limit_usd_micros f = me_trial_value_limit_usd_micros e"
    "me_trial_value_allowance_usd_micros f = me_trial_value_allowance_usd_micros e"
    using assms(4) by (simp_all add: ent_le_def)
  from assms(5) sum all ent_le_picos [OF assms(4)] show ?thesis
    unfolding value_exhausted_eq same by (auto split: option.splits)
qed

lemma exhausted_lasts:
  assumes "ents_le s t" and "bt_wf (sh_market_entitlements s)" and "bt_wf (sh_market_entitlements t)"
    and "exhausted s eid" and "bt_get (sh_market_entitlements t) eid = Some f" and "me_phase f = Trial"
  shows "exhausted t eid"
proof -
  from assms(4) obtain e where e: "bt_get (sh_market_entitlements s) eid = Some e"
    by (auto simp: exhausted_def split: option.splits)
  from assms(1) e assms(5) have le: "ent_le e f" by (auto elim: ents_leD)
  note grows = scope_sum_grows [OF assms(1-3) le, of me_trial_tokens_used]
  have sum: "scope_tokens (same_scope s e) \<le> scope_tokens (same_scope t f)"
    unfolding scope_tokens_sum by (intro min.mono order_refl grows) (simp add: ent_le_def)
  have same: "me_trial_token_limit f = me_trial_token_limit e" "me_trial_token_allowance f = me_trial_token_allowance e"
    "me_trial_tokens_used e \<le> me_trial_tokens_used f" using le by (simp_all add: ent_le_def)
  have old: "(case me_trial_token_limit e of None \<Rightarrow> False | Some l \<Rightarrow> l \<le> me_trial_tokens_used e) \<or>
      (case me_trial_token_allowance e of None \<Rightarrow> False | Some l \<Rightarrow> l \<le> scope_tokens (same_scope s e)) \<or> value_exhausted s e"
    using assms(4) e by (simp add: exhausted_def)
  have "(case me_trial_token_limit f of None \<Rightarrow> False | Some l \<Rightarrow> l \<le> me_trial_tokens_used f) \<or>
      (case me_trial_token_allowance f of None \<Rightarrow> False | Some l \<Rightarrow> l \<le> scope_tokens (same_scope t f)) \<or> value_exhausted t f"
    using old same sum value_exhausted_lasts [OF assms(1-3) le] by (auto split: option.splits)
  with assms(5,6) show ?thesis by (simp add: exhausted_def)
qed

lemma uncertain_lasts:
  assumes "ents_le s t" and "bt_wf (sh_market_entitlements s)" and "bt_wf (sh_market_entitlements t)" and "uncertain s eid"
  shows "uncertain t eid"
proof -
  from assms(4) obtain e x where e: "bt_get (sh_market_entitlements s) eid = Some e"
    and x: "x \<in> set (same_scope s e)" "me_usage_uncertain x"
    by (auto simp: uncertain_def list_ex_iff split: option.splits)
  from assms(1) e obtain f where f: "bt_get (sh_market_entitlements t) eid = Some f" "ent_le e f" by (rule ents_leD)
  from same_scope_grows [OF assms(1-3) f(2) x(1)] obtain y where "y \<in> set (same_scope t f)" "ent_le x y" .
  with x(2) f(1) show ?thesis by (auto simp: uncertain_def list_ex_iff ent_le_def)
qed

end
