(* ===== verification/Market_Claims.thy ===== *)
theory Market_Claims
  imports Market_Trials_Props
begin

section \<open>Properties of market trials\<close>

text \<open>
  The properties of the market operations, with a run on a concrete share: a trial is granted,
  a request admitted and settled.
\<close>

subsection \<open>A run\<close>

definition demo_share :: Share where
  "demo_share = \<lparr>sh_id = ''s'', sh_owner_email = None, sh_app = Codex, sh_display_name = None, sh_enabled = True,
     sh_status = ''active'', sh_token_limit = None, sh_parallel_limit = None, sh_expires_at = None, sh_free_access = False,
     sh_tokens_used = 0, sh_requests_count = 0, sh_enabled_apps = None, sh_bindings = [Codex], sh_last_error = None,
     sh_router_last_sync_error = None, sh_config_revision = 1, sh_user_grants = [], sh_market_entitlements = [],
     sh_market_requests = [], sh_pending_market_termination_acks = [], sh_market_compacted_usage = [],
     sh_market_receipts_before_ms = 0\<rparr>"

definition demo_op :: ShareManagedGrantOperation where
  "demo_op = \<lparr>mo_termination = None, mo_operation_id = ''o'', mo_entitlement_id = ''e'', mo_share_sequence = 1,
     mo_expected_config_revision = 1, mo_action = Upsert, mo_email = ''u@x.y'', mo_policy = Some (demo_policy Lifetime None),
     mo_duration_seconds = None, mo_market_phase = Some Trial, mo_trial_scope_id = Some ''t'',
     mo_trial_token_allowance = Some 5, mo_trial_token_limit = Some 5, mo_trial_value_allowance_usd_micros = None,
     mo_trial_value_limit_usd_micros = None\<rparr>"

definition demo_receipt_log :: UsageLog where
  "demo_receipt_log = \<lparr>ul_request_id = ''r'', ul_quota_attribution = None, ul_record_kind = UserInference,
     ul_parent_request_id = None, ul_provider_id = ''p'', ul_failure_kind = None, ul_started_at_ms = 864000000,
     ul_completed_at_ms = 864000500, ul_input_tokens = Some 5, ul_output_tokens = Some 2, ul_cache_read_tokens = None,
     ul_cache_creation_tokens = None, ul_total_tokens = None, ul_share_id = Some ''s'', ul_user_email = Some ''u@x.y'',
     ul_usage_state = Observed, ul_usage_revision = 1, ul_created_at_ms = 864000500, ul_status_code = 200,
     ul_is_health_check = False\<rparr>"

definition demo_granted :: Share where
  "demo_granted = demo_share\<lparr>
     sh_user_grants := [(''u@x.y'', market_grant None ''u@x.y'' (demo_policy Lifetime None) ''e'' 1000)],
     sh_market_entitlements := [(''e'', new_entitlement demo_op ''u@x.y'' Trial 1000)]\<rparr>"

definition demo_admitted :: Share where
  "demo_admitted = demo_granted\<lparr>sh_market_requests := [(''r'', new_receipt ''e'' ''u@x.y'' Trial 864000000)]\<rparr>"

lemma demo_email: "to_ascii_lowercase (trim ''u@x.y'') = ''u@x.y''" "normalize_verified_email ''u@x.y'' = Ok ''u@x.y''"
  by code_simp+

lemma demo_managed_ok: "validate_managed_grant_operation demo_op = Ok ()"
proof -
  have "trim ''o'' \<noteq> []" "trim ''e'' \<noteq> []" by code_simp+
  then show ?thesis
    by (simp add: validate_managed_grant_operation_def demo_op_def bad_fence_def validate_duration_def
        validate_managed_value_trial_def)
qed

lemma demo_managed: "apply_managed_grant_operation cal demo_share demo_op 1000 = Ok demo_granted"
proof -
  have "upsert_guard demo_share demo_op ''u@x.y'' 1000 = Ok (demo_policy Lifetime None)"
    by (simp add: upsert_guard_def demo_op_def demo_share_def check_market_phase_def validate_transition_def
        validate_value_transition_def bad_token_budget_def bad_scope_def grant_policy_def demo_policy_def
        validate_user_policy_def entitlement_taken_def other_access_def bt_contains_def)
  moreover have "to_i64 1000 = 1000" by (simp add: to_i64_def i64_max_def)
  moreover have "project cal (upsert_grant demo_op ''u@x.y'' (demo_policy Lifetime None) 1000
      (upsert_entitlement demo_op ''u@x.y'' 1000 demo_share)) = demo_granted"
    by (simp add: project_def project_grant_def upsert_grant_def upsert_entitlement_def demo_granted_def demo_op_def
        demo_share_def bt_update_default_def bt_map_values_def bt_get_Cons new_entitlement_def activate_entitlement_def
        market_grant_def final_receipts_def compacted_bucket_def default_usage_def default_bucket_def)
  ultimately show ?thesis
    by (simp add: apply_managed_grant_operation_def demo_op_def demo_email demo_share_def)
qed

lemma demo_admit: "admit demo_granted ''u@x.y'' ''r'' 864000000 = Ok (demo_admitted, True)"
proof -
  have cut: "compact 864000000 demo_granted = demo_granted"
    by (simp add: compact_def demo_granted_def demo_share_def RECEIPT_RETENTION_MS_def saturate_i64_def int_limits)
  have free: "\<not> exhausted demo_granted ''e''" "\<not> uncertain demo_granted ''e''"
    by (simp_all add: exhausted_def uncertain_def demo_granted_def demo_share_def bt_get_Cons new_entitlement_def
        demo_op_def same_scope_def scope_tokens_def value_exhausted_def saturating_add_u64_def)
  have "admit_new demo_granted ''e'' ''u@x.y'' Trial ''r'' 864000000 = Ok (demo_admitted, True)"
    using free(1) by (simp add: admit_new_def cut)
      (simp add: demo_granted_def demo_admitted_def demo_share_def put_receipt_def MAX_MARKET_REQUESTS_def)
  with free(2) show ?thesis
    by (simp add: admit_def demo_email) (simp add: demo_granted_def demo_share_def bt_get_Cons market_grant_def new_entitlement_def)
qed

lemma demo_steps:
  "market_step cal demo_share demo_granted" "market_step cal demo_granted demo_admitted" "no_market demo_share"
  by (rule market_step.managed [OF demo_managed_ok demo_managed], rule market_step.admitted [OF demo_admit])
    (simp add: no_market_def demo_share_def)

definition demo_settled :: "chrono \<Rightarrow> Share" where
  "demo_settled cal =
     (let r = (new_receipt ''e'' ''u@x.y'' Trial 864000000)\<lparr>mr_tokens := 7, mr_revision := 1\<rparr>;
          e = (new_entitlement demo_op ''u@x.y'' Trial 1000)\<lparr>me_trial_tokens_used := 7, me_usage_revision := 1\<rparr>
      in charge_grant cal r e 7 True (put_entitlement ''e'' e (put_receipt ''r'' r demo_admitted)))"

lemma demo_record: "record_usage_log cal demo_admitted demo_receipt_log = Ok (demo_settled cal, True)"
proof -
  have adopt: "adopt_receipt demo_receipt_log demo_admitted = demo_admitted" by (simp add: adopt_receipt_def demo_receipt_log_def)
  have tokens: "quota_tokens demo_receipt_log = 7" by (simp add: quota_tokens_def processed_tokens_sum demo_receipt_log_def opt0_def u64_max_def)
  have r: "bt_get (sh_market_requests demo_admitted) ''r'' = Some (new_receipt ''e'' ''u@x.y'' Trial 864000000)"
    by (simp add: demo_admitted_def bt_get_Cons)
  have same: "\<not> identity_changed demo_admitted (new_receipt ''e'' ''u@x.y'' Trial 864000000) demo_receipt_log"
    by (simp add: identity_changed_def demo_receipt_log_def new_receipt_def demo_admitted_def demo_granted_def demo_share_def
        eq_ignore_ascii_case_def)
  have "settle_receipt cal demo_admitted demo_receipt_log (new_receipt ''e'' ''u@x.y'' Trial 864000000) 7 1 = Ok (demo_settled cal, True)"
    by (simp add: settle_receipt_def demo_settled_def Let_def new_receipt_def charge_entitlement_def usage_unknown_def
        checked_add_u64_def checked_unsigned_def u64_max_def)
      (simp add: demo_admitted_def demo_granted_def demo_share_def bt_get_Cons new_entitlement_def demo_receipt_log_def
        checked_add_u64_def checked_unsigned_def u64_max_def)
  moreover have "ul_request_id demo_receipt_log = ''r''" "ul_usage_state demo_receipt_log = Observed" "ul_usage_revision demo_receipt_log = 1"
    "mr_revision (new_receipt ''e'' ''u@x.y'' Trial 864000000) = 0" "mr_tokens (new_receipt ''e'' ''u@x.y'' Trial 864000000) = 0"
    by (simp_all add: demo_receipt_log_def new_receipt_def)
  ultimately show ?thesis using same r by (simp add: record_usage_log_def adopt tokens)
qed

lemma demo_market_run: "(market_step cal)\<^sup>*\<^sup>* demo_share (demo_settled cal)"
proof -
  have "market_step cal demo_admitted (demo_settled cal)" by (rule market_step.recorded [OF demo_record])
  with demo_steps(1,2) [of cal] show ?thesis
    by (meson rtranclp.rtrancl_refl rtranclp.rtrancl_into_rtrancl)
qed

lemma demo_settled_entitlement: "bt_get (sh_market_entitlements (demo_settled cal)) ''e'' =
    Some ((new_entitlement demo_op ''u@x.y'' Trial 1000)\<lparr>me_trial_tokens_used := 7, me_usage_revision := 1\<rparr>)"
  by (simp add: demo_settled_def Let_def)

lemma demo_settled_requests: "sh_market_requests (demo_settled cal) =
    [(''r'', (new_receipt ''e'' ''u@x.y'' Trial 864000000)\<lparr>mr_tokens := 7, mr_revision := 1\<rparr>)]"
  by (simp add: demo_settled_def Let_def demo_admitted_def)

lemma demo_exhausted: "exhausted (demo_settled cal) ''e''"
  by (simp add: exhausted_def demo_settled_entitlement new_entitlement_def demo_op_def)

lemma demo_settled_grant:
  "\<exists>g. bt_get (sh_user_grants (demo_settled cal)) ''u@x.y'' = Some g \<and> ug_entitlement_id g = Some ''e''"
  by (simp add: demo_settled_def Let_def charge_grant_def new_receipt_def demo_admitted_def demo_granted_def bt_get_Cons
      market_grant_def new_entitlement_def)

subsection \<open>Properties\<close>

text \<open>
  C30. A trial is charged for exactly what its requests used: in every state that admissions,
  settlements, recoveries and managed grants reach, the counter of an entitlement is the sum of
  the tokens of its retained trial receipts and of the receipts folded into its totals. No
  revision is charged twice, none is lost, and compaction never saturates.
\<close>

theorem trial_counter_exact:
  assumes "no_market s" and "(market_step cal)\<^sup>*\<^sup>* s t" and "bt_get (sh_market_entitlements t) eid = Some e"
  shows "me_trial_tokens_used e =
    (\<Sum>r \<leftarrow> filter (\<lambda>r. mr_entitlement_id r = eid \<and> mr_phase r = Trial) (bt_values (sh_market_requests t)). mr_tokens r) +
    (case bt_get (sh_market_compacted_usage t) eid of None \<Rightarrow> 0 | Some c \<Rightarrow> cu_trial_tokens c)"
proof -
  from trials.reachable_inv [OF assms(1,2)] have "trial_inv t" .
  from trial_invD(2) [OF this assms(3)] show ?thesis
    by (simp add: accounted_def compacted_trial_def bt_sum_filter trial_tokens_def [abs_def])
qed

theorem trial_counter_exact_witness:
  "\<exists>e. bt_get (sh_market_entitlements (demo_settled year_1970)) ''e'' = Some e \<and> me_trial_tokens_used e = 7"
  using trial_counter_exact [OF demo_steps(3) demo_market_run demo_settled_entitlement, of year_1970]
  by (simp add: demo_settled_entitlement demo_settled_requests new_receipt_def)

text \<open>
  C31. A free budget is never reopened: once a trial is exhausted, in tokens or in dollars, on
  its own or over its scope, or once metering of its scope is uncertain, no later sequence of
  operations, revocation and a fresh grant included, lets a new request of that entitlement in
  while it is a trial.
\<close>

theorem trial_never_reopened:
  assumes "no_market r" and "(market_step cal)\<^sup>*\<^sup>* r s" and "(market_step cal)\<^sup>*\<^sup>* s t"
    and "exhausted s eid \<or> uncertain s eid"
    and "bt_get (sh_market_entitlements t) eid = Some e" and "me_phase e = Trial"
    and "bt_get (sh_user_grants t) (to_ascii_lowercase (trim email)) = Some g" and "ug_entitlement_id g = Some eid"
    and "bt_get (sh_market_requests t) i = None"
  shows "admit t email i at_ms \<noteq> Ok (u, True)"
proof
  assume ok: "admit t email i at_ms = Ok (u, True)"
  have s: "trial_inv s" using trials.reachable_inv [OF assms(1,2)] .
  have t: "trial_inv t" using trials.run_inv [OF assms(3) s] .
  note wf = receipts_okD(2) [OF trial_invD(1) [OF s]] receipts_okD(2) [OF trial_invD(1) [OF t]]
  note lasts = exhausted_lasts [OF market_run_le [OF assms(3)] wf _ assms(5,6)] uncertain_lasts [OF market_run_le [OF assms(3)] wf]
  from assms(4) lasts have "exhausted t eid \<or> uncertain t eid" by blast
  moreover have "exhausted (compact at_ms t) eid = exhausted t eid"
    by (simp add: exhausted_def value_exhausted_def same_scope_def split: option.split)
  ultimately show False
    using ok assms(5,7-9) by (auto simp: admit_def admit_new_def Let_def result_iff split: if_splits)
qed

theorem trial_never_reopened_witness: "\<nexists>u. admit (demo_settled year_1970) ''u@x.y'' ''q'' 864001000 = Ok (u, True)"
proof (rule notI, elim exE)
  fix u assume admitted: "admit (demo_settled year_1970) ''u@x.y'' ''q'' 864001000 = Ok (u, True)"
  obtain g where g: "bt_get (sh_user_grants (demo_settled year_1970)) (to_ascii_lowercase (trim ''u@x.y'')) = Some g"
    "ug_entitlement_id g = Some ''e''" using demo_settled_grant by (auto simp: demo_email)
  have "bt_get (sh_market_requests (demo_settled year_1970)) ''q'' = None"
    by (simp add: demo_settled_requests bt_get_Cons)
  with demo_exhausted have "admit (demo_settled year_1970) ''u@x.y'' ''q'' 864001000 \<noteq> Ok (u, True)"
    by (intro trial_never_reopened [OF demo_steps(3) demo_market_run rtranclp.rtrancl_refl _ demo_settled_entitlement _ g])
      (simp_all add: new_entitlement_def)
  with admitted show False by simp
qed

lemma adopt_idem [simp]: "adopt_receipt log (adopt_receipt log s) = adopt_receipt log s"
  by (simp add: adopt_receipt_def split: option.split)

lemma record_adopted: "record_usage_log cal (adopt_receipt log s) log = record_usage_log cal s log"
  by (simp add: record_usage_log_def)

text \<open>
  Settlement is idempotent: presenting a usage record that has been accepted once more,
  after a retry or during recovery, changes nothing, neither the budget nor the buckets of the
  user.
\<close>

theorem settlement_idempotent:
  assumes "record_usage_log cal s log = Ok (t, b)"
  shows "record_usage_log cal t log = Ok (t, False)"
  using assms
proof (cases rule: record_cases)
  case same
  with assms show ?thesis by (simp add: record_adopted)
next
  case (settled r)
  let ?r = "r\<lparr>mr_tokens := quota_tokens log, mr_revision := max (ul_usage_revision log) 1\<rparr>"
  have t: "bt_get (sh_market_requests t) (ul_request_id log) = Some ?r" "sh_id t = sh_id (adopt_receipt log s)"
    by (rule settle_receipt_cases [OF settled(6)], simp add: charge_grant_def split: option.split)+
  have "adopt_receipt log t = t" using t(1) by (simp add: adopt_receipt_def bt_contains_def)
  moreover have "\<not> identity_changed t ?r log" using settled(2) t(2) by (auto simp: identity_changed_def split: option.splits)
  ultimately show ?thesis using t(1) settled(3) by (simp add: record_usage_log_def)
qed

theorem settlement_idempotent_witness:
  "record_usage_log year_1970 (demo_settled year_1970) demo_receipt_log = Ok (demo_settled year_1970, False)"
  by (rule settlement_idempotent [OF demo_record])

end
