(* ===== verification/Market_Rebuild.thy ===== *)
theory Market_Rebuild
  imports Market_Claims
begin

section \<open>Incremental settlement and rebuild agree\<close>

text \<open>
  A settlement adds the difference of a revision to the buckets of the user; \<open>project\<close> rebuilds
  the buckets from all receipts of the entitlement. This theory shows that the first keeps what
  the second computes.
\<close>

subsection \<open>Two revisions of one request are one event\<close>

lemma record_bucket_merge: "record_bucket s d False (record_bucket s t c b) = record_bucket s (t + d) c b"
  by (simp add: bucket_defs saturating_add_again)

lemma record_if_current_merge: "record_if_current s d False (record_if_current s t c b) = record_if_current s (t + d) c b"
  by (simp add: record_if_current_def record_bucket_merge)

lemma market_anchored_merge:
  "market_anchored p a s d False (Some (market_anchored p a s t c ob)) = market_anchored p a s (t + d) c ob"
  by (cases ob) (auto simp: market_anchored_def Let_def fixed_anchored_def anchored_add_def saturating_add_again)

lemma record_market_delta_merge:
  fixes u :: ShareUserUsage
  shows "record_market_delta cal p d at_ms False (record_market_delta cal p t at_ms c u) =
    record_market_delta cal p (t + d) at_ms c u"
  by (rule ShareUserUsage.equality)
    (simp_all add: record_market_delta_fields record_bucket_merge record_if_current_merge market_anchored_merge
      split: option.split)

subsection \<open>Rebuild as a sum of events\<close>

definition receipt_event :: "MarketRequestReceipt \<Rightarrow> usage_event" where
  "receipt_event r = (mr_tokens r, mr_started_at_ms r, mr_count_request r)"

lemma replay_receipt_event: "replay_receipt cal p r = replay cal p (receipt_event r)"
  by (simp add: fun_eq_iff replay_receipt_def replay_def receipt_event_def record_for_policy_def
      record_supplemental_for_policy_def)

definition rebuilt :: "chrono \<Rightarrow> Share \<Rightarrow> ShareUserPolicy \<Rightarrow> string \<Rightarrow> ShareMarketPhase \<Rightarrow> ShareUserUsage" where
  "rebuilt cal s p eid phase =
     fold (settle cal p) (map receipt_event (final_receipts s eid phase)) (fresh_usage (compacted_bucket s eid phase))"

definition epoch_ok :: "chrono \<Rightarrow> Share \<Rightarrow> string \<Rightarrow> string \<Rightarrow> bool" where
  "epoch_ok cal s eid email \<longleftrightarrow> (\<forall>r \<in> set (bt_values (sh_market_requests s)). mr_entitlement_id r = eid \<longrightarrow>
     mr_email r = email \<and> after_epoch cal (mr_started_at_ms r))"

lemma project_rebuilt:
  assumes cal: "utc_calendar cal" and "epoch_ok cal s eid email" and "ug_entitlement_id g = Some eid"
    and "bt_get (sh_market_entitlements s) eid = Some e"
  shows "ug_usage (project_grant cal s g) = rebuilt cal s (ug_policy g) eid (me_phase e)"
proof -
  let ?rs = "final_receipts s eid (me_phase e)" and ?u = "fresh_usage (compacted_bucket s eid (me_phase e))"
  let ?p = "ug_policy g"
  have "fold (replay_receipt cal ?p) (sort_key mr_started_at_ms ?rs) ?u =
      fold (replay cal ?p) (map receipt_event (sort_key mr_started_at_ms ?rs)) ?u"
    by (simp add: replay_receipt_event [abs_def] fold_map comp_def)
  also have "\<dots> = fold (settle cal ?p) (map receipt_event (sort_key mr_started_at_ms ?rs)) ?u"
  proof (rule replay_sorted [OF cal])
    show "sorted (map (\<lambda>e. fst (snd e)) (map receipt_event (sort_key mr_started_at_ms ?rs)))"
      by (simp add: receipt_event_def comp_def)
    show "counts_ok ?u" by (simp add: counts_ok_def fresh_usage_def default_usage_def)
    fix x assume "x \<in> set (map receipt_event (sort_key mr_started_at_ms ?rs))"
    with assms(2) have "after_epoch cal (fst (snd x))"
      by (auto simp: receipt_event_def final_receipts_def epoch_ok_def)
    then show "ch_valid cal (fst (snd x)) \<and> not_after cal ?p (fst (snd x)) ?u" by (rule fresh_usage_not_after)
  qed
  also have "\<dots> = rebuilt cal s ?p eid (me_phase e)"
    unfolding rebuilt_def by (rule market.fold_upd_perm) simp
  finally show ?thesis
    using assms(3,4) by (simp add: project_grant_def Let_def fresh_usage_def)
qed

subsection \<open>One more receipt, or one more revision\<close>

lemma bt_values_mset: "mset (bt_values m) = bt_sum (\<lambda>v. {#v#}) m"
  by (induction m) auto

definition counts_for :: "string \<Rightarrow> ShareMarketPhase \<Rightarrow> MarketRequestReceipt \<Rightarrow> bool" where
  "counts_for eid phase r \<longleftrightarrow> mr_entitlement_id r = eid \<and> mr_phase r = phase \<and> mr_revision r > 0"

lemma final_receipts_filter: "final_receipts s eid phase = filter (counts_for eid phase) (bt_values (sh_market_requests s))"
  by (simp add: final_receipts_def counts_for_def [abs_def])

lemma final_receipts_put:
  assumes "bt_wf (sh_market_requests s)"
  shows "mset (final_receipts (put_receipt i r s) eid phase) +
      (case bt_get (sh_market_requests s) i of None \<Rightarrow> {#} | Some r0 \<Rightarrow> filter_mset (counts_for eid phase) {#r0#}) =
    mset (final_receipts s eid phase) + filter_mset (counts_for eid phase) {#r#}"
proof -
  have "filter_mset (counts_for eid phase) (mset (bt_values (bt_insert i r (sh_market_requests s))) +
      (case bt_get (sh_market_requests s) i of None \<Rightarrow> {#} | Some r0 \<Rightarrow> {#r0#})) =
    filter_mset (counts_for eid phase) (mset (bt_values (sh_market_requests s)) + {#r#})"
    using bt_sum_insert [OF assms, of "\<lambda>v. {#v#}" i r] by (simp only: bt_values_mset)
  then show ?thesis by (cases "bt_get (sh_market_requests s) i") (auto simp: final_receipts_filter split: if_splits)
qed

lemma rebuilt_mset:
  assumes "mset (final_receipts t eid phase) = mset rs" and "compacted_bucket t eid phase = compacted_bucket s eid phase"
  shows "rebuilt cal t p eid phase =
    fold (settle cal p) (map receipt_event rs) (fresh_usage (compacted_bucket s eid phase))"
  unfolding rebuilt_def assms(2) using assms(1) by (intro market.fold_upd_perm) simp

lemma rebuilt_unchanged:
  assumes "mset (final_receipts t eid phase) = mset (final_receipts s eid phase)"
    and "compacted_bucket t eid phase = compacted_bucket s eid phase"
  shows "rebuilt cal t p eid phase = rebuilt cal s p eid phase"
  using rebuilt_mset [OF assms] by (simp add: rebuilt_def)

lemma rebuilt_settled:
  assumes wf: "bt_wf (sh_market_requests s)" and r: "bt_get (sh_market_requests s) i = Some r"
    and who: "mr_entitlement_id r = eid" "mr_phase r = phase"
    and zero: "mr_revision r = 0 \<Longrightarrow> mr_tokens r = 0" and more: "mr_tokens r \<le> tokens" "0 < revision"
  shows "rebuilt cal (put_receipt i (r\<lparr>mr_tokens := tokens, mr_revision := revision\<rparr>) s) p eid phase =
    record_market_delta cal p (tokens - mr_tokens r) (mr_started_at_ms r) (mr_revision r = 0 \<and> mr_count_request r)
      (rebuilt cal s p eid phase)"
proof -
  let ?r = "r\<lparr>mr_tokens := tokens, mr_revision := revision\<rparr>" and ?t = "put_receipt i (r\<lparr>mr_tokens := tokens, mr_revision := revision\<rparr>) s"
  have same: "compacted_bucket ?t eid phase = compacted_bucket s eid phase" by (simp add: compacted_bucket_def)
  note put = final_receipts_put [OF wf, of i ?r eid phase]
  show ?thesis
  proof (cases "mr_revision r = 0")
    case True
    with put r who more(2) have "mset (final_receipts ?t eid phase) = mset (?r # final_receipts s eid phase)"
      by (simp add: counts_for_def)
    from rebuilt_mset [OF this same, of cal p]
    have "rebuilt cal ?t p eid phase = settle cal p (receipt_event ?r) (rebuilt cal s p eid phase)"
      by (simp add: market.fold_upd_swap rebuilt_def)
    with zero [OF True] True show ?thesis by (simp add: settle_def receipt_event_def)
  next
    case False
    then have m: "mset (final_receipts ?t eid phase) + {#r#} = mset (final_receipts s eid phase) + {#?r#}"
      using put r who more(2) by (simp add: counts_for_def)
    have "r \<in> set (final_receipts s eid phase)"
      using r who False bt_get_Some_mem [OF r] by (auto simp: final_receipts_def mem_bt_values)
    then have s: "mset (final_receipts s eid phase) = mset (r # remove1 r (final_receipts s eid phase))" by simp
    let ?rest = "fold (settle cal p) (map receipt_event (remove1 r (final_receipts s eid phase)))
      (fresh_usage (compacted_bucket s eid phase))"
    have "mset (final_receipts ?t eid phase) + {#r#} = mset (?r # remove1 r (final_receipts s eid phase)) + {#r#}"
      unfolding m unfolding s by simp
    then have "mset (final_receipts ?t eid phase) = mset (?r # remove1 r (final_receipts s eid phase))"
      by (simp only: add_right_cancel)
    from rebuilt_mset [OF this same, of cal p]
    have t_eq: "rebuilt cal ?t p eid phase = settle cal p (receipt_event ?r) ?rest" by (simp add: market.fold_upd_swap)
    from rebuilt_mset [OF s refl, of cal p]
    have "rebuilt cal s p eid phase = settle cal p (receipt_event r) ?rest" by (simp add: market.fold_upd_swap)
    with t_eq False more(1) show ?thesis
      by (simp add: settle_def receipt_event_def record_market_delta_merge)
  qed
qed

subsection \<open>Settlement\<close>

lemma charge_grant_simps:
  "bt_get (sh_user_grants (charge_grant cal r e d c s)) k = (case bt_get (sh_user_grants s) k of
     None \<Rightarrow> None
   | Some g \<Rightarrow> Some (if k = mr_email r \<and> ug_entitlement_id g = Some (mr_entitlement_id r) \<and> me_phase e = mr_phase r
       then g\<lparr>ug_usage := record_market_delta cal (ug_policy g) d (mr_started_at_ms r) c (ug_usage g),
             ug_usage_rebase := None, ug_usage_quota := None\<rparr> else g))"
  by (auto simp: charge_grant_def split: option.split)

lemma adopt_final_receipts:
  assumes "bt_wf (sh_market_requests s)"
  shows "mset (final_receipts (adopt_receipt log s) eid phase) = mset (final_receipts s eid phase)"
proof (cases "adopt_receipt log s = s")
  case False
  then obtain parent q where r: "bt_get (sh_market_requests s) (ul_request_id log) = None"
    "adopt_receipt log s = put_receipt (ul_request_id log) (parent\<lparr>mr_tokens := 0, mr_revision := 0,
       mr_count_request := False, mr_value_picos := zero_decimal, mr_parent_request_id := q\<rparr>) s"
    by (auto simp: adopt_receipt_def bt_contains_def split: option.splits if_splits)
  from final_receipts_put [OF assms, of "ul_request_id log", unfolded r(1)] show ?thesis
    unfolding r(2) by (simp add: counts_for_def)
qed simp

lemma adopt_frame [simp]:
  "sh_user_grants (adopt_receipt log s) = sh_user_grants s"
  "sh_market_compacted_usage (adopt_receipt log s) = sh_market_compacted_usage s"
  by (simp_all add: adopt_receipt_def split: option.split)

lemma compacted_bucket_cong:
  "sh_market_compacted_usage t = sh_market_compacted_usage s \<Longrightarrow> compacted_bucket t = compacted_bucket s"
  by (simp add: compacted_bucket_def [abs_def])

lemma adopt_epoch_ok:
  assumes "epoch_ok cal s eid email"
  shows "epoch_ok cal (adopt_receipt log s) eid email"
proof -
  have "epoch_ok cal (put_receipt i (r\<lparr>mr_tokens := 0, mr_revision := 0, mr_count_request := False,
      mr_value_picos := zero_decimal, mr_parent_request_id := q\<rparr>) s) eid email"
    if "bt_get (sh_market_requests s) k = Some r" for i k r q
  proof -
    have "r \<in> set (bt_values (sh_market_requests s))" using bt_get_Some_mem [OF that] by (auto simp: mem_bt_values)
    with assms bt_values_insert_subset [of i _ "sh_market_requests s"] show ?thesis
      unfolding epoch_ok_def by fastforce
  qed
  with assms show ?thesis by (simp add: adopt_receipt_def split: option.split)
qed

lemma rebuilt_cong:
  "sh_market_requests t = sh_market_requests s \<Longrightarrow> sh_market_compacted_usage t = sh_market_compacted_usage s \<Longrightarrow>
   rebuilt cal t p eid phase = rebuilt cal s p eid phase"
  by (simp add: rebuilt_def final_receipts_def compacted_bucket_def)

definition in_step :: "chrono \<Rightarrow> Share \<Rightarrow> string \<Rightarrow> bool" where
  "in_step cal s email \<longleftrightarrow> map_option ug_usage (bt_get (sh_user_grants (project cal s)) email) =
     map_option ug_usage (bt_get (sh_user_grants s) email)"

lemma in_step_rebuilt:
  assumes "utc_calendar cal" and "epoch_ok cal s eid email" and "bt_get (sh_user_grants s) email = Some g"
    and "ug_entitlement_id g = Some eid" and "bt_get (sh_market_entitlements s) eid = Some e"
  shows "in_step cal s email \<longleftrightarrow> rebuilt cal s (ug_policy g) eid (me_phase e) = ug_usage g"
  using project_rebuilt [OF assms(1,2,4,5)] assms(3) by (simp add: in_step_def project_def)

lemma charge_entitlement_phase: "charge_entitlement r u d e = Ok f \<Longrightarrow> me_phase f = me_phase e"
  by (auto simp: charge_entitlement_def Let_def result_iff split: if_splits)

lemma settle_keeps_step:
  assumes cal: "utc_calendar cal" and ok: "receipts_ok s" and epoch: "epoch_ok cal s eid email"
    and r: "bt_get (sh_market_requests s) (ul_request_id log) = Some r"
    and more: "mr_tokens r \<le> tokens" "mr_revision r < revision"
    and settled: "settle_receipt cal s log r tokens revision = Ok (t, b)"
    and g: "bt_get (sh_user_grants s) email = Some g" "ug_entitlement_id g = Some eid"
    and e: "bt_get (sh_market_entitlements s) eid = Some e" and step: "in_step cal s email"
  shows "in_step cal t email"
  using settled
proof (rule settle_receipt_cases)
  let ?r = "r\<lparr>mr_tokens := tokens, mr_revision := revision\<rparr>" and ?p = "ug_policy g" and ?ph = "me_phase e"
  let ?s = "put_receipt (ul_request_id log) ?r s"
  fix d d' assume d: "bt_get (sh_market_entitlements s) (mr_entitlement_id r) = Some d"
    and d': "charge_entitlement ?r (usage_unknown ?r log) (tokens - mr_tokens r) d = Ok d'"
    and t: "t = charge_grant cal ?r d' (tokens - mr_tokens r) (mr_revision r = 0 \<and> mr_count_request r)
      (put_entitlement (mr_entitlement_id r) d' ?s)"
  note wf = receipts_okD [OF ok]
  have phase: "me_phase d' = me_phase d" by (rule charge_entitlement_phase [OF d'])
  obtain f where f: "bt_get (sh_market_entitlements t) eid = Some f" "me_phase f = ?ph"
    using e d phase by (cases "eid = mr_entitlement_id r") (auto simp: t)
  have rin: "r \<in> set (bt_values (sh_market_requests s))" using bt_get_Some_mem [OF r] by (auto simp: mem_bt_values)
  have epoch_t: "epoch_ok cal t eid email"
    using epoch rin bt_values_insert_subset [of "ul_request_id log" ?r "sh_market_requests s"]
    by (fastforce simp: t epoch_ok_def)
  have rebuilt_t: "rebuilt cal t ?p eid ?ph = rebuilt cal ?s ?p eid ?ph" by (rule rebuilt_cong) (simp_all add: t)
  have old: "rebuilt cal s ?p eid ?ph = ug_usage g" using step in_step_rebuilt [OF cal epoch g e] by simp
  show ?thesis
  proof (cases "mr_entitlement_id r = eid \<and> mr_phase r = ?ph")
    case True
    with epoch rin have email: "mr_email r = email" by (simp add: epoch_ok_def)
    let ?u = "record_market_delta cal ?p (tokens - mr_tokens r) (mr_started_at_ms r) (mr_revision r = 0 \<and> mr_count_request r) (ug_usage g)"
    from True d e phase g email have h: "bt_get (sh_user_grants t) email =
        Some (g\<lparr>ug_usage := ?u, ug_usage_rebase := None, ug_usage_quota := None\<rparr>)"
      by (simp add: t charge_grant_simps)
    have "rebuilt cal ?s ?p eid ?ph = ?u"
      using rebuilt_settled [OF wf(1) r _ _ wf(5) [OF r] more(1), of eid ?ph revision cal ?p] True more(2) old by simp
    with in_step_rebuilt [OF cal epoch_t h _ f(1)] g(2) f(2) rebuilt_t show ?thesis by simp
  next
    case False
    then have "bt_get (sh_user_grants t) email = Some g"
      using g d e phase by (auto simp: t charge_grant_simps)
    moreover have "mset (final_receipts ?s eid ?ph) = mset (final_receipts s eid ?ph)"
      using final_receipts_put [OF wf(1), of "ul_request_id log" ?r eid ?ph] r False by (auto simp: counts_for_def)
    then have "rebuilt cal ?s ?p eid ?ph = ug_usage g"
      using rebuilt_unchanged [of ?s eid ?ph s cal ?p] old by (simp add: compacted_bucket_def)
    ultimately show ?thesis using in_step_rebuilt [OF cal epoch_t _ g(2) f(1)] f(2) rebuilt_t by simp
  qed
qed

text \<open>
  C33. Incremental metering and rebuild agree: if the buckets of a market user are those that
  \<open>project\<close> rebuilds from the receipts, they still are after any usage record is settled, be it
  the first record of a request, a later revision of it, a supplemental record or one of an
  earlier phase.
\<close>

theorem settlement_matches_rebuild:
  assumes "utc_calendar cal" and "no_market r" and "(market_step cal)\<^sup>*\<^sup>* r s"
    and "record_usage_log cal s log = Ok (t, b)"
    and "bt_get (sh_user_grants s) email = Some g" and "ug_entitlement_id g = Some eid"
    and "bt_get (sh_market_entitlements s) eid = Some e"
    and "\<forall>q \<in> set (bt_values (sh_market_requests s)). mr_entitlement_id q = eid \<longrightarrow>
      mr_email q = email \<and> after_epoch cal (mr_started_at_ms q)"
    and "map_option ug_usage (bt_get (sh_user_grants (project cal s)) email) = map_option ug_usage (bt_get (sh_user_grants s) email)"
  shows "map_option ug_usage (bt_get (sh_user_grants (project cal t)) email) = map_option ug_usage (bt_get (sh_user_grants t) email)"
proof -
  let ?a = "adopt_receipt log s"
  have ok: "receipts_ok s" "receipts_ok ?a"
    using trials.reachable_inv [OF assms(2,3)] adopt_receipt_inv trial_invD(1) by blast+
  have epoch: "epoch_ok cal s eid email" using assms(8) by (simp add: epoch_ok_def)
  note epoch_a = adopt_epoch_ok [OF this, of log]
  have "rebuilt cal ?a (ug_policy g) eid (me_phase e) = rebuilt cal s (ug_policy g) eid (me_phase e)"
    by (rule rebuilt_unchanged [OF adopt_final_receipts [OF receipts_okD(1) [OF ok(1)]]])
      (simp add: compacted_bucket_cong [of ?a s])
  with assms(5-7,9) have step_a: "in_step cal ?a email"
    using in_step_rebuilt [OF assms(1) epoch assms(5-7)] in_step_rebuilt [OF assms(1) epoch_a, of g e]
    by (simp add: in_step_def [of cal s])
  from assms(4) have "in_step cal t email"
  proof (cases rule: record_cases)
    case same
    with step_a show ?thesis by simp
  next
    case (settled q)
    with assms(5-7) step_a show ?thesis
      by (intro settle_keeps_step [OF assms(1) ok(2) epoch_a settled(1,4,5,6)]) simp_all
  qed
  then show ?thesis by (simp add: in_step_def)
qed

theorem settlement_matches_rebuild_witness:
  "map_option ug_usage (bt_get (sh_user_grants (project year_1970 (demo_settled year_1970))) ''u@x.y'') =
   map_option ug_usage (bt_get (sh_user_grants (demo_settled year_1970)) ''u@x.y'')"
proof -
  let ?g = "market_grant None ''u@x.y'' (demo_policy Lifetime None) ''e'' 1000"
  have g: "bt_get (sh_user_grants demo_admitted) ''u@x.y'' = Some ?g" "ug_entitlement_id ?g = Some ''e''"
    by (simp_all add: demo_admitted_def demo_granted_def bt_get_Cons market_grant_def)
  have e: "bt_get (sh_market_entitlements demo_admitted) ''e'' = Some (new_entitlement demo_op ''u@x.y'' Trial 1000)"
    by (simp add: demo_admitted_def demo_granted_def bt_get_Cons)
  have run: "(market_step year_1970)\<^sup>*\<^sup>* demo_share demo_admitted"
    using demo_steps(1,2) [of year_1970] by (meson rtranclp.rtrancl_refl rtranclp.rtrancl_into_rtrancl)
  have "after_epoch year_1970 864000000"
    by (simp add: after_epoch_def year_1970_def DAY_MS_val utc_day_start_ms_def utc_week_start_ms_def
        utc_calendar_month_start_ms_def utc_datetime_def weekday_of_def month_of_day_def)
  then have epoch: "\<forall>q \<in> set (bt_values (sh_market_requests demo_admitted)). mr_entitlement_id q = ''e'' \<longrightarrow>
      mr_email q = ''u@x.y'' \<and> after_epoch year_1970 (mr_started_at_ms q)"
    by (simp add: demo_admitted_def new_receipt_def)
  have "ug_usage (project_grant year_1970 demo_admitted ?g) = ug_usage ?g"
    using g(2) e by (simp add: project_grant_def final_receipts_def)
      (simp add: demo_admitted_def demo_granted_def demo_share_def new_receipt_def compacted_bucket_def market_grant_def
        default_usage_def)
  with g(1) show ?thesis
    by (intro settlement_matches_rebuild [OF year_1970_calendar demo_steps(3) run demo_record g e epoch])
      (simp add: project_def)
qed

end
