(* ===== verification/Share_Admission.thy ===== *)
theory Share_Admission
  imports Managed_Grants
begin

section \<open>Admission to a share\<close>

text \<open>
  Model of the share store's operations of \<open>src/src/domain/sharing/shares.rs\<close> on a request's
  path: admission, recording of usage, pause, resume and reset. Operations that mutate the store and may fail return the
  store next to the result, because some callers publish it in both cases.
\<close>

subsection \<open>Invocations and rejections\<close>

record ShareInvocation =
  iv_share_id :: string
  iv_share_name :: string
  iv_parallel_limit :: "nat option"
  iv_user_email :: "string option"
  iv_user_parallel_limit :: "nat option"

datatype ShareRejectReason = NotFound | UnsupportedApp | UserIdentityRequired | Unauthorized | AppNotAllowed
  | Inactive | Expired | Exhausted | ParallelLimit | UserExpired | UserExhausted | UserParallelLimit | QuotaUnavailable

fun reason_str :: "ShareRejectReason \<Rightarrow> string" where
  "reason_str NotFound = ''NotFound''"
| "reason_str UnsupportedApp = ''UnsupportedApp''"
| "reason_str UserIdentityRequired = ''UserIdentityRequired''"
| "reason_str Unauthorized = ''Unauthorized''"
| "reason_str AppNotAllowed = ''AppNotAllowed''"
| "reason_str Inactive = ''Inactive''"
| "reason_str Expired = ''Expired''"
| "reason_str Exhausted = ''Exhausted''"
| "reason_str ParallelLimit = ''ParallelLimit''"
| "reason_str UserExpired = ''UserExpired''"
| "reason_str UserExhausted = ''UserExhausted''"
| "reason_str UserParallelLimit = ''UserParallelLimit''"
| "reason_str QuotaUnavailable = ''ACCOUNT_RESET_NOT_READY''"

record ShareConcurrencyLimit =
  cl_current :: nat
  cl_limit :: nat

record ShareInvocationRejection =
  rj_reason :: ShareRejectReason
  rj_message :: string
  rj_status_changed :: bool
  rj_concurrency :: "ShareConcurrencyLimit option"

definition formatted_message :: "ShareInvocationRejection \<Rightarrow> string" where
  "formatted_message r = rj_message r @ '' ['' @ reason_str (rj_reason r) @ '']''"

definition reject :: "ShareRejectReason \<Rightarrow> string \<Rightarrow> bool \<Rightarrow> ShareInvocationRejection" where
  "reject reason message changed =
     \<lparr>rj_reason = reason, rj_message = message, rj_status_changed = changed, rj_concurrency = None\<rparr>"

fun app_str :: "AppKind \<Rightarrow> string" where
  "app_str Claude = ''claude''"
| "app_str Codex = ''codex''"
| "app_str Gemini = ''gemini''"

definition share_expired :: "int \<Rightarrow> int \<Rightarrow> bool" where
  "share_expired expires_at now_ms =
     (now_ms > (if expires_at > 0 \<and> expires_at < 10000000000 then saturate_i64 (expires_at * 1000) else expires_at))"

definition expired_opt :: "int option \<Rightarrow> int \<Rightarrow> bool" where
  "expired_opt e now_ms = (case e of None \<Rightarrow> False | Some expires_at \<Rightarrow> share_expired expires_at now_ms)"

definition limit_reached :: "nat option \<Rightarrow> nat \<Rightarrow> bool" where
  "limit_reached l used = (case l of None \<Rightarrow> False | Some limit \<Rightarrow> used \<ge> limit)"

definition share_bound_apps :: "Share \<Rightarrow> AppKind list" where
  "share_bound_apps share = (if sh_bindings share = [] then [sh_app share] else sh_bindings share)"

definition share_enabled_apps :: "Share \<Rightarrow> AppKind list" where
  "share_enabled_apps share = (case sh_enabled_apps share of
     Some enabled \<Rightarrow> filter (\<lambda>a. a \<in> set (share_bound_apps share)) enabled
   | None \<Rightarrow> share_bound_apps share)"

definition share_app_api_enabled :: "Share \<Rightarrow> AppKind \<Rightarrow> bool" where
  "share_app_api_enabled share app \<longleftrightarrow> app \<in> set (share_enabled_apps share)"

subsection \<open>The checks of a user\<close>

definition normalized_email :: "string option \<Rightarrow> string option" where
  "normalized_email email = (case email of
     None \<Rightarrow> None
   | Some e \<Rightarrow> if trim e = [] then None else Some (to_ascii_lowercase (trim e)))"

definition active_grant :: "Share \<Rightarrow> string option \<Rightarrow> ShareUserGrant option" where
  "active_grant share email = (case email of
     None \<Rightarrow> None
   | Some e \<Rightarrow> (case bt_get (sh_user_grants share) e of
       None \<Rightarrow> None
     | Some g \<Rightarrow> if ug_active g then Some g else None))"

definition of_entitlement :: "(string \<Rightarrow> bool) \<Rightarrow> ShareUserGrant \<Rightarrow> bool" where
  "of_entitlement p g = (case ug_entitlement_id g of None \<Rightarrow> False | Some eid \<Rightarrow> p eid)"

definition quota_not_ready :: "ShareUserGrant \<Rightarrow> bool" where
  "quota_not_ready g \<longleftrightarrow> up_token_period (ug_policy g) = AccountReset \<and> up_token_limit (ug_policy g) \<noteq> None \<and>
     (ug_usage_quota g = None \<or> ug_account_quota_cycle g = None \<or>
      (case ug_account_reset_capability g of None \<Rightarrow> True
       | Some c \<Rightarrow> rcap_sync_status c \<noteq> ''ready'' \<and> rcap_sync_status c \<noteq> ''stale''))"

definition access_pending :: "ShareUserGrant \<Rightarrow> bool" where
  "access_pending g = (case ug_pending_value_quota g of None \<Rightarrow> False | Some p \<Rightarrow> \<not> pv_retain_access p)"

definition check_grant ::
  "chrono \<Rightarrow> Share \<Rightarrow> AppKind \<Rightarrow> int \<Rightarrow> ShareUserGrant \<Rightarrow> ShareInvocationRejection + unit" where
  "check_grant cal share app now_ms g =
     rbind (check (\<not> access_pending g) (reject QuotaUnavailable
       ''quota_unavailable: the new authorization is scheduled for its first complete quota window'' False)) (\<lambda>_.
     rbind (check (\<not> of_entitlement (uncertain share) g) (reject QuotaUnavailable
       ''MARKET_USAGE_UNAVAILABLE: unresolved metering requires cleanup'' False)) (\<lambda>_.
     rbind (check (\<not> of_entitlement (exhausted share) g) (reject UserExhausted
       ''MARKET_TRIAL_EXHAUSTED: trial conversion is pending'' False)) (\<lambda>_.
     rbind (check (\<not> (up_allowed_apps (ug_policy g) \<noteq> [] \<and> app \<notin> set (up_allowed_apps (ug_policy g)))) (reject AppNotAllowed
       (''This market entitlement does not include the '' @ app_str app @ '' API.'') False)) (\<lambda>_.
     rbind (check (\<not> expired_opt (up_expires_at (ug_policy g)) now_ms) (reject UserExpired
       ''This user's Share access has expired.'' False)) (\<lambda>_.
     rbind (check (\<not> quota_not_ready g) (reject QuotaUnavailable
       ''ACCOUNT_RESET_NOT_READY: verified quota history is unavailable'' False)) (\<lambda>_.
     check (\<not> limit_reached (up_token_limit (ug_policy g)) (effective_grant_tokens_for_policy cal g now_ms))
       (reject UserExhausted ''This user's Share token quota has been exhausted.'' False)))))))"

definition user_parallel :: "ShareUserGrant \<Rightarrow> nat option" where
  "user_parallel g = (if up_value_quota (ug_policy g) \<noteq> None
     then Some (min (case up_parallel_limit (ug_policy g) of None \<Rightarrow> 4 | Some n \<Rightarrow> n) 4)
     else up_parallel_limit (ug_policy g))"

definition check_user ::
  "chrono \<Rightarrow> Share \<Rightarrow> AppKind \<Rightarrow> string option \<Rightarrow> int \<Rightarrow> ShareInvocationRejection + ShareInvocation" where
  "check_user cal share app user_email now_ms =
     (let email = normalized_email user_email; grant = active_grant share email in
      rbind (check (email \<noteq> None) (reject UserIdentityRequired
        ''An authenticated user identity is required to invoke this Share.'' False)) (\<lambda>_.
      rbind (check (\<not> (\<not> sh_free_access share \<and> email \<noteq> None \<and> grant = None)) (reject Unauthorized
        ''This user is not authorized to invoke the Share.'' False)) (\<lambda>_.
      rbind (case grant of None \<Rightarrow> Ok () | Some g \<Rightarrow> check_grant cal share app now_ms g) (\<lambda>_.
      Ok \<lparr>iv_share_id = sh_id share,
          iv_share_name = (case sh_display_name share of None \<Rightarrow> sh_id share | Some n \<Rightarrow> n),
          iv_parallel_limit = sh_parallel_limit share, iv_user_email = email,
          iv_user_parallel_limit = (case grant of None \<Rightarrow> None | Some g \<Rightarrow> user_parallel g)\<rparr>))))"

subsection \<open>Admission\<close>

definition close_share :: "string \<Rightarrow> Share \<Rightarrow> Share" where
  "close_share status share = share\<lparr>sh_status := status, sh_enabled := False\<rparr>"

definition validate_share ::
  "chrono \<Rightarrow> Share \<Rightarrow> AppKind \<Rightarrow> string option \<Rightarrow> int \<Rightarrow> Share \<times> (ShareInvocationRejection + ShareInvocation)" where
  "validate_share cal share app user_email now_ms =
     (if app \<notin> set (sh_bindings share) then
        (share, Err (reject UnsupportedApp (''Share does not provide the '' @ app_str app @ '' API format.'') False))
      else if \<not> share_app_api_enabled share app then
        (share, Err (reject UnsupportedApp (''Share has disabled the '' @ app_str app @ '' API.'') False))
      else if \<not> sh_enabled share \<or> sh_status share \<noteq> ''active'' then
        (share, Err (reject Inactive
          (''Share is not active (current status: '' @ sh_status share @ ''). Start the share first.'') False))
      else if expired_opt (sh_expires_at share) now_ms then
        (close_share ''expired'' share, Err (reject Expired
          ''Share has expired. Extend the share expiration or create a new share.'' True))
      else if limit_reached (sh_token_limit share) (sh_tokens_used share) then
        (close_share ''exhausted'' share, Err (reject Exhausted
          ''Share token quota has been exhausted. Reset usage or increase the token limit.'' True))
      else (share, check_user cal share app user_email now_ms))"

text \<open>The first share with the identifier, and the store with that share replaced.\<close>

definition get_share :: "ShareStore \<Rightarrow> string \<Rightarrow> Share option" where
  "get_share store share_id = find (\<lambda>s. sh_id s = share_id) store"

fun put_share :: "string \<Rightarrow> Share \<Rightarrow> ShareStore \<Rightarrow> ShareStore" where
  "put_share share_id share [] = []"
| "put_share share_id share (s # store) =
     (if sh_id s = share_id then share # store else s # put_share share_id share store)"

definition validate_for_invocation ::
  "chrono \<Rightarrow> ShareStore \<Rightarrow> string \<Rightarrow> AppKind \<Rightarrow> string option \<Rightarrow> int \<Rightarrow>
   ShareStore \<times> (ShareInvocationRejection + ShareInvocation)" where
  "validate_for_invocation cal store share_id app user_email now_ms =
     (case get_share store share_id of
        None \<Rightarrow> (store, Err (reject NotFound ''Share not found on this cc-switch.'' False))
      | Some share \<Rightarrow>
          let (share', result) = validate_share cal share app user_email now_ms
          in (put_share share_id share' store, result))"

subsection \<open>Pause, resume, reset\<close>

definition mark_share_config_pending :: "Share \<Rightarrow> Share" where
  "mark_share_config_pending share =
     share\<lparr>sh_config_revision := max (saturating_add_u64 (sh_config_revision share) 1) 1, sh_router_last_sync_error := None\<rparr>"

definition mutate_share :: "(Share \<Rightarrow> Share) \<Rightarrow> ShareStore \<Rightarrow> string \<Rightarrow> ShareStore \<times> Share option" where
  "mutate_share f store share_id = (case get_share store share_id of
     None \<Rightarrow> (store, None)
   | Some share \<Rightarrow> (put_share share_id (f share) store, Some (f share)))"

definition pause_share :: "Share \<Rightarrow> Share" where
  "pause_share share = mark_share_config_pending (share\<lparr>sh_enabled := False, sh_status := ''paused''\<rparr>)"

definition pause :: "ShareStore \<Rightarrow> string \<Rightarrow> ShareStore \<times> Share option" where
  "pause = mutate_share pause_share"

definition resume_share :: "Share \<Rightarrow> Share" where
  "resume_share share =
     mark_share_config_pending (share\<lparr>sh_enabled := True, sh_status := ''active'', sh_last_error := None\<rparr>)"

definition resume :: "ShareStore \<Rightarrow> string \<Rightarrow> ShareStore \<times> Share option" where
  "resume = mutate_share resume_share"

definition reset_grant :: "nat \<Rightarrow> ShareUserGrant \<Rightarrow> ShareUserGrant" where
  "reset_grant reset_at g = g\<lparr>ug_usage := default_usage, ug_usage_rebase := None, ug_updated_at_ms := reset_at\<rparr>"

definition reset_share :: "nat \<Rightarrow> Share \<Rightarrow> Share" where
  "reset_share reset_at share0 =
     (let share = share0\<lparr>sh_tokens_used := 0, sh_requests_count := 0,
            sh_user_grants := bt_map_values (reset_grant reset_at) (sh_user_grants share0)\<rparr>
      in mark_share_config_pending
           (if sh_status share = ''exhausted'' then share\<lparr>sh_status := ''paused'', sh_enabled := False\<rparr> else share))"

definition reset_usage :: "nat \<Rightarrow> ShareStore \<Rightarrow> string \<Rightarrow> ShareStore \<times> Share option" where
  "reset_usage reset_at = mutate_share (reset_share reset_at)"

subsection \<open>Recording usage\<close>

definition market_bound :: "Share \<Rightarrow> ShareUserGrant \<Rightarrow> bool" where
  "market_bound share g = of_entitlement (bt_contains (sh_market_entitlements share)) g"

text \<open>An error of the rebuild is ignored, and then the usage is left as it was.\<close>

definition carry_baseline :: "chrono \<Rightarrow> ShareUserGrant \<Rightarrow> int \<Rightarrow> ShareUserUsage" where
  "carry_baseline cal g at_ms =
     (let baseline = effective_grant_tokens_for_policy cal g at_ms;
          current = tokens_for_policy cal (ug_usage g) (ug_policy g) at_ms
      in if baseline > current then
           (case rebuild_current_policy_bucket cal (ug_usage g) (ug_policy g) at_ms baseline
               (case ug_usage_quota g of None \<Rightarrow> 0 | Some q \<Rightarrow> qv_observed_requests_count q) of
              Err _ \<Rightarrow> ug_usage g | Ok u \<Rightarrow> u)
         else ug_usage g)"

definition advance_view :: "nat \<Rightarrow> nat \<Rightarrow> bool \<Rightarrow> ShareUserQuotaView \<Rightarrow> ShareUserQuotaView" where
  "advance_view used tokens count_request q =
     q\<lparr>qv_effective_tokens_used := used,
       qv_observed_tokens_used := saturating_add_u64 (qv_observed_tokens_used q) tokens,
       qv_observed_requests_count := (if count_request then saturating_add_u64 (qv_observed_requests_count q) 1
                                      else qv_observed_requests_count q)\<rparr>"

definition record_grant :: "chrono \<Rightarrow> nat \<Rightarrow> int \<Rightarrow> bool \<Rightarrow> nat \<Rightarrow> ShareUserGrant \<Rightarrow> ShareUserGrant" where
  "record_grant cal tokens at_ms count_request now g =
     (let policy = ug_policy g;
          usage = (if count_request then record_for_policy cal policy tokens at_ms (carry_baseline cal g at_ms)
                   else record_supplemental_for_policy cal policy tokens at_ms (carry_baseline cal g at_ms));
          used = tokens_for_policy cal usage policy at_ms
      in g\<lparr>ug_usage := usage,
           ug_usage_quota := (if up_token_period policy \<noteq> AccountReset
             then map_option (advance_view used tokens count_request) (ug_usage_quota g) else ug_usage_quota g),
           ug_updated_at_ms := now\<rparr>)"

definition record_total :: "nat \<Rightarrow> bool \<Rightarrow> Share \<Rightarrow> Share" where
  "record_total tokens count_request share0 =
     (let share = share0\<lparr>sh_requests_count := (if count_request then saturating_add_u64 (sh_requests_count share0) 1
                                               else sh_requests_count share0),
            sh_tokens_used := saturating_add_u64 (sh_tokens_used share0) tokens\<rparr>
      in if limit_reached (sh_token_limit share) (sh_tokens_used share) then close_share ''exhausted'' share else share)"

definition record_share :: "chrono \<Rightarrow> string option \<Rightarrow> nat \<Rightarrow> int \<Rightarrow> bool \<Rightarrow> nat \<Rightarrow> Share \<Rightarrow> Share" where
  "record_share cal user_email tokens at_ms count_request now share0 =
     (let share = record_total tokens count_request share0 in
      case normalized_email user_email of
        None \<Rightarrow> share
      | Some email \<Rightarrow> (case bt_get (sh_user_grants share) email of
          None \<Rightarrow> share
        | Some g \<Rightarrow> if market_bound share g then share
            else share\<lparr>sh_user_grants := bt_insert email (record_grant cal tokens at_ms count_request now g)
                   (sh_user_grants share)\<rparr>))"

definition record_user_usage ::
  "chrono \<Rightarrow> nat \<Rightarrow> ShareStore \<Rightarrow> string \<Rightarrow> string option \<Rightarrow> nat \<Rightarrow> int \<Rightarrow> bool \<Rightarrow> ShareStore \<times> Share option" where
  "record_user_usage cal now store share_id user_email tokens at_ms count_request =
     mutate_share (record_share cal user_email tokens at_ms count_request now) store share_id"

definition record_user_invocation_result ::
  "chrono \<Rightarrow> nat \<Rightarrow> ShareStore \<Rightarrow> string \<Rightarrow> string option \<Rightarrow> nat \<Rightarrow> int \<Rightarrow> ShareStore \<times> Share option" where
  "record_user_invocation_result cal now store share_id user_email tokens at_ms =
     record_user_usage cal now store share_id user_email tokens at_ms True"

text \<open>\<open>now_ms() as i64\<close> keeps the low 64 bits.\<close>

definition as_i64 :: "nat \<Rightarrow> int" where
  "as_i64 n = (int n + 2 ^ 63) mod 2 ^ 64 - 2 ^ 63"

definition record_invocation_result :: "chrono \<Rightarrow> nat \<Rightarrow> ShareStore \<Rightarrow> string \<Rightarrow> nat \<Rightarrow> ShareStore \<times> Share option" where
  "record_invocation_result cal now store share_id tokens =
     record_user_invocation_result cal now store share_id None tokens (as_i64 now)"

definition record_user_supplemental_usage ::
  "chrono \<Rightarrow> nat \<Rightarrow> ShareStore \<Rightarrow> string \<Rightarrow> string option \<Rightarrow> nat \<Rightarrow> int \<Rightarrow> ShareStore \<times> Share option" where
  "record_user_supplemental_usage cal now store share_id user_email tokens at_ms =
     record_user_usage cal now store share_id user_email tokens at_ms False"

end
