(* ===== verification/Share_Rebuild.thy ===== *)
theory Share_Rebuild
  imports Share_Admission
begin

section \<open>Rebuilding usage and operator corrections\<close>

text \<open>
  Model of the rebuilds of a share's quota usage from the usage history and of the operator's
  usage edits (\<open>src/src/domain/sharing/shares.rs\<close>). A rebuild walks the grants in the order of
  their emails and stops at the first error with the grants before it already rebuilt, which
  the caller of the anchored rebuild publishes.
\<close>

datatype SharePatchError = PatchNotFound | BindingImmutable | PolicyDivergent string
  | RevisionConflict nat nat | GrantRevisionConflict string nat nat
  | UsageTargetBelowObserved string nat nat | ManagedGrantReadOnly string
  | QuotaCycleConflict AccountQuotaCycle | Invalid string

fun patch_error_code :: "SharePatchError \<Rightarrow> string" where
  "patch_error_code PatchNotFound = ''cc_switch_share_not_found''"
| "patch_error_code BindingImmutable = ''cc_switch_share_binding_immutable''"
| "patch_error_code (PolicyDivergent _) = ''cc_switch_share_policy_divergent''"
| "patch_error_code (RevisionConflict _ _) = ''cc_switch_share_revision_conflict''"
| "patch_error_code (GrantRevisionConflict _ _ _) = ''cc_switch_share_user_grant_revision_conflict''"
| "patch_error_code (UsageTargetBelowObserved _ _ _) = ''cc_switch_share_usage_target_below_observed''"
| "patch_error_code (ManagedGrantReadOnly _) = ''cc_switch_share_market_grant_read_only''"
| "patch_error_code (QuotaCycleConflict _) = ''QUOTA_CYCLE_CONFLICT''"
| "patch_error_code (Invalid _) = ''cc_switch_share_invalid_patch''"

subsection \<open>Walking the grants\<close>

fun each_grant :: "(ShareUserGrant \<Rightarrow> ShareUserGrant \<times> unit res) \<Rightarrow> (string, ShareUserGrant) btree \<Rightarrow>
    (string, ShareUserGrant) btree \<times> unit res" where
  "each_grant f [] = ([], Ok ())"
| "each_grant f ((k, g) # m) = (case f g of
     (g', Err e) \<Rightarrow> ((k, g') # m, Err e)
   | (g', Ok _) \<Rightarrow> (let (m', r) = each_grant f m in ((k, g') # m', r)))"

definition rebuild_grants ::
  "(Share \<Rightarrow> ShareUserGrant \<Rightarrow> ShareUserGrant \<times> unit res) \<Rightarrow> ShareStore \<Rightarrow> string \<Rightarrow>
   ShareStore \<times> (SharePatchError + unit)" where
  "rebuild_grants f store share_id = (case get_share store share_id of
     None \<Rightarrow> (store, Err PatchNotFound)
   | Some share \<Rightarrow> (let (grants, r) = each_grant (f share) (sh_user_grants share)
       in (put_share share_id (share\<lparr>sh_user_grants := grants\<rparr>) store, map_err Invalid r)))"

definition grant_email :: "ShareUserGrant \<Rightarrow> string" where
  "grant_email g = to_ascii_lowercase (trim (ug_email g))"

definition rebase_current :: "ShareUserGrant \<Rightarrow> ShareUserQuotaSnapshot \<Rightarrow> bool" where
  "rebase_current g snapshot = (case ug_usage_rebase g of
     None \<Rightarrow> True | Some rebase \<Rightarrow> rebase_matches_window rebase (qn_window snapshot))"

definition drop_stale_rebase :: "bool \<Rightarrow> ShareUserGrant \<Rightarrow> ShareUserGrant" where
  "drop_stale_rebase matches g = (if matches then g else g\<lparr>ug_usage_rebase := None\<rparr>)"

subsection \<open>The exact rebuild\<close>

definition rebuild_active ::
  "chrono \<Rightarrow> json_encoder \<Rightarrow> UsageStore \<Rightarrow> string \<Rightarrow> int \<Rightarrow> ShareUserGrant \<Rightarrow> ShareUserGrant \<times> unit res" where
  "rebuild_active cal json usage share_id now_ms g0 =
     (case observe_user_quota cal json usage share_id (grant_email g0) g0 now_ms of
        Err e \<Rightarrow> (g0, Err e)
      | Ok snapshot \<Rightarrow>
          let matches = rebase_current g0 snapshot;
              g = drop_stale_rebase matches g0;
              effective = (if matches then effective_user_tokens g snapshot else qn_observed_tokens snapshot)
          in case rebuild_current_policy_bucket cal (ug_usage g) (ug_policy g) now_ms effective (qn_observed_requests snapshot) of
               Err e \<Rightarrow> (g, Err e)
             | Ok u \<Rightarrow> (let g = g\<lparr>ug_usage := u\<rparr> in (g\<lparr>ug_usage_quota := Some (quota_view g snapshot effective matches)\<rparr>, Ok ())))"

definition rebuild_grant ::
  "chrono \<Rightarrow> json_encoder \<Rightarrow> UsageStore \<Rightarrow> string \<Rightarrow> int \<Rightarrow> Share \<Rightarrow> ShareUserGrant \<Rightarrow> ShareUserGrant \<times> unit res" where
  "rebuild_grant cal json usage share_id now_ms share g =
     (if \<not> ug_active g then
        (if requires_anchor (up_token_period (ug_policy g)) then
           (case rebuild_anchored cal (ug_usage g) (ug_policy g) now_ms 0 0 of
              Err e \<Rightarrow> (g, Err e)
            | Ok u \<Rightarrow> (g\<lparr>ug_usage := u, ug_usage_quota := None\<rparr>, Ok ()))
         else (g\<lparr>ug_usage_quota := None\<rparr>, Ok ()))
      else if market_bound share g then (g, Ok ())
      else rebuild_active cal json usage share_id now_ms g)"

definition rebuild_user_usage_from_history ::
  "chrono \<Rightarrow> json_encoder \<Rightarrow> ShareStore \<Rightarrow> string \<Rightarrow> UsageStore \<Rightarrow> int \<Rightarrow> ShareStore \<times> (SharePatchError + unit)" where
  "rebuild_user_usage_from_history cal json store share_id usage now_ms =
     rebuild_grants (rebuild_grant cal json usage share_id now_ms) store share_id"

subsection \<open>The refresh after an invocation\<close>

definition capability_unavailable :: "string \<Rightarrow> AccountResetCapability" where
  "capability_unavailable reason =
     \<lparr>rcap_support = (if reason = ''profile_unsupported'' then ''unsupported'' else ''conditional''),
      rcap_sync_status = ''initializing'', rcap_reason = Some reason, rcap_minimum_contract_version = 8\<rparr>"

definition refresh_account ::
  "chrono \<Rightarrow> json_encoder \<Rightarrow> UsageStore \<Rightarrow> string \<Rightarrow> int \<Rightarrow> ShareUserGrant \<Rightarrow> ShareUserGrant" where
  "refresh_account cal json usage share_id now_ms g =
     (case observe_user_quota cal json usage share_id (grant_email g) g now_ms of
        Ok snapshot \<Rightarrow> g\<lparr>ug_usage_quota := Some (quota_view g snapshot (effective_user_tokens g snapshot) True)\<rparr>
      | Err reason \<Rightarrow> g\<lparr>ug_usage_quota := None, ug_account_reset_capability := Some (capability_unavailable reason)\<rparr>)"

definition anchored_requests :: "ShareUserUsage \<Rightarrow> nat" where
  "anchored_requests u = (case uu_anchored u of None \<Rightarrow> 0 | Some b \<Rightarrow> nb_requests_count b)"

definition refresh_anchored ::
  "chrono \<Rightarrow> json_encoder \<Rightarrow> UsageStore \<Rightarrow> string \<Rightarrow> int \<Rightarrow> ShareUserGrant \<Rightarrow> ShareUserGrant \<times> unit res" where
  "refresh_anchored cal json usage share_id now_ms g0 =
     (case observe_user_quota cal json usage share_id (grant_email g0) g0 now_ms of
        Err e \<Rightarrow> (g0, Err e)
      | Ok snapshot \<Rightarrow>
          let matches = rebase_current g0 snapshot;
              g = drop_stale_rebase matches g0;
              history = (if matches then effective_user_tokens g snapshot else qn_observed_tokens snapshot);
              effective = max history (tokens_for_policy cal (ug_usage g) (ug_policy g) now_ms);
              requests = max (qn_observed_requests snapshot) (anchored_requests (ug_usage g))
          in case rebuild_current_policy_bucket cal (ug_usage g) (ug_policy g) now_ms effective requests of
               Err e \<Rightarrow> (g, Err e)
             | Ok u \<Rightarrow> (let g = g\<lparr>ug_usage := u\<rparr> in
                 (g\<lparr>ug_usage_quota := Some ((quota_view g snapshot effective matches)\<lparr>qv_observed_requests_count := requests\<rparr>)\<rparr>, Ok ())))"

definition refresh_grant ::
  "chrono \<Rightarrow> json_encoder \<Rightarrow> UsageStore \<Rightarrow> string \<Rightarrow> int \<Rightarrow> Share \<Rightarrow> ShareUserGrant \<Rightarrow> ShareUserGrant \<times> unit res" where
  "refresh_grant cal json usage share_id now_ms share g =
     (if market_bound share g then (g, Ok ())
      else if ug_active g \<and> up_token_period (ug_policy g) = AccountReset
      then (refresh_account cal json usage share_id now_ms g, Ok ())
      else if \<not> ug_active g \<or> \<not> requires_anchor (up_token_period (ug_policy g))
      then (g\<lparr>ug_usage := (ug_usage g)\<lparr>uu_anchored := None\<rparr>\<rparr>, Ok ())
      else refresh_anchored cal json usage share_id now_ms g)"

definition rebuild_user_anchored_usage ::
  "chrono \<Rightarrow> json_encoder \<Rightarrow> ShareStore \<Rightarrow> string \<Rightarrow> UsageStore \<Rightarrow> int \<Rightarrow> ShareStore \<times> (SharePatchError + unit)" where
  "rebuild_user_anchored_usage cal json store share_id usage now_ms =
     rebuild_grants (refresh_grant cal json usage share_id now_ms) store share_id"

subsection \<open>Operator corrections\<close>

datatype ShareUserUsageEditAction = SetUsage | ClearUsage

record ShareUserUsageEdit =
  ue_action :: ShareUserUsageEditAction
  ue_target_tokens :: "nat option"
  ue_expected_grant_revision :: "nat option"
  ue_period :: "ShareTokenPeriod option"
  ue_anchor_at_ms :: "int option"
  ue_source :: ShareUsageRebaseSource
  ue_expected_account_cycle :: "AccountQuotaCycle option"

record ShareTotalUsageEdit =
  te_action :: ShareUserUsageEditAction
  te_tokens_used :: "nat option"

definition touch_grant :: "int \<Rightarrow> ShareUserGrant \<Rightarrow> ShareUserGrant" where
  "touch_grant applied_at_ms g = g\<lparr>ug_updated_at_ms := nat (max applied_at_ms 0),
     ug_revision := max (saturating_add_u64 (ug_revision g) 1) 1\<rparr>"

definition edit_guard :: "ShareUserGrant option \<Rightarrow> ShareUserGrant option \<Rightarrow> string \<Rightarrow> ShareUserUsageEdit \<Rightarrow>
    SharePatchError + ShareUserGrant" where
  "edit_guard previous current email edit =
     rbind (case ue_expected_grant_revision edit of
        None \<Rightarrow> Ok ()
      | Some expected \<Rightarrow>
          (let revision = (case previous of None \<Rightarrow> 0 | Some g \<Rightarrow> ug_revision g) in
           check (revision = expected) (GrantRevisionConflict email expected revision))) (\<lambda>_.
     rbind (ok_or current (Invalid (''user grant '' @ email @ '' not found''))) (\<lambda>g.
     rbind (check (ug_active g) (Invalid (''user grant '' @ email @ '' is inactive''))) (\<lambda>_.
     rbind (check (ug_manager g \<noteq> RouterShareMarket) (ManagedGrantReadOnly email)) (\<lambda>_.
     rbind (check (\<not> (up_value_quota (ug_policy g) \<noteq> None \<or> ug_pending_value_quota g \<noteq> None))
       (Invalid ''Token usage edits cannot modify a USD-equivalent grant; use valueUsageEdit'')) (\<lambda>_.
     rbind (check (case ue_period edit of None \<Rightarrow> True | Some p \<Rightarrow> p = up_token_period (ug_policy g))
       (Invalid (''usage edit period does not match grant policy for '' @ email))) (\<lambda>_.
     rbind (check (case ue_anchor_at_ms edit of None \<Rightarrow> True | Some a \<Rightarrow> up_token_period_anchor_at_ms (ug_policy g) = Some a)
       (Invalid (''usage edit anchor does not match grant policy for '' @ email))) (\<lambda>_.
     Ok g)))))))"

definition edit_account_grant ::
  "chrono \<Rightarrow> json_encoder \<Rightarrow> UsageStore \<Rightarrow> string \<Rightarrow> string \<Rightarrow> ShareUserUsageEdit \<Rightarrow> int \<Rightarrow> string option \<Rightarrow>
   ShareUserGrant \<Rightarrow> SharePatchError + ShareUserGrant" where
  "edit_account_grant cal json usage share_id email edit applied_at_ms operator g =
     rbind (ok_or (ug_account_quota_cycle g) (Invalid ''ACCOUNT_RESET_NOT_READY'')) (\<lambda>cycle.
     rbind (check (case ue_expected_account_cycle edit of None \<Rightarrow> False
         | Some expected \<Rightarrow> same_cycle expected cycle \<and> cy_cycle_revision expected = cy_cycle_revision cycle)
       (QuotaCycleConflict cycle)) (\<lambda>_.
     rbind (map_err Invalid (observe_user_quota cal json usage share_id email g applied_at_ms)) (\<lambda>_.
     rbind (case ue_action edit of
         ClearUsage \<Rightarrow> Ok None
       | SetUsage \<Rightarrow> rbind (ok_or (ue_target_tokens edit) (Invalid ''targetTokens is required'')) (\<lambda>target.
           Ok (Some \<lparr>ba_source_ref = cy_source_ref cycle, ba_cycle_id = cy_cycle_id cycle, ba_target_tokens = target,
                     ba_usage_watermark = us_watermark (st_quota_ledger usage), ba_applied_at_ms = applied_at_ms,
                     ba_applied_by = operator\<rparr>))) (\<lambda>baseline.
     Ok (touch_grant applied_at_ms (g\<lparr>ug_account_usage_baseline := baseline\<rparr>))))))"

text \<open>
  The journal watermark only makes a correction auditable; the journal is not part of the usage
  store's model, so its watermark is an argument.
\<close>

definition edit_period_grant ::
  "chrono \<Rightarrow> json_encoder \<Rightarrow> UsageStore \<Rightarrow> nat \<Rightarrow> string \<Rightarrow> string \<Rightarrow> ShareUserUsageEdit \<Rightarrow> int \<Rightarrow> string option \<Rightarrow>
   ShareUserGrant \<Rightarrow> SharePatchError + ShareUserGrant" where
  "edit_period_grant cal json usage journal_watermark share_id email edit applied_at_ms operator g =
     (case ue_action edit of
        ClearUsage \<Rightarrow> Ok (touch_grant applied_at_ms (g\<lparr>ug_usage_rebase := None\<rparr>))
      | SetUsage \<Rightarrow>
          rbind (ok_or (ue_target_tokens edit) (Invalid (''usage edit targetTokens is required for '' @ email))) (\<lambda>target.
          rbind (map_err Invalid (observe_user_quota cal json usage share_id email g applied_at_ms)) (\<lambda>snapshot.
          rbind (check (\<not> target < qn_observed_tokens snapshot)
            (UsageTargetBelowObserved email target (qn_observed_tokens snapshot))) (\<lambda>_.
          Ok (touch_grant applied_at_ms (g\<lparr>ug_usage_rebase := Some
            \<lparr>rb_period = up_token_period (ug_policy g), rb_anchor_at_ms = up_token_period_anchor_at_ms (ug_policy g),
             rb_window_starts_at_ms = qw_starts_at_ms (qn_window snapshot),
             rb_window_ends_at_ms = qw_ends_at_ms (qn_window snapshot), rb_target_tokens = target,
             rb_observed_tokens_at_rebase = qn_observed_tokens snapshot,
             rb_observed_requests_at_rebase = qn_observed_requests snapshot, rb_usage_watermark = journal_watermark,
             rb_applied_at_ms = applied_at_ms, rb_applied_by = operator, rb_source = ue_source edit\<rparr>\<rparr>))))))"

definition edit_grant ::
  "chrono \<Rightarrow> json_encoder \<Rightarrow> UsageStore \<Rightarrow> nat \<Rightarrow> string \<Rightarrow> Share \<Rightarrow> int \<Rightarrow> string option \<Rightarrow>
   string \<times> ShareUserUsageEdit \<Rightarrow> Share \<Rightarrow> SharePatchError + Share" where
  "edit_grant cal json usage journal_watermark share_id original applied_at_ms operator = (\<lambda>(key, edit) share.
     rbind (map_err Invalid (normalize_verified_email key)) (\<lambda>email.
     rbind (edit_guard (bt_get (sh_user_grants original) email) (bt_get (sh_user_grants share) email) email edit) (\<lambda>g.
     rbind (if up_token_period (ug_policy g) = AccountReset
            then edit_account_grant cal json usage share_id email edit applied_at_ms operator g
            else edit_period_grant cal json usage journal_watermark share_id email edit applied_at_ms operator g) (\<lambda>g'.
     Ok (share\<lparr>sh_user_grants := bt_insert email g' (sh_user_grants share)\<rparr>)))))"

fun edit_grants ::
  "chrono \<Rightarrow> json_encoder \<Rightarrow> UsageStore \<Rightarrow> nat \<Rightarrow> string \<Rightarrow> Share \<Rightarrow> int \<Rightarrow> string option \<Rightarrow>
   (string, ShareUserUsageEdit) btree \<Rightarrow> Share \<Rightarrow> SharePatchError + Share" where
  "edit_grants cal json usage wm share_id original at_ms operator [] share = Ok share"
| "edit_grants cal json usage wm share_id original at_ms operator (e # es) share =
     rbind (edit_grant cal json usage wm share_id original at_ms operator e share)
       (edit_grants cal json usage wm share_id original at_ms operator es)"

definition apply_user_usage_edits ::
  "chrono \<Rightarrow> json_encoder \<Rightarrow> ShareStore \<Rightarrow> string \<Rightarrow> Share \<Rightarrow> (string, ShareUserUsageEdit) btree \<Rightarrow> UsageStore \<Rightarrow> nat \<Rightarrow>
   int \<Rightarrow> string option \<Rightarrow> SharePatchError + ShareStore" where
  "apply_user_usage_edits cal json store share_id original edits usage journal_watermark applied_at_ms operator =
     rbind (ok_or (get_share store share_id) PatchNotFound) (\<lambda>share.
     rbind (edit_grants cal json usage journal_watermark share_id original applied_at_ms operator edits share) (\<lambda>share'.
     Ok (put_share share_id share' store)))"

definition set_total :: "nat \<Rightarrow> Share \<Rightarrow> Share" where
  "set_total tokens share0 =
     (let share = share0\<lparr>sh_tokens_used := tokens\<rparr>
      in mark_share_config_pending
           (if limit_reached (sh_token_limit share) (sh_tokens_used share) then close_share ''exhausted'' share
            else if sh_status share = ''exhausted'' then close_share ''paused'' share else share))"

definition apply_share_total_usage_edit ::
  "ShareStore \<Rightarrow> string \<Rightarrow> ShareTotalUsageEdit \<Rightarrow> SharePatchError + ShareStore" where
  "apply_share_total_usage_edit store share_id edit =
     rbind (ok_or (get_share store share_id) PatchNotFound) (\<lambda>share.
     rbind (case te_action edit of
         ClearUsage \<Rightarrow> Ok 0
       | SetUsage \<Rightarrow> ok_or (te_tokens_used edit) (Invalid ''share usage edit tokensUsed is required for action set'')) (\<lambda>tokens.
     if sh_tokens_used share = tokens then Ok store else Ok (put_share share_id (set_total tokens share) store)))"

end
