(* ===== verification/Share_Claims.thy ===== *)
theory Share_Claims
  imports Share_Rebuild Market_Claims
begin

section \<open>Properties of admission and metering\<close>

text \<open>
  What admission guarantees, that metering closes a quota, and what a rejection and a rebuild
  leave behind.
\<close>

subsection \<open>The store\<close>

text \<open>
  The contract of the store the operations rely on: what is put under an identifier is found
  there, and nothing else moves.
\<close>

locale share_store =
  fixes get :: "'s \<Rightarrow> string \<Rightarrow> Share option"
    and put :: "string \<Rightarrow> Share \<Rightarrow> 's \<Rightarrow> 's"
  assumes get_put: "get st i = Some s \<Longrightarrow> sh_id s' = i \<Longrightarrow> get (put i s' st) j = (if j = i then Some s' else get st j)"
    and put_same: "get st i = Some s \<Longrightarrow> put i s st = st"
    and get_id: "get st i = Some s \<Longrightarrow> sh_id s = i"
begin

lemma get_update:
  assumes "get st i = Some s" and "sh_id s' = sh_id s"
  shows "get (put i s' st) i = Some s'" "j \<noteq> i \<Longrightarrow> get (put i s' st) j = get st j"
  using get_put [OF assms(1), of s'] assms(2) get_id [OF assms(1)] by simp_all

end

interpretation shares: share_store get_share put_share
proof
  show "get_share (put_share i s' st) j = (if j = i then Some s' else get_share st j)"
    if "get_share st i = Some s" "sh_id s' = i" for st i s s' j
    using that by (induction st) (auto simp: get_share_def split: if_splits)
  show "put_share i s st = st" if "get_share st i = Some s" for st i s
    using that by (induction st) (auto simp: get_share_def split: if_splits)
  show "sh_id s = i" if "get_share st i = Some s" for st i s
    using that find_Some_iff2 [of "\<lambda>s. sh_id s = i" st s] by (simp add: get_share_def)
qed

subsection \<open>Admission\<close>

definition grant_admissible :: "chrono \<Rightarrow> Share \<Rightarrow> AppKind \<Rightarrow> int \<Rightarrow> ShareUserGrant \<Rightarrow> bool" where
  "grant_admissible cal share app now_ms g \<longleftrightarrow>
     \<not> access_pending g \<and> \<not> of_entitlement (uncertain share) g \<and> \<not> of_entitlement (exhausted share) g \<and>
     (up_allowed_apps (ug_policy g) = [] \<or> app \<in> set (up_allowed_apps (ug_policy g))) \<and>
     \<not> expired_opt (up_expires_at (ug_policy g)) now_ms \<and> \<not> quota_not_ready g \<and>
     \<not> limit_reached (up_token_limit (ug_policy g)) (effective_grant_tokens_for_policy cal g now_ms)"

definition open_share :: "Share \<Rightarrow> AppKind \<Rightarrow> int \<Rightarrow> bool" where
  "open_share share app now_ms \<longleftrightarrow> app \<in> set (sh_bindings share) \<and> app \<in> set (share_enabled_apps share) \<and>
     sh_enabled share \<and> sh_status share = ''active'' \<and> \<not> expired_opt (sh_expires_at share) now_ms \<and>
     \<not> limit_reached (sh_token_limit share) (sh_tokens_used share)"

lemma check_grant_Ok: "check_grant cal share app now_ms g = Ok u \<longleftrightarrow> grant_admissible cal share app now_ms g"
  by (auto simp: check_grant_def grant_admissible_def result_iff)

lemma check_user_Ok:
  "(\<exists>inv. check_user cal share app user_email now_ms = Ok inv) \<longleftrightarrow>
   (\<exists>e. normalized_email user_email = Some e \<and>
      (case active_grant share (Some e) of None \<Rightarrow> sh_free_access share | Some g \<Rightarrow> grant_admissible cal share app now_ms g))"
  by (cases "normalized_email user_email"; cases "active_grant share (normalized_email user_email)")
    (auto simp: check_user_def Let_def result_iff check_grant_Ok active_grant_def)

lemma validate_share_Ok:
  "(\<exists>inv. snd (validate_share cal share app user_email now_ms) = Ok inv) \<longleftrightarrow>
   open_share share app now_ms \<and> (\<exists>inv. check_user cal share app user_email now_ms = Ok inv)"
  by (auto simp: validate_share_def open_share_def share_app_api_enabled_def)

lemma validate_store:
  assumes "get_share store share_id = Some share"
  shows "validate_for_invocation cal store share_id app user_email now_ms =
    (put_share share_id (fst (validate_share cal share app user_email now_ms)) store,
     snd (validate_share cal share app user_email now_ms))"
  using assms by (simp add: validate_for_invocation_def case_prod_beta)

text \<open>When a request is let in, whatever the order of the checks.\<close>

lemma admission_exact:
  "(\<exists>inv. snd (validate_for_invocation cal store share_id app user_email now_ms) = Ok inv) \<longleftrightarrow>
   (\<exists>share e. get_share store share_id = Some share \<and> open_share share app now_ms \<and>
      normalized_email user_email = Some e \<and>
      (case active_grant share (Some e) of None \<Rightarrow> sh_free_access share | Some g \<Rightarrow> grant_admissible cal share app now_ms g))"
proof (cases "get_share store share_id")
  case None
  then show ?thesis by (simp add: validate_for_invocation_def)
next
  case (Some share)
  then show ?thesis
    unfolding validate_store [OF Some] snd_conv validate_share_Ok check_user_Ok by auto
qed

subsection \<open>Recording\<close>

lemma record_inner_tokens:
  assumes "ub_started_at_ms (uu_lifetime u) = 0" and "p \<noteq> SevenDays" and "p \<noteq> ThirtyDays" and "p \<noteq> AccountReset"
  shows "tokens_for cal (record_inner cal tokens at_ms c u) p at_ms = saturating_add_u64 (tokens_for cal u p at_ms) tokens"
  using assms by (cases p) (simp_all add: tokens_for_def record_inner_def record_bucket_def default_bucket_def
      current_bucket_tokens_def Let_def)

lemma record_tokens:
  assumes "ub_started_at_ms (uu_lifetime u) = 0" and "up_token_period p \<noteq> AccountReset"
    and "token_period_window cal p at_ms = Ok w"
  shows "tokens_for_policy cal (record_for_policy_inner cal p tokens at_ms c u) p at_ms =
    saturating_add_u64 (tokens_for_policy cal u p at_ms) tokens"
proof (cases "requires_anchor (up_token_period p)")
  case False
  then have "up_token_period p \<noteq> SevenDays" "up_token_period p \<noteq> ThirtyDays" by auto
  with False assms record_inner_tokens [OF assms(1)] show ?thesis
    by (simp add: tokens_for_policy_def record_for_policy_inner_def)
next
  case True
  then have "fixed_window (up_token_period p) (up_token_period_anchor_at_ms p) at_ms = Ok w"
    using assms(3) by (cases "up_token_period p") (simp_all add: token_period_window_def split: if_splits)
  then obtain a s where a: "up_token_period_anchor_at_ms p = Some a" "tw_starts_at_ms w = Some s"
    by (rule fixed_window_Ok) (simp add: calendar_window_def)
  with True assms(3) have "anchored_at cal p at_ms = Some (a, s)" by (simp add: anchored_at_def)
  with True assms(3) a show ?thesis
    by (auto simp: tokens_for_policy_def record_for_policy_parts with_anchored_def record_inner_def anchored_tokens_def
        replay_anchored_def fixed_anchored_def Let_def split: option.splits)
qed

lemma rebuild_bucket_tokens:
  assumes "rebuild_current_policy_bucket cal u p at_ms n m = Ok u'" and "up_token_period p \<noteq> AccountReset"
  shows "tokens_for_policy cal u' p at_ms = n"
    "ub_started_at_ms (uu_lifetime u) = 0 \<Longrightarrow> ub_started_at_ms (uu_lifetime u') = 0"
  using assms by (cases "up_token_period p"; auto simp: rebuild_current_policy_bucket_def tokens_for_policy_def tokens_for_def
      fixed_bucket_def fixed_anchored_def current_bucket_tokens_def anchored_tokens_def result_iff)+

lemma rebuild_bucket_total:
  assumes "token_period_window cal p at_ms = Ok w" and "up_token_period p \<noteq> AccountReset"
  shows "\<exists>u'. rebuild_current_policy_bucket cal u p at_ms n m = Ok u'"
proof (cases "requires_anchor (up_token_period p)")
  case False
  with assms(2) show ?thesis by (cases "up_token_period p") (simp_all add: rebuild_current_policy_bucket_def)
next
  case True
  then have "fixed_window (up_token_period p) (up_token_period_anchor_at_ms p) at_ms = Ok w"
    using assms(1) by (cases "up_token_period p") (simp_all add: token_period_window_def split: if_splits)
  then obtain a s where "up_token_period_anchor_at_ms p = Some a" "tw_starts_at_ms w = Some s"
    by (rule fixed_window_Ok) (simp add: calendar_window_def)
  with True assms(1) show ?thesis by (cases "up_token_period p") (simp_all add: rebuild_current_policy_bucket_def)
qed

lemma effective_ge_bucket:
  "up_token_period (ug_policy g) \<noteq> AccountReset \<Longrightarrow>
   tokens_for_policy cal (ug_usage g) (ug_policy g) at_ms \<le> effective_grant_tokens_for_policy cal g at_ms"
  by (auto simp: effective_grant_tokens_for_policy_def Let_def split: option.splits)

lemma carry_baseline_tokens:
  assumes "up_token_period (ug_policy g) \<noteq> AccountReset" and "token_period_window cal (ug_policy g) at_ms = Ok w"
    and "ub_started_at_ms (uu_lifetime (ug_usage g)) = 0"
  shows "tokens_for_policy cal (carry_baseline cal g at_ms) (ug_policy g) at_ms = effective_grant_tokens_for_policy cal g at_ms"
    "ub_started_at_ms (uu_lifetime (carry_baseline cal g at_ms)) = 0"
proof -
  let ?e = "effective_grant_tokens_for_policy cal g at_ms" and ?c = "tokens_for_policy cal (ug_usage g) (ug_policy g) at_ms"
  let ?m = "case ug_usage_quota g of None \<Rightarrow> 0 | Some q \<Rightarrow> qv_observed_requests_count q"
  from rebuild_bucket_total [OF assms(2,1)] obtain u where
    u: "rebuild_current_policy_bucket cal (ug_usage g) (ug_policy g) at_ms ?e ?m = Ok u" by blast
  have "carry_baseline cal g at_ms = (if ?c < ?e then u else ug_usage g)" using u by (simp add: carry_baseline_def Let_def)
  with effective_ge_bucket [OF assms(1), of cal at_ms] rebuild_bucket_tokens [OF u assms(1)] assms(3)
  show "tokens_for_policy cal (carry_baseline cal g at_ms) (ug_policy g) at_ms = ?e"
    "ub_started_at_ms (uu_lifetime (carry_baseline cal g at_ms)) = 0"
    by (simp_all split: if_splits)
qed

text \<open>Recording adds exactly the tokens to what the limit is compared with.\<close>

lemma record_grant_effective:
  assumes "up_token_period (ug_policy g) \<noteq> AccountReset" and "token_period_window cal (ug_policy g) at_ms = Ok w"
    and "ub_started_at_ms (uu_lifetime (ug_usage g)) = 0" and "effective_grant_tokens_for_policy cal g at_ms \<le> u64_max"
  shows "effective_grant_tokens_for_policy cal (record_grant cal tokens at_ms c now g) at_ms =
    saturating_add_u64 (effective_grant_tokens_for_policy cal g at_ms) tokens"
proof -
  let ?e = "effective_grant_tokens_for_policy cal g at_ms" and ?h = "record_grant cal tokens at_ms c now g"
  have h: "ug_policy ?h = ug_policy g" "ug_usage_rebase ?h = ug_usage_rebase g"
    "ug_usage ?h = record_for_policy_inner cal (ug_policy g) tokens at_ms c (carry_baseline cal g at_ms)"
    by (simp_all add: record_grant_def Let_def record_for_policy_def record_supplemental_for_policy_def)
  have used: "tokens_for_policy cal (ug_usage ?h) (ug_policy g) at_ms = saturating_add_u64 ?e tokens"
    unfolding h(3) record_tokens [OF carry_baseline_tokens(2) [OF assms(1-3)] assms(1,2)] carry_baseline_tokens(1) [OF assms(1-3)] ..
  have view: "ug_usage_quota ?h = map_option (advance_view (saturating_add_u64 ?e tokens) tokens c) (ug_usage_quota g)"
    using assms(1) used unfolding h(3) by (cases c)
      (simp_all add: record_grant_def Let_def record_for_policy_def record_supplemental_for_policy_def)
  have "?e \<le> saturating_add_u64 ?e tokens" using assms(4) by (rule saturating_add_u64_ge)
  moreover have "rb_target_tokens r \<le> ?e" if "ug_usage_rebase g = Some r" "rb_period r = up_token_period (ug_policy g)"
    "rb_anchor_at_ms r = up_token_period_anchor_at_ms (ug_policy g)" for r
    using that assms(1) by (simp add: effective_grant_tokens_for_policy_def Let_def)
  ultimately show ?thesis
    using assms(1) used view
    by (auto simp: effective_grant_tokens_for_policy_def [of cal ?h] Let_def h(1,2) advance_view_def quota_effective_def
        max_def split: option.splits if_splits dest: order_trans)
qed

lemma record_total_frame [simp]:
  "sh_user_grants (record_total n c s) = sh_user_grants s" "sh_id (record_total n c s) = sh_id s"
  "sh_market_entitlements (record_total n c s) = sh_market_entitlements s" "sh_token_limit (record_total n c s) = sh_token_limit s"
  "sh_tokens_used (record_total n c s) = saturating_add_u64 (sh_tokens_used s) n"
  by (simp_all add: record_total_def Let_def close_share_def)

lemma record_share_frame:
  "sh_id (record_share cal email n at_ms c now s) = sh_id s"
  "sh_tokens_used (record_share cal email n at_ms c now s) = saturating_add_u64 (sh_tokens_used s) n"
  "sh_enabled (record_share cal email n at_ms c now s) = sh_enabled (record_total n c s)"
  by (simp_all add: record_share_def Let_def split: option.split)

lemma record_share_grant:
  assumes "normalized_email email = Some e" and "active_grant s (Some e) = Some g" and "\<not> market_bound s g"
  shows "active_grant (record_share cal email n at_ms c now s) (Some e) = Some (record_grant cal n at_ms c now g)"
proof -
  have "bt_get (sh_user_grants s) e = Some g" "ug_active g"
    using assms(2) by (auto simp: active_grant_def split: option.splits if_splits)
  with assms(1,3) show ?thesis
    by (simp add: record_share_def Let_def active_grant_def market_bound_def record_grant_def)
qed

text \<open>What a limit is compared with depends on the time only through the window it lies in.\<close>

lemma same_window_tokens:
  assumes "token_period_window cal p t = Ok w" and "token_period_window cal p u = Ok w" and "up_token_period p \<noteq> AccountReset"
  shows "tokens_for_policy cal x p t = tokens_for_policy cal x p u"
proof (cases "requires_anchor (up_token_period p)")
  case True
  with assms show ?thesis by (simp add: tokens_for_policy_def)
next
  case False
  with assms show ?thesis
    by (cases "up_token_period p") (auto simp: tokens_for_policy_def tokens_for_def token_period_window_def calendar_window_def
        utc_day_start_ms_def utc_week_start_ms_def utc_calendar_month_start_ms_def utc_datetime_def Let_def split: if_splits prod.splits)
qed

lemma same_window_effective:
  assumes "token_period_window cal (ug_policy g) t = Ok w" and "token_period_window cal (ug_policy g) u = Ok w"
    and "up_token_period (ug_policy g) \<noteq> AccountReset"
  shows "effective_grant_tokens_for_policy cal g t = effective_grant_tokens_for_policy cal g u"
  using same_window_tokens [OF assms] assms(3) by (simp add: effective_grant_tokens_for_policy_def)

lemma closed_share_refuses:
  assumes "get_share store i = Some share" and "\<not> sh_enabled share"
  shows "\<nexists>inv. snd (validate_for_invocation cal store i app email now_ms) = Ok inv"
  unfolding admission_exact using assms by (auto simp: open_share_def)


text \<open>
  C36. A rejected request changes nothing, with one exception that it announces: a share found
  expired or spent is closed, and then no request to it is admitted, by whom and when ever it
  is made, while the store stays as it is; no other share and no other field is touched.
\<close>

theorem rejection_frame:
  assumes "validate_for_invocation cal store i app email now_ms = (store', Err rej)"
  shows "rj_concurrency rej = None \<and>
    (if rj_status_changed rej
     then \<exists>share status. get_share store i = Some share \<and>
       store' = put_share i (share\<lparr>sh_status := status, sh_enabled := False\<rparr>) store \<and>
       (status = ''expired'' \<and> rj_reason rej = Expired \<or> status = ''exhausted'' \<and> rj_reason rej = Exhausted) \<and>
       (\<forall>app' email' later. \<nexists>inv. snd (validate_for_invocation cal store' i app' email' later) = Ok inv)
     else store' = store)"
proof (cases "get_share store i")
  case None
  with assms show ?thesis by (auto simp: validate_for_invocation_def reject_def)
next
  case (Some share)
  let ?v = "validate_share cal share app email now_ms"
  have v: "store' = put_share i (fst ?v) store" "snd ?v = Err rej"
    using assms unfolding validate_store [OF Some] by simp_all
  have user: "check_user cal share app email now_ms = Err rej \<Longrightarrow> rj_concurrency rej = None \<and> \<not> rj_status_changed rej"
    by (auto simp: check_user_def check_grant_def Let_def result_iff check_def reject_def split: if_splits option.splits)
  have kept: "fst ?v = share \<Longrightarrow> store' = store" using v(1) shares.put_same [OF Some] by simp
  have closed: "\<nexists>inv. snd (validate_for_invocation cal store' i app' email' later) = Ok inv"
    if "store' = put_share i (share\<lparr>sh_status := status, sh_enabled := False\<rparr>) store" for status app' email' later
  proof -
    have "get_share store' i = Some (share\<lparr>sh_status := status, sh_enabled := False\<rparr>)"
      unfolding that by (rule shares.get_update(1) [OF Some]) simp
    then show ?thesis unfolding admission_exact by (auto simp: open_share_def)
  qed
  from v(2) consider "fst ?v = share" "rj_concurrency rej = None" "\<not> rj_status_changed rej"
    | status where "fst ?v = share\<lparr>sh_status := status, sh_enabled := False\<rparr>" "rj_concurrency rej = None" "rj_status_changed rej"
      "status = ''expired'' \<and> rj_reason rej = Expired \<or> status = ''exhausted'' \<and> rj_reason rej = Exhausted"
    using user by (auto simp: validate_share_def close_share_def reject_def split: if_splits)
  then show ?thesis
  proof cases
    case 1
    with kept show ?thesis by simp
  next
    case 2
    with v(1) Some closed [of status] show ?thesis by (simp add: exI [of _ status])
  qed
qed

subsection \<open>Rebuilds\<close>

lemma each_grant_Ok:
  assumes "each_grant f m = (m', Ok u)" and "bt_get m e = Some g"
  shows "\<exists>g'. f g = (g', Ok ()) \<and> bt_get m' e = Some g'"
  using assms
proof (induction m arbitrary: m')
  case (Cons x m)
  obtain k h where x: "x = (k, h)" by (cases x)
  from Cons.prems(1) x obtain h' m'' where h: "f h = (h', Ok ())" "each_grant f m = (m'', Ok u)" "m' = (k, h') # m''"
    by (auto split: prod.splits sum.splits)
  with Cons.prems(2) x Cons.IH [OF h(2)] show ?case by (auto simp: bt_get_Cons split: if_splits)
qed simp

lemma effective_user_ge_target:
  assumes "ug_usage_rebase g = Some r" and "rebase_matches_window r (qn_window snapshot)"
    and "up_token_period (ug_policy g) \<noteq> AccountReset" and "rb_target_tokens r \<le> u64_max"
  shows "rb_target_tokens r \<le> effective_user_tokens g snapshot"
  using assms by (simp add: effective_user_tokens_def saturating_add_u64_ge)

definition history_tokens :: "ShareUserGrant \<Rightarrow> ShareUserQuotaSnapshot \<Rightarrow> nat" where
  "history_tokens g snapshot =
     (if rebase_current g snapshot then effective_user_tokens g snapshot else qn_observed_tokens snapshot)"

lemma rebuild_active_effective:
  assumes "rebuild_active cal json usage i now_ms g = (g', Ok ())"
    and "\<And>r. ug_usage_rebase g = Some r \<Longrightarrow> rb_target_tokens r \<le> u64_max"
  shows "\<exists>snapshot. observe_user_quota cal json usage i (grant_email g) g now_ms = Ok snapshot \<and>
    effective_grant_tokens_for_policy cal g' now_ms = history_tokens g snapshot"
proof -
  from assms(1) obtain snapshot where o: "observe_user_quota cal json usage i (grant_email g) g now_ms = Ok snapshot"
    by (auto simp: rebuild_active_def split: sum.splits)
  define m where "m = rebase_current g snapshot"
  define h where "h = drop_stale_rebase m g"
  define n where "n = history_tokens g snapshot"
  have tokens: "(if m then effective_user_tokens h snapshot else qn_observed_tokens snapshot) = n"
    by (simp add: n_def history_tokens_def m_def h_def drop_stale_rebase_def)
  from assms(1) obtain u where u: "rebuild_current_policy_bucket cal (ug_usage h) (ug_policy h) now_ms n (qn_observed_requests snapshot) = Ok u"
    and g': "g' = h\<lparr>ug_usage := u, ug_usage_quota := Some (quota_view (h\<lparr>ug_usage := u\<rparr>) snapshot n m)\<rparr>"
    unfolding rebuild_active_def o sum.case Let_def m_def [symmetric] h_def [symmetric] tokens by (auto split: sum.splits)
  have policy: "ug_policy h = ug_policy g" by (simp add: h_def drop_stale_rebase_def)
  have rebase: "ug_usage_rebase h = (if m then ug_usage_rebase g else None)" by (simp add: h_def drop_stale_rebase_def)
  have "effective_grant_tokens_for_policy cal g' now_ms = n"
  proof (cases "up_token_period (ug_policy g) = AccountReset")
    case True
    then show ?thesis by (simp add: effective_grant_tokens_for_policy_def g' policy quota_effective_def quota_view_def)
  next
    case False
    have bucket: "tokens_for_policy cal u (ug_policy g) now_ms = n" using rebuild_bucket_tokens(1) [OF u] False policy by simp
    show ?thesis
    proof (cases "ug_usage_rebase h")
      case None
      with False bucket show ?thesis by (simp add: effective_grant_tokens_for_policy_def g' policy quota_view_def Let_def)
    next
      case (Some r)
      with rebase have r: "m" "ug_usage_rebase g = Some r" by (auto split: if_splits)
      then have "rebase_matches_window r (qn_window snapshot)" by (simp add: m_def rebase_current_def)
      with effective_user_ge_target [OF r(2) _ False assms(2) [OF r(2)]] r(1) have "rb_target_tokens r \<le> n"
        by (simp add: n_def history_tokens_def m_def)
      with Some False bucket show ?thesis
        by (simp add: effective_grant_tokens_for_policy_def g' policy quota_view_def quota_effective_def Let_def max_def)
    qed
  qed
  with o show ?thesis by (simp add: n_def)
qed

text \<open>
  C37. A rebuild restores the truth: after the history has been replayed, the quantity a user's
  limit is compared with is exactly what the recorded usage of the current window gives,
  corrected by the operator's baseline if and only if that baseline was set for this very
  window, whatever the buckets and views of the grant were before.
\<close>

theorem rebuild_enforces_history:
  assumes "rebuild_user_usage_from_history cal json store i usage now_ms = (store', Ok ())"
    and "get_share store i = Some share" and "bt_get (sh_user_grants share) e = Some g"
    and "ug_active g" and "\<not> market_bound share g"
    and "\<forall>r. ug_usage_rebase g = Some r \<longrightarrow> rb_target_tokens r \<le> u64_max"
  shows "\<exists>share' g' snapshot. get_share store' i = Some share' \<and> bt_get (sh_user_grants share') e = Some g' \<and>
    observe_user_quota cal json usage i (grant_email g) g now_ms = Ok snapshot \<and>
    effective_grant_tokens_for_policy cal g' now_ms =
      (if rebase_current g snapshot then effective_user_tokens g snapshot else qn_observed_tokens snapshot)"
proof -
  let ?f = "rebuild_grant cal json usage i now_ms share"
  obtain grants r where each: "each_grant ?f (sh_user_grants share) = (grants, r)" by (cases "each_grant ?f (sh_user_grants share)")
  with assms(1,2) have store': "store' = put_share i (share\<lparr>sh_user_grants := grants\<rparr>) store" and "r = Ok ()"
    by (auto simp: rebuild_user_usage_from_history_def rebuild_grants_def result_iff)
  with each_grant_Ok [OF _ assms(3), of ?f] each obtain g' where g': "?f g = (g', Ok ())" "bt_get grants e = Some g'" by blast
  from g'(1) assms(4,5) have "rebuild_active cal json usage i now_ms g = (g', Ok ())" by (simp add: rebuild_grant_def)
  from rebuild_active_effective [OF this] assms(6) obtain snapshot where
    "observe_user_quota cal json usage i (grant_email g) g now_ms = Ok snapshot"
    "effective_grant_tokens_for_policy cal g' now_ms = history_tokens g snapshot" by blast
  moreover have "get_share store' i = Some (share\<lparr>sh_user_grants := grants\<rparr>)"
    unfolding store' by (rule shares.get_update(1) [OF assms(2)]) simp
  ultimately show ?thesis using g'(2) by (intro exI [of _ "share\<lparr>sh_user_grants := grants\<rparr>"] exI [of _ g'] exI [of _ snapshot])
    (simp add: history_tokens_def)
qed

subsection \<open>A baseline and later windows\<close>

text \<open>
  What admission compares with the limit includes the target of an operator's baseline as long as
  the period and the anchor of the baseline are those of the policy, at every time; the window
  that the baseline was set in is compared by the rebuild only.
\<close>

lemma rebase_counts_in_every_window:
  assumes "ug_usage_rebase g = Some r" and "rb_period r = up_token_period (ug_policy g)"
    and "rb_anchor_at_ms r = up_token_period_anchor_at_ms (ug_policy g)" and "up_token_period (ug_policy g) \<noteq> AccountReset"
  shows "rb_target_tokens r \<le> effective_grant_tokens_for_policy cal g now_ms"
  using assms by (simp add: effective_grant_tokens_for_policy_def Let_def)

subsection \<open>Witnesses\<close>

definition demo_user :: ShareUserGrant where
  "demo_user = (market_grant None ''u@x.y'' (demo_policy Day None) ''e'' 1000)\<lparr>ug_manager := ManualGrant, ug_entitlement_id := None\<rparr>"

definition demo_seat :: "ShareUserGrant \<Rightarrow> Share" where
  "demo_seat g = demo_share\<lparr>sh_token_limit := Some 1000, sh_user_grants := [(''u@x.y'', g)]\<rparr>"

lemma demo_normalized: "normalized_email (Some ''u@x.y'') = Some ''u@x.y''"
proof -
  have "trim ''u@x.y'' \<noteq> []" by code_simp
  then show ?thesis by (simp add: normalized_email_def demo_email)
qed

lemma demo_seat_simps:
  "get_share [demo_seat g] ''s'' = Some (demo_seat g)" "bt_get (sh_user_grants (demo_seat g)) ''u@x.y'' = Some g"
  "open_share (demo_seat g) Codex t"
  by (simp_all add: get_share_def demo_seat_def demo_share_def bt_get_Cons open_share_def share_enabled_apps_def
      share_bound_apps_def expired_opt_def limit_reached_def)

lemma demo_user_simps:
  "ug_active demo_user" "ug_policy demo_user = demo_policy Day None" "ug_entitlement_id demo_user = None"
  "ug_usage demo_user = default_usage" "ug_usage_rebase demo_user = None" "ug_usage_quota demo_user = None"
  "ug_pending_value_quota demo_user = None"
  by (simp_all add: demo_user_def market_grant_def)

lemma demo_window: "token_period_window year_1970 (demo_policy Day None) (20 * DAY_MS) = Ok (calendar_window (20 * DAY_MS) (21 * DAY_MS))"
  by (simp add: token_period_window_def demo_policy_def year_1970_def DAY_MS_val)

lemma demo_evening: "token_period_window year_1970 (demo_policy Day None) (20 * DAY_MS + 86399999) =
    Ok (calendar_window (20 * DAY_MS) (21 * DAY_MS))"
  by (simp add: token_period_window_def demo_policy_def year_1970_def DAY_MS_val)

lemma demo_effective: "effective_grant_tokens_for_policy year_1970 demo_user (20 * DAY_MS) = 0"
  by (simp add: effective_grant_tokens_for_policy_def demo_user_simps demo_policy_def tokens_for_policy_def tokens_for_def
      current_bucket_tokens_def default_usage_def default_bucket_def)

lemma demo_user_admissible: "grant_admissible year_1970 s Codex (20 * DAY_MS) demo_user"
  unfolding grant_admissible_def demo_effective
  by (simp add: access_pending_def of_entitlement_def quota_not_ready_def limit_reached_def expired_opt_def
      demo_user_simps demo_policy_def)

lemma demo_seat_grant: "ug_active g \<Longrightarrow> active_grant (demo_seat g) (Some ''u@x.y'') = Some g"
  by (simp add: active_grant_def demo_seat_simps)


theorem rejection_frame_witness:
  "\<nexists>x. snd (validate_for_invocation year_1970 [(demo_seat demo_user)\<lparr>sh_expires_at := Some 1, sh_status := ''expired'', sh_enabled := False\<rparr>]
     ''s'' Codex None 0) = Ok x"
proof -
  let ?s = "(demo_seat demo_user)\<lparr>sh_expires_at := Some 1\<rparr>"
  have get: "get_share [?s] ''s'' = Some ?s" by (simp add: get_share_def demo_seat_def demo_share_def)
  have "validate_share year_1970 ?s Codex None (20 * DAY_MS) = (close_share ''expired'' ?s, Err (reject Expired
      ''Share has expired. Extend the share expiration or create a new share.'' True))"
    by (simp add: validate_share_def share_app_api_enabled_def share_enabled_apps_def share_bound_apps_def demo_seat_def
        demo_share_def expired_opt_def share_expired_def saturate_i64_def int_limits DAY_MS_val)
  then have v: "validate_for_invocation year_1970 [?s] ''s'' Codex None (20 * DAY_MS) =
      (put_share ''s'' (close_share ''expired'' ?s) [?s], Err (reject Expired
        ''Share has expired. Extend the share expiration or create a new share.'' True))"
    by (simp add: validate_store [OF get])
  have "put_share ''s'' (close_share ''expired'' ?s) [?s] =
      [?s\<lparr>sh_status := ''expired'', sh_enabled := False\<rparr>]"
    by (simp add: demo_seat_def demo_share_def close_share_def)
  with rejection_frame [OF v] show ?thesis by (simp add: reject_def) blast
qed

definition demo_rebase :: ShareUserUsageRebase where
  "demo_rebase = \<lparr>rb_period = Day, rb_anchor_at_ms = None, rb_window_starts_at_ms = Some (5 * DAY_MS),
     rb_window_ends_at_ms = Some (6 * DAY_MS), rb_target_tokens = 100, rb_observed_tokens_at_rebase = 0,
     rb_observed_requests_at_rebase = 0, rb_usage_watermark = 0, rb_applied_at_ms = 5 * DAY_MS, rb_applied_by = None,
     rb_source = Manual\<rparr>"

lemma empty_usage: "share_user_quota_usage empty_store i e a b = (0, 0)"
  by (simp add: share_user_quota_usage_def empty_store_def quota_usage_from_logs_def count_logs_def count_buckets_def
      saturating_add_u64_def Let_def)

theorem rebuild_enforces_history_witness:
  "\<exists>share' g'. get_share (fst (rebuild_user_usage_from_history year_1970 (\<lambda>_. [])
       [demo_seat (demo_user\<lparr>ug_usage_rebase := Some demo_rebase\<rparr>)] ''s'' empty_store (20 * DAY_MS))) ''s'' = Some share' \<and>
     bt_get (sh_user_grants share') ''u@x.y'' = Some g' \<and>
     effective_grant_tokens_for_policy year_1970 g' (20 * DAY_MS) = 0"
proof -
  let ?g = "demo_user\<lparr>ug_usage_rebase := Some demo_rebase\<rparr>" and ?json = "\<lambda>_. []" and ?t = "20 * DAY_MS"
  let ?snap = "\<lparr>qn_window = \<lparr>qw_period = Day, qw_anchor_at_ms = None, qw_starts_at_ms = Some ?t, qw_ends_at_ms = Some (21 * DAY_MS)\<rparr>,
    qn_observed_tokens = 0, qn_observed_requests = 0, qn_baseline_observed_tokens = None, qn_usage_watermark = 0\<rparr>"
  have policy: "ug_policy ?g = demo_policy Day None" "up_token_period (demo_policy Day None) = Day"
    "up_token_period_anchor_at_ms (demo_policy Day None) = None" by (simp_all add: demo_user_simps demo_policy_def)
  have obs: "observe_user_quota year_1970 ?json empty_store ''s'' (grant_email ?g) ?g ?t = Ok ?snap"
    by (simp add: observe_user_quota_def quota_window_for_policy_def policy demo_window calendar_window_def empty_usage)
  have stale: "\<not> rebase_current ?g ?snap" by (simp add: rebase_current_def rebase_matches_window_def demo_rebase_def DAY_MS_val)
  have market: "\<not> market_bound (demo_seat ?g) ?g" by (simp add: market_bound_def of_entitlement_def demo_user_simps)
  have "\<exists>g'. rebuild_active year_1970 ?json empty_store ''s'' ?t ?g = (g', Ok ())"
    by (simp add: rebuild_active_def obs stale Let_def drop_stale_rebase_def rebuild_current_policy_bucket_def
        demo_user_simps policy)
  then obtain g' where "rebuild_grant year_1970 ?json empty_store ''s'' ?t (demo_seat ?g) ?g = (g', Ok ())"
    using market by (auto simp: rebuild_grant_def demo_user_simps(1))
  moreover have "sh_user_grants (demo_seat ?g) = [(''u@x.y'', ?g)]" by (simp add: demo_seat_def)
  ultimately have "\<exists>store'. rebuild_user_usage_from_history year_1970 ?json [demo_seat ?g] ''s'' empty_store ?t = (store', Ok ())"
    by (simp add: rebuild_user_usage_from_history_def rebuild_grants_def demo_seat_simps(1))
  then obtain store' where
    r: "rebuild_user_usage_from_history year_1970 ?json [demo_seat ?g] ''s'' empty_store ?t = (store', Ok ())" ..
  from rebuild_enforces_history [OF r demo_seat_simps(1,2)] obs stale market
  show ?thesis unfolding r by (auto simp: demo_user_simps(1) demo_rebase_def u64_max_def)
qed

end
