(* ===== verification/Share_Metering.thy ===== *)
theory Share_Metering
  imports Share_Claims
begin

section \<open>Admission against the recorded history\<close>

text \<open>
  Admission seen from outside: which requests a share admits after a history of recordings, in
  terms of the recorded tokens alone. The buckets of \<open>Share_Usage\<close>, their resets at the end of a
  window and the state of the share do not occur in the statement.
\<close>

subsection \<open>Histories\<close>

record Recording =
  ev_email :: "string option"
  ev_tokens :: nat
  ev_at_ms :: int
  ev_counted :: bool
  ev_now :: nat

definition record_event :: "chrono \<Rightarrow> string \<Rightarrow> Recording \<Rightarrow> ShareStore \<Rightarrow> ShareStore" where
  "record_event cal i ev store =
     fst (record_user_usage cal (ev_now ev) store i (ev_email ev) (ev_tokens ev) (ev_at_ms ev) (ev_counted ev))"

definition of_user :: "string \<Rightarrow> Recording list \<Rightarrow> Recording list" where
  "of_user e evs = filter (\<lambda>ev. normalized_email (ev_email ev) = Some e) evs"

definition in_window :: "TokenPeriodWindow \<Rightarrow> int \<Rightarrow> bool" where
  "in_window w t \<longleftrightarrow> (case tw_starts_at_ms w of None \<Rightarrow> True | Some s \<Rightarrow> s \<le> t) \<and>
     (case tw_ends_at_ms w of None \<Rightarrow> True | Some e \<Rightarrow> t < e)"

definition recorded_tokens :: "Recording list \<Rightarrow> nat" where
  "recorded_tokens evs = sum_list (map ev_tokens evs)"

definition tokens_within :: "TokenPeriodWindow \<Rightarrow> Recording list \<Rightarrow> nat" where
  "tokens_within w evs = recorded_tokens (filter (\<lambda>ev. in_window w (ev_at_ms ev)) evs)"

text \<open>
  A grant that the share meters itself and that nothing has been recorded for: not bound to a
  market entitlement, not following the reset of the account, without usage and baseline.
\<close>

definition fresh_grant :: "Share \<Rightarrow> ShareUserGrant \<Rightarrow> bool" where
  "fresh_grant share g \<longleftrightarrow> \<not> market_bound share g \<and> up_token_period (ug_policy g) \<noteq> AccountReset \<and>
     ug_usage g = default_usage \<and> ug_usage_rebase g = None \<and>
     (case ug_usage_quota g of None \<Rightarrow> True | Some q \<Rightarrow> \<not> qv_rebase_applies q)"

lemma recorded_tokens_simps [simp]:
  "recorded_tokens [] = 0" "recorded_tokens (ev # evs) = ev_tokens ev + recorded_tokens evs"
  "recorded_tokens (evs @ evs') = recorded_tokens evs + recorded_tokens evs'"
  by (simp_all add: recorded_tokens_def)

lemma tokens_within_snoc:
  "tokens_within w (evs @ [ev]) = tokens_within w evs + (if in_window w (ev_at_ms ev) then ev_tokens ev else 0)"
  by (simp add: tokens_within_def)

subsection \<open>Windows of two instants\<close>

lemma window_of_instant:
  assumes "utc_calendar cal" and "token_period_window cal p t = Ok w"
  shows "in_window w t"
proof (cases "up_token_period p = Lifetime")
  case True
  with assms(2) show ?thesis by (auto simp: token_period_window_def in_window_def split: if_splits)
next
  case False
  from window_partition [OF assms False] show ?thesis by (auto simp: in_window_def calendar_window_def)
qed

text \<open>Two instants have the same window exactly if the earlier one lies in the window of the later.\<close>

lemma in_window_iff:
  assumes "utc_calendar cal" and "token_period_window cal p t = Ok v" and "token_period_window cal p u = Ok w" and "t \<le> u"
  shows "in_window w t \<longleftrightarrow> v = w" and "in_window w t \<longleftrightarrow> tw_starts_at_ms v = tw_starts_at_ms w"
proof -
  have valid: "ch_valid cal t" using assms(2) by (simp add: token_period_window_def split: if_splits)
  have same: "v = w" if "in_window w t"
  proof (cases "up_token_period p = Lifetime")
    case True
    with assms(2,3) show ?thesis by (simp add: token_period_window_def split: if_splits)
  next
    case False
    from window_partition [OF assms(1,3) False] that valid assms(2) show ?thesis
      by (auto simp: in_window_def calendar_window_def)
  qed
  moreover have "in_window w t" if "tw_starts_at_ms v = tw_starts_at_ms w"
    using window_of_instant [OF assms(1,2)] window_of_instant [OF assms(1,3)] that assms(4)
    by (auto simp: in_window_def split: option.splits)
  ultimately show "in_window w t \<longleftrightarrow> v = w" "in_window w t \<longleftrightarrow> tw_starts_at_ms v = tw_starts_at_ms w" by auto
qed

lemma in_window_between:
  "in_window w t \<Longrightarrow> in_window w u \<Longrightarrow> t \<le> s \<Longrightarrow> s \<le> u \<Longrightarrow> in_window w s"
  by (auto simp: in_window_def split: option.splits)

subsection \<open>The bucket of a window\<close>

definition bucket_at :: "ShareUserUsage \<Rightarrow> ShareUserPolicy \<Rightarrow> int option \<Rightarrow> nat" where
  "bucket_at u p start = (case (up_token_period p, start) of
     (Lifetime, _) \<Rightarrow> ub_tokens_used (uu_lifetime u)
   | (Day, Some s) \<Rightarrow> current_bucket_tokens (uu_day u) s
   | (Week, Some s) \<Rightarrow> current_bucket_tokens (uu_week u) s
   | (CalendarMonth, Some s) \<Rightarrow> current_bucket_tokens (uu_calendar_month u) s
   | (SevenDays, Some s) \<Rightarrow> (case up_token_period_anchor_at_ms p of None \<Rightarrow> 0 | Some a \<Rightarrow> anchored_tokens u SevenDays a s)
   | (ThirtyDays, Some s) \<Rightarrow> (case up_token_period_anchor_at_ms p of None \<Rightarrow> 0 | Some a \<Rightarrow> anchored_tokens u ThirtyDays a s)
   | _ \<Rightarrow> 0)"

lemma window_starts:
  assumes "token_period_window cal p t = Ok w"
  shows "up_token_period p = Lifetime \<Longrightarrow> tw_starts_at_ms w = None"
    "up_token_period p = Day \<Longrightarrow> tw_starts_at_ms w = Some (utc_day_start_ms cal t)"
    "up_token_period p = Week \<Longrightarrow> tw_starts_at_ms w = Some (utc_week_start_ms cal t)"
    "up_token_period p = CalendarMonth \<Longrightarrow> tw_starts_at_ms w = Some (utc_calendar_month_start_ms cal t)"
    "requires_anchor (up_token_period p) \<Longrightarrow> \<exists>a s. up_token_period_anchor_at_ms p = Some a \<and> tw_starts_at_ms w = Some s \<and>
       anchored_at cal p t = Some (a, s)"
proof -
  show "\<exists>a s. up_token_period_anchor_at_ms p = Some a \<and> tw_starts_at_ms w = Some s \<and> anchored_at cal p t = Some (a, s)"
    if anchor: "requires_anchor (up_token_period p)"
  proof -
    from anchor assms have "fixed_window (up_token_period p) (up_token_period_anchor_at_ms p) t = Ok w"
      by (cases "up_token_period p") (simp_all add: token_period_window_def split: if_splits)
    then obtain a s where "up_token_period_anchor_at_ms p = Some a" "tw_starts_at_ms w = Some s"
      by (rule fixed_window_Ok) (simp add: calendar_window_def)
    with anchor assms show ?thesis by (simp add: anchored_at_def)
  qed
qed (use assms in \<open>auto simp: token_period_window_def calendar_window_def utc_day_start_ms_def utc_week_start_ms_def
    utc_calendar_month_start_ms_def utc_datetime_def Let_def split: if_splits prod.splits\<close>)

lemma tokens_bucket:
  assumes "token_period_window cal p t = Ok w" and "up_token_period p \<noteq> AccountReset"
  shows "tokens_for_policy cal u p t = bucket_at u p (tw_starts_at_ms w)"
  using assms window_starts [OF assms(1)]
  by (cases "up_token_period p") (auto simp: tokens_for_policy_def tokens_for_def bucket_at_def)

text \<open>Recording in another window than that of a bucket leaves nothing in the bucket.\<close>

lemma record_other_window:
  assumes "token_period_window cal p t = Ok v" and "up_token_period p \<noteq> AccountReset"
    and "start \<noteq> tw_starts_at_ms v"
  shows "bucket_at (record_for_policy_inner cal p tokens t c u) p start = 0 \<or> up_token_period p = Lifetime"
proof (cases start)
  case None
  then show ?thesis by (cases "up_token_period p") (simp_all add: bucket_at_def)
next
  case (Some s)
  with assms window_starts [OF assms(1)] show ?thesis
    by (cases "up_token_period p") (auto simp: bucket_at_def record_for_policy_parts with_anchored_def record_inner_def
        record_bucket_def current_bucket_tokens_def anchored_tokens_def replay_anchored_def fixed_anchored_def Let_def
        split: option.splits)
qed

lemma record_lifetime_start:
  "ub_started_at_ms (uu_lifetime u) = 0 \<Longrightarrow> ub_started_at_ms (uu_lifetime (record_for_policy_inner cal p tokens t c u)) = 0"
  by (simp add: record_for_policy_parts with_anchored_def record_inner_def record_bucket_def Let_def split: option.splits prod.splits)

lemma record_step:
  assumes "utc_calendar cal" and "token_period_window cal p t = Ok v" and "token_period_window cal p now = Ok w" and "t \<le> now"
    and "up_token_period p \<noteq> AccountReset" and "ub_started_at_ms (uu_lifetime u) = 0"
  shows "tokens_for_policy cal (record_for_policy_inner cal p tokens t c u) p now =
    (if in_window w t then saturating_add_u64 (tokens_for_policy cal u p now) tokens else 0)"
proof (cases "in_window w t")
  case True
  with in_window_iff(1) [OF assms(1-4)] have "v = w" by simp
  with assms have t: "token_period_window cal p t = Ok w" by simp
  from record_tokens [OF assms(6,5) t] True show ?thesis
    by (simp add: same_window_tokens [OF assms(3) t assms(5)])
next
  case False
  with in_window_iff(2) [OF assms(1-4)] have "tw_starts_at_ms w \<noteq> tw_starts_at_ms v" by metis
  moreover from False have "up_token_period p \<noteq> Lifetime"
    using assms(3) by (auto simp: in_window_def token_period_window_def split: if_splits)
  ultimately show ?thesis
    using False record_other_window [OF assms(2,5)] by (simp add: tokens_bucket [OF assms(3,5)])
qed

subsection \<open>The history of a grant\<close>

definition record_in_grant :: "chrono \<Rightarrow> Recording \<Rightarrow> ShareUserGrant \<Rightarrow> ShareUserGrant" where
  "record_in_grant cal ev g = record_grant cal (ev_tokens ev) (ev_at_ms ev) (ev_counted ev) (ev_now ev) g"

text \<open>Without a baseline nothing but the bucket counts.\<close>

definition bucket_only :: "ShareUserGrant \<Rightarrow> bool" where
  "bucket_only g \<longleftrightarrow> up_token_period (ug_policy g) \<noteq> AccountReset \<and> ug_usage_rebase g = None \<and>
     (case ug_usage_quota g of None \<Rightarrow> True | Some q \<Rightarrow> \<not> qv_rebase_applies q) \<and>
     ub_started_at_ms (uu_lifetime (ug_usage g)) = 0"

lemma bucket_only_effective:
  "bucket_only g \<Longrightarrow> effective_grant_tokens_for_policy cal g now_ms = tokens_for_policy cal (ug_usage g) (ug_policy g) now_ms"
  by (auto simp: bucket_only_def effective_grant_tokens_for_policy_def Let_def split: option.splits)

lemma record_in_grant_usage:
  "bucket_only g \<Longrightarrow> ug_usage (record_in_grant cal ev g) =
     record_for_policy_inner cal (ug_policy g) (ev_tokens ev) (ev_at_ms ev) (ev_counted ev) (ug_usage g)"
  by (simp add: record_in_grant_def record_grant_def Let_def record_for_policy_def record_supplemental_for_policy_def
      carry_baseline_def bucket_only_effective)

lemma record_in_grant_frame:
  "ug_policy (record_in_grant cal ev g) = ug_policy g" "ug_active (record_in_grant cal ev g) = ug_active g"
  "ug_entitlement_id (record_in_grant cal ev g) = ug_entitlement_id g"
  "ug_pending_value_quota (record_in_grant cal ev g) = ug_pending_value_quota g"
  "ug_usage_rebase (record_in_grant cal ev g) = ug_usage_rebase g"
  by (simp_all add: record_in_grant_def record_grant_def Let_def)

lemma record_in_grant_bucket_only: "bucket_only g \<Longrightarrow> bucket_only (record_in_grant cal ev g)"
  using record_in_grant_usage [of g cal ev] record_lifetime_start [of "ug_usage g"]
  by (auto simp: bucket_only_def record_in_grant_frame) 
    (auto simp: record_in_grant_def record_grant_def Let_def advance_view_def split: option.splits)

lemma fold_record_frame:
  "ug_policy (fold (record_in_grant cal) evs g) = ug_policy g" "ug_active (fold (record_in_grant cal) evs g) = ug_active g"
  "ug_entitlement_id (fold (record_in_grant cal) evs g) = ug_entitlement_id g"
  "ug_pending_value_quota (fold (record_in_grant cal) evs g) = ug_pending_value_quota g"
  "bucket_only g \<Longrightarrow> bucket_only (fold (record_in_grant cal) evs g)"
  by (induction evs arbitrary: g) (simp_all add: record_in_grant_frame record_in_grant_bucket_only)

lemma fresh_grant_buckets:
  assumes "fresh_grant share g"
  shows "bucket_only g" "tokens_for_policy cal (ug_usage g) (ug_policy g) now_ms = 0"
  using assms by (auto simp: fresh_grant_def bucket_only_def default_usage_def default_bucket_def tokens_for_policy_def
      tokens_for_def current_bucket_tokens_def anchored_tokens_def split: ShareTokenPeriod.splits sum.splits option.splits)

text \<open>
  The bucket that a limit is compared with holds the tokens recorded in its window: a recording
  in a later window starts it afresh, and none of the earlier ones is in that window.
\<close>

lemma grant_history:
  assumes cal: "utc_calendar cal" and fresh: "fresh_grant share g"
  shows "sorted (map ev_at_ms evs) \<Longrightarrow> \<forall>ev \<in> set evs. ev_at_ms ev \<le> now \<and> (\<exists>v. token_period_window cal (ug_policy g) (ev_at_ms ev) = Ok v) \<Longrightarrow>
    token_period_window cal (ug_policy g) now = Ok w \<Longrightarrow>
    tokens_for_policy cal (ug_usage (fold (record_in_grant cal) evs g)) (ug_policy g) now = min u64_max (tokens_within w evs)"
proof (induction evs rule: rev_induct)
  case Nil
  then show ?case using fresh_grant_buckets [OF fresh] by (simp add: tokens_within_def)
next
  case (snoc ev evs)
  let ?h = "fold (record_in_grant cal) evs g" and ?p = "ug_policy g"
  have period: "up_token_period ?p \<noteq> AccountReset" using fresh by (simp add: fresh_grant_def)
  have sorted: "sorted (map ev_at_ms evs)" and before: "\<forall>x \<in> set evs. ev_at_ms x \<le> ev_at_ms ev"
    using snoc.prems(1) by (auto simp: sorted_append)
  from snoc.IH [OF sorted _ snoc.prems(3)] snoc.prems(2)
  have IH: "tokens_for_policy cal (ug_usage ?h) ?p now = min u64_max (tokens_within w evs)" by simp
  obtain v where v: "token_period_window cal ?p (ev_at_ms ev) = Ok v" "ev_at_ms ev \<le> now" using snoc.prems(2) by auto
  have only: "bucket_only ?h" by (rule fold_record_frame(5) [OF fresh_grant_buckets(1) [OF fresh]])
  then have start: "ub_started_at_ms (uu_lifetime (ug_usage ?h)) = 0" by (simp add: bucket_only_def)
  have "tokens_within w evs = 0" if "\<not> in_window w (ev_at_ms ev)"
  proof -
    have "\<not> in_window w (ev_at_ms x)" if "x \<in> set evs" for x
      using in_window_between [of w "ev_at_ms x" now "ev_at_ms ev"] window_of_instant [OF cal snoc.prems(3)] before that v(2)
        \<open>\<not> in_window w (ev_at_ms ev)\<close> by blast
    then show ?thesis by (simp add: tokens_within_def)
  qed
  with record_step [OF cal v(1) snoc.prems(3) v(2) period start] IH record_in_grant_usage [OF only, of cal ev]
  show ?case by (auto simp: fold_record_frame(1) tokens_within_snoc saturating_add_u64_def min_def)
qed

subsection \<open>The history of a share\<close>

definition same_offer :: "Share \<Rightarrow> Share \<Rightarrow> bool" where
  "same_offer s t \<longleftrightarrow> sh_id t = sh_id s \<and> sh_app t = sh_app s \<and> sh_bindings t = sh_bindings s \<and>
     sh_enabled_apps t = sh_enabled_apps s \<and> sh_expires_at t = sh_expires_at s \<and> sh_token_limit t = sh_token_limit s \<and>
     sh_market_entitlements t = sh_market_entitlements s"

definition below_limit :: "Share \<Rightarrow> bool" where
  "below_limit s \<longleftrightarrow> \<not> limit_reached (sh_token_limit s) (sh_tokens_used s)"

lemma record_total_offer:
  "same_offer s (record_total n c s)"
  "below_limit (record_total n c s) \<Longrightarrow> sh_enabled (record_total n c s) = sh_enabled s \<and> sh_status (record_total n c s) = sh_status s"
  by (simp_all add: same_offer_def below_limit_def record_total_def close_share_def Let_def split: if_splits)

lemma record_share_total: "\<exists>m. record_share cal email n t c now s = (record_total n c s)\<lparr>sh_user_grants := m\<rparr>"
proof -
  define r where "r = record_total n c s"
  have same: "r = r\<lparr>sh_user_grants := sh_user_grants r\<rparr>" by simp
  show ?thesis
  proof (cases "Option.bind (normalized_email email) (bt_get (sh_user_grants r))")
    case None
    then have "record_share cal email n t c now s = r"
      by (auto simp: record_share_def Let_def r_def split: option.splits)
    with same show ?thesis unfolding r_def [symmetric] by (intro exI [of _ "sh_user_grants r"]) (rule trans)
  next
    case (Some g)
    then obtain e where "normalized_email email = Some e" "bt_get (sh_user_grants r) e = Some g"
      by (auto simp: Option.bind_eq_Some_conv)
    then have "record_share cal email n t c now s = (if market_bound r g then r
        else r\<lparr>sh_user_grants := bt_insert e (record_grant cal n t c now g) (sh_user_grants r)\<rparr>)"
      by (simp add: record_share_def Let_def r_def)
    with same show ?thesis unfolding r_def [symmetric] by metis
  qed
qed

lemma record_share_offer:
  "same_offer s (record_share cal email n t c now s)"
  "below_limit (record_share cal email n t c now s) \<Longrightarrow> sh_enabled (record_share cal email n t c now s) = sh_enabled s \<and>
     sh_status (record_share cal email n t c now s) = sh_status s"
proof -
  obtain m where m: "record_share cal email n t c now s = (record_total n c s)\<lparr>sh_user_grants := m\<rparr>"
    using record_share_total by blast
  show "same_offer s (record_share cal email n t c now s)"
    using record_total_offer(1) [of s n c] by (simp add: m same_offer_def)
  assume "below_limit (record_share cal email n t c now s)"
  then have "below_limit (record_total n c s)" by (simp add: m below_limit_def)
  from record_total_offer(2) [OF this] show "sh_enabled (record_share cal email n t c now s) = sh_enabled s \<and>
     sh_status (record_share cal email n t c now s) = sh_status s" by (simp add: m)
qed

lemma record_share_user:
  assumes "bt_get (sh_user_grants s) e = Some g" and "\<not> market_bound s g"
  shows "bt_get (sh_user_grants (record_share cal (ev_email ev) (ev_tokens ev) (ev_at_ms ev) (ev_counted ev) (ev_now ev) s)) e =
    Some (if normalized_email (ev_email ev) = Some e then record_in_grant cal ev g else g)"
  using assms by (auto simp: record_share_def Let_def record_in_grant_def market_bound_def split: option.splits)

text \<open>What a history leaves of a share and of one of its grants.\<close>

definition after_history :: "chrono \<Rightarrow> Share \<Rightarrow> string \<Rightarrow> ShareUserGrant \<Rightarrow> Recording list \<Rightarrow> Share \<Rightarrow> bool" where
  "after_history cal share e g evs s \<longleftrightarrow> same_offer share s \<and>
     bt_get (sh_user_grants s) e = Some (fold (record_in_grant cal) (of_user e evs) g) \<and>
     sh_tokens_used s = min u64_max (sh_tokens_used share + recorded_tokens evs) \<and>
     (below_limit s \<longrightarrow> sh_enabled s = sh_enabled share \<and> sh_status s = sh_status share)"

lemma share_history:
  assumes "get_share store i = Some share" and "bt_get (sh_user_grants share) e = Some g" and "\<not> market_bound share g"
    and "sh_tokens_used share \<le> u64_max"
  shows "\<exists>s. get_share (fold (record_event cal i) evs store) i = Some s \<and> after_history cal share e g evs s"
proof (induction evs rule: rev_induct)
  case Nil
  with assms show ?case by (simp add: after_history_def same_offer_def of_user_def)
next
  case (snoc ev evs)
  let ?store = "fold (record_event cal i) evs store" and ?g = "fold (record_in_grant cal) (of_user e evs) g"
  from snoc obtain s where get: "get_share ?store i = Some s" and s: "after_history cal share e g evs s" by blast
  let ?t = "record_share cal (ev_email ev) (ev_tokens ev) (ev_at_ms ev) (ev_counted ev) (ev_now ev) s"
  have "record_event cal i ev ?store = put_share i ?t ?store"
    using get by (simp add: record_event_def record_user_usage_def mutate_share_def)
  then have get': "get_share (fold (record_event cal i) (evs @ [ev]) store) i = Some ?t"
    using shares.get_update(1) [OF get record_share_frame(1)] by simp
  have user: "bt_get (sh_user_grants s) e = Some ?g" and "\<not> market_bound s ?g"
    using s assms(3) by (simp_all add: after_history_def same_offer_def market_bound_def of_entitlement_def fold_record_frame(3))
  then have "bt_get (sh_user_grants ?t) e = Some (fold (record_in_grant cal) (of_user e (evs @ [ev])) g)"
    by (simp add: record_share_user of_user_def)
  moreover have "same_offer share ?t"
    using s record_share_offer(1) [of s] by (simp add: after_history_def same_offer_def)
  moreover have "sh_tokens_used ?t = min u64_max (sh_tokens_used share + recorded_tokens (evs @ [ev]))"
    using s by (auto simp: record_share_frame(2) after_history_def saturating_add_u64_def min_def)
  moreover have "sh_enabled ?t = sh_enabled share \<and> sh_status ?t = sh_status share" if "below_limit ?t"
  proof -
    have used: "sh_tokens_used s \<le> sh_tokens_used ?t" and limit: "sh_token_limit ?t = sh_token_limit s"
      using s record_share_offer(1) [of s cal "ev_email ev"] by (auto simp: record_share_frame(2) after_history_def
          saturating_add_u64_def same_offer_def)
    with that have "below_limit s" by (auto simp: below_limit_def limit_reached_def split: option.splits)
    with s record_share_offer(2) [OF that] show ?thesis by (simp add: after_history_def)
  qed
  ultimately show ?case using get' by (auto simp: after_history_def)
qed

subsection \<open>Property\<close>

lemma not_reached_min:
  "(\<And>l. limit = Some l \<Longrightarrow> l \<le> u64_max) \<Longrightarrow> \<not> limit_reached limit (min u64_max n) \<longleftrightarrow> (\<forall>l. limit = Some l \<longrightarrow> n < l)"
  by (auto simp: limit_reached_def min_def split: option.splits)

lemma outside_market: "\<not> market_bound s g \<Longrightarrow> \<not> of_entitlement (uncertain s) g \<and> \<not> of_entitlement (exhausted s) g"
  by (auto simp: market_bound_def of_entitlement_def bt_contains_def uncertain_def exhausted_def split: option.splits)

lemma metered_grant:
  assumes "fresh_grant share g" and "same_offer share s" and "ug_policy g' = ug_policy g" and "ug_entitlement_id g' = ug_entitlement_id g"
    and "ug_pending_value_quota g' = ug_pending_value_quota g"
    and "effective_grant_tokens_for_policy cal g' now = min u64_max n"
    and "\<And>l. up_token_limit (ug_policy g) = Some l \<Longrightarrow> l \<le> u64_max"
  shows "grant_admissible cal s app now g' \<longleftrightarrow> grant_admissible cal share app now g \<and>
    (\<forall>l. up_token_limit (ug_policy g) = Some l \<longrightarrow> n < l)"
proof -
  have "effective_grant_tokens_for_policy cal g now = min u64_max 0"
    using bucket_only_effective fresh_grant_buckets [OF assms(1)] by simp
  moreover have "\<not> market_bound share g" "\<not> market_bound s g'"
    using assms(1,2,4) by (simp_all add: fresh_grant_def same_offer_def market_bound_def of_entitlement_def)
  note outside_market [OF this(1)] outside_market [OF this(2)]
  moreover have "\<not> quota_not_ready g" "\<not> quota_not_ready g'"
    using assms(1,3) by (simp_all add: fresh_grant_def quota_not_ready_def)
  ultimately show ?thesis
    using assms(3,5,6) not_reached_min [of "up_token_limit (ug_policy g)" 0, OF assms(7)]
      not_reached_min [of "up_token_limit (ug_policy g)" n, OF assms(7)]
    by (auto simp: grant_admissible_def access_pending_def)
qed

lemma metered_share:
  assumes "after_history cal share e g evs s" and "\<And>k. sh_token_limit share = Some k \<Longrightarrow> k \<le> u64_max"
    and "sh_tokens_used share \<le> u64_max"
  shows "open_share s app now \<longleftrightarrow> open_share share app now \<and>
    (\<forall>k. sh_token_limit share = Some k \<longrightarrow> sh_tokens_used share + recorded_tokens evs < k)"
proof -
  let ?n = "sh_tokens_used share + recorded_tokens evs"
  have offer: "same_offer share s" and used: "sh_tokens_used s = min u64_max ?n"
    and kept: "below_limit s \<longrightarrow> sh_enabled s = sh_enabled share \<and> sh_status s = sh_status share"
    using assms(1) by (simp_all add: after_history_def)
  have below: "below_limit s \<longleftrightarrow> (\<forall>k. sh_token_limit share = Some k \<longrightarrow> ?n < k)"
    using not_reached_min [of "sh_token_limit share" ?n, OF assms(2)] offer by (simp add: below_limit_def used same_offer_def)
  then have "below_limit share" if "below_limit s"
    using that by (auto simp: below_limit_def limit_reached_def split: option.splits)
  moreover have "open_share x app now \<longleftrightarrow> app \<in> set (sh_bindings x) \<and> app \<in> set (share_enabled_apps x) \<and>
      sh_enabled x \<and> sh_status x = ''active'' \<and> \<not> expired_opt (sh_expires_at x) now \<and> below_limit x" for x
    by (simp add: open_share_def below_limit_def)
  moreover have "share_enabled_apps s = share_enabled_apps share"
    using offer by (simp add: same_offer_def share_enabled_apps_def share_bound_apps_def cong: option.case_cong)
  ultimately show ?thesis using offer kept below by (auto simp: same_offer_def)
qed

text \<open>
  C34. Admission follows the recorded history: take a share, a user with a fresh grant that the
  share meters itself, and any history of recordings for any users, those of the user in the
  order of their times. At a later instant the user is admitted exactly if the user would have
  been admitted without the history, the tokens recorded for the user in the window of that
  instant are below the user's limit, and the tokens recorded for all users together with the
  earlier total are below the share's limit. Recordings of earlier windows do not count against
  the user, and the limits are exact: no recorded token is lost or counted twice.
\<close>

theorem admission_follows_history:
  assumes "utc_calendar cal" and "get_share store i = Some share" and "normalized_email email = Some e"
    and "active_grant share (Some e) = Some g" and "fresh_grant share g"
    and "sorted (map ev_at_ms (of_user e evs))"
    and "\<forall>ev \<in> set (of_user e evs). ev_at_ms ev \<le> now \<and> (\<exists>v. token_period_window cal (ug_policy g) (ev_at_ms ev) = Ok v)"
    and "token_period_window cal (ug_policy g) now = Ok w"
    and "\<And>l. up_token_limit (ug_policy g) = Some l \<Longrightarrow> l \<le> u64_max"
    and "\<And>k. sh_token_limit share = Some k \<Longrightarrow> k \<le> u64_max" and "sh_tokens_used share \<le> u64_max"
  shows "(\<exists>inv. snd (validate_for_invocation cal (fold (record_event cal i) evs store) i app email now) = Ok inv) \<longleftrightarrow>
    (\<exists>inv. snd (validate_for_invocation cal store i app email now) = Ok inv) \<and>
    (\<forall>l. up_token_limit (ug_policy g) = Some l \<longrightarrow> tokens_within w (of_user e evs) < l) \<and>
    (\<forall>k. sh_token_limit share = Some k \<longrightarrow> sh_tokens_used share + recorded_tokens evs < k)"
proof -
  let ?g = "fold (record_in_grant cal) (of_user e evs) g"
  have g: "bt_get (sh_user_grants share) e = Some g" "ug_active g" "\<not> market_bound share g"
    using assms(4,5) by (auto simp: active_grant_def fresh_grant_def split: option.splits if_splits)
  from share_history [OF assms(2) g(1,3) assms(11)] obtain s where
    s: "get_share (fold (record_event cal i) evs store) i = Some s" "after_history cal share e g evs s" by blast
  have grant: "active_grant s (Some e) = Some ?g"
    using s(2) g(2) by (simp add: active_grant_def after_history_def fold_record_frame(2))
  have "effective_grant_tokens_for_policy cal ?g now = min u64_max (tokens_within w (of_user e evs))"
    using grant_history [OF assms(1,5,6,7,8)] bucket_only_effective [OF fold_record_frame(5) [OF fresh_grant_buckets(1) [OF assms(5)]]]
    by (simp add: fold_record_frame(1))
  then have "grant_admissible cal s app now ?g \<longleftrightarrow> grant_admissible cal share app now g \<and>
      (\<forall>l. up_token_limit (ug_policy g) = Some l \<longrightarrow> tokens_within w (of_user e evs) < l)"
    using s(2) assms(9) by (intro metered_grant [OF assms(5)]) (auto simp: after_history_def fold_record_frame)
  with metered_share [OF s(2) assms(10,11), of app now] s(1) grant assms(2-4) show ?thesis
    unfolding admission_exact by auto
qed

text \<open>
  The order is needed: a recording of an earlier window, such as that of a stream that began
  before midnight and ended after it, takes the bucket back to its window, and what was recorded
  in the current one no longer counts against the limit.
\<close>

lemma late_recording_clears_window:
  assumes "token_period_window cal p t = Ok v" and "token_period_window cal p now = Ok w"
    and "tw_starts_at_ms v \<noteq> tw_starts_at_ms w" and "up_token_period p \<notin> {AccountReset, Lifetime}"
  shows "tokens_for_policy cal (record_for_policy_inner cal p tokens t c u) p now = 0"
  using record_other_window [of cal p t v "tw_starts_at_ms w"] tokens_bucket [OF assms(2)] assms by auto

text \<open>Yesterday's tokens do not count for the user, those of the unnamed caller count for the share only.\<close>

definition demo_event :: "string option \<Rightarrow> nat \<Rightarrow> int \<Rightarrow> Recording" where
  "demo_event email tokens t = \<lparr>ev_email = email, ev_tokens = tokens, ev_at_ms = t, ev_counted = True, ev_now = 0\<rparr>"

definition demo_history :: "Recording list" where
  "demo_history = [demo_event (Some ''u@x.y'') 500 (19 * DAY_MS), demo_event None 100 (20 * DAY_MS),
     demo_event (Some ''u@x.y'') 60 (20 * DAY_MS), demo_event (Some ''u@x.y'') 30 (20 * DAY_MS)]"

lemma demo_fresh: "fresh_grant (demo_seat demo_user) demo_user"
  by (simp add: fresh_grant_def demo_user_simps demo_policy_def market_bound_def of_entitlement_def)

lemma demo_yesterday: "token_period_window year_1970 (demo_policy Day None) (19 * DAY_MS) =
    Ok (calendar_window (19 * DAY_MS) (20 * DAY_MS))"
  by (simp add: token_period_window_def demo_policy_def year_1970_def DAY_MS_val)

theorem admission_follows_history_witness:
  "(\<exists>inv. snd (validate_for_invocation year_1970 (fold (record_event year_1970 ''s'') demo_history [demo_seat demo_user])
      ''s'' Codex (Some ''u@x.y'') (20 * DAY_MS)) = Ok inv) \<and>
   \<not> (\<exists>inv. snd (validate_for_invocation year_1970 (fold (record_event year_1970 ''s'')
      (demo_history @ [demo_event (Some ''u@x.y'') 10 (20 * DAY_MS)]) [demo_seat demo_user])
      ''s'' Codex (Some ''u@x.y'') (20 * DAY_MS)) = Ok inv)"
proof -
  let ?more = "demo_history @ [demo_event (Some ''u@x.y'') 10 (20 * DAY_MS)]" and ?p = "demo_policy Day None"
  have none: "normalized_email None = None" by (simp add: normalized_email_def)
  have user: "of_user ''u@x.y'' demo_history = [demo_event (Some ''u@x.y'') 500 (19 * DAY_MS),
      demo_event (Some ''u@x.y'') 60 (20 * DAY_MS), demo_event (Some ''u@x.y'') 30 (20 * DAY_MS)]"
    "of_user ''u@x.y'' ?more = of_user ''u@x.y'' demo_history @ [demo_event (Some ''u@x.y'') 10 (20 * DAY_MS)]"
    by (simp_all add: of_user_def demo_history_def demo_event_def demo_normalized none)
  have limits: "up_token_limit ?p = Some 100" "sh_token_limit (demo_seat demo_user) = Some 1000"
    "sh_tokens_used (demo_seat demo_user) = 0" "(100 :: nat) \<le> u64_max" "(1000 :: nat) \<le> u64_max"
    by (simp_all add: demo_policy_def demo_seat_def demo_share_def u64_max_def)
  have field: "ev_at_ms (demo_event x n t) = t" "ev_tokens (demo_event x n t) = n" for x n t by (simp_all add: demo_event_def)
  have today: "in_window (calendar_window (20 * DAY_MS) (21 * DAY_MS)) (20 * DAY_MS)"
    "\<not> in_window (calendar_window (20 * DAY_MS) (21 * DAY_MS)) (19 * DAY_MS)"
    by (simp_all add: in_window_def calendar_window_def DAY_MS_val)
  have order: "19 * DAY_MS \<le> 20 * DAY_MS" by (simp add: DAY_MS_val)
  note main = admission_follows_history [OF year_1970_calendar demo_seat_simps(1) demo_normalized
      demo_seat_grant [OF demo_user_simps(1)] demo_fresh _ _ demo_window [folded demo_user_simps(2)],
      where app = Codex, unfolded demo_user_simps(2)]
  have first: "\<exists>inv. snd (validate_for_invocation year_1970 [demo_seat demo_user] ''s'' Codex (Some ''u@x.y'') (20 * DAY_MS)) = Ok inv"
    unfolding admission_exact using demo_user_admissible
    by (simp add: demo_seat_simps demo_normalized demo_seat_grant demo_user_simps)
  have sums: "tokens_within (calendar_window (20 * DAY_MS) (21 * DAY_MS)) (of_user ''u@x.y'' demo_history) = 90"
    "recorded_tokens demo_history = 690"
    by (simp_all add: user tokens_within_def today field) (simp add: demo_history_def field)
  have ordered: "sorted (map ev_at_ms (of_user ''u@x.y'' h))"
      "\<forall>ev \<in> set (of_user ''u@x.y'' h). ev_at_ms ev \<le> 20 * DAY_MS \<and> (\<exists>v. token_period_window year_1970 ?p (ev_at_ms ev) = Ok v)"
    if "h = demo_history \<or> h = ?more" for h
    using that order by (auto simp: user field demo_window demo_yesterday)
  show ?thesis
  proof
    from main [OF ordered, of demo_history] first show "\<exists>inv. snd (validate_for_invocation year_1970
        (fold (record_event year_1970 ''s'') demo_history [demo_seat demo_user]) ''s'' Codex (Some ''u@x.y'') (20 * DAY_MS)) = Ok inv"
      by (simp add: limits sums)
    have "tokens_within (calendar_window (20 * DAY_MS) (21 * DAY_MS)) (of_user ''u@x.y'' ?more) = 100"
      unfolding user(2) tokens_within_snoc sums by (simp add: field today)
    with main [OF ordered, of ?more] show "\<not> (\<exists>inv. snd (validate_for_invocation year_1970 (fold (record_event year_1970 ''s'')
        ?more [demo_seat demo_user]) ''s'' Codex (Some ''u@x.y'') (20 * DAY_MS)) = Ok inv)"
      by (simp add: limits)
  qed
qed

end
