(* ===== verification/Proxy_Error.thy ===== *)
theory Proxy_Error
  imports Ingress
begin

section \<open>Errors of the proxy\<close>

text \<open>
  Model of \<open>ProxyError\<close> (\<open>src/src/proxy/mod.rs\<close>), which carries everything the client is told in
  a status and one text: a \<open>Retry-After\<close> period, the scope and numbers of a concurrency limit and
  the kind of the error are prefixes of the text, written by the constructors and read back by the
  accessors; and of the fields that \<open>InferenceApiError::proxy\<close> (\<open>src/src/api/error.rs\<close>) takes from
  it. Statuses are their numbers.
\<close>

subsection \<open>Splitting text\<close>

fun split_once_str :: "string \<Rightarrow> string \<Rightarrow> (string \<times> string) option" where
  "split_once_str p s = (if starts_with p s then Some ([], drop (length p) s)
     else case s of [] \<Rightarrow> None | c # r \<Rightarrow> map_option (map_prod ((#) c) id) (split_once_str p r))"

function split_all :: "char \<Rightarrow> string \<Rightarrow> string list" where
  "split_all c s = (case split_once c s of None \<Rightarrow> [s] | Some (a, b) \<Rightarrow> a # split_all c b)"
  by pat_completeness auto
termination
  by (relation "measure (\<lambda>(c, s). length s)") (auto dest: split_once_Some)

definition str_contains :: "string \<Rightarrow> string \<Rightarrow> bool" where
  "str_contains p s \<longleftrightarrow> split_once_str p s \<noteq> None"

definition parse_u32 :: "string \<Rightarrow> nat option" where
  "parse_u32 s = (let d = (case s of c # r \<Rightarrow> if c = CHR ''+'' then r else s | [] \<Rightarrow> []) in
     if d \<noteq> [] \<and> list_all is_ascii_digit d \<and> read_digits d \<le> u32_max then Some (read_digits d) else None)"

subsection \<open>Errors and their constructors\<close>

record ProxyError =
  pe_status :: nat
  pe_message :: string

datatype ProxyConcurrencyScope = UserScope | ShareScope | ProviderAccountScope

fun scope_str :: "ProxyConcurrencyScope \<Rightarrow> string" where
  "scope_str UserScope = ''user''"
| "scope_str ShareScope = ''share''"
| "scope_str ProviderAccountScope = ''provider_account''"

definition scope_from_str :: "string \<Rightarrow> ProxyConcurrencyScope option" where
  "scope_from_str s = (if s = ''user'' then Some UserScope
     else if s = ''share'' then Some ShareScope
     else if s = ''provider_account'' then Some ProviderAccountScope else None)"

fun scope_error_code :: "ProxyConcurrencyScope \<Rightarrow> string" where
  "scope_error_code UserScope = ''cc_switch_user_concurrency_limit_exceeded''"
| "scope_error_code ShareScope = ''cc_switch_share_concurrency_limit_exceeded''"
| "scope_error_code ProviderAccountScope = ''cc_switch_provider_account_concurrency_limit_exceeded''"

record ProxyConcurrencyMetadata =
  cm_scope :: ProxyConcurrencyScope
  cm_current :: nat
  cm_limit :: nat

definition TOOL_JSON_INVALID_PREFIX :: string where "TOOL_JSON_INVALID_PREFIX = ''[TOOL_JSON_INVALID] ''"
definition TOOL_JSON_INCOMPLETE_PREFIX :: string where "TOOL_JSON_INCOMPLETE_PREFIX = ''[TOOL_JSON_INCOMPLETE] ''"
definition TOOL_JSON_LIMIT_PREFIX :: string where "TOOL_JSON_LIMIT_PREFIX = ''[TOOL_JSON_LIMIT] ''"
definition KIRO_EVENT_STREAM_INVALID_PREFIX :: string where
  "KIRO_EVENT_STREAM_INVALID_PREFIX = ''[KIRO_EVENT_STREAM_INVALID] ''"
definition KIRO_EVENT_STREAM_LIMIT_PREFIX :: string where
  "KIRO_EVENT_STREAM_LIMIT_PREFIX = ''[KIRO_EVENT_STREAM_LIMIT] ''"
definition KIRO_EVENT_STREAM_TIMEOUT_PREFIX :: string where
  "KIRO_EVENT_STREAM_TIMEOUT_PREFIX = ''[KIRO_EVENT_STREAM_TIMEOUT] ''"
definition KIRO_UPSTREAM_STREAM_ERROR_PREFIX :: string where
  "KIRO_UPSTREAM_STREAM_ERROR_PREFIX = ''[KIRO_UPSTREAM_STREAM_ERROR] ''"
definition CURSOR_SESSION_LOST_PREFIX :: string where "CURSOR_SESSION_LOST_PREFIX = ''[CURSOR_SESSION_LOST] ''"
definition CURSOR_RESPONSE_STATE_LOST_PREFIX :: string where
  "CURSOR_RESPONSE_STATE_LOST_PREFIX = ''[CURSOR_RESPONSE_STATE_LOST] ''"
definition CURSOR_CONVERSATION_BUSY_PREFIX :: string where
  "CURSOR_CONVERSATION_BUSY_PREFIX = ''[CURSOR_CONVERSATION_BUSY] ''"
definition CURSOR_SESSION_CAPACITY_EXHAUSTED_PREFIX :: string where
  "CURSOR_SESSION_CAPACITY_EXHAUSTED_PREFIX = ''[CURSOR_SESSION_CAPACITY_EXHAUSTED] ''"
definition CURSOR_CONTINUATION_IN_PROGRESS_PREFIX :: string where
  "CURSOR_CONTINUATION_IN_PROGRESS_PREFIX = ''[CURSOR_CONTINUATION_IN_PROGRESS] ''"
definition CURSOR_CONTINUATION_CLAIM_CAPACITY_PREFIX :: string where
  "CURSOR_CONTINUATION_CLAIM_CAPACITY_PREFIX = ''[CURSOR_CONTINUATION_CLAIM_CAPACITY] ''"
definition RETRY_AFTER_PREFIX :: string where "RETRY_AFTER_PREFIX = ''[CC_RETRY_AFTER_SECONDS=''"
definition CAPACITY_SHED_PREFIX :: string where "CAPACITY_SHED_PREFIX = ''[CC_UPSTREAM_CAPACITY_SHED] ''"
definition CONCURRENCY_PREFIX :: string where "CONCURRENCY_PREFIX = ''[CC_CONCURRENCY:''"
definition USER_IDENTITY_REQUIRED_PREFIX :: string where
  "USER_IDENTITY_REQUIRED_PREFIX = ''[CC_USER_IDENTITY_REQUIRED] ''"
definition PROTOCOL_INCOMPATIBLE_PREFIX :: string where
  "PROTOCOL_INCOMPATIBLE_PREFIX = ''[CC_PROTOCOL_INCOMPATIBLE] ''"
definition RESPONSE_CONTEXT_UNAVAILABLE_PREFIX :: string where
  "RESPONSE_CONTEXT_UNAVAILABLE_PREFIX = ''[CC_RESPONSE_CONTEXT_UNAVAILABLE] ''"
definition REQUEST_MEMORY_EXHAUSTED_PREFIX :: string where
  "REQUEST_MEMORY_EXHAUSTED_PREFIX = ''[CC_REQUEST_MEMORY_EXHAUSTED] ''"

definition proxy_error :: "nat \<Rightarrow> string \<Rightarrow> ProxyError" where
  "proxy_error status message = \<lparr>pe_status = status, pe_message = message\<rparr>"

definition bad_request :: "string \<Rightarrow> ProxyError" where "bad_request message = proxy_error 400 message"
definition unauthorized :: "string \<Rightarrow> ProxyError" where "unauthorized message = proxy_error 401 message"
definition not_found :: "string \<Rightarrow> ProxyError" where "not_found message = proxy_error 404 message"
definition conflict :: "string \<Rightarrow> ProxyError" where "conflict message = proxy_error 409 message"

definition concurrency_limited :: "ProxyConcurrencyScope \<Rightarrow> nat \<Rightarrow> nat \<Rightarrow> string \<Rightarrow> ProxyError" where
  "concurrency_limited scope current limit message =
     proxy_error 409 (CONCURRENCY_PREFIX @ scope_str scope @ '':'' @ show_nat current @ '':'' @ show_nat limit @ ''] '' @ message)"

definition user_identity_required :: "string \<Rightarrow> ProxyError" where
  "user_identity_required message = proxy_error 401 (USER_IDENTITY_REQUIRED_PREFIX @ message)"

definition protocol_incompatible :: "string \<Rightarrow> ProxyError" where
  "protocol_incompatible message = proxy_error 422 (PROTOCOL_INCOMPATIBLE_PREFIX @ message)"

definition response_context_unavailable :: ProxyError where
  "response_context_unavailable = proxy_error 409
     (RESPONSE_CONTEXT_UNAVAILABLE_PREFIX @ ''Required previous response tool context is unavailable'')"

definition qoder_response_context_unavailable :: ProxyError where
  "qoder_response_context_unavailable = proxy_error 409
     (RESPONSE_CONTEXT_UNAVAILABLE_PREFIX @ ''Qoder previous response context is unavailable'')"

definition cursor_session_lost :: "string \<Rightarrow> ProxyError" where
  "cursor_session_lost message = proxy_error 409 (CURSOR_SESSION_LOST_PREFIX @ message)"

definition cursor_response_state_lost :: "string \<Rightarrow> ProxyError" where
  "cursor_response_state_lost message = proxy_error 409 (CURSOR_RESPONSE_STATE_LOST_PREFIX @ message)"

definition cursor_conversation_busy :: "string \<Rightarrow> ProxyError" where
  "cursor_conversation_busy message = proxy_error 409 (CURSOR_CONVERSATION_BUSY_PREFIX @ message)"

definition retry_text :: "nat \<Rightarrow> string \<Rightarrow> string" where
  "retry_text seconds message = RETRY_AFTER_PREFIX @ show_nat seconds @ '']'' @ message"

definition cursor_session_capacity_exhausted :: ProxyError where
  "cursor_session_capacity_exhausted = proxy_error 503 (retry_text 1
     (CURSOR_SESSION_CAPACITY_EXHAUSTED_PREFIX @ ''Cursor live session capacity is exhausted; retry shortly''))"

definition cursor_continuation_in_progress :: "string \<Rightarrow> ProxyError" where
  "cursor_continuation_in_progress message =
     proxy_error 409 (retry_text 5 (CURSOR_CONTINUATION_IN_PROGRESS_PREFIX @ message))"

definition cursor_continuation_claim_capacity_exhausted :: ProxyError where
  "cursor_continuation_claim_capacity_exhausted = proxy_error 503 (retry_text 5
     (CURSOR_CONTINUATION_CLAIM_CAPACITY_PREFIX @ ''Cursor continuation claim capacity is exhausted; retry shortly''))"

text \<open>\<open>error\<close> is the text of the upstream error, its \<open>Display\<close> form.\<close>

definition bad_gateway :: "string \<Rightarrow> ProxyError" where
  "bad_gateway error = proxy_error 502 (''proxy upstream request failed: '' @ error)"

definition upstream_capacity_shed :: "nat \<Rightarrow> ProxyError" where
  "upstream_capacity_shed retry_after_seconds = proxy_error 503 (retry_text retry_after_seconds
     (CAPACITY_SHED_PREFIX @ ''OpenAI Codex upstream is temporarily overloaded; retry shortly''))"

definition request_memory_exhausted :: ProxyError where
  "request_memory_exhausted = proxy_error 503 (retry_text 1
     (REQUEST_MEMORY_EXHAUSTED_PREFIX @ ''Request resident-memory capacity exhausted; retry later''))"

definition value_quota_busy :: ProxyError where
  "value_quota_busy = proxy_error 429 (retry_text 2
     ''value_quota_busy: USD-equivalent quota is busy with in-flight requests; retry shortly'')"

definition quota_storage_busy :: ProxyError where
  "quota_storage_busy = proxy_error 503 (retry_text 5 ''quota_unavailable: quota storage is busy; retry shortly'')"

definition rate_limited :: "string \<Rightarrow> nat \<Rightarrow> ProxyError" where
  "rate_limited message retry_after_seconds = proxy_error 429 (retry_text retry_after_seconds message)"

text \<open>\<open>code\<close> and \<open>text\<close> are what \<open>code()\<close> and \<open>Display\<close> of the tool error give.\<close>

definition kiro_tool_json :: "string \<Rightarrow> string \<Rightarrow> ProxyError" where
  "kiro_tool_json code text = proxy_error 502 (''['' @ code @ ''] '' @ text)"

subsection \<open>Reading an error back\<close>

definition message_without_retry_metadata :: "ProxyError \<Rightarrow> string" where
  "message_without_retry_metadata e =
     (case Option.bind (strip_prefix RETRY_AFTER_PREFIX (pe_message e)) (split_once (CHR '']'')) of
        None \<Rightarrow> pe_message e | Some (_, message) \<Rightarrow> message)"

definition is_protocol_incompatible :: "ProxyError \<Rightarrow> bool" where
  "is_protocol_incompatible e = starts_with PROTOCOL_INCOMPATIBLE_PREFIX (message_without_retry_metadata e)"

definition is_request_memory_exhausted :: "ProxyError \<Rightarrow> bool" where
  "is_request_memory_exhausted e = starts_with REQUEST_MEMORY_EXHAUSTED_PREFIX (message_without_retry_metadata e)"

definition read_metadata :: "string list \<Rightarrow> ProxyConcurrencyMetadata option" where
  "read_metadata parts = (case parts of
     [scope, current, limit] \<Rightarrow>
       Option.bind (scope_from_str scope) (\<lambda>scope.
       Option.bind (parse_u32 current) (\<lambda>current.
       Option.bind (parse_u32 limit) (\<lambda>limit. Some \<lparr>cm_scope = scope, cm_current = current, cm_limit = limit\<rparr>)))
   | _ \<Rightarrow> None)"

definition concurrency_metadata_and_message :: "ProxyError \<Rightarrow> (ProxyConcurrencyMetadata \<times> string) option" where
  "concurrency_metadata_and_message e =
     Option.bind (strip_prefix CONCURRENCY_PREFIX (message_without_retry_metadata e)) (\<lambda>encoded.
     Option.bind (split_once_str ''] '' encoded) (\<lambda>(metadata, message).
     map_option (\<lambda>m. (m, message)) (read_metadata (split_all (CHR '':'') metadata))))"

definition concurrency_metadata :: "ProxyError \<Rightarrow> ProxyConcurrencyMetadata option" where
  "concurrency_metadata e = map_option fst (concurrency_metadata_and_message e)"

text \<open>The prefixes the client does not see, in the order they are tried.\<close>

definition client_prefixes :: "string list" where
  "client_prefixes = [TOOL_JSON_INVALID_PREFIX, TOOL_JSON_INCOMPLETE_PREFIX, TOOL_JSON_LIMIT_PREFIX,
     KIRO_EVENT_STREAM_INVALID_PREFIX, KIRO_EVENT_STREAM_LIMIT_PREFIX, KIRO_EVENT_STREAM_TIMEOUT_PREFIX,
     KIRO_UPSTREAM_STREAM_ERROR_PREFIX, CURSOR_SESSION_LOST_PREFIX, CURSOR_RESPONSE_STATE_LOST_PREFIX,
     CURSOR_CONVERSATION_BUSY_PREFIX, CURSOR_CONTINUATION_IN_PROGRESS_PREFIX, CURSOR_CONTINUATION_CLAIM_CAPACITY_PREFIX,
     USER_IDENTITY_REQUIRED_PREFIX, PROTOCOL_INCOMPATIBLE_PREFIX, RESPONSE_CONTEXT_UNAVAILABLE_PREFIX,
     CAPACITY_SHED_PREFIX, REQUEST_MEMORY_EXHAUSTED_PREFIX]"

primrec strip_first :: "string list \<Rightarrow> string \<Rightarrow> string" where
  "strip_first [] message = message"
| "strip_first (p # ps) message = (case strip_prefix p message of Some m \<Rightarrow> m | None \<Rightarrow> strip_first ps message)"

definition client_message :: "ProxyError \<Rightarrow> string" where
  "client_message e =
     (let message = (case concurrency_metadata_and_message e of
          Some (_, message) \<Rightarrow> message | None \<Rightarrow> message_without_retry_metadata e)
      in case Option.bind (strip_prefix ''price_unavailable: '' message) (split_once (CHR 0x0A)) of
           Some (_, readable) \<Rightarrow> readable
         | None \<Rightarrow> strip_first client_prefixes message)"

text \<open>\<open>parse\<close> stands for \<open>serde_json::from_str\<close>.\<close>

definition price_details :: "(string \<Rightarrow> 'j option) \<Rightarrow> ProxyError \<Rightarrow> 'j option" where
  "price_details parse e =
     Option.bind (strip_prefix ''price_unavailable: '' (message_without_retry_metadata e)) (\<lambda>m.
     Option.bind (split_once (CHR 0x0A) m) (\<lambda>(json, _). parse json))"

definition retry_after_seconds :: "ProxyError \<Rightarrow> nat option" where
  "retry_after_seconds e =
     Option.bind (strip_prefix RETRY_AFTER_PREFIX (pe_message e)) (\<lambda>encoded.
     Option.bind (split_once (CHR '']'') encoded) (\<lambda>(seconds, _). parse_u64 seconds))"

definition error_scope :: "ProxyError \<Rightarrow> string option" where
  "error_scope e = (case concurrency_metadata e of
     Some m \<Rightarrow> Some (scope_str (cm_scope m))
   | None \<Rightarrow> if str_contains ''(account_rate_limit)'' (message_without_retry_metadata e)
             then Some ''account_rate_limit'' else None)"

definition then_colon :: "string \<Rightarrow> string \<Rightarrow> bool" where
  "then_colon message code = (case strip_prefix code message of None \<Rightarrow> False | Some suffix \<Rightarrow> starts_with '':'' suffix)"

definition then_break :: "string \<Rightarrow> string \<Rightarrow> bool" where
  "then_break message code = (case strip_prefix code message of
     None \<Rightarrow> False | Some suffix \<Rightarrow> suffix = [] \<or> starts_with '':'' suffix \<or> starts_with '' '' suffix)"

definition prefix_codes :: "(string \<times> string) list" where
  "prefix_codes = [(USER_IDENTITY_REQUIRED_PREFIX, ''cc_switch_user_identity_required''),
     (CAPACITY_SHED_PREFIX, ''cc_switch_upstream_capacity_shed''),
     (REQUEST_MEMORY_EXHAUSTED_PREFIX, ''cc_switch_request_memory_exhausted''),
     (PROTOCOL_INCOMPATIBLE_PREFIX, ''cc_switch_protocol_incompatible''),
     (RESPONSE_CONTEXT_UNAVAILABLE_PREFIX, ''response_context_unavailable''),
     (TOOL_JSON_INVALID_PREFIX, ''TOOL_JSON_INVALID''), (TOOL_JSON_INCOMPLETE_PREFIX, ''TOOL_JSON_INCOMPLETE''),
     (TOOL_JSON_LIMIT_PREFIX, ''TOOL_JSON_LIMIT''),
     (KIRO_EVENT_STREAM_INVALID_PREFIX, ''KIRO_EVENT_STREAM_INVALID''),
     (KIRO_EVENT_STREAM_LIMIT_PREFIX, ''KIRO_EVENT_STREAM_LIMIT''),
     (KIRO_EVENT_STREAM_TIMEOUT_PREFIX, ''KIRO_EVENT_STREAM_TIMEOUT''),
     (KIRO_UPSTREAM_STREAM_ERROR_PREFIX, ''KIRO_UPSTREAM_STREAM_ERROR''),
     (CURSOR_SESSION_LOST_PREFIX, ''cursor_session_lost''),
     (CURSOR_RESPONSE_STATE_LOST_PREFIX, ''cursor_response_state_lost''),
     (CURSOR_CONVERSATION_BUSY_PREFIX, ''cursor_conversation_busy''),
     (CURSOR_SESSION_CAPACITY_EXHAUSTED_PREFIX, ''cursor_session_capacity_exhausted''),
     (CURSOR_CONTINUATION_IN_PROGRESS_PREFIX, ''cursor_continuation_in_progress''),
     (CURSOR_CONTINUATION_CLAIM_CAPACITY_PREFIX, ''cursor_continuation_claim_capacity_exhausted'')]"

definition status_code :: "nat \<Rightarrow> string" where
  "status_code status = (case find (\<lambda>(s, _). s = status)
       [(400, ''cc_switch_invalid_request''), (401, ''cc_switch_auth_error''), (403, ''cc_switch_forbidden''),
        (404, ''cc_switch_not_found''), (409, ''cc_switch_conflict''), (429, ''cc_switch_rate_limited''),
        (422, ''cc_switch_transform_error''), (504, ''cc_switch_timeout''), (502, ''cc_switch_forward_failed''),
        (503, ''cc_switch_no_available_provider''), (500, ''cc_switch_internal_error'')] of
     Some (_, code) \<Rightarrow> code
   | None \<Rightarrow> if 500 \<le> status \<and> status < 600 then ''cc_switch_proxy_error''
             else if 400 \<le> status \<and> status < 500 then ''cc_switch_invalid_request'' else ''cc_switch_proxy_error'')"

definition quota_codes :: "string list" where
  "quota_codes = [''value_quota_exhausted'', ''value_quota_busy'', ''price_unavailable'', ''quota_unavailable'']"

definition unavailable_codes :: "string list" where
  "unavailable_codes = [''ACCOUNT_RESET_ROUTER_UPGRADE_REQUIRED'', ''ACCOUNT_RESET_NOT_READY'', ''QUOTA_HISTORY_INCOMPLETE'',
     ''QUOTA_LEDGER_UNAVAILABLE'', ''QUOTA_LEDGER_CAPACITY_LIMIT'']"

definition proxy_error_code :: "ProxyError \<Rightarrow> string" where
  "proxy_error_code e =
     (let message = message_without_retry_metadata e in
      case find (then_colon message) quota_codes of
        Some code \<Rightarrow> code
      | None \<Rightarrow> (case (if pe_status e = 503 then find (then_break message) unavailable_codes else None) of
          Some code \<Rightarrow> code
        | None \<Rightarrow> (case concurrency_metadata e of
            Some m \<Rightarrow> scope_error_code (cm_scope m)
          | None \<Rightarrow> (case find (\<lambda>(p, _). starts_with p message) prefix_codes of
              Some (_, code) \<Rightarrow> code
            | None \<Rightarrow> status_code (pe_status e)))))"

definition tool_json_error :: "string \<Rightarrow> bool" where
  "tool_json_error message \<longleftrightarrow> starts_with TOOL_JSON_INVALID_PREFIX message \<or>
     starts_with TOOL_JSON_INCOMPLETE_PREFIX message \<or> starts_with TOOL_JSON_LIMIT_PREFIX message"

definition status_type :: "nat \<Rightarrow> string" where
  "status_type status = (case find (\<lambda>(s, _). s = status)
       [(400, ''invalid_request_error''), (401, ''authentication_error''), (403, ''permission_error''),
        (404, ''not_found_error''), (409, ''conflict_error''), (429, ''rate_limit_error''), (422, ''invalid_request_error''),
        (504, ''timeout_error''), (502, ''upstream_error''), (503, ''unavailable_error'')] of
     Some (_, type) \<Rightarrow> type | None \<Rightarrow> ''proxy_error'')"

definition error_type :: "ProxyError \<Rightarrow> string" where
  "error_type e =
     (let message = message_without_retry_metadata e in
      if proxy_error_code e \<in> set quota_codes then ''quota_error''
      else if concurrency_metadata e \<noteq> None then ''concurrency_limit_error''
      else if starts_with PROTOCOL_INCOMPATIBLE_PREFIX message then ''invalid_request_error''
      else if starts_with RESPONSE_CONTEXT_UNAVAILABLE_PREFIX message then ''invalid_request_error''
      else if tool_json_error message then ''upstream_tool_json_error''
      else if starts_with KIRO_EVENT_STREAM_INVALID_PREFIX message \<or> starts_with KIRO_EVENT_STREAM_LIMIT_PREFIX message \<or>
        starts_with KIRO_EVENT_STREAM_TIMEOUT_PREFIX message \<or> starts_with KIRO_UPSTREAM_STREAM_ERROR_PREFIX message
      then ''upstream_protocol_error''
      else status_type (pe_status e))"

definition retryable :: "ProxyError \<Rightarrow> bool" where
  "retryable e =
     (let message = message_without_retry_metadata e; code = proxy_error_code e in
      if code = ''value_quota_busy'' then True
      else if code = ''quota_unavailable'' then retry_after_seconds e \<noteq> None
      else if code = ''value_quota_exhausted'' \<or> code = ''price_unavailable'' then False
      else if starts_with CURSOR_CONTINUATION_IN_PROGRESS_PREFIX message then True
      else if concurrency_metadata e \<noteq> None \<or> starts_with USER_IDENTITY_REQUIRED_PREFIX message \<or>
        starts_with PROTOCOL_INCOMPATIBLE_PREFIX message \<or> starts_with RESPONSE_CONTEXT_UNAVAILABLE_PREFIX message then False
      else if tool_json_error message then False
      else pe_status e \<in> {429, 502, 503, 504})"

definition error_param :: "ProxyError \<Rightarrow> string option" where
  "error_param e =
     (let message = message_without_retry_metadata e in
      if starts_with RESPONSE_CONTEXT_UNAVAILABLE_PREFIX message \<or> starts_with CURSOR_RESPONSE_STATE_LOST_PREFIX message
      then Some ''previous_response_id''
      else find (\<lambda>p. starts_with (''unsupported parameter `'' @ p @ ''`'') message)
        [''n'', ''logprobs'', ''modalities'', ''audio'', ''functions'', ''background'', ''candidateCount'', ''stream'', ''tools''])"

subsection \<open>What an inference client receives\<close>

datatype InferenceSurface = OpenAi | Anthropic | GeminiApi

record 'j InferenceApiError =
  ie_surface :: InferenceSurface
  ie_status :: nat
  ie_message :: string
  ie_code :: string
  ie_error_type :: string
  ie_retryable :: bool
  ie_retry_after_seconds :: "nat option"
  ie_scope :: "string option"
  ie_current :: "nat option"
  ie_limit :: "nat option"
  ie_request_id :: "string option"
  ie_param :: "string option"
  ie_price_details :: "'j option"

definition inference_error ::
  "(string \<Rightarrow> 'j option) \<Rightarrow> InferenceSurface \<Rightarrow> string option \<Rightarrow> ProxyError \<Rightarrow> 'j InferenceApiError" where
  "inference_error parse surface request_id e =
     \<lparr>ie_surface = surface, ie_status = pe_status e, ie_message = client_message e, ie_code = proxy_error_code e,
      ie_error_type = error_type e, ie_retryable = retryable e, ie_retry_after_seconds = retry_after_seconds e,
      ie_scope = error_scope e, ie_current = map_option cm_current (concurrency_metadata e),
      ie_limit = map_option cm_limit (concurrency_metadata e), ie_request_id = request_id, ie_param = error_param e,
      ie_price_details = price_details parse e\<rparr>"

subsection \<open>What is written is read back\<close>

lemma split_once_append: "c \<notin> set a \<Longrightarrow> split_once c (a @ c # b) = Some (a, b)"
  by (induction a) auto

lemma split_once_absent: "c \<notin> set s \<Longrightarrow> split_once c s = None"
  by (induction s) auto

lemma split_once_str_append:
  assumes "c \<notin> set a"
  shows "split_once_str (c # p) (a @ (c # p) @ b) = Some (a, b)"
  using assms by (induction a) (auto simp: starts_with_def)

lemma split_all_simps:
  "c \<notin> set s \<Longrightarrow> split_all c s = [s]" "c \<notin> set a \<Longrightarrow> split_all c (a @ c # b) = a # split_all c b"
  by (subst split_all.simps; simp add: split_once_append split_once_absent)+

lemma strip_prefix_append [simp]: "strip_prefix p (p @ s) = Some s"
  by (simp add: strip_prefix_Some)

lemma starts_with_append [simp]: "starts_with p (p @ s)"
  by (simp add: starts_with_def)

lemma starts_with_hd: "p \<noteq> [] \<Longrightarrow> s \<noteq> [] \<Longrightarrow> hd p \<noteq> hd s \<Longrightarrow> \<not> starts_with p s"
  by (cases p; cases s) (auto simp: starts_with_def)

lemma show_nat_no: "\<not> is_ascii_digit c \<Longrightarrow> c \<notin> set (show_nat n)"
  using show_nat_digits by blast

lemma show_nat_no_plus: "show_nat n \<noteq> CHR ''+'' # s"
  using show_nat_no [of "CHR ''+''" n] by (auto simp: is_ascii_digit_def byte_def)

lemma parse_shown: "n \<le> u32_max \<Longrightarrow> parse_u32 (show_nat n) = Some n" "n \<le> u64_max \<Longrightarrow> parse_u64 (show_nat n) = Some n"
proof -
  have "list_all is_ascii_digit (show_nat n)" using show_nat_digits by (simp add: list_all_iff)
  moreover have "(case show_nat n of [] \<Rightarrow> [] | c # r \<Rightarrow> if c = CHR ''+'' then r else show_nat n) = show_nat n"
    using show_nat_no_plus by (auto split: list.split)
  ultimately show "n \<le> u32_max \<Longrightarrow> parse_u32 (show_nat n) = Some n" "n \<le> u64_max \<Longrightarrow> parse_u64 (show_nat n) = Some n"
    by (simp_all add: parse_u32_def parse_u64_def Let_def)
qed

lemma retry_read:
  "message_without_retry_metadata (proxy_error status (retry_text n m)) = m"
  "n \<le> u64_max \<Longrightarrow> retry_after_seconds (proxy_error status (retry_text n m)) = Some n"
proof -
  have "split_once (CHR '']'') (show_nat n @ '']'' @ m) = Some (show_nat n, m)"
    using split_once_append [of "CHR '']''" "show_nat n" m] show_nat_no [of "CHR '']''" n]
    by (simp add: is_ascii_digit_def byte_def)
  then show "message_without_retry_metadata (proxy_error status (retry_text n m)) = m"
    "n \<le> u64_max \<Longrightarrow> retry_after_seconds (proxy_error status (retry_text n m)) = Some n"
    by (simp_all add: message_without_retry_metadata_def retry_after_seconds_def proxy_error_def retry_text_def parse_shown)
qed

lemma no_retry:
  assumes "\<not> starts_with RETRY_AFTER_PREFIX m"
  shows "message_without_retry_metadata (proxy_error status m) = m" "retry_after_seconds (proxy_error status m) = None"
  using assms by (simp_all add: message_without_retry_metadata_def retry_after_seconds_def proxy_error_def strip_prefix_def)

lemma read_metadata_shown:
  assumes "current \<le> u32_max" and "limit \<le> u32_max"
  shows "read_metadata (split_all (CHR '':'') (scope_str scope @ '':'' @ show_nat current @ '':'' @ show_nat limit)) =
    Some \<lparr>cm_scope = scope, cm_current = current, cm_limit = limit\<rparr>"
proof -
  have shown: "CHR '':'' \<notin> set (show_nat n)" for n using show_nat_no [of "CHR '':''" n] by (simp add: is_ascii_digit_def byte_def)
  have "CHR '':'' \<notin> set (scope_str scope)" "scope_from_str (scope_str scope) = Some scope"
    by (cases scope; simp add: scope_from_str_def)+
  then show ?thesis
    using assms split_all_simps(2) [of "CHR '':''" "scope_str scope"] split_all_simps(2) [OF shown] split_all_simps(1) [OF shown]
    by (simp add: read_metadata_def parse_shown)
qed

lemma concurrency_read:
  assumes "current \<le> u32_max" and "limit \<le> u32_max"
  shows "concurrency_metadata_and_message (concurrency_limited scope current limit m) =
      Some (\<lparr>cm_scope = scope, cm_current = current, cm_limit = limit\<rparr>, m)"
    "retry_after_seconds (concurrency_limited scope current limit m) = None"
proof -
  let ?data = "scope_str scope @ '':'' @ show_nat current @ '':'' @ show_nat limit"
  have "CHR '']'' \<notin> set ?data"
    using show_nat_no [of "CHR '']''"] by (cases scope; simp add: is_ascii_digit_def byte_def)
  then have "split_once_str ''] '' (?data @ ''] '' @ m) = Some (?data, m)" using split_once_str_append [of "CHR '']''" ?data "'' ''"] by simp
  moreover have "\<not> starts_with RETRY_AFTER_PREFIX (CONCURRENCY_PREFIX @ x)" for x
    by (simp add: RETRY_AFTER_PREFIX_def CONCURRENCY_PREFIX_def starts_with_def)
  ultimately show "concurrency_metadata_and_message (concurrency_limited scope current limit m) =
      Some (\<lparr>cm_scope = scope, cm_current = current, cm_limit = limit\<rparr>, m)"
    "retry_after_seconds (concurrency_limited scope current limit m) = None"
    using read_metadata_shown [OF assms, of scope]
    by (simp_all add: concurrency_metadata_and_message_def concurrency_limited_def no_retry)
qed

text \<open>A text that starts like no prefix reaches the client as it is.\<close>

definition plain_text :: "string \<Rightarrow> bool" where
  "plain_text m \<longleftrightarrow> m \<noteq> [] \<and> hd m \<notin> {CHR ''['', CHR ''p'', CHR ''v''}"

lemmas prefix_defs = TOOL_JSON_INVALID_PREFIX_def TOOL_JSON_INCOMPLETE_PREFIX_def TOOL_JSON_LIMIT_PREFIX_def
  KIRO_EVENT_STREAM_INVALID_PREFIX_def KIRO_EVENT_STREAM_LIMIT_PREFIX_def KIRO_EVENT_STREAM_TIMEOUT_PREFIX_def
  KIRO_UPSTREAM_STREAM_ERROR_PREFIX_def CURSOR_SESSION_LOST_PREFIX_def CURSOR_RESPONSE_STATE_LOST_PREFIX_def
  CURSOR_CONVERSATION_BUSY_PREFIX_def CURSOR_SESSION_CAPACITY_EXHAUSTED_PREFIX_def
  CURSOR_CONTINUATION_IN_PROGRESS_PREFIX_def CURSOR_CONTINUATION_CLAIM_CAPACITY_PREFIX_def RETRY_AFTER_PREFIX_def
  CAPACITY_SHED_PREFIX_def CONCURRENCY_PREFIX_def USER_IDENTITY_REQUIRED_PREFIX_def PROTOCOL_INCOMPATIBLE_PREFIX_def
  RESPONSE_CONTEXT_UNAVAILABLE_PREFIX_def REQUEST_MEMORY_EXHAUSTED_PREFIX_def

lemma plain_no_prefix:
  assumes "plain_text m" and "p \<noteq> []" and "hd p \<in> {CHR ''['', CHR ''p'', CHR ''v''}"
  shows "\<not> starts_with p m" "strip_prefix p m = None"
proof -
  show "\<not> starts_with p m" using assms by (intro starts_with_hd) (auto simp: plain_text_def)
  then show "strip_prefix p m = None" by (simp add: strip_prefix_def)
qed

lemma plain_strip_first: "plain_text m \<Longrightarrow> strip_first client_prefixes m = m"
  by (simp add: client_prefixes_def plain_no_prefix prefix_defs)

lemma plain_client:
  assumes "plain_text m"
  shows "client_message (proxy_error status m) = m" "concurrency_metadata (proxy_error status m) = None"
    "retry_after_seconds (proxy_error status m) = None" "message_without_retry_metadata (proxy_error status m) = m"
proof -
  have r: "\<not> starts_with RETRY_AFTER_PREFIX m" by (simp add: plain_no_prefix [OF assms] RETRY_AFTER_PREFIX_def)
  have c: "concurrency_metadata_and_message (proxy_error status m) = None"
    by (simp add: concurrency_metadata_and_message_def no_retry [OF r] plain_no_prefix [OF assms] CONCURRENCY_PREFIX_def)
  with plain_strip_first [OF assms] show "client_message (proxy_error status m) = m"
    by (simp add: client_message_def no_retry [OF r] plain_no_prefix [OF assms])
  from c show "concurrency_metadata (proxy_error status m) = None" by (simp add: concurrency_metadata_def)
  show "retry_after_seconds (proxy_error status m) = None" "message_without_retry_metadata (proxy_error status m) = m"
    using no_retry [OF r] by simp_all
qed

lemma plain_not_busy:
  assumes "plain_text m" and "status \<in> {400, 401, 403, 404, 409}"
  shows "\<not> retryable (proxy_error status m)"
proof -
  let ?e = "proxy_error status m"
  have "find (\<lambda>(p, _). starts_with p m) prefix_codes = None"
    by (simp add: prefix_codes_def plain_no_prefix [OF assms(1)] prefix_defs)
  moreover have "find (then_colon m) quota_codes \<in> {None, Some ''quota_unavailable''}"
    by (simp add: quota_codes_def then_colon_def plain_no_prefix [OF assms(1)])
  moreover have "pe_status ?e = status" "status \<noteq> 503" using assms(2) by (auto simp: proxy_error_def)
  ultimately have "proxy_error_code ?e \<in> {''quota_unavailable'', status_code status}"
    by (auto simp: proxy_error_code_def Let_def plain_client [OF assms(1)])
  moreover have "status_code status \<noteq> ''value_quota_busy''" "status_code status \<noteq> ''quota_unavailable''"
    using assms(2) by (auto simp: status_code_def)
  ultimately show ?thesis
    using assms(2) plain_client [OF assms(1), of status]
    by (auto simp: retryable_def Let_def plain_no_prefix [OF assms(1)] prefix_defs tool_json_error_def proxy_error_def)
qed

lemma concurrency_client:
  assumes "current \<le> u32_max" and "limit \<le> u32_max" and "plain_text m"
  shows "client_message (concurrency_limited scope current limit m) = m"
    "concurrency_metadata (concurrency_limited scope current limit m) = Some \<lparr>cm_scope = scope, cm_current = current, cm_limit = limit\<rparr>"
    "\<not> retryable (concurrency_limited scope current limit m)"
    "retry_after_seconds (concurrency_limited scope current limit m) = None"
proof -
  let ?e = "concurrency_limited scope current limit m"
  note read = concurrency_read [OF assms(1,2), of scope m]
  show "client_message ?e = m"
    by (simp add: client_message_def read plain_no_prefix [OF assms(3)] plain_strip_first [OF assms(3)])
  show meta: "concurrency_metadata ?e = Some \<lparr>cm_scope = scope, cm_current = current, cm_limit = limit\<rparr>"
    by (simp add: concurrency_metadata_def read)
  show "retry_after_seconds ?e = None" by (rule read)
  obtain x where x: "message_without_retry_metadata ?e = CONCURRENCY_PREFIX @ x" and status: "pe_status ?e = 409"
    by (simp add: concurrency_limited_def no_retry prefix_defs starts_with_def)
      (simp add: proxy_error_def)
  have "find (then_colon (CONCURRENCY_PREFIX @ x)) quota_codes = None"
    by (simp add: quota_codes_def then_colon_def strip_prefix_def CONCURRENCY_PREFIX_def starts_with_def)
  with meta status x have "proxy_error_code ?e = scope_error_code scope" by (simp add: proxy_error_code_def)
  with meta x show "\<not> retryable ?e"
    by (cases scope; simp add: retryable_def Let_def CURSOR_CONTINUATION_IN_PROGRESS_PREFIX_def CONCURRENCY_PREFIX_def starts_with_def)
qed

lemma identity_client:
  assumes "plain_text m"
  shows "client_message (user_identity_required m) = m" "concurrency_metadata (user_identity_required m) = None"
    "\<not> retryable (user_identity_required m)" "retry_after_seconds (user_identity_required m) = None"
proof -
  let ?m = "USER_IDENTITY_REQUIRED_PREFIX @ m"
  have e: "user_identity_required m = proxy_error 401 ?m" by (simp add: user_identity_required_def)
  have r: "\<not> starts_with RETRY_AFTER_PREFIX ?m" by (simp add: prefix_defs starts_with_def)
  note read = no_retry [OF r, of 401]
  show "retry_after_seconds (user_identity_required m) = None" by (simp add: e read)
  have c: "concurrency_metadata_and_message (user_identity_required m) = None"
    by (simp add: concurrency_metadata_and_message_def e read) (simp add: prefix_defs strip_prefix_def starts_with_def)
  then show meta: "concurrency_metadata (user_identity_required m) = None" by (simp add: concurrency_metadata_def)
  have "strip_prefix ''price_unavailable: '' ?m = None" "strip_first client_prefixes ?m = m"
    by (simp_all add: client_prefixes_def prefix_defs strip_prefix_def starts_with_def)
  with c show "client_message (user_identity_required m) = m" by (simp add: client_message_def e read)
  have "find (then_colon ?m) quota_codes = None" "find (\<lambda>(p, _). starts_with p ?m) prefix_codes =
      Some (USER_IDENTITY_REQUIRED_PREFIX, ''cc_switch_user_identity_required'')"
    by (simp_all add: quota_codes_def prefix_codes_def then_colon_def strip_prefix_def prefix_defs starts_with_def)
  then have "proxy_error_code (user_identity_required m) = ''cc_switch_user_identity_required''"
    using meta by (simp add: proxy_error_code_def e read Let_def) (simp add: proxy_error_def)
  then show "\<not> retryable (user_identity_required m)"
    using meta by (simp add: retryable_def e read Let_def)
      (simp add: prefix_defs starts_with_def)
qed

subsection \<open>A prefix that is not removed\<close>

text \<open>
  \<open>proxy_error_code\<close> knows the prefix of an exhausted session capacity, \<open>client_message\<close> does not: the
  client is shown the internal marker.
\<close>

lemma capacity_prefix_leaks:
  "client_message cursor_session_capacity_exhausted =
     ''[CURSOR_SESSION_CAPACITY_EXHAUSTED] Cursor live session capacity is exhausted; retry shortly''"
  "proxy_error_code cursor_session_capacity_exhausted = ''cursor_session_capacity_exhausted''"
  by code_simp+

end
