(* ===== verification/Share_Gate.thy ===== *)
theory Share_Gate
  imports Proxy_Error In_Flight Share_Claims
begin

section \<open>The gate of a share\<close>

text \<open>
  The handler that puts admission, leases and recording together
  (\<open>validate_and_acquire_share_invocation_with_value_text\<close> and the recording handlers of
  \<open>src/src/state.rs\<close>, and their callers in \<open>src/src/proxy/forwarder.rs\<close>), and the system of all
  requests of a server that go through it. The handler takes the locks one after the other: the
  checks before the lifecycle lock, the ledger checks and the validation, and the lease are
  separate steps, between which other requests record usage and drop their guards.
\<close>

subsection \<open>The checks before validation\<close>

definition gate_grant :: "ShareStore \<Rightarrow> string \<Rightarrow> string option \<Rightarrow> ShareUserGrant option" where
  "gate_grant store share_id user_email =
     Option.bind (get_share store share_id) (\<lambda>share.
     Option.bind user_email (\<lambda>email. bt_get (sh_user_grants share) (to_ascii_lowercase email)))"

definition grant_and :: "(ShareUserGrant \<Rightarrow> bool) \<Rightarrow> ShareUserGrant option \<Rightarrow> bool" where
  "grant_and p g = (case g of None \<Rightarrow> False | Some g \<Rightarrow> p g)"

definition share_uses_value_quota :: "ShareStore \<Rightarrow> string \<Rightarrow> string option \<Rightarrow> bool" where
  "share_uses_value_quota store share_id email =
     grant_and (\<lambda>g. ug_active g \<and> up_value_quota (ug_policy g) \<noteq> None) (gate_grant store share_id email)"

text \<open>\<open>activation_failed\<close>: the scheduled policy activation before the check returned an error.\<close>

definition value_gate ::
  "bool \<Rightarrow> bool \<Rightarrow> ShareStore \<Rightarrow> string \<Rightarrow> string option \<Rightarrow> ShareInvocationRejection + unit" where
  "value_gate activation_failed allow_value_text store share_id user_email =
     rbind (check (\<not> (activation_failed \<and>
         grant_and (\<lambda>g. up_value_quota (ug_policy g) \<noteq> None \<or> ug_pending_value_quota g \<noteq> None)
           (gate_grant store share_id user_email)))
       (reject QuotaUnavailable ''quota_unavailable: scheduled quota activation requires recovery'' False)) (\<lambda>_.
     check (\<not> (\<not> allow_value_text \<and> share_uses_value_quota store share_id user_email))
       (reject QuotaUnavailable
         ''quota_unavailable: this request surface does not support USD-equivalent metering'' False))"

definition uses_account_reset :: "ShareStore \<Rightarrow> string \<Rightarrow> string option \<Rightarrow> bool" where
  "uses_account_reset store share_id user_email =
     grant_and (\<lambda>g. ug_active g \<and> up_token_period (ug_policy g) = AccountReset) (gate_grant store share_id user_email)"

text \<open>The check of the router's capability; what it found is used again by the ledger check.\<close>

definition router_gate ::
  "bool \<Rightarrow> ShareStore \<Rightarrow> string \<Rightarrow> string option \<Rightarrow> ShareInvocationRejection + bool" where
  "router_gate router_supports_account_reset store share_id user_email =
     (let reset = uses_account_reset store share_id user_email in
      rbind (check (\<not> (reset \<and> \<not> router_supports_account_reset))
        (reject QuotaUnavailable ''ACCOUNT_RESET_ROUTER_UPGRADE_REQUIRED'' False)) (\<lambda>_. Ok reset))"

definition ledger_gate ::
  "bool \<Rightarrow> UsageStore \<Rightarrow> bool \<Rightarrow> ShareStore \<Rightarrow> string \<Rightarrow> string option \<Rightarrow> ShareInvocationRejection + unit" where
  "ledger_gate quota_usage_degraded usage reset store share_id user_email =
     rbind (check (\<not> (quota_usage_degraded \<and>
         grant_and (\<lambda>g. up_token_period (ug_policy g) = AccountReset \<and> up_token_limit (ug_policy g) \<noteq> None)
           (gate_grant store share_id user_email)))
       (reject QuotaUnavailable ''QUOTA_LEDGER_UNAVAILABLE: quota accounting needs recovery'' False)) (\<lambda>_.
     check (\<not> (reset \<and> capacity_limited (st_quota_ledger usage) \<and>
         grant_and (\<lambda>g. up_token_limit (ug_policy g) \<noteq> None) (gate_grant store share_id user_email)))
       (reject QuotaUnavailable ''QUOTA_LEDGER_CAPACITY_LIMIT: exact history must be retained'' False))"

subsection \<open>The lease\<close>

fun lease_rejection :: "ShareInFlightAcquireError \<Rightarrow> ShareInvocationRejection" where
  "lease_rejection (ShareLimit current limit) =
     \<lparr>rj_reason = ParallelLimit,
      rj_message = ''Share concurrency limit has been reached ('' @ show_nat current @ ''/'' @ show_nat limit @
        ''). Wait for an in-flight request to finish.'',
      rj_status_changed = False, rj_concurrency = Some \<lparr>cl_current = current, cl_limit = limit\<rparr>\<rparr>"
| "lease_rejection (UserLimit current limit) =
     \<lparr>rj_reason = UserParallelLimit,
      rj_message = ''Your Share user concurrency limit has been reached ('' @ show_nat current @ ''/'' @ show_nat limit @
        ''). Wait for an in-flight request to finish.'',
      rj_status_changed = False, rj_concurrency = Some \<lparr>cl_current = current, cl_limit = limit\<rparr>\<rparr>"

definition acquire_invocation ::
  "counts \<Rightarrow> ShareInvocation \<Rightarrow> counts \<times> (ShareInvocationRejection + ShareInFlightGuard)" where
  "acquire_invocation m i =
     map_prod id (map_err lease_rejection)
       (try_acquire_for_user m (iv_share_id i) (iv_parallel_limit i) (iv_user_email i) (iv_user_parallel_limit i))"

subsection \<open>The answer to a refused request\<close>

fun rejection_status :: "ShareRejectReason \<Rightarrow> nat" where
  "rejection_status QuotaUnavailable = 503"
| "rejection_status NotFound = 404"
| "rejection_status UnsupportedApp = 404"
| "rejection_status UserIdentityRequired = 401"
| "rejection_status ParallelLimit = 409"
| "rejection_status UserParallelLimit = 409"
| "rejection_status Unauthorized = 403"
| "rejection_status AppNotAllowed = 403"
| "rejection_status Inactive = 403"
| "rejection_status Expired = 403"
| "rejection_status Exhausted = 403"
| "rejection_status UserExpired = 403"
| "rejection_status UserExhausted = 403"

text \<open>\<open>None\<close> is the \<open>unreachable!\<close> of the source, a panic.\<close>

definition rejection_scope :: "ShareRejectReason \<Rightarrow> ProxyConcurrencyScope option" where
  "rejection_scope reason = (case reason of
     ParallelLimit \<Rightarrow> Some ShareScope | UserParallelLimit \<Rightarrow> Some UserScope | _ \<Rightarrow> None)"

definition share_rejection_to_proxy_error :: "ShareInvocationRejection \<Rightarrow> ProxyError option" where
  "share_rejection_to_proxy_error r = (case rj_concurrency r of
     Some c \<Rightarrow> map_option (\<lambda>scope. concurrency_limited scope (cl_current c) (cl_limit c) (rj_message r))
       (rejection_scope (rj_reason r))
   | None \<Rightarrow> Some (if rj_reason r = UserIdentityRequired then user_identity_required (rj_message r)
       else proxy_error (rejection_status (rj_reason r)) (formatted_message r)))"

subsection \<open>Recording\<close>

text \<open>Of \<open>TokenUsage\<close> the counters that enter a share's usage.\<close>

record TokenUsage =
  tu_input_tokens :: "nat option"
  tu_output_tokens :: "nat option"
  tu_total_tokens :: "nat option"

definition share_usage_tokens :: "TokenUsage \<Rightarrow> nat" where
  "share_usage_tokens usage = (case tu_total_tokens usage of
     Some n \<Rightarrow> n
   | None \<Rightarrow> (case (tu_input_tokens usage, tu_output_tokens usage) of
       (Some input, Some output) \<Rightarrow> saturating_add_u64 input output
     | (Some input, None) \<Rightarrow> input
     | (None, Some output) \<Rightarrow> output
     | (None, None) \<Rightarrow> 0))"

definition started_i64 :: "nat option \<Rightarrow> int" where
  "started_i64 started_at_ms = (case started_at_ms of
     None \<Rightarrow> 0 | Some time \<Rightarrow> if int time \<le> i64_max then int time else 0)"

text \<open>\<open>now\<close> is the clock read inside the share store, \<open>usage\<close> the usage store held meanwhile.\<close>

definition record_share_invocation_result ::
  "chrono \<Rightarrow> json_encoder \<Rightarrow> nat \<Rightarrow> UsageStore \<Rightarrow> ShareStore \<Rightarrow> string \<Rightarrow> string option \<Rightarrow> nat \<Rightarrow> int \<Rightarrow> ShareStore" where
  "record_share_invocation_result cal json now usage store share_id user_email tokens recorded_at_ms =
     (let store = fst (record_user_invocation_result cal now store share_id user_email tokens recorded_at_ms)
      in fst (rebuild_user_anchored_usage cal json store share_id usage recorded_at_ms))"

definition record_share_supplemental_usage ::
  "chrono \<Rightarrow> json_encoder \<Rightarrow> nat \<Rightarrow> UsageStore \<Rightarrow> ShareStore \<Rightarrow> string \<Rightarrow> string option \<Rightarrow> nat \<Rightarrow> int \<Rightarrow> ShareStore" where
  "record_share_supplemental_usage cal json now usage store share_id user_email tokens recorded_at_ms =
     (if tokens = 0 then store
      else let store = fst (record_user_supplemental_usage cal now store share_id user_email tokens recorded_at_ms)
           in fst (rebuild_user_anchored_usage cal json store share_id usage recorded_at_ms))"

text \<open>The forwarder's callers: a request that names no share records nothing.\<close>

definition proxy_record_invocation_result ::
  "chrono \<Rightarrow> json_encoder \<Rightarrow> nat \<Rightarrow> UsageStore \<Rightarrow> ShareStore \<Rightarrow> string option \<Rightarrow> string option \<Rightarrow> nat option \<Rightarrow>
   TokenUsage \<Rightarrow> ShareStore" where
  "proxy_record_invocation_result cal json now usage store share_id user_email started_at_ms tokens =
     (case share_id of
        None \<Rightarrow> store
      | Some share_id \<Rightarrow> record_share_invocation_result cal json now usage store share_id user_email
          (share_usage_tokens tokens) (started_i64 started_at_ms))"

definition proxy_record_supplemental_usage ::
  "chrono \<Rightarrow> json_encoder \<Rightarrow> nat \<Rightarrow> UsageStore \<Rightarrow> ShareStore \<Rightarrow> string option \<Rightarrow> string option \<Rightarrow> nat option \<Rightarrow>
   TokenUsage \<Rightarrow> ShareStore" where
  "proxy_record_supplemental_usage cal json now usage store share_id user_email started_at_ms tokens =
     (case share_id of
        None \<Rightarrow> store
      | Some share_id \<Rightarrow> record_share_supplemental_usage cal json now usage store share_id user_email
          (share_usage_tokens tokens) (started_i64 started_at_ms))"

subsection \<open>The requests of a server\<close>

text \<open>
  A request waits for the lifecycle lock, holds it from the router check to the lease (\<open>Entered\<close>
  until it is validated, \<open>Admitted\<close> until it has its lease), and then runs under its guard. A
  running request carries the tokens it has recorded so far, and \<open>M\<close> bounds the tokens that one
  request records. Most handlers keep the guard until the usage is recorded; the handlers that
  use \<open>ShareStreamInterruptGuard\<close> record a stream that the client cancels in a task of its own,
  after the guard is gone. Such a request is \<open>late\<close>, and at most \<open>Q\<close> are late at a time.
\<close>

record Arrival =
  av_share_id :: string
  av_app :: AppKind
  av_user_email :: "string option"
  av_now_ms :: int

datatype Desk = Free | Entered Arrival bool | Admitted ShareInvocation

record ShareServer =
  ss_store :: ShareStore
  ss_counts :: counts
  ss_waiting :: "Arrival list"
  ss_desk :: Desk
  ss_running :: "(ShareInFlightGuard \<times> nat) list"
  ss_late :: "(string \<times> nat) list"

definition at_rest :: "ShareStore \<Rightarrow> ShareServer" where
  "at_rest store = \<lparr>ss_store = store, ss_counts = [], ss_waiting = [], ss_desk = Free, ss_running = [], ss_late = []\<rparr>"

text \<open>
  What the rest of the server may do to the store meanwhile: anything that deletes no share,
  changes no limit and raises no total.
\<close>

definition quiet :: "ShareStore \<Rightarrow> ShareStore \<Rightarrow> bool" where
  "quiet store store' \<longleftrightarrow> (\<forall>i share. get_share store i = Some share \<longrightarrow> (\<exists>share'. get_share store' i = Some share' \<and>
     sh_token_limit share' = sh_token_limit share \<and> sh_parallel_limit share' = sh_parallel_limit share \<and>
     sh_tokens_used share' \<le> sh_tokens_used share))"

inductive serve_step :: "chrono \<Rightarrow> json_encoder \<Rightarrow> nat \<Rightarrow> nat \<Rightarrow> ShareServer \<Rightarrow> ShareServer \<Rightarrow> bool"
  for cal json M Q where
  arrive: "value_gate failed allow (ss_store s) (av_share_id a) (av_user_email a) = Ok () \<Longrightarrow>
    serve_step cal json M Q s (s\<lparr>ss_waiting := a # ss_waiting s\<rparr>)"
| enter: "a \<in> set (ss_waiting s) \<Longrightarrow> ss_desk s = Free \<Longrightarrow>
    router_gate supported (ss_store s) (av_share_id a) (av_user_email a) = Ok reset \<Longrightarrow>
    serve_step cal json M Q s (s\<lparr>ss_waiting := remove1 a (ss_waiting s), ss_desk := Entered a reset\<rparr>)"
| unsupported: "a \<in> set (ss_waiting s) \<Longrightarrow> ss_desk s = Free \<Longrightarrow>
    router_gate supported (ss_store s) (av_share_id a) (av_user_email a) = Err e \<Longrightarrow>
    serve_step cal json M Q s (s\<lparr>ss_waiting := remove1 a (ss_waiting s)\<rparr>)"
| unavailable: "ss_desk s = Entered a reset \<Longrightarrow>
    ledger_gate degraded usage reset (ss_store s) (av_share_id a) (av_user_email a) = Err e \<Longrightarrow>
    serve_step cal json M Q s (s\<lparr>ss_desk := Free\<rparr>)"
| validated: "ss_desk s = Entered a reset \<Longrightarrow>
    ledger_gate degraded usage reset (ss_store s) (av_share_id a) (av_user_email a) = Ok () \<Longrightarrow>
    validate_for_invocation cal (ss_store s) (av_share_id a) (av_app a) (av_user_email a) (av_now_ms a) = (store', Ok iv) \<Longrightarrow>
    serve_step cal json M Q s (s\<lparr>ss_store := store', ss_desk := Admitted iv\<rparr>)"
| rejected: "ss_desk s = Entered a reset \<Longrightarrow>
    validate_for_invocation cal (ss_store s) (av_share_id a) (av_app a) (av_user_email a) (av_now_ms a) = (store', Err e) \<Longrightarrow>
    serve_step cal json M Q s (s\<lparr>ss_store := store', ss_desk := Free\<rparr>)"
| leased: "ss_desk s = Admitted iv \<Longrightarrow> acquire_invocation (ss_counts s) iv = (m, Ok g) \<Longrightarrow>
    length (ss_running s) < u32_max \<Longrightarrow>
    serve_step cal json M Q s (s\<lparr>ss_counts := m, ss_desk := Free, ss_running := (g, 0) # ss_running s\<rparr>)"
| busy: "ss_desk s = Admitted iv \<Longrightarrow> acquire_invocation (ss_counts s) iv = (m, Err e) \<Longrightarrow>
    serve_step cal json M Q s (s\<lparr>ss_counts := m, ss_desk := Free\<rparr>)"
| supplement: "(g, u) \<in> set (ss_running s) \<Longrightarrow> u + share_usage_tokens t \<le> M \<Longrightarrow>
    serve_step cal json M Q s (s\<lparr>ss_store := proxy_record_supplemental_usage cal json now usage (ss_store s)
        (Some (sg_share_id g)) email started t,
      ss_running := (g, u + share_usage_tokens t) # remove1 (g, u) (ss_running s)\<rparr>)"
| result: "(g, u) \<in> set (ss_running s) \<Longrightarrow> u + share_usage_tokens t \<le> M \<Longrightarrow>
    serve_step cal json M Q s (s\<lparr>ss_store := proxy_record_invocation_result cal json now usage (ss_store s)
        (Some (sg_share_id g)) email started t,
      ss_running := (g, u + share_usage_tokens t) # remove1 (g, u) (ss_running s)\<rparr>)"
| dropped: "(g, u) \<in> set (ss_running s) \<Longrightarrow>
    serve_step cal json M Q s (s\<lparr>ss_counts := release_share (ss_counts s) (sg_share_id g) (sg_user_key g),
      ss_running := remove1 (g, u) (ss_running s)\<rparr>)"
| cancelled: "(g, u) \<in> set (ss_running s) \<Longrightarrow> length (ss_late s) < Q \<Longrightarrow>
    serve_step cal json M Q s (s\<lparr>ss_counts := release_share (ss_counts s) (sg_share_id g) (sg_user_key g),
      ss_running := remove1 (g, u) (ss_running s), ss_late := (sg_share_id g, u) # ss_late s\<rparr>)"
| late_result: "(i, u) \<in> set (ss_late s) \<Longrightarrow> u + share_usage_tokens t \<le> M \<Longrightarrow>
    serve_step cal json M Q s (s\<lparr>ss_store := proxy_record_invocation_result cal json now usage (ss_store s)
        (Some i) email started t, ss_late := remove1 (i, u) (ss_late s)\<rparr>)"
| paused: "serve_step cal json M Q s (s\<lparr>ss_store := fst (pause (ss_store s) i)\<rparr>)"
| resumed: "serve_step cal json M Q s (s\<lparr>ss_store := fst (resume (ss_store s) i)\<rparr>)"
| cleared: "serve_step cal json M Q s (s\<lparr>ss_store := fst (reset_usage now (ss_store s) i)\<rparr>)"
| elsewhere: "quiet (ss_store s) store' \<Longrightarrow> serve_step cal json M Q s (s\<lparr>ss_store := store'\<rparr>)"

end
