(* ===== verification/Share_Gate_Props.thy ===== *)
theory Share_Gate_Props
  imports Share_Gate
begin

section \<open>How far a share can overshoot\<close>

text \<open>
  The total of a share moves only by what requests record, and every admitted request may still
  record up to its bound. The invariant adds the two: the total, and what the running requests,
  the late ones and the one being admitted may still record, stay below the limit plus one bound
  for each request the parallel limit lets run, each late one and the one at the desk.
\<close>

subsection \<open>What the operations do to the totals\<close>

definition metered :: "ShareStore \<Rightarrow> ShareStore \<Rightarrow> string \<Rightarrow> nat \<Rightarrow> bool" where
  "metered store store' j t \<longleftrightarrow> (\<forall>i share. get_share store i = Some share \<longrightarrow> (\<exists>share'. get_share store' i = Some share' \<and>
     sh_token_limit share' = sh_token_limit share \<and> sh_parallel_limit share' = sh_parallel_limit share \<and>
     sh_tokens_used share' \<le> sh_tokens_used share + (if i = j then t else 0)))"

lemma metered_quiet: "quiet store store' \<longleftrightarrow> metered store store' j 0"
  by (simp add: quiet_def metered_def)

lemma metered_refl: "metered store store j t"
  by (simp add: metered_def)

lemma metered_trans: "metered a b j t \<Longrightarrow> quiet b c \<Longrightarrow> metered a c j t"
  unfolding metered_def quiet_def by (intro allI impI, drule spec2, drule (1) mp, elim exE conjE, drule spec2, drule (1) mp) auto

lemma metered_put:
  assumes "get_share store j = Some share" and "sh_id share' = sh_id share"
    and "sh_token_limit share' = sh_token_limit share" and "sh_parallel_limit share' = sh_parallel_limit share"
    and "sh_tokens_used share' \<le> sh_tokens_used share + t"
  shows "metered store (put_share j share' store) j t"
  using assms shares.get_update [OF assms(1,2)] by (auto simp: metered_def)

lemma mutate_metered:
  assumes "\<And>s. sh_id (f s) = sh_id s \<and> sh_token_limit (f s) = sh_token_limit s \<and>
      sh_parallel_limit (f s) = sh_parallel_limit s \<and> sh_tokens_used (f s) \<le> sh_tokens_used s + t"
  shows "metered store (fst (mutate_share f store j)) j t"
  using assms by (auto simp: mutate_share_def metered_refl split: option.split intro: metered_put)

lemma rebuild_grants_quiet: "quiet store (fst (rebuild_grants f store j))"
  by (auto simp: metered_quiet [of _ _ j] rebuild_grants_def metered_refl case_prod_beta Let_def split: option.split
      intro: metered_put)

lemma managed_quiet:
  "quiet store (fst (pause store j))" "quiet store (fst (resume store j))" "quiet store (fst (reset_usage now store j))"
  unfolding metered_quiet [of _ _ j] pause_def resume_def reset_usage_def
  by (rule mutate_metered; simp add: pause_share_def resume_share_def reset_share_def mark_share_config_pending_def Let_def)+

lemma record_total_meter:
  "sh_id (record_total t c s) = sh_id s" "sh_token_limit (record_total t c s) = sh_token_limit s"
  "sh_parallel_limit (record_total t c s) = sh_parallel_limit s" "sh_tokens_used (record_total t c s) \<le> sh_tokens_used s + t"
  by (simp_all add: record_total_def close_share_def Let_def saturating_add_u64_def)

lemma record_share_meter:
  "sh_id (record_share cal e t at c now s) = sh_id s" "sh_token_limit (record_share cal e t at c now s) = sh_token_limit s"
  "sh_parallel_limit (record_share cal e t at c now s) = sh_parallel_limit s"
  "sh_tokens_used (record_share cal e t at c now s) = sh_tokens_used (record_total t c s)"
  by (simp_all add: record_share_def record_total_meter Let_def split: option.split)

lemma record_user_usage_metered: "metered store (fst (record_user_usage cal now store j e t at c)) j t"
  unfolding record_user_usage_def by (rule mutate_metered) (simp add: record_share_meter record_total_meter saturating_add_u64_def)

lemma record_result_metered:
  "metered store (proxy_record_invocation_result cal json now usage store (Some j) email started t) j (share_usage_tokens t)"
  unfolding proxy_record_invocation_result_def record_share_invocation_result_def record_user_invocation_result_def
    rebuild_user_anchored_usage_def Let_def option.case
  by (rule metered_trans [OF record_user_usage_metered rebuild_grants_quiet])

lemma record_supplement_metered:
  "metered store (proxy_record_supplemental_usage cal json now usage store (Some j) email started t) j (share_usage_tokens t)"
  using metered_trans [OF record_user_usage_metered rebuild_grants_quiet]
  by (simp add: proxy_record_supplemental_usage_def record_share_supplemental_usage_def record_user_supplemental_usage_def
      rebuild_user_anchored_usage_def Let_def metered_refl)

lemma validate_share_meter:
  "validate_share cal share app email now = (share', Ok iv) \<Longrightarrow> share' = share \<and> \<not> limit_reached (sh_token_limit share) (sh_tokens_used share) \<and>
     iv_share_id iv = sh_id share \<and> iv_parallel_limit iv = sh_parallel_limit share"
  by (auto simp: validate_share_def check_user_def Let_def result_iff split: if_splits)

lemma validate_admits:
  assumes "validate_for_invocation cal store j app email now = (store', Ok iv)"
  shows "store' = store" "iv_share_id iv = j"
    "\<exists>share. get_share store j = Some share \<and> \<not> limit_reached (sh_token_limit share) (sh_tokens_used share) \<and>
       iv_parallel_limit iv = sh_parallel_limit share"
proof -
  obtain share where share: "get_share store j = Some share"
    using assms by (auto simp: validate_for_invocation_def split: option.splits)
  then obtain share' where v: "validate_share cal share app email now = (share', Ok iv)" "store' = put_share j share' store"
    using assms by (auto simp: validate_for_invocation_def split: prod.splits)
  with share show "store' = store" "iv_share_id iv = j"
    "\<exists>share. get_share store j = Some share \<and> \<not> limit_reached (sh_token_limit share) (sh_tokens_used share) \<and>
       iv_parallel_limit iv = sh_parallel_limit share"
    using validate_share_meter [OF v(1)] shares.put_same [OF share] shares.get_id [OF share] by auto
qed

lemma validate_quiet: "quiet store (fst (validate_for_invocation cal store j app email now))"
proof (cases "get_share store j")
  case (Some share)
  have "sh_id (fst (validate_share cal share app email now)) = sh_id share \<and>
      sh_token_limit (fst (validate_share cal share app email now)) = sh_token_limit share \<and>
      sh_parallel_limit (fst (validate_share cal share app email now)) = sh_parallel_limit share \<and>
      sh_tokens_used (fst (validate_share cal share app email now)) = sh_tokens_used share"
    by (simp add: validate_share_def close_share_def)
  with Some show ?thesis
    unfolding metered_quiet [of _ _ j] validate_store [OF Some] by (auto intro: metered_put)
qed (simp add: validate_for_invocation_def metered_quiet [of _ _ j] metered_refl)

subsection \<open>What requests may still record\<close>

definition owed :: "nat \<Rightarrow> string \<Rightarrow> ('r \<Rightarrow> string) \<Rightarrow> ('r \<times> nat) list \<Rightarrow> nat" where
  "owed M i key rs = sum_list (map (\<lambda>r. if key (fst r) = i then M - snd r else 0) rs)"

lemma owed_Cons [simp]: "owed M i key ((r, u) # rs) = (if key r = i then M - u else 0) + owed M i key rs"
  by (simp add: owed_def)

lemma owed_Nil [simp]: "owed M i key [] = 0"
  by (simp add: owed_def)

lemma owed_remove: "(r, u) \<in> set rs \<Longrightarrow> owed M i key rs = (if key r = i then M - u else 0) + owed M i key (remove1 (r, u) rs)"
  unfolding owed_def by (subst sum_list_map_remove1, assumption) simp

lemma owed_le: "owed M i key rs \<le> length (filter (\<lambda>r. key (fst r) = i) rs) * M"
  by (induction rs) (auto simp: owed_def)

definition desk_owes :: "nat \<Rightarrow> string \<Rightarrow> Desk \<Rightarrow> nat" where
  "desk_owes M i d = (case d of Admitted iv \<Rightarrow> if iv_share_id iv = i then M else 0 | _ \<Rightarrow> 0)"

lemma desk_owes_simps [simp]:
  "desk_owes M i Free = 0" "desk_owes M i (Entered a r) = 0"
  "desk_owes M i (Admitted iv) = (if iv_share_id iv = i then M else 0)"
  by (simp_all add: desk_owes_def)

definition due :: "nat \<Rightarrow> string \<Rightarrow> ShareServer \<Rightarrow> nat" where
  "due M i s = owed M i sg_share_id (ss_running s) + owed M i id (ss_late s) + desk_owes M i (ss_desk s)"

definition total_ok :: "nat \<Rightarrow> nat \<Rightarrow> string \<Rightarrow> nat \<Rightarrow> nat \<Rightarrow> ShareStore \<Rightarrow> nat \<Rightarrow> bool" where
  "total_ok M Q i L P store d \<longleftrightarrow> (\<exists>share. get_share store i = Some share \<and> sh_token_limit share = Some L \<and>
     sh_parallel_limit share = Some P \<and> sh_tokens_used share + d < L + (P + Q + 1) * M)"

lemma total_ok_metered:
  assumes "total_ok M Q i L P store d" and "metered store store' j t" and "d' + (if i = j then t else 0) \<le> d"
  shows "total_ok M Q i L P store' d'"
proof -
  from assms(1) obtain share where share: "get_share store i = Some share" "sh_token_limit share = Some L"
    "sh_parallel_limit share = Some P" "sh_tokens_used share + d < L + (P + Q + 1) * M" by (auto simp: total_ok_def)
  from assms(2) share(1) obtain share' where share': "get_share store' i = Some share'" "sh_token_limit share' = sh_token_limit share"
    "sh_parallel_limit share' = sh_parallel_limit share" "sh_tokens_used share' \<le> sh_tokens_used share + (if i = j then t else 0)"
    unfolding metered_def by blast
  have "sh_tokens_used share' + d' \<le> sh_tokens_used share + d" using share'(4) assms(3) by (simp split: if_splits)
  with share share'(1-3) show ?thesis by (auto simp: total_ok_def)
qed

subsection \<open>The leases\<close>

definition running_on :: "string \<Rightarrow> ShareServer \<Rightarrow> nat" where
  "running_on i s = length (filter (\<lambda>r. sg_share_id (fst r) = i) (ss_running s))"

definition leases_ok :: "ShareServer \<Rightarrow> bool" where
  "leases_ok s \<longleftrightarrow> share_lease_inv (ss_counts s, map fst (ss_running s))"

lemma lease_inv_swap:
  assumes "(g, u) \<in> set rs"
  shows "share_lease_inv (m, g # map fst (remove1 (g, u) rs)) \<longleftrightarrow> share_lease_inv (m, map fst rs)"
proof -
  have "shares.live_uses (g # map fst (remove1 (g, u) rs)) k = shares.live_uses (map fst rs) k" for k
    using sum_list_map_remove1 [OF assms, of "\<lambda>r. share_uses (fst r) k"] by (simp add: shares.live_uses_def comp_def)
  moreover have "insert (g, u) (set (remove1 (g, u) rs)) = set rs"
    using assms in_set_remove1 [of _ "(g, u)" rs] set_remove1_subset [of "(g, u)" rs] by blast
  then have "set (g # map fst (remove1 (g, u) rs)) = fst ` set rs" by (metis fst_conv image_insert list.set(2) set_map)
  ultimately show ?thesis by (simp add: share_lease_inv_def shares.tracks_def)
qed

lemma leases_drop:
  assumes "share_lease_inv (m, map fst rs)" and "(g, u) \<in> set rs"
  shows "share_lease_inv (release_share m (sg_share_id g) (sg_user_key g), map fst (remove1 (g, u) rs))"
proof -
  let ?gs = "map fst (remove1 (g, u) rs)"
  have "share_lease_step (m, g # ?gs) (release_share m (sg_share_id g) (sg_user_key g), remove1 g (g # ?gs))"
    by (rule share_lease_step.dropped) simp
  with assms lease_inv_swap [OF assms(2), of m] share_leases.step_inv show ?thesis by fastforce
qed

lemma leases_take:
  assumes "acquire_invocation m iv = (m', Ok g)" and "length rs < u32_max" and "share_lease_inv (m, map fst rs)"
  shows "share_lease_inv (m', g # map fst rs)" "sg_share_id g = iv_share_id iv"
    "iv_parallel_limit iv = Some P \<Longrightarrow> length (filter (\<lambda>h. sg_share_id h = iv_share_id iv) (g # map fst rs)) \<le> P"
proof -
  have got: "try_acquire_for_user m (iv_share_id iv) (iv_parallel_limit iv) (iv_user_email iv) (iv_user_parallel_limit iv) = (m', Ok g)"
    using assms(1) by (cases "try_acquire_for_user m (iv_share_id iv) (iv_parallel_limit iv) (iv_user_email iv) (iv_user_parallel_limit iv)")
      (auto simp: acquire_invocation_def result_iff)
  note taken = acquire_takes [OF got]
  from share_lease_step.acquire [OF got, of "map fst rs"] assms(2,3) share_leases.step_inv
  show "share_lease_inv (m', g # map fst rs)" by simp
  show "sg_share_id g = iv_share_id iv" by (rule taken(2))
  show "length (filter (\<lambda>h. sg_share_id h = iv_share_id iv) (g # map fst rs)) \<le> P" if "iv_parallel_limit iv = Some P"
    by (rule shares.tracks_limit [OF _ taken(4) [OF that]]) (use assms in \<open>simp_all add: share_lease_inv_def share_uses_def\<close>)
qed

lemma leases_refused: "acquire_invocation m iv = (m', Err e) \<Longrightarrow> m' = m"
  by (cases "try_acquire_for_user m (iv_share_id iv) (iv_parallel_limit iv) (iv_user_email iv) (iv_user_parallel_limit iv)")
    (auto simp: acquire_invocation_def map_err_def split: sum.splits dest: acquire_refused)

lemma filter_remove: "x \<in> set xs \<Longrightarrow> length (filter p xs) = (if p x then 1 else 0) + length (filter p (remove1 x xs))"
  by (induction xs) auto

subsection \<open>The invariant\<close>

definition gate_inv :: "nat \<Rightarrow> nat \<Rightarrow> string \<Rightarrow> nat \<Rightarrow> nat \<Rightarrow> ShareServer \<Rightarrow> bool" where
  "gate_inv M Q i L P s \<longleftrightarrow> total_ok M Q i L P (ss_store s) (due M i s) \<and> leases_ok s \<and> running_on i s \<le> P \<and>
     length (ss_late s) \<le> Q \<and>
     (case ss_desk s of Admitted iv \<Rightarrow> iv_share_id iv = i \<longrightarrow> iv_parallel_limit iv = Some P | _ \<Rightarrow> True)"

lemma gate_invD:
  assumes "gate_inv M Q i L P s"
  shows "total_ok M Q i L P (ss_store s) (due M i s)" "leases_ok s" "running_on i s \<le> P" "length (ss_late s) \<le> Q"
    "ss_desk s = Admitted iv \<Longrightarrow> iv_share_id iv = i \<Longrightarrow> iv_parallel_limit iv = Some P"
  using assms by (simp_all add: gate_inv_def)

lemma gate_inv_store:
  assumes "gate_inv M Q i L P s" and "quiet (ss_store s) store'"
  shows "gate_inv M Q i L P (s\<lparr>ss_store := store'\<rparr>)"
  using assms total_ok_metered [of M Q i L P "ss_store s" "due M i s" store' i 0 "due M i s"]
  by (simp add: gate_inv_def metered_quiet [of _ _ i] due_def leases_ok_def running_on_def)

lemma gate_inv_desk:
  assumes "gate_inv M Q i L P s" and "desk_owes M i d = 0"
    and "d = Free \<or> (\<exists>a r. d = Entered a r)"
  shows "gate_inv M Q i L P (s\<lparr>ss_desk := d\<rparr>)"
  using assms total_ok_metered [OF gate_invD(1) [OF assms(1)] metered_refl [of _ i 0], of "due M i (s\<lparr>ss_desk := d\<rparr>)"]
  by (auto simp: gate_inv_def due_def leases_ok_def running_on_def)

text \<open>Validation sees a total below the limit; the parallel limit bounds what else may still come.\<close>

lemma gate_inv_admit:
  assumes "gate_inv M Q i L P s" and "validate_for_invocation cal (ss_store s) j app email now = (store', Ok iv)"
  shows "gate_inv M Q i L P (s\<lparr>ss_store := store', ss_desk := Admitted iv\<rparr>)"
proof -
  note admits = validate_admits [OF assms(2)] and inv = gate_invD [OF assms(1)]
  from inv(1) obtain share where share: "get_share (ss_store s) i = Some share" "sh_token_limit share = Some L"
    "sh_parallel_limit share = Some P" by (auto simp: total_ok_def)
  have "total_ok M Q i L P (ss_store s) (due M i (s\<lparr>ss_desk := Admitted iv\<rparr>))"
  proof (cases "j = i")
    case True
    with admits(3) share have "sh_tokens_used share < L" by (auto simp: limit_reached_def)
    moreover have "owed M i sg_share_id (ss_running s) \<le> P * M" "owed M i id (ss_late s) \<le> Q * M"
      using order_trans [OF owed_le mult_le_mono1 [OF inv(3) [unfolded running_on_def]]]
        order_trans [OF owed_le mult_le_mono1 [OF order_trans [OF length_filter_le inv(4)]]] .
    ultimately have "sh_tokens_used share + due M i (s\<lparr>ss_desk := Admitted iv\<rparr>) < L + (P + Q + 1) * M"
      by (simp add: due_def add_mult_distrib)
    with share show ?thesis by (auto simp: total_ok_def)
  next
    case False
    with admits(2) have "due M i (s\<lparr>ss_desk := Admitted iv\<rparr>) \<le> due M i s" by (simp add: due_def)
    with total_ok_metered [OF inv(1) metered_refl [of _ i 0]] show ?thesis by simp
  qed
  with inv admits share show ?thesis
    by (auto simp: gate_inv_def due_def leases_ok_def running_on_def)
qed

lemma gate_inv_lease:
  assumes "gate_inv M Q i L P s" and "ss_desk s = Admitted iv" and "acquire_invocation (ss_counts s) iv = (m, Ok g)"
    and "length (ss_running s) < u32_max"
  shows "gate_inv M Q i L P (s\<lparr>ss_counts := m, ss_desk := Free, ss_running := (g, 0) # ss_running s\<rparr>)"
proof -
  note inv = gate_invD [OF assms(1)]
  note taken = leases_take [OF assms(3,4)]
  let ?s = "s\<lparr>ss_counts := m, ss_desk := Free, ss_running := (g, 0) # ss_running s\<rparr>"
  have lease: "share_lease_inv (ss_counts s, map fst (ss_running s))" using inv(2) by (simp add: leases_ok_def)
  have "due M i ?s = due M i s" using assms(2) taken(2) [OF lease] by (simp add: due_def)
  moreover have "running_on i ?s \<le> P"
    using taken(3) [OF lease, of P] inv(3) inv(5) [OF assms(2)] taken(2) [OF lease]
    by (cases "iv_share_id iv = i") (simp_all add: running_on_def filter_map comp_def)
  ultimately show ?thesis using inv(1,4) taken(1) [OF lease] by (simp add: gate_inv_def leases_ok_def)
qed

text \<open>What a request records is taken from what it may still record.\<close>

lemma gate_inv_record:
  assumes "gate_inv M Q i L P s" and "(g, u) \<in> set (ss_running s)" and "u + t \<le> M"
    and "metered (ss_store s) store' (sg_share_id g) t"
  shows "gate_inv M Q i L P (s\<lparr>ss_store := store', ss_running := (g, u + t) # remove1 (g, u) (ss_running s)\<rparr>)"
proof -
  note inv = gate_invD [OF assms(1)]
  let ?s = "s\<lparr>ss_store := store', ss_running := (g, u + t) # remove1 (g, u) (ss_running s)\<rparr>"
  have "due M i ?s + (if i = sg_share_id g then t else 0) \<le> due M i s"
    using assms(3) by (simp add: due_def owed_remove [OF assms(2)])
  from total_ok_metered [OF inv(1) assms(4) this] have "total_ok M Q i L P store' (due M i ?s)" .
  moreover have "running_on i ?s = running_on i s" by (simp add: running_on_def filter_remove [OF assms(2)])
  ultimately show ?thesis using assms(1) lease_inv_swap [OF assms(2), of "ss_counts s"]
    by (simp add: gate_inv_def leases_ok_def)
qed

lemma gate_inv_drop:
  assumes "gate_inv M Q i L P s" and "(g, u) \<in> set (ss_running s)"
  defines "dropped \<equiv> s\<lparr>ss_counts := release_share (ss_counts s) (sg_share_id g) (sg_user_key g),
      ss_running := remove1 (g, u) (ss_running s)\<rparr>"
  shows "gate_inv M Q i L P dropped"
    and "length (ss_late s) < Q \<Longrightarrow> gate_inv M Q i L P (dropped\<lparr>ss_late := (sg_share_id g, u) # ss_late s\<rparr>)"
proof -
  note inv = gate_invD [OF assms(1)]
  have lease: "leases_ok dropped" using leases_drop [OF _ assms(2)] inv(2) by (simp add: leases_ok_def dropped_def)
  have running: "running_on i dropped \<le> P" using inv(3) by (simp add: running_on_def dropped_def filter_remove [OF assms(2)])
  have due: "due M i dropped \<le> due M i s" "due M i (dropped\<lparr>ss_late := (sg_share_id g, u) # ss_late s\<rparr>) \<le> due M i s"
    by (simp_all add: due_def dropped_def owed_remove [OF assms(2)])
  have "total_ok M Q i L P (ss_store s) d" if "d \<le> due M i s" for d
    using total_ok_metered [OF inv(1) metered_refl [of _ i 0]] that by simp
  note ok = this [OF due(1)] this [OF due(2)]
  show "gate_inv M Q i L P dropped"
    using assms(1) lease running ok(1) by (simp add: gate_inv_def dropped_def)
  show "gate_inv M Q i L P (dropped\<lparr>ss_late := (sg_share_id g, u) # ss_late s\<rparr>)" if "length (ss_late s) < Q"
    using assms(1) lease running ok(2) that by (simp add: gate_inv_def dropped_def leases_ok_def running_on_def)
qed

lemma gate_inv_late:
  assumes "gate_inv M Q i L P s" and "(j, u) \<in> set (ss_late s)" and "u + t \<le> M" and "metered (ss_store s) store' j t"
  shows "gate_inv M Q i L P (s\<lparr>ss_store := store', ss_late := remove1 (j, u) (ss_late s)\<rparr>)"
proof -
  let ?s = "s\<lparr>ss_store := store', ss_late := remove1 (j, u) (ss_late s)\<rparr>"
  have "due M i ?s + (if i = j then t else 0) \<le> due M i s"
    using assms(3) by (auto simp: due_def owed_remove [OF assms(2)])
  from total_ok_metered [OF gate_invD(1) [OF assms(1)] assms(4) this] have "total_ok M Q i L P store' (due M i ?s)" .
  then show ?thesis using assms(1)
    by (auto simp: gate_inv_def leases_ok_def running_on_def length_remove1)
qed

lemma gate_inv_waiting: "gate_inv M Q i L P s \<Longrightarrow> gate_inv M Q i L P (s\<lparr>ss_waiting := w\<rparr>)"
  by (simp add: gate_inv_def due_def leases_ok_def running_on_def)

lemma serve_step_inv:
  assumes "gate_inv M Q i L P s" and "serve_step cal json M Q s s'"
  shows "gate_inv M Q i L P s'"
  using assms(2,1)
proof (cases rule: serve_step.cases)
  case (enter a supported reset)
  with gate_inv_desk [OF gate_inv_waiting [OF assms(1)], of "Entered a reset" "remove1 a (ss_waiting s)"] show ?thesis by simp
next
  case (rejected a reset store' e)
  then have "quiet (ss_store s) store'" using validate_quiet [of "ss_store s"] by (metis fst_conv)
  with rejected gate_inv_desk [OF gate_inv_store [OF assms(1), of store'], of Free] show ?thesis by simp
next
  case (busy iv m e)
  with leases_refused [of "ss_counts s" iv m e] gate_inv_desk [OF assms(1), of Free] show ?thesis by simp
next
  case (validated a reset degraded usage store' iv)
  with gate_inv_admit [OF assms(1)] show ?thesis by simp
next
  case (unavailable a reset degraded usage e)
  with gate_inv_desk [OF assms(1), of Free] show ?thesis by simp
qed (simp_all add: assms(1) gate_inv_waiting gate_inv_store gate_inv_lease gate_inv_record gate_inv_drop gate_inv_late managed_quiet
    record_result_metered record_supplement_metered)

definition gate_start :: "string \<Rightarrow> nat \<Rightarrow> nat \<Rightarrow> ShareServer \<Rightarrow> bool" where
  "gate_start i L P s \<longleftrightarrow> (\<exists>store share. s = at_rest store \<and> get_share store i = Some share \<and> sh_token_limit share = Some L \<and>
     sh_parallel_limit share = Some P \<and> sh_tokens_used share < L)"

lemma gate_start_inv: "gate_start i L P s \<Longrightarrow> gate_inv M Q i L P s"
  using share_leases.start_inv [OF refl]
  by (auto simp: gate_start_def gate_inv_def total_ok_def at_rest_def due_def leases_ok_def running_on_def)

interpretation gate: transition_system "gate_start i L P" "serve_step cal json M Q" "gate_inv M Q i L P" for cal json M Q i L P
  by unfold_locales (fact gate_start_inv, fact serve_step_inv)

subsection \<open>Rejections\<close>

text \<open>Every rejection that leaves the gate: its text, and when it carries the numbers of a limit.\<close>

definition well_told :: "ShareInvocationRejection \<Rightarrow> bool" where
  "well_told r \<longleftrightarrow> plain_text (rj_message r) \<and> (rejection_scope (rj_reason r) = None \<longleftrightarrow> rj_concurrency r = None)"

lemma reject_told: "rejection_scope reason = None \<Longrightarrow> plain_text m \<Longrightarrow> well_told (reject reason m c)"
  by (simp add: well_told_def reject_def)

lemma check_grant_told: "check_grant cal share app now g = Err r \<Longrightarrow> well_told r"
  by (auto simp: check_grant_def check_def rbind_def plain_text_def rejection_scope_def intro!: reject_told split: if_splits)

lemma validate_told:
  assumes "snd (validate_for_invocation cal store j app email now) = Err r"
  shows "well_told r"
proof -
  have "well_told r" if "check_user cal share app email now = Err r" for share
    using that by (auto simp: check_user_def Let_def check_def rbind_def plain_text_def rejection_scope_def intro!: reject_told
        dest: check_grant_told split: if_splits option.splits sum.splits)
  then have "well_told r" if "snd (validate_share cal share app email now) = Err r" for share
    using that by (auto simp: validate_share_def plain_text_def rejection_scope_def intro!: reject_told split: if_splits)
  with assms show ?thesis
    by (auto simp: validate_for_invocation_def plain_text_def rejection_scope_def case_prod_beta Let_def intro!: reject_told
        split: option.splits)
qed

lemma gates_told:
  "value_gate f a store j email = Err r \<Longrightarrow> well_told r" "router_gate b store j email = Err r \<Longrightarrow> well_told r"
  "ledger_gate d usage reset store j email = Err r \<Longrightarrow> well_told r"
  by (auto simp: value_gate_def router_gate_def ledger_gate_def Let_def check_def rbind_def plain_text_def rejection_scope_def
      intro!: reject_told split: if_splits)

lemma lease_told: "well_told (lease_rejection e)"
  by (cases e) (simp_all add: well_told_def plain_text_def rejection_scope_def)

lemma acquire_told: "snd (acquire_invocation m iv) = Err r \<Longrightarrow> well_told r"
  using lease_told by (auto simp: acquire_invocation_def map_err_def split: sum.splits)

lemma told_plain_answer:
  assumes "well_told r" and "rj_concurrency r = None" and "rj_reason r \<noteq> UserIdentityRequired"
  shows "plain_text (formatted_message r)" "rj_reason r \<noteq> QuotaUnavailable \<Longrightarrow> rejection_status (rj_reason r) \<in> {400, 401, 403, 404, 409}"
  using assms by (auto simp: well_told_def plain_text_def formatted_message_def) (cases "rj_reason r"; simp)

lemma told_reaches_client:
  assumes "well_told r" and "\<And>c. rj_concurrency r = Some c \<Longrightarrow> cl_current c \<le> u32_max \<and> cl_limit c \<le> u32_max"
  shows "\<exists>e. share_rejection_to_proxy_error r = Some e \<and>
    client_message e = (if rj_concurrency r = None \<and> rj_reason r \<noteq> UserIdentityRequired then formatted_message r else rj_message r) \<and>
    map_option (\<lambda>m. \<lparr>cl_current = cm_current m, cl_limit = cm_limit m\<rparr>) (concurrency_metadata e) = rj_concurrency r \<and>
    retry_after_seconds e = None \<and> (rj_reason r \<noteq> QuotaUnavailable \<longrightarrow> \<not> retryable e)"
proof (cases "rj_concurrency r")
  case (Some c)
  with assms(1) obtain scope where scope: "rejection_scope (rj_reason r) = Some scope" by (auto simp: well_told_def)
  have "plain_text (rj_message r)" "cl_current c \<le> u32_max" "cl_limit c \<le> u32_max"
    using assms Some by (auto simp: well_told_def)
  then show ?thesis using concurrency_client [of "cl_current c" "cl_limit c" "rj_message r" scope]
    by (simp add: share_rejection_to_proxy_error_def Some scope)
next
  case None
  show ?thesis
  proof (cases "rj_reason r = UserIdentityRequired")
    case True
    have "plain_text (rj_message r)" using assms(1) by (simp add: well_told_def)
    with identity_client [of "rj_message r"] show ?thesis by (simp add: share_rejection_to_proxy_error_def None True)
  next
    case False
    note told = told_plain_answer [OF assms(1) None False]
    from told(2) plain_not_busy [OF told(1), of "rejection_status (rj_reason r)"] plain_client [OF told(1)]
    show ?thesis by (simp add: share_rejection_to_proxy_error_def None False)
  qed
qed

subsection \<open>The bound is attained\<close>

text \<open>
  A share for one request at a time, one token below its limit. While a first request runs, a
  second is validated; the first then records its tokens, which close the share, and drops its
  guard; the second still gets the lease and records as much again.
\<close>

definition demo_free :: "nat \<Rightarrow> nat \<Rightarrow> bool \<Rightarrow> Share" where
  "demo_free used requests open_now = demo_share\<lparr>sh_free_access := True, sh_token_limit := Some 100, sh_parallel_limit := Some 1,
     sh_tokens_used := used, sh_requests_count := requests, sh_enabled := open_now,
     sh_status := if open_now then ''active'' else ''exhausted''\<rparr>"

definition demo_arrival :: Arrival where
  "demo_arrival = \<lparr>av_share_id = ''s'', av_app = Codex, av_user_email = Some ''u@x.y'', av_now_ms = 0\<rparr>"

definition demo_invocation :: ShareInvocation where
  "demo_invocation = \<lparr>iv_share_id = ''s'', iv_share_name = ''s'', iv_parallel_limit = Some 1, iv_user_email = Some ''u@x.y'',
     iv_user_parallel_limit = None\<rparr>"

definition demo_lease :: counts where
  "demo_lease = [(''s'', 1), (user_key_of ''s'' ''u@x.y'', 1)]"

definition demo_holder :: ShareInFlightGuard where
  "demo_holder = \<lparr>sg_share_id = ''s'', sg_user_key = Some (user_key_of ''s'' ''u@x.y'')\<rparr>"

definition demo_spend :: TokenUsage where
  "demo_spend = \<lparr>tu_input_tokens = Some 20, tu_output_tokens = Some 30, tu_total_tokens = None\<rparr>"

lemma demo_spend_tokens: "share_usage_tokens demo_spend = 50"
  by (simp add: share_usage_tokens_def demo_spend_def saturating_add_u64_def u64_max_def)

lemma demo_free_get [simp]: "get_share [demo_free n r b] ''s'' = Some (demo_free n r b)"
  by (simp add: get_share_def demo_free_def demo_share_def)

lemma demo_free_validates:
  "validate_for_invocation cal [demo_free 99 r True] ''s'' Codex (Some ''u@x.y'') 0 = ([demo_free 99 r True], Ok demo_invocation)"
proof -
  have "active_grant (demo_free 99 r True) (Some ''u@x.y'') = None" by (simp add: active_grant_def demo_free_def demo_share_def)
  then have "check_user cal (demo_free 99 r True) Codex (Some ''u@x.y'') 0 = Ok demo_invocation"
    by (simp add: check_user_def demo_normalized Let_def demo_free_def demo_share_def demo_invocation_def check_def)
  then have "validate_share cal (demo_free 99 r True) Codex (Some ''u@x.y'') 0 = (demo_free 99 r True, Ok demo_invocation)"
    by (simp add: validate_share_def share_app_api_enabled_def share_enabled_apps_def share_bound_apps_def demo_free_def
        demo_share_def expired_opt_def limit_reached_def)
  then show ?thesis using validate_store [OF demo_free_get] shares.put_same [OF demo_free_get] by simp
qed

lemma demo_acquires: "acquire_invocation [] demo_invocation = (demo_lease, Ok demo_holder)"
  by (simp add: acquire_invocation_def demo_invocation_def demo_lease_def demo_holder_def try_acquire_for_user_def count_of_def
      reached_def Let_def bump_def saturating_add_u32_def u32_max_def user_key_of_def bt_get_Cons map_err_def)

lemma demo_releases: "release_share demo_lease (sg_share_id demo_holder) (sg_user_key demo_holder) = []"
  by (simp add: release_share_def demo_lease_def demo_holder_def drop_one_def bt_get_Cons bt_remove_def user_key_of_def)

lemma demo_records:
  "proxy_record_invocation_result cal json 0 empty_store [demo_free n r b] (Some ''s'') (Some ''u@x.y'') None demo_spend =
   [demo_free (n + 50) (Suc r) False]" if "50 \<le> n" "n \<le> 1000" "r \<le> 1000"
proof -
  have "record_share cal (Some ''u@x.y'') 50 0 True 0 (demo_free n r b) = demo_free (n + 50) (Suc r) False"
    using that by (simp add: record_share_def record_total_def close_share_def limit_reached_def demo_normalized demo_free_def
        demo_share_def saturating_add_u64_def u64_max_def Let_def)
  moreover have "put_share ''s'' (demo_free k q c) [demo_free n r b] = [demo_free k q c]"
    "sh_user_grants (demo_free k q c) = []" "(demo_free k q c)\<lparr>sh_user_grants := []\<rparr> = demo_free k q c" for k q c
    by (simp_all add: demo_free_def demo_share_def)
  moreover have "put_share ''s'' (demo_free k q c) [demo_free k q c] = [demo_free k q c]" for k q c
    by (rule shares.put_same) simp
  ultimately show ?thesis
    by (simp add: proxy_record_invocation_result_def record_share_invocation_result_def record_user_invocation_result_def
        record_user_usage_def mutate_share_def rebuild_user_anchored_usage_def rebuild_grants_def started_i64_def
        demo_spend_tokens Let_def)
qed

definition demo_server :: "Share \<Rightarrow> counts \<Rightarrow> Desk \<Rightarrow> (ShareInFlightGuard \<times> nat) list \<Rightarrow> ShareServer" where
  "demo_server share m d rs = \<lparr>ss_store = [share], ss_counts = m, ss_waiting = [], ss_desk = d, ss_running = rs, ss_late = []\<rparr>"

lemma demo_gates:
  "value_gate False True [demo_free n r b] ''s'' (Some ''u@x.y'') = Ok ()"
  "router_gate True [demo_free n r b] ''s'' (Some ''u@x.y'') = Ok False"
  "ledger_gate False empty_store False [demo_free n r b] ''s'' (Some ''u@x.y'') = Ok ()"
proof -
  have "gate_grant [demo_free n r b] ''s'' (Some ''u@x.y'') = None" by (simp add: gate_grant_def) (simp add: demo_free_def demo_share_def)
  then show "value_gate False True [demo_free n r b] ''s'' (Some ''u@x.y'') = Ok ()"
    "router_gate True [demo_free n r b] ''s'' (Some ''u@x.y'') = Ok False"
    "ledger_gate False empty_store False [demo_free n r b] ''s'' (Some ''u@x.y'') = Ok ()"
    by (simp_all add: value_gate_def router_gate_def ledger_gate_def uses_account_reset_def grant_and_def check_def)
qed

lemma demo_admits:
  "(serve_step cal json 50 0)\<^sup>*\<^sup>* (demo_server (demo_free 99 r True) m Free rs)
     (demo_server (demo_free 99 r True) m (Admitted demo_invocation) rs)"
proof -
  let ?s = "demo_server (demo_free 99 r True) m Free rs"
  let ?w = "?s\<lparr>ss_waiting := [demo_arrival]\<rparr>" and ?e = "?s\<lparr>ss_desk := Entered demo_arrival False\<rparr>"
  have a: "serve_step cal json 50 0 ?s ?w"
    using serve_step.arrive [of False True ?s demo_arrival] demo_gates(1) by (simp add: demo_server_def demo_arrival_def)
  have "serve_step cal json 50 0 ?w (?w\<lparr>ss_waiting := remove1 demo_arrival [demo_arrival], ss_desk := Entered demo_arrival False\<rparr>)"
    using serve_step.enter [of demo_arrival ?w True False] demo_gates(2) by (simp add: demo_server_def demo_arrival_def)
  then have b: "serve_step cal json 50 0 ?w ?e" by (simp add: demo_server_def)
  have c: "serve_step cal json 50 0 ?e (demo_server (demo_free 99 r True) m (Admitted demo_invocation) rs)"
    using serve_step.validated [of ?e demo_arrival False False empty_store cal "[demo_free 99 r True]" demo_invocation]
      demo_gates(3) demo_free_validates by (simp add: demo_server_def demo_arrival_def)
  show ?thesis by (rule converse_rtranclp_into_rtranclp [OF a converse_rtranclp_into_rtranclp [OF b r_into_rtranclp [of "serve_step cal json 50 0", OF c]]])
qed

lemma demo_leases:
  "serve_step cal json 50 0 (demo_server share [] (Admitted demo_invocation) []) (demo_server share demo_lease Free [(demo_holder, 0)])"
  using serve_step.leased [of "demo_server share [] (Admitted demo_invocation) []" demo_invocation demo_lease demo_holder] demo_acquires
  by (simp add: demo_server_def u32_max_def)

lemma demo_results:
  "serve_step cal json 50 0 (demo_server (demo_free n r b) m d [(demo_holder, 0)])
     (demo_server (demo_free (n + 50) (Suc r) False) m d [(demo_holder, 50)])" if "50 \<le> n" "n \<le> 1000" "r \<le> 1000"
  using serve_step.result [of demo_holder 0 "demo_server (demo_free n r b) m d [(demo_holder, 0)]" demo_spend 50 cal json 0 0
      empty_store "Some ''u@x.y''" None] demo_records [OF that, of cal json b]
  by (simp add: demo_server_def demo_spend_tokens demo_holder_def)

lemma demo_drops: "serve_step cal json 50 0 (demo_server share demo_lease d [(demo_holder, u)]) (demo_server share [] d [])"
  using serve_step.dropped [of demo_holder u "demo_server share demo_lease d [(demo_holder, u)]"] demo_releases
  by (simp add: demo_server_def)

lemma overshoot_attained:
  "(serve_step cal json 50 0)\<^sup>*\<^sup>* (at_rest [demo_free 99 0 True]) (demo_server (demo_free 199 2 False) demo_lease Free [(demo_holder, 50)])"
proof -
  have start: "at_rest [demo_free 99 0 True] = demo_server (demo_free 99 0 True) [] Free []"
    by (simp add: at_rest_def demo_server_def)
  note demo_admits [of cal json 0 "[]" "[]"]
  also note r_into_rtranclp [of "serve_step cal json 50 0", OF demo_leases]
  also note demo_admits
  also note r_into_rtranclp [of "serve_step cal json 50 0", OF demo_results]
  also note r_into_rtranclp [of "serve_step cal json 50 0", OF demo_drops]
  also note r_into_rtranclp [of "serve_step cal json 50 0", OF demo_leases]
  also note r_into_rtranclp [of "serve_step cal json 50 0", OF demo_results]
  finally show ?thesis by (simp add: start numeral_2_eq_2)
qed

end
