(* ===== verification/Resident_Memory.thy ===== *)
theory Resident_Memory
  imports Proxy_Error
begin

section \<open>Memory budgets\<close>

text \<open>
  Model of \<open>src/src/infra/resident_memory.rs\<close>, the budget of the process, and of
  \<open>src/src/proxy/request_memory.rs\<close>, the budgets of the requests under it. Both count logical bytes:
  an owner takes bytes before it allocates and gives them back when it is dropped. A budget is a
  mutex around its counters; a request's budget holds its own mutex while it asks the process, so
  an operation on a request's budget changes both as one step. \<open>usize\<close> has 64 bits.
\<close>

subsection \<open>The process\<close>

record ResidentMemorySnapshot =
  rm_limit_bytes :: "nat option"
  rm_used_bytes :: nat
  rm_high_water_bytes :: nat
  rm_active_reservations :: nat
  rm_rejections :: nat

definition new_process_budget :: "nat option \<Rightarrow> ResidentMemorySnapshot" where
  "new_process_budget limit_bytes = \<lparr>rm_limit_bytes = limit_bytes, rm_used_bytes = 0, rm_high_water_bytes = 0,
     rm_active_reservations = 0, rm_rejections = 0\<rparr>"

text \<open>The limit that the environment variable gives, \<open>None\<close> when it is unset, invalid or zero.\<close>

definition configured_limit :: "string option \<Rightarrow> nat option" where
  "configured_limit var = (case Option.bind var parse_u64 of
     None \<Rightarrow> None
   | Some megabytes \<Rightarrow> if megabytes = 0 then None else checked_unsigned u64_max (megabytes * (1024 * 1024)))"

definition configure_limit :: "nat option \<Rightarrow> ResidentMemorySnapshot \<Rightarrow> ResidentMemorySnapshot" where
  "configure_limit limit_bytes p = p\<lparr>rm_limit_bytes := limit_bytes\<rparr>"

definition process_remaining_bytes :: "ResidentMemorySnapshot \<Rightarrow> nat" where
  "process_remaining_bytes p = (case rm_limit_bytes p of None \<Rightarrow> u64_max | Some l \<Rightarrow> l) - rm_used_bytes p"

definition within_limit :: "nat option \<Rightarrow> nat \<Rightarrow> bool" where
  "within_limit limit n = (case limit of None \<Rightarrow> True | Some l \<Rightarrow> n \<le> l)"

definition try_resize :: "ResidentMemorySnapshot \<Rightarrow> nat \<Rightarrow> nat \<Rightarrow> ResidentMemorySnapshot \<times> bool" where
  "try_resize p current next' =
     (if next' > current then
        (case checked_add_u64 (rm_used_bytes p) (next' - current) of
           Some grown \<Rightarrow>
             if within_limit (rm_limit_bytes p) grown then
               (p\<lparr>rm_used_bytes := grown,
                  rm_active_reservations := (if current = 0 then saturating_add_u64 (rm_active_reservations p) 1
                                             else rm_active_reservations p),
                  rm_high_water_bytes := max (rm_high_water_bytes p) grown\<rparr>, True)
             else (p\<lparr>rm_rejections := saturating_add_u64 (rm_rejections p) 1\<rparr>, False)
         | None \<Rightarrow> (p\<lparr>rm_rejections := saturating_add_u64 (rm_rejections p) 1\<rparr>, False))
      else
        (p\<lparr>rm_used_bytes := rm_used_bytes p - (current - next'),
           rm_active_reservations := (if current > 0 \<and> next' = 0 then rm_active_reservations p - 1
                                      else rm_active_reservations p)\<rparr>, True))"

text \<open>An owner is the number of bytes it holds; dropping it gives them back.\<close>

definition reserve_owner :: "ResidentMemorySnapshot \<Rightarrow> nat \<Rightarrow> ResidentMemorySnapshot \<times> nat option" where
  "reserve_owner p bytes = (let (p', ok) = try_resize p 0 bytes in (p', if ok then Some bytes else None))"

definition drop_owner :: "ResidentMemorySnapshot \<Rightarrow> nat \<Rightarrow> ResidentMemorySnapshot" where
  "drop_owner p bytes = fst (try_resize p bytes 0)"

subsection \<open>A request\<close>

datatype RequestMemoryComponent = InboundRaw | DecodedBody | NormalizedBody | TransportPending | SemanticPrelude
  | StreamRetainedState | ToolArguments | NormalizedEvent | WebSocketReadQueue | WebSocketWriteQueue | ReasoningReplay
  | GroundingCitation

fun component_str :: "RequestMemoryComponent \<Rightarrow> string" where
  "component_str InboundRaw = ''inbound_raw''"
| "component_str DecodedBody = ''decoded_body''"
| "component_str NormalizedBody = ''normalized_body''"
| "component_str TransportPending = ''transport_pending''"
| "component_str SemanticPrelude = ''semantic_prelude''"
| "component_str StreamRetainedState = ''stream_retained_state''"
| "component_str ToolArguments = ''tool_arguments''"
| "component_str NormalizedEvent = ''normalized_event''"
| "component_str WebSocketReadQueue = ''websocket_read_queue''"
| "component_str WebSocketWriteQueue = ''websocket_write_queue''"
| "component_str ReasoningReplay = ''reasoning_replay''"
| "component_str GroundingCitation = ''grounding_citation''"

record RequestMemoryError =
  re_component :: RequestMemoryComponent
  re_requested_bytes :: nat
  re_used_bytes :: nat
  re_limit_bytes :: nat

definition into_proxy_error :: "RequestMemoryError \<Rightarrow> ProxyError" where
  "into_proxy_error e = request_memory_exhausted"

definition memory_error_str :: "RequestMemoryError \<Rightarrow> string" where
  "memory_error_str e = ''request memory budget exhausted for '' @ component_str (re_component e) @ '': requested '' @
     show_nat (re_requested_bytes e) @ '' bytes with '' @ show_nat (re_used_bytes e) @ ''/'' @ show_nat (re_limit_bytes e) @
     '' bytes resident''"

record RequestMemoryState =
  qm_limit_bytes :: nat
  qm_used_bytes :: nat
  qm_high_water_bytes :: nat
  qm_active_reservations :: nat
  qm_exhausted :: bool

definition new_request_budget :: "nat \<Rightarrow> RequestMemoryState" where
  "new_request_budget limit_bytes = \<lparr>qm_limit_bytes = max limit_bytes 1, qm_used_bytes = 0, qm_high_water_bytes = 0,
     qm_active_reservations = 0, qm_exhausted = False\<rparr>"

definition request_remaining_bytes :: "ResidentMemorySnapshot \<Rightarrow> RequestMemoryState \<Rightarrow> nat" where
  "request_remaining_bytes p b =
     (if qm_exhausted b then 0 else min (qm_limit_bytes b - qm_used_bytes b) (process_remaining_bytes p))"

text \<open>\<open>RequestMemoryBudget::reject\<close>: the caller gives up without asking for the bytes.\<close>

definition memory_reject ::
  "RequestMemoryState \<Rightarrow> RequestMemoryComponent \<Rightarrow> nat \<Rightarrow> RequestMemoryState \<times> RequestMemoryError" where
  "memory_reject b component requested_bytes =
     (b\<lparr>qm_exhausted := True\<rparr>,
      \<lparr>re_component = component, re_requested_bytes = max requested_bytes 1, re_used_bytes = qm_used_bytes b,
       re_limit_bytes = qm_limit_bytes b\<rparr>)"

definition resize_refused ::
  "RequestMemoryState \<Rightarrow> RequestMemoryComponent \<Rightarrow> nat \<Rightarrow> bool \<Rightarrow> RequestMemoryState \<times> (RequestMemoryError + unit)" where
  "resize_refused b component additional exhaust =
     (b\<lparr>qm_exhausted := qm_exhausted b \<or> exhaust\<rparr>,
      Err \<lparr>re_component = component, re_requested_bytes = additional, re_used_bytes = qm_used_bytes b,
           re_limit_bytes = qm_limit_bytes b\<rparr>)"

definition resize_inner ::
  "ResidentMemorySnapshot \<Rightarrow> RequestMemoryState \<Rightarrow> RequestMemoryComponent \<Rightarrow> nat \<Rightarrow> nat \<Rightarrow> bool \<Rightarrow>
   ResidentMemorySnapshot \<times> RequestMemoryState \<times> (RequestMemoryError + unit)" where
  "resize_inner p b component current next' exhaust_on_failure =
     (if next' \<le> current then
        (fst (try_resize p current next'),
         b\<lparr>qm_used_bytes := qm_used_bytes b - (current - next'),
           qm_active_reservations := (if current > 0 \<and> next' = 0 then qm_active_reservations b - 1
                                      else qm_active_reservations b)\<rparr>, Ok ())
      else
        let additional = next' - current in
        if qm_exhausted b \<or> additional > qm_limit_bytes b - qm_used_bytes b
        then (p, resize_refused b component additional exhaust_on_failure)
        else let (p', granted) = try_resize p current next' in
          if \<not> granted then (p', resize_refused b component additional exhaust_on_failure)
          else (p', b\<lparr>qm_active_reservations := (if current = 0 then saturating_add_u64 (qm_active_reservations b) 1
                                              else qm_active_reservations b),
                    qm_used_bytes := saturating_add_u64 (qm_used_bytes b) additional,
                    qm_high_water_bytes := max (qm_high_water_bytes b) (saturating_add_u64 (qm_used_bytes b) additional)\<rparr>,
                Ok ()))"

subsection \<open>Reservations\<close>

record Reservation =
  rv_component :: RequestMemoryComponent
  rv_bytes :: nat
  rv_released :: bool

definition resize_reservation ::
  "ResidentMemorySnapshot \<Rightarrow> RequestMemoryState \<Rightarrow> Reservation \<Rightarrow> nat \<Rightarrow>
   ResidentMemorySnapshot \<times> RequestMemoryState \<times> Reservation \<times> (RequestMemoryError + unit)" where
  "resize_reservation p b r bytes =
     (if rv_released r then (p, b, r, Ok ())
      else case resize_inner p b (rv_component r) (rv_bytes r) bytes True of
        (p', b', Err e) \<Rightarrow> (p', b', r, Err e)
      | (p', b', Ok _) \<Rightarrow> (p', b', r\<lparr>rv_bytes := bytes\<rparr>, Ok ()))"

text \<open>A new reservation whose first resize fails is dropped with no bytes, which does nothing.\<close>

definition memory_reserve ::
  "ResidentMemorySnapshot \<Rightarrow> RequestMemoryState \<Rightarrow> RequestMemoryComponent \<Rightarrow> nat \<Rightarrow>
   ResidentMemorySnapshot \<times> RequestMemoryState \<times> (RequestMemoryError + Reservation)" where
  "memory_reserve p b component bytes =
     (case resize_reservation p b \<lparr>rv_component = component, rv_bytes = 0, rv_released = False\<rparr> bytes of
        (p', b', r, Err e) \<Rightarrow> (p', b', Err e)
      | (p', b', r, Ok _) \<Rightarrow> (p', b', Ok r))"

definition reserve_observation_scratch ::
  "ResidentMemorySnapshot \<Rightarrow> RequestMemoryState \<Rightarrow> nat \<Rightarrow>
   ResidentMemorySnapshot \<times> RequestMemoryState \<times> Reservation option" where
  "reserve_observation_scratch p b bytes =
     (case resize_inner p b StreamRetainedState 0 bytes False of
        (p', b', Err e) \<Rightarrow> (p', b', None)
      | (p', b', Ok _) \<Rightarrow> (p', b', Some \<lparr>rv_component = StreamRetainedState, rv_bytes = bytes, rv_released = False\<rparr>))"

text \<open>Empty bytes are returned as they are, without a reservation.\<close>

definition retain_bytes ::
  "ResidentMemorySnapshot \<Rightarrow> RequestMemoryState \<Rightarrow> RequestMemoryComponent \<Rightarrow> string \<Rightarrow>
   ResidentMemorySnapshot \<times> RequestMemoryState \<times> (RequestMemoryError + Reservation option)" where
  "retain_bytes p b component bytes =
     (if bytes = [] then (p, b, Ok None)
      else case memory_reserve p b component (length bytes) of
        (p', b', Err e) \<Rightarrow> (p', b', Err e)
      | (p', b', Ok r) \<Rightarrow> (p', b', Ok (Some r)))"

definition release_reservation ::
  "ResidentMemorySnapshot \<Rightarrow> RequestMemoryState \<Rightarrow> Reservation \<Rightarrow>
   ResidentMemorySnapshot \<times> RequestMemoryState \<times> Reservation" where
  "release_reservation p b r =
     (if rv_released r then (p, b, r)
      else case resize_inner p b (rv_component r) (rv_bytes r) 0 True of
        (p', b', _) \<Rightarrow> (p', b', r\<lparr>rv_bytes := 0, rv_released := True\<rparr>))"

definition drop_reservation ::
  "ResidentMemorySnapshot \<Rightarrow> RequestMemoryState \<Rightarrow> Reservation \<Rightarrow> ResidentMemorySnapshot \<times> RequestMemoryState" where
  "drop_reservation p b r =
     (if rv_released r \<or> rv_bytes r = 0 then (p, b)
      else case resize_inner p b (rv_component r) (rv_bytes r) 0 True of (p', b', _) \<Rightarrow> (p', b'))"

end
