(* ===== verification/Resident_Memory_Props.thy ===== *)
theory Resident_Memory_Props
  imports Resident_Memory
begin

section \<open>Memory accounting\<close>

text \<open>
  All owners and requests of a process as one transition system: the counters of every budget are
  what its live owners hold, whatever is refused, resized, released twice or dropped.
\<close>

subsection \<open>The owners of a process\<close>

record MemoryServer =
  ms_process :: ResidentMemorySnapshot
  ms_owners :: "nat list"
  ms_requests :: "(RequestMemoryState \<times> Reservation list) list"

inductive memory_step :: "MemoryServer \<Rightarrow> MemoryServer \<Rightarrow> bool" where
  configured: "memory_step s (s\<lparr>ms_process := configure_limit l (ms_process s)\<rparr>)"
| owner_taken: "reserve_owner (ms_process s) n = (p, Some k) \<Longrightarrow>
    memory_step s (s\<lparr>ms_process := p, ms_owners := k # ms_owners s\<rparr>)"
| owner_refused: "reserve_owner (ms_process s) n = (p, None) \<Longrightarrow> memory_step s (s\<lparr>ms_process := p\<rparr>)"
| owner_dropped: "k \<in> set (ms_owners s) \<Longrightarrow>
    memory_step s (s\<lparr>ms_process := drop_owner (ms_process s) k, ms_owners := remove1 k (ms_owners s)\<rparr>)"
| opened: "memory_step s (s\<lparr>ms_requests := (new_request_budget l, []) # ms_requests s\<rparr>)"
| closed: "(b, []) \<in> set (ms_requests s) \<Longrightarrow> memory_step s (s\<lparr>ms_requests := remove1 (b, []) (ms_requests s)\<rparr>)"
| reserved: "i < length (ms_requests s) \<Longrightarrow> ms_requests s ! i = (b, rs) \<Longrightarrow>
    memory_reserve (ms_process s) b c n = (p, b', Ok r) \<Longrightarrow>
    memory_step s (s\<lparr>ms_process := p, ms_requests := (ms_requests s)[i := (b', r # rs)]\<rparr>)"
| refused: "i < length (ms_requests s) \<Longrightarrow> ms_requests s ! i = (b, rs) \<Longrightarrow>
    memory_reserve (ms_process s) b c n = (p, b', Err e) \<Longrightarrow>
    memory_step s (s\<lparr>ms_process := p, ms_requests := (ms_requests s)[i := (b', rs)]\<rparr>)"
| scratch: "i < length (ms_requests s) \<Longrightarrow> ms_requests s ! i = (b, rs) \<Longrightarrow>
    reserve_observation_scratch (ms_process s) b n = (p, b', r) \<Longrightarrow>
    memory_step s (s\<lparr>ms_process := p, ms_requests := (ms_requests s)[i := (b', (case r of None \<Rightarrow> [] | Some r \<Rightarrow> [r]) @ rs)]\<rparr>)"
| resized: "i < length (ms_requests s) \<Longrightarrow> ms_requests s ! i = (b, rs) \<Longrightarrow> r \<in> set rs \<Longrightarrow>
    resize_reservation (ms_process s) b r n = (p, b', r', result) \<Longrightarrow>
    memory_step s (s\<lparr>ms_process := p, ms_requests := (ms_requests s)[i := (b', r' # remove1 r rs)]\<rparr>)"
| released: "i < length (ms_requests s) \<Longrightarrow> ms_requests s ! i = (b, rs) \<Longrightarrow> r \<in> set rs \<Longrightarrow>
    release_reservation (ms_process s) b r = (p, b', r') \<Longrightarrow>
    memory_step s (s\<lparr>ms_process := p, ms_requests := (ms_requests s)[i := (b', r' # remove1 r rs)]\<rparr>)"
| dropped: "i < length (ms_requests s) \<Longrightarrow> ms_requests s ! i = (b, rs) \<Longrightarrow> r \<in> set rs \<Longrightarrow>
    drop_reservation (ms_process s) b r = (p, b') \<Longrightarrow>
    memory_step s (s\<lparr>ms_process := p, ms_requests := (ms_requests s)[i := (b', remove1 r rs)]\<rparr>)"
| rejected: "i < length (ms_requests s) \<Longrightarrow> ms_requests s ! i = (b, rs) \<Longrightarrow> memory_reject b c n = (b', e) \<Longrightarrow>
    memory_step s (s\<lparr>ms_requests := (ms_requests s)[i := (b', rs)]\<rparr>)"

definition fresh_memory :: "nat option \<Rightarrow> MemoryServer" where
  "fresh_memory limit = \<lparr>ms_process = new_process_budget limit, ms_owners = [], ms_requests = []\<rparr>"

subsection \<open>One resize\<close>

definition one_if :: "nat \<Rightarrow> nat" where
  "one_if n = (if n > 0 then 1 else 0)"

lemma one_if_simps [simp]: "one_if 0 = 0" "one_if n \<le> n" "n > 0 \<Longrightarrow> one_if n = 1"
  by (simp_all add: one_if_def)

text \<open>A resize from \<open>current\<close> to \<open>next'\<close> moves the two counters of a budget by the difference.\<close>

definition moved :: "nat \<Rightarrow> nat \<Rightarrow> nat \<times> nat \<Rightarrow> nat \<times> nat \<Rightarrow> bool" where
  "moved current next' u v \<longleftrightarrow> fst v + current = fst u + next' \<and> snd v + one_if current = snd u + one_if next'"

lemma moved_refl [simp]: "moved n n u u"
  by (simp add: moved_def)

definition process_counters :: "ResidentMemorySnapshot \<Rightarrow> nat \<times> nat" where
  "process_counters p = (rm_used_bytes p, rm_active_reservations p)"

definition request_counters :: "RequestMemoryState \<Rightarrow> nat \<times> nat" where
  "request_counters b = (qm_used_bytes b, qm_active_reservations b)"

text \<open>The counters of a budget are in order when each active reservation holds a byte.\<close>

definition holds :: "nat \<times> nat \<Rightarrow> nat \<Rightarrow> bool" where
  "holds u current \<longleftrightarrow> current \<le> fst u \<and> snd u \<le> fst u \<and> fst u \<le> u64_max \<and> one_if current \<le> snd u \<and>
     snd u - one_if current \<le> fst u - current"

lemma try_resize_moves:
  assumes "try_resize p current next' = (p', ok)" and "holds (process_counters p) current"
  shows "if ok then moved current next' (process_counters p) (process_counters p') else process_counters p' = process_counters p"
    and "rm_limit_bytes p' = rm_limit_bytes p"
    and "next' \<le> current \<Longrightarrow> ok" and "fst (process_counters p') \<le> u64_max"
    and "current < next' \<Longrightarrow> ok \<Longrightarrow> within_limit (rm_limit_bytes p) (rm_used_bytes p')"
  using assms
  by (auto simp: try_resize_def moved_def process_counters_def holds_def one_if_def saturating_add_u64_def
      split: if_splits option.splits)

lemma resize_inner_cases:
  assumes "resize_inner p b c current next' ex = (p', b', result)" and "try_resize p current next' = (q, ok)"
  obtains (shrunk) "next' \<le> current" "p' = q" "result = Ok ()" "qm_used_bytes b' = qm_used_bytes b - (current - next')"
      "qm_active_reservations b' = qm_active_reservations b - (if current > 0 \<and> next' = 0 then 1 else 0)"
      "qm_limit_bytes b' = qm_limit_bytes b"
    | (refused) "current < next'" "p' = p \<or> p' = q \<and> \<not> ok" "result \<noteq> Ok ()" "request_counters b' = request_counters b"
      "qm_limit_bytes b' = qm_limit_bytes b"
    | (grown) "current < next'" "p' = q" "ok" "result = Ok ()" "next' - current \<le> qm_limit_bytes b - qm_used_bytes b"
      "qm_used_bytes b' = saturating_add_u64 (qm_used_bytes b) (next' - current)"
      "qm_active_reservations b' = saturating_add_u64 (qm_active_reservations b) (if current = 0 then 1 else 0) \<or>
        current \<noteq> 0 \<and> qm_active_reservations b' = qm_active_reservations b"
      "qm_limit_bytes b' = qm_limit_bytes b"
proof (cases "next' \<le> current")
  case True
  with assms shrunk show ?thesis by (auto simp: resize_inner_def)
next
  case False
  show ?thesis
  proof (cases "qm_exhausted b \<or> next' - current > qm_limit_bytes b - qm_used_bytes b \<or> \<not> ok")
    case True
    with False assms refused show ?thesis
      by (auto simp: resize_inner_def resize_refused_def request_counters_def Let_def split: if_splits)
  next
    case granted: False
    with False assms grown show ?thesis by (auto simp: resize_inner_def Let_def not_le not_less split: if_splits)
  qed
qed

lemma resize_inner_moves:
  assumes "resize_inner p b c current next' ex = (p', b', result)" and "holds (process_counters p) current"
    and "holds (request_counters b) current" and "qm_used_bytes b \<le> rm_used_bytes p" and "qm_used_bytes b \<le> qm_limit_bytes b"
  shows "if result = Ok () then moved current next' (process_counters p) (process_counters p') \<and>
      moved current next' (request_counters b) (request_counters b')
    else process_counters p' = process_counters p \<and> request_counters b' = request_counters b"
    and "rm_limit_bytes p' = rm_limit_bytes p" and "qm_limit_bytes b' = qm_limit_bytes b" and "qm_used_bytes b' \<le> qm_limit_bytes b'"
    and "next' \<le> current \<Longrightarrow> result = Ok ()"
    and "rm_used_bytes p < rm_used_bytes p' \<Longrightarrow> within_limit (rm_limit_bytes p) (rm_used_bytes p')"
    and "rm_used_bytes p' \<le> u64_max"
proof -
  obtain q ok where t: "try_resize p current next' = (q, ok)" by (cases "try_resize p current next'")
  note moves = try_resize_moves [OF t assms(2)]
  note defs = moved_def process_counters_def request_counters_def holds_def one_if_def saturating_add_u64_def
  show "if result = Ok () then moved current next' (process_counters p) (process_counters p') \<and>
      moved current next' (request_counters b) (request_counters b')
    else process_counters p' = process_counters p \<and> request_counters b' = request_counters b"
    by (cases rule: resize_inner_cases [OF assms(1) t]) (use assms(2-5) moves in \<open>auto simp: defs split: if_splits\<close>)
  show "rm_limit_bytes p' = rm_limit_bytes p" "qm_limit_bytes b' = qm_limit_bytes b"
    by (cases rule: resize_inner_cases [OF assms(1) t]; use moves(2) in auto)+
  show "qm_used_bytes b' \<le> qm_limit_bytes b'"
    by (cases rule: resize_inner_cases [OF assms(1) t]) (use assms(5) in \<open>auto simp: request_counters_def saturating_add_u64_def\<close>)
  show "next' \<le> current \<Longrightarrow> result = Ok ()" by (cases rule: resize_inner_cases [OF assms(1) t]) auto
  show "rm_used_bytes p < rm_used_bytes p' \<Longrightarrow> within_limit (rm_limit_bytes p) (rm_used_bytes p')"
    by (cases rule: resize_inner_cases [OF assms(1) t]) (use moves in \<open>auto simp: defs split: if_splits\<close>)
  show "rm_used_bytes p' \<le> u64_max"
    by (cases rule: resize_inner_cases [OF assms(1) t]) (use assms(2) moves(4) in \<open>auto simp: process_counters_def holds_def\<close>)
qed

subsection \<open>The invariant\<close>

definition charged :: "nat list \<Rightarrow> nat \<times> nat" where
  "charged ns = (sum_list ns, sum_list (map one_if ns))"

lemma charged_moves:
  "moved 0 n (charged ns) (charged (n # ns))" "n \<in> set ns \<Longrightarrow> moved n 0 (charged ns) (charged (remove1 n ns))"
  by (simp add: moved_def charged_def)
    (auto simp: moved_def charged_def sum_list_map_remove1 [of n ns one_if] sum_list_map_remove1 [of n ns id, simplified])

lemma moved_unique: "moved a c u v \<Longrightarrow> moved a c u w \<Longrightarrow> v = w"
  by (simp add: moved_def prod_eq_iff)

lemma moved_trans: "moved a b u v \<Longrightarrow> moved b c v w \<Longrightarrow> moved a c u w"
  by (simp add: moved_def)

lemma charged_le: "snd (charged ns) \<le> fst (charged ns)"
  unfolding charged_def by (induction ns) (auto intro: add_mono)

lemma charged_holds: "n \<in> set ns \<Longrightarrow> fst (charged ns) \<le> u64_max \<Longrightarrow> holds (charged ns) n"
  using charged_le [of ns] charged_le [of "remove1 n ns"] charged_moves(2) [of n ns] by (auto simp: holds_def moved_def)

definition request_ok :: "RequestMemoryState \<times> Reservation list \<Rightarrow> bool" where
  "request_ok x \<longleftrightarrow> request_counters (fst x) = charged (map rv_bytes (snd x)) \<and> qm_used_bytes (fst x) \<le> qm_limit_bytes (fst x) \<and>
     (\<forall>r \<in> set (snd x). rv_released r \<longrightarrow> rv_bytes r = 0)"

definition requests_total :: "(RequestMemoryState \<times> Reservation list) list \<Rightarrow> nat \<times> nat" where
  "requests_total qs = (sum_list (map (\<lambda>x. qm_used_bytes (fst x)) qs), sum_list (map (\<lambda>x. qm_active_reservations (fst x)) qs))"

definition memory_inv :: "MemoryServer \<Rightarrow> bool" where
  "memory_inv s \<longleftrightarrow> (\<forall>x \<in> set (ms_requests s). request_ok x) \<and> rm_used_bytes (ms_process s) \<le> u64_max \<and>
     rm_used_bytes (ms_process s) = fst (charged (ms_owners s)) + fst (requests_total (ms_requests s)) \<and>
     rm_active_reservations (ms_process s) = snd (charged (ms_owners s)) + snd (requests_total (ms_requests s))"

lemma sum_list_update:
  "i < length xs \<Longrightarrow> sum_list (map f (xs[i := y])) + f (xs ! i) = sum_list (map f xs) + (f y :: nat)"
  by (induction xs arbitrary: i) (auto simp: nth_Cons split: nat.splits)

lemma requests_total_update:
  "i < length qs \<Longrightarrow> moved a c (request_counters (fst (qs ! i))) (request_counters (fst y)) \<Longrightarrow>
   moved a c (requests_total qs) (requests_total (qs[i := y]))"
  using sum_list_update [of i qs "\<lambda>x. qm_used_bytes (fst x)" y] sum_list_update [of i qs "\<lambda>x. qm_active_reservations (fst x)" y]
  by (simp add: moved_def requests_total_def request_counters_def)

text \<open>The share of one request in the totals, and the totals without it.\<close>

lemma requests_part:
  assumes "\<forall>x \<in> set qs. request_ok x" and "i < length qs" and "qs ! i = (b, rs)"
  shows "qm_used_bytes b \<le> fst (requests_total qs)" "qm_active_reservations b \<le> snd (requests_total qs)"
    "snd (requests_total qs) - qm_active_reservations b \<le> fst (requests_total qs) - qm_used_bytes b"
proof -
  let ?none = "(b\<lparr>qm_used_bytes := 0, qm_active_reservations := 0\<rparr>, []) :: RequestMemoryState \<times> Reservation list"
  have rest: "sum_list (map (\<lambda>x. qm_active_reservations (fst x)) qs) \<le> sum_list (map (\<lambda>x. qm_used_bytes (fst x)) qs)"
    if "\<forall>x \<in> set qs. request_ok x" for qs
    using that by (intro sum_list_mono) (metis charged_le fst_conv request_counters_def request_ok_def snd_conv)
  have "request_ok ?none" by (simp add: request_ok_def request_counters_def charged_def)
  with assms(1) have "\<forall>x \<in> set (qs[i := ?none]). request_ok x" by (auto dest!: subsetD [OF set_update_subset_insert])
  from rest [OF this] sum_list_update [OF assms(2), of "\<lambda>x. qm_used_bytes (fst x)" ?none]
    sum_list_update [OF assms(2), of "\<lambda>x. qm_active_reservations (fst x)" ?none] assms(3)
  show "qm_used_bytes b \<le> fst (requests_total qs)" "qm_active_reservations b \<le> snd (requests_total qs)"
    "snd (requests_total qs) - qm_active_reservations b \<le> fst (requests_total qs) - qm_used_bytes b"
    by (auto simp: requests_total_def)
qed

lemma memory_holds:
  assumes "memory_inv s" and "i < length (ms_requests s)" and "ms_requests s ! i = (b, rs)"
  shows "request_ok (b, rs)" "qm_used_bytes b \<le> rm_used_bytes (ms_process s)"
    "n \<in> set (0 # map rv_bytes rs) \<Longrightarrow> holds (process_counters (ms_process s)) n"
    "n \<in> set (0 # map rv_bytes rs) \<Longrightarrow> holds (request_counters b) n"
proof -
  let ?p = "ms_process s"
  note part = requests_part [OF _ assms(2,3)]
  show ok: "request_ok (b, rs)" using assms nth_mem [OF assms(2)] by (auto simp: memory_inv_def)
  show used: "qm_used_bytes b \<le> rm_used_bytes ?p" using part(1) assms(1) by (simp add: memory_inv_def)
  have c: "request_counters b = charged (map rv_bytes rs)" using ok by (simp add: request_ok_def)
  then have "fst (charged (map rv_bytes rs)) = qm_used_bytes b" by (metis fst_conv request_counters_def)
  with used assms(1) have "fst (charged (map rv_bytes rs)) \<le> u64_max" by (simp add: memory_inv_def)
  then show b: "holds (request_counters b) n" if "n \<in> set (0 # map rv_bytes rs)" for n
    using that charged_holds [of n "map rv_bytes rs"] charged_le [of "map rv_bytes rs"] by (auto simp: holds_def c)
  show "holds (process_counters ?p) n" if "n \<in> set (0 # map rv_bytes rs)" for n
    using b [OF that] part assms(1) charged_le [of "ms_owners s"]
    by (auto simp: holds_def request_counters_def process_counters_def memory_inv_def)
qed

text \<open>What a resize does to one request and to the process keeps the books.\<close>

lemma memory_inv_request:
  assumes "memory_inv s" and "i < length (ms_requests s)" and "ms_requests s ! i = (b, rs)"
    and "moved a c (process_counters (ms_process s)) (process_counters p)"
    and "moved a c (request_counters b) (request_counters b')"
    and "moved a c (charged (map rv_bytes rs)) (charged (map rv_bytes rs'))"
    and "qm_used_bytes b' \<le> qm_limit_bytes b'" and "\<forall>r \<in> set rs'. rv_released r \<longrightarrow> rv_bytes r = 0" and "rm_used_bytes p \<le> u64_max"
  shows "memory_inv (s\<lparr>ms_process := p, ms_requests := (ms_requests s)[i := (b', rs')]\<rparr>)"
proof -
  have "request_counters b = charged (map rv_bytes rs)" using memory_holds(1) [OF assms(1-3)] by (simp add: request_ok_def)
  with assms(5,6) have "request_counters b' = charged (map rv_bytes rs')" by (simp add: moved_unique)
  with assms(7,8) have "request_ok (b', rs')" by (simp add: request_ok_def)
  with assms(1) have "\<forall>x \<in> set ((ms_requests s)[i := (b', rs')]). request_ok x"
    by (auto simp: memory_inv_def dest!: subsetD [OF set_update_subset_insert])
  moreover have "moved a c (requests_total (ms_requests s)) (requests_total ((ms_requests s)[i := (b', rs')]))"
    using requests_total_update [OF assms(2), of a c "(b', rs')"] assms(3,5) by simp
  ultimately show ?thesis using assms(1,4,9) by (auto simp: memory_inv_def moved_def process_counters_def)
qed

definition keeps :: "MemoryServer \<Rightarrow> MemoryServer \<Rightarrow> bool" where
  "keeps s t \<longleftrightarrow> memory_inv t \<and>
     (rm_used_bytes (ms_process s) < rm_used_bytes (ms_process t) \<longrightarrow>
        within_limit (rm_limit_bytes (ms_process t)) (rm_used_bytes (ms_process t)))"

lemma keeps_resize:
  assumes "memory_inv s" and "i < length (ms_requests s)" and "ms_requests s ! i = (b, rs)"
    and "resize_inner (ms_process s) b c current next' ex = (p, b', result)" and "current \<in> set (0 # map rv_bytes rs)"
    and "result = Ok () \<Longrightarrow> moved current next' (charged (map rv_bytes rs)) (charged (map rv_bytes rs'))"
    and "result \<noteq> Ok () \<Longrightarrow> charged (map rv_bytes rs') = charged (map rv_bytes rs)"
    and "\<forall>r \<in> set rs'. rv_released r \<longrightarrow> rv_bytes r = 0"
  shows "keeps s (s\<lparr>ms_process := p, ms_requests := (ms_requests s)[i := (b', rs')]\<rparr>)"
proof -
  note held = memory_holds [OF assms(1-3)]
  have "qm_used_bytes b \<le> qm_limit_bytes b" using held(1) by (simp add: request_ok_def)
  note moves = resize_inner_moves [OF assms(4) held(3) [OF assms(5)] held(4) [OF assms(5)] held(2) this]
  have "memory_inv (s\<lparr>ms_process := p, ms_requests := (ms_requests s)[i := (b', rs')]\<rparr>)"
  proof (cases "result = Ok ()")
    case True
    with moves(1) assms(6) show ?thesis by (intro memory_inv_request [OF assms(1-3) _ _ _ moves(4) assms(8) moves(7)]) simp_all
  next
    case False
    with moves(1) assms(7) show ?thesis
      by (intro memory_inv_request [OF assms(1-3) _ _ _ moves(4) assms(8) moves(7), of 0 0]) simp_all
  qed
  with moves(2,6) show ?thesis by (simp add: keeps_def)
qed

lemma charged_reservations:
  assumes "r \<in> set rs"
  shows "moved (rv_bytes r) 0 (charged (map rv_bytes rs)) (charged (map rv_bytes (remove1 r rs)))"
    "moved (rv_bytes r) (rv_bytes r') (charged (map rv_bytes rs)) (charged (map rv_bytes (r' # remove1 r rs)))"
    "charged (map rv_bytes (r # remove1 r rs)) = charged (map rv_bytes rs)"
  using sum_list_map_remove1 [OF assms, of rv_bytes] sum_list_map_remove1 [OF assms, of "one_if \<circ> rv_bytes"]
  by (simp_all add: moved_def charged_def comp_def)

lemma request_ok_released: "request_ok (b, rs) \<Longrightarrow> r \<in> set rs \<Longrightarrow> rv_released r \<Longrightarrow> rv_bytes r = 0"
  by (simp add: request_ok_def)

lemma keeps_request_new:
  assumes "memory_inv s" and "i < length (ms_requests s)" and "ms_requests s ! i = (b, rs)"
  shows "memory_reserve (ms_process s) b c n = (p, b', Ok r) \<Longrightarrow>
      keeps s (s\<lparr>ms_process := p, ms_requests := (ms_requests s)[i := (b', r # rs)]\<rparr>)"
    and "memory_reserve (ms_process s) b c n = (p, b', Err e) \<Longrightarrow>
      keeps s (s\<lparr>ms_process := p, ms_requests := (ms_requests s)[i := (b', rs)]\<rparr>)"
    and "reserve_observation_scratch (ms_process s) b n = (p, b', q) \<Longrightarrow>
      keeps s (s\<lparr>ms_process := p, ms_requests := (ms_requests s)[i := (b', (case q of None \<Rightarrow> [] | Some r \<Rightarrow> [r]) @ rs)]\<rparr>)"
proof -
  have rel: "\<forall>r \<in> set rs. rv_released r \<longrightarrow> rv_bytes r = 0" using memory_holds(1) [OF assms] by (simp add: request_ok_def)
  note new = charged_moves(1) [of n "map rv_bytes rs"]
  note resize = keeps_resize [OF assms, where current = 0 and next' = n]
  show "keeps s (s\<lparr>ms_process := p, ms_requests := (ms_requests s)[i := (b', r # rs)]\<rparr>)"
    if "memory_reserve (ms_process s) b c n = (p, b', Ok r)"
    using that rel new by (auto simp: memory_reserve_def resize_reservation_def split: prod.splits sum.splits intro!: resize)
  show "keeps s (s\<lparr>ms_process := p, ms_requests := (ms_requests s)[i := (b', rs)]\<rparr>)"
    if "memory_reserve (ms_process s) b c n = (p, b', Err e)"
    using that rel by (auto simp: memory_reserve_def resize_reservation_def split: prod.splits sum.splits intro!: resize)
  show "keeps s (s\<lparr>ms_process := p, ms_requests := (ms_requests s)[i := (b', (case q of None \<Rightarrow> [] | Some r \<Rightarrow> [r]) @ rs)]\<rparr>)"
    if "reserve_observation_scratch (ms_process s) b n = (p, b', q)"
    using that rel new by (auto simp: reserve_observation_scratch_def split: prod.splits sum.splits intro!: resize)
qed

text \<open>A reservation of a request is one of its charges, and a step that changes no charge is harmless.\<close>

lemma keeps_same:
  assumes "memory_inv s" and "i < length (ms_requests s)" and "ms_requests s ! i = (b, rs)"
    and "charged (map rv_bytes rs') = charged (map rv_bytes rs)" and "\<forall>q \<in> set rs'. rv_released q \<longrightarrow> rv_bytes q = 0"
    and "p = ms_process s"
  shows "keeps s (s\<lparr>ms_process := p, ms_requests := (ms_requests s)[i := (b, rs')]\<rparr>)"
  using memory_inv_request [OF assms(1-3), of 0 0 p b rs'] assms(1,4-6) memory_holds(1) [OF assms(1-3)]
  by (simp add: keeps_def memory_inv_def request_ok_def)

lemma released_charges:
  assumes "memory_inv s" and "i < length (ms_requests s)" and "ms_requests s ! i = (b, rs)" and "r \<in> set rs"
  shows "rv_released r \<Longrightarrow> rv_bytes r = 0" "\<forall>q \<in> set (remove1 r rs). rv_released q \<longrightarrow> rv_bytes q = 0"
    "rv_bytes r \<in> set (0 # map rv_bytes rs)"
  using memory_holds(1) [OF assms(1-3)] assms(4) by (auto simp: request_ok_def dest: notin_set_remove1)

lemma resize_down: "resize_inner p b c current 0 ex = (p', b', result) \<Longrightarrow> result = Ok ()"
  by (auto simp: resize_inner_def)

lemma keeps_resized:
  assumes "memory_inv s" and "i < length (ms_requests s)" and "ms_requests s ! i = (b, rs)" and "r \<in> set rs"
    and "resize_reservation (ms_process s) b r n = (p, b', r', result)"
  shows "keeps s (s\<lparr>ms_process := p, ms_requests := (ms_requests s)[i := (b', r' # remove1 r rs)]\<rparr>)"
proof (cases "rv_released r")
  case True
  with keeps_same [OF assms(1-3) charged_reservations(3) [OF assms(4)], of p] released_charges [OF assms(1-4)] assms(5)
  show ?thesis by (auto simp: resize_reservation_def)
next
  case False
  then obtain outcome where inner: "resize_inner (ms_process s) b (rv_component r) (rv_bytes r) n True = (p, b', outcome)"
    and r': "r' = (if outcome = Ok () then r\<lparr>rv_bytes := n\<rparr> else r)"
    using assms(5) by (auto simp: resize_reservation_def split: prod.splits sum.splits)
  show ?thesis
  proof (rule keeps_resize [OF assms(1-3) inner released_charges(3) [OF assms(1-4)]])
    show "moved (rv_bytes r) n (charged (map rv_bytes rs)) (charged (map rv_bytes (r' # remove1 r rs)))" if "outcome = Ok ()"
      using charged_reservations(2) [OF assms(4), of r'] that r' by simp
    show "charged (map rv_bytes (r' # remove1 r rs)) = charged (map rv_bytes rs)" if "outcome \<noteq> Ok ()"
      using charged_reservations(3) [OF assms(4)] that r' by simp
    show "\<forall>q \<in> set (r' # remove1 r rs). rv_released q \<longrightarrow> rv_bytes q = 0"
      using released_charges(2) [OF assms(1-4)] False r' by simp
  qed
qed

lemma keeps_released:
  assumes "memory_inv s" and "i < length (ms_requests s)" and "ms_requests s ! i = (b, rs)" and "r \<in> set rs"
    and "release_reservation (ms_process s) b r = (p, b', r')"
  shows "keeps s (s\<lparr>ms_process := p, ms_requests := (ms_requests s)[i := (b', r' # remove1 r rs)]\<rparr>)"
proof (cases "rv_released r")
  case True
  with keeps_same [OF assms(1-3) charged_reservations(3) [OF assms(4)], of p] released_charges [OF assms(1-4)] assms(5)
  show ?thesis by (auto simp: release_reservation_def)
next
  case False
  then obtain result where inner: "resize_inner (ms_process s) b (rv_component r) (rv_bytes r) 0 True = (p, b', result)"
    and r': "r' = r\<lparr>rv_bytes := 0, rv_released := True\<rparr>"
    using assms(5) by (auto simp: release_reservation_def split: prod.splits)
  show ?thesis
  proof (rule keeps_resize [OF assms(1-3) inner released_charges(3) [OF assms(1-4)]])
    have none: "rv_bytes r' = 0" unfolding r' by simp
    show "moved (rv_bytes r) 0 (charged (map rv_bytes rs)) (charged (map rv_bytes (r' # remove1 r rs)))"
      using charged_reservations(2) [OF assms(4), of r'] unfolding none .
    show "\<forall>q \<in> set (r' # remove1 r rs). rv_released q \<longrightarrow> rv_bytes q = 0"
      using released_charges(2) [OF assms(1-4)] none by simp
  qed (use resize_down [OF inner] in blast)
qed

lemma keeps_dropped:
  assumes "memory_inv s" and "i < length (ms_requests s)" and "ms_requests s ! i = (b, rs)" and "r \<in> set rs"
    and "drop_reservation (ms_process s) b r = (p, b')"
  shows "keeps s (s\<lparr>ms_process := p, ms_requests := (ms_requests s)[i := (b', remove1 r rs)]\<rparr>)"
proof (cases "rv_released r \<or> rv_bytes r = 0")
  case True
  then have "rv_bytes r = 0" using released_charges(1) [OF assms(1-4)] by blast
  then have "charged (map rv_bytes (remove1 r rs)) = charged (map rv_bytes rs)"
    using charged_reservations(1) [OF assms(4)] by (simp add: moved_def prod_eq_iff)
  with keeps_same [OF assms(1-3) this released_charges(2) [OF assms(1-4)], of p] assms(5) True
  show ?thesis by (auto simp: drop_reservation_def)
next
  case False
  then obtain result where inner: "resize_inner (ms_process s) b (rv_component r) (rv_bytes r) 0 True = (p, b', result)"
    using assms(5) by (auto simp: drop_reservation_def split: prod.splits)
  from keeps_resize [OF assms(1-3) inner released_charges(3) [OF assms(1-4)], of "remove1 r rs"]
    charged_reservations(1) [OF assms(4)] released_charges(2) [OF assms(1-4)] resize_down [OF inner]
  show ?thesis by simp
qed

lemma requests_le:
  assumes "\<forall>x \<in> set qs. request_ok x"
  shows "snd (requests_total qs) \<le> fst (requests_total qs)"
  unfolding requests_total_def fst_conv snd_conv
  using assms by (intro sum_list_mono) (metis charged_le fst_conv request_counters_def request_ok_def snd_conv)

lemma owner_holds:
  assumes "memory_inv s" and "k \<in> set (0 # ms_owners s)"
  shows "holds (process_counters (ms_process s)) k"
proof -
  have "snd (requests_total (ms_requests s)) \<le> fst (requests_total (ms_requests s))" "fst (charged (ms_owners s)) \<le> u64_max"
    using requests_le assms(1) by (auto simp: memory_inv_def)
  with assms charged_le [of "ms_owners s"] charged_holds [of k "ms_owners s"] show ?thesis
    by (auto simp: holds_def memory_inv_def process_counters_def)
qed

lemma keeps_owner:
  assumes "memory_inv s" and "try_resize (ms_process s) a c = (p, ok)" and "a \<in> set (0 # ms_owners s)"
    and "if ok then moved a c (charged (ms_owners s)) (charged os) else charged os = charged (ms_owners s)"
  shows "keeps s (s\<lparr>ms_process := p, ms_owners := os\<rparr>)"
proof -
  note moves = try_resize_moves [OF assms(2) owner_holds [OF assms(1,3)]]
  have "memory_inv (s\<lparr>ms_process := p, ms_owners := os\<rparr>)"
    using assms(1,4) moves(1,4) by (auto simp: memory_inv_def moved_def process_counters_def split: if_splits)
  moreover have "within_limit (rm_limit_bytes p) (rm_used_bytes p)" if "rm_used_bytes (ms_process s) < rm_used_bytes p"
    using that moves by (auto simp: moved_def process_counters_def split: if_splits)
  ultimately show ?thesis by (simp add: keeps_def)
qed

lemma keeps_owners:
  assumes "memory_inv s"
  shows "reserve_owner (ms_process s) n = (p, Some k) \<Longrightarrow> keeps s (s\<lparr>ms_process := p, ms_owners := k # ms_owners s\<rparr>)"
    and "reserve_owner (ms_process s) n = (p, None) \<Longrightarrow> keeps s (s\<lparr>ms_process := p\<rparr>)"
    and "k \<in> set (ms_owners s) \<Longrightarrow> keeps s (s\<lparr>ms_process := drop_owner (ms_process s) k, ms_owners := remove1 k (ms_owners s)\<rparr>)"
proof -
  show "keeps s (s\<lparr>ms_process := p, ms_owners := k # ms_owners s\<rparr>)" if "reserve_owner (ms_process s) n = (p, Some k)"
    using that charged_moves(1) [of n "ms_owners s"]
    by (intro keeps_owner [OF assms, of 0 n p True]) (auto simp: reserve_owner_def split: prod.splits if_splits)
  show "keeps s (s\<lparr>ms_process := p\<rparr>)" if "reserve_owner (ms_process s) n = (p, None)"
    using that keeps_owner [OF assms, of 0 n p False "ms_owners s"] by (auto simp: reserve_owner_def split: prod.splits if_splits)
  obtain q ok where q: "try_resize (ms_process s) k 0 = (q, ok)" by (cases "try_resize (ms_process s) k 0")
  then have "ok" by (auto simp: try_resize_def)
  then show "keeps s (s\<lparr>ms_process := drop_owner (ms_process s) k, ms_owners := remove1 k (ms_owners s)\<rparr>)" if "k \<in> set (ms_owners s)"
    using keeps_owner [OF assms q] charged_moves(2) [OF that] that by (simp add: drop_owner_def q)
qed

lemma keeps_others:
  assumes "memory_inv s"
  shows "keeps s (s\<lparr>ms_process := configure_limit l (ms_process s)\<rparr>)"
    and "keeps s (s\<lparr>ms_requests := (new_request_budget n, []) # ms_requests s\<rparr>)"
    and "(b, []) \<in> set (ms_requests s) \<Longrightarrow> keeps s (s\<lparr>ms_requests := remove1 (b, []) (ms_requests s)\<rparr>)"
    and "i < length (ms_requests s) \<Longrightarrow> ms_requests s ! i = (b, rs) \<Longrightarrow> memory_reject b c n = (b', e) \<Longrightarrow>
      keeps s (s\<lparr>ms_requests := (ms_requests s)[i := (b', rs)]\<rparr>)"
proof -
  show "keeps s (s\<lparr>ms_process := configure_limit l (ms_process s)\<rparr>)"
    using assms by (simp add: keeps_def memory_inv_def configure_limit_def)
  have "request_ok (new_request_budget n, [])"
    by (simp add: request_ok_def new_request_budget_def request_counters_def charged_def)
  then show "keeps s (s\<lparr>ms_requests := (new_request_budget n, []) # ms_requests s\<rparr>)"
    using assms by (simp add: keeps_def memory_inv_def requests_total_def) (simp add: new_request_budget_def)
  show "keeps s (s\<lparr>ms_requests := remove1 (b, []) (ms_requests s)\<rparr>)" if "(b, []) \<in> set (ms_requests s)"
  proof -
    have "request_ok (b, [])" using assms that by (simp add: memory_inv_def)
    then have "qm_used_bytes b = 0" "qm_active_reservations b = 0" by (simp_all add: request_ok_def request_counters_def charged_def)
    with sum_list_map_remove1 [OF that, of "\<lambda>x. qm_used_bytes (fst x)"] sum_list_map_remove1 [OF that, of "\<lambda>x. qm_active_reservations (fst x)"]
    have "requests_total (remove1 (b, []) (ms_requests s)) = requests_total (ms_requests s)" by (simp add: requests_total_def)
    then show ?thesis using assms by (auto simp: keeps_def memory_inv_def dest: notin_set_remove1)
  qed
  show "keeps s (s\<lparr>ms_requests := (ms_requests s)[i := (b', rs)]\<rparr>)"
    if "i < length (ms_requests s)" "ms_requests s ! i = (b, rs)" "memory_reject b c n = (b', e)"
  proof -
    have b': "request_counters b' = request_counters b" "qm_used_bytes b' = qm_used_bytes b" "qm_limit_bytes b' = qm_limit_bytes b"
      using that(3) by (auto simp: memory_reject_def request_counters_def)
    have "qm_used_bytes b \<le> qm_limit_bytes b" "\<forall>r \<in> set rs. rv_released r \<longrightarrow> rv_bytes r = 0" "rm_used_bytes (ms_process s) \<le> u64_max"
      using memory_holds(1) [OF assms that(1,2)] assms by (simp_all add: request_ok_def memory_inv_def)
    then have "memory_inv (s\<lparr>ms_process := ms_process s, ms_requests := (ms_requests s)[i := (b', rs)]\<rparr>)"
      by (intro memory_inv_request [OF assms that(1,2), of 0 0]) (simp_all add: b')
    then show ?thesis by (simp add: keeps_def)
  qed
qed

lemma memory_step_keeps:
  assumes "memory_inv s" and "memory_step s t"
  shows "keeps s t"
  using assms(2)
  by (cases rule: memory_step.cases)
    (auto intro: keeps_owners [OF assms(1)] keeps_others [OF assms(1)] keeps_request_new [OF assms(1)] keeps_resized [OF assms(1)]
      keeps_released [OF assms(1)] keeps_dropped [OF assms(1)])

interpretation memory: transition_system "\<lambda>s. \<exists>limit. s = fresh_memory limit" memory_step memory_inv
proof
  show "memory_inv s" if "\<exists>limit. s = fresh_memory limit" for s
    using that by (auto simp: memory_inv_def fresh_memory_def new_process_budget_def charged_def requests_total_def)
  show "memory_inv t" if "memory_inv s" "memory_step s t" for s t
    using memory_step_keeps [OF that] by (simp add: keeps_def)
qed

subsection \<open>The books are exact\<close>

definition reserved_bytes :: "MemoryServer \<Rightarrow> nat list" where
  "reserved_bytes s = ms_owners s @ concat (map (\<lambda>x. map rv_bytes (snd x)) (ms_requests s))"

lemma request_ok_sums:
  "request_ok x \<Longrightarrow> qm_used_bytes (fst x) = sum_list (map rv_bytes (snd x)) \<and>
     qm_active_reservations (fst x) = sum_list (map one_if (map rv_bytes (snd x))) \<and> qm_used_bytes (fst x) \<le> qm_limit_bytes (fst x)"
  by (simp add: request_ok_def request_counters_def charged_def)

lemma requests_total_charged:
  "\<forall>x \<in> set qs. request_ok x \<Longrightarrow> requests_total qs = charged (concat (map (\<lambda>x. map rv_bytes (snd x)) qs))"
  by (induction qs) (auto simp: requests_total_def charged_def dest: request_ok_sums)

text \<open>
  C16. Memory accounting is exact: however owners and requests reserve, grow, shrink, release, are
  refused and are dropped, and whatever limits are configured meanwhile, the process counts the
  bytes and the number of the reservations that are alive, each request counts its own and stays
  within its limit, everything is free again when nothing is alive, and no step that takes more
  memory ends above the limit of the process.
\<close>

theorem memory_accounting_exact:
  assumes "memory_step\<^sup>*\<^sup>* (fresh_memory limit) s"
  shows "rm_used_bytes (ms_process s) = sum_list (reserved_bytes s) \<and>
    rm_active_reservations (ms_process s) = length (filter (\<lambda>n. n > 0) (reserved_bytes s)) \<and>
    (\<forall>(b, rs) \<in> set (ms_requests s). qm_used_bytes b = sum_list (map rv_bytes rs) \<and> qm_used_bytes b \<le> qm_limit_bytes b) \<and>
    (\<forall>t. memory_step s t \<longrightarrow> rm_used_bytes (ms_process t) \<le> rm_used_bytes (ms_process s) \<or>
       within_limit (rm_limit_bytes (ms_process t)) (rm_used_bytes (ms_process t)))"
proof -
  have inv: "memory_inv s" by (rule memory.reachable_inv [OF _ assms]) blast
  have count: "sum_list (map one_if ns) = length (filter (\<lambda>n. n > 0) ns)" for ns
    by (induction ns) (auto simp: one_if_def)
  have split: "charged (xs @ ys) = (fst (charged xs) + fst (charged ys), snd (charged xs) + snd (charged ys))" for xs ys
    by (simp add: charged_def)
  have ok: "\<forall>x \<in> set (ms_requests s). request_ok x" using inv by (simp add: memory_inv_def)
  then have "process_counters (ms_process s) = charged (reserved_bytes s)"
    using inv requests_total_charged [OF ok] by (simp add: memory_inv_def process_counters_def reserved_bytes_def split)
  moreover have "\<forall>(b, rs) \<in> set (ms_requests s). qm_used_bytes b = sum_list (map rv_bytes rs) \<and> qm_used_bytes b \<le> qm_limit_bytes b"
    using ok by (force dest: request_ok_sums)
  moreover have "rm_used_bytes (ms_process t) \<le> rm_used_bytes (ms_process s) \<or>
      within_limit (rm_limit_bytes (ms_process t)) (rm_used_bytes (ms_process t))" if "memory_step s t" for t
    using memory_step_keeps [OF inv that] by (auto simp: keeps_def)
  ultimately show ?thesis by (simp add: process_counters_def charged_def count)
qed

definition demo_held :: MemoryServer where
  "demo_held = \<lparr>ms_process = \<lparr>rm_limit_bytes = Some 64, rm_used_bytes = 40, rm_high_water_bytes = 40, rm_active_reservations = 1,
     rm_rejections = 0\<rparr>, ms_owners = [40], ms_requests = []\<rparr>"

theorem memory_accounting_exact_witness:
  "memory_step\<^sup>*\<^sup>* (fresh_memory (Some 64)) demo_held \<and> rm_used_bytes (ms_process demo_held) = sum_list (reserved_bytes demo_held)"
proof -
  have "memory_step (fresh_memory (Some 64)) demo_held"
    using memory_step.owner_taken [of "fresh_memory (Some 64)" 40 "ms_process demo_held" 40]
    by (simp add: fresh_memory_def demo_held_def reserve_owner_def try_resize_def new_process_budget_def within_limit_def
        saturating_add_u64_def checked_add_u64_def checked_unsigned_def u64_max_def)
  then have run: "memory_step\<^sup>*\<^sup>* (fresh_memory (Some 64)) demo_held" by (rule r_into_rtranclp)
  with memory_accounting_exact [OF run] show ?thesis by simp
qed

end
