(* ===== verification/Byte_Str.thy ===== *)
theory Byte_Str
  imports Rust_Str
begin

section \<open>Bytes: slices, big-endian numbers, UTF-8\<close>

text \<open>
  What the two stream decoders use of Rust's byte slices: \<open>buffer[a..b]\<close>, \<open>from_be_bytes\<close> and
  \<open>to_be_bytes\<close>, and \<open>std::str::from_utf8\<close> with the error it reports. A byte is a \<open>char\<close>.
\<close>

subsection \<open>Slices\<close>

definition subslice :: "nat \<Rightarrow> nat \<Rightarrow> 'a list \<Rightarrow> 'a list" where
  "subslice a b xs = take (b - a) (drop a xs)"

lemma subslice_append [simp]: "b \<le> length xs \<Longrightarrow> subslice a b (xs @ ys) = subslice a b xs"
  by (cases "a \<le> length xs") (simp_all add: subslice_def)

lemma length_subslice [simp]: "b \<le> length xs \<Longrightarrow> length (subslice a b xs) = b - a"
  by (simp add: subslice_def)

lemma subslice_middle: "length p = a \<Longrightarrow> b = a + length q \<Longrightarrow> subslice a b (p @ q @ r) = q"
  by (simp add: subslice_def)

subsection \<open>Big-endian numbers\<close>

definition be_nat :: "string \<Rightarrow> nat" where
  "be_nat bs = fold (\<lambda>c n. n * 256 + byte c) bs 0"

text \<open>The low \<open>k\<close> bytes of a number, most significant first.\<close>

fun to_be :: "nat \<Rightarrow> nat \<Rightarrow> string" where
  "to_be 0 n = []"
| "to_be (Suc k) n = to_be k (n div 256) @ [char_of (n mod 256)]"

definition signed_be :: "string \<Rightarrow> int" where
  "signed_be bs = (let n = be_nat bs; w = 8 * length bs in
     if n < 2 ^ (w - 1) then int n else int n - 2 ^ w)"

lemma length_to_be [simp]: "length (to_be k n) = k"
  by (induction k arbitrary: n) simp_all

lemma byte_less [simp]: "byte c < 256"
  by (simp add: byte_def)

lemma be_nat_snoc: "be_nat (bs @ [c]) = be_nat bs * 256 + byte c"
  by (simp add: be_nat_def)

lemma be_nat_to_be [simp]: "be_nat (to_be k n) = n mod 256 ^ k"
proof (induction k arbitrary: n)
  case (Suc k)
  have "be_nat (to_be (Suc k) n) = (n div 256) mod 256 ^ k * 256 + n mod 256"
    by (simp add: be_nat_snoc Suc byte_def of_char_of)
  also have "\<dots> = n mod (256 * 256 ^ k)"
    by (simp add: mod_mult2_eq mult.commute)
  finally show ?case by simp
qed (simp add: be_nat_def)

declare to_be.simps [simp del]

lemma be_nat_less: "be_nat bs < 256 ^ length bs"
proof (induction bs rule: rev_induct)
  case (snoc c bs)
  have "be_nat bs * 256 + byte c < be_nat bs * 256 + 256" by simp
  also have "\<dots> \<le> 256 ^ length bs * 256" using snoc by (simp flip: mult_Suc add: Suc_leI mult.commute)
  finally show ?case by (simp add: be_nat_snoc mult.commute)
qed (simp add: be_nat_def)

subsection \<open>UTF-8 validation\<close>

text \<open>
  \<open>std::str::from_utf8\<close>: \<open>None\<close> for valid text, otherwise the index up to which the bytes are
  valid and the length of the invalid sequence, absent when the input ends inside a sequence.
\<close>

definition continuation :: "char \<Rightarrow> bool" where
  "continuation c \<longleftrightarrow> 128 \<le> byte c \<and> byte c \<le> 191"

definition utf8_width :: "char \<Rightarrow> nat" where
  "utf8_width c = (let b = byte c in
     if b < 128 then 1 else if 194 \<le> b \<and> b \<le> 223 then 2 else if 224 \<le> b \<and> b \<le> 239 then 3
     else if 240 \<le> b \<and> b \<le> 244 then 4 else 0)"

definition second_ok :: "char \<Rightarrow> char \<Rightarrow> bool" where
  "second_ok c d = (let b = byte c in
     if b = 224 then 160 \<le> byte d \<and> byte d \<le> 191
     else if b = 237 then 128 \<le> byte d \<and> byte d \<le> 159
     else if b = 240 then 144 \<le> byte d \<and> byte d \<le> 191
     else if b = 244 then 128 \<le> byte d \<and> byte d \<le> 143
     else continuation d)"

text \<open>The continuation bytes of a sequence, \<open>n\<close> of them, after \<open>seen\<close> valid bytes.\<close>

fun check_tail :: "nat \<Rightarrow> nat \<Rightarrow> string \<Rightarrow> nat option option" where
  "check_tail seen 0 bs = None"
| "check_tail seen (Suc n) [] = Some None"
| "check_tail seen (Suc n) (d # bs) = (if continuation d then check_tail (Suc seen) n bs else Some (Some seen))"

definition check_seq :: "char \<Rightarrow> string \<Rightarrow> nat option option" where
  "check_seq c bs = (let w = utf8_width c in
     if w = 0 then Some (Some 1)
     else if w = 1 then None
     else case bs of
       [] \<Rightarrow> Some None
     | d # ds \<Rightarrow> if second_ok c d then check_tail 2 (w - 2) ds else Some (Some 1))"

function utf8_error_from :: "nat \<Rightarrow> string \<Rightarrow> (nat \<times> nat option) option" where
  "utf8_error_from i [] = None"
| "utf8_error_from i (c # bs) = (case check_seq c bs of
     Some error_len \<Rightarrow> Some (i, error_len)
   | None \<Rightarrow> utf8_error_from (i + utf8_width c) (drop (utf8_width c - 1) bs))"
  by pat_completeness auto
termination by (relation "measure (length \<circ> snd)") simp_all

definition utf8_error :: "string \<Rightarrow> (nat \<times> nat option) option" where
  "utf8_error bs = utf8_error_from 0 bs"

abbreviation valid_utf8 :: "string \<Rightarrow> bool" where
  "valid_utf8 bs \<equiv> utf8_error bs = None"

text \<open>\<open>Display for Utf8Error\<close>.\<close>

definition utf8_error_str :: "nat \<times> nat option \<Rightarrow> string" where
  "utf8_error_str e = (case e of
     (i, Some n) \<Rightarrow> ''invalid utf-8 sequence of '' @ show_nat n @ '' bytes from index '' @ show_nat i
   | (i, None) \<Rightarrow> ''incomplete utf-8 byte sequence from index '' @ show_nat i)"

lemma ascii_valid_from: "list_all (\<lambda>c. byte c < 128) bs \<Longrightarrow> utf8_error_from i bs = None"
  by (induction bs arbitrary: i) (simp_all add: check_seq_def utf8_width_def)

lemma ascii_valid: "list_all (\<lambda>c. byte c < 128) bs \<Longrightarrow> valid_utf8 bs"
  by (simp add: utf8_error_def ascii_valid_from)

end
