(* ===== verification/Json_Value.thy ===== *)
theory Json_Value
  imports Byte_Str
begin

section \<open>Sizes of JSON values\<close>

text \<open>
  The sizes the memory budgets are charged with: \<open>serialized_json_bytes\<close> and \<open>retained_json_bytes\<close> of
  \<open>src/src/infra/resident_memory.rs\<close>, \<open>json_parse_working_bytes\<close> and \<open>serialized_json_bytes\<close> of
  \<open>src/src/proxy/request_memory.rs\<close>. A \<open>Value\<close> has the constructors of \<open>serde_json\<close>; a \<open>String\<close> and a
  \<open>Vec\<close> carry their capacity, a \<open>Number\<close> the text that \<open>to_string\<close> gives it. The size of a \<open>Value\<close> in
  memory and the chunks that \<open>serde_json::to_writer\<close> hands to a writer are parameters.
\<close>

type_synonym rust_string = "nat \<times> string"

datatype Value = Null | Bool bool | Number string | Str rust_string | Array nat "Value list"
  | Object "(rust_string \<times> Value) list"

lemma size_member [termination_simp]:
  "e \<in> set kvs \<Longrightarrow> size (snd e) < Suc (size_list (size_prod (\<lambda>_. 0) size) kvs)"
  by (induction kvs) auto

subsection \<open>Saturating sizes\<close>

definition saturating_mul_u64 :: "nat \<Rightarrow> nat \<Rightarrow> nat" where
  "saturating_mul_u64 a b = min u64_max (a * b)"

text \<open>\<open>str::chars\<close> on the bytes of a valid string: each character is the list of its bytes.\<close>

function chars :: "string \<Rightarrow> string list" where
  "chars [] = []"
| "chars (c # bs) = (c # take (utf8_width c - 1) bs) # chars (drop (utf8_width c - 1) bs)"
  by pat_completeness auto
termination by (relation "measure length") simp_all

subsection \<open>The exact size of the compact form\<close>

definition short_escapes :: "(char \<times> char) list" where
  "short_escapes = [(CHR 0x22, CHR 0x22), (CHR 0x5C, CHR 0x5C), (CHR 0x08, CHR ''b''), (CHR 0x0C, CHR ''f''),
     (CHR 0x0A, CHR ''n''), (CHR 0x0D, CHR ''r''), (CHR 0x09, CHR ''t'')]"

definition escaped_len :: "string \<Rightarrow> nat" where
  "escaped_len character = (case character of
     [c] \<Rightarrow> if c \<in> set [CHR 0x22, CHR 0x5C, CHR 0x08, CHR 0x0C, CHR 0x0A, CHR 0x0D, CHR 0x09] then 2
            else if byte c \<le> 31 then 6 else 1
   | _ \<Rightarrow> length character)"

definition quoted_bytes :: "string \<Rightarrow> nat" where
  "quoted_bytes value = fold (\<lambda>character bytes. saturating_add_u64 bytes (escaped_len character)) (chars value) 2"

fun serialized_json_bytes :: "Value \<Rightarrow> nat" where
  "serialized_json_bytes Null = 4"
| "serialized_json_bytes (Bool b) = (if b then 4 else 5)"
| "serialized_json_bytes (Number number) = length number"
| "serialized_json_bytes (Str value) = quoted_bytes (snd value)"
| "serialized_json_bytes (Array capacity values) =
     fold (\<lambda>value bytes. saturating_add_u64 (saturating_add_u64 bytes (serialized_json_bytes value)) 1) values 2
     - (if values \<noteq> [] then 1 else 0)"
| "serialized_json_bytes (Object values) =
     fold (\<lambda>e bytes. saturating_add_u64 (saturating_add_u64 (saturating_add_u64 (saturating_add_u64 bytes
         (quoted_bytes (snd (fst e)))) 1) (serialized_json_bytes (snd e))) 1) values 2
     - (if values \<noteq> [] then 1 else 0)"

text \<open>The counting writer of \<open>infra/resident_memory.rs\<close> refuses the chunk that passes the limit.\<close>

fun counter_write :: "nat \<Rightarrow> nat \<Rightarrow> string list \<Rightarrow> nat option" where
  "counter_write limit used [] = Some used"
| "counter_write limit used (bytes # chunks) = (case checked_add_u64 used (length bytes) of
     Some next' \<Rightarrow> if next' \<le> limit then counter_write limit next' chunks else None
   | None \<Rightarrow> None)"

definition serialized_json_bytes_within :: "(Value \<Rightarrow> string list) \<Rightarrow> Value \<Rightarrow> nat \<Rightarrow> nat option" where
  "serialized_json_bytes_within to_writer value limit = counter_write limit 0 (to_writer value)"

subsection \<open>The retained size\<close>

text \<open>\<open>size_of::<String>()\<close> and \<open>3 * size_of::<usize>()\<close> are both three words of eight bytes.\<close>

definition member_bytes :: "nat \<Rightarrow> nat" where
  "member_bytes value_size = saturating_add_u64 (saturating_add_u64 24 value_size) (8 * 3)"

fun dynamic_bytes :: "nat \<Rightarrow> Value \<Rightarrow> nat" where
  "dynamic_bytes value_size Null = 0"
| "dynamic_bytes value_size (Bool b) = 0"
| "dynamic_bytes value_size (Number number) = 0"
| "dynamic_bytes value_size (Str value) = fst value"
| "dynamic_bytes value_size (Array capacity values) =
     fold (\<lambda>value bytes. saturating_add_u64 bytes (dynamic_bytes value_size value)) values (saturating_mul_u64 capacity value_size)"
| "dynamic_bytes value_size (Object values) =
     fold (\<lambda>e bytes. saturating_add_u64 (saturating_add_u64 bytes (fst (fst e))) (dynamic_bytes value_size (snd e)))
       values (saturating_mul_u64 (length values) (member_bytes value_size))"

definition retained_json_bytes :: "nat \<Rightarrow> Value \<Rightarrow> nat" where
  "retained_json_bytes value_size value = saturating_add_u64 value_size (dynamic_bytes value_size value)"

subsection \<open>The working set of the parser\<close>

record JsonScan =
  sc_quoted :: bool
  sc_escaped :: bool
  sc_structural :: nat

definition scan_byte :: "char \<Rightarrow> JsonScan \<Rightarrow> JsonScan" where
  "scan_byte c s =
     (if sc_quoted s then
        (if sc_escaped s then s\<lparr>sc_escaped := False\<rparr>
         else if c = CHR 0x5C then s\<lparr>sc_escaped := True\<rparr>
         else if c = CHR 0x22 then s\<lparr>sc_quoted := False\<rparr> else s)
      else if c = CHR 0x22 then s\<lparr>sc_quoted := True\<rparr>
      else if c \<in> set [CHR ''['', CHR ''{'', CHR '','', CHR '':'']
      then s\<lparr>sc_structural := saturating_add_u64 (sc_structural s) 1\<rparr> else s)"

definition scan_start :: JsonScan where
  "scan_start = \<lparr>sc_quoted = False, sc_escaped = False, sc_structural = 0\<rparr>"

definition json_parse_working_bytes :: "string \<Rightarrow> nat" where
  "json_parse_working_bytes bytes =
     saturating_add_u64 (saturating_add_u64 (saturating_mul_u64 (length bytes) 2)
       (saturating_mul_u64 (sc_structural (fold scan_byte bytes scan_start)) 128)) 512"

subsection \<open>What is written and read\<close>

text \<open>
  The compact form that \<open>serde_json\<close> documents for a value, and the texts that RFC 8259 gives a
  value: blanks around every token, any escape, repeated member names, of which an object keeps
  one. Capacities are not visible in a text.
\<close>

definition hex_char :: "nat \<Rightarrow> char" where
  "hex_char n = ''0123456789abcdef'' ! n"

definition escape_char :: "string \<Rightarrow> string" where
  "escape_char character = (case character of
     [c] \<Rightarrow> (case map_of short_escapes c of
               Some e \<Rightarrow> [CHR 0x5C, e]
             | None \<Rightarrow> if byte c \<le> 31 then [CHR 0x5C] @ ''u00'' @ [hex_char (byte c div 16), hex_char (byte c mod 16)]
                       else [c])
   | _ \<Rightarrow> character)"

definition quote :: "string \<Rightarrow> string" where
  "quote s = [CHR 0x22] @ concat (map escape_char (chars s)) @ [CHR 0x22]"

fun comma_sep :: "string list \<Rightarrow> string" where
  "comma_sep [] = []"
| "comma_sep [x] = x"
| "comma_sep (x # y # xs) = x @ '','' @ comma_sep (y # xs)"

fun compact :: "Value \<Rightarrow> string" where
  "compact Null = ''null''"
| "compact (Bool b) = (if b then ''true'' else ''false'')"
| "compact (Number number) = number"
| "compact (Str value) = quote (snd value)"
| "compact (Array capacity values) = ''['' @ comma_sep (map compact values) @ '']''"
| "compact (Object values) = ''{'' @ comma_sep (map (\<lambda>e. quote (snd (fst e)) @ '':'' @ compact (snd e)) values) @ ''}''"

end
