(* ===== verification/Json_Value_Props.thy ===== *)
theory Json_Value_Props
  imports Json_Value "HOL-Library.Multiset"
begin

section \<open>Sizes of JSON values are what they promise\<close>

text \<open>
  The size counted without serialising is the number of bytes that serialising writes (C19), and
  how large a \<open>Value\<close> may be for the reservation made before a body is parsed to cover a parsed
  value of given capacities.
\<close>

subsection \<open>Saturating sums\<close>

lemma saturating_add_u64_assoc [simp]:
  "saturating_add_u64 (saturating_add_u64 a b) c = saturating_add_u64 a (b + c)"
  by (simp add: saturating_add_u64_def)

lemma fold_saturating:
  "a \<le> u64_max \<Longrightarrow> fold (\<lambda>x b. saturating_add_u64 b (f x)) xs a = min u64_max (a + sum_list (map f xs))"
proof (induction xs arbitrary: a)
  case (Cons x xs)
  from Cons.IH [of "saturating_add_u64 a (f x)"] show ?case by (simp add: saturating_add_u64_def)
qed simp

subsection \<open>The counted size is the written size\<close>

lemma length_escape_char: "length (escape_char character) = escaped_len character"
proof (cases character)
  case (Cons c rest)
  show ?thesis
  proof (cases rest)
    case Nil
    with Cons show ?thesis by (auto simp: escape_char_def escaped_len_def short_escapes_def)
  qed (use Cons in \<open>simp add: escape_char_def escaped_len_def\<close>)
qed (simp add: escape_char_def escaped_len_def)

lemma quoted_bytes_length: "quoted_bytes s = min u64_max (length (quote s))"
  by (simp add: quoted_bytes_def fold_saturating quote_def length_concat length_escape_char comp_def u64_max_def)

lemma length_comma_sep: "length (comma_sep xs) + (if xs = [] then 0 else 1) = (\<Sum>x \<leftarrow> xs. length x + 1)"
  by (induction xs rule: comma_sep.induct) auto

lemma length_comma_sep_member: "x \<in> set xs \<Longrightarrow> length x \<le> length (comma_sep xs)"
  by (induction xs rule: comma_sep.induct) auto

text \<open>An array and an object are counted alike: two brackets and a comma after each part but the last.\<close>

lemma counted_parts:
  assumes "\<And>x. x \<in> set xs \<Longrightarrow> f x = length (g x) + 1" and "length (comma_sep (map g xs)) + 2 < u64_max"
  shows "fold (\<lambda>x b. saturating_add_u64 b (f x)) xs 2 - (if xs \<noteq> [] then 1 else 0) = length (comma_sep (map g xs)) + 2"
proof -
  have "map f xs = map (\<lambda>x. length (g x) + 1) xs" using assms(1) by (rule map_cong [OF refl])
  then have "sum_list (map f xs) = length (comma_sep (map g xs)) + (if xs = [] then 0 else 1)"
    using length_comma_sep [of "map g xs"] by (simp only: map_map comp_def map_is_Nil_conv)
  with assms(2) show ?thesis by (auto simp: fold_saturating u64_max_def)
qed

lemma serialized_length: "length (compact v) < u64_max \<Longrightarrow> serialized_json_bytes v = length (compact v)"
proof (induction v rule: compact.induct)
  case (5 capacity vs)
  have "serialized_json_bytes v + 1 = length (compact v) + 1" if "v \<in> set vs" for v
    using 5(1) [OF that] 5(2) length_comma_sep_member [of "compact v" "map compact vs"] that by simp
  from counted_parts [of vs "\<lambda>v. serialized_json_bytes v + 1" compact, OF this] 5(2) show ?case by simp
next
  case (6 kvs)
  define member where "member = (\<lambda>e :: rust_string \<times> Value. quote (snd (fst e)) @ '':'' @ compact (snd e))"
  have "quoted_bytes (snd (fst e)) + 1 + serialized_json_bytes (snd e) + 1 = length (member e) + 1" if "e \<in> set kvs" for e
  proof -
    have "length (member e) < u64_max"
      using length_comma_sep_member [of "member e" "map member kvs"] that 6(2) by (simp add: member_def)
    with 6(1) [OF that] show ?thesis by (simp add: member_def quoted_bytes_length)
  qed
  from counted_parts [of kvs _ member, OF this] 6(2) show ?case by (simp add: member_def add.assoc)
qed (simp_all add: quoted_bytes_length)

lemma counter_write_eq:
  "used \<le> limit \<Longrightarrow> limit \<le> u64_max \<Longrightarrow> counter_write limit used chunks =
     (if used + length (concat chunks) \<le> limit then Some (used + length (concat chunks)) else None)"
proof (induction chunks arbitrary: used)
  case (Cons bytes chunks)
  show ?case
  proof (cases "used + length bytes \<le> limit")
    case True
    with Cons.prems have "counter_write limit used (bytes # chunks) = counter_write limit (used + length bytes) chunks"
      by (simp add: checked_add_u64_def checked_unsigned_def)
    with True Cons.IH [of "used + length bytes"] Cons.prems show ?thesis by (simp add: add.assoc)
  next
    case False
    then show ?thesis by (auto split: option.split)
  qed
qed simp

text \<open>
  C19. A JSON value is counted exactly: the size that is reserved before a value is serialised is the
  number of bytes that the serialiser writes, escapes included, and the counting writer that stops
  at a limit answers that size when it fits and nothing when it does not, in whatever chunks the
  serialiser writes. Of the serialiser it is assumed that its chunks make up the compact JSON text
  of the value; the value has fewer than \<open>2^64 - 1\<close> bytes, as no value in memory has more.
\<close>

theorem serialized_json_size_exact:
  assumes "\<And>v. concat (to_writer v) = compact v" and "length (compact v) < u64_max" and "limit \<le> u64_max"
  shows "serialized_json_bytes v = length (concat (to_writer v)) \<and>
    serialized_json_bytes_within to_writer v limit =
      (if serialized_json_bytes v \<le> limit then Some (serialized_json_bytes v) else None)"
  using serialized_length [OF assms(2)] counter_write_eq [of 0 limit "to_writer v"] assms(1,3)
  by (simp add: serialized_json_bytes_within_def)

definition demo_json :: Value where
  "demo_json = Object [((1, ''k''), Array 4 [Bool True, Str (3, [CHR 0x0A, CHR 0x01, CHR ''x''])])]"

theorem serialized_json_size_exact_witness:
  "serialized_json_bytes demo_json = 24 \<and> serialized_json_bytes_within (\<lambda>v. map (\<lambda>c. [c]) (compact v)) demo_json 23 = None"
proof -
  have n: "length (compact demo_json) = 24"
    by (simp add: demo_json_def quote_def utf8_width_def byte_def escape_char_def short_escapes_def)
  from serialized_json_size_exact [of "\<lambda>v. map (\<lambda>c. [c]) (compact v)" demo_json 23] n show ?thesis
    by (simp add: u64_max_def comp_def)
qed

subsection \<open>Texts of a value\<close>

text \<open>
  The texts that RFC 8259 gives a value: blanks around every value and member name, every escape,
  member names that occur twice, of which an object keeps one. A text does not determine the
  capacities, and nothing below depends on how the text of a number is read.
\<close>

definition blank :: "string \<Rightarrow> bool" where
  "blank w \<longleftrightarrow> set w \<subseteq> {CHR 0x20, CHR 0x09, CHR 0x0A, CHR 0x0D}"

definition hex4 :: "string \<Rightarrow> bool" where
  "hex4 hs \<longleftrightarrow> length hs = 4 \<and> set hs \<subseteq> set ''0123456789abcdefABCDEF''"

text \<open>
  A character and its text inside quotes. What \<open>\u\<close> and its digits stand for is left open up to the
  length: at most three bytes, and four for a surrogate pair.
\<close>

inductive char_text :: "string \<Rightarrow> string \<Rightarrow> bool" where
  raw: "byte c \<ge> 32 \<Longrightarrow> c \<noteq> CHR 0x22 \<Longrightarrow> c \<noteq> CHR 0x5C \<Longrightarrow> char_text [c] [c]"
| short: "(c, e) \<in> set ((CHR ''/'', CHR ''/'') # short_escapes) \<Longrightarrow> char_text [c] [CHR 0x5C, e]"
| unicode: "hex4 hs \<Longrightarrow> length bytes \<le> 3 \<Longrightarrow> char_text bytes (CHR 0x5C # CHR ''u'' # hs)"
| pair: "hex4 hs \<Longrightarrow> hex4 ls \<Longrightarrow> length bytes = 4 \<Longrightarrow>
    char_text bytes (CHR 0x5C # CHR ''u'' # hs @ CHR 0x5C # CHR ''u'' # ls)"

inductive chars_text :: "string \<Rightarrow> string \<Rightarrow> bool" where
  none: "chars_text [] []"
| more: "char_text bytes t \<Longrightarrow> chars_text s u \<Longrightarrow> chars_text (bytes @ s) (t @ u)"

inductive json_text :: "Value \<Rightarrow> string \<Rightarrow> bool"
  and json_elements :: "Value list \<Rightarrow> string \<Rightarrow> bool"
  and json_members :: "(rust_string \<times> Value) list \<Rightarrow> string \<Rightarrow> bool" where
  null: "json_text Null ''null''"
| bool: "json_text (Bool b) (if b then ''true'' else ''false'')"
| number: "t \<noteq> [] \<Longrightarrow> set t \<subseteq> set ''0123456789+-.eE'' \<Longrightarrow> json_text (Number n) t"
| str: "chars_text s t \<Longrightarrow> json_text (Str (cap, s)) (CHR 0x22 # t @ [CHR 0x22])"
| array: "json_elements vs t \<Longrightarrow> json_text (Array cap vs) (''['' @ t @ '']'')"
| object: "json_members ms t \<Longrightarrow> mset kvs \<subseteq># mset ms \<Longrightarrow> json_text (Object kvs) (''{'' @ t @ ''}'')"
| blanks: "json_text v t \<Longrightarrow> blank w \<Longrightarrow> blank w' \<Longrightarrow> json_text v (w @ t @ w')"
| no_element: "blank w \<Longrightarrow> json_elements [] w"
| last_element: "json_text v t \<Longrightarrow> json_elements [v] t"
| element: "json_text v t \<Longrightarrow> json_elements vs u \<Longrightarrow> vs \<noteq> [] \<Longrightarrow> json_elements (v # vs) (t @ '','' @ u)"
| no_member: "blank w \<Longrightarrow> json_members [] w"
| last_member: "json_text (Str k) kt \<Longrightarrow> json_text v t \<Longrightarrow> json_members [(k, v)] (kt @ '':'' @ t)"
| member: "json_text (Str k) kt \<Longrightarrow> json_text v t \<Longrightarrow> json_members ms u \<Longrightarrow> ms \<noteq> [] \<Longrightarrow>
    json_members ((k, v) # ms) (kt @ '':'' @ t @ '','' @ u)"

text \<open>
  A condition on the capacities of a value: at most four elements or twice the length of an array,
  at most twice the bytes of a string. Rust does not promise it of \<open>Vec\<close> and \<open>String\<close>, so it is
  an explicit hypothesis of what follows and not a part of the model.
\<close>

fun capacity_doubled :: "Value \<Rightarrow> bool" where
  "capacity_doubled (Str s) \<longleftrightarrow> fst s \<le> 2 * length (snd s)"
| "capacity_doubled (Array cap vs) \<longleftrightarrow> cap \<le> (if vs = [] then 0 else max 4 (2 * length vs)) \<and> (\<forall>v \<in> set vs. capacity_doubled v)"
| "capacity_doubled (Object kvs) \<longleftrightarrow> (\<forall>e \<in> set kvs. fst (fst e) \<le> 2 * length (snd (fst e)) \<and> capacity_doubled (snd e))"
| "capacity_doubled _ \<longleftrightarrow> True"

subsection \<open>Scanning a text\<close>

text \<open>A text outside quotes leaves the scanner outside quotes and adds its structural bytes.\<close>

definition scans :: "string \<Rightarrow> nat \<Rightarrow> bool" where
  "scans t n \<longleftrightarrow> (\<forall>m \<le> u64_max. fold scan_byte t \<lparr>sc_quoted = False, sc_escaped = False, sc_structural = m\<rparr> =
     \<lparr>sc_quoted = False, sc_escaped = False, sc_structural = min u64_max (m + n)\<rparr>)"

lemma scans_append: "scans t n \<Longrightarrow> scans u k \<Longrightarrow> scans (t @ u) (n + k)"
  by (auto simp: scans_def min_def)

lemma scans_plain: "set t \<inter> set [CHR 0x22, CHR ''['', CHR ''{'', CHR '','', CHR '':''] = {} \<Longrightarrow> scans t 0"
  by (induction t) (auto simp: scans_def scan_byte_def)

lemma scans_mark: "c \<in> set [CHR ''['', CHR ''{'', CHR '','', CHR '':''] \<Longrightarrow> scans [c] 1"
  by (auto simp: scans_def scan_byte_def saturating_add_u64_def)

lemma scans_blank: "blank w \<Longrightarrow> scans w 0"
  by (rule scans_plain) (auto simp: blank_def)

definition stays_quoted :: "string \<Rightarrow> bool" where
  "stays_quoted t \<longleftrightarrow> (\<forall>m. fold scan_byte t \<lparr>sc_quoted = True, sc_escaped = False, sc_structural = m\<rparr> =
     \<lparr>sc_quoted = True, sc_escaped = False, sc_structural = m\<rparr>)"

lemma stays_quoted_append: "stays_quoted t \<Longrightarrow> stays_quoted u \<Longrightarrow> stays_quoted (t @ u)"
  by (simp add: stays_quoted_def)

lemma stays_quoted_plain: "set t \<inter> {CHR 0x22, CHR 0x5C} = {} \<Longrightarrow> stays_quoted t"
  by (induction t) (auto simp: stays_quoted_def scan_byte_def)

lemma stays_quoted_escape: "stays_quoted t \<Longrightarrow> stays_quoted (CHR 0x5C # e # t)"
  by (simp add: stays_quoted_def scan_byte_def)

lemma stays_quoted_hex4: "hex4 hs \<Longrightarrow> stays_quoted hs"
  by (rule stays_quoted_plain) (auto simp: hex4_def)

lemma char_text_quoted: "char_text bytes t \<Longrightarrow> stays_quoted t \<and> length bytes \<le> length t"
proof (induction rule: char_text.induct)
  case (short c e)
  then show ?case using stays_quoted_escape [OF stays_quoted_plain, of "[]" e] by simp
next
  case (unicode hs bytes)
  then show ?case using stays_quoted_escape [OF stays_quoted_hex4, of hs]
    by (simp, simp add: hex4_def)
next
  case (pair hs ls bytes)
  then show ?case
    using stays_quoted_escape [OF stays_quoted_append [OF stays_quoted_hex4 stays_quoted_escape [OF stays_quoted_hex4]], of hs ls]
    by simp
qed (simp add: stays_quoted_plain)

lemma chars_text_quoted: "chars_text s t \<Longrightarrow> stays_quoted t \<and> length s \<le> length t"
  by (induction rule: chars_text.induct) (auto simp: stays_quoted_plain dest!: char_text_quoted intro!: stays_quoted_append)

lemma scans_string: "stays_quoted t \<Longrightarrow> scans (CHR 0x22 # t @ [CHR 0x22]) 0"
  by (simp add: scans_def stays_quoted_def scan_byte_def)

subsection \<open>The estimate covers the value\<close>

text \<open>The retained size without saturation.\<close>

fun heap_bytes :: "nat \<Rightarrow> Value \<Rightarrow> nat" where
  "heap_bytes value_size (Str s) = fst s"
| "heap_bytes value_size (Array cap vs) = cap * value_size + sum_list (map (heap_bytes value_size) vs)"
| "heap_bytes value_size (Object kvs) =
     length kvs * (48 + value_size) + (\<Sum>e \<leftarrow> kvs. fst (fst e) + heap_bytes value_size (snd e))"
| "heap_bytes value_size _ = 0"

lemma fold_saturating_le:
  "a \<le> u64_max \<Longrightarrow> (\<And>x. x \<in> set xs \<Longrightarrow> f x \<le> g x) \<Longrightarrow>
   fold (\<lambda>x b. saturating_add_u64 b (f x)) xs a \<le> a + sum_list (map g xs)"
  using sum_list_mono [of xs f g] by (simp add: fold_saturating min.coboundedI2)

lemma dynamic_heap_bytes: "dynamic_bytes value_size v \<le> heap_bytes value_size v"
proof (induction value_size v rule: dynamic_bytes.induct)
  case (5 value_size cap vs)
  have "dynamic_bytes value_size (Array cap vs) \<le> saturating_mul_u64 cap value_size + sum_list (map (heap_bytes value_size) vs)"
    unfolding dynamic_bytes.simps by (rule fold_saturating_le [OF _ 5]) (simp_all add: saturating_mul_u64_def)
  then show ?case by (simp add: saturating_mul_u64_def)
next
  case (6 value_size kvs)
  have "dynamic_bytes value_size (Object kvs) \<le> saturating_mul_u64 (length kvs) (member_bytes value_size) +
      (\<Sum>e \<leftarrow> kvs. fst (fst e) + heap_bytes value_size (snd e))"
    unfolding dynamic_bytes.simps saturating_add_u64_assoc
    by (rule fold_saturating_le) (simp_all add: saturating_mul_u64_def 6)
  moreover have "saturating_mul_u64 (length kvs) (member_bytes value_size) \<le> length kvs * (48 + value_size)"
    by (simp add: saturating_mul_u64_def member_bytes_def saturating_add_u64_def min.coboundedI2)
  ultimately show ?case by simp
qed simp_all

text \<open>What a value that was parsed weighs; a member that is not kept has no weight.\<close>

definition weight :: "nat \<Rightarrow> Value \<Rightarrow> nat" where
  "weight value_size v = (if capacity_doubled v then heap_bytes value_size v else 0)"

definition member_weight :: "nat \<Rightarrow> rust_string \<times> Value \<Rightarrow> nat" where
  "member_weight value_size e =
     (if fst (fst e) \<le> 2 * length (snd (fst e)) \<and> capacity_doubled (snd e) then fst (fst e) + heap_bytes value_size (snd e) else 0)"

lemma member_weight_le: "member_weight value_size (k, v) \<le> weight value_size (Str k) + weight value_size v"
  by (simp add: member_weight_def weight_def)

definition covers :: "string \<Rightarrow> nat \<Rightarrow> bool" where
  "covers t n \<longleftrightarrow> (\<exists>k. scans t k \<and> n \<le> 2 * length t + 128 * k)"

lemma covers_append: "covers t m \<Longrightarrow> covers u n \<Longrightarrow> covers (t @ u) (m + n)"
proof -
  assume "covers t m" "covers u n"
  then obtain i j where "scans t i" "m \<le> 2 * length t + 128 * i" "scans u j" "n \<le> 2 * length u + 128 * j"
    by (auto simp: covers_def)
  then show ?thesis unfolding covers_def by (intro exI [of _ "i + j"]) (simp add: scans_append)
qed

lemma covers_mono: "covers t m \<Longrightarrow> n \<le> m \<Longrightarrow> covers t n"
  by (auto simp: covers_def intro: order_trans)

lemma covers_scans: "scans t 0 \<Longrightarrow> n \<le> 2 * length t \<Longrightarrow> covers t n"
  by (auto simp: covers_def)

lemma covers_mark: "c \<in> set [CHR ''['', CHR ''{'', CHR '','', CHR '':''] \<Longrightarrow> covers [c] 130"
  unfolding covers_def by (rule exI [of _ 1]) (simp only: scans_mark, simp)

lemma covers_close: "c \<in> {CHR '']'', CHR ''}''} \<Longrightarrow> covers [c] 2"
  by (rule covers_scans) (auto intro!: scans_plain)

lemma sum_list_weight:
  assumes "mset kvs \<subseteq># mset ms" and "\<And>e. e \<in> set kvs \<Longrightarrow> h e = member_weight value_size e"
  shows "sum_list (map h kvs) \<le> sum_list (map (member_weight value_size) ms)"
proof -
  from assms(1) obtain rest where rest: "mset ms = mset kvs + rest" by (auto simp: mset_subset_eq_exists_conv)
  have "sum_list (map h kvs) = sum_list (map (member_weight value_size) kvs)"
    using assms(2) by (intro arg_cong [of _ _ sum_list]) simp
  also have "\<dots> \<le> sum_mset (image_mset (member_weight value_size) (mset ms))"
    by (simp add: rest flip: sum_mset_sum_list)
  finally show ?thesis by (simp flip: sum_mset_sum_list)
qed

lemma text_covers:
  assumes "value_size \<le> 33"
  shows "json_text v t \<Longrightarrow> covers t (weight value_size v)"
    and "json_elements vs t \<Longrightarrow> covers t (sum_list (map (weight value_size) vs) + 128 * (length vs - 1))"
    and "json_members ms t \<Longrightarrow> covers t (sum_list (map (member_weight value_size) ms) + 128 * (2 * length ms - 1))"
proof (induction rule: json_text_json_elements_json_members.inducts)
  case (array vs t cap)
  have "weight value_size (Array cap vs) \<le> 130 + (sum_list (map (weight value_size) vs) + 128 * (length vs - 1)) + 2"
  proof (cases "capacity_doubled (Array cap vs) \<and> vs \<noteq> []")
    case True
    then have "cap * value_size \<le> max 4 (2 * length vs) * 33" using assms by (intro mult_mono) auto
    moreover have "sum_list (map (heap_bytes value_size) vs) = sum_list (map (weight value_size) vs)"
      using True by (intro arg_cong [of _ _ sum_list]) (simp add: weight_def)
    moreover have "max 4 (2 * length vs) * 33 \<le> 132 + 128 * (length vs - 1)" using True by (cases vs) (auto simp: max_def)
    ultimately show ?thesis using True by (simp add: weight_def)
  qed (auto simp: weight_def)
  moreover have "covers (''['' @ t @ '']'') (130 + ((sum_list (map (weight value_size) vs) + 128 * (length vs - 1)) + 2))"
    by (intro covers_append covers_mark covers_close array) simp_all
  ultimately show ?case by (simp add: covers_mono)
next
  case (object ms t kvs)
  have n: "length kvs \<le> length ms" using size_mset_mono [OF object.hyps(2)] by simp
  have "weight value_size (Object kvs) \<le>
      130 + (sum_list (map (member_weight value_size) ms) + 128 * (2 * length ms - 1)) + 2"
  proof (cases "capacity_doubled (Object kvs) \<and> kvs \<noteq> []")
    case True
    have "length kvs * (48 + value_size) \<le> length ms * 81" using n assms by (intro mult_mono) auto
    moreover have "(\<Sum>e \<leftarrow> kvs. fst (fst e) + heap_bytes value_size (snd e)) \<le> sum_list (map (member_weight value_size) ms)"
      using True by (intro sum_list_weight [OF object.hyps(2)]) (simp add: member_weight_def)
    moreover have "length ms \<ge> 1" using True n by (cases kvs) auto
    ultimately show ?thesis using True by (simp add: weight_def)
  qed (auto simp: weight_def)
  moreover have "covers (''{'' @ t @ ''}'') (130 + ((sum_list (map (member_weight value_size) ms) + 128 * (2 * length ms - 1)) + 2))"
    by (intro covers_append covers_mark covers_close object.IH) simp_all
  ultimately show ?case by (simp add: covers_mono)
next
  case (str s t cap)
  with chars_text_quoted [OF str] show ?case
    by (intro covers_scans scans_string) (auto simp: weight_def)
next
  case (blanks v t w w')
  have "covers (w @ t @ w') (0 + (weight value_size v + 0))"
    by (intro covers_append covers_scans scans_blank blanks) simp_all
  then show ?case by simp
next
  case (element v t vs u)
  have "covers (t @ '','' @ u) (weight value_size v + (130 + (sum_list (map (weight value_size) vs) + 128 * (length vs - 1))))"
    by (intro covers_append covers_mark element) simp_all
  then show ?case by (rule covers_mono) (use element.hyps in \<open>cases vs; simp\<close>)
next
  case (last_member k kt v t)
  have "covers (kt @ '':'' @ t) (weight value_size (Str k) + (130 + weight value_size v))"
    by (intro covers_append covers_mark last_member) simp_all
  then show ?case by (rule covers_mono) (use member_weight_le [of value_size k v] in simp)
next
  case (member k kt v t ms u)
  have "covers (kt @ '':'' @ t @ '','' @ u) (weight value_size (Str k) + (130 + (weight value_size v + (130 +
      (sum_list (map (member_weight value_size) ms) + 128 * (2 * length ms - 1))))))"
    by (intro covers_append covers_mark member) simp_all
  then show ?case by (rule covers_mono) (use member.hyps member_weight_le [of value_size k v] in \<open>cases ms; simp\<close>)
qed (auto simp: weight_def blank_def intro!: covers_scans scans_plain)

lemma working_bytes:
  "scans t k \<Longrightarrow> json_parse_working_bytes t = min u64_max (2 * length t + 128 * k + 512)"
  by (auto simp: json_parse_working_bytes_def scan_start_def scans_def saturating_mul_u64_def saturating_add_u64_def min_def)

lemma estimate_covers:
  assumes "value_size \<le> 33" and "json_text v t" and "capacity_doubled v"
  shows "retained_json_bytes value_size v \<le> json_parse_working_bytes t"
proof -
  from text_covers(1) [OF assms(1,2)] assms(3) obtain k where
    k: "scans t k" "heap_bytes value_size v \<le> 2 * length t + 128 * k" by (auto simp: covers_def weight_def)
  with dynamic_heap_bytes [of value_size v] assms(1) show ?thesis
    by (simp add: retained_json_bytes_def saturating_add_u64_def working_bytes [OF k(1)])
qed

subsection \<open>Nested arrays\<close>

fun nested :: "nat \<Rightarrow> Value" where
  "nested 0 = Number ''0''"
| "nested (Suc d) = Array 4 [nested d]"

fun nested_text :: "nat \<Rightarrow> string" where
  "nested_text 0 = ''0''"
| "nested_text (Suc d) = ''['' @ nested_text d @ '']''"

lemma nested_json: "json_text (nested d) (nested_text d) \<and> capacity_doubled (nested d) \<and> scans (nested_text d) d \<and>
    length (nested_text d) = 2 * d + 1 \<and> dynamic_bytes s (nested d) = min u64_max (4 * s * d)"
proof (induction d)
  case 0
  show ?case by (auto intro!: json_text_json_elements_json_members.number scans_plain)
next
  case (Suc d)
  have "scans (''['' @ nested_text d @ '']'') (1 + (d + 0))"
    by (intro scans_append scans_mark scans_plain) (simp_all add: Suc)
  moreover have "json_text (nested (Suc d)) (''['' @ nested_text d @ '']'')"
    unfolding nested.simps using Suc by (intro json_text_json_elements_json_members.array last_element) simp
  ultimately show ?case
    using Suc by (auto simp: saturating_mul_u64_def saturating_add_u64_def algebra_simps min_def)
qed

text \<open>
  The reservation made before a body is parsed covers every parsed value whose capacities are
  within \<open>capacity_doubled\<close>, blanks, escapes and repeated names included, exactly as long as one
  \<open>Value\<close> takes at most 33 bytes: with a larger \<open>Value\<close>, 121 nested arrays of capacity four,
  which the parser accepts, retain more than was reserved for them.
\<close>

lemma parse_estimate_conservative:
  "(\<forall>v t. json_text v t \<and> capacity_doubled v \<longrightarrow> retained_json_bytes value_size v \<le> json_parse_working_bytes t) \<longleftrightarrow> value_size \<le> 33"
proof
  assume *: "\<forall>v t. json_text v t \<and> capacity_doubled v \<longrightarrow> retained_json_bytes value_size v \<le> json_parse_working_bytes t"
  have "retained_json_bytes value_size (nested 121) \<le> json_parse_working_bytes (nested_text 121)"
    using nested_json [of 121] * by blast
  moreover have "json_parse_working_bytes (nested_text 121) = 16486"
    using working_bytes [of "nested_text 121" 121] nested_json [of 121] by (simp add: u64_max_def)
  moreover have "retained_json_bytes value_size (nested 121) = min u64_max (value_size + min u64_max (484 * value_size))"
    using nested_json [of 121 value_size] by (simp add: retained_json_bytes_def saturating_add_u64_def)
  ultimately show "value_size \<le> 33" by (auto simp: u64_max_def min_def split: if_splits)
qed (blast intro: estimate_covers)

text \<open>With a \<open>Value\<close> of 72 bytes and arrays of capacity four, four levels are enough.\<close>

lemma nested_exceeds_estimate:
  "json_text (nested 4) ''[[[[0]]]]'' \<and> retained_json_bytes 72 (nested 4) = 1224 \<and> json_parse_working_bytes ''[[[[0]]]]'' = 1042"
proof -
  have "nested_text 4 = ''[[[[0]]]]''" by code_simp
  with nested_json [of 4 72] working_bytes [of "nested_text 4" 4] show ?thesis
    by (simp add: retained_json_bytes_def saturating_add_u64_def u64_max_def)
qed

end
