(* ===== verification/Response_Cache.thy ===== *)
theory Response_Cache
  imports Resident_Memory Json_Value "HOL-Library.Product_Lexorder"
begin

section \<open>The cache of previous responses\<close>

text \<open>
  Model of \<open>src/src/domain/sharing/previous_response_cache.rs\<close>: the items of recent responses, kept per
  scope (share, principal, provider, account, credential, workspace) and response id so that a later
  request may refer to them, with tombstones that remember why an item is gone. Every method also
  takes and returns the budget of the process, in which each entry and each tombstone is an owner
  of \<open>retained_bytes\<close>. A removed entry is dropped at the end of its block, a replaced one at once.
\<close>

subsection \<open>Constants and data\<close>

definition CACHE_TTL_MS :: int where "CACHE_TTL_MS = 10 * 60 * 1000"
definition CACHE_MAX_BYTES :: nat where "CACHE_MAX_BYTES = 64 * 1024 * 1024"
definition CACHE_MAX_ENTRY_BYTES :: nat where "CACHE_MAX_ENTRY_BYTES = 8 * 1024 * 1024"
definition CACHE_MAX_ENTRIES :: nat where "CACHE_MAX_ENTRIES = 2000"
definition CACHE_MAX_ITEMS_PER_ENTRY :: nat where "CACHE_MAX_ITEMS_PER_ENTRY = 200"
definition CACHE_MAX_RESPONSE_ID_LEN :: nat where "CACHE_MAX_RESPONSE_ID_LEN = 512"
definition TOMBSTONE_TTL_MS :: int where "TOMBSTONE_TTL_MS = 2 * 60 * 1000"
definition TOMBSTONE_MAX_ENTRIES :: nat where "TOMBSTONE_MAX_ENTRIES = 4000"

datatype PreviousResponseCacheScope = Scope
  (ps_share_id: string) (ps_principal: string) (ps_provider_id: string) (ps_provider_revision: nat)
  (ps_runtime_fingerprint: string) (ps_account_id: string) (ps_account_incarnation: nat)
  (ps_auth_identity_generation: nat) (ps_token_refresh_generation: nat) (ps_credential_fingerprint: string)
  (ps_workspace_id: string)

datatype PreviousResponseCacheKey = Key (pk_scope: PreviousResponseCacheScope) (pk_response_id: string)

text \<open>The derived order: field by field, in the order of the declaration.\<close>

definition key_fields :: "PreviousResponseCacheKey \<Rightarrow>
    string \<times> string \<times> string \<times> nat \<times> string \<times> string \<times> nat \<times> nat \<times> nat \<times> string \<times> string \<times> string" where
  "key_fields k = (let s = pk_scope k in
     (ps_share_id s, ps_principal s, ps_provider_id s, ps_provider_revision s, ps_runtime_fingerprint s, ps_account_id s,
      ps_account_incarnation s, ps_auth_identity_generation s, ps_token_refresh_generation s, ps_credential_fingerprint s,
      ps_workspace_id s, pk_response_id k))"

lemma key_fields_inject [simp]: "key_fields k = key_fields k' \<longleftrightarrow> k = k'"
  by (cases k; cases k'; cases "pk_scope k"; cases "pk_scope k'") (simp add: key_fields_def)

instantiation PreviousResponseCacheKey :: linorder
begin

definition less_eq_PreviousResponseCacheKey :: "PreviousResponseCacheKey \<Rightarrow> PreviousResponseCacheKey \<Rightarrow> bool" where
  "less_eq_PreviousResponseCacheKey k k' \<longleftrightarrow> key_fields k \<le> key_fields k'"

definition less_PreviousResponseCacheKey :: "PreviousResponseCacheKey \<Rightarrow> PreviousResponseCacheKey \<Rightarrow> bool" where
  "less_PreviousResponseCacheKey k k' \<longleftrightarrow> key_fields k < key_fields k'"

instance
  by intro_classes
    (auto simp only: less_eq_PreviousResponseCacheKey_def less_PreviousResponseCacheKey_def less_le_not_le
      key_fields_inject [symmetric] linear intro: order_trans antisym)

end

text \<open>\<open>Vec<Value>\<close> with its capacity.\<close>

type_synonym items = "nat \<times> Value list"

record PreviousResponseCacheEntry =
  ce_items :: items
  ce_bytes :: nat
  ce_expires_at_ms :: int
  ce_access_sequence :: nat
  ce_retained_bytes :: nat

datatype PreviousResponseUnavailableReason = Expired | CountEvicted | ByteEvicted | EntryTooLarge | TooManyItems | MemoryCapacity

record PreviousResponseTombstone =
  pt_reason :: PreviousResponseUnavailableReason
  pt_expires_at_ms :: int
  pt_access_sequence :: nat
  pt_retained_bytes :: nat

record PreviousResponseCacheStats =
  st_current_entries :: nat
  st_current_bytes :: nat
  st_current_tombstones :: nat
  st_current_retained_bytes :: nat
  st_high_water_retained_bytes :: nat
  st_process_capacity_rejections :: nat
  st_high_water_entries :: nat
  st_high_water_bytes :: nat
  st_max_observed_entry_bytes :: nat
  st_max_observed_entry_items :: nat
  st_hits :: nat
  st_misses :: nat
  st_expired :: nat
  st_count_evictions :: nat
  st_byte_evictions :: nat
  st_oversize_entry_rejections :: nat
  st_too_many_items_rejections :: nat
  st_invalid_response_id_rejections :: nat
  st_required_context_unavailable :: nat

record 'a PreviousResponseCacheLookup =
  lk_items :: "'a option"
  lk_unavailable_reason :: "PreviousResponseUnavailableReason option"

record PreviousResponseCache =
  pc_entries :: "(PreviousResponseCacheKey, PreviousResponseCacheEntry) btree"
  pc_tombstones :: "(PreviousResponseCacheKey, PreviousResponseTombstone) btree"
  pc_total_bytes :: nat
  pc_access_sequence :: nat
  pc_stats :: PreviousResponseCacheStats

definition empty_stats :: PreviousResponseCacheStats where
  "empty_stats = \<lparr>st_current_entries = 0, st_current_bytes = 0, st_current_tombstones = 0, st_current_retained_bytes = 0,
     st_high_water_retained_bytes = 0, st_process_capacity_rejections = 0, st_high_water_entries = 0, st_high_water_bytes = 0,
     st_max_observed_entry_bytes = 0, st_max_observed_entry_items = 0, st_hits = 0, st_misses = 0, st_expired = 0,
     st_count_evictions = 0, st_byte_evictions = 0, st_oversize_entry_rejections = 0, st_too_many_items_rejections = 0,
     st_invalid_response_id_rejections = 0, st_required_context_unavailable = 0\<rparr>"

definition with_parent :: PreviousResponseCache where
  "with_parent = \<lparr>pc_entries = [], pc_tombstones = [], pc_total_bytes = 0, pc_access_sequence = 0, pc_stats = empty_stats\<rparr>"

text \<open>
  What the cache takes from outside the repository: the chunks \<open>serde_json\<close> writes for a value, and the
  sizes of a \<open>Value\<close>, of a key with an entry and of a key with a tombstone in memory.
\<close>

record cache_lib =
  lib_to_writer :: "Value \<Rightarrow> string list"
  lib_value_size :: nat
  lib_entry_size :: nat
  lib_tombstone_size :: nat

subsection \<open>Keys and sizes\<close>

definition cache_key :: "PreviousResponseCacheScope \<Rightarrow> string \<Rightarrow> PreviousResponseCacheKey option" where
  "cache_key scope response_id =
     (if response_id = [] \<or> length response_id > CACHE_MAX_RESPONSE_ID_LEN \<or> trim response_id \<noteq> response_id then None
      else Some (Key scope response_id))"

text \<open>The strings of a key are clones, whose capacity is their length.\<close>

definition key_retained_bytes :: "nat \<Rightarrow> PreviousResponseCacheKey \<Rightarrow> nat" where
  "key_retained_bytes pair_size k = (let s = pk_scope k in
     fold (\<lambda>value bytes. saturating_add_u64 bytes (length value))
       [ps_share_id s, ps_principal s, ps_provider_id s, ps_runtime_fingerprint s, ps_account_id s, ps_workspace_id s,
        pk_response_id k] (saturating_add_u64 pair_size (8 * 3)))"

text \<open>\<open>CountingWriter\<close> adds up the chunks with a check, as the bounded counter without a limit does.\<close>

definition encoded_item_size :: "cache_lib \<Rightarrow> Value \<Rightarrow> nat option" where
  "encoded_item_size lib item = counter_write u64_max 0 (lib_to_writer lib item)"

fun encoded_items_size_from :: "cache_lib \<Rightarrow> nat \<Rightarrow> Value list \<Rightarrow> nat option" where
  "encoded_items_size_from lib acc [] = Some acc"
| "encoded_items_size_from lib acc (item # items') = (case encoded_item_size lib item of
     None \<Rightarrow> None
   | Some n \<Rightarrow> (case checked_add_u64 acc n of None \<Rightarrow> None | Some acc' \<Rightarrow> encoded_items_size_from lib acc' items'))"

definition encoded_items_size :: "cache_lib \<Rightarrow> Value list \<Rightarrow> nat option" where
  "encoded_items_size lib xs = encoded_items_size_from lib 0 xs"

definition entry_retained_bytes :: "cache_lib \<Rightarrow> PreviousResponseCacheKey \<Rightarrow> items \<Rightarrow> nat" where
  "entry_retained_bytes lib key xs =
     fold (\<lambda>item bytes. saturating_add_u64 bytes (retained_json_bytes (lib_value_size lib) item - lib_value_size lib)) (snd xs)
       (saturating_add_u64 (key_retained_bytes (lib_entry_size lib) key) (saturating_mul_u64 (fst xs) (lib_value_size lib)))"

subsection \<open>Statistics\<close>

definition refresh_current_stats :: "PreviousResponseCache \<Rightarrow> PreviousResponseCache" where
  "refresh_current_stats c = (let
     kept = fold (\<lambda>e bytes. saturating_add_u64 bytes (ce_retained_bytes e)) (bt_values (pc_entries c)) 0;
     retained = fold (\<lambda>t bytes. saturating_add_u64 bytes (pt_retained_bytes t)) (bt_values (pc_tombstones c)) kept;
     s = pc_stats c in
     c\<lparr>pc_stats := s\<lparr>
       st_current_entries := length (pc_entries c), st_current_bytes := pc_total_bytes c,
       st_current_tombstones := length (pc_tombstones c), st_current_retained_bytes := retained,
       st_high_water_retained_bytes := max (st_high_water_retained_bytes s) retained,
       st_high_water_entries := max (st_high_water_entries s) (length (pc_entries c)),
       st_high_water_bytes := max (st_high_water_bytes s) (pc_total_bytes c)\<rparr>\<rparr>)"

text \<open>Each counter is raised by one with \<open>saturating_add\<close>.\<close>

definition raise :: "nat \<Rightarrow> nat" where
  "raise n = saturating_add_u64 n 1"

definition next_sequence :: "PreviousResponseCache \<Rightarrow> PreviousResponseCache" where
  "next_sequence c = c\<lparr>pc_access_sequence := (pc_access_sequence c + 1) mod 2 ^ 64\<rparr>"

definition record_required_context_unavailable :: "PreviousResponseCache \<Rightarrow> PreviousResponseCache" where
  "record_required_context_unavailable c = c\<lparr>pc_stats := (pc_stats c)\<lparr>
     st_required_context_unavailable := raise (st_required_context_unavailable (pc_stats c))\<rparr>\<rparr>"

subsection \<open>Tombstones\<close>

text \<open>\<open>Iterator::min_by_key\<close>: the first of the least elements.\<close>

definition min_by_key :: "('a \<Rightarrow> nat) \<Rightarrow> 'a list \<Rightarrow> 'a option" where
  "min_by_key f xs = (case xs of [] \<Rightarrow> None | x # ys \<Rightarrow> Some (fold (\<lambda>y m. if f y < f m then y else m) ys x))"

lemma fold_min_mem: "fold (\<lambda>y m. if f y < f m then y else m) ys x \<in> insert x (set ys)"
  by (induction ys arbitrary: x) (auto split: if_splits)

lemma min_by_key_mem: "min_by_key f xs = Some x \<Longrightarrow> x \<in> set xs"
  using fold_min_mem by (fastforce simp: min_by_key_def split: list.splits)

lemma length_bt_remove_less: "(k, v) \<in> set m \<Longrightarrow> length (bt_remove k m) < length m"
  by (auto simp: bt_remove_def intro: length_filter_less)

function trim_tombstones ::
  "ResidentMemorySnapshot \<Rightarrow> (PreviousResponseCacheKey, PreviousResponseTombstone) btree \<Rightarrow>
   ResidentMemorySnapshot \<times> (PreviousResponseCacheKey, PreviousResponseTombstone) btree" where
  "trim_tombstones p tombs =
     (if length tombs > TOMBSTONE_MAX_ENTRIES then
        (case min_by_key (\<lambda>e. pt_access_sequence (snd e)) tombs of
           None \<Rightarrow> (p, tombs)
         | Some (oldest, tombstone) \<Rightarrow> trim_tombstones (drop_owner p (pt_retained_bytes tombstone)) (bt_remove oldest tombs))
      else (p, tombs))"
  by pat_completeness auto
termination
  by (relation "measure (length \<circ> snd)") (auto dest!: min_by_key_mem intro: length_bt_remove_less)

declare trim_tombstones.simps [simp del]

definition drop_previous :: "('v \<Rightarrow> nat) \<Rightarrow> ResidentMemorySnapshot \<Rightarrow> 'v option \<Rightarrow> ResidentMemorySnapshot" where
  "drop_previous bytes p v = (case v of None \<Rightarrow> p | Some v \<Rightarrow> drop_owner p (bytes v))"

definition mark_tombstone ::
  "cache_lib \<Rightarrow> int \<Rightarrow> ResidentMemorySnapshot \<times> PreviousResponseCache \<Rightarrow> PreviousResponseCacheKey \<Rightarrow>
   PreviousResponseUnavailableReason \<Rightarrow> ResidentMemorySnapshot \<times> PreviousResponseCache" where
  "mark_tombstone lib now_ms s key reason = (case s of (p, c) \<Rightarrow>
     let retained = key_retained_bytes (lib_tombstone_size lib) key in
     case reserve_owner p retained of
       (p1, None) \<Rightarrow> (p1, refresh_current_stats c)
     | (p1, Some _) \<Rightarrow>
         let c1 = next_sequence c;
             p2 = drop_previous pt_retained_bytes p1 (bt_get (pc_tombstones c1) key);
             tombs = bt_insert key \<lparr>pt_reason = reason, pt_expires_at_ms = saturate_i64 (now_ms + TOMBSTONE_TTL_MS),
               pt_access_sequence = pc_access_sequence c1, pt_retained_bytes = retained\<rparr> (pc_tombstones c1);
             (p3, tombs') = trim_tombstones p2 tombs in
         (p3, refresh_current_stats (c1\<lparr>pc_tombstones := tombs'\<rparr>)))"

subsection \<open>Expiry\<close>

definition remove_expired ::
  "cache_lib \<Rightarrow> int \<Rightarrow> PreviousResponseCacheKey \<Rightarrow> ResidentMemorySnapshot \<times> PreviousResponseCache \<Rightarrow>
   ResidentMemorySnapshot \<times> PreviousResponseCache" where
  "remove_expired lib now_ms key s = (case s of (p, c) \<Rightarrow>
     case bt_get (pc_entries c) key of
       None \<Rightarrow> (p, c)
     | Some entry \<Rightarrow>
         let (p', c') = mark_tombstone lib now_ms (p, c\<lparr>pc_entries := bt_remove key (pc_entries c),
               pc_total_bytes := pc_total_bytes c - ce_bytes entry,
               pc_stats := (pc_stats c)\<lparr>st_expired := raise (st_expired (pc_stats c))\<rparr>\<rparr>) key Expired in
         (drop_owner p' (ce_retained_bytes entry), c'))"

definition cleanup ::
  "cache_lib \<Rightarrow> int \<Rightarrow> ResidentMemorySnapshot \<times> PreviousResponseCache \<Rightarrow> ResidentMemorySnapshot \<times> PreviousResponseCache" where
  "cleanup lib now_ms s = (let
     expired = map fst (filter (\<lambda>e. ce_expires_at_ms (snd e) \<le> now_ms) (pc_entries (snd s)));
     (p, c) = fold (remove_expired lib now_ms) expired s;
     gone = filter (\<lambda>e. \<not> pt_expires_at_ms (snd e) > now_ms) (pc_tombstones c);
     kept = filter (\<lambda>e. pt_expires_at_ms (snd e) > now_ms) (pc_tombstones c) in
     (fold (\<lambda>e q. drop_owner q (pt_retained_bytes (snd e))) gone p, refresh_current_stats (c\<lparr>pc_tombstones := kept\<rparr>)))"

subsection \<open>Lookup\<close>

definition lookup_with ::
  "cache_lib \<Rightarrow> (Value list \<Rightarrow> 'a) \<Rightarrow> PreviousResponseCacheScope \<Rightarrow> string \<Rightarrow> int \<Rightarrow>
   ResidentMemorySnapshot \<times> PreviousResponseCache \<Rightarrow>
   (ResidentMemorySnapshot \<times> PreviousResponseCache) \<times> 'a PreviousResponseCacheLookup" where
  "lookup_with lib prepare scope response_id now_ms s0 = (case cleanup lib now_ms s0 of (p, c) \<Rightarrow>
     case cache_key scope response_id of
       None \<Rightarrow> ((p, c\<lparr>pc_stats := (pc_stats c)\<lparr>
           st_invalid_response_id_rejections := raise (st_invalid_response_id_rejections (pc_stats c)),
           st_misses := raise (st_misses (pc_stats c))\<rparr>\<rparr>),
         \<lparr>lk_items = None, lk_unavailable_reason = None\<rparr>)
     | Some key \<Rightarrow>
         let c1 = next_sequence c in
         case bt_get (pc_entries c1) key of
           Some entry \<Rightarrow> ((p, c1\<lparr>
               pc_entries := bt_insert key (entry\<lparr>ce_access_sequence := pc_access_sequence c1\<rparr>) (pc_entries c1),
               pc_stats := (pc_stats c1)\<lparr>st_hits := raise (st_hits (pc_stats c1))\<rparr>\<rparr>),
             \<lparr>lk_items = Some (prepare (snd (ce_items entry))), lk_unavailable_reason = None\<rparr>)
         | None \<Rightarrow>
             let c2 = c1\<lparr>pc_stats := (pc_stats c1)\<lparr>st_misses := raise (st_misses (pc_stats c1))\<rparr>\<rparr> in
             case bt_get (pc_tombstones c2) key of
               None \<Rightarrow> ((p, c2), \<lparr>lk_items = None, lk_unavailable_reason = None\<rparr>)
             | Some tombstone \<Rightarrow> ((p, c2\<lparr>pc_tombstones :=
                   bt_insert key (tombstone\<lparr>pt_access_sequence := pc_access_sequence c2\<rparr>) (pc_tombstones c2)\<rparr>),
                 \<lparr>lk_items = None, lk_unavailable_reason = Some (pt_reason tombstone)\<rparr>))"

definition cache_lookup ::
  "cache_lib \<Rightarrow> PreviousResponseCacheScope \<Rightarrow> string \<Rightarrow> int \<Rightarrow> ResidentMemorySnapshot \<times> PreviousResponseCache \<Rightarrow>
   (ResidentMemorySnapshot \<times> PreviousResponseCache) \<times> Value list PreviousResponseCacheLookup" where
  "cache_lookup lib = lookup_with lib (\<lambda>xs. xs)"

definition cache_get ::
  "cache_lib \<Rightarrow> PreviousResponseCacheScope \<Rightarrow> string \<Rightarrow> int \<Rightarrow> ResidentMemorySnapshot \<times> PreviousResponseCache \<Rightarrow>
   (ResidentMemorySnapshot \<times> PreviousResponseCache) \<times> Value list option" where
  "cache_get lib scope response_id now_ms s = (let (s', l) = cache_lookup lib scope response_id now_ms s in (s', lk_items l))"

subsection \<open>Insertion\<close>

definition needs_room :: "nat \<Rightarrow> PreviousResponseCache \<Rightarrow> bool" where
  "needs_room bytes c \<longleftrightarrow> length (pc_entries c) \<ge> CACHE_MAX_ENTRIES \<or> saturating_add_u64 (pc_total_bytes c) bytes > CACHE_MAX_BYTES"

definition count_eviction :: "PreviousResponseUnavailableReason \<Rightarrow> PreviousResponseCacheStats \<Rightarrow> PreviousResponseCacheStats" where
  "count_eviction reason s = (case reason of
     CountEvicted \<Rightarrow> s\<lparr>st_count_evictions := raise (st_count_evictions s)\<rparr>
   | ByteEvicted \<Rightarrow> s\<lparr>st_byte_evictions := raise (st_byte_evictions s)\<rparr>
   | _ \<Rightarrow> s)"

text \<open>One round of the loop; the entry that is found is the one that \<open>remove\<close> returns.\<close>

definition evict_one ::
  "cache_lib \<Rightarrow> int \<Rightarrow> ResidentMemorySnapshot \<times> PreviousResponseCache \<Rightarrow> PreviousResponseCacheKey \<times> PreviousResponseCacheEntry \<Rightarrow>
   ResidentMemorySnapshot \<times> PreviousResponseCache" where
  "evict_one lib now_ms s found = (case s of (p, c) \<Rightarrow> case found of (oldest, removed) \<Rightarrow>
     let reason = (if length (pc_entries c) \<ge> CACHE_MAX_ENTRIES then CountEvicted else ByteEvicted);
         (p', c') = mark_tombstone lib now_ms (p, c\<lparr>pc_entries := bt_remove oldest (pc_entries c),
           pc_total_bytes := pc_total_bytes c - ce_bytes removed, pc_stats := count_eviction reason (pc_stats c)\<rparr>) oldest reason in
     (drop_owner p' (ce_retained_bytes removed), c'))"

lemma refresh_keeps [simp]:
  "pc_entries (refresh_current_stats c) = pc_entries c" "pc_tombstones (refresh_current_stats c) = pc_tombstones c"
  "pc_total_bytes (refresh_current_stats c) = pc_total_bytes c"
  "pc_access_sequence (refresh_current_stats c) = pc_access_sequence c"
  by (simp_all add: refresh_current_stats_def Let_def)

lemma next_sequence_keeps [simp]:
  "pc_entries (next_sequence c) = pc_entries c" "pc_tombstones (next_sequence c) = pc_tombstones c"
  "pc_total_bytes (next_sequence c) = pc_total_bytes c" "pc_stats (next_sequence c) = pc_stats c"
  by (simp_all add: next_sequence_def)

lemma mark_tombstone_keeps:
  "mark_tombstone lib now_ms (p, c) key reason = (p', c') \<Longrightarrow> pc_entries c' = pc_entries c \<and> pc_total_bytes c' = pc_total_bytes c"
  by (auto simp: mark_tombstone_def Let_def split: prod.splits option.splits)

lemma evict_one_entries:
  "evict_one lib now_ms (p, c) (k, e) = (p', c') \<Longrightarrow> pc_entries c' = bt_remove k (pc_entries c)"
  by (auto simp: evict_one_def Let_def dest!: mark_tombstone_keeps split: prod.splits)

function evict ::
  "cache_lib \<Rightarrow> int \<Rightarrow> nat \<Rightarrow> ResidentMemorySnapshot \<times> PreviousResponseCache \<Rightarrow>
   (ResidentMemorySnapshot \<times> PreviousResponseCache) \<times> bool" where
  "evict lib now_ms bytes s =
     (if needs_room bytes (snd s) then
        (case min_by_key (\<lambda>e. ce_access_sequence (snd e)) (pc_entries (snd s)) of
           None \<Rightarrow> (s, False)
         | Some found \<Rightarrow> evict lib now_ms bytes (evict_one lib now_ms s found))
      else (s, True))"
  by pat_completeness auto
termination
proof (relation "measure (\<lambda>(lib, now_ms, bytes, s). length (pc_entries (snd s)))")
  fix lib now_ms bytes and s :: "ResidentMemorySnapshot \<times> PreviousResponseCache" and found
  assume "min_by_key (\<lambda>e. ce_access_sequence (snd e)) (pc_entries (snd s)) = Some found"
  then show "((lib, now_ms, bytes, evict_one lib now_ms s found), lib, now_ms, bytes, s) \<in>
      measure (\<lambda>(lib, now_ms, bytes, s). length (pc_entries (snd s)))"
    using evict_one_entries [of lib now_ms "fst s" "snd s" "fst found" "snd found" "fst (evict_one lib now_ms s found)"
        "snd (evict_one lib now_ms s found)"]
      length_bt_remove_less [of "fst found" "snd found" "pc_entries (snd s)"] min_by_key_mem [of _ _ found]
    by simp
qed simp

declare evict.simps [simp del]

definition store_entry ::
  "cache_lib \<Rightarrow> PreviousResponseCacheKey \<Rightarrow> items \<Rightarrow> nat \<Rightarrow> nat \<Rightarrow> int \<Rightarrow>
   ResidentMemorySnapshot \<times> PreviousResponseCache \<Rightarrow> (ResidentMemorySnapshot \<times> PreviousResponseCache) \<times> bool" where
  "store_entry lib key xs bytes retained now_ms s = (case s of (p, c) \<Rightarrow>
     let p1 = drop_previous pt_retained_bytes p (bt_get (pc_tombstones c) key);
         p2 = drop_previous ce_retained_bytes p1 (bt_get (pc_entries c) key);
         c1 = c\<lparr>pc_tombstones := bt_remove key (pc_tombstones c), pc_entries := bt_remove key (pc_entries c),
           pc_total_bytes := (case bt_get (pc_entries c) key of
             None \<Rightarrow> pc_total_bytes c | Some previous \<Rightarrow> pc_total_bytes c - ce_bytes previous)\<rparr> in
     case evict lib now_ms bytes (p2, c1) of
       ((p3, c2), False) \<Rightarrow> ((drop_owner p3 retained, c2), False)
     | ((p3, c2), True) \<Rightarrow>
         let c3 = next_sequence c2;
             entry = \<lparr>ce_items = xs, ce_bytes = bytes, ce_expires_at_ms = saturate_i64 (now_ms + CACHE_TTL_MS),
               ce_access_sequence = pc_access_sequence c3, ce_retained_bytes = retained\<rparr> in
         ((p3, refresh_current_stats (c3\<lparr>pc_entries := bt_insert key entry (pc_entries c3),
           pc_total_bytes := saturating_add_u64 (pc_total_bytes c3) bytes\<rparr>)), True))"

definition update_stats :: "(PreviousResponseCacheStats \<Rightarrow> PreviousResponseCacheStats) \<Rightarrow> PreviousResponseCache \<Rightarrow> PreviousResponseCache" where
  "update_stats f c = c\<lparr>pc_stats := f (pc_stats c)\<rparr>"

definition cache_insert ::
  "cache_lib \<Rightarrow> PreviousResponseCacheScope \<Rightarrow> string \<Rightarrow> items \<Rightarrow> int \<Rightarrow> ResidentMemorySnapshot \<times> PreviousResponseCache \<Rightarrow>
   (ResidentMemorySnapshot \<times> PreviousResponseCache) \<times> bool" where
  "cache_insert lib scope response_id xs now_ms s0 = (case cleanup lib now_ms s0 of (p, c) \<Rightarrow>
     case cache_key scope response_id of
       None \<Rightarrow> ((p, update_stats (\<lambda>s. s\<lparr>st_invalid_response_id_rejections := raise (st_invalid_response_id_rejections s)\<rparr>) c), False)
     | Some key \<Rightarrow>
         if snd xs = [] then ((p, c), False)
         else let c1 = update_stats (\<lambda>s. s\<lparr>st_max_observed_entry_items := max (st_max_observed_entry_items s) (length (snd xs))\<rparr>) c in
         if length (snd xs) > CACHE_MAX_ITEMS_PER_ENTRY then
           (mark_tombstone lib now_ms
              (p, update_stats (\<lambda>s. s\<lparr>st_too_many_items_rejections := raise (st_too_many_items_rejections s)\<rparr>) c1) key TooManyItems, False)
         else case encoded_items_size lib (snd xs) of
           None \<Rightarrow> ((p, c1), False)
         | Some bytes \<Rightarrow>
             let c2 = update_stats (\<lambda>s. s\<lparr>st_max_observed_entry_bytes := max (st_max_observed_entry_bytes s) bytes\<rparr>) c1 in
             if bytes > CACHE_MAX_ENTRY_BYTES \<or> bytes > CACHE_MAX_BYTES then
               (mark_tombstone lib now_ms
                  (p, update_stats (\<lambda>s. s\<lparr>st_oversize_entry_rejections := raise (st_oversize_entry_rejections s)\<rparr>) c2) key EntryTooLarge, False)
             else let retained = entry_retained_bytes lib key xs in
               case reserve_owner p retained of
                 (p1, None) \<Rightarrow> (mark_tombstone lib now_ms
                    (p1, update_stats (\<lambda>s. s\<lparr>st_process_capacity_rejections := raise (st_process_capacity_rejections s)\<rparr>) c2) key MemoryCapacity, False)
               | (p1, Some _) \<Rightarrow> store_entry lib key xs bytes retained now_ms (p1, c2))"

end
