(* ===== verification/Response_Cache_Props.thy ===== *)
theory Response_Cache_Props
  imports Response_Cache Json_Value_Props
begin

section \<open>The cache keeps its bounds and its scopes\<close>

text \<open>
  All uses of the cache, beside the other owners of the process, as one transition system: sizes,
  statistics and the budget of the process agree at every moment, and what a lookup returns was
  inserted last under the same scope and id and has not expired.
\<close>

subsection \<open>Sums over maps\<close>

lemma bt_sum_remove:
  "bt_wf m \<Longrightarrow> bt_sum h (bt_remove k m) + (case bt_get m k of None \<Rightarrow> 0 | Some v \<Rightarrow> h v) = bt_sum h m"
proof (induction m)
  case (Cons e m)
  show ?case
  proof (cases "fst e = k")
    case True
    with Cons.prems have "bt_get m k = None" by (auto simp: bt_wf_Cons bt_get_None_iff)
    with Cons True show ?thesis by (simp add: bt_wf_Cons bt_get_Cons bt_remove_def ac_simps)
  next
    case False
    with Cons show ?thesis by (simp add: bt_wf_Cons bt_get_Cons bt_remove_def add.assoc)
  qed
qed (simp add: bt_remove_def)

lemma bt_sum_remove_mem: "bt_wf m \<Longrightarrow> (k, v) \<in> set m \<Longrightarrow> bt_sum h m = bt_sum h (bt_remove k m) + h v"
  using bt_sum_remove [of m h k] by (simp add: bt_get_iff_mem [symmetric])

lemma bt_sum_split: "bt_sum h (filter p m) + bt_sum h (filter (\<lambda>e. \<not> p e) m) = bt_sum h m"
  by (induction m) (auto simp: ac_simps)

lemma bt_sum_values: "bt_sum h m = sum_list (map h (bt_values m))"
  by (simp add: bt_sum_def bt_values_def)

lemma length_bt_insert_le: "length (bt_insert k v m) \<le> Suc (length m)"
  by (induction m) auto

lemma length_bt_remove_le: "length (bt_remove k m) \<le> length m"
  by (simp add: bt_remove_def)

lemma mem_bt_remove: "x \<in> set (bt_remove k m) \<longleftrightarrow> x \<in> set m \<and> fst x \<noteq> k"
  by (auto simp: bt_remove_def)

subsection \<open>Owners\<close>

lemma drop_owner_used [simp]: "rm_used_bytes (drop_owner p n) = rm_used_bytes p - n"
  by (simp add: drop_owner_def try_resize_def)

lemma reserve_owner_used:
  "reserve_owner p n = (p', r) \<Longrightarrow> rm_used_bytes p \<le> u64_max \<Longrightarrow>
   rm_used_bytes p' = rm_used_bytes p + (case r of None \<Rightarrow> 0 | Some m \<Rightarrow> m) \<and> r \<in> {None, Some n} \<and> rm_used_bytes p' \<le> u64_max"
  by (auto simp: reserve_owner_def try_resize_def split: if_splits option.splits)

text \<open>What the cache holds of the budget, beside \<open>extra\<close> bytes of other owners.\<close>

definition held :: "PreviousResponseCache \<Rightarrow> nat" where
  "held c = bt_sum ce_retained_bytes (pc_entries c) + bt_sum pt_retained_bytes (pc_tombstones c)"

definition books :: "nat \<Rightarrow> ResidentMemorySnapshot \<Rightarrow> PreviousResponseCache \<Rightarrow> bool" where
  "books extra p c \<longleftrightarrow> rm_used_bytes p = extra + held c \<and> rm_used_bytes p \<le> u64_max"

lemma held_refresh [simp]: "held (refresh_current_stats c) = held c"
  by (simp add: held_def)

lemma books_refresh [simp]: "books x p (refresh_current_stats c) = books x p c"
  by (simp add: books_def)

lemma books_reserve:
  "books x p c \<Longrightarrow> reserve_owner p n = (p', Some m) \<Longrightarrow> m = n \<and> books (x + n) p' c"
  "books x p c \<Longrightarrow> reserve_owner p n = (p', None) \<Longrightarrow> books x p' c"
  using reserve_owner_used [of p n p'] by (auto simp: books_def)

lemma books_drop: "books (x + n) p c \<Longrightarrow> books x (drop_owner p n) c"
  by (auto simp: books_def)

definition stats_current :: "PreviousResponseCache \<Rightarrow> bool" where
  "stats_current c \<longleftrightarrow> st_current_entries (pc_stats c) = length (pc_entries c) \<and>
     st_current_bytes (pc_stats c) = pc_total_bytes c \<and> st_current_tombstones (pc_stats c) = length (pc_tombstones c) \<and>
     st_current_retained_bytes (pc_stats c) = min u64_max (held c)"

lemma stats_refresh [simp]: "stats_current (refresh_current_stats c)"
  by (simp add: stats_current_def refresh_current_stats_def Let_def fold_saturating held_def bt_sum_values)

lemma stats_update:
  "stats_current c \<Longrightarrow> pc_entries c' = pc_entries c \<Longrightarrow> pc_tombstones c' = pc_tombstones c \<Longrightarrow> pc_total_bytes c' = pc_total_bytes c \<Longrightarrow>
   st_current_entries (pc_stats c') = st_current_entries (pc_stats c) \<Longrightarrow> st_current_bytes (pc_stats c') = st_current_bytes (pc_stats c) \<Longrightarrow>
   st_current_tombstones (pc_stats c') = st_current_tombstones (pc_stats c) \<Longrightarrow>
   st_current_retained_bytes (pc_stats c') = st_current_retained_bytes (pc_stats c) \<Longrightarrow> stats_current c'"
  by (simp add: stats_current_def held_def)

subsection \<open>Tombstones\<close>

definition tombs_ok :: "PreviousResponseCache \<Rightarrow> bool" where
  "tombs_ok c \<longleftrightarrow> bt_wf (pc_tombstones c) \<and> length (pc_tombstones c) \<le> TOMBSTONE_MAX_ENTRIES"

lemma min_by_key_None [simp]: "min_by_key f xs = None \<longleftrightarrow> xs = []"
  by (simp add: min_by_key_def split: list.splits)

lemma trim_tombstones_ok:
  assumes "trim_tombstones p tombs = (p', tombs')" and "bt_wf tombs" and "rm_used_bytes p = x + bt_sum pt_retained_bytes tombs"
  shows "bt_wf tombs' \<and> length tombs' \<le> TOMBSTONE_MAX_ENTRIES \<and> rm_used_bytes p' = x + bt_sum pt_retained_bytes tombs' \<and>
    rm_used_bytes p' \<le> rm_used_bytes p"
  using assms
proof (induction p tombs arbitrary: p' tombs' rule: trim_tombstones.induct)
  case (1 p tombs)
  show ?case
  proof (cases "min_by_key (\<lambda>e. pt_access_sequence (snd e)) tombs")
    case (Some found)
    obtain k t where found: "found = (k, t)" by (cases found)
    show ?thesis
    proof (cases "length tombs > TOMBSTONE_MAX_ENTRIES")
      case True
      have "(k, t) \<in> set tombs" using min_by_key_mem [OF Some] found by simp
      then have sum: "bt_sum pt_retained_bytes tombs = bt_sum pt_retained_bytes (bt_remove k tombs) + pt_retained_bytes t"
        using "1.prems"(2) by (rule bt_sum_remove_mem [rotated])
      have "trim_tombstones (drop_owner p (pt_retained_bytes t)) (bt_remove k tombs) = (p', tombs')"
        using "1.prems"(1) True Some found by (simp add: trim_tombstones.simps [of p tombs])
      from "1.IH" [OF True Some found [symmetric] this] "1.prems"(2,3) sum show ?thesis by simp
    qed (use 1 in \<open>simp add: trim_tombstones.simps [of p tombs]\<close>)
  next
    case None
    with "1.prems" show ?thesis by (auto simp: trim_tombstones.simps [of p "[]"])
  qed
qed

lemma mark_tombstone_ok:
  assumes "mark_tombstone lib now (p, c) key reason = (p', c')" and "books x p c" and "tombs_ok c"
  shows "books x p' c' \<and> tombs_ok c' \<and> stats_current c' \<and> pc_entries c' = pc_entries c \<and> pc_total_bytes c' = pc_total_bytes c"
proof -
  define n where "n = key_retained_bytes (lib_tombstone_size lib) key"
  show ?thesis
  proof (cases "reserve_owner p n")
    case (Pair p1 r)
    show ?thesis
    proof (cases r)
      case None
      with assms Pair books_reserve(2) [OF assms(2), of n p1] show ?thesis
        by (auto simp: mark_tombstone_def Let_def n_def tombs_ok_def)
    next
      case (Some m)
      define old where "old = bt_get (pc_tombstones c) key"
      obtain tombs p2 where p2: "p2 = drop_previous pt_retained_bytes p1 old"
        and tombs: "tombs = bt_insert key \<lparr>pt_reason = reason, pt_expires_at_ms = saturate_i64 (now + TOMBSTONE_TTL_MS),
          pt_access_sequence = pc_access_sequence (next_sequence c), pt_retained_bytes = n\<rparr> (pc_tombstones c)" by blast
      obtain p3 tombs' where trim: "trim_tombstones p2 tombs = (p3, tombs')" by fastforce
      have wf: "bt_wf (pc_tombstones c)" "bt_wf tombs" using assms(3) by (simp_all add: tombs_ok_def tombs)
      have used: "rm_used_bytes p1 = x + n + held c" "rm_used_bytes p1 \<le> u64_max"
        using books_reserve(1) [OF assms(2) Pair [unfolded Some]] by (simp_all add: books_def)
      have "bt_sum pt_retained_bytes tombs + (case old of None \<Rightarrow> 0 | Some v \<Rightarrow> pt_retained_bytes v) =
          bt_sum pt_retained_bytes (pc_tombstones c) + n"
        using bt_sum_insert [OF wf(1), of pt_retained_bytes key] by (simp add: tombs old_def)
      then have "rm_used_bytes p2 = (x + bt_sum ce_retained_bytes (pc_entries c)) + bt_sum pt_retained_bytes tombs"
        and "rm_used_bytes p2 \<le> rm_used_bytes p1"
        using used by (auto simp: p2 drop_previous_def held_def split: option.splits)
      with trim_tombstones_ok [OF trim wf(2)] used
      have "books x p3 (c\<lparr>pc_tombstones := tombs'\<rparr>)" "bt_wf tombs'" "length tombs' \<le> TOMBSTONE_MAX_ENTRIES"
        by (auto simp: books_def held_def)
      moreover have "p' = p3" "c' = refresh_current_stats ((next_sequence c)\<lparr>pc_tombstones := tombs'\<rparr>)"
        using assms(1) Pair Some trim by (simp_all add: mark_tombstone_def Let_def n_def p2 tombs old_def)
      ultimately show ?thesis by (auto simp: books_def held_def tombs_ok_def)
    qed
  qed
qed

subsection \<open>Entries\<close>

definition entry_ok :: "cache_lib \<Rightarrow> PreviousResponseCacheKey \<Rightarrow> PreviousResponseCacheEntry \<Rightarrow> bool" where
  "entry_ok lib k e \<longleftrightarrow> cache_key (pk_scope k) (pk_response_id k) = Some k \<and> snd (ce_items e) \<noteq> [] \<and>
     length (snd (ce_items e)) \<le> CACHE_MAX_ITEMS_PER_ENTRY \<and> encoded_items_size lib (snd (ce_items e)) = Some (ce_bytes e) \<and>
     ce_bytes e \<le> CACHE_MAX_ENTRY_BYTES"

definition entries_ok :: "cache_lib \<Rightarrow> PreviousResponseCache \<Rightarrow> bool" where
  "entries_ok lib c \<longleftrightarrow> bt_wf (pc_entries c) \<and> length (pc_entries c) \<le> CACHE_MAX_ENTRIES \<and>
     pc_total_bytes c = bt_sum ce_bytes (pc_entries c) \<and> pc_total_bytes c \<le> CACHE_MAX_BYTES \<and>
     (\<forall>(k, e) \<in> set (pc_entries c). entry_ok lib k e)"

text \<open>Removing an entry, leaving its tombstone and dropping it last, as expiry and eviction do.\<close>

lemma remove_entry_ok:
  assumes "(key, e) \<in> set (pc_entries c)" and "entries_ok lib c" and "tombs_ok c" and "books x p c"
    and "pc_entries c0 = bt_remove key (pc_entries c)" and "pc_tombstones c0 = pc_tombstones c"
    and "pc_total_bytes c0 = pc_total_bytes c - ce_bytes e"
    and "mark_tombstone lib now (p, c0) key reason = (p', c')"
  shows "entries_ok lib c' \<and> tombs_ok c' \<and> books x (drop_owner p' (ce_retained_bytes e)) c' \<and> stats_current c' \<and>
    pc_entries c' = bt_remove key (pc_entries c)"
proof -
  have wf: "bt_wf (pc_entries c)" using assms(2) by (simp add: entries_ok_def)
  note sums = bt_sum_remove_mem [OF wf assms(1), of ce_retained_bytes] bt_sum_remove_mem [OF wf assms(1), of ce_bytes]
  have "books (x + ce_retained_bytes e) p c0" using assms(4-6) sums(1) by (simp add: books_def held_def)
  moreover have "tombs_ok c0" using assms(3,6) by (simp add: tombs_ok_def)
  ultimately have *: "books (x + ce_retained_bytes e) p' c' \<and> tombs_ok c' \<and> stats_current c' \<and>
      pc_entries c' = pc_entries c0 \<and> pc_total_bytes c' = pc_total_bytes c0"
    by (rule mark_tombstone_ok [OF assms(8)])
  moreover have "entries_ok lib c'"
    using * assms(2,5,7) sums(2) order_trans [OF length_bt_remove_le [of key "pc_entries c"], of CACHE_MAX_ENTRIES]
    by (auto simp: entries_ok_def mem_bt_remove)
  ultimately show ?thesis using assms(5) by (simp add: books_drop)
qed

definition cache_ok :: "cache_lib \<Rightarrow> nat \<Rightarrow> ResidentMemorySnapshot \<Rightarrow> PreviousResponseCache \<Rightarrow> bool" where
  "cache_ok lib x p c \<longleftrightarrow> entries_ok lib c \<and> tombs_ok c \<and> books x p c"

lemma remove_expired_ok:
  assumes "remove_expired lib now key (p, c) = (p', c')" and "cache_ok lib x p c"
  shows "cache_ok lib x p' c' \<and> pc_entries c' = bt_remove key (pc_entries c)"
proof (cases "bt_get (pc_entries c) key")
  case None
  then have "bt_remove key (pc_entries c) = pc_entries c" by (auto simp: bt_remove_def bt_get_None_iff filter_id_conv)
  with None assms show ?thesis by (simp add: remove_expired_def)
next
  case (Some e)
  then have "(key, e) \<in> set (pc_entries c)" by (rule bt_get_Some_mem)
  with assms Some show ?thesis
    by (auto simp: remove_expired_def cache_ok_def split: prod.splits dest!: remove_entry_ok [rotated 7])
qed

lemma remove_all_expired_ok:
  assumes "fold (remove_expired lib now) keys (p, c) = (p', c')" and "cache_ok lib x p c"
  shows "cache_ok lib x p' c' \<and> pc_entries c' = filter (\<lambda>e. fst e \<notin> set keys) (pc_entries c)"
  using assms
proof (induction keys arbitrary: p c)
  case (Cons k keys)
  obtain p1 c1 where one: "remove_expired lib now k (p, c) = (p1, c1)" by fastforce
  from remove_expired_ok [OF one Cons.prems(2)] Cons.IH [of p1 c1] Cons.prems(1) one show ?case
    by (auto simp: bt_remove_def intro!: filter_cong)
qed simp

lemma drop_all_used:
  "rm_used_bytes p = x + bt_sum pt_retained_bytes gone \<Longrightarrow>
   rm_used_bytes (fold (\<lambda>e q. drop_owner q (pt_retained_bytes (snd e))) gone p) = x"
  by (induction gone arbitrary: p) (auto simp: add.assoc)

lemma cleanup_ok:
  assumes "cleanup lib now (p, c) = (p', c')" and "cache_ok lib x p c"
  shows "cache_ok lib x p' c' \<and> stats_current c' \<and> pc_entries c' = filter (\<lambda>e. now < ce_expires_at_ms (snd e)) (pc_entries c)"
proof -
  define keys where "keys = map fst (filter (\<lambda>e. ce_expires_at_ms (snd e) \<le> now) (pc_entries c))"
  obtain p1 c1 where fold: "fold (remove_expired lib now) keys (p, c) = (p1, c1)" by fastforce
  from remove_all_expired_ok [OF fold assms(2)] have ok: "cache_ok lib x p1 c1"
    and left: "pc_entries c1 = filter (\<lambda>e. fst e \<notin> set keys) (pc_entries c)" by auto
  have "fst e \<notin> set keys \<longleftrightarrow> now < ce_expires_at_ms (snd e)" if "e \<in> set (pc_entries c)" for e
  proof -
    have "bt_wf (pc_entries c)" using assms(2) by (simp add: cache_ok_def entries_ok_def)
    then have "inj_on fst (set (pc_entries c))" using bt_wf_distinct distinct_map by blast
    then have same: "e' = e" if "e' \<in> set (pc_entries c)" "fst e' = fst e" for e'
      using that \<open>e \<in> set (pc_entries c)\<close> by (simp add: inj_onD)
    have "fst e \<in> set keys \<longleftrightarrow> (\<exists>e' \<in> set (pc_entries c). fst e' = fst e \<and> ce_expires_at_ms (snd e') \<le> now)"
      unfolding keys_def set_map set_filter image_iff Bex_def mem_Collect_eq conj_assoc
      by (simp only: conj_commute eq_commute [of "fst e"])
    also have "\<dots> \<longleftrightarrow> ce_expires_at_ms (snd e) \<le> now" using same that by blast
    finally show ?thesis by (simp add: not_le)
  qed
  then have "pc_entries c1 = filter (\<lambda>e. now < ce_expires_at_ms (snd e)) (pc_entries c)"
    unfolding left by (rule filter_cong [OF refl])
  moreover have "cache_ok lib x p' c' \<and> stats_current c' \<and> pc_entries c' = pc_entries c1"
  proof -
    let ?live = "\<lambda>e. pt_expires_at_ms (snd e) > now"
    have eq: "c' = refresh_current_stats (c1\<lparr>pc_tombstones := filter ?live (pc_tombstones c1)\<rparr>)"
      "p' = fold (\<lambda>e q. drop_owner q (pt_retained_bytes (snd e))) (filter (\<lambda>e. \<not> ?live e) (pc_tombstones c1)) p1"
      using assms(1) fold by (simp_all only: cleanup_def Let_def keys_def snd_conv split_conv prod.inject)
    have "rm_used_bytes p1 = (x + bt_sum ce_retained_bytes (pc_entries c1) + bt_sum pt_retained_bytes (filter ?live (pc_tombstones c1))) +
        bt_sum pt_retained_bytes (filter (\<lambda>e. \<not> ?live e) (pc_tombstones c1))"
      using ok bt_sum_split [of pt_retained_bytes ?live "pc_tombstones c1"] by (simp add: cache_ok_def books_def held_def)
    from drop_all_used [OF this] this ok show ?thesis
      unfolding eq cache_ok_def by (auto simp: books_def held_def entries_ok_def tombs_ok_def intro: order_trans [OF length_filter_le])
  qed
  ultimately show ?thesis by simp
qed

subsection \<open>Lookup\<close>

text \<open>The entries of \<open>c'\<close> are entries of \<open>c\<close>, apart from when they were last used.\<close>

definition entries_from :: "PreviousResponseCache \<Rightarrow> PreviousResponseCache \<Rightarrow> bool" where
  "entries_from c c' \<longleftrightarrow> (\<forall>k e'. bt_get (pc_entries c') k = Some e' \<longrightarrow>
     (\<exists>e. bt_get (pc_entries c) k = Some e \<and> ce_items e' = ce_items e \<and> ce_expires_at_ms e' = ce_expires_at_ms e))"

lemma entries_from_subset:
  "bt_wf (pc_entries c) \<Longrightarrow> bt_wf (pc_entries c') \<Longrightarrow> set (pc_entries c') \<subseteq> set (pc_entries c) \<Longrightarrow> entries_from c c'"
  by (auto simp: entries_from_def bt_get_iff_mem)

lemma entries_from_trans: "entries_from c c' \<Longrightarrow> entries_from c' c'' \<Longrightarrow> entries_from c c''"
  unfolding entries_from_def by metis

lemma bt_get_filter: "bt_wf m \<Longrightarrow> bt_get (filter q m) k = Some v \<longleftrightarrow> bt_get m k = Some v \<and> q (k, v)"
  by (simp add: bt_get_iff_mem)

lemma bt_get_filter_case:
  assumes "bt_wf m"
  shows "bt_get (filter q m) k = (case bt_get m k of Some v \<Rightarrow> if q (k, v) then Some v else None | None \<Rightarrow> None)"
proof (cases "bt_get (filter q m) k")
  case None
  have "\<not> q (k, v)" if "bt_get m k = Some v" for v using bt_get_filter [OF assms, of q k v] that None by simp
  with None show ?thesis by (simp split: option.split)
next
  case (Some v)
  with bt_get_filter [OF assms, of q k v] show ?thesis by simp
qed

lemma bt_insert_touch:
  fixes h :: "'v \<Rightarrow> nat"
  assumes "bt_wf m" and "bt_get m k = Some v" and "h v' = h v"
  shows "bt_sum h (bt_insert k v' m) = bt_sum h m" and "length (bt_insert k v' m) = length m"
  using bt_sum_insert [OF assms(1), of h k v'] assms length_bt_insert_old [OF assms(1), of k v'] by (simp_all add: bt_contains_def)

lemma touch_entry_ok:
  assumes "cache_ok lib x p c" and "stats_current c" and "bt_get (pc_entries c) key = Some e"
    and "pc_entries c' = bt_insert key (e\<lparr>ce_access_sequence := n\<rparr>) (pc_entries c)" and "pc_tombstones c' = pc_tombstones c"
    and "pc_total_bytes c' = pc_total_bytes c" and "pc_stats c' = (pc_stats c)\<lparr>st_hits := h\<rparr>"
  shows "cache_ok lib x p c' \<and> stats_current c' \<and> entries_from c c'"
proof -
  have wf: "bt_wf (pc_entries c)" using assms(1) by (simp add: cache_ok_def entries_ok_def)
  note touch = bt_insert_touch [OF wf assms(3), of _ "e\<lparr>ce_access_sequence := n\<rparr>"]
  have "held c' = held c" using touch(1) [of ce_retained_bytes] assms(4,5) by (simp add: held_def)
  moreover have "(key, e) \<in> set (pc_entries c)" using assms(3) by (rule bt_get_Some_mem)
  then have "entries_ok lib c'"
    using assms(1,4,6) touch(1) [of ce_bytes] touch(2) [of ce_bytes] wf
    by (auto simp: cache_ok_def entries_ok_def mem_bt_insert entry_ok_def split: if_splits)
  ultimately show ?thesis
    using assms touch(2) [of ce_bytes] by (auto simp: cache_ok_def tombs_ok_def books_def stats_current_def entries_from_def)
qed

lemma touch_tombstone_ok:
  assumes "cache_ok lib x p c" and "stats_current c" and "bt_get (pc_tombstones c) key = Some t"
    and "pc_tombstones c' = bt_insert key (t\<lparr>pt_access_sequence := n\<rparr>) (pc_tombstones c)" and "pc_entries c' = pc_entries c"
    and "pc_total_bytes c' = pc_total_bytes c" and "pc_stats c' = (pc_stats c)\<lparr>st_misses := h\<rparr>"
  shows "cache_ok lib x p c' \<and> stats_current c' \<and> entries_from c c'"
proof -
  have wf: "bt_wf (pc_tombstones c)" using assms(1) by (simp add: cache_ok_def tombs_ok_def)
  note touch = bt_insert_touch [OF wf assms(3), of _ "t\<lparr>pt_access_sequence := n\<rparr>"]
  have "held c' = held c" using touch(1) [of pt_retained_bytes] assms(4,5) by (simp add: held_def)
  then show ?thesis
    using assms touch(2) [of pt_retained_bytes] by (auto simp: cache_ok_def entries_ok_def tombs_ok_def books_def stats_current_def entries_from_def)
qed

lemma same_content_ok:
  assumes "cache_ok lib x p c" and "pc_entries c' = pc_entries c" and "pc_tombstones c' = pc_tombstones c" and "pc_total_bytes c' = pc_total_bytes c"
  shows "cache_ok lib x p c' \<and> entries_from c c'"
  using assms by (simp add: cache_ok_def entries_ok_def tombs_ok_def books_def held_def entries_from_def)

lemma lookup_ok:
  assumes "lookup_with lib prepare scope rid now (p, c) = ((p', c'), l)" and "cache_ok lib x p c"
  shows "cache_ok lib x p' c' \<and> stats_current c' \<and> entries_from c c'"
    and "lk_items l = (case cache_key scope rid of None \<Rightarrow> None | Some key \<Rightarrow>
      (case bt_get (pc_entries c) key of
         Some e \<Rightarrow> if now < ce_expires_at_ms e then Some (prepare (snd (ce_items e))) else None
       | None \<Rightarrow> None))"
proof -
  obtain p1 c1 where clean: "cleanup lib now (p, c) = (p1, c1)" by fastforce
  from cleanup_ok [OF clean assms(2)] have ok: "cache_ok lib x p1 c1" and cur: "stats_current c1"
    and left: "pc_entries c1 = filter (\<lambda>e. now < ce_expires_at_ms (snd e)) (pc_entries c)" by auto
  have wf: "bt_wf (pc_entries c)" using assms(2) by (simp add: cache_ok_def entries_ok_def)
  have from1: "entries_from c c1" using wf by (intro entries_from_subset) (auto simp: left)
  have "cache_ok lib x p' c' \<and> stats_current c' \<and> entries_from c1 c'"
  proof (cases "cache_key scope rid")
    case None
    with assms(1) clean show ?thesis
      using same_content_ok [OF ok, of c'] stats_update [OF cur, of c'] by (auto simp: lookup_with_def)
  next
    case (Some key)
    note step = assms(1) [unfolded lookup_with_def clean prod.case Some option.case Let_def next_sequence_keeps]
    show ?thesis
    proof (cases "bt_get (pc_entries c1) key")
      case None
      show ?thesis
      proof (cases "bt_get (pc_tombstones c1) key")
        case notomb: None
        with step None have "p' = p1"
          "c' = (next_sequence c1)\<lparr>pc_stats := (pc_stats c1)\<lparr>st_misses := raise (st_misses (pc_stats c1))\<rparr>\<rparr>" by simp_all
        then show ?thesis using same_content_ok [OF ok, of c'] stats_update [OF cur, of c'] by simp
      next
        case (Some t)
        with step None have eq: "p' = p1" "c' = (next_sequence c1)\<lparr>
            pc_stats := (pc_stats c1)\<lparr>st_misses := raise (st_misses (pc_stats c1))\<rparr>,
            pc_tombstones := bt_insert key (t\<lparr>pt_access_sequence := pc_access_sequence (next_sequence c1)\<rparr>) (pc_tombstones c1)\<rparr>"
          by simp_all
        show ?thesis unfolding eq(1)
          by (rule touch_tombstone_ok [OF ok cur Some, where n = "pc_access_sequence (next_sequence c1)"
                and h = "raise (st_misses (pc_stats c1))"]) (simp_all add: eq(2))
      qed
    next
      case (Some e)
      with step have eq: "p' = p1" "c' = (next_sequence c1)\<lparr>
          pc_entries := bt_insert key (e\<lparr>ce_access_sequence := pc_access_sequence (next_sequence c1)\<rparr>) (pc_entries c1),
          pc_stats := (pc_stats c1)\<lparr>st_hits := raise (st_hits (pc_stats c1))\<rparr>\<rparr>"
        by simp_all
      show ?thesis unfolding eq(1)
        by (rule touch_entry_ok [OF ok cur Some, where n = "pc_access_sequence (next_sequence c1)"
              and h = "raise (st_hits (pc_stats c1))"]) (simp_all add: eq(2))
    qed
  qed
  with from1 show "cache_ok lib x p' c' \<and> stats_current c' \<and> entries_from c c'" by (blast intro: entries_from_trans)
  have get1: "bt_get (pc_entries c1) k = (case bt_get (pc_entries c) k of
      Some e \<Rightarrow> if now < ce_expires_at_ms e then Some e else None | None \<Rightarrow> None)" for k
    unfolding left bt_get_filter_case [OF wf] snd_conv by (rule refl)
  show "lk_items l = (case cache_key scope rid of None \<Rightarrow> None | Some key \<Rightarrow>
      (case bt_get (pc_entries c) key of
         Some e \<Rightarrow> if now < ce_expires_at_ms e then Some (prepare (snd (ce_items e))) else None
       | None \<Rightarrow> None))"
    using assms(1) clean by (auto simp: lookup_with_def Let_def get1 split: option.splits if_splits)
qed

subsection \<open>Insertion\<close>

lemma evict_one_ok:
  assumes "evict_one lib now (p, c) (key, e) = (p', c')" and "(key, e) \<in> set (pc_entries c)" and "cache_ok lib x p c"
  shows "cache_ok lib x p' c' \<and> pc_entries c' = bt_remove key (pc_entries c)"
proof -
  define reason where "reason = (if length (pc_entries c) \<ge> CACHE_MAX_ENTRIES then CountEvicted else ByteEvicted)"
  define c0 where "c0 = c\<lparr>pc_entries := bt_remove key (pc_entries c), pc_total_bytes := pc_total_bytes c - ce_bytes e,
    pc_stats := count_eviction reason (pc_stats c)\<rparr>"
  obtain p1 c1 where mark: "mark_tombstone lib now (p, c0) key reason = (p1, c1)" by fastforce
  have "p' = drop_owner p1 (ce_retained_bytes e)" "c' = c1"
    using assms(1) mark by (simp_all add: evict_one_def c0_def reason_def Let_def)
  with remove_entry_ok [OF assms(2) _ _ _ _ _ _ mark, of x] assms(3) show ?thesis by (simp add: c0_def cache_ok_def)
qed

lemma room_in_empty:
  assumes "entries_ok lib c" and "pc_entries c = []" and "bytes \<le> CACHE_MAX_BYTES"
  shows "\<not> needs_room bytes c"
  using assms by (simp add: needs_room_def entries_ok_def saturating_add_u64_def CACHE_MAX_BYTES_def CACHE_MAX_ENTRIES_def)

text \<open>The loop always makes room: with no entry left any admitted size fits.\<close>

lemma evict_ok:
  assumes "evict lib now bytes s = (s', ok)" and "cache_ok lib x (fst s) (snd s)" and "bytes \<le> CACHE_MAX_BYTES"
  shows "ok \<and> cache_ok lib x (fst s') (snd s') \<and> \<not> needs_room bytes (snd s') \<and> set (pc_entries (snd s')) \<subseteq> set (pc_entries (snd s))"
  using assms
proof (induction lib now bytes s arbitrary: s' rule: evict.induct)
  case (1 lib now bytes s)
  show ?case
  proof (cases "needs_room bytes (snd s)")
    case True
    have "pc_entries (snd s) \<noteq> []" using room_in_empty [of lib "snd s" bytes] "1.prems"(2,3) True by (auto simp: cache_ok_def)
    then obtain k e where found: "min_by_key (\<lambda>e. ce_access_sequence (snd e)) (pc_entries (snd s)) = Some (k, e)"
      by (cases "min_by_key (\<lambda>e. ce_access_sequence (snd e)) (pc_entries (snd s))") auto
    obtain p1 c1 where one: "evict_one lib now (fst s, snd s) (k, e) = (p1, c1)" by fastforce
    from evict_one_ok [OF one min_by_key_mem [OF found] "1.prems"(2)]
    have ok: "cache_ok lib x p1 c1" and left: "pc_entries c1 = bt_remove k (pc_entries (snd s))" by auto
    have "evict lib now bytes (evict_one lib now s (k, e)) = (s', ok)"
      using "1.prems"(1) True found by (simp add: evict.simps [of lib now bytes s])
    from "1.IH" [OF True found this] ok one "1.prems"(3) left show ?thesis by (auto simp: mem_bt_remove)
  next
    case False
    with "1.prems" show ?thesis by (auto simp: evict.simps [of lib now bytes s])
  qed
qed

definition content_from :: "PreviousResponseCacheKey \<Rightarrow> items \<Rightarrow> int \<Rightarrow> PreviousResponseCache \<Rightarrow> PreviousResponseCache \<Rightarrow> bool" where
  "content_from key xs now c c' \<longleftrightarrow>
     (\<exists>e. bt_get (pc_entries c') key = Some e \<and> ce_items e = xs \<and> ce_expires_at_ms e = saturate_i64 (now + CACHE_TTL_MS)) \<and>
     (\<forall>k e. k \<noteq> key \<longrightarrow> bt_get (pc_entries c') k = Some e \<longrightarrow> bt_get (pc_entries c) k = Some e)"

lemma drop_previous_books:
  assumes "rm_used_bytes p = x + n + (case v of None \<Rightarrow> 0 | Some v \<Rightarrow> h v)" and "rm_used_bytes p \<le> u64_max"
  shows "rm_used_bytes (drop_previous h p v) = x + n \<and> rm_used_bytes (drop_previous h p v) \<le> u64_max"
  using assms by (auto simp: drop_previous_def split: option.splits)

text \<open>The entry and the tombstone under the key are given up before room is made.\<close>

lemma clear_key_ok:
  assumes "cache_ok lib x p c"
    and "p2 = drop_previous ce_retained_bytes (drop_previous pt_retained_bytes p (bt_get (pc_tombstones c) key)) (bt_get (pc_entries c) key)"
    and "c1 = c\<lparr>pc_tombstones := bt_remove key (pc_tombstones c), pc_entries := bt_remove key (pc_entries c),
           pc_total_bytes := (case bt_get (pc_entries c) key of
             None \<Rightarrow> pc_total_bytes c | Some previous \<Rightarrow> pc_total_bytes c - ce_bytes previous)\<rparr>"
  shows "cache_ok lib x p2 c1"
proof -
  have wf: "bt_wf (pc_entries c)" "bt_wf (pc_tombstones c)" using assms(1) by (simp_all add: cache_ok_def entries_ok_def tombs_ok_def)
  note sums = bt_sum_remove [OF wf(1), of ce_retained_bytes key] bt_sum_remove [OF wf(1), of ce_bytes key]
    bt_sum_remove [OF wf(2), of pt_retained_bytes key]
  have total: "pc_total_bytes c1 = bt_sum ce_bytes (bt_remove key (pc_entries c))"
    using assms(1) sums(2) by (auto simp: assms(3) cache_ok_def entries_ok_def split: option.splits)
  moreover have "bt_sum ce_bytes (bt_remove key (pc_entries c)) \<le> bt_sum ce_bytes (pc_entries c)" using sums(2) by linarith
  ultimately have "entries_ok lib c1"
    using assms(1) wf length_bt_remove_le [of key "pc_entries c"]
    by (auto simp: assms(3) cache_ok_def entries_ok_def mem_bt_remove)
  moreover have "tombs_ok c1" using assms(1) length_bt_remove_le [of key "pc_tombstones c"] wf(2)
    by (auto simp: assms(3) cache_ok_def tombs_ok_def)
  moreover have "books x p2 c1"
  proof -
    have "rm_used_bytes p = x + (bt_sum ce_retained_bytes (bt_remove key (pc_entries c)) +
        (case bt_get (pc_entries c) key of None \<Rightarrow> 0 | Some v \<Rightarrow> ce_retained_bytes v) +
        bt_sum pt_retained_bytes (bt_remove key (pc_tombstones c))) +
        (case bt_get (pc_tombstones c) key of None \<Rightarrow> 0 | Some v \<Rightarrow> pt_retained_bytes v)" "rm_used_bytes p \<le> u64_max"
      using assms(1) sums(1,3) by (simp_all add: cache_ok_def books_def held_def)
    from drop_previous_books [OF this]
    have "rm_used_bytes (drop_previous pt_retained_bytes p (bt_get (pc_tombstones c) key)) =
        x + (bt_sum ce_retained_bytes (bt_remove key (pc_entries c)) + bt_sum pt_retained_bytes (bt_remove key (pc_tombstones c))) +
        (case bt_get (pc_entries c) key of None \<Rightarrow> 0 | Some v \<Rightarrow> ce_retained_bytes v)"
      "rm_used_bytes (drop_previous pt_retained_bytes p (bt_get (pc_tombstones c) key)) \<le> u64_max" by simp_all
    from drop_previous_books [OF this] show ?thesis by (simp add: books_def held_def assms(2,3))
  qed
  ultimately show ?thesis by (simp add: cache_ok_def)
qed

lemma add_entry_ok:
  assumes "cache_ok lib (x + retained) p c" and "\<not> needs_room bytes c" and "bt_get (pc_entries c) key = None"
    and "entry_ok lib key e" and "ce_bytes e = bytes" and "ce_retained_bytes e = retained"
    and "pc_entries c' = bt_insert key e (pc_entries c)" and "pc_total_bytes c' = saturating_add_u64 (pc_total_bytes c) bytes"
    and "pc_tombstones c' = pc_tombstones c"
  shows "cache_ok lib x p c'"
proof -
  have wf: "bt_wf (pc_entries c)" using assms(1) by (simp add: cache_ok_def entries_ok_def)
  have room: "length (pc_entries c) < CACHE_MAX_ENTRIES" "pc_total_bytes c + bytes \<le> CACHE_MAX_BYTES"
    using assms(2) by (auto simp: needs_room_def saturating_add_u64_def CACHE_MAX_BYTES_def u64_max_def)
  have "pc_total_bytes c' = pc_total_bytes c + bytes"
    using assms(8) room(2) by (simp add: saturating_add_u64_def CACHE_MAX_BYTES_def u64_max_def)
  then have "entries_ok lib c'"
    using assms(1,4,5,7) wf room bt_sum_insert [OF wf, of ce_bytes key e] assms(3) length_bt_insert_le [of key e "pc_entries c"]
    by (auto simp: cache_ok_def entries_ok_def mem_bt_insert split: if_splits)
  then show ?thesis
    using assms(1,3,6,7,9) bt_sum_insert [OF wf, of ce_retained_bytes key e]
    by (auto simp: cache_ok_def tombs_ok_def books_def held_def)
qed

lemma store_entry_ok:
  assumes "store_entry lib key xs bytes retained now (p, c) = ((p', c'), stored)" and "cache_ok lib (x + retained) p c"
    and "cache_key (pk_scope key) (pk_response_id key) = Some key" and "snd xs \<noteq> []"
    and "length (snd xs) \<le> CACHE_MAX_ITEMS_PER_ENTRY" and "encoded_items_size lib (snd xs) = Some bytes"
    and "bytes \<le> CACHE_MAX_ENTRY_BYTES" and "bytes \<le> CACHE_MAX_BYTES"
  shows "stored \<and> cache_ok lib x p' c' \<and> stats_current c' \<and> content_from key xs now c c'"
proof -
  obtain p2 c1 where
    p2: "p2 = drop_previous ce_retained_bytes (drop_previous pt_retained_bytes p (bt_get (pc_tombstones c) key)) (bt_get (pc_entries c) key)"
    and c1: "c1 = c\<lparr>pc_tombstones := bt_remove key (pc_tombstones c), pc_entries := bt_remove key (pc_entries c),
      pc_total_bytes := (case bt_get (pc_entries c) key of
        None \<Rightarrow> pc_total_bytes c | Some previous \<Rightarrow> pc_total_bytes c - ce_bytes previous)\<rparr>" by blast
  obtain s2 ok where ev: "evict lib now bytes (p2, c1) = (s2, ok)" by fastforce
  obtain p3 c2 where s2: "s2 = (p3, c2)" by (cases s2)
  have clear: "cache_ok lib (x + retained) p2 c1" by (rule clear_key_ok [OF assms(2) p2 c1])
  from evict_ok [OF ev, of "x + retained"] clear assms(8)
  have ok: ok and kept: "cache_ok lib (x + retained) p3 c2" "\<not> needs_room bytes c2" "set (pc_entries c2) \<subseteq> set (pc_entries c1)"
    by (simp_all add: s2)
  define e where "e = \<lparr>ce_items = xs, ce_bytes = bytes, ce_expires_at_ms = saturate_i64 (now + CACHE_TTL_MS),
    ce_access_sequence = pc_access_sequence (next_sequence c2), ce_retained_bytes = retained\<rparr>"
  have eq: "p' = p3" "c' = refresh_current_stats ((next_sequence c2)\<lparr>pc_entries := bt_insert key e (pc_entries c2),
      pc_total_bytes := saturating_add_u64 (pc_total_bytes c2) bytes\<rparr>)" and stored
    using assms(1) ev ok by (simp_all add: store_entry_def Let_def p2 [symmetric] c1 [symmetric] s2 e_def)
  have none: "bt_get (pc_entries c2) key = None" using kept(3) by (auto simp: bt_get_None_iff c1 mem_bt_remove)
  have "entry_ok lib key e" using assms(3-7) by (simp add: entry_ok_def e_def)
  then have "cache_ok lib x p' c'" unfolding eq by (intro add_entry_ok [OF kept(1,2) none]) (simp_all add: e_def)
  moreover have "content_from key xs now c c'"
  proof -
    have wf: "bt_wf (pc_entries c2)" "bt_wf (pc_entries c)" using kept(1) assms(2) by (simp_all add: cache_ok_def entries_ok_def)
    have "bt_get (pc_entries c) k = Some e'" if "bt_get (pc_entries c2) k = Some e'" for k e'
      using that kept(3) by (auto simp: bt_get_iff_mem [OF wf(1)] bt_get_iff_mem [OF wf(2)] c1 mem_bt_remove)
    then show ?thesis by (simp add: content_from_def eq e_def)
  qed
  ultimately show ?thesis using \<open>stored\<close> by (simp add: eq(2))
qed

lemma update_stats_keeps [simp]:
  "pc_entries (update_stats f c) = pc_entries c" "pc_tombstones (update_stats f c) = pc_tombstones c"
  "pc_total_bytes (update_stats f c) = pc_total_bytes c" "cache_ok lib x p (update_stats f c) = cache_ok lib x p c"
  by (simp_all add: update_stats_def cache_ok_def entries_ok_def tombs_ok_def books_def held_def)

lemma mark_tombstone_cache_ok:
  assumes "mark_tombstone lib now (p, c) key reason = (p', c')" and "cache_ok lib x p c"
  shows "cache_ok lib x p' c' \<and> stats_current c' \<and> entries_from c c'"
  using mark_tombstone_ok [OF assms(1), of x] assms(2) by (auto simp: cache_ok_def entries_ok_def entries_from_def)

lemma cache_key_Some: "cache_key scope rid = Some key \<Longrightarrow> key = Key scope rid \<and> cache_key (pk_scope key) (pk_response_id key) = Some key"
  by (auto simp: cache_key_def split: if_splits)

lemma stats_current_update:
  "stats_current c \<Longrightarrow> stats_current (update_stats (\<lambda>s. s\<lparr>st_invalid_response_id_rejections := f s\<rparr>) c)"
  "stats_current c \<Longrightarrow> stats_current (update_stats (\<lambda>s. s\<lparr>st_max_observed_entry_items := f s\<rparr>) c)"
  by (simp_all add: stats_current_def update_stats_def held_def)

text \<open>What an insertion does after expiry: it stores the items, or it leaves the entries alone.\<close>

definition inserted_or_kept ::
  "cache_lib \<Rightarrow> nat \<Rightarrow> PreviousResponseCacheScope \<Rightarrow> string \<Rightarrow> items \<Rightarrow> int \<Rightarrow> PreviousResponseCache \<Rightarrow>
   (ResidentMemorySnapshot \<times> PreviousResponseCache) \<times> bool \<Rightarrow> bool" where
  "inserted_or_kept lib x scope rid xs now c r \<longleftrightarrow> (case r of ((p', c'), stored) \<Rightarrow>
     cache_ok lib x p' c' \<and> stats_current c' \<and>
     (if stored then cache_key scope rid = Some (Key scope rid) \<and> content_from (Key scope rid) xs now c c' else entries_from c c'))"

lemma marked_kept:
  assumes "cache_ok lib x p c1" and "pc_entries c1 = pc_entries c"
  shows "inserted_or_kept lib x scope rid xs now c (mark_tombstone lib now (p, c1) key reason, False)"
proof -
  obtain p' c' where m: "mark_tombstone lib now (p, c1) key reason = (p', c')" by fastforce
  from mark_tombstone_cache_ok [OF m assms(1)] assms(2) show ?thesis by (simp add: inserted_or_kept_def m entries_from_def)
qed

lemma reserved_or_kept:
  assumes "cache_ok lib x p c2" and "pc_entries c2 = pc_entries c" and "cache_key scope rid = Some key" and "snd xs \<noteq> []"
    and "length (snd xs) \<le> CACHE_MAX_ITEMS_PER_ENTRY" and "encoded_items_size lib (snd xs) = Some bytes"
    and "bytes \<le> CACHE_MAX_ENTRY_BYTES" and "bytes \<le> CACHE_MAX_BYTES"
  shows "inserted_or_kept lib x scope rid xs now c (case reserve_owner p n of
      (p1, None) \<Rightarrow> (mark_tombstone lib now (p1, update_stats f c2) key MemoryCapacity, False)
    | (p1, Some _) \<Rightarrow> store_entry lib key xs bytes n now (p1, c2))"
proof -
  obtain p2 r where res: "reserve_owner p n = (p2, r)" by fastforce
  show ?thesis
  proof (cases r)
    case None
    have "cache_ok lib x p2 c2" using books_reserve(2) [of x p c2 n p2] assms(1) res None by (simp add: cache_ok_def)
    with res None assms(2) show ?thesis by (simp add: marked_kept)
  next
    case (Some m)
    have "cache_ok lib (x + n) p2 c2" using books_reserve(1) [of x p c2 n p2 m] assms(1) res Some by (simp add: cache_ok_def)
    moreover obtain p3 c3 stored where st: "store_entry lib key xs bytes n now (p2, c2) = ((p3, c3), stored)"
      by (metis prod.exhaust)
    ultimately have "stored \<and> cache_ok lib x p3 c3 \<and> stats_current c3 \<and> content_from key xs now c2 c3"
      using assms(4-8) cache_key_Some [OF assms(3)] by (intro store_entry_ok) auto
    moreover have "content_from key xs now c2 c3 = content_from key xs now c c3" using assms(2) by (simp add: content_from_def)
    ultimately show ?thesis using res Some st assms(3) cache_key_Some [OF assms(3)] by (simp add: inserted_or_kept_def)
  qed
qed

lemma cache_insert_ok:
  assumes "cleanup lib now (p, c) = (p1, c1)" and "cache_ok lib x p1 c1" and "stats_current c1"
  shows "inserted_or_kept lib x scope rid xs now c1 (cache_insert lib scope rid xs now (p, c))"
proof -
  note body = cache_insert_def [of lib scope rid xs now "(p, c)", unfolded assms(1) prod.case]
  have self: "entries_from c1 c1" by (simp add: entries_from_def)
  show ?thesis
  proof (cases "cache_key scope rid")
    case None
    with assms(2,3) self show ?thesis unfolding body by (simp add: inserted_or_kept_def stats_current_update entries_from_def)
  next
    case (Some key)
    consider (empty) "snd xs = []" | (many) "snd xs \<noteq> []" "length (snd xs) > CACHE_MAX_ITEMS_PER_ENTRY"
      | (unsized) "snd xs \<noteq> []" "\<not> length (snd xs) > CACHE_MAX_ITEMS_PER_ENTRY" "encoded_items_size lib (snd xs) = None"
      | (sized) bytes where "snd xs \<noteq> []" "\<not> length (snd xs) > CACHE_MAX_ITEMS_PER_ENTRY" "encoded_items_size lib (snd xs) = Some bytes"
      by fastforce
    then show ?thesis
    proof cases
      case empty
      with assms(2,3) self Some show ?thesis unfolding body by (simp add: inserted_or_kept_def)
    next
      case many
      with assms(2) Some show ?thesis unfolding body by (simp add: Let_def marked_kept)
    next
      case unsized
      with assms(2,3) Some show ?thesis unfolding body
        by (simp add: inserted_or_kept_def Let_def stats_current_update entries_from_def)
    next
      case sized
      with assms(2) Some show ?thesis unfolding body by (simp add: Let_def marked_kept reserved_or_kept)
    qed
  qed
qed

subsection \<open>All uses of the cache\<close>

text \<open>
  The cache, the budget of the process, the bytes that other owners hold of it and, latest first,
  what was inserted: key, items and time. Times are arbitrary, they need not grow.
\<close>

record CacheServer =
  cs_process :: ResidentMemorySnapshot
  cs_others :: nat
  cs_cache :: PreviousResponseCache
  cs_inserted :: "(PreviousResponseCacheKey \<times> Value list \<times> int) list"

inductive cache_step :: "cache_lib \<Rightarrow> CacheServer \<Rightarrow> CacheServer \<Rightarrow> bool" for lib where
  looked_up: "cache_lookup lib scope rid now (cs_process s, cs_cache s) = ((p, c), l) \<Longrightarrow>
    cache_step lib s (s\<lparr>cs_process := p, cs_cache := c\<rparr>)"
| inserted: "cache_insert lib scope rid xs now (cs_process s, cs_cache s) = ((p, c), True) \<Longrightarrow>
    cache_step lib s (s\<lparr>cs_process := p, cs_cache := c, cs_inserted := (Key scope rid, snd xs, now) # cs_inserted s\<rparr>)"
| not_inserted: "cache_insert lib scope rid xs now (cs_process s, cs_cache s) = ((p, c), False) \<Longrightarrow>
    cache_step lib s (s\<lparr>cs_process := p, cs_cache := c\<rparr>)"
| required: "cache_step lib s (s\<lparr>cs_cache := record_required_context_unavailable (cs_cache s)\<rparr>)"
| other_taken: "reserve_owner (cs_process s) n = (p, Some m) \<Longrightarrow>
    cache_step lib s (s\<lparr>cs_process := p, cs_others := cs_others s + m\<rparr>)"
| other_refused: "reserve_owner (cs_process s) n = (p, None) \<Longrightarrow> cache_step lib s (s\<lparr>cs_process := p\<rparr>)"
| other_dropped: "n \<le> cs_others s \<Longrightarrow>
    cache_step lib s (s\<lparr>cs_process := drop_owner (cs_process s) n, cs_others := cs_others s - n\<rparr>)"
| limited: "cache_step lib s (s\<lparr>cs_process := configure_limit l (cs_process s)\<rparr>)"

definition fresh_cache :: "nat option \<Rightarrow> CacheServer" where
  "fresh_cache limit = \<lparr>cs_process = new_process_budget limit, cs_others = 0, cs_cache = with_parent, cs_inserted = []\<rparr>"

definition last_inserted :: "CacheServer \<Rightarrow> PreviousResponseCacheKey \<Rightarrow> (Value list \<times> int) option" where
  "last_inserted s k = map_of (cs_inserted s) k"

text \<open>Every entry holds what was last inserted under its key.\<close>

definition traced :: "CacheServer \<Rightarrow> bool" where
  "traced s \<longleftrightarrow> (\<forall>k e. bt_get (pc_entries (cs_cache s)) k = Some e \<longrightarrow>
     (\<exists>t. last_inserted s k = Some (snd (ce_items e), t) \<and> ce_expires_at_ms e = saturate_i64 (t + CACHE_TTL_MS)))"

definition cache_inv :: "cache_lib \<Rightarrow> CacheServer \<Rightarrow> bool" where
  "cache_inv lib s \<longleftrightarrow> cache_ok lib (cs_others s) (cs_process s) (cs_cache s) \<and> stats_current (cs_cache s) \<and> traced s"

lemma traced_from:
  "traced s \<Longrightarrow> entries_from (cs_cache s) (cs_cache t) \<Longrightarrow> cs_inserted t = cs_inserted s \<Longrightarrow> traced t"
  unfolding traced_def entries_from_def last_inserted_def by metis

lemma traced_inserted:
  assumes "traced s" and "entries_from (cs_cache s) c1" and "content_from key xs now c1 (cs_cache t)"
    and "cs_inserted t = (key, snd xs, now) # cs_inserted s"
  shows "traced t"
  unfolding traced_def
proof (intro allI impI)
  fix k e assume e: "bt_get (pc_entries (cs_cache t)) k = Some e"
  show "\<exists>t'. last_inserted t k = Some (snd (ce_items e), t') \<and> ce_expires_at_ms e = saturate_i64 (t' + CACHE_TTL_MS)"
  proof (cases "k = key")
    case True
    with e assms(3,4) show ?thesis by (auto simp: content_from_def last_inserted_def)
  next
    case False
    with e assms(3) have "bt_get (pc_entries c1) k = Some e" by (simp add: content_from_def)
    with assms(1,2) False assms(4) show ?thesis unfolding traced_def entries_from_def last_inserted_def by fastforce
  qed
qed

lemma cleaned_insert:
  assumes "cache_ok lib x p c" and "cache_insert lib scope rid xs now (p, c) = ((p', c'), stored)"
  obtains c1 where "entries_from c c1" and "inserted_or_kept lib x scope rid xs now c1 ((p', c'), stored)"
proof -
  obtain p1 c1 where clean: "cleanup lib now (p, c) = (p1, c1)" by fastforce
  note ok = cleanup_ok [OF clean assms(1)]
  have "entries_from c c1" using assms(1) ok by (intro entries_from_subset) (auto simp: cache_ok_def entries_ok_def)
  moreover have "inserted_or_kept lib x scope rid xs now c1 ((p', c'), stored)"
    unfolding assms(2) [symmetric] using ok by (intro cache_insert_ok [OF clean]) simp_all
  ultimately show ?thesis by (rule that)
qed

lemma elsewhere_inv:
  assumes "cache_inv lib s" and "cs_cache t = cs_cache s" and "cs_inserted t = cs_inserted s"
    and "books (cs_others t) (cs_process t) (cs_cache s)"
  shows "cache_inv lib t"
  using assms by (simp add: cache_inv_def cache_ok_def traced_def last_inserted_def)

lemma cache_step_inv:
  assumes "cache_inv lib s" and "cache_step lib s t"
  shows "cache_inv lib t"
proof -
  have ok: "cache_ok lib (cs_others s) (cs_process s) (cs_cache s)" "stats_current (cs_cache s)" "traced s"
    using assms(1) by (simp_all add: cache_inv_def)
  note elsewhere = elsewhere_inv [OF assms(1), of t]
  show ?thesis using assms(2)
  proof cases
    case (looked_up scope rid now p c l)
    with lookup_ok(1) [OF looked_up(2) [unfolded cache_lookup_def] ok(1)] traced_from [OF ok(3), of t] show ?thesis
      by (simp add: cache_inv_def)
  next
    case (inserted scope rid xs now p c)
    from cleaned_insert [OF ok(1) inserted(2)] obtain c1 where "entries_from (cs_cache s) c1"
      and "inserted_or_kept lib (cs_others s) scope rid xs now c1 ((p, c), True)" .
    with traced_inserted [OF ok(3), of c1 "Key scope rid" xs now t] inserted(1) show ?thesis
      by (simp add: cache_inv_def inserted_or_kept_def)
  next
    case (not_inserted scope rid xs now p c)
    from cleaned_insert [OF ok(1) not_inserted(2)] obtain c1 where "entries_from (cs_cache s) c1"
      and "inserted_or_kept lib (cs_others s) scope rid xs now c1 ((p, c), False)" .
    with traced_from [OF ok(3), of t] entries_from_trans not_inserted(1) show ?thesis
      by (simp add: cache_inv_def inserted_or_kept_def)
  next
    case required
    with ok same_content_ok [OF ok(1), of "cs_cache t"] stats_update [OF ok(2), of "cs_cache t"] traced_from [OF ok(3), of t]
    show ?thesis by (simp add: cache_inv_def record_required_context_unavailable_def)
  next
    case (other_taken n p m)
    with books_reserve(1) [of "cs_others s" "cs_process s" "cs_cache s" n p m] ok(1) show ?thesis
      by (intro elsewhere) (simp_all add: cache_ok_def)
  next
    case (other_refused n p)
    with books_reserve(2) [of "cs_others s" "cs_process s" "cs_cache s" n p] ok(1) show ?thesis
      by (intro elsewhere) (simp_all add: cache_ok_def)
  next
    case (other_dropped n)
    with ok(1) show ?thesis by (intro elsewhere) (auto simp: cache_ok_def books_def)
  next
    case (limited l)
    with ok(1) show ?thesis by (intro elsewhere) (simp_all add: cache_ok_def books_def configure_limit_def)
  qed
qed

interpretation cache: transition_system "\<lambda>s. \<exists>limit. s = fresh_cache limit" "cache_step lib" "cache_inv lib" for lib
proof
  show "cache_inv lib s" if "\<exists>limit. s = fresh_cache limit" for s
    using that by (auto simp: cache_inv_def cache_ok_def fresh_cache_def new_process_budget_def with_parent_def empty_stats_def
        entries_ok_def tombs_ok_def books_def held_def stats_current_def traced_def)
  show "cache_inv lib t" if "cache_inv lib s" "cache_step lib s t" for s t using that by (rule cache_step_inv)
qed

subsection \<open>What the cache promises\<close>

lemma reachable_cache: "(cache_step lib)\<^sup>*\<^sup>* (fresh_cache limit) s \<Longrightarrow> cache_inv lib s"
  by (rule cache.reachable_inv) blast+

text \<open>
  C5. A lookup never crosses scopes and never serves stale items: in every reachable state it returns
  items only for exactly the scope and id under which they were inserted, those of the last
  insertion that was accepted, and less than ten minutes after it; and the items of an accepted insertion are
  found by the next lookup in that time.
\<close>

theorem cached_response_sound:
  assumes "(cache_step lib)\<^sup>*\<^sup>* (fresh_cache limit) s"
  shows "(\<forall>scope rid now s' xs u. cache_lookup lib scope rid now (cs_process s, cs_cache s) = (s', \<lparr>lk_items = Some xs, lk_unavailable_reason = u\<rparr>) \<longrightarrow>
      (\<exists>t. last_inserted s (Key scope rid) = Some (xs, t) \<and> now < saturate_i64 (t + CACHE_TTL_MS))) \<and>
    (\<forall>scope rid xs t now s'. cache_insert lib scope rid xs t (cs_process s, cs_cache s) = (s', True) \<and> now < saturate_i64 (t + CACHE_TTL_MS) \<longrightarrow>
      lk_items (snd (cache_lookup lib scope rid now s')) = Some (snd xs))"
proof (intro conjI allI impI)
  have inv: "cache_ok lib (cs_others s) (cs_process s) (cs_cache s)" "traced s"
    using reachable_cache [OF assms] by (simp_all add: cache_inv_def)
  fix scope rid now s' xs u
  assume hit: "cache_lookup lib scope rid now (cs_process s, cs_cache s) = (s', \<lparr>lk_items = Some xs, lk_unavailable_reason = u\<rparr>)"
  obtain p c where "s' = (p, c)" by (cases s')
  with lookup_ok(2) [OF hit [unfolded cache_lookup_def \<open>s' = (p, c)\<close>] inv(1)] obtain e where
    "bt_get (pc_entries (cs_cache s)) (Key scope rid) = Some e" "now < ce_expires_at_ms e" "xs = snd (ce_items e)"
    by (auto split: option.splits if_splits dest: cache_key_Some)
  with inv(2) show "\<exists>t. last_inserted s (Key scope rid) = Some (xs, t) \<and> now < saturate_i64 (t + CACHE_TTL_MS)"
    by (fastforce simp: traced_def)
next
  have inv: "cache_ok lib (cs_others s) (cs_process s) (cs_cache s)"
    using reachable_cache [OF assms] by (simp add: cache_inv_def)
  fix scope rid now s' and xs :: items and t
  assume ins: "cache_insert lib scope rid xs t (cs_process s, cs_cache s) = (s', True) \<and> now < saturate_i64 (t + CACHE_TTL_MS)"
  obtain p c where s': "s' = (p, c)" by (cases s')
  from cleaned_insert [OF inv, of scope rid xs t p c True] ins s' obtain c1 where
    new: "cache_ok lib (cs_others s) p c" "cache_key scope rid = Some (Key scope rid)" "content_from (Key scope rid) xs t c1 c"
    by (auto simp: inserted_or_kept_def)
  obtain q d l where look: "cache_lookup lib scope rid now (p, c) = ((q, d), l)" by (metis prod.exhaust)
  from lookup_ok(2) [OF look [unfolded cache_lookup_def] new(1)] new(2,3) ins look s'
  show "lk_items (snd (cache_lookup lib scope rid now s')) = Some (snd xs)" by (auto simp: content_from_def)
qed

definition demo_lib :: cache_lib where
  "demo_lib = \<lparr>lib_to_writer = (\<lambda>v. [compact v]), lib_value_size = 72, lib_entry_size = 400, lib_tombstone_size = 350\<rparr>"

definition demo_scope :: PreviousResponseCacheScope where
  "demo_scope = Scope ''share'' ''user'' ''codex'' 1 ''fp'' ''account'' 1 1 1 ''key'' ''ws''"

definition demo_stored :: "(ResidentMemorySnapshot \<times> PreviousResponseCache) \<times> bool" where
  "demo_stored = cache_insert demo_lib demo_scope ''resp_1'' (4, [Null]) 0 (new_process_budget None, with_parent)"

lemma reserve_unlimited: "n \<le> u64_max \<Longrightarrow> \<exists>q. reserve_owner (new_process_budget None) n = (q, Some n)"
  by (cases "n = 0")
    (simp_all add: reserve_owner_def try_resize_def new_process_budget_def within_limit_def checked_add_u64_def checked_unsigned_def)

lemma demo_stored_True: "snd demo_stored \<and> pc_total_bytes (snd (fst demo_stored)) = 4"
proof -
  have key: "cache_key demo_scope ''resp_1'' = Some (Key demo_scope ''resp_1'')"
    by (simp add: cache_key_def CACHE_MAX_RESPONSE_ID_LEN_def trim_def ws1_def ws2_def ws3_def byte_def)
  have size: "encoded_items_size demo_lib [Null] = Some 4"
    by (simp add: encoded_items_size_def encoded_item_size_def demo_lib_def checked_add_u64_def checked_unsigned_def u64_max_def)
  have clean: "cleanup demo_lib 0 (new_process_budget None, with_parent) = (new_process_budget None, refresh_current_stats with_parent)"
    by (simp add: cleanup_def with_parent_def)
  have room: "evict demo_lib 0 4 (p, c) = ((p, c), True)" if "pc_entries c = []" "pc_total_bytes c = 0" for p c
    using that by (simp add: evict.simps needs_room_def CACHE_MAX_ENTRIES_def CACHE_MAX_BYTES_def saturating_add_u64_def u64_max_def)
  have "entry_retained_bytes demo_lib (Key demo_scope ''resp_1'') (4, [Null]) \<le> u64_max"
    by (simp add: entry_retained_bytes_def fold_saturating)
  from reserve_unlimited [OF this] obtain q where
    "reserve_owner (new_process_budget None) (entry_retained_bytes demo_lib (Key demo_scope ''resp_1'') (4, [Null])) =
      (q, Some (entry_retained_bytes demo_lib (Key demo_scope ''resp_1'') (4, [Null])))" by blast
  moreover have "pc_entries with_parent = []" "pc_tombstones with_parent = []" "pc_total_bytes with_parent = 0"
    by (simp_all add: with_parent_def)
  ultimately show ?thesis
    by (simp add: demo_stored_def cache_insert_def clean key size Let_def CACHE_MAX_ITEMS_PER_ENTRY_def CACHE_MAX_ENTRY_BYTES_def
        CACHE_MAX_BYTES_def store_entry_def room bt_remove_def saturating_add_u64_def u64_max_def)
qed

theorem cached_response_sound_witness:
  "lk_items (snd (cache_lookup demo_lib demo_scope ''resp_1'' 599999 (fst demo_stored))) = Some [Null]"
proof -
  have "cache_insert demo_lib demo_scope ''resp_1'' (4, [Null]) 0 (cs_process (fresh_cache None), cs_cache (fresh_cache None)) =
      (fst demo_stored, True)"
    using demo_stored_True by (simp add: demo_stored_def fresh_cache_def prod_eq_iff)
  moreover have "599999 < saturate_i64 (0 + CACHE_TTL_MS)" by (simp add: saturate_i64_def CACHE_TTL_MS_def int_limits)
  ultimately have "lk_items (snd (cache_lookup demo_lib demo_scope ''resp_1'' 599999 (fst demo_stored))) = Some (snd (4 :: nat, [Null]))"
    by (intro cached_response_sound [OF rtranclp.rtrancl_refl, THEN conjunct2, rule_format] conjI)
  then show ?thesis by simp
qed

text \<open>
  C32. The cache stays within its bounds and accounts for itself: in every reachable state it has at
  most 2000 entries and 4000 tombstones, its byte count is the sum of the sizes of its entries and at
  most 64 MiB, no entry is larger than 8 MiB or has more than 200 items, its statistics show what it
  holds, and the process has charged exactly the retained sizes of the entries and tombstones beside what the
  other owners hold.
\<close>

theorem response_cache_bounded:
  assumes "(cache_step lib)\<^sup>*\<^sup>* (fresh_cache limit) s"
  shows "(let c = cs_cache s in length (pc_entries c) \<le> 2000 \<and> length (pc_tombstones c) \<le> 4000 \<and>
    pc_total_bytes c = (\<Sum>e \<leftarrow> bt_values (pc_entries c). ce_bytes e) \<and> pc_total_bytes c \<le> 67108864 \<and>
    (\<forall>e \<in> set (bt_values (pc_entries c)). encoded_items_size lib (snd (ce_items e)) = Some (ce_bytes e) \<and>
       ce_bytes e \<le> 8388608 \<and> 0 < length (snd (ce_items e)) \<and> length (snd (ce_items e)) \<le> 200) \<and>
    st_current_entries (pc_stats c) = length (pc_entries c) \<and> st_current_bytes (pc_stats c) = pc_total_bytes c \<and>
    st_current_tombstones (pc_stats c) = length (pc_tombstones c) \<and>
    rm_used_bytes (cs_process s) = cs_others s + st_current_retained_bytes (pc_stats c) \<and>
    st_current_retained_bytes (pc_stats c) = (\<Sum>e \<leftarrow> bt_values (pc_entries c). ce_retained_bytes e) +
      (\<Sum>t \<leftarrow> bt_values (pc_tombstones c). pt_retained_bytes t))"
proof -
  from reachable_cache [OF assms] have ok: "entries_ok lib (cs_cache s)" "tombs_ok (cs_cache s)"
    "books (cs_others s) (cs_process s) (cs_cache s)" "stats_current (cs_cache s)"
    by (simp_all add: cache_inv_def cache_ok_def)
  have "entry_ok lib k e" if "(k, e) \<in> set (pc_entries (cs_cache s))" for k e using ok(1) that by (auto simp: entries_ok_def)
  then have "encoded_items_size lib (snd (ce_items e)) = Some (ce_bytes e) \<and> ce_bytes e \<le> 8388608 \<and>
      0 < length (snd (ce_items e)) \<and> length (snd (ce_items e)) \<le> 200" if "e \<in> set (bt_values (pc_entries (cs_cache s)))" for e
    using that by (auto simp: mem_bt_values entry_ok_def CACHE_MAX_ENTRY_BYTES_def CACHE_MAX_ITEMS_PER_ENTRY_def)
  with ok show ?thesis
    by (simp add: Let_def entries_ok_def tombs_ok_def books_def stats_current_def held_def bt_sum_values CACHE_MAX_ENTRIES_def
        TOMBSTONE_MAX_ENTRIES_def CACHE_MAX_BYTES_def)
qed

definition demo_cached :: CacheServer where
  "demo_cached = \<lparr>cs_process = fst (fst demo_stored), cs_others = 0, cs_cache = snd (fst demo_stored),
     cs_inserted = [(Key demo_scope ''resp_1'', [Null], 0)]\<rparr>"

theorem response_cache_bounded_witness:
  "(cache_step demo_lib)\<^sup>*\<^sup>* (fresh_cache None) demo_cached \<and> pc_total_bytes (cs_cache demo_cached) = 4 \<and>
   rm_used_bytes (cs_process demo_cached) = st_current_retained_bytes (pc_stats (cs_cache demo_cached))"
proof -
  have "cache_insert demo_lib demo_scope ''resp_1'' (4, [Null]) 0 (cs_process (fresh_cache None), cs_cache (fresh_cache None)) =
      ((cs_process demo_cached, cs_cache demo_cached), True)"
    using demo_stored_True by (simp add: demo_stored_def demo_cached_def fresh_cache_def prod_eq_iff)
  from cache_step.inserted [OF this] have "cache_step demo_lib (fresh_cache None) demo_cached"
    by (simp add: demo_cached_def fresh_cache_def)
  then have run: "(cache_step demo_lib)\<^sup>*\<^sup>* (fresh_cache None) demo_cached" by (rule r_into_rtranclp)
  with response_cache_bounded [OF run] demo_stored_True show ?thesis by (simp add: Let_def demo_cached_def)
qed

end
