(* ===== verification/Request_Governance.thy ===== *)
theory Request_Governance
  imports Proxy_Error Json_Value
begin

section \<open>Governance of request and response bodies\<close>

text \<open>
  Model of \<open>src/src/proxy/request_governance.rs\<close>: decoding of compressed bodies, bounded and unbounded,
  and the filter that keeps private fields of a request from the upstream. The decompressors are
  parameters: a decoder gives the bytes it produces before it ends, and the error it ends with. The
  replacement of images for models that read text only is not modelled.
\<close>

definition MAX_CONTENT_CODING_LAYERS :: nat where "MAX_CONTENT_CODING_LAYERS = 4"

subsection \<open>Decoders\<close>

text \<open>A constructor that fails, which only that of \<open>zstd\<close> can, is a decoder that fails at once.\<close>

type_synonym decoder = "string \<Rightarrow> string \<times> string option"

record codec_lib =
  cd_header_str :: "string \<Rightarrow> string option"
  cd_gzip :: decoder
  cd_zlib :: decoder
  cd_deflate :: decoder
  cd_brotli :: decoder
  cd_zstd :: decoder

definition read_all :: "string \<times> string option \<Rightarrow> string + string" where
  "read_all reader = (case reader of (output, None) \<Rightarrow> Ok output | (_, Some e) \<Rightarrow> Err e)"

datatype BoundedDecodeError = Io string | TooLarge

text \<open>\<open>Read::take\<close> does not ask the decoder for more once it has its bytes, so a later error is not seen.\<close>

definition read_all_bounded :: "string \<times> string option \<Rightarrow> nat \<Rightarrow> BoundedDecodeError + string" where
  "read_all_bounded reader limit = (case reader of (bytes, fault) \<Rightarrow>
     let read_limit = saturating_add_u64 limit 1; output = take read_limit bytes in
     case (if length bytes < read_limit then fault else None) of
       Some e \<Rightarrow> Err (Io e)
     | None \<Rightarrow> if length output > limit then Err TooLarge else Ok output)"

definition decode_single_coding :: "codec_lib \<Rightarrow> string \<Rightarrow> string \<Rightarrow> string + string" where
  "decode_single_coding lib coding body =
     (if coding = ''gzip'' \<or> coding = ''x-gzip'' then read_all (cd_gzip lib body)
      else if coding = ''deflate'' then
        (case read_all (cd_zlib lib body) of Ok output \<Rightarrow> Ok output | Err _ \<Rightarrow> read_all (cd_deflate lib body))
      else if coding = ''br'' then read_all (cd_brotli lib body)
      else if coding = ''zstd'' then read_all (cd_zstd lib body)
      else Ok body)"

definition decode_single_coding_bounded ::
  "codec_lib \<Rightarrow> string \<Rightarrow> string \<Rightarrow> nat \<Rightarrow> BoundedDecodeError + string" where
  "decode_single_coding_bounded lib coding body limit =
     (if coding = ''gzip'' \<or> coding = ''x-gzip'' then read_all_bounded (cd_gzip lib body) limit
      else if coding = ''deflate'' then
        (case read_all_bounded (cd_zlib lib body) limit of
           Err (Io _) \<Rightarrow> read_all_bounded (cd_deflate lib body) limit
         | result \<Rightarrow> result)
      else if coding = ''br'' then read_all_bounded (cd_brotli lib body) limit
      else if coding = ''zstd'' then read_all_bounded (cd_zstd lib body) limit
      else Ok body)"

text \<open>The loops go through the codings from the last to the first.\<close>

fun decode_layers :: "codec_lib \<Rightarrow> string list \<Rightarrow> string \<Rightarrow> string + string" where
  "decode_layers lib [] current = Ok current"
| "decode_layers lib (coding # codings) current = rbind (decode_single_coding lib coding current) (decode_layers lib codings)"

definition decode_content_codings :: "codec_lib \<Rightarrow> string \<Rightarrow> string list \<Rightarrow> string + string" where
  "decode_content_codings lib body codings = decode_layers lib (rev codings) body"

fun decode_layers_bounded :: "codec_lib \<Rightarrow> nat \<Rightarrow> string list \<Rightarrow> string \<Rightarrow> BoundedDecodeError + string" where
  "decode_layers_bounded lib limit [] current = Ok current"
| "decode_layers_bounded lib limit (coding # codings) current =
     rbind (decode_single_coding_bounded lib coding current limit) (decode_layers_bounded lib limit codings)"

definition decode_content_codings_bounded ::
  "codec_lib \<Rightarrow> string \<Rightarrow> string list \<Rightarrow> nat \<Rightarrow> BoundedDecodeError + string" where
  "decode_content_codings_bounded lib body codings limit = decode_layers_bounded lib limit (rev codings) body"

subsection \<open>Content codings\<close>

definition content_encodings :: "(string \<times> string) list \<Rightarrow> string list" where
  "content_encodings headers = map snd (filter (\<lambda>h. fst h = ''content-encoding'') headers)"

definition content_encoding_tokens :: "codec_lib \<Rightarrow> (string \<times> string) list \<Rightarrow> string list option" where
  "content_encoding_tokens lib headers =
     (let codings = filter (\<lambda>coding. coding \<noteq> [] \<and> coding \<noteq> ''identity'')
            (map (\<lambda>coding. to_ascii_lowercase (trim coding))
              (concat (map (split_all (CHR '','')) (List.map_filter (cd_header_str lib) (content_encodings headers))))) in
      if codings = [] then None else Some codings)"

definition response_content_encoding_header_invalid :: "codec_lib \<Rightarrow> (string \<times> string) list \<Rightarrow> bool" where
  "response_content_encoding_header_invalid lib headers \<longleftrightarrow> list_ex (\<lambda>v. cd_header_str lib v = None) (content_encodings headers)"

text \<open>The environment variable that switches the extended decoders off, \<open>None\<close> when it is not set.\<close>

definition extended_response_decoding_enabled :: "string option \<Rightarrow> bool" where
  "extended_response_decoding_enabled var = (case var of
     None \<Rightarrow> True
   | Some value \<Rightarrow> to_ascii_lowercase (trim value) \<notin> set [''0'', ''false'', ''no'', ''off'', ''disabled''])"

definition is_supported_coding :: "string \<Rightarrow> bool" where
  "is_supported_coding coding \<longleftrightarrow> coding \<in> set [''gzip'', ''x-gzip'', ''deflate'', ''br'', ''zstd'']"

definition is_supported_response_coding :: "string option \<Rightarrow> string \<Rightarrow> bool" where
  "is_supported_response_coding var coding \<longleftrightarrow> coding \<in> set [''gzip'', ''x-gzip'', ''deflate''] \<or>
     extended_response_decoding_enabled var \<and> coding \<in> set [''br'', ''zstd'']"

definition sniff_response_coding :: "string \<Rightarrow> string list option" where
  "sniff_response_coding body =
     (if starts_with [CHR 0x1F, CHR 0x8B] body then Some [''gzip'']
      else if starts_with [CHR 0x28, CHR 0xB5, CHR 0x2F, CHR 0xFD] body then Some [''zstd'']
      else None)"

definition response_decoding_required :: "codec_lib \<Rightarrow> (string \<times> string) list \<Rightarrow> string \<Rightarrow> bool" where
  "response_decoding_required lib headers prefix \<longleftrightarrow>
     content_encoding_tokens lib headers \<noteq> None \<or> sniff_response_coding prefix \<noteq> None"

fun join_comma :: "string list \<Rightarrow> string" where
  "join_comma [] = []"
| "join_comma [x] = x"
| "join_comma (x # y # xs) = x @ '', '' @ join_comma (y # xs)"

subsection \<open>Requests\<close>

definition unsupported_coding :: "string list \<Rightarrow> bool" where
  "unsupported_coding codings \<longleftrightarrow>
     length codings > MAX_CONTENT_CODING_LAYERS \<or> list_ex (\<lambda>coding. \<not> is_supported_coding coding) codings"

definition decoded_request_body_too_large :: "nat \<Rightarrow> ProxyError" where
  "decoded_request_body_too_large limit = proxy_error 413 (''decoded request body exceeds the '' @ show_nat limit @ '' byte limit'')"

definition decode_request_body_for_proxy :: "codec_lib \<Rightarrow> (string \<times> string) list \<Rightarrow> string \<Rightarrow> ProxyError + string" where
  "decode_request_body_for_proxy lib headers body = (case content_encoding_tokens lib headers of
     None \<Rightarrow> Ok body
   | Some codings \<Rightarrow>
       if unsupported_coding codings
       then Err (bad_request (''unsupported request content-encoding: '' @ join_comma codings))
       else map_err (\<lambda>e. bad_request (''failed to decode request content-encoding '' @ join_comma codings @ '': '' @ e))
              (decode_content_codings lib body codings))"

definition decode_request_body_for_proxy_with_limit ::
  "codec_lib \<Rightarrow> (string \<times> string) list \<Rightarrow> string \<Rightarrow> nat \<Rightarrow> ProxyError + string" where
  "decode_request_body_for_proxy_with_limit lib headers body decoded_limit =
     (if length body > decoded_limit then Err (decoded_request_body_too_large decoded_limit)
      else case content_encoding_tokens lib headers of
        None \<Rightarrow> Ok body
      | Some codings \<Rightarrow>
          if unsupported_coding codings
          then Err (bad_request (''unsupported request content-encoding: '' @ join_comma codings))
          else case decode_content_codings_bounded lib body codings decoded_limit of
            Ok decoded \<Rightarrow> Ok decoded
          | Err TooLarge \<Rightarrow> Err (decoded_request_body_too_large decoded_limit)
          | Err (Io e) \<Rightarrow>
              Err (bad_request (''failed to decode request content-encoding '' @ join_comma codings @ '': '' @ e)))"

subsection \<open>Responses\<close>

record ResponseDecodeResult =
  rd_body :: string
  rd_preserve_content_encoding :: bool

definition decoded_response_body_too_large :: "nat \<Rightarrow> ProxyError" where
  "decoded_response_body_too_large limit =
     proxy_error 502 (''decoded upstream response body exceeds the '' @ show_nat limit @ '' byte limit'')"

definition decode_response_body_for_proxy ::
  "codec_lib \<Rightarrow> string option \<Rightarrow> (string \<times> string) list \<Rightarrow> string \<Rightarrow> ResponseDecodeResult" where
  "decode_response_body_for_proxy lib var headers body =
     (case (case content_encoding_tokens lib headers of
              Some codings \<Rightarrow> Some codings
            | None \<Rightarrow> if extended_response_decoding_enabled var then sniff_response_coding body else None) of
        None \<Rightarrow> \<lparr>rd_body = body, rd_preserve_content_encoding = False\<rparr>
      | Some codings \<Rightarrow>
          if length codings > MAX_CONTENT_CODING_LAYERS \<or> list_ex (\<lambda>coding. \<not> is_supported_response_coding var coding) codings
          then \<lparr>rd_body = body, rd_preserve_content_encoding = True\<rparr>
          else case decode_content_codings lib body codings of
            Ok decoded \<Rightarrow> \<lparr>rd_body = decoded, rd_preserve_content_encoding = False\<rparr>
          | Err _ \<Rightarrow> \<lparr>rd_body = body, rd_preserve_content_encoding = True\<rparr>)"

definition decode_response_body_for_proxy_with_limit ::
  "codec_lib \<Rightarrow> string option \<Rightarrow> (string \<times> string) list \<Rightarrow> string \<Rightarrow> nat \<Rightarrow> ProxyError + ResponseDecodeResult" where
  "decode_response_body_for_proxy_with_limit lib var headers body decoded_limit =
     (if length body > decoded_limit then Err (decoded_response_body_too_large decoded_limit)
      else if response_content_encoding_header_invalid lib headers
      then Err (bad_gateway ''invalid upstream response content-encoding header'')
      else let declared = content_encoding_tokens lib headers; sniffed = sniff_response_coding body in
      if declared = None \<and> sniffed \<noteq> None \<and> \<not> extended_response_decoding_enabled var
      then Err (bad_gateway ''headerless compressed upstream response decoding is disabled'')
      else case (case declared of Some codings \<Rightarrow> Some codings | None \<Rightarrow> sniffed) of
        None \<Rightarrow> Ok \<lparr>rd_body = body, rd_preserve_content_encoding = False\<rparr>
      | Some codings \<Rightarrow>
          if length codings > MAX_CONTENT_CODING_LAYERS
          then Err (bad_gateway (''upstream response content-encoding exceeds the '' @ show_nat MAX_CONTENT_CODING_LAYERS @ '' layer limit''))
          else if list_ex (\<lambda>coding. \<not> is_supported_response_coding var coding) codings
          then Err (bad_gateway ''unsupported upstream response content-encoding'')
          else case decode_content_codings_bounded lib body codings decoded_limit of
            Ok decoded \<Rightarrow> Ok \<lparr>rd_body = decoded, rd_preserve_content_encoding = False\<rparr>
          | Err TooLarge \<Rightarrow> Err (decoded_response_body_too_large decoded_limit)
          | Err (Io _) \<Rightarrow> Err (bad_gateway (''failed to decode upstream response content-encoding '' @ join_comma codings)))"

subsection \<open>Private fields\<close>

definition is_private_key :: "string \<Rightarrow> bool" where
  "is_private_key key \<longleftrightarrow> starts_with ''_'' key"

definition is_json_schema_name_map :: "string \<Rightarrow> bool" where
  "is_json_schema_name_map key \<longleftrightarrow> key \<in> set [''properties'', ''patternProperties'', ''definitions'', ''$defs'']"

text \<open>
  The operations of \<open>serde_json::Map\<close> with the order of insertion kept: \<open>remove\<close> puts the last member in
  the place of the removed one, \<open>get_mut\<close> changes a member in place.
\<close>

definition member_key :: "rust_string \<times> Value \<Rightarrow> string" where
  "member_key e = snd (fst e)"

definition map_remove :: "string \<Rightarrow> (rust_string \<times> Value) list \<Rightarrow> (rust_string \<times> Value) list" where
  "map_remove key members = (let i = length (takeWhile (\<lambda>e. member_key e \<noteq> key) members) in
     if i < length members then butlast (members[i := last members]) else members)"

definition map_set :: "string \<Rightarrow> Value option \<Rightarrow> (rust_string \<times> Value) list \<Rightarrow> (rust_string \<times> Value) list" where
  "map_set key child members = map (\<lambda>e. if member_key e = key then (fst e, case child of Some v \<Rightarrow> v | None \<Rightarrow> snd e) else e) members"

text \<open>
  The loop goes over the keys the object had at first, so a child is still the original one when its
  key comes; \<open>filtered\<close> holds the filtered children.
\<close>

fun filter_private_params_in_place :: "string list \<Rightarrow> bool \<Rightarrow> Value \<Rightarrow> Value" where
  "filter_private_params_in_place whitelist preserve_object_keys (Object members) =
     (let filtered = map (\<lambda>e. (snd (fst e), filter_private_params_in_place whitelist (is_json_schema_name_map (snd (fst e))) (snd e))) members in
      Object (fold (\<lambda>key object.
          if \<not> preserve_object_keys \<and> is_private_key key \<and> key \<notin> set whitelist then map_remove key object
          else map_set key (map_of filtered key) object) (map member_key members) members))"
| "filter_private_params_in_place whitelist preserve_object_keys (Array capacity xs) =
     Array capacity (map (filter_private_params_in_place whitelist False) xs)"
| "filter_private_params_in_place whitelist preserve_object_keys v = v"

definition filter_private_params_with_whitelist :: "string list \<Rightarrow> Value \<Rightarrow> Value" where
  "filter_private_params_with_whitelist whitelist body = filter_private_params_in_place whitelist False body"

end
