(* ===== verification/Request_Governance_Props.thy ===== *)
theory Request_Governance_Props
  imports Request_Governance
begin

section \<open>Decoded bodies are bounded, private fields do not pass\<close>

text \<open>
  The bounded decoders never return more than the limit, whatever a body expands to, and otherwise do
  what the unbounded ones do; the filter of private fields is described path by path.
\<close>

subsection \<open>One decoder\<close>

lemma read_all_bounded_eq:
  assumes "limit < u64_max"
  shows "read_all_bounded r limit =
    (if length (fst r) \<le> limit then map_err Io (read_all r) else Err TooLarge)"
proof -
  have "saturating_add_u64 limit 1 = Suc limit" using assms by (simp add: saturating_add_u64_def)
  then show ?thesis by (cases r) (auto simp: read_all_bounded_def read_all_def Let_def split: option.splits)
qed

lemma read_all_Ok: "read_all r = Ok b \<Longrightarrow> b = fst r"
  by (cases r) (auto simp: read_all_def split: option.splits)

text \<open>The decoders a coding may run on a body.\<close>

definition decoders_of :: "codec_lib \<Rightarrow> string \<Rightarrow> decoder list" where
  "decoders_of lib coding =
     (if coding = ''gzip'' \<or> coding = ''x-gzip'' then [cd_gzip lib]
      else if coding = ''deflate'' then [cd_zlib lib, cd_deflate lib]
      else if coding = ''br'' then [cd_brotli lib]
      else if coding = ''zstd'' then [cd_zstd lib] else [])"

lemma bounded_single_sound:
  assumes "limit < u64_max" and "decode_single_coding_bounded lib coding body limit = Ok b" and "length body \<le> limit"
  shows "decode_single_coding lib coding body = Ok b" and "length b \<le> limit"
  using assms
  by (auto simp: decode_single_coding_bounded_def decode_single_coding_def read_all_bounded_eq result_iff
      dest: read_all_Ok split: if_splits sum.splits BoundedDecodeError.splits)

lemma bounded_single_complete:
  assumes "limit < u64_max" and "decode_single_coding lib coding body = Ok b"
    and "\<forall>d \<in> set (decoders_of lib coding). length (fst (d body)) \<le> limit"
  shows "decode_single_coding_bounded lib coding body limit = Ok b"
  using assms
  by (auto simp: decode_single_coding_bounded_def decode_single_coding_def read_all_bounded_eq decoders_of_def
      split: if_splits sum.splits)

subsection \<open>Layers\<close>

lemma bounded_layers_sound:
  "limit < u64_max \<Longrightarrow> decode_layers_bounded lib limit codings body = Ok b \<Longrightarrow> length body \<le> limit \<Longrightarrow>
   decode_layers lib codings body = Ok b \<and> length b \<le> limit"
  by (induction codings arbitrary: body) (auto simp: result_iff dest: bounded_single_sound)

text \<open>No decoder that runs produces more than the limit.\<close>

fun layers_fit :: "codec_lib \<Rightarrow> nat \<Rightarrow> string list \<Rightarrow> string \<Rightarrow> bool" where
  "layers_fit lib limit [] body \<longleftrightarrow> True"
| "layers_fit lib limit (coding # codings) body \<longleftrightarrow>
     (\<forall>d \<in> set (decoders_of lib coding). length (fst (d body)) \<le> limit) \<and>
     (case decode_single_coding lib coding body of Ok b \<Rightarrow> layers_fit lib limit codings b | Err _ \<Rightarrow> True)"

lemma bounded_layers_complete:
  "limit < u64_max \<Longrightarrow> decode_layers lib codings body = Ok b \<Longrightarrow> layers_fit lib limit codings body \<Longrightarrow>
   decode_layers_bounded lib limit codings body = Ok b"
  by (induction codings arbitrary: body) (auto simp: result_iff dest: bounded_single_complete)

text \<open>
  C3. A compressed body cannot exhaust memory: whatever the headers declare and the decoders produce, a
  request or response that is accepted has at most the permitted size, at every layer, and is what
  decoding without a limit gives; and a request is refused only when it is refused without the
  limit as well, or when it or the output of a decoder is larger than the limit.
\<close>

theorem decoded_bodies_bounded:
  assumes "limit < u64_max"
  shows "(\<forall>b. decode_request_body_for_proxy_with_limit lib headers body limit = Ok b \<longrightarrow>
      length b \<le> limit \<and> decode_request_body_for_proxy lib headers body = Ok b) \<and>
    (\<forall>r. decode_response_body_for_proxy_with_limit lib var headers body limit = Ok r \<longrightarrow>
      length (rd_body r) \<le> limit \<and> \<not> rd_preserve_content_encoding r \<and> decode_response_body_for_proxy lib var headers body = r) \<and>
    (\<forall>b. decode_request_body_for_proxy lib headers body = Ok b \<longrightarrow> length body \<le> limit \<longrightarrow>
      (\<forall>codings. content_encoding_tokens lib headers = Some codings \<longrightarrow> layers_fit lib limit (rev codings) body) \<longrightarrow>
      decode_request_body_for_proxy_with_limit lib headers body limit = Ok b)"
proof (intro conjI allI impI)
  fix b assume "decode_request_body_for_proxy_with_limit lib headers body limit = Ok b"
  then show "length b \<le> limit" "decode_request_body_for_proxy lib headers body = Ok b"
    using bounded_layers_sound [OF assms]
    by (auto simp: decode_request_body_for_proxy_with_limit_def decode_request_body_for_proxy_def
        decode_content_codings_bounded_def decode_content_codings_def result_iff
        split: if_splits option.splits sum.splits BoundedDecodeError.splits)
next
  fix r assume "decode_response_body_for_proxy_with_limit lib var headers body limit = Ok r"
  then show "length (rd_body r) \<le> limit" "\<not> rd_preserve_content_encoding r" "decode_response_body_for_proxy lib var headers body = r"
    using bounded_layers_sound [OF assms]
    by (fastforce simp: decode_response_body_for_proxy_with_limit_def decode_response_body_for_proxy_def Let_def
        decode_content_codings_bounded_def decode_content_codings_def
        split: if_splits option.splits sum.splits BoundedDecodeError.splits)+
next
  fix b assume "decode_request_body_for_proxy lib headers body = Ok b" "length body \<le> limit"
    "\<forall>codings. content_encoding_tokens lib headers = Some codings \<longrightarrow> layers_fit lib limit (rev codings) body"
  then show "decode_request_body_for_proxy_with_limit lib headers body limit = Ok b"
    using bounded_layers_complete [OF assms]
    by (auto simp: decode_request_body_for_proxy_with_limit_def decode_request_body_for_proxy_def
        decode_content_codings_bounded_def decode_content_codings_def result_iff split: if_splits option.splits)
qed

definition demo_codecs :: codec_lib where
  "demo_codecs = \<lparr>cd_header_str = Some, cd_gzip = (\<lambda>b. (b @ b, None)), cd_zlib = (\<lambda>b. ([], Some ''corrupt'')),
     cd_deflate = (\<lambda>b. (b, None)), cd_brotli = (\<lambda>b. (b, None)), cd_zstd = (\<lambda>b. ([], Some ''corrupt''))\<rparr>"

lemma demo_tokens: "content_encoding_tokens demo_codecs [(''content-encoding'', ''gzip,deflate'')] = Some [''gzip'', ''deflate'']"
proof -
  have "split_all (CHR '','') ''gzip,deflate'' = [''gzip'', ''deflate'']" by (simp add: split_all.simps)
  then show ?thesis
    by (simp add: content_encoding_tokens_def content_encodings_def demo_codecs_def map_filter_simps trim_def ws1_def ws2_def ws3_def
        byte_def to_ascii_lowercase_def ascii_lower_def is_ascii_upper_def)
qed

lemma demo_layers: "decode_layers demo_codecs [''deflate'', ''gzip''] ''abc'' = Ok ''abcabc''"
  by (simp add: decode_single_coding_def demo_codecs_def read_all_def)

lemma demo_fit: "codings = [''gzip'', ''deflate''] \<Longrightarrow> layers_fit demo_codecs 6 (rev codings) ''abc''"
  by (simp add: decoders_of_def decode_single_coding_def read_all_def demo_codecs_def)

theorem decoded_bodies_bounded_witness:
  "decode_request_body_for_proxy_with_limit demo_codecs [(''content-encoding'', ''gzip,deflate'')] ''abc'' 6 = Ok ''abcabc''"
proof -
  have "decode_request_body_for_proxy demo_codecs [(''content-encoding'', ''gzip,deflate'')] ''abc'' = Ok ''abcabc''"
    using demo_layers by (simp add: decode_request_body_for_proxy_def demo_tokens unsupported_coding_def MAX_CONTENT_CODING_LAYERS_def
        is_supported_coding_def decode_content_codings_def)
  moreover have "layers_fit demo_codecs 6 (rev codings) ''abc''"
    if "content_encoding_tokens demo_codecs [(''content-encoding'', ''gzip,deflate'')] = Some codings" for codings
    using that by (simp add: demo_tokens demo_fit)
  ultimately show ?thesis
    by (intro decoded_bodies_bounded [THEN conjunct2, THEN conjunct2, rule_format]) (simp_all add: u64_max_def)
qed

subsection \<open>Members of an object\<close>

definition member_get :: "(rust_string \<times> Value) list \<Rightarrow> string \<Rightarrow> Value option" where
  "member_get members = map_of (map (\<lambda>e. (member_key e, snd e)) members)"

lemma member_get_Some:
  "distinct (map member_key members) \<Longrightarrow> member_get members k = Some v \<longleftrightarrow> (\<exists>e \<in> set members. member_key e = k \<and> snd e = v)"
  by (auto simp: member_get_def map_of_eq_Some_iff comp_def image_iff)

lemma map_remove_content:
  assumes "distinct (map member_key members)"
  shows "distinct (map member_key (map_remove k members)) \<and> set (map_remove k members) = {e \<in> set members. member_key e \<noteq> k}"
proof (cases "dropWhile (\<lambda>e. member_key e \<noteq> k) members")
  case Nil
  then have "\<forall>e \<in> set members. member_key e \<noteq> k" "takeWhile (\<lambda>e. member_key e \<noteq> k) members = members"
    by (simp_all add: dropWhile_eq_Nil_conv takeWhile_eq_all_conv)
  then have "map_remove k members = members" by (simp only: map_remove_def Let_def less_irrefl if_False)
  with assms \<open>\<forall>e \<in> set members. member_key e \<noteq> k\<close> show ?thesis by auto
next
  case (Cons x ys)
  define xs where "xs = takeWhile (\<lambda>e. member_key e \<noteq> k) members"
  have split: "members = xs @ x # ys" using Cons takeWhile_dropWhile_id [of "\<lambda>e. member_key e \<noteq> k" members] by (simp add: xs_def)
  have x: "member_key x = k" using Cons hd_dropWhile [of "\<lambda>e. member_key e \<noteq> k" members] by simp
  have "map_remove k members = (if ys = [] then xs else xs @ last ys # butlast ys)"
    by (simp add: map_remove_def Let_def flip: xs_def) (simp add: split list_update_append butlast_append)
  moreover obtain zs z where "ys = [] \<or> ys = zs @ [z]" by (cases ys rule: rev_cases) auto
  ultimately show ?thesis using assms x unfolding split by (elim disjE) (auto simp: image_iff)
qed

lemma option_when:
  assumes "\<And>v. a = Some v \<longleftrightarrow> c \<and> b = Some v"
  shows "a = (if c then b else None)"
proof (cases a)
  case None
  with assms have "\<not> (c \<and> b = Some v)" for v by simp
  with None show ?thesis by (cases b) auto
qed (use assms in auto)

lemma member_get_remove:
  assumes "distinct (map member_key members)"
  shows "member_get (map_remove k members) k' = (if k' = k then None else member_get members k')"
proof -
  note content = map_remove_content [OF assms, of k]
  have "member_get (map_remove k members) k' = Some v \<longleftrightarrow> k' \<noteq> k \<and> member_get members k' = Some v" for v
    unfolding member_get_Some [OF content [THEN conjunct1]] member_get_Some [OF assms] content [THEN conjunct2] by blast
  from option_when [OF this] show ?thesis by simp
qed

lemma member_get_set:
  "member_get (map_set k child members) k' =
     (if k' = k then map_option (\<lambda>v. case child of Some w \<Rightarrow> w | None \<Rightarrow> v) (member_get members k) else member_get members k')"
  by (induction members) (auto simp: member_get_def map_set_def member_key_def)

lemma distinct_map_set: "map member_key (map_set k child members) = map member_key members"
  by (simp add: map_set_def member_key_def comp_def if_distrib cong: if_cong)

text \<open>The loop removes the members that are not to pass and sets the others.\<close>

lemma loop_members:
  assumes "distinct (map member_key members)"
  shows "member_get (fold (\<lambda>k o'. if gone k then map_remove k o' else map_set k (child k) o') ks members) k' =
    (if k' \<in> set ks then if gone k' then None else map_option (\<lambda>v. case child k' of Some w \<Rightarrow> w | None \<Rightarrow> v) (member_get members k')
     else member_get members k')"
  using assms
proof (induction ks arbitrary: members)
  case (Cons k ks)
  show ?case
  proof (cases "gone k")
    case True
    with Cons.IH [of "map_remove k members"] map_remove_content [OF Cons.prems, of k] member_get_remove [OF Cons.prems, of k]
    show ?thesis by simp
  next
    case False
    with Cons.IH [of "map_set k (child k) members"] Cons.prems show ?thesis
      by (cases "child k") (auto simp: member_get_set distinct_map_set option.map_comp comp_def)
  qed
qed simp

subsection \<open>Paths\<close>

datatype json_step = Member string | Item nat

fun at_path :: "Value \<Rightarrow> json_step list \<Rightarrow> Value option" where
  "at_path v [] = Some v"
| "at_path (Object members) (Member k # path) = Option.bind (member_get members k) (\<lambda>v. at_path v path)"
| "at_path (Array capacity xs) (Item i # path) = (if i < length xs then at_path (xs ! i) path else None)"
| "at_path v (_ # path) = None"

text \<open>The member names of an object are distinct, as those of a map are.\<close>

fun unique_names :: "Value \<Rightarrow> bool" where
  "unique_names (Object members) \<longleftrightarrow> distinct (map member_key members) \<and> (\<forall>e \<in> set members. unique_names (snd e))"
| "unique_names (Array capacity xs) \<longleftrightarrow> (\<forall>v \<in> set xs. unique_names v)"
| "unique_names v \<longleftrightarrow> True"

text \<open>
  A path passes the filter when no name on it is private, those of the whitelist and the names that
  a schema defines apart; \<open>preserved\<close> tells whether the names of an object are names of a schema.
\<close>

fun preserved :: "bool \<Rightarrow> json_step list \<Rightarrow> bool" where
  "preserved b [] = b"
| "preserved b (Member k # path) = preserved (is_json_schema_name_map k) path"
| "preserved b (Item i # path) = preserved False path"

fun passes :: "string list \<Rightarrow> bool \<Rightarrow> json_step list \<Rightarrow> bool" where
  "passes whitelist b [] \<longleftrightarrow> True"
| "passes whitelist b (Member k # path) \<longleftrightarrow>
     (b \<or> \<not> is_private_key k \<or> k \<in> set whitelist) \<and> passes whitelist (is_json_schema_name_map k) path"
| "passes whitelist b (Item i # path) \<longleftrightarrow> passes whitelist False path"

lemma filtered_member:
  assumes "unique_names (Object members)" and "filter_private_params_in_place whitelist b (Object members) = Object members'"
  shows "member_get members' k = (if \<not> b \<and> is_private_key k \<and> k \<notin> set whitelist then None
    else map_option (filter_private_params_in_place whitelist (is_json_schema_name_map k)) (member_get members k))"
proof -
  let ?child = "map_of (map (\<lambda>e. (snd (fst e), filter_private_params_in_place whitelist (is_json_schema_name_map (snd (fst e))) (snd e))) members)"
  have child: "?child k = map_option (filter_private_params_in_place whitelist (is_json_schema_name_map k)) (member_get members k)"
    by (induction members) (auto simp: member_get_def member_key_def)
  have none: "k \<notin> set (map member_key members) \<Longrightarrow> member_get members k = None"
    by (auto simp: member_get_def map_of_eq_None_iff)
  have "members' = fold (\<lambda>k o'. if \<not> b \<and> is_private_key k \<and> k \<notin> set whitelist then map_remove k o' else map_set k (?child k) o')
      (map member_key members) members" using assms(2) by (simp add: Let_def)
  with assms(1) have "member_get members' k = (if k \<in> set (map member_key members) then if \<not> b \<and> is_private_key k \<and> k \<notin> set whitelist
      then None else map_option (\<lambda>v. case ?child k of Some w \<Rightarrow> w | None \<Rightarrow> v) (member_get members k) else member_get members k)"
    by (simp only: loop_members unique_names.simps)
  with none child show ?thesis by (cases "member_get members k") auto
qed

lemma filter_at_path:
  "unique_names v \<Longrightarrow> at_path (filter_private_params_in_place whitelist b v) path =
     (if passes whitelist b path then map_option (filter_private_params_in_place whitelist (preserved b path)) (at_path v path) else None)"
proof (induction v path arbitrary: b rule: at_path.induct)
  case (2 members k path)
  obtain members' where r: "filter_private_params_in_place whitelist b (Object members) = Object members'" by (simp add: Let_def)
  have "unique_names v" if "member_get members k = Some v" for v
    using that "2.prems" by (auto simp: member_get_Some)
  with "2.IH" show ?case
    unfolding r by (auto simp: filtered_member [OF "2.prems" r] split: option.split bind_split)
qed auto

fun scalar :: "Value \<Rightarrow> bool" where
  "scalar (Object members) \<longleftrightarrow> False"
| "scalar (Array capacity xs) \<longleftrightarrow> False"
| "scalar v \<longleftrightarrow> True"

text \<open>
  C29. The filter of private fields removes exactly those: at every path of a filtered body there is
  nothing if a name on the path is private (it starts with an underscore, is not in the whitelist and is not a name that
  a schema defines), and otherwise what was there, filtered in turn, so that text, numbers and other scalars
  that pass are unchanged.
\<close>

theorem private_fields_filtered:
  assumes "unique_names body"
  shows "at_path (filter_private_params_with_whitelist whitelist body) path =
      (if passes whitelist False path
       then map_option (filter_private_params_in_place whitelist (preserved False path)) (at_path body path) else None) \<and>
    (\<forall>v \<in> set_option (at_path body path). scalar v \<and> passes whitelist False path \<longrightarrow>
       at_path (filter_private_params_with_whitelist whitelist body) path = Some v)"
proof -
  have eq: "at_path (filter_private_params_with_whitelist whitelist body) path =
      (if passes whitelist False path
       then map_option (filter_private_params_in_place whitelist (preserved False path)) (at_path body path) else None)"
    unfolding filter_private_params_with_whitelist_def by (rule filter_at_path [OF assms])
  have "filter_private_params_in_place whitelist b v = v" if "scalar v" for v b
    using that by (cases v) simp_all
  with eq show ?thesis by (auto simp: elem_set)
qed

definition demo_body :: Value where
  "demo_body = Object [((6, ''_trace''), Bool True), ((5, ''model''), Str (1, ''m'')),
     ((10, ''properties''), Object [((3, ''_id''), Null)])]"

theorem private_fields_filtered_witness:
  "at_path (filter_private_params_with_whitelist [] demo_body) [Member ''_trace''] = None \<and>
   at_path (filter_private_params_with_whitelist [] demo_body) [Member ''model''] = Some (Str (1, ''m'')) \<and>
   at_path (filter_private_params_with_whitelist [] demo_body) [Member ''properties'', Member ''_id''] = Some Null"
proof -
  have "unique_names demo_body" by (simp add: demo_body_def member_key_def)
  from private_fields_filtered [OF this, of "[]" "[Member ''_trace'']"] private_fields_filtered [OF this, of "[]" "[Member ''model'']"]
    private_fields_filtered [OF this, of "[]" "[Member ''properties'', Member ''_id'']"]
  show ?thesis
    by (simp add: demo_body_def member_get_def member_key_def is_private_key_def is_json_schema_name_map_def starts_with_def)
qed

end
