(* ===== verification/Event_Stream.thy ===== *)
theory Event_Stream
  imports Byte_Str Ordered_Map "HOL-Library.Word"
begin

unbundle bit_operations_syntax

section \<open>The binary event stream\<close>

text \<open>
  Model of \<open>src/src/proxy/kiro/wire\<close>: frames with a checked prelude and a checked body
  (\<open>frame.rs\<close>), their typed headers (\<open>header.rs\<close>) and the decoder that cuts frames out of the
  chunks the upstream sends (\<open>decoder.rs\<close>). Checksums are 32-bit words; lengths are \<open>nat\<close>, they
  come from 32-bit fields and never leave the range of \<open>usize\<close>.
\<close>

datatype WireError = BufferOverflow nat nat | FrameTooSmall nat | FrameTooLarge nat nat
  | InvalidFrameLayout nat nat | PreludeCrcMismatch "32 word" "32 word" | MessageCrcMismatch "32 word" "32 word"
  | InvalidHeaderName | InvalidHeaderType nat | InvalidHeaderValue string | DuplicateHeader string
  | UnexpectedEof nat | RecoveryLimitExceeded nat nat | InvalidMessageType string | MissingEventType
  | InvalidEventPayload string string | Upstream string "string option" string

definition wire_error_code :: "WireError \<Rightarrow> string" where
  "wire_error_code e = (case e of
     BufferOverflow _ _ \<Rightarrow> ''KIRO_EVENT_STREAM_LIMIT''
   | FrameTooLarge _ _ \<Rightarrow> ''KIRO_EVENT_STREAM_LIMIT''
   | Upstream _ _ _ \<Rightarrow> ''KIRO_UPSTREAM_STREAM_ERROR''
   | _ \<Rightarrow> ''KIRO_EVENT_STREAM_INVALID'')"

text \<open>\<open>{:#010x}\<close>: eight hexadecimal digits behind \<open>0x\<close>.\<close>

fun hex_digits :: "nat \<Rightarrow> nat \<Rightarrow> string" where
  "hex_digits 0 n = []"
| "hex_digits (Suc k) n = hex_digits k (n div 16) @ [''0123456789abcdef'' ! (n mod 16)]"

definition show_hex :: "32 word \<Rightarrow> string" where
  "show_hex w = ''0x'' @ hex_digits 8 (unat w)"

fun wire_error_str :: "WireError \<Rightarrow> string" where
  "wire_error_str (BufferOverflow n m) = ''event stream buffer is '' @ show_nat n @ '' bytes; limit is '' @ show_nat m"
| "wire_error_str (FrameTooSmall n) = ''event stream frame length '' @ show_nat n @ '' is below 16 bytes''"
| "wire_error_str (FrameTooLarge n m) = ''event stream frame length '' @ show_nat n @ '' exceeds '' @ show_nat m"
| "wire_error_str (InvalidFrameLayout t h) =
     ''event stream frame layout is invalid (total='' @ show_nat t @ '', headers='' @ show_nat h @ '')''"
| "wire_error_str (PreludeCrcMismatch e a) =
     ''event stream prelude CRC mismatch (expected '' @ show_hex e @ '', actual '' @ show_hex a @ '')''"
| "wire_error_str (MessageCrcMismatch e a) =
     ''event stream message CRC mismatch (expected '' @ show_hex e @ '', actual '' @ show_hex a @ '')''"
| "wire_error_str InvalidHeaderName = ''event stream header name is invalid''"
| "wire_error_str (InvalidHeaderType v) = ''event stream header type '' @ show_nat v @ '' is invalid''"
| "wire_error_str (InvalidHeaderValue kind) = ''event stream '' @ kind @ '' header value is invalid''"
| "wire_error_str (DuplicateHeader name) = ''event stream contains duplicate header '' @ name"
| "wire_error_str (UnexpectedEof n) = ''event stream ended with '' @ show_nat n @ '' bytes of an incomplete frame''"
| "wire_error_str (RecoveryLimitExceeded e s) =
     ''event stream recovery limit exceeded after '' @ show_nat e @ '' errors and '' @ show_nat s @ '' skipped bytes''"
| "wire_error_str (InvalidMessageType _) = ''event stream message type is not recognized''"
| "wire_error_str MissingEventType = ''event stream message has no event type''"
| "wire_error_str (InvalidEventPayload ty message) = ''invalid '' @ ty @ '' payload: '' @ message"
| "wire_error_str (Upstream ty code message) = ''Kiro '' @ ty @
     (case code of None \<Rightarrow> [] | Some c \<Rightarrow> '' ('' @ c @ '')'') @ (if message = [] then [] else '': '' @ message)"

subsection \<open>Headers\<close>

datatype HeaderValue = Bool bool | Byte int | Short int | Integer int | Long int | ByteArray string
  | String string | Timestamp int | Uuid string

type_synonym Headers = "(string, HeaderValue) btree"

fun header_as_str :: "HeaderValue \<Rightarrow> string option" where
  "header_as_str (String value) = Some value"
| "header_as_str _ = None"

definition header_string :: "Headers \<Rightarrow> string \<Rightarrow> string option" where
  "header_string h name = Option.bind (bt_get h name) header_as_str"

definition event_type :: "Headers \<Rightarrow> string option" where "event_type h = header_string h '':event-type''"
definition message_type :: "Headers \<Rightarrow> string option" where "message_type h = header_string h '':message-type''"
definition exception_type :: "Headers \<Rightarrow> string option" where "exception_type h = header_string h '':exception-type''"
definition header_error_code :: "Headers \<Rightarrow> string option" where "header_error_code h = header_string h '':error-code''"

text \<open>The readers take the offset and return the bytes with the offset behind them.\<close>

definition take_bytes :: "string \<Rightarrow> nat \<Rightarrow> nat \<Rightarrow> string \<Rightarrow> WireError + string \<times> nat" where
  "take_bytes bytes offset len kind =
     rbind (ok_or (checked_add_u64 offset len) (InvalidHeaderValue kind)) (\<lambda>stop.
     if stop \<le> length bytes then Ok (subslice offset stop bytes, stop) else Err (InvalidHeaderValue kind))"

definition take_u8 :: "string \<Rightarrow> nat \<Rightarrow> WireError + nat \<times> nat" where
  "take_u8 bytes offset = rbind (take_bytes bytes offset 1 ''byte'') (\<lambda>(b, offset). Ok (byte (hd b), offset))"

definition take_signed :: "string \<Rightarrow> nat \<Rightarrow> nat \<Rightarrow> string \<Rightarrow> WireError + int \<times> nat" where
  "take_signed bytes offset len kind = rbind (take_bytes bytes offset len kind) (\<lambda>(b, offset). Ok (signed_be b, offset))"

text \<open>A value with a 16-bit length in front.\<close>

definition take_sized :: "string \<Rightarrow> nat \<Rightarrow> string \<Rightarrow> string \<Rightarrow> WireError + string \<times> nat" where
  "take_sized bytes offset len_kind kind = rbind (take_bytes bytes offset 2 len_kind) (\<lambda>(b, offset).
     take_bytes bytes offset (be_nat b) kind)"

definition header_value :: "string \<Rightarrow> nat \<Rightarrow> nat \<Rightarrow> WireError + HeaderValue \<times> nat" where
  "header_value bytes value_type offset =
     (if value_type = 0 then Ok (Bool True, offset)
      else if value_type = 1 then Ok (Bool False, offset)
      else if value_type = 2 then
        rbind (take_u8 bytes offset) (\<lambda>(b, offset). Ok (Byte (if b < 128 then int b else int b - 256), offset))
      else if value_type = 3 then rbind (take_signed bytes offset 2 ''short'') (\<lambda>(n, offset). Ok (Short n, offset))
      else if value_type = 4 then rbind (take_signed bytes offset 4 ''integer'') (\<lambda>(n, offset). Ok (Integer n, offset))
      else if value_type = 5 then rbind (take_signed bytes offset 8 ''long'') (\<lambda>(n, offset). Ok (Long n, offset))
      else if value_type = 6 then
        rbind (take_sized bytes offset ''byte array length'' ''byte array'') (\<lambda>(b, offset). Ok (ByteArray b, offset))
      else if value_type = 7 then
        rbind (take_sized bytes offset ''string length'' ''string'') (\<lambda>(b, offset).
        if valid_utf8 b then Ok (String b, offset) else Err (InvalidHeaderValue ''UTF-8 string''))
      else if value_type = 8 then
        rbind (take_signed bytes offset 8 ''timestamp'') (\<lambda>(n, offset). Ok (Timestamp n, offset))
      else if value_type = 9 then rbind (take_bytes bytes offset 16 ''UUID'') (\<lambda>(b, offset). Ok (Uuid b, offset))
      else Err (InvalidHeaderType value_type))"

definition parse_header :: "string \<Rightarrow> nat \<Rightarrow> WireError + (string \<times> HeaderValue) \<times> nat" where
  "parse_header bytes offset =
     rbind (take_u8 bytes offset) (\<lambda>(name_length, offset).
     rbind (check (name_length \<noteq> 0) InvalidHeaderName) (\<lambda>_.
     rbind (take_bytes bytes offset name_length ''header name'') (\<lambda>(name, offset).
     rbind (check (valid_utf8 name) InvalidHeaderName) (\<lambda>_.
     rbind (take_u8 bytes offset) (\<lambda>(value_type, offset).
     rbind (header_value bytes value_type offset) (\<lambda>(value, offset).
     Ok ((name, value), offset)))))))"

lemma take_bytes_Ok [result_iff]: "take_bytes bytes offset len kind = Ok (b, stop) \<longleftrightarrow>
    stop = offset + len \<and> stop \<le> u64_max \<and> stop \<le> length bytes \<and> b = subslice offset stop bytes"
  by (auto simp: take_bytes_def result_iff)

lemma take_u8_Ok [result_iff]: "take_u8 bytes offset = Ok (n, stop) \<longleftrightarrow>
    stop = Suc offset \<and> stop \<le> u64_max \<and> stop \<le> length bytes \<and> n = byte (hd (subslice offset stop bytes))"
  by (auto simp: take_u8_def result_iff)

lemma header_value_progress: "header_value bytes ty offset = Ok (v, stop) \<Longrightarrow> offset \<le> stop"
  by (auto simp: header_value_def take_signed_def take_sized_def result_iff split: if_splits)

lemma parse_header_progress:
  assumes "parse_header bytes offset = Ok (h, stop)"
  shows "offset < stop"
  using assms header_value_progress by (fastforce simp: parse_header_def result_iff)

function parse_headers_from :: "string \<Rightarrow> nat \<Rightarrow> Headers \<Rightarrow> WireError + Headers" where
  "parse_headers_from bytes offset headers =
     (if offset < length bytes then
        (case parse_header bytes offset of
           Err e \<Rightarrow> Err e
         | Ok ((name, value), stop) \<Rightarrow>
             if bt_contains headers name then Err (DuplicateHeader name)
             else parse_headers_from bytes stop (bt_insert name value headers))
      else Ok headers)"
  by pat_completeness auto
termination
  by (relation "measure (\<lambda>(bytes, offset, _). length bytes - offset)") (auto dest: parse_header_progress)

declare parse_headers_from.simps [simp del]

definition parse_headers :: "string \<Rightarrow> WireError + Headers" where
  "parse_headers bytes = parse_headers_from bytes 0 []"

subsection \<open>Frames\<close>

definition PRELUDE_LENGTH :: nat where "PRELUDE_LENGTH = 12"
definition MIN_FRAME_LENGTH :: nat where "MIN_FRAME_LENGTH = PRELUDE_LENGTH + 4"
definition DEFAULT_MAX_FRAME_LENGTH :: nat where "DEFAULT_MAX_FRAME_LENGTH = 16 * 1024 * 1024"

record Frame =
  fr_headers :: Headers
  fr_payload :: string

datatype ParseOutcome = Incomplete | Complete Frame nat

definition crc_bit :: "32 word \<Rightarrow> 32 word" where
  "crc_bit crc = drop_bit 1 crc XOR (0xedb88320 AND - (crc AND 1))"

definition crc_byte :: "char \<Rightarrow> 32 word \<Rightarrow> 32 word" where
  "crc_byte b crc = (crc_bit ^^ 8) (crc XOR of_nat (byte b))"

definition crc32 :: "string \<Rightarrow> 32 word" where
  "crc32 bytes = NOT (fold crc_byte bytes 0xffffffff)"

definition be_u32 :: "string \<Rightarrow> 32 word" where
  "be_u32 bytes = of_nat (be_nat bytes)"

definition parse_frame :: "string \<Rightarrow> nat \<Rightarrow> WireError + ParseOutcome" where
  "parse_frame buffer max_frame_length =
     (if length buffer < PRELUDE_LENGTH then Ok Incomplete
      else let total_length = be_nat (subslice 0 4 buffer); headers_length = be_nat (subslice 4 8 buffer) in
      if total_length < MIN_FRAME_LENGTH then Err (FrameTooSmall total_length)
      else if total_length > max_frame_length then Err (FrameTooLarge total_length max_frame_length)
      else if headers_length > total_length - MIN_FRAME_LENGTH
      then Err (InvalidFrameLayout total_length headers_length)
      else let expected = be_u32 (subslice 8 12 buffer); actual = crc32 (subslice 0 8 buffer) in
      if expected \<noteq> actual then Err (PreludeCrcMismatch expected actual)
      else if length buffer < total_length then Ok Incomplete
      else let expected = be_u32 (subslice (total_length - 4) total_length buffer);
               actual = crc32 (subslice 0 (total_length - 4) buffer) in
      if expected \<noteq> actual then Err (MessageCrcMismatch expected actual)
      else let headers_end = PRELUDE_LENGTH + headers_length in
      rbind (parse_headers (subslice PRELUDE_LENGTH headers_end buffer)) (\<lambda>headers.
      Ok (Complete \<lparr>fr_headers = headers, fr_payload = subslice headers_end (total_length - 4) buffer\<rparr> total_length)))"

lemma parse_frame_Complete:
  "parse_frame b m = Ok (Complete f n) \<Longrightarrow> MIN_FRAME_LENGTH \<le> n \<and> n \<le> length b \<and> n \<le> m"
  by (auto simp: parse_frame_def Let_def result_iff split: if_splits)

lemma parse_frame_Err: "parse_frame b m = Err e \<Longrightarrow> PRELUDE_LENGTH \<le> length b"
  by (auto simp: parse_frame_def split: if_splits)

subsection \<open>The decoder\<close>

definition DEFAULT_MAX_BUFFER_LENGTH :: nat where "DEFAULT_MAX_BUFFER_LENGTH = 16 * 1024 * 1024 + 12"

record RecoveryPolicy =
  rp_max_errors :: nat
  rp_max_skipped_bytes :: nat

definition STRICT :: RecoveryPolicy where
  "STRICT = \<lparr>rp_max_errors = 0, rp_max_skipped_bytes = 0\<rparr>"

record EventStreamDecoder =
  es_buffer :: string
  es_max_buffer_length :: nat
  es_max_frame_length :: nat
  es_recovery :: RecoveryPolicy
  es_errors :: nat
  es_skipped :: nat
  es_failed :: "WireError option"

definition with_policy :: "RecoveryPolicy \<Rightarrow> EventStreamDecoder" where
  "with_policy recovery = \<lparr>es_buffer = [], es_max_buffer_length = DEFAULT_MAX_BUFFER_LENGTH,
     es_max_frame_length = DEFAULT_MAX_FRAME_LENGTH, es_recovery = recovery, es_errors = 0, es_skipped = 0,
     es_failed = None\<rparr>"

definition strict :: EventStreamDecoder where
  "strict = with_policy STRICT"

definition fail :: "EventStreamDecoder \<Rightarrow> WireError \<Rightarrow> EventStreamDecoder \<times> (WireError + 'a)" where
  "fail d e = (d\<lparr>es_failed := Some e\<rparr>, Err e)"

definition advance :: "nat \<Rightarrow> EventStreamDecoder \<Rightarrow> EventStreamDecoder" where
  "advance n d = d\<lparr>es_buffer := drop n (es_buffer d)\<rparr>"

text \<open>One error of the drain loop: give up, or skip a byte and go on.\<close>

definition skip_byte :: "EventStreamDecoder \<Rightarrow> WireError \<Rightarrow> (EventStreamDecoder \<times> WireError) + EventStreamDecoder" where
  "skip_byte d e =
     (if es_recovery d = STRICT then Err (d, e)
      else let d1 = d\<lparr>es_errors := saturating_add_u64 (es_errors d) 1\<rparr> in
      if es_errors d1 > rp_max_errors (es_recovery d1) \<or> es_skipped d1 \<ge> rp_max_skipped_bytes (es_recovery d1)
      then Err (d1, RecoveryLimitExceeded (es_errors d1) (es_skipped d1))
      else Ok ((advance 1 d1)\<lparr>es_skipped := saturating_add_u64 (es_skipped d1) 1\<rparr>))"

lemma skip_byte_buffer: "skip_byte d e = Ok d' \<Longrightarrow> es_buffer d' = drop 1 (es_buffer d)"
  by (auto simp: skip_byte_def advance_def Let_def split: if_splits)

function drain_loop :: "Frame list \<Rightarrow> EventStreamDecoder \<Rightarrow> EventStreamDecoder \<times> (WireError + Frame list)" where
  "drain_loop frames d = (case parse_frame (es_buffer d) (es_max_frame_length d) of
     Ok Incomplete \<Rightarrow> (d, Ok frames)
   | Ok (Complete frame consumed) \<Rightarrow> drain_loop (frames @ [frame]) ((advance consumed d)\<lparr>es_errors := 0\<rparr>)
   | Err e \<Rightarrow> (case skip_byte d e of
       Err (d', e') \<Rightarrow> fail d' e'
     | Ok d' \<Rightarrow> drain_loop frames d'))"
  by pat_completeness auto
termination
  by (relation "measure (\<lambda>(_, d). length (es_buffer d))")
    (auto simp: advance_def MIN_FRAME_LENGTH_def PRELUDE_LENGTH_def dest!: parse_frame_Complete parse_frame_Err skip_byte_buffer)

declare drain_loop.simps [simp del]

definition drain :: "EventStreamDecoder \<Rightarrow> EventStreamDecoder \<times> (WireError + Frame list)" where
  "drain d = drain_loop [] d"

function feed_loop ::
  "Frame list \<Rightarrow> EventStreamDecoder \<Rightarrow> string \<Rightarrow> EventStreamDecoder \<times> (WireError + Frame list)" where
  "feed_loop frames d remaining =
     (if remaining = [] then (d, Ok frames)
      else let room = es_max_buffer_length d - length (es_buffer d) in
      if room = 0 then fail d (BufferOverflow (saturating_add_u64 (length (es_buffer d)) (length remaining)) (es_max_buffer_length d))
      else let n = min (length remaining) room in
      (case drain (d\<lparr>es_buffer := es_buffer d @ take n remaining\<rparr>) of
         (d', Err e) \<Rightarrow> (d', Err e)
       | (d', Ok drained) \<Rightarrow> feed_loop (frames @ drained) d' (drop n remaining)))"
  by pat_completeness auto
termination by (relation "measure (\<lambda>(_, _, remaining). length remaining)") auto

declare feed_loop.simps [simp del]

definition feed :: "EventStreamDecoder \<Rightarrow> string \<Rightarrow> EventStreamDecoder \<times> (WireError + Frame list)" where
  "feed d bytes = (case es_failed d of
     Some e \<Rightarrow> (d, Err e)
   | None \<Rightarrow> (case drain d of
       (d', Err e) \<Rightarrow> (d', Err e)
     | (d', Ok frames) \<Rightarrow> feed_loop frames d' bytes))"

definition finish :: "EventStreamDecoder \<Rightarrow> EventStreamDecoder \<times> (WireError + Frame list)" where
  "finish d = (case es_failed d of
     Some e \<Rightarrow> (d, Err e)
   | None \<Rightarrow> (case drain d of
       (d', Err e) \<Rightarrow> (d', Err e)
     | (d', Ok frames) \<Rightarrow>
         if es_buffer d' = [] then (d', Ok frames) else fail d' (UnexpectedEof (length (es_buffer d')))))"

end
