(* ===== verification/Chunked.thy ===== *)
theory Chunked
  imports Prelude "HOL-Library.Sublist"
begin

section \<open>Incremental decoders\<close>

text \<open>
  The contract between an incremental decoder and its callers. A decoder is pushed chunks of
  bytes and returns what they complete; the reference \<open>whole s bytes\<close> is what a decoder in state
  \<open>s\<close> should have produced and become after those bytes, and it composes over concatenation.
  From the laws of one push follows that the boundaries between chunks do not matter. An exact
  decoder moreover fails only where the reference fails, and with its error; what it returned
  before is then a prefix of what the reference returns.
\<close>

fun run_chunks :: "('s \<Rightarrow> string \<Rightarrow> 's \<times> ('e + 'o list)) \<Rightarrow> 's \<Rightarrow> string list \<Rightarrow> 'o list \<times> ('e + 's)" where
  "run_chunks push s [] = ([], Ok s)"
| "run_chunks push s (c # cs) = (case push s c of
     (s', Err e) \<Rightarrow> ([], Err e)
   | (s', Ok os) \<Rightarrow> apfst ((@) os) (run_chunks push s' cs))"

lemma run_chunks_Ok: "run_chunks push s (c # cs) = (os, Ok t) \<longleftrightarrow>
    (\<exists>s' ps qs. push s c = (s', Ok ps) \<and> run_chunks push s' cs = (qs, Ok t) \<and> os = ps @ qs)"
  by (auto simp: apfst_def map_prod_def split: prod.splits sum.splits)

locale chunked =
  fixes push :: "'s \<Rightarrow> string \<Rightarrow> 's \<times> ('e + 'o list)"
    and whole :: "'s \<Rightarrow> string \<Rightarrow> 'o list \<times> ('e + 's)"
    and ready :: "'s \<Rightarrow> bool"
  assumes push_sound: "ready s \<Longrightarrow> push s c = (s', Ok os) \<Longrightarrow> whole s c = (os, Ok s') \<and> ready s'"
    and whole_Nil: "ready s \<Longrightarrow> whole s [] = ([], Ok s)"
    and whole_append: "ready s \<Longrightarrow> whole s (a @ b) = (case whole s a of
      (os, Err e) \<Rightarrow> (os, Err e) | (os, Ok s') \<Rightarrow> apfst ((@) os) (whole s' b))"
begin

lemma run_sound: "ready s \<Longrightarrow> run_chunks push s cs = (os, Ok t) \<Longrightarrow> whole s (concat cs) = (os, Ok t) \<and> ready t"
proof (induction cs arbitrary: s os)
  case (Cons c cs)
  from Cons(3) obtain s' ps qs where p: "push s c = (s', Ok ps)" "run_chunks push s' cs = (qs, Ok t)" "os = ps @ qs"
    by (auto simp: run_chunks_Ok simp del: run_chunks.simps)
  from push_sound [OF Cons(2) p(1)] have s': "whole s c = (ps, Ok s')" "ready s'" by auto
  with Cons(1) [OF s'(2) p(2)] p(3) show ?case by (simp add: whole_append [OF Cons(2)])
qed (simp add: whole_Nil)

text \<open>Any two ways of cutting the same bytes agree whenever both are accepted.\<close>

lemma run_unique:
  "ready s \<Longrightarrow> run_chunks push s cs = (os, Ok t) \<Longrightarrow> run_chunks push s ds = (ps, Ok u) \<Longrightarrow> concat cs = concat ds \<Longrightarrow>
   os = ps \<and> t = u"
  using run_sound [of s cs os t] run_sound [of s ds ps u] by simp

end

locale chunked_exact = chunked +
  assumes push_error: "ready s \<Longrightarrow> push s c = (s', Err e) \<Longrightarrow> \<exists>os. whole s c = (os, Err e)"
begin

lemma run_exact: "ready s \<Longrightarrow> whole s (concat cs) = (os, r) \<Longrightarrow>
   \<exists>ps. run_chunks push s cs = (ps, r) \<and> prefix ps os \<and> (\<forall>t. r = Ok t \<longrightarrow> ps = os)"
proof (induction cs arbitrary: s os)
  case (Cons c cs)
  obtain s' x where p: "push s c = (s', x)" by fastforce
  show ?case
  proof (cases x)
    case (Inl e)
    with push_error [OF Cons(2)] p obtain qs where "whole s c = (qs, Err e)" by blast
    with Inl p Cons(3) show ?thesis by (auto simp: whole_append [OF Cons(2)])
  next
    case (Inr ps)
    obtain qs r' where q: "whole s' (concat cs) = (qs, r')" by fastforce
    from push_sound [OF Cons(2)] p Inr have s': "whole s c = (ps, Ok s')" "ready s'" by auto
    with Cons(3) q have *: "os = ps @ qs" "r' = r" by (simp_all add: whole_append [OF Cons(2)])
    from Cons(1) [OF s'(2) q [unfolded *]] * p Inr show ?thesis by auto
  qed
qed (auto simp: whole_Nil)

end

end
