(* ===== verification/Event_Stream_Props.thy ===== *)
theory Event_Stream_Props
  imports Event_Stream Chunked
begin

section \<open>The event stream does not depend on the chunks\<close>

text \<open>
  A reference that decodes the whole stream at once, and the proof that the strict decoder
  computes it from any chunks.
\<close>

subsection \<open>Reference\<close>

function decode_stream :: "nat \<Rightarrow> string \<Rightarrow> Frame list \<times> (WireError + string)" where
  "decode_stream m bytes = (case parse_frame bytes m of
     Ok Incomplete \<Rightarrow> ([], Ok bytes)
   | Ok (Complete frame n) \<Rightarrow> apfst ((#) frame) (decode_stream m (drop n bytes))
   | Err e \<Rightarrow> ([], Err e))"
  by pat_completeness auto
termination
  by (relation "measure (length \<circ> snd)")
    (auto simp: MIN_FRAME_LENGTH_def PRELUDE_LENGTH_def dest!: parse_frame_Complete)

declare decode_stream.simps [simp del]

lemma decode_stream_cases:
  "parse_frame b m = Ok Incomplete \<Longrightarrow> decode_stream m b = ([], Ok b)"
  "parse_frame b m = Err e \<Longrightarrow> decode_stream m b = ([], Err e)"
  "parse_frame b m = Ok (Complete f n) \<Longrightarrow> decode_stream m b = apfst ((#) f) (decode_stream m (drop n b))"
  by (simp_all add: decode_stream.simps [of m b])

text \<open>A verdict on a prefix is the verdict on the stream: more bytes cannot change it.\<close>

lemma parse_frame_extend:
  assumes "parse_frame b m \<noteq> Ok Incomplete"
  shows "parse_frame (b @ c) m = parse_frame b m"
proof -
  let ?t = "be_nat (subslice 0 4 b)" and ?h = "be_nat (subslice 4 8 b)"
  have len: "12 \<le> length b"
    using assms by (rule contrapos_np) (simp add: parse_frame_def PRELUDE_LENGTH_def)
  note prelude = MIN_FRAME_LENGTH_def PRELUDE_LENGTH_def
  show ?thesis
  proof (cases "?t < 16 \<or> ?t > m \<or> ?h > ?t - 16 \<or> be_u32 (subslice 8 12 b) \<noteq> crc32 (subslice 0 8 b)")
    case True
    with len show ?thesis by (auto simp: parse_frame_def prelude Let_def)
  next
    case False
    have "?t \<le> length b" using assms
      by (rule contrapos_np) (use False len in \<open>simp add: parse_frame_def prelude Let_def\<close>)
    moreover have "12 + ?h \<le> length b" using False \<open>?t \<le> length b\<close> by linarith
    ultimately show ?thesis using False len by (simp add: parse_frame_def prelude Let_def)
  qed
qed

lemma parse_frame_incomplete_length:
  "parse_frame b m = Ok Incomplete \<Longrightarrow> length b < PRELUDE_LENGTH \<or> length b < m"
  by (auto simp: parse_frame_def Let_def result_iff split: if_splits)

definition more_input :: "nat \<Rightarrow> string \<Rightarrow> Frame list \<times> (WireError + string) \<Rightarrow> Frame list \<times> (WireError + string)" where
  "more_input m c r = (case r of (fs, Err e) \<Rightarrow> (fs, Err e) | (fs, Ok rest) \<Rightarrow> apfst ((@) fs) (decode_stream m (rest @ c)))"

lemma more_input_apfst: "more_input m c (apfst ((#) f) r) = apfst ((#) f) (more_input m c r)"
  by (auto simp: more_input_def apfst_def map_prod_def split: prod.split sum.split)

lemma decode_stream_append: "decode_stream m (b @ c) = more_input m c (decode_stream m b)"
proof (induction m b rule: decode_stream.induct)
  case (1 m b)
  show ?case
  proof (cases "parse_frame b m")
    case (Inl e)
    with parse_frame_extend [of b m c] show ?thesis by (simp add: decode_stream_cases more_input_def)
  next
    case (Inr outcome)
    show ?thesis
    proof (cases outcome)
      case Incomplete
      with Inr show ?thesis by (simp add: decode_stream_cases more_input_def apfst_def map_prod_def split: prod.split)
    next
      case (Complete f n)
      with Inr parse_frame_Complete [of b m f n] parse_frame_extend [of b m c] 1
      show ?thesis by (simp add: decode_stream_cases(3) [of _ m f n] more_input_apfst)
    qed
  qed
qed

lemma decode_stream_rest:
  "decode_stream m b = (fs, Ok rest) \<Longrightarrow> parse_frame rest m = Ok Incomplete"
proof (induction m b arbitrary: fs rule: decode_stream.induct)
  case (1 m b)
  show ?case
  proof (cases "parse_frame b m")
    case (Inl e)
    with 1(2) show ?thesis by (simp add: decode_stream_cases)
  next
    case (Inr outcome)
    with 1 show ?thesis
      by (cases outcome; cases "decode_stream m (drop (case outcome of Complete f n \<Rightarrow> n | Incomplete \<Rightarrow> 0) b)")
        (auto simp: decode_stream_cases)
  qed
qed

subsection \<open>The strict decoder\<close>

definition strict_ready :: "nat \<Rightarrow> EventStreamDecoder \<Rightarrow> bool" where
  "strict_ready m d \<longleftrightarrow> es_recovery d = STRICT \<and> es_errors d = 0 \<and> es_failed d = None \<and>
     es_max_frame_length d = m \<and> m \<le> es_max_buffer_length d \<and> PRELUDE_LENGTH \<le> m"

text \<open>What an operation on the decoder returns when the reference returns \<open>r\<close>.\<close>

definition agrees ::
  "EventStreamDecoder \<Rightarrow> Frame list \<Rightarrow> Frame list \<times> (WireError + string) \<Rightarrow> EventStreamDecoder \<times> (WireError + Frame list) \<Rightarrow> bool" where
  "agrees d fs r out \<longleftrightarrow> (case r of
     (gs, Ok rest) \<Rightarrow> out = (d\<lparr>es_buffer := rest\<rparr>, Ok (fs @ gs))
   | (gs, Err e) \<Rightarrow> snd out = Err e \<and> es_failed (fst out) = Some e)"

lemma strict_skip: "strict_ready m d \<Longrightarrow> skip_byte d e = Err (d, e)"
  by (simp add: strict_ready_def skip_byte_def)

lemma strict_ready_buffer [simp]: "strict_ready m (d\<lparr>es_buffer := b\<rparr>) = strict_ready m d"
  by (simp add: strict_ready_def)

lemma strict_advance: "strict_ready m d \<Longrightarrow> (advance n d)\<lparr>es_errors := 0\<rparr> = d\<lparr>es_buffer := drop n (es_buffer d)\<rparr>"
  by (simp add: strict_ready_def advance_def)

lemma drain_loop_strict:
  "strict_ready m d \<Longrightarrow> agrees d fs (decode_stream m (es_buffer d)) (drain_loop fs d)"
proof (induction fs d rule: drain_loop.induct)
  case (1 fs d)
  have m: "es_max_frame_length d = m" using 1(3) by (simp add: strict_ready_def)
  show ?case
  proof (cases "parse_frame (es_buffer d) m")
    case (Inl e)
    with m strict_skip [OF 1(3)] show ?thesis
      by (simp add: drain_loop.simps [of fs d] decode_stream_cases agrees_def fail_def)
  next
    case (Inr outcome)
    show ?thesis
    proof (cases outcome)
      case Incomplete
      with Inr m show ?thesis by (simp add: drain_loop.simps [of fs d] decode_stream_cases agrees_def)
    next
      case (Complete f n)
      with 1(2) [of outcome f n] Inr m 1(3)
      have "agrees (d\<lparr>es_buffer := drop n (es_buffer d)\<rparr>) (fs @ [f]) (decode_stream m (drop n (es_buffer d)))
          (drain_loop (fs @ [f]) (d\<lparr>es_buffer := drop n (es_buffer d)\<rparr>))"
        by (simp add: strict_advance)
      with Complete Inr m show ?thesis
        by (simp add: drain_loop.simps [of fs d] strict_advance [OF 1(3)] decode_stream_cases(3) agrees_def
            apfst_def map_prod_def split: prod.splits sum.splits)
    qed
  qed
qed

text \<open>
  Between two operations the buffer holds no complete frame, hence less than a frame: a strict
  decoder never runs out of buffer.
\<close>

definition idle :: "nat \<Rightarrow> EventStreamDecoder \<Rightarrow> bool" where
  "idle m d \<longleftrightarrow> strict_ready m d \<and> parse_frame (es_buffer d) m = Ok Incomplete"

definition whole_stream :: "nat \<Rightarrow> EventStreamDecoder \<Rightarrow> string \<Rightarrow> Frame list \<times> (WireError + EventStreamDecoder)" where
  "whole_stream m d bytes = (case decode_stream m (es_buffer d @ bytes) of
     (fs, Ok rest) \<Rightarrow> (fs, Ok (d\<lparr>es_buffer := rest\<rparr>)) | (fs, Err e) \<Rightarrow> (fs, Err e))"

lemma idle_room: "idle m d \<Longrightarrow> length (es_buffer d) < es_max_buffer_length d"
  using parse_frame_incomplete_length [of "es_buffer d" m] by (auto simp: idle_def strict_ready_def)

lemma drain_idle: "idle m d \<Longrightarrow> drain d = (d, Ok [])"
  by (simp add: drain_def drain_loop.simps [of "[]" d] idle_def strict_ready_def)

lemma feed_loop_strict:
  "idle m d \<Longrightarrow> agrees d fs (decode_stream m (es_buffer d @ bytes)) (feed_loop fs d bytes)"
proof (induction fs d bytes rule: feed_loop.induct)
  case (1 fs d bytes)
  let ?room = "es_max_buffer_length d - length (es_buffer d)"
  let ?n = "min (length bytes) ?room"
  let ?d = "d\<lparr>es_buffer := es_buffer d @ take ?n bytes\<rparr>"
  have room: "?room \<noteq> 0" using idle_room [OF 1(2)] by simp
  have ready: "strict_ready m d" "decode_stream m (es_buffer d) = ([], Ok (es_buffer d))"
    using 1(2) by (simp_all add: idle_def decode_stream_cases)
  show ?case
  proof (cases "bytes = []")
    case True
    with ready show ?thesis by (simp add: feed_loop.simps [of fs d] agrees_def)
  next
    case False
    have split: "decode_stream m (es_buffer d @ bytes) =
        more_input m (drop ?n bytes) (decode_stream m (es_buffer d @ take ?n bytes))"
      using decode_stream_append [of m "es_buffer d @ take ?n bytes" "drop ?n bytes"] by simp
    have drained: "agrees ?d [] (decode_stream m (es_buffer d @ take ?n bytes)) (drain ?d)"
      using drain_loop_strict [of m ?d "[]"] ready by (simp add: drain_def)
    obtain gs r where r: "decode_stream m (es_buffer d @ take ?n bytes) = (gs, r)" by fastforce
    show ?thesis
    proof (cases r)
      case (Inl e)
      with drained r have "snd (drain ?d) = Err e" "es_failed (fst (drain ?d)) = Some e" by (simp_all add: agrees_def)
      with False room r Inl split show ?thesis
        by (cases "drain ?d") (simp add: feed_loop.simps [of fs d] agrees_def more_input_def Let_def)
    next
      case (Inr rest)
      with drained r have d: "drain ?d = (d\<lparr>es_buffer := rest\<rparr>, Ok gs)" by (simp add: agrees_def)
      have "idle m (d\<lparr>es_buffer := rest\<rparr>)" using ready decode_stream_rest r Inr by (simp add: idle_def)
      with 1(1) [OF False refl room refl d [symmetric] refl]
      have "agrees d (fs @ gs) (decode_stream m (rest @ drop ?n bytes))
          (feed_loop (fs @ gs) (d\<lparr>es_buffer := rest\<rparr>) (drop ?n bytes))" by (simp add: agrees_def split: prod.splits sum.splits)
      with False room r Inr split d show ?thesis
        by (simp add: feed_loop.simps [of fs d] agrees_def more_input_def Let_def apfst_def map_prod_def
            split: prod.splits sum.splits)
    qed
  qed
qed

lemma feed_strict: "idle m d \<Longrightarrow> agrees d [] (decode_stream m (es_buffer d @ bytes)) (feed d bytes)"
  using feed_loop_strict [of m d "[]" bytes] drain_idle [of m d] by (simp add: feed_def idle_def strict_ready_def)

interpretation event_stream: chunked_exact feed "whole_stream m" "idle m" for m
proof
  fix d bytes d' fs assume d: "idle m d"
  note fed = feed_strict [OF d, of bytes]
  show "whole_stream m d bytes = (fs, Ok d') \<and> idle m d'" if "feed d bytes = (d', Ok fs)"
    using that fed d decode_stream_rest [of m "es_buffer d @ bytes"]
    by (auto simp: agrees_def whole_stream_def idle_def split: prod.splits sum.splits)
  show "\<exists>fs. whole_stream m d bytes = (fs, Err e)" if "feed d bytes = (d', Err e)" for e
    using that fed by (auto simp: agrees_def whole_stream_def split: prod.splits sum.splits)
  show "whole_stream m d [] = ([], Ok d)" using d by (simp add: whole_stream_def idle_def decode_stream_cases)
  show "whole_stream m d (a @ b) = (case whole_stream m d a of
      (fs, Err e) \<Rightarrow> (fs, Err e) | (fs, Ok d') \<Rightarrow> apfst ((@) fs) (whole_stream m d' b))" for a b
    using decode_stream_append [of m "es_buffer d @ a" b]
    by (simp add: whole_stream_def more_input_def apfst_def map_prod_def split: prod.splits sum.splits)
qed

end
