(* ===== verification/Event_Stream_Claims.thy ===== *)
theory Event_Stream_Claims
  imports Event_Stream_Props
begin

section \<open>Event streams: what is sent is what is decoded\<close>

text \<open>
  The encoder with which \<open>src/src/proxy/kiro/wire/mod.rs\<close> builds streams, the proof that one
  encoded frame parses back, and the property of a whole decoding session.
\<close>

definition string_header :: "string \<Rightarrow> string \<Rightarrow> string" where
  "string_header name v = to_be 1 (length name) @ name @ to_be 1 7 @ to_be 2 (length v) @ v"

definition frame_with_headers :: "string \<Rightarrow> string \<Rightarrow> string" where
  "frame_with_headers headers payload =
     (let n_bytes = 12 + length headers + length payload + 4;
          prelude = to_be 4 n_bytes @ to_be 4 (length headers);
          body = prelude @ to_be 4 (unat (crc32 prelude)) @ headers @ payload
      in body @ to_be 4 (unat (crc32 body)))"

type_synonym message = "(string \<times> string) list \<times> string"

definition encode_headers :: "(string \<times> string) list \<Rightarrow> string" where
  "encode_headers hs = concat (map (\<lambda>(n, v). string_header n v) hs)"

definition encode_message :: "message \<Rightarrow> string" where
  "encode_message m = frame_with_headers (encode_headers (fst m)) (snd m)"

definition message_frame :: "message \<Rightarrow> Frame" where
  "message_frame m = \<lparr>fr_headers = fold (\<lambda>(n, v). bt_insert n (String v)) (fst m) [], fr_payload = snd m\<rparr>"

definition encodable_header :: "string \<times> string \<Rightarrow> bool" where
  "encodable_header = (\<lambda>(n, v). n \<noteq> [] \<and> length n \<le> 255 \<and> valid_utf8 n \<and> length v \<le> 65535 \<and> valid_utf8 v)"

definition encodable :: "message \<Rightarrow> bool" where
  "encodable m \<longleftrightarrow> list_all encodable_header (fst m) \<and> distinct (map fst (fst m)) \<and>
     length (encode_message m) \<le> DEFAULT_MAX_FRAME_LENGTH"

subsection \<open>One frame\<close>

lemma take_bytes_at:
  "length p = a \<Longrightarrow> length (p @ q @ r) \<le> u64_max \<Longrightarrow> n = length q \<Longrightarrow> take_bytes (p @ q @ r) a n kind = Ok (q, a + n)"
  by (simp add: take_bytes_Ok subslice_middle)

lemma take_u8_at:
  assumes "length p = a" and "length (p @ q @ r) \<le> u64_max" and "length q = 1"
  shows "take_u8 (p @ q @ r) a = Ok (be_nat q, Suc a)"
  using take_bytes_at [OF assms(1,2), of 1 "''byte''"] assms(3)
  by (cases q) (auto simp: take_u8_def be_nat_def)

lemma parse_string_header:
  assumes "encodable_header (n, v)" and "length p = a" and "length (p @ string_header n v @ r) \<le> u64_max"
  shows "parse_header (p @ string_header n v @ r) a = Ok ((n, String v), a + length (string_header n v))"
proof -
  let ?len = "to_be 1 (length n)" and ?ty = "to_be 1 7" and ?sz = "to_be 2 (length v)"
  let ?b = "p @ ?len @ n @ ?ty @ ?sz @ v @ r"
  have b: "p @ string_header n v @ r = ?b" by (simp add: string_header_def)
  have ok: "n \<noteq> []" "length n \<le> 255" "valid_utf8 n" "length v \<le> 65535" "valid_utf8 v"
    using assms(1) by (simp_all add: encodable_header_def)
  have "take_u8 ?b a = Ok (length n, Suc a)"
    using take_u8_at [of p a ?len "n @ ?ty @ ?sz @ v @ r"] assms ok by (simp add: string_header_def)
  moreover have "take_bytes ?b (Suc a) (length n) k = Ok (n, Suc a + length n)" for k
    using take_bytes_at [of "p @ ?len" "Suc a" n "?ty @ ?sz @ v @ r"] assms by (simp add: string_header_def)
  moreover have "take_u8 ?b (Suc a + length n) = Ok (7, Suc (Suc a + length n))"
    using take_u8_at [of "p @ ?len @ n" _ ?ty "?sz @ v @ r"] assms by (simp add: string_header_def)
  moreover have "take_bytes ?b (Suc (Suc a + length n)) 2 k = Ok (?sz, Suc (Suc a + length n) + 2)" for k
    using take_bytes_at [of "p @ ?len @ n @ ?ty" _ ?sz "v @ r"] assms by (simp add: string_header_def)
  moreover have "take_bytes ?b (Suc (Suc a + length n) + 2) (length v) k = Ok (v, Suc (Suc a + length n) + 2 + length v)" for k
    using take_bytes_at [of "p @ ?len @ n @ ?ty @ ?sz" _ v r] assms by (simp add: string_header_def)
  ultimately show ?thesis unfolding b
    using ok by (simp add: parse_header_def header_value_def take_sized_def string_header_def)
qed

lemma parse_encoded_headers_from:
  "list_all encodable_header hs \<Longrightarrow> distinct (map fst hs) \<Longrightarrow> \<forall>n \<in> fst ` set hs. \<not> bt_contains acc n \<Longrightarrow>
   length (p @ encode_headers hs) \<le> u64_max \<Longrightarrow>
   parse_headers_from (p @ encode_headers hs) (length p) acc = Ok (fold (\<lambda>(n, v). bt_insert n (String v)) hs acc)"
proof (induction hs arbitrary: p acc)
  case Nil
  then show ?case by (simp add: encode_headers_def parse_headers_from.simps)
next
  case (Cons h hs)
  obtain n v where h: "h = (n, v)" by fastforce
  let ?h = "string_header n v"
  have enc: "p @ encode_headers (h # hs) = p @ ?h @ encode_headers hs" by (simp add: encode_headers_def h)
  have "parse_headers_from ((p @ ?h) @ encode_headers hs) (length (p @ ?h)) (bt_insert n (String v) acc) =
      Ok (fold (\<lambda>(n, v). bt_insert n (String v)) hs (bt_insert n (String v) acc))"
    using Cons(2-5) h enc by (intro Cons(1)) (auto simp: image_iff)
  moreover have "0 < length ?h" by (simp add: string_header_def)
  ultimately show ?case
    using parse_string_header [of n v p "length p" "encode_headers hs"] Cons(2-5) h enc
    by (simp add: parse_headers_from.simps [of "p @ ?h @ encode_headers hs" "length p"])
qed

lemma parse_encoded_headers:
  "list_all encodable_header hs \<Longrightarrow> distinct (map fst hs) \<Longrightarrow> length (encode_headers hs) \<le> u64_max \<Longrightarrow>
   parse_headers (encode_headers hs) = Ok (fold (\<lambda>(n, v). bt_insert n (String v)) hs [])"
  using parse_encoded_headers_from [of hs "[]" "[]"] by (simp add: parse_headers_def bt_contains_def)

lemma be_u32_to_be [simp]: "be_u32 (to_be 4 (unat w)) = w"
proof -
  have "unat w < 2 ^ LENGTH(32)" by (rule unsigned_less)
  then show ?thesis by (simp add: be_u32_def)
qed

lemma frame_parses:
  assumes "n_bytes = 12 + length h + length p + 4" and "n_bytes \<le> m" and "m < 256 ^ 4" and "parse_headers h = Ok hs"
  shows "parse_frame (frame_with_headers h p @ rest) m = Ok (Complete \<lparr>fr_headers = hs, fr_payload = p\<rparr> n_bytes)"
proof -
  let ?l = "to_be 4 n_bytes" and ?hl = "to_be 4 (length h)"
  let ?c = "to_be 4 (unat (crc32 (?l @ ?hl)))"
  let ?body = "?l @ ?hl @ ?c @ h @ p"
  let ?m = "to_be 4 (unat (crc32 ?body))"
  let ?b = "?l @ ?hl @ ?c @ h @ p @ ?m @ rest"
  have b: "frame_with_headers h p @ rest = ?b" by (simp add: frame_with_headers_def assms(1) Let_def)
  have "subslice 0 4 ?b = ?l" by (simp add: subslice_def)
  moreover have "subslice 4 8 ?b = ?hl" using subslice_middle [of ?l 4 8 ?hl] by simp
  moreover have "subslice 8 12 ?b = ?c" using subslice_middle [of "?l @ ?hl" 8 12 ?c] by simp
  moreover have "subslice 0 8 ?b = ?l @ ?hl" by (simp add: subslice_def)
  moreover have "subslice 12 (12 + length h) ?b = h" using subslice_middle [of "?l @ ?hl @ ?c" 12 "12 + length h" h] by simp
  moreover have "subslice (12 + length h) (n_bytes - 4) ?b = p"
    using subslice_middle [of "?l @ ?hl @ ?c @ h" "12 + length h" "n_bytes - 4" p] by (simp add: assms(1))
  moreover have "subslice (n_bytes - 4) n_bytes ?b = ?m"
    using subslice_middle [of ?body "n_bytes - 4" n_bytes ?m] by (simp add: assms(1))
  moreover have "subslice 0 (n_bytes - 4) ?b = ?body"
    using subslice_middle [of "[]" 0 "n_bytes - 4" ?body] by (simp add: assms(1))
  moreover have "be_nat ?l = n_bytes" "be_nat ?hl = length h" using assms(1-3) by simp_all
  moreover have "12 \<le> length ?b" "n_bytes \<le> length ?b" using assms(1) by simp_all
  ultimately show ?thesis unfolding b
    using assms by (simp add: parse_frame_def MIN_FRAME_LENGTH_def PRELUDE_LENGTH_def Let_def)
qed

lemma length_frame_with_headers: "length (frame_with_headers h p) = 12 + length h + length p + 4"
  by (simp add: frame_with_headers_def Let_def)

lemma message_parses:
  assumes "encodable m"
  shows "parse_frame (encode_message m @ rest) DEFAULT_MAX_FRAME_LENGTH =
    Ok (Complete (message_frame m) (length (encode_message m)))"
proof -
  let ?h = "encode_headers (fst m)"
  have size: "12 + length ?h + length (snd m) + 4 \<le> DEFAULT_MAX_FRAME_LENGTH"
    using assms by (simp add: encodable_def encode_message_def length_frame_with_headers)
  then have "parse_headers ?h = Ok (fold (\<lambda>(n, v). bt_insert n (String v)) (fst m) [])"
    using assms by (intro parse_encoded_headers) (simp_all add: encodable_def DEFAULT_MAX_FRAME_LENGTH_def u64_max_def)
  then show ?thesis
    using frame_parses [OF refl size, of "fr_headers (message_frame m)" rest]
    by (simp add: encode_message_def message_frame_def length_frame_with_headers DEFAULT_MAX_FRAME_LENGTH_def)
qed

lemma decode_encoded:
  "list_all encodable ms \<Longrightarrow>
   decode_stream DEFAULT_MAX_FRAME_LENGTH (concat (map encode_message ms)) = (map message_frame ms, Ok [])"
proof (induction ms)
  case Nil
  then show ?case by (simp add: decode_stream_cases parse_frame_def PRELUDE_LENGTH_def)
next
  case (Cons m ms)
  then show ?case using message_parses [of m "concat (map encode_message ms)"] by (simp add: decode_stream_cases(3))
qed

subsection \<open>A session\<close>

text \<open>Feeding all chunks and finishing: the frames handed out, and how the session ended.\<close>

definition decode_chunks :: "EventStreamDecoder \<Rightarrow> string list \<Rightarrow> Frame list \<times> (WireError + unit)" where
  "decode_chunks d chunks = (case run_chunks feed d chunks of
     (frames, Err e) \<Rightarrow> (frames, Err e)
   | (frames, Ok d') \<Rightarrow> (case finish d' of
       (_, Err e) \<Rightarrow> (frames, Err e)
     | (_, Ok last_frames) \<Rightarrow> (frames @ last_frames, Ok ())))"

lemma strict_idle: "idle DEFAULT_MAX_FRAME_LENGTH strict"
  by (simp add: idle_def strict_ready_def strict_def with_policy_def parse_frame_def PRELUDE_LENGTH_def
      DEFAULT_MAX_FRAME_LENGTH_def DEFAULT_MAX_BUFFER_LENGTH_def)

lemma finish_idle: "idle m d \<Longrightarrow> snd (finish d) = (if es_buffer d = [] then Ok [] else Err (UnexpectedEof (length (es_buffer d))))"
  using drain_idle [of m d] by (simp add: finish_def fail_def idle_def strict_ready_def)

lemma session_exact:
  assumes "decode_stream DEFAULT_MAX_FRAME_LENGTH (concat chunks) = (frames, r)"
  shows "\<exists>ps. prefix ps frames \<and> decode_chunks strict chunks = (case r of
      Err e \<Rightarrow> (ps, Err e)
    | Ok rest \<Rightarrow> (frames, if rest = [] then Ok () else Err (UnexpectedEof (length rest))))"
proof -
  let ?m = DEFAULT_MAX_FRAME_LENGTH
  have whole: "whole_stream ?m strict (concat chunks) = (frames, case r of Err e \<Rightarrow> Err e | Ok rest \<Rightarrow> Ok (strict\<lparr>es_buffer := rest\<rparr>))"
    using assms by (simp add: whole_stream_def strict_def with_policy_def split: sum.split)
  from event_stream.run_exact [OF strict_idle whole] obtain ps where ps: "prefix ps frames"
    "run_chunks feed strict chunks = (ps, case r of Err e \<Rightarrow> Err e | Ok rest \<Rightarrow> Ok (strict\<lparr>es_buffer := rest\<rparr>))"
    "\<forall>t. (case r of Err e \<Rightarrow> Err e | Ok rest \<Rightarrow> Ok (strict\<lparr>es_buffer := rest\<rparr>)) = Ok t \<longrightarrow> ps = frames" by blast
  show ?thesis
  proof (cases r)
    case (Inl e)
    with ps show ?thesis by (auto simp: decode_chunks_def)
  next
    case (Inr rest)
    let ?d = "strict\<lparr>es_buffer := rest\<rparr>"
    have run: "run_chunks feed strict chunks = (frames, Ok ?d)" using ps(2,3) Inr by simp
    with event_stream.run_sound [OF strict_idle] have "idle ?m ?d" by blast
    from finish_idle [OF this] run Inr show ?thesis
      by (cases "finish ?d") (auto simp: decode_chunks_def intro: exI [of _ frames])
  qed
qed

text \<open>
  C39. The decoder of the event stream is exact and blind to chunk boundaries: in whatever
  pieces a stream arrives, the frames handed out and the verdict are those of decoding the whole
  stream at once. A stream that breaks inside a frame ends with \<open>UnexpectedEof\<close>, a malformed one
  with the error of its first malformed frame, after a prefix of the frames before it, and the
  buffer limit is never hit. In particular every sequence of messages that fit a frame comes
  back unchanged, headers and payloads.
\<close>

theorem event_stream_exact:
  "(case decode_stream DEFAULT_MAX_FRAME_LENGTH (concat chunks) of
      (frames, Ok rest) \<Rightarrow> decode_chunks strict chunks =
        (frames, if rest = [] then Ok () else Err (UnexpectedEof (length rest)))
    | (frames, Err e) \<Rightarrow> \<exists>ps. prefix ps frames \<and> decode_chunks strict chunks = (ps, Err e)) \<and>
   (\<forall>messages. list_all encodable messages \<and> concat chunks = concat (map encode_message messages) \<longrightarrow>
      decode_chunks strict chunks = (map message_frame messages, Ok ()))"
proof (intro conjI allI impI)
  show "case decode_stream DEFAULT_MAX_FRAME_LENGTH (concat chunks) of
      (frames, Ok rest) \<Rightarrow> decode_chunks strict chunks =
        (frames, if rest = [] then Ok () else Err (UnexpectedEof (length rest)))
    | (frames, Err e) \<Rightarrow> \<exists>ps. prefix ps frames \<and> decode_chunks strict chunks = (ps, Err e)"
    using session_exact [of chunks] by (auto split: prod.split sum.split)
next
  fix messages assume "list_all encodable messages \<and> concat chunks = concat (map encode_message messages)"
  with decode_encoded [of messages] session_exact [of chunks]
  show "decode_chunks strict chunks = (map message_frame messages, Ok ())" by auto
qed

theorem event_stream_exact_witness:
  "decode_chunks strict (map (\<lambda>b. [b]) (encode_message ([('':event-type'', ''endEvent'')], ''{}''))) =
   ([\<lparr>fr_headers = [('':event-type'', String ''endEvent'')], fr_payload = ''{}''\<rparr>], Ok ())"
proof -
  let ?m = "([('':event-type'', ''endEvent'')], ''{}'')"
  let ?chunks = "map (\<lambda>b. [b]) (encode_message ?m)"
  have "encodable ?m"
    by (simp add: encodable_def encodable_header_def encode_message_def encode_headers_def string_header_def
        length_frame_with_headers DEFAULT_MAX_FRAME_LENGTH_def ascii_valid byte_def)
  moreover have "concat ?chunks = concat (map encode_message [?m])" by (simp add: concat_map_singleton)
  ultimately have "decode_chunks strict ?chunks = (map message_frame [?m], Ok ())"
    by (intro event_stream_exact [THEN conjunct2, rule_format] conjI) simp_all
  then show ?thesis by (simp add: message_frame_def)
qed

end
