(* ===== verification/Sse.thy ===== *)
theory Sse
  imports Byte_Str
begin

section \<open>Server-sent events\<close>

text \<open>
  Model of \<open>src/src/proxy/sse_transport.rs\<close>, the bounded decoder of the event streams of the
  HTTP upstreams. Lines end with LF, CRLF or a lone CR; a CR at the end of the input received so
  far may be half of a CRLF, so it is kept. \<open>usize\<close> is 64 bits wide.
\<close>

record SseEvent =
  se_event :: "string option"
  se_data :: string
  se_has_data :: bool
  se_id :: "string option"
  se_retry :: "string option"
  se_comment_lines :: nat
  se_unknown_fields :: nat

datatype SseDecodeError = InvalidUtf8 string | EventTooLarge nat

fun sse_error_str :: "SseDecodeError \<Rightarrow> string" where
  "sse_error_str (InvalidUtf8 e) = ''SSE event is not UTF-8: '' @ e"
| "sse_error_str (EventTooLarge limit) = ''SSE event exceeded '' @ show_nat limit @ '' bytes''"

record PendingSseEvent =
  pe_event :: "string option"
  pe_data :: string
  pe_has_data :: bool
  pe_id :: "string option"
  pe_retry :: "string option"
  pe_comment_lines :: nat
  pe_unknown_fields :: nat
  pe_saw_field :: bool
  pe_wire_bytes :: nat

definition default_pending :: PendingSseEvent where
  "default_pending = \<lparr>pe_event = None, pe_data = [], pe_has_data = False, pe_id = None, pe_retry = None,
     pe_comment_lines = 0, pe_unknown_fields = 0, pe_saw_field = False, pe_wire_bytes = 0\<rparr>"

definition into_event :: "PendingSseEvent \<Rightarrow> SseEvent option" where
  "into_event e = (if pe_saw_field e
     then Some \<lparr>se_event = pe_event e, se_data = pe_data e, se_has_data = pe_has_data e, se_id = pe_id e,
       se_retry = pe_retry e, se_comment_lines = pe_comment_lines e, se_unknown_fields = pe_unknown_fields e\<rparr>
     else None)"

record SseEventDecoder =
  sd_pending :: string
  sd_event :: PendingSseEvent
  sd_max_pending_bytes :: nat
  sd_max_event_bytes :: nat

definition with_limits :: "nat \<Rightarrow> nat \<Rightarrow> SseEventDecoder" where
  "with_limits max_pending_bytes max_event_bytes = (let p = max max_pending_bytes 1 in
     \<lparr>sd_pending = [], sd_event = default_pending, sd_max_pending_bytes = p, sd_max_event_bytes = max max_event_bytes p\<rparr>)"

definition new_decoder :: "nat \<Rightarrow> SseEventDecoder" where
  "new_decoder max_event_bytes = with_limits max_event_bytes max_event_bytes"

definition retained_bytes :: "SseEventDecoder \<Rightarrow> nat" where
  "retained_bytes d = saturating_add_u64 (length (sd_pending d)) (pe_wire_bytes (sd_event d))"

subsection \<open>Lines\<close>

abbreviation LF :: char where "LF \<equiv> CHR 0x0A"
abbreviation CR :: char where "CR \<equiv> CHR 0x0D"

fun next_line_boundary_from :: "nat \<Rightarrow> string \<Rightarrow> bool \<Rightarrow> (nat \<times> nat) option" where
  "next_line_boundary_from index [] finish = None"
| "next_line_boundary_from index (b # bs) finish =
     (if b = LF then Some (index, 1)
      else if b = CR then (case bs of
        c # _ \<Rightarrow> if c = LF then Some (index, 2) else Some (index, 1)
      | [] \<Rightarrow> if finish then Some (index, 1) else None)
      else next_line_boundary_from (Suc index) bs finish)"

definition next_line_boundary :: "string \<Rightarrow> bool \<Rightarrow> (nat \<times> nat) option" where
  "next_line_boundary buffer finish = next_line_boundary_from 0 buffer finish"

definition ensure_pending_bounded :: "SseEventDecoder \<Rightarrow> SseDecodeError + unit" where
  "ensure_pending_bounded d =
     check (saturating_add_u64 (pe_wire_bytes (sd_event d)) (length (sd_pending d)) \<le> sd_max_pending_bytes d)
       (EventTooLarge (sd_max_pending_bytes d))"

definition ensure_event_bounded :: "SseEventDecoder \<Rightarrow> SseDecodeError + unit" where
  "ensure_event_bounded d =
     check (pe_wire_bytes (sd_event d) \<le> sd_max_event_bytes d \<and> length (pe_data (sd_event d)) \<le> sd_max_event_bytes d)
       (EventTooLarge (sd_max_event_bytes d))"

definition dispatch :: "SseEventDecoder \<Rightarrow> SseEvent list \<Rightarrow> SseEventDecoder \<times> SseEvent list" where
  "dispatch d events = (d\<lparr>sd_event := default_pending\<rparr>, case into_event (sd_event d) of
     None \<Rightarrow> events | Some e \<Rightarrow> events @ [e])"

definition field_value :: "string \<Rightarrow> string \<times> string" where
  "field_value line = (case split_once (CHR '':'') line of
     None \<Rightarrow> (line, [])
   | Some (field, v) \<Rightarrow> (field, case strip_prefix '' '' v of None \<Rightarrow> v | Some w \<Rightarrow> w))"

definition set_field :: "string \<Rightarrow> string \<Rightarrow> PendingSseEvent \<Rightarrow> PendingSseEvent" where
  "set_field field v e =
     (if field = ''event'' then e\<lparr>pe_event := (if v \<noteq> [] then Some v else None)\<rparr>
      else if field = ''data'' then
        e\<lparr>pe_data := (if pe_has_data e then pe_data e @ [LF] else pe_data e) @ v, pe_has_data := True\<rparr>
      else if field = ''id'' then (if CHR 0x00 \<notin> set v then e\<lparr>pe_id := Some v\<rparr> else e)
      else if field = ''retry'' then e\<lparr>pe_retry := (if list_all is_ascii_digit v then Some v else None)\<rparr>
      else e\<lparr>pe_unknown_fields := saturating_add_u64 (pe_unknown_fields e) 1\<rparr>)"

definition process_field :: "SseEventDecoder \<Rightarrow> string \<Rightarrow> SseEventDecoder \<times> (SseDecodeError + unit)" where
  "process_field d line =
     (let (field, v) = field_value line; d' = d\<lparr>sd_event := set_field field v (sd_event d)\<rparr>
      in (d', if field = ''data'' then ensure_event_bounded d' else Ok ()))"

definition process_line ::
  "SseEventDecoder \<Rightarrow> string \<Rightarrow> nat \<Rightarrow> SseEvent list \<Rightarrow> SseEventDecoder \<times> (SseDecodeError + SseEvent list)" where
  "process_line d line delimiter_len events = (case utf8_error line of
     Some e \<Rightarrow> (d, Err (InvalidUtf8 (utf8_error_str e)))
   | None \<Rightarrow>
      if line = [] then (let (d', events') = dispatch d events in (d', Ok events'))
      else let e = sd_event d;
               d1 = d\<lparr>sd_event := e\<lparr>pe_wire_bytes :=
                 saturating_add_u64 (saturating_add_u64 (pe_wire_bytes e) (length line)) delimiter_len\<rparr>\<rparr>
      in case ensure_event_bounded d1 of
        Err e \<Rightarrow> (d1, Err e)
      | Ok _ \<Rightarrow>
         let e = (sd_event d1)\<lparr>pe_saw_field := True\<rparr> in
         if starts_with '':'' line
         then (d1\<lparr>sd_event := e\<lparr>pe_comment_lines := saturating_add_u64 (pe_comment_lines e) 1\<rparr>\<rparr>, Ok events)
         else (case process_field (d1\<lparr>sd_event := e\<rparr>) line of
            (d', Err e) \<Rightarrow> (d', Err e)
          | (d', Ok _) \<Rightarrow> (d', Ok events)))"

subsection \<open>Pushing bytes\<close>

lemma boundary_from_bounds:
  "next_line_boundary_from i b f = Some (e, n) \<Longrightarrow> i \<le> e \<and> 0 < n \<and> e + n \<le> i + length b"
proof (induction i b f rule: next_line_boundary_from.induct)
  case (2 i b bs f)
  then show ?case by (auto split: if_splits list.splits)
qed simp

lemma process_field_pending: "process_field d line = (d', r) \<Longrightarrow> sd_pending d' = sd_pending d"
  by (auto simp: process_field_def Let_def split: prod.splits)

lemma process_line_pending: "process_line d line n es = (d', r) \<Longrightarrow> sd_pending d' = sd_pending d"
  by (auto simp: process_line_def dispatch_def Let_def dest!: process_field_pending
      split: option.splits sum.splits prod.splits if_splits)

function drain_lines :: "SseEventDecoder \<Rightarrow> bool \<Rightarrow> SseEvent list \<Rightarrow> SseEventDecoder \<times> (SseDecodeError + SseEvent list)" where
  "drain_lines d finish events = (case next_line_boundary (sd_pending d) finish of
     None \<Rightarrow> (d, Ok events)
   | Some (line_end, delimiter_len) \<Rightarrow>
       (case process_line (d\<lparr>sd_pending := drop (line_end + delimiter_len) (sd_pending d)\<rparr>)
           (take line_end (sd_pending d)) delimiter_len events of
          (d', Err e) \<Rightarrow> (d', Err e)
        | (d', Ok events') \<Rightarrow> drain_lines d' finish events'))"
  by pat_completeness auto
termination
  by (relation "measure (\<lambda>(d, _, _). length (sd_pending d))")
    (auto simp: next_line_boundary_def dest!: boundary_from_bounds dest: process_line_pending [OF sym])

declare drain_lines.simps [simp del]

definition sse_drain :: "SseEventDecoder \<Rightarrow> bool \<Rightarrow> SseEventDecoder \<times> (SseDecodeError + SseEvent list)" where
  "sse_drain d finish = (case drain_lines d finish [] of
     (d1, Err e) \<Rightarrow> (d1, Err e)
   | (d1, Ok events) \<Rightarrow>
      (case (if finish \<and> sd_pending d1 \<noteq> [] then process_line (d1\<lparr>sd_pending := []\<rparr>) (sd_pending d1) 1 events
             else (d1, Ok events)) of
         (d2, Err e) \<Rightarrow> (d2, Err e)
       | (d2, Ok events) \<Rightarrow>
           if finish then (let (d3, events) = dispatch d2 events in (d3, Ok events))
           else (d2, rbind (ensure_pending_bounded d2) (\<lambda>_. Ok events))))"

definition sse_push :: "SseEventDecoder \<Rightarrow> string \<Rightarrow> SseEventDecoder \<times> (SseDecodeError + SseEvent list)" where
  "sse_push d chunk = sse_drain (d\<lparr>sd_pending := sd_pending d @ chunk\<rparr>) False"

definition sse_finish :: "SseEventDecoder \<Rightarrow> SseEventDecoder \<times> (SseDecodeError + SseEvent list)" where
  "sse_finish d = sse_drain d True"

end
