(* ===== verification/Sse_Props.thy ===== *)
theory Sse_Props
  imports Sse Chunked
begin

section \<open>Server-sent events do not depend on the chunks\<close>

text \<open>
  A reference decoder that cuts the whole input into lines first and then processes them in
  order, and the proof that the incremental decoder computes it from any chunks.
\<close>

subsection \<open>Reference\<close>

fun sse_lines :: "string \<Rightarrow> string \<Rightarrow> (string \<times> nat) list" where
  "sse_lines line [] = (if line = [] then [] else [(line, 1)])"
| "sse_lines line (b # bs) =
     (if b = LF then (line, 1) # sse_lines [] bs
      else if b = CR then (case bs of
          c # cs \<Rightarrow> if c = LF then (line, 2) # sse_lines [] cs else (line, 1) # sse_lines [] bs
        | [] \<Rightarrow> [(line, 1)])
      else sse_lines (line @ [b]) bs)"

fun process_lines :: "SseEventDecoder \<Rightarrow> (string \<times> nat) list \<Rightarrow> SseEvent list \<times> (SseDecodeError + SseEventDecoder)" where
  "process_lines d [] = ([], Ok d)"
| "process_lines d ((line, n) # ls) = (case process_line d line n [] of
     (d', Err e) \<Rightarrow> ([], Err e)
   | (d', Ok es) \<Rightarrow> apfst ((@) es) (process_lines d' ls))"

definition flush :: "SseEventDecoder \<Rightarrow> SseEvent list" where
  "flush d = (case into_event (sd_event d) of None \<Rightarrow> [] | Some e \<Rightarrow> [e])"

definition sse_reference :: "SseEventDecoder \<Rightarrow> string \<Rightarrow> SseEvent list \<times> (SseDecodeError + unit)" where
  "sse_reference d bytes = (case process_lines d (sse_lines [] bytes) of
     (es, Err e) \<Rightarrow> (es, Err e) | (es, Ok d') \<Rightarrow> (es @ flush d', Ok ()))"

lemma process_lines_append: "process_lines d (ks @ ls) = (case process_lines d ks of
    (es, Err e) \<Rightarrow> (es, Err e) | (es, Ok d') \<Rightarrow> apfst ((@) es) (process_lines d' ls))"
  by (induction d ks rule: process_lines.induct)
    (auto simp: apfst_def map_prod_def split: prod.splits sum.splits)

subsection \<open>One line\<close>

lemma process_field_eq:
  "process_field d line =
     (let (field, v) = field_value line; e = set_field field v (sd_event d)
      in (d\<lparr>sd_event := e\<rparr>, if field = ''data''
            then check (pe_wire_bytes e \<le> sd_max_event_bytes d \<and> length (pe_data e) \<le> sd_max_event_bytes d)
              (EventTooLarge (sd_max_event_bytes d))
            else Ok ()))"
  by (simp add: process_field_def ensure_event_bounded_def Let_def split: prod.split)

lemma process_line_events:
  "process_line d line n es = apsnd (map_sum id ((@) es)) (process_line d line n [])"
  by (simp add: process_line_def dispatch_def process_field_eq case_prod_beta Let_def
      split: option.split sum.split)

lemma process_line_at:
  "process_line (d\<lparr>sd_pending := p\<rparr>) line n es = apfst (\<lambda>d. d\<lparr>sd_pending := p\<rparr>) (process_line d line n es)"
  by (simp add: process_line_def dispatch_def ensure_event_bounded_def process_field_eq case_prod_beta Let_def
      split: option.split sum.split)

lemma process_lines_at:
  "process_lines (d\<lparr>sd_pending := p\<rparr>) ls = apsnd (map_sum id (\<lambda>d. d\<lparr>sd_pending := p\<rparr>)) (process_lines d ls)"
  by (induction d ls rule: process_lines.induct)
    (auto simp: process_line_at apfst_def map_prod_def split: prod.splits sum.splits)

lemma process_lines_frame:
  "process_lines d ls = (es, Ok d') \<Longrightarrow> sd_pending d' = sd_pending d"
proof (induction d ls arbitrary: es rule: process_lines.induct)
  case (2 d line n ls)
  obtain d1 r where "process_line d line n [] = (d1, r)" by fastforce
  with 2 process_line_pending [of d line n "[]" d1 r] show ?case
    by (auto simp: apfst_def map_prod_def split: sum.splits prod.splits)
qed simp

subsection \<open>Complete lines\<close>

lemma boundary_extend_from:
  "next_line_boundary_from i p False = Some x \<Longrightarrow> next_line_boundary_from i (p @ q) f = Some x"
proof (induction i p False rule: next_line_boundary_from.induct)
  case (2 i b bs)
  then show ?case by (cases bs) (auto split: if_splits)
qed simp

lemma boundary_extend: "next_line_boundary p False = Some x \<Longrightarrow> next_line_boundary (p @ q) f = Some x"
  by (simp add: next_line_boundary_def boundary_extend_from)

lemma boundary_bounds: "next_line_boundary p f = Some (e, n) \<Longrightarrow> 0 < n \<and> e + n \<le> length p"
  using boundary_from_bounds [of 0 p f e n] by (simp add: next_line_boundary_def)

function split_lines :: "string \<Rightarrow> (string \<times> nat) list \<times> string" where
  "split_lines p = (case next_line_boundary p False of
     None \<Rightarrow> ([], p)
   | Some (e, n) \<Rightarrow> apfst ((#) (take e p, n)) (split_lines (drop (e + n) p)))"
  by pat_completeness auto
termination by (relation "measure length") (auto dest!: boundary_bounds)

declare split_lines.simps [simp del]

lemma split_lines_cases:
  "next_line_boundary p False = None \<Longrightarrow> split_lines p = ([], p)"
  "next_line_boundary p False = Some (e, n) \<Longrightarrow> split_lines p = apfst ((#) (take e p, n)) (split_lines (drop (e + n) p))"
  by (simp_all add: split_lines.simps [of p])

lemma split_lines_append:
  "split_lines (p @ q) = (let (ls, r) = split_lines p in apfst ((@) ls) (split_lines (r @ q)))"
proof (induction p rule: split_lines.induct)
  case (1 p)
  show ?case
  proof (cases "next_line_boundary p False")
    case None
    then show ?thesis by (simp add: split_lines_cases apfst_def map_prod_def split: prod.split)
  next
    case (Some x)
    obtain e n where x: "x = (e, n)" by fastforce
    note b = boundary_bounds [OF Some [unfolded x]]
    have "split_lines (p @ q) = apfst ((#) (take e p, n)) (split_lines (drop (e + n) p @ q))"
      using split_lines_cases(2) [OF boundary_extend [OF Some [unfolded x], of q False]] b by simp
    with 1 [OF Some x [symmetric]] Some x show ?thesis
      by (simp add: split_lines_cases(2) apfst_def map_prod_def split: prod.split)
  qed
qed

lemma split_lines_rest: "split_lines p = (ls, r) \<Longrightarrow> next_line_boundary r False = None"
proof (induction p arbitrary: ls rule: split_lines.induct)
  case (1 p)
  show ?case
  proof (cases "next_line_boundary p False")
    case None
    with 1(2) show ?thesis by (simp add: split_lines_cases)
  next
    case (Some x)
    with 1(1) [OF Some, of "fst x" "snd x"] 1(2) show ?thesis
      by (cases x; cases "split_lines (drop (fst x + snd x) p)") (auto simp: split_lines_cases(2))
  qed
qed

lemma sse_lines_boundary_from:
  "next_line_boundary_from i p False = Some (e, n) \<Longrightarrow>
   sse_lines line (p @ q) = (line @ take (e - i) p, n) # sse_lines [] (drop (e - i + n) p @ q)"
proof (induction i p False arbitrary: line rule: next_line_boundary_from.induct)
  case (2 i b bs)
  show ?case
  proof (cases "b = LF \<or> b = CR")
    case True
    with 2(2) show ?thesis by (cases bs) (auto split: if_splits)
  next
    case False
    with 2(2) have b: "next_line_boundary_from (Suc i) bs False = Some (e, n)" by simp
    from boundary_from_bounds [OF b] have "e - i = Suc (e - Suc i)" by arith
    with 2(1) [OF _ _ b, of "line @ [b]"] False show ?thesis by simp
  qed
qed simp

lemma sse_lines_boundary:
  "next_line_boundary p False = Some (e, n) \<Longrightarrow> sse_lines [] (p @ q) = (take e p, n) # sse_lines [] (drop (e + n) p @ q)"
  using sse_lines_boundary_from [of 0 p e n "[]" q] by (simp add: next_line_boundary_def)

lemma sse_lines_split: "split_lines p = (ls, r) \<Longrightarrow> sse_lines [] (p @ q) = ls @ sse_lines [] (r @ q)"
proof (induction p arbitrary: ls rule: split_lines.induct)
  case (1 p)
  show ?case
  proof (cases "next_line_boundary p False")
    case None
    with 1(2) show ?thesis by (simp add: split_lines_cases)
  next
    case (Some x)
    with 1(1) [OF Some, of "fst x" "snd x"] 1(2) show ?thesis
      by (cases x; cases "split_lines (drop (fst x + snd x) p)") (auto simp: split_lines_cases(2) sse_lines_boundary)
  qed
qed

subsection \<open>The incremental decoder\<close>

lemma drain_lines_split:
  "split_lines (sd_pending d) = (ls, r) \<Longrightarrow> (case process_lines d ls of
     (os, Err e) \<Rightarrow> snd (drain_lines d False es) = Err e
   | (os, Ok d') \<Rightarrow> drain_lines d False es = (d'\<lparr>sd_pending := r\<rparr>, Ok (es @ os)))"
proof (induction d False es arbitrary: ls rule: drain_lines.induct)
  case (1 d es)
  show ?case
  proof (cases "next_line_boundary (sd_pending d) False")
    case None
    with 1(2) show ?thesis by (auto simp: split_lines_cases drain_lines.simps [of d])
  next
    case (Some x)
    obtain e n where x: "x = (e, n)" by fastforce
    let ?p = "drop (e + n) (sd_pending d)" and ?line = "take e (sd_pending d)"
    obtain ks where ks: "split_lines ?p = (ks, r)" "ls = (?line, n) # ks"
      using 1(2) Some x by (cases "split_lines ?p") (auto simp: split_lines_cases(2))
    obtain d2 out where l: "process_line d ?line n [] = (d2, out)" by fastforce
    have l': "process_line (d\<lparr>sd_pending := ?p\<rparr>) ?line n es = (d2\<lparr>sd_pending := ?p\<rparr>, map_sum id ((@) es) out)"
      by (simp add: process_line_at process_line_events [of d _ _ es] l)
    show ?thesis
    proof (cases out)
      case (Inl err)
      with l l' Some x ks show ?thesis by (simp add: drain_lines.simps [of d])
    next
      case (Inr os)
      from 1(1) [OF Some x [symmetric] l' [symmetric], of "es @ os" ks] ks Inr
      have "case process_lines (d2\<lparr>sd_pending := ?p\<rparr>) ks of
          (os', Err e) \<Rightarrow> snd (drain_lines (d2\<lparr>sd_pending := ?p\<rparr>) False (es @ os)) = Err e
        | (os', Ok d') \<Rightarrow> drain_lines (d2\<lparr>sd_pending := ?p\<rparr>) False (es @ os) = (d'\<lparr>sd_pending := r\<rparr>, Ok (es @ os @ os'))"
        by simp
      with l l' Some x ks Inr show ?thesis
        by (cases "process_lines d2 ks"; cases "snd (process_lines d2 ks)")
          (simp_all add: drain_lines.simps [of d] process_lines_at)
    qed
  qed
qed

definition sse_idle :: "SseEventDecoder \<Rightarrow> bool" where
  "sse_idle d \<longleftrightarrow> next_line_boundary (sd_pending d) False = None"

definition whole_input :: "SseEventDecoder \<Rightarrow> string \<Rightarrow> SseEvent list \<times> (SseDecodeError + SseEventDecoder)" where
  "whole_input d bytes = (let (ls, r) = split_lines (sd_pending d @ bytes) in
     case process_lines d ls of (es, Err e) \<Rightarrow> (es, Err e) | (es, Ok d') \<Rightarrow> (es, Ok (d'\<lparr>sd_pending := r\<rparr>)))"

lemma push_whole:
  "case whole_input d c of
     (es, Err e) \<Rightarrow> snd (sse_push d c) = Err e
   | (es, Ok d') \<Rightarrow> sse_push d c = (d', rbind (ensure_pending_bounded d') (\<lambda>_. Ok es))"
proof -
  obtain ls r where s: "split_lines (sd_pending d @ c) = (ls, r)" by fastforce
  from drain_lines_split [of "d\<lparr>sd_pending := sd_pending d @ c\<rparr>" ls r "[]"] s show ?thesis
    by (cases "drain_lines (d\<lparr>sd_pending := sd_pending d @ c\<rparr>) False []")
      (auto simp: sse_push_def sse_drain_def whole_input_def process_lines_at split: prod.splits sum.splits)
qed

interpretation sse: chunked sse_push whole_input sse_idle
proof
  fix d c d' es assume d: "sse_idle d"
  show "whole_input d c = (es, Ok d') \<and> sse_idle d'" if "sse_push d c = (d', Ok es)"
    using that push_whole [of d c] split_lines_rest [of "sd_pending d @ c"]
    by (auto simp: whole_input_def sse_idle_def result_iff split: prod.splits sum.splits)
  show "whole_input d [] = ([], Ok d)" using d by (simp add: whole_input_def sse_idle_def split_lines_cases)
  show "whole_input d (a @ b) = (case whole_input d a of
      (es, Err e) \<Rightarrow> (es, Err e) | (es, Ok d') \<Rightarrow> apfst ((@) es) (whole_input d' b))" for a b
    using split_lines_append [of "sd_pending d @ a" b]
    by (simp add: whole_input_def process_lines_append process_lines_at apfst_def map_prod_def
        split: prod.splits sum.splits)
qed

subsection \<open>The end of the input\<close>

lemma sse_lines_plain:
  "\<forall>c \<in> set q. c \<noteq> LF \<and> c \<noteq> CR \<Longrightarrow> sse_lines line (q @ s) = sse_lines (line @ q) s"
  by (induction q arbitrary: line) simp_all

lemma boundary_plain:
  "\<forall>c \<in> set q. c \<noteq> LF \<and> c \<noteq> CR \<Longrightarrow> next_line_boundary_from i (q @ s) f = next_line_boundary_from (i + length q) s f"
  by (induction q arbitrary: i) simp_all

lemma sse_idle_cases:
  assumes "next_line_boundary r False = None"
  obtains (plain) "\<forall>c \<in> set r. c \<noteq> LF \<and> c \<noteq> CR" | (cr) q where "r = q @ [CR]" "\<forall>c \<in> set q. c \<noteq> LF \<and> c \<noteq> CR"
proof -
  have "next_line_boundary_from i r False = None \<Longrightarrow>
    (\<forall>c \<in> set r. c \<noteq> LF \<and> c \<noteq> CR) \<or> (\<exists>q. r = q @ [CR] \<and> (\<forall>c \<in> set q. c \<noteq> LF \<and> c \<noteq> CR))" for i
  proof (induction i r False rule: next_line_boundary_from.induct)
    case (2 i b bs)
    show ?case
    proof (cases "b = CR")
      case True
      with 2(2) have "bs = []" by (auto split: list.splits if_splits)
      with True show ?thesis by (auto intro: exI [of _ "[]"])
    next
      case False
      with 2(2) have b: "b \<noteq> LF" "next_line_boundary_from (Suc i) bs False = None" by (auto split: if_splits)
      from 2(1) [OF b(1) False b(2)] b(1) False show ?thesis
        by (elim disjE exE conjE) (auto intro: exI [of _ "b # _"])
    qed
  qed simp
  with assms that show thesis by (auto simp: next_line_boundary_def)
qed

lemma sse_finish_idle:
  assumes "sse_idle d"
  shows "case process_lines d (sse_lines [] (sd_pending d)) of
     (es, Err e) \<Rightarrow> snd (sse_finish d) = Err e
   | (es, Ok d') \<Rightarrow> snd (sse_finish d) = Ok (es @ flush d')"
  using assms [unfolded sse_idle_def]
proof (cases rule: sse_idle_cases)
  case plain
  then have b: "next_line_boundary (sd_pending d) True = None" "sse_lines [] (sd_pending d) = (if sd_pending d = [] then [] else [(sd_pending d, 1)])"
    using boundary_plain [of "sd_pending d" 0 "[]" True] sse_lines_plain [of "sd_pending d" "[]" "[]"]
    by (simp_all add: next_line_boundary_def)
  then show ?thesis
    by (cases "process_line d (sd_pending d) 1 []")
      (auto simp: sse_finish_def sse_drain_def drain_lines.simps [of d] process_line_at dispatch_def flush_def
        split: sum.split option.split)
next
  case (cr q)
  then have b: "next_line_boundary (sd_pending d) True = Some (length q, 1)" "sse_lines [] (sd_pending d) = [(q, 1)]"
    using boundary_plain [of q 0 "[CR]" True] sse_lines_plain [of q "[]" "[CR]"] by (simp_all add: next_line_boundary_def)
  moreover obtain d' r where l: "process_line d q 1 [] = (d', r)" by fastforce
  moreover have "drain_lines (d'\<lparr>sd_pending := []\<rparr>) True es = (d'\<lparr>sd_pending := []\<rparr>, Ok es)" for es
    by (simp add: drain_lines.simps [of "d'\<lparr>sd_pending := []\<rparr>"] next_line_boundary_def)
  ultimately show ?thesis using cr(1)
    by (auto simp: sse_finish_def sse_drain_def drain_lines.simps [of d] process_line_at dispatch_def flush_def
        split: sum.split option.split)
qed

end
