(* ===== verification/Sse_Claims.thy ===== *)
theory Sse_Claims
  imports Sse_Props
begin

section \<open>Server-sent events: sessions\<close>

text \<open>
  What a whole session returns: soundness with respect to the reference, and the bound under
  which every chunking of an input is accepted.
\<close>

definition sse_session :: "SseEventDecoder \<Rightarrow> string list \<Rightarrow> SseEvent list \<times> (SseDecodeError + unit)" where
  "sse_session d chunks = (case run_chunks sse_push d chunks of
     (es, Err e) \<Rightarrow> (es, Err e)
   | (es, Ok d') \<Rightarrow> (case sse_finish d' of
       (_, Err e) \<Rightarrow> (es, Err e)
     | (_, Ok fs) \<Rightarrow> (es @ fs, Ok ())))"

subsection \<open>Smaller limits\<close>

abbreviation limited :: "nat \<Rightarrow> SseEventDecoder \<Rightarrow> SseEventDecoder" where
  "limited l d \<equiv> d\<lparr>sd_max_event_bytes := l\<rparr>"

definition same_limits :: "SseEventDecoder \<Rightarrow> SseEventDecoder \<Rightarrow> bool" where
  "same_limits d d' \<longleftrightarrow> sd_max_event_bytes d' = sd_max_event_bytes d \<and> sd_max_pending_bytes d' = sd_max_pending_bytes d"

lemma set_field_wire [simp]: "pe_wire_bytes (set_field f v e) = pe_wire_bytes e"
  by (simp add: set_field_def)

lemma process_line_limited:
  assumes "process_line (limited l d) line n [] = (d1, Ok es)" and "l \<le> sd_max_event_bytes d"
  shows "\<exists>d2. process_line d line n [] = (d2, Ok es) \<and> d1 = limited l d2 \<and> same_limits d d2"
  using assms
  by (auto simp: process_line_def dispatch_def ensure_event_bounded_def process_field_eq case_prod_beta Let_def
      same_limits_def check_def split: option.splits sum.splits if_splits)

lemma process_lines_limited:
  "process_lines (limited l d) ls = (es, Ok d1) \<Longrightarrow> l \<le> sd_max_event_bytes d \<Longrightarrow>
   \<exists>d2. process_lines d ls = (es, Ok d2) \<and> d1 = limited l d2 \<and> same_limits d d2"
proof (induction ls arbitrary: d es)
  case Nil
  then show ?case by (auto simp: same_limits_def)
next
  case (Cons x ls)
  obtain line n where x: "x = (line, n)" by fastforce
  obtain d' es1 es2 where l: "process_line (limited l d) line n [] = (d', Ok es1)"
    "process_lines d' ls = (es2, Ok d1)" "es = es1 @ es2"
    using Cons(2) x by (auto simp: apfst_def map_prod_def split: prod.splits sum.splits)
  from process_line_limited [OF l(1) Cons(3)] obtain d2 where d2: "process_line d line n [] = (d2, Ok es1)"
    "d' = limited l d2" "same_limits d d2" by blast
  from Cons(1) [of d2 es2] l(2) d2 Cons(3) obtain d3 where "process_lines d2 ls = (es2, Ok d3)" "d1 = limited l d3"
    "same_limits d2 d3" by (auto simp: same_limits_def)
  with x d2 l(3) show ?case by (auto simp: same_limits_def)
qed

lemma process_line_wire:
  assumes "process_line d line n [] = (d', Ok es)" and "pe_wire_bytes (sd_event d) \<le> sd_max_event_bytes d"
  shows "pe_wire_bytes (sd_event d') \<le> sd_max_event_bytes d' \<and> same_limits d d' \<and>
    (line \<noteq> [] \<longrightarrow> saturating_add_u64 (saturating_add_u64 (pe_wire_bytes (sd_event d)) (length line)) n \<le> sd_max_event_bytes d)"
  using assms
  by (auto simp: process_line_def dispatch_def ensure_event_bounded_def process_field_eq case_prod_beta Let_def
      same_limits_def check_def default_pending_def split: option.splits sum.splits if_splits)

lemma process_lines_wire:
  "process_lines d ls = (es, Ok d') \<Longrightarrow> pe_wire_bytes (sd_event d) \<le> sd_max_event_bytes d \<Longrightarrow>
   pe_wire_bytes (sd_event d') \<le> sd_max_event_bytes d'"
proof (induction d ls arbitrary: es rule: process_lines.induct)
  case (2 d line n ls)
  obtain d1 es1 es2 where l: "process_line d line n [] = (d1, Ok es1)" "process_lines d1 ls = (es2, Ok d')"
    using 2(2) by (auto simp: apfst_def map_prod_def split: prod.splits sum.splits)
  from process_line_wire [OF l(1) 2(3)] show ?case by (intro 2(1) [OF l(1) [symmetric] refl l(2)]) simp
qed simp

subsection \<open>Bytes waiting for the end of their line\<close>

lemma sse_lines_first:
  "line \<noteq> [] \<Longrightarrow> \<exists>l n ls. sse_lines line s = (l, n) # ls \<and> l \<noteq> [] \<and> length line \<le> length l \<and> 0 < n"
proof (induction s arbitrary: line)
  case (Cons b bs)
  show ?case
  proof (cases "b = LF \<or> b = CR")
    case True
    with Cons(2) show ?thesis by (cases bs) auto
  next
    case False
    from Cons(1) [of "line @ [b]"] obtain l n ls where "sse_lines (line @ [b]) bs = (l, n) # ls" "l \<noteq> []"
      "length (line @ [b]) \<le> length l" "0 < n" by blast
    with False show ?thesis by simp
  qed
qed simp

lemma first_line_fits:
  assumes "process_lines d ((line, n) # ls) = (es, Ok d')" and "line \<noteq> []" and "pe_wire_bytes (sd_event d) \<le> sd_max_event_bytes d"
    and "k \<le> length line + n"
  shows "saturating_add_u64 (pe_wire_bytes (sd_event d)) k \<le> sd_max_event_bytes d"
proof -
  from assms(1) obtain d1 es1 where "process_line d line n [] = (d1, Ok es1)" by (auto split: prod.splits sum.splits)
  from process_line_wire [OF this assms(3)] assms(2,4) show ?thesis by (auto simp: saturating_add_u64_def min_def split: if_splits)
qed

lemma pending_fits:
  assumes "next_line_boundary r False = None" and "process_lines d (sse_lines [] (r @ rest)) = (es, Ok d')"
    and "pe_wire_bytes (sd_event d) \<le> sd_max_event_bytes d"
  shows "saturating_add_u64 (pe_wire_bytes (sd_event d)) (length r) \<le> Suc (sd_max_event_bytes d)"
  using assms(1)
proof (cases rule: sse_idle_cases)
  case plain
  note lines = sse_lines_plain [OF plain, of "[]" rest]
  show ?thesis
  proof (cases "r = []")
    case True
    with assms(3) show ?thesis by (simp add: saturating_add_u64_def)
  next
    case False
    from sse_lines_first [OF False, of rest] obtain l n ls
      where l: "sse_lines r rest = (l, n) # ls" "l \<noteq> []" "length r \<le> length l" by blast
    with first_line_fits [of d l n ls es d' "length r"] assms(2,3) lines show ?thesis by simp
  qed
next
  case (cr q)
  have "sse_lines [] (r @ rest) = sse_lines q (CR # rest)" using sse_lines_plain [OF cr(2), of "[]" "CR # rest"] cr(1) by simp
  moreover have "\<exists>n ls. sse_lines q (CR # rest) = (q, n) # ls \<and> 0 < n" by (cases rest) auto
  ultimately obtain n ls where l: "sse_lines [] (r @ rest) = (q, n) # ls" "0 < n" by auto
  show ?thesis
  proof (cases "q = []")
    case True
    with cr assms(3) show ?thesis by (simp add: saturating_add_u64_def min_def)
  next
    case False
    with first_line_fits [of d q n ls es d' "length r"] assms(2,3) l cr(1) show ?thesis by simp
  qed
qed

subsection \<open>Sessions\<close>

text \<open>A decoder all of whose future lines fit a limit below the one for pending bytes.\<close>

definition lines_fit :: "nat \<Rightarrow> SseEventDecoder \<Rightarrow> string \<Rightarrow> bool" where
  "lines_fit l d bytes \<longleftrightarrow> l < sd_max_pending_bytes d \<and> l \<le> sd_max_event_bytes d \<and> pe_wire_bytes (sd_event d) \<le> l \<and>
     (\<exists>es d'. process_lines (limited l d) (sse_lines [] (sd_pending d @ bytes)) = (es, Ok d'))"

lemma push_accepts:
  assumes "lines_fit l d (c @ rest)"
  shows "\<exists>d' es. sse_push d c = (d', Ok es) \<and> lines_fit l d' rest"
proof -
  obtain ls r where s: "split_lines (sd_pending d @ c) = (ls, r)" by fastforce
  obtain es d' where p: "process_lines (limited l d) (ls @ sse_lines [] (r @ rest)) = (es, Ok d')"
    using assms sse_lines_split [OF s, of rest] by (auto simp: lines_fit_def)
  then obtain es1 es2 d1 where p1: "process_lines (limited l d) ls = (es1, Ok d1)"
    and p2: "process_lines d1 (sse_lines [] (r @ rest)) = (es2, Ok d')"
    by (auto simp: process_lines_append apfst_def map_prod_def split: prod.splits sum.splits)
  have l: "l < sd_max_pending_bytes d" "l \<le> sd_max_event_bytes d" "pe_wire_bytes (sd_event d) \<le> l"
    using assms by (simp_all add: lines_fit_def)
  from process_lines_limited [OF p1 l(2)] obtain d2 where d2: "process_lines d ls = (es1, Ok d2)" "d1 = limited l d2"
    "same_limits d d2" by blast
  have wire: "pe_wire_bytes (sd_event d2) \<le> l" using process_lines_wire [OF p1] l(3) d2(2) by simp
  have "saturating_add_u64 (pe_wire_bytes (sd_event d2)) (length r) \<le> Suc l"
    using pending_fits [OF split_lines_rest [OF s] p2] wire d2(2) by simp
  then have "sse_push d c = (d2\<lparr>sd_pending := r\<rparr>, Ok es1)"
    using push_whole [of d c] s d2 l(1) by (simp add: whole_input_def ensure_pending_bounded_def same_limits_def)
  moreover have "process_lines (limited l (d2\<lparr>sd_pending := r\<rparr>)) (sse_lines [] (r @ rest)) = (es2, Ok (d'\<lparr>sd_pending := r\<rparr>))"
  proof -
    have "limited l (d2\<lparr>sd_pending := r\<rparr>) = (limited l d2)\<lparr>sd_pending := r\<rparr>" by simp
    with p2 d2(2) show ?thesis by (simp only: process_lines_at) simp
  qed
  ultimately show ?thesis using l wire d2(3) by (auto simp: lines_fit_def same_limits_def)
qed

lemma run_accepts: "lines_fit l d (concat cs) \<Longrightarrow> \<exists>d' es. run_chunks sse_push d cs = (es, Ok d') \<and> lines_fit l d' []"
proof (induction cs arbitrary: d)
  case (Cons c cs)
  from push_accepts [of l d c "concat cs"] Cons(2) obtain d1 es1
    where d1: "sse_push d c = (d1, Ok es1)" "lines_fit l d1 (concat cs)" by auto
  from Cons(1) [OF d1(2)] d1(1) show ?case by auto
qed simp

lemma lines_fit_finish: "sse_idle d \<Longrightarrow> lines_fit l d [] \<Longrightarrow> \<exists>es. snd (sse_finish d) = Ok es"
  using sse_finish_idle [of d] process_lines_limited [of l d "sse_lines [] (sd_pending d)"]
  by (fastforce simp: lines_fit_def split: prod.splits sum.splits)

lemma session_sound:
  assumes "sse_idle d" and "sd_pending d = []" and "sse_session d chunks = (es, Ok ())"
  shows "sse_reference d (concat chunks) = (es, Ok ())"
proof -
  obtain es1 d1 fs where r: "run_chunks sse_push d chunks = (es1, Ok d1)" "snd (sse_finish d1) = Ok fs" "es = es1 @ fs"
    using assms(3) by (auto simp: sse_session_def split: prod.splits sum.splits)
  from sse.run_sound [OF assms(1) r(1)] have w: "whole_input d (concat chunks) = (es1, Ok d1)" "sse_idle d1" by auto
  obtain ls q where s: "split_lines (concat chunks) = (ls, q)" by fastforce
  with w(1) assms(2) obtain d2 where d2: "process_lines d ls = (es1, Ok d2)" "d1 = d2\<lparr>sd_pending := q\<rparr>"
    by (auto simp: whole_input_def split: prod.splits sum.splits)
  have "case process_lines d1 (sse_lines [] q) of (es, Err e) \<Rightarrow> False | (es, Ok d') \<Rightarrow> fs = es @ flush d'"
    using sse_finish_idle [OF w(2)] r(2) d2(2) by (auto split: prod.splits sum.splits)
  moreover have "sse_lines [] (concat chunks) = ls @ sse_lines [] q" using sse_lines_split [OF s, of "[]"] by simp
  ultimately show ?thesis using d2 r(3)
    by (cases "process_lines d2 (sse_lines [] q)"; cases "snd (process_lines d2 (sse_lines [] q))")
      (auto simp: sse_reference_def process_lines_append process_lines_at flush_def)
qed

lemma with_limits_idle: "sse_idle (with_limits p e)" "sd_pending (with_limits p e) = []"
  by (simp_all add: with_limits_def sse_idle_def next_line_boundary_def Let_def)

text \<open>
  C40. The decoder of server-sent events is blind to chunk boundaries: what a session returns is
  what cutting the whole input into lines and processing them in order returns, wherever the
  network split the input, inside a CRLF or a multi-byte character included. And every split of
  an input whose events stay below the limit for pending bytes is accepted, with the same
  events.
\<close>

theorem sse_chunk_free:
  "(sse_session (with_limits p e) chunks = (events, Ok ()) \<longrightarrow>
      sse_reference (with_limits p e) (concat chunks) = (events, Ok ())) \<and>
   (l < p \<and> sse_reference ((with_limits p e)\<lparr>sd_max_event_bytes := l\<rparr>) (concat chunks) = (events, Ok ()) \<longrightarrow>
      sse_session (with_limits p e) chunks = (events, Ok ()))"
proof (intro conjI impI)
  let ?d = "with_limits p e"
  show "sse_session ?d chunks = (events, Ok ()) \<Longrightarrow> sse_reference ?d (concat chunks) = (events, Ok ())"
    by (rule session_sound [OF with_limits_idle])
  assume l: "l < p \<and> sse_reference (limited l ?d) (concat chunks) = (events, Ok ())"
  then obtain es d1 where p1: "process_lines (limited l ?d) (sse_lines [] (concat chunks)) = (es, Ok d1)" "events = es @ flush d1"
    by (auto simp: sse_reference_def split: prod.splits sum.splits)
  have le: "l \<le> sd_max_event_bytes ?d" using l by (auto simp: with_limits_def Let_def le_max_iff_disj)
  have "lines_fit l ?d (concat chunks)"
    using l p1 le with_limits_idle(2) [of p e] by (auto simp: lines_fit_def with_limits_def default_pending_def Let_def)
  from run_accepts [OF this] obtain d2 es2 where r: "run_chunks sse_push ?d chunks = (es2, Ok d2)" "lines_fit l d2 []" by blast
  with sse.run_sound [OF with_limits_idle(1) r(1)] lines_fit_finish [of d2 l] obtain fs where "snd (sse_finish d2) = Ok fs" by blast
  with r(1) have session: "sse_session ?d chunks = (es2 @ fs, Ok ())" by (auto simp: sse_session_def split: prod.split)
  from process_lines_limited [OF p1(1) le] obtain d3 where "process_lines ?d (sse_lines [] (concat chunks)) = (es, Ok d3)"
    "d1 = limited l d3" by blast
  with p1(2) have "sse_reference ?d (concat chunks) = (events, Ok ())" by (simp add: sse_reference_def flush_def)
  with session_sound [OF with_limits_idle session] session show "sse_session ?d chunks = (events, Ok ())" by simp
qed

definition demo_sse_event :: "string \<Rightarrow> SseEvent" where
  "demo_sse_event data = \<lparr>se_event = None, se_data = data, se_has_data = True, se_id = None, se_retry = None,
     se_comment_lines = 0, se_unknown_fields = 0\<rparr>"

lemmas sse_eval = process_line_def process_field_def field_value_def set_field_def ensure_event_bounded_def
  ensure_pending_bounded_def dispatch_def into_event_def default_pending_def starts_with_def strip_prefix_def
  saturating_add_u64_def u64_max_def utf8_error_def check_seq_def utf8_width_def byte_def Let_def

theorem sse_chunk_free_witness:
  "sse_session (with_limits 64 64) [''data'', '': a'' @ [CR], [LF, CR], LF # ''data: b''] = ([demo_sse_event ''a'', demo_sse_event ''b''], Ok ())"
proof -
  let ?chunks = "[''data'', '': a'' @ [CR], [LF, CR], LF # ''data: b'']"
  have "sse_lines [] (concat ?chunks) = [(''data: a'', 2), ([], 2), (''data: b'', 1)]" by simp
  then have "sse_reference ((with_limits 64 64)\<lparr>sd_max_event_bytes := 63\<rparr>) (concat ?chunks) = ([demo_sse_event ''a'', demo_sse_event ''b''], Ok ())"
    by (simp add: sse_reference_def with_limits_def flush_def demo_sse_event_def sse_eval)
  then show ?thesis by (intro sse_chunk_free [of 64 64 _ _ 63, THEN conjunct2, rule_format] conjI) simp_all
qed

text \<open>
  The byte of slack in the second part is needed. An event that fills the limit exactly is
  refused when the input is cut between the CR and the LF of the empty line that ends it, and
  accepted in one piece.
\<close>

lemma sse_limit_depends_on_chunks:
  "sse_session (new_decoder 9) [''data: 1'' @ [CR, LF, CR], [LF]] = ([], Err (EventTooLarge 9)) \<and>
   sse_session (new_decoder 9) [''data: 1'' @ [CR, LF, CR, LF]] = ([demo_sse_event ''1''], Ok ())"
  by (simp add: sse_session_def new_decoder_def with_limits_def demo_sse_event_def sse_push_def sse_finish_def sse_drain_def
      drain_lines.simps next_line_boundary_def sse_eval)

end
