(* ===== verification/Spec2Isabelle.thy ===== *)
theory Spec2Isabelle
  imports Quota_Cycle_Props Quota_Ledger_Store In_Flight Recovery Ingress_Props Usage_Rollup_Props
    Market_Rebuild Share_Metering Share_Gate_Props Resident_Memory_Props Json_Value_Props Response_Cache_Props
    Request_Governance_Props Event_Stream_Claims Sse_Claims
begin

text \<open>
  \<^bold>\<open>Verification of cc-switch-server.\<close> The server lends upstream AI accounts to users: an
  account's provider is published as a Share, users hold grants with quotas on it, and a router
  forwards their requests to the server, which checks them, meters them and relays the answer.
  The library models the parts that decide who may use what and how much was used, and the
  decoders every streamed answer passes through.

  \<^bold>\<open>How a request runs through the modelled parts.\<close> The middleware of \<open>api/mod.rs\<close> verifies the
  signed context of the router (Ingress). The share store admits the request
  (\<open>validate_for_invocation\<close>, Share\_Admission), which asks the market trials (Market\_Trials)
  for the budget of a market user and the usage buckets (Share\_Usage, Token\_Period) for the
  user's quota. Leases bound what runs at once (In\_Flight); the handler that takes the locks of
  both, and tells the client of a refusal, is Share\_Gate with Proxy\_Error. While the upstream is tried, a
  request may be replayed under the rules of Recovery, its body is decoded within a limit and filtered
  (Request\_Governance) and charged to the memory budgets (Resident\_Memory, Json\_Value), the items of an earlier response it refers to come from the cache
  (Response\_Cache), and the answer is decoded from its chunks (Event\_Stream, Sse). The settled record (Usage\_Log) is committed to the exact usage ledger
  (Quota\_Ledger and its storage), to the rollups (Usage\_Rollup), to the market receipts and to
  the share's counters. Which quota period of an upstream account is current is decided by the
  cycle ledger (Quota\_Cycle); the rebuilds and operator corrections of Share\_Rebuild read all of
  these.

  \<^bold>\<open>Theories and sources\<close> (paths under \<open>src/src\<close>).
  \<^item> Prelude, Ordered\_Map, Rust\_Str, Byte\_Str, Chunked: results as sums, checked and
    saturating integers, \<open>BTreeMap\<close> as an ordered association list, the string, slice and UTF-8
    operations of the standard library, and the locales \<open>transition_system\<close>, \<open>ordered_map\<close>,
    \<open>chunked\<close> and \<open>chunked_exact\<close> that the components interpret.
  \<^item> Quota\_Cycle, Quota\_Cycle\_Inv, Quota\_Cycle\_Run, Quota\_Cycle\_Props:
    \<open>domain/sharing/quota_cycle.rs\<close>. A ledger is a record, each \<open>&mut self\<close> method returns the new
    ledger beside its result. C1 validity of every reachable ledger, C2 that \<open>observe\<close>
    returns, C38 with what, C4 due boundaries, C6 the fence; \<open>apply_reset_replay\<close> shows that an
    event delivered again changes nothing.
  \<^item> Usage\_Log, Quota\_Ledger, Quota\_Ledger\_Props, Quota\_Ledger\_Store:
    \<open>domain/usage/quota_ledger.rs\<close>, \<open>UsageLog\<close> of \<open>domain/usage/store.rs\<close> and
    \<open>repository/server_sqlite/quota.rs\<close>. C7 validity, C8 stable snapshots and C10 isolated scopes,
    both up to the requests that wait for recovery after a restart, C9 revisions replace, C11 replay, C12 store and load, C13 the single-revision commit
    refines the commit against the whole ledger.
  \<^item> In\_Flight: \<open>state/in_flight.rs\<close>. C14 limits, C15 exact counting of leases, under every
    interleaving; the locale \<open>lease_counter\<close> is interpreted for both trackers, and
    \<open>account_leases_exact\<close> counts those of the accounts.
  \<^item> Recovery: \<open>proxy/execution/recovery.rs\<close>, \<open>terminal.rs\<close>, \<open>context.rs\<close>. C17 bounded replays,
    C18 none after the first output; \<open>binding_only_refreshes\<close> shows that a refresh keeps the binding.
  \<^item> Ingress, Ingress\_Props: \<open>clients/router/ingress.rs\<close> and the middlewares of \<open>api/mod.rs\<close>. C20
    authenticity, C21 trusted headers, C22 single use, C23 recovery of the replay cache, for
    requests that ask the cache with arbitrary clocks in any order;
    \<open>stalled_body_forwarded_twice\<close> is the window in which a stalled body is forwarded twice.
  \<^item> Value\_Decimal: the amounts of \<open>domain/usage/value_pricing.rs\<close>, read and printed without loss
    (\<open>unsigned_decimal_roundtrip\<close>). C26 exact limits.
  \<^item> Gregorian: the calendar itself, on day numbers, as the reference for what \<open>chrono\<close> is assumed
    to answer.
  \<^item> Share\_Types, Token\_Period, Share\_Usage, Share\_Usage\_Props: the data of
    \<open>domain/sharing/router_contract.rs\<close>, \<open>token_period.rs\<close> and the usage side of \<open>shares.rs\<close>. C27 windows
    partition time into the days, weeks and months of the calendar; \<open>market_deltas_order_free\<close> shows that settlements commute (locale
    \<open>commuting_updates\<close>).
  \<^item> Usage\_Rollup, Usage\_Rollup\_Props: the rollups of \<open>domain/usage/store.rs\<close>. C28 the rollup query
    equals the sum over the records; \<open>untrimmed_email_at_the_edge\<close> is why it asks for trimmed emails.
  \<^item> Market\_Trials, Managed\_Grants and their Inv, Props, Claims and Rebuild theories:
    \<open>domain/sharing/market_trials.rs\<close> and the managed grants of \<open>shares.rs\<close>, as the transition
    system \<open>market_step\<close>. C30 the trial counter is exact, C31 a spent trial never reopens,
    C33 incremental metering agrees with the rebuild; \<open>settlement_idempotent\<close> covers repeated records.
  \<^item> Share\_Admission, Share\_Rebuild, Share\_Claims, Share\_Metering: admission, accounting, rebuilds and
    corrections of \<open>shares.rs\<close> over the locale \<open>share_store\<close>. C34 admission after any history of
    recordings, in terms of the recorded tokens, C35 quotas close, C36 rejections change nothing
    else, C37 rebuilds restore the history; \<open>late_recording_clears_window\<close> and
    \<open>rebase_counts_in_every_window\<close> are the limits of the bookkeeping.
  \<^item> Proxy\_Error, Share\_Gate, Share\_Gate\_Props: \<open>ProxyError\<close> of \<open>proxy/mod.rs\<close>, its form for inference
    clients in \<open>api/error.rs\<close>, and the handlers of \<open>state.rs\<close> and \<open>proxy/forwarder.rs\<close> that validate,
    lease and record, as the transition system \<open>serve_step\<close> of all requests: the checks before the
    lifecycle lock, validation, lease, recording and release are separate steps that interleave.
    In this theory, C24 every refusal reaches the client as written and C25 how far a share can
    overshoot its limit. Both span the share store, the leases and the errors.
  \<^item> Resident\_Memory, Resident\_Memory\_Props: \<open>infra/resident_memory.rs\<close> and
    \<open>proxy/request_memory.rs\<close>, the budget of the process and the budgets of requests under it, as the
    transition system \<open>memory_step\<close>. C16 the books are exact and no step ends above the limit.
  \<^item> Json\_Value, Json\_Value\_Props: the sizes those budgets are charged with. C19 the
    size counted for a value is the size written; \<open>parse_estimate_conservative\<close> says for which sizes
    and capacities of a value the reservation before parsing covers it.
  \<^item> Response\_Cache, Response\_Cache\_Props: \<open>domain/sharing/previous_response_cache.rs\<close>, as the
    transition system \<open>cache_step\<close> beside the other owners of the process. C5 scopes are isolated and
    items fresh, C32 bounds, statistics and memory of the cache.
  \<^item> Request\_Governance, Request\_Governance\_Props: \<open>proxy/request_governance.rs\<close>, the decoding of compressed
    bodies and the filter of private fields. C3 decoded bodies are bounded and exact, C29 the filter
    removes the private fields and nothing else.
  \<^item> Event\_Stream, Event\_Stream\_Props, Event\_Stream\_Claims: \<open>proxy/kiro/wire\<close>. C39 exact decoding from
    any chunks, and the round trip of encoded messages.
  \<^item> Sse, Sse\_Props, Sse\_Claims: \<open>proxy/sse_transport.rs\<close>. C40 decoding does not depend on the chunks.

  \<^bold>\<open>Conventions.\<close> \<open>u64\<close>, \<open>u32\<close> and \<open>usize\<close> are \<open>nat\<close> with the checked and saturating operations of
  the source written out at their width, \<open>i64\<close> and \<open>i128\<close> are \<open>int\<close> likewise, checksums are 32-bit words.
  Strings are byte lists. \<open>Result\<close> is a sum and every early return is a branch. Loops are total
  functions: structural, or with a measure (the lines and frames left in a buffer, the offset in
  a header block, the entries and tombstones left to evict); the one loop whose end is not evident from its arguments, \<open>observe\<close>, is a
  partial function in the option monad, and C2 proves that it returns on every reachable ledger,
  so no fuel occurs anywhere. Mutexes make the operations of a tracker atomic, so concurrency is
  the interleaving of whole steps.

  \<^bold>\<open>Parameters\<close> stand for code outside the repository, with what is relied on as hypotheses:
  the \<open>chrono\<close> calendar (\<open>utc_calendar\<close>: it is the Gregorian calendar; a concrete instance
  has it for the year 1970), the
  JSON encoder of scope keys (injective on scopes), the base64, JSON, HMAC and SHA-256 functions
  of the ingress (\<open>ingress_lib\<close>), the chunks a JSON serialiser writes and the sizes of values in memory
  (\<open>cache_lib\<close>), the decompressors (\<open>codec_lib\<close>), the random identifiers of \<open>opaque_id\<close> (a stream), the clock and
  the watermark of the journal (arguments).

  \<^bold>\<open>Not modelled.\<close> HTTP handlers, forwarder and tunnel are asynchronous I/O around the modelled
  decisions; the provider runtimes and OAuth clients talk to services whose behaviour is not in
  the repository; SQL statements, files and backups are I/O. The protocol transforms rewrite
  JSON documents of third-party dialects and are not begun. Of the share registry the creation,
  settings patches and router synchronisation are missing, of the pricing the price tables, of
  the event stream the reading of JSON payloads, of the request governance the replacement of
  images; load shedding, retry policies and the model health are not begun. Metrics, timings, logging and the JSON mirror of the counters in a share are
  left out of the models that would carry them.
\<close>

section \<open>Properties of the whole path\<close>

text \<open>
  C24. No refusal is lost or misread on its way to the client: whichever check refuses a request,
  the answer is built (the branch the code marks as unreachable is), the client is shown the text of
  the rejection without any internal prefix, the numbers of a concurrency limit are read back
  exactly from the text that carries them and only then, no retry period appears, and only an
  unavailable quota is ever marked as worth retrying.
\<close>

theorem rejection_reaches_client:
  assumes "value_gate failed allow store i email = Err r \<or> router_gate supported store i email = Err r \<or>
      ledger_gate degraded usage reset store i email = Err r \<or>
      snd (validate_for_invocation cal store i app email now) = Err r \<or> snd (acquire_invocation m iv) = Err r"
    and "\<And>c. rj_concurrency r = Some c \<Longrightarrow> cl_current c \<le> u32_max \<and> cl_limit c \<le> u32_max"
  shows "\<exists>e. share_rejection_to_proxy_error r = Some e \<and>
    client_message e = (if rj_concurrency r = None \<and> rj_reason r \<noteq> UserIdentityRequired then formatted_message r else rj_message r) \<and>
    map_option (\<lambda>m. \<lparr>cl_current = cm_current m, cl_limit = cm_limit m\<rparr>) (concurrency_metadata e) = rj_concurrency r \<and>
    retry_after_seconds e = None \<and> (rj_reason r \<noteq> QuotaUnavailable \<longrightarrow> \<not> retryable e)"
proof (rule told_reaches_client [OF _ assms(2)])
  show "well_told r" using assms(1) by (elim disjE) (erule gates_told validate_told acquire_told)+
qed

theorem rejection_reaches_client_witness:
  "\<exists>e. share_rejection_to_proxy_error (lease_rejection (ShareLimit 1 1)) = Some e \<and>
    map_option cm_current (concurrency_metadata e) = Some 1 \<and> \<not> retryable e"
proof -
  have "snd (acquire_invocation demo_lease demo_invocation) = Err (lease_rejection (ShareLimit 1 1))"
    by (simp add: acquire_invocation_def try_acquire_for_user_def demo_invocation_def demo_lease_def count_of_def reached_def
        bt_get_Cons map_err_def)
  from rejection_reaches_client [OF disjI2 [OF disjI2 [OF disjI2 [OF disjI2 [OF this]]]]]
  show ?thesis by (auto simp: u32_max_def)
qed

text \<open>
  C25. The overshoot of a share is bounded: with a token limit \<open>L\<close>, a parallel limit \<open>P\<close>, requests that
  record at most \<open>M\<close> tokens each and at most \<open>Q\<close> cancelled streams waiting to be recorded after their
  guard is gone, the total stays below \<open>L + (P + Q + 1) * M\<close> however admissions, leases, recordings,
  cancellations and management operations interleave. The extra \<open>M\<close> is the request that is validated
  before another one's tokens arrive and gets its lease after; the witness runs into it, so the
  bound is exact.
\<close>

theorem share_total_bounded:
  assumes "(serve_step cal json M Q)\<^sup>*\<^sup>* (at_rest store) s"
    and "get_share store i = Some share" and "sh_token_limit share = Some L" and "sh_parallel_limit share = Some P"
    and "sh_tokens_used share < L"
  shows "\<exists>share'. get_share (ss_store s) i = Some share' \<and> sh_tokens_used share' < L + (P + Q + 1) * M"
proof -
  have "gate_start i L P (at_rest store)" using assms(2-5) by (auto simp: gate_start_def)
  from gate.reachable_inv [OF this assms(1)] show ?thesis by (auto simp: gate_inv_def total_ok_def dest: add_lessD1)
qed

theorem share_total_bounded_witness:
  "\<exists>s share'. (serve_step year_1970 (\<lambda>_. []) 50 0)\<^sup>*\<^sup>* (at_rest [demo_free 99 0 True]) s \<and>
    get_share (ss_store s) ''s'' = Some share' \<and> sh_tokens_used share' = 199 \<and> sh_tokens_used share' < 100 + (1 + 0 + 1) * 50"
proof -
  let ?s = "demo_server (demo_free 199 2 False) demo_lease Free [(demo_holder, 50)]"
  note run = overshoot_attained [of year_1970 "\<lambda>_. []"]
  have "sh_token_limit (demo_free 99 0 True) = Some 100" "sh_parallel_limit (demo_free 99 0 True) = Some 1"
    "sh_tokens_used (demo_free 99 0 True) < 100" by (simp_all add: demo_free_def)
  from share_total_bounded [OF run demo_free_get this] obtain share' where
    "get_share (ss_store ?s) ''s'' = Some share'" "sh_tokens_used share' < 100 + (1 + 0 + 1) * 50" by blast
  moreover from this(1) have "sh_tokens_used share' = 199" by (auto simp: demo_server_def demo_free_def get_share_def split: if_splits)
  ultimately show ?thesis using run by blast
qed

end
